(* ===== verification/Prelude.thy ===== *)
theory Prelude
  imports Main "HOL-Library.AList" "HOL-Library.Word"
begin

text \<open>
  Shared vocabulary of the development.

  \<^item> Machine integers: \<open>u32\<close> and \<open>u64\<close> are words of HOL-Library.Word; \<open>u32::saturating_sub\<close>
    and \<open>u32::saturating_mul\<close> are written out.
  \<^item> Time: a \<^verbatim>\<open>DateTime<Utc>\<close> is an \<open>int\<close>, its instants counted from the epoch; the unit, and the calendar range of
    chrono (plus or minus 262,000 years) is not modelled.
  \<^item> Text: a Rust \<open>String\<close> is a HOL \<open>string\<close> whose characters are the Unicode scalar values below
    256. \<open>trim\<close>, \<open>to_lowercase\<close> and the word splitter follow Rust on that range.
  \<^item> A \<open>HashMap\<close> is an association list read by \<^const>\<open>map_of\<close> and written by
    \<^const>\<open>AList.update\<close>; a \<open>HashSet\<close> is a list used for membership or a set. No code modelled
    here iterates over a hash container in a way that shows its order.
  \<^item> Named theorem collections: \<open>codec_simps\<close> (string forms of enums), \<open>wf_intros\<close> (operations
    keep the snapshot invariant), \<open>frame_simps\<close> (fields an operation leaves alone).
\<close>

named_theorems codec_simps
named_theorems wf_intros
named_theorems frame_simps

type_synonym u32 = "32 word"
type_synonym u64 = "64 word"
type_synonym timestamp = int

section \<open>Saturating arithmetic\<close>

definition saturating_sub :: "u32 \<Rightarrow> u32 \<Rightarrow> u32" where
  "saturating_sub a b = (if b \<le> a then a - b else 0)"

definition u32_max :: nat where
  "u32_max = 2 ^ 32 - 1"

definition u32_of_usize :: "nat \<Rightarrow> u32" where
  \<comment> \<open>\<^verbatim>\<open>u32::try_from(n).unwrap_or(u32::MAX)\<close>\<close>
  "u32_of_usize n = word_of_nat (min n u32_max)"

definition saturating_mul :: "u32 \<Rightarrow> u32 \<Rightarrow> u32" where
  "saturating_mul a b = u32_of_usize (unat a * unat b)"

lemma unat_u32_of_usize: "unat (u32_of_usize n) = min n u32_max"
  by (simp add: u32_of_usize_def u32_max_def unat_of_nat)

lemma unat_saturating_sub: "unat (saturating_sub a b) = unat a - unat b"
proof (cases "b \<le> a")
  case True
  then show ?thesis by (simp add: saturating_sub_def unat_sub)
next
  case False
  then have "unat a \<le> unat b" by (simp add: word_le_nat_alt)
  with False show ?thesis by (simp add: saturating_sub_def)
qed

lemma saturating_sub_pos: "0 < saturating_sub a b \<longleftrightarrow> unat b < unat a"
  using unat_saturating_sub[of a b] by (simp add: word_less_nat_alt)

lemma unat_saturating_mul: "unat (saturating_mul a b) = min (unat a * unat b) u32_max"
  by (simp add: saturating_mul_def unat_u32_of_usize)

section \<open>Text\<close>

definition code_of :: "char \<Rightarrow> nat" where
  "code_of c = of_char c"

definition is_whitespace :: "char \<Rightarrow> bool" where
  "is_whitespace c = (let n = code_of c in (9 \<le> n \<and> n \<le> 13) \<or> n = 32 \<or> n = 133 \<or> n = 160)"

definition trim_start :: "string \<Rightarrow> string" where
  "trim_start s = dropWhile is_whitespace s"

definition trim_end :: "string \<Rightarrow> string" where
  "trim_end s = rev (dropWhile is_whitespace (rev s))"

definition trim :: "string \<Rightarrow> string" where
  "trim s = trim_end (trim_start s)"

definition trim_end_char :: "char \<Rightarrow> string \<Rightarrow> string" where
  "trim_end_char c s = rev (dropWhile (\<lambda>x. x = c) (rev s))"

definition ascii_lower :: "char \<Rightarrow> char" where
  "ascii_lower c = (let n = code_of c in if 65 \<le> n \<and> n \<le> 90 then char_of (n + 32) else c)"

definition lower :: "char \<Rightarrow> char" where
  "lower c = (let n = code_of c in
     if (65 \<le> n \<and> n \<le> 90) \<or> (192 \<le> n \<and> n \<le> 222 \<and> n \<noteq> 215) then char_of (n + 32) else c)"

definition to_ascii_lowercase :: "string \<Rightarrow> string" where
  "to_ascii_lowercase s = map ascii_lower s"

definition to_lowercase :: "string \<Rightarrow> string" where
  "to_lowercase s = map lower s"

definition starts_with :: "string \<Rightarrow> string \<Rightarrow> bool" where
  "starts_with p s = (take (length p) s = p)"

definition strip_prefix :: "string \<Rightarrow> string \<Rightarrow> string option" where
  "strip_prefix p s = (if starts_with p s then Some (drop (length p) s) else None)"

text \<open>\<^verbatim>\<open>str::split_once\<close>: the text before and after the first occurrence of a separator.\<close>

fun split_once :: "string \<Rightarrow> string \<Rightarrow> (string \<times> string) option" where
  "split_once sep [] = (if sep = [] then Some ([], []) else None)"
| "split_once sep (c # cs) =
     (if starts_with sep (c # cs) then Some ([], drop (length sep) (c # cs))
      else case split_once sep cs of
        None \<Rightarrow> None
      | Some (a, b) \<Rightarrow> Some (c # a, b))"

fun join :: "string \<Rightarrow> string list \<Rightarrow> string" where
  "join sep [] = []"
| "join sep [x] = x"
| "join sep (x # y # xs) = x @ sep @ join sep (y # xs)"

text \<open>\<^verbatim>\<open>str::split(pred)\<close>: the maximal runs between separator characters, empty runs included.\<close>

fun split_on :: "(char \<Rightarrow> bool) \<Rightarrow> string \<Rightarrow> string list" where
  "split_on p [] = [[]]"
| "split_on p (c # cs) =
     (case split_on p cs of
        [] \<Rightarrow> [[c]]
      | w # ws \<Rightarrow> if p c then [] # w # ws else (c # w) # ws)"

definition split_whitespace :: "string \<Rightarrow> string list" where
  "split_whitespace s = filter (\<lambda>w. w \<noteq> []) (split_on is_whitespace s)"

fun nat_digits :: "nat \<Rightarrow> string" where
  "nat_digits n = (if n < 10 then [char_of (48 + n)] else nat_digits (n div 10) @ [char_of (48 + n mod 10)])"

declare nat_digits.simps [simp del]

lemma split_once_sound:
  "split_once sep s = Some (a, b) \<Longrightarrow> s = a @ sep @ b"
proof (induction sep s arbitrary: a b rule: split_once.induct)
  case (1 sep)
  then show ?case by (simp split: if_splits)
next
  case (2 sep c cs)
  show ?case
  proof (cases "starts_with sep (c # cs)")
    case True
    then have "c # cs = sep @ drop (length sep) (c # cs)"
      unfolding starts_with_def by (metis append_take_drop_id)
    moreover from True "2.prems" have "a = []" and "b = drop (length sep) (c # cs)" by simp_all
    ultimately show ?thesis by simp
  next
    case False
    with "2.prems" obtain a' where "split_once sep cs = Some (a', b)" and "a = c # a'"
      by (auto split: option.splits)
    with "2.IH"[OF False] show ?thesis by simp
  qed
qed

lemma strip_prefix_append [simp]: "strip_prefix p (p @ s) = Some s"
  by (simp add: strip_prefix_def starts_with_def)

lemma strip_prefix_sound: "strip_prefix p s = Some r \<Longrightarrow> s = p @ r"
  by (metis append_take_drop_id option.distinct(1) option.inject strip_prefix_def starts_with_def)

section \<open>Lists\<close>

definition push_unique :: "'a list \<Rightarrow> 'a \<Rightarrow> 'a list" where
  "push_unique xs x = (if x \<in> set xs then xs else xs @ [x])"

lemma set_push_unique [simp]: "set (push_unique xs x) = insert x (set xs)"
  by (auto simp: push_unique_def)

lemma distinct_push_unique [simp]: "distinct (push_unique xs x) = distinct xs"
  by (auto simp: push_unique_def)

lemma set_foldl_push_unique: "set (foldl push_unique xs ys) = set xs \<union> set ys"
  by (induction ys arbitrary: xs) auto

lemma distinct_foldl_push_unique: "distinct (foldl push_unique xs ys) = distinct xs"
  by (induction ys arbitrary: xs) auto

text \<open>\<open>xs[i]\<close> where the source has an in-range index by construction: out of range is \<open>None\<close>.\<close>

definition nth_opt :: "'a list \<Rightarrow> nat \<Rightarrow> 'a option" where
  "nth_opt xs i = (if i < length xs then Some (xs ! i) else None)"

text \<open>\<^verbatim>\<open>iter().position(p)\<close>.\<close>

fun position :: "('a \<Rightarrow> bool) \<Rightarrow> 'a list \<Rightarrow> nat option" where
  "position p [] = None"
| "position p (x # xs) = (if p x then Some 0 else map_option Suc (position p xs))"

lemma position_Some: "position p xs = Some i \<Longrightarrow> i < length xs \<and> p (xs ! i)"
  by (induction xs arbitrary: i) (auto split: if_splits)

lemma position_None: "position p xs = None \<longleftrightarrow> (\<forall>x \<in> set xs. \<not> p x)"
  by (induction xs) auto

text \<open>\<^verbatim>\<open>Vec::remove(i)\<close>.\<close>

definition remove_at :: "nat \<Rightarrow> 'a list \<Rightarrow> 'a list" where
  "remove_at i xs = take i xs @ drop (Suc i) xs"

lemma set_remove_at_subset: "set (remove_at i xs) \<subseteq> set xs"
  by (auto simp: remove_at_def dest: in_set_takeD in_set_dropD)

lemma distinct_remove_at: "distinct xs \<Longrightarrow> distinct (remove_at i xs)"
  by (auto simp: remove_at_def dest: set_take_disj_set_drop_if_distinct[where i = i and j = "Suc i"])

lemma find_Some_mem: "find p xs = Some x \<Longrightarrow> x \<in> set xs \<and> p x"
  by (auto simp: find_Some_iff)

lemma find_inj:
  assumes "inj_on f (set xs)" and "x \<in> set xs"
  shows "find (\<lambda>k. f k = f x) xs = Some x"
  using assms by (induction xs) (auto simp: inj_on_def)

text \<open>
  Worklist termination: a step that takes \<open>c\<close> off a worklist, marks it and adds successors from a
  fixed universe leaves fewer unmarked elements.
\<close>

lemma worklist_less:
  assumes "finite U" and "U' \<subseteq> U" and "c \<in> U" and "c \<notin> S"
  shows "card (U' - insert c S) < card (U - S)"
proof (rule psubset_card_mono)
  show "finite (U - S)" using assms(1) by simp
  show "U' - insert c S \<subset> U - S" using assms(2-4) by auto
qed

lemma worklist_le:
  assumes "finite U" and "U' \<subseteq> U"
  shows "card (U' - S) \<le> card (U - S)"
  using assms by (intro card_mono) auto

section \<open>Hash maps of lists\<close>

definition hm_push :: "'k \<Rightarrow> 'v \<Rightarrow> ('k \<times> 'v list) list \<Rightarrow> ('k \<times> 'v list) list" where
  \<comment> \<open>\<^verbatim>\<open>map.entry(k).or_default().push(v)\<close>\<close>
  "hm_push k v m = AList.update k ((case map_of m k of None \<Rightarrow> [] | Some vs \<Rightarrow> vs) @ [v]) m"

definition hm_list :: "('k \<times> 'v list) list \<Rightarrow> 'k \<Rightarrow> 'v list" where
  "hm_list m k = (case map_of m k of None \<Rightarrow> [] | Some vs \<Rightarrow> vs)"

lemma hm_list_Nil [simp]: "hm_list [] k = []"
  by (simp add: hm_list_def)

lemma hm_list_push [simp]:
  "hm_list (hm_push k v m) j = (if j = k then hm_list m k @ [v] else hm_list m j)"
  by (simp add: hm_push_def hm_list_def update_conv)

lemma hm_list_values: "set (hm_list m k) \<subseteq> (\<Union>p \<in> set m. set (snd p))"
  by (auto simp: hm_list_def split: option.splits dest!: sym[of "Some _"] map_of_SomeD)

lemma hm_list_foldl_push:
  "hm_list (foldl (\<lambda>m x. hm_push (f x) (g x) m) m0 xs) k
     = hm_list m0 k @ map g (filter (\<lambda>x. f x = k) xs)"
  by (induction xs arbitrary: m0) auto

end
