(* ===== verification/Work.thy ===== *)
theory Work
  imports Prelude
begin

text \<open>
  The shared data types of the control layer, \<^verbatim>\<open>rustykrab-core/src/work.rs\<close>: kinds, edges, statuses,
  budgets, work items, errors, ladder rungs, drafts and review facets, with the string forms the
  store's columns use. Enum constructors carry a two-letter prefix of their enum where the source's
  variant names collide in HOL's single name space.
\<close>

type_synonym work_item_id = string

section \<open>String codecs\<close>

text \<open>
  The contract between an enum's \<open>as_str\<close> and its \<open>parse\<close>: parsing what was printed gives the value
  back, and only printed strings parse.
\<close>

locale string_codec =
  fixes as_str :: "'a \<Rightarrow> string" and parse :: "string \<Rightarrow> 'a option"
  assumes parse_as_str: "parse (as_str x) = Some x"
    and parse_sound: "parse raw = Some x \<Longrightarrow> raw = as_str x"
begin

lemma as_str_inj: "as_str x = as_str y \<longleftrightarrow> x = y"
  by (metis option.inject parse_as_str)

lemma parse_iff: "parse raw = Some x \<longleftrightarrow> raw = as_str x"
  using parse_as_str parse_sound by blast

lemma parse_None_iff: "parse raw = None \<longleftrightarrow> raw \<notin> range as_str"
  by (metis not_Some_eq parse_iff rangeE rangeI)

end

text \<open>
  The contract of a conservative parse: printed strings parse back, every other string reads as one
  fixed fallback.
\<close>

locale default_codec =
  fixes as_str :: "'a \<Rightarrow> string" and parse :: "string \<Rightarrow> 'a" and fallback :: 'a
  assumes dparse_as_str: "parse (as_str x) = x"
    and dparse_other: "raw \<notin> range as_str \<Longrightarrow> parse raw = fallback"
begin

lemma dparse_iff: "x \<noteq> fallback \<Longrightarrow> parse raw = x \<longleftrightarrow> raw = as_str x"
  by (metis dparse_as_str dparse_other rangeE)

end

text \<open>Where \<open>parse\<close> searches a list of all values for the one with the right string form.\<close>

lemma find_codec:
  assumes "inj f" and "\<And>x. x \<in> set xs"
  shows "find (\<lambda>k. f k = f x) xs = Some x"
  using assms by (intro find_inj) (auto simp: inj_on_def inj_def)

section \<open>Kinds\<close>

datatype WorkKind = WkTask | WkPersonal | WkCode | WkResearch | WkCapability | WkInternal | WkProposal

definition WorkKind_ALL :: "WorkKind list" where
  "WorkKind_ALL = [WkTask, WkPersonal, WkCode, WkResearch, WkCapability, WkInternal, WkProposal]"

fun WorkKind_as_str :: "WorkKind \<Rightarrow> string" where
  "WorkKind_as_str WkTask = ''task''"
| "WorkKind_as_str WkPersonal = ''personal''"
| "WorkKind_as_str WkCode = ''code''"
| "WorkKind_as_str WkResearch = ''research''"
| "WorkKind_as_str WkCapability = ''capability''"
| "WorkKind_as_str WkInternal = ''internal''"
| "WorkKind_as_str WkProposal = ''proposal''"

definition WorkKind_parse :: "string \<Rightarrow> WorkKind option" where
  "WorkKind_parse raw = find (\<lambda>k. WorkKind_as_str k = raw) WorkKind_ALL"

datatype WorkerKind = WrAny | WrLocal | WrPeer | WrClaudeCode | WrCodex

fun WorkerKind_as_str :: "WorkerKind \<Rightarrow> string" where
  "WorkerKind_as_str WrAny = ''any''"
| "WorkerKind_as_str WrLocal = ''local''"
| "WorkerKind_as_str WrPeer = ''peer''"
| "WorkerKind_as_str WrClaudeCode = ''claude_code''"
| "WorkerKind_as_str WrCodex = ''codex''"

definition WorkerKind_parse :: "string \<Rightarrow> WorkerKind option" where
  "WorkerKind_parse raw =
     (if raw = ''any'' then Some WrAny
      else if raw = ''local'' then Some WrLocal
      else if raw = ''peer'' then Some WrPeer
      else if raw = ''claude_code'' then Some WrClaudeCode
      else if raw = ''codex'' then Some WrCodex
      else None)"

definition needs_checkout :: "WorkerKind \<Rightarrow> bool" where
  "needs_checkout w = (w = WrClaudeCode \<or> w = WrCodex)"

section \<open>Edges\<close>

datatype EdgeKind = EkBlocks | EkWaitsFor | EkConditionalOnFailure | EkSupersedes | EkDiscoveredFrom

definition EdgeKind_ALL :: "EdgeKind list" where
  "EdgeKind_ALL = [EkBlocks, EkWaitsFor, EkConditionalOnFailure, EkSupersedes, EkDiscoveredFrom]"

fun EdgeKind_as_str :: "EdgeKind \<Rightarrow> string" where
  "EdgeKind_as_str EkBlocks = ''blocks''"
| "EdgeKind_as_str EkWaitsFor = ''waits_for''"
| "EdgeKind_as_str EkConditionalOnFailure = ''conditional_on_failure''"
| "EdgeKind_as_str EkSupersedes = ''supersedes''"
| "EdgeKind_as_str EkDiscoveredFrom = ''discovered_from''"

definition EdgeKind_parse :: "string \<Rightarrow> EdgeKind" where
  "EdgeKind_parse raw =
     (case find (\<lambda>k. EdgeKind_as_str k = raw) EdgeKind_ALL of Some k \<Rightarrow> k | None \<Rightarrow> EkBlocks)"

fun is_ordering :: "EdgeKind \<Rightarrow> bool" where
  "is_ordering EkBlocks = True"
| "is_ordering EkWaitsFor = True"
| "is_ordering EkConditionalOnFailure = True"
| "is_ordering EkSupersedes = False"
| "is_ordering EkDiscoveredFrom = False"

record Edge =
  e_item :: work_item_id
  e_depends_on :: work_item_id
  e_kind :: EdgeKind

section \<open>Status\<close>

datatype BlockedReason =
    NeedsCredential | NeedsDecision | NeedsConsent | NeedsTool | WorkerUnavailable
  | BudgetExhausted | VerificationFailed | PreconditionFailed | UpstreamFailed | UpstreamExpired

definition MODEL_FILEABLE :: "BlockedReason list" where
  "MODEL_FILEABLE = [NeedsTool, NeedsCredential, NeedsDecision, NeedsConsent]"

definition is_model_fileable :: "BlockedReason \<Rightarrow> bool" where
  "is_model_fileable r = (r \<in> set MODEL_FILEABLE)"

definition BlockedReason_ALL :: "BlockedReason list" where
  "BlockedReason_ALL =
     [NeedsCredential, NeedsDecision, NeedsConsent, NeedsTool, WorkerUnavailable,
      BudgetExhausted, VerificationFailed, PreconditionFailed, UpstreamFailed, UpstreamExpired]"

fun BlockedReason_as_str :: "BlockedReason \<Rightarrow> string" where
  "BlockedReason_as_str NeedsCredential = ''needs_credential''"
| "BlockedReason_as_str NeedsDecision = ''needs_decision''"
| "BlockedReason_as_str NeedsConsent = ''needs_consent''"
| "BlockedReason_as_str NeedsTool = ''needs_tool''"
| "BlockedReason_as_str WorkerUnavailable = ''worker_unavailable''"
| "BlockedReason_as_str BudgetExhausted = ''budget_exhausted''"
| "BlockedReason_as_str VerificationFailed = ''verification_failed''"
| "BlockedReason_as_str PreconditionFailed = ''precondition_failed''"
| "BlockedReason_as_str UpstreamFailed = ''upstream_failed''"
| "BlockedReason_as_str UpstreamExpired = ''upstream_expired''"

definition BlockedReason_parse :: "string \<Rightarrow> BlockedReason option" where
  "BlockedReason_parse raw = find (\<lambda>r. BlockedReason_as_str r = raw) BlockedReason_ALL"

definition is_cascade :: "BlockedReason \<Rightarrow> bool" where
  "is_cascade r = (r = UpstreamFailed \<or> r = UpstreamExpired)"

definition needs_user :: "BlockedReason \<Rightarrow> bool" where
  "needs_user r = (r = NeedsCredential \<or> r = NeedsDecision \<or> r = NeedsConsent)"

datatype CancelReason = CrRequested | CrCascade | CrSuperseded

fun CancelReason_as_str :: "CancelReason \<Rightarrow> string" where
  "CancelReason_as_str CrRequested = ''requested''"
| "CancelReason_as_str CrCascade = ''cascade''"
| "CancelReason_as_str CrSuperseded = ''superseded''"

definition CancelReason_parse :: "string \<Rightarrow> CancelReason option" where
  "CancelReason_parse raw =
     (if raw = ''requested'' then Some CrRequested
      else if raw = ''cascade'' then Some CrCascade
      else if raw = ''superseded'' then Some CrSuperseded
      else None)"

datatype Status =
    Queued | Ready | Leased | Running | Blocked BlockedReason | Verifying
  | Done | Failed | Cancelled CancelReason | Expired

fun Status_name :: "Status \<Rightarrow> string" where
  "Status_name Queued = ''queued''"
| "Status_name Ready = ''ready''"
| "Status_name Leased = ''leased''"
| "Status_name Running = ''running''"
| "Status_name (Blocked _) = ''blocked''"
| "Status_name Verifying = ''verifying''"
| "Status_name Done = ''done''"
| "Status_name Failed = ''failed''"
| "Status_name (Cancelled _) = ''cancelled''"
| "Status_name Expired = ''expired''"

fun Status_reason :: "Status \<Rightarrow> string option" where
  "Status_reason (Blocked r) = Some (BlockedReason_as_str r)"
| "Status_reason (Cancelled r) = Some (CancelReason_as_str r)"
| "Status_reason _ = None"

definition Status_parse :: "string \<Rightarrow> string option \<Rightarrow> Status" where
  "Status_parse status reason =
     (if status = ''queued'' then Queued
      else if status = ''ready'' then Ready
      else if status = ''leased'' then Leased
      else if status = ''running'' then Running
      else if status = ''blocked'' then
        (case Option.bind reason BlockedReason_parse of Some r \<Rightarrow> Blocked r | None \<Rightarrow> Failed)
      else if status = ''verifying'' then Verifying
      else if status = ''done'' then Done
      else if status = ''cancelled'' then
        (case Option.bind reason CancelReason_parse of Some r \<Rightarrow> Cancelled r | None \<Rightarrow> Failed)
      else if status = ''expired'' then Expired
      else Failed)"

fun is_waiting :: "Status \<Rightarrow> bool" where
  "is_waiting Queued = True"
| "is_waiting Ready = True"
| "is_waiting (Blocked _) = True"
| "is_waiting _ = False"

fun is_active :: "Status \<Rightarrow> bool" where
  "is_active Leased = True"
| "is_active Running = True"
| "is_active Verifying = True"
| "is_active _ = False"

fun is_closed :: "Status \<Rightarrow> bool" where
  "is_closed Done = True"
| "is_closed Failed = True"
| "is_closed (Cancelled _) = True"
| "is_closed Expired = True"
| "is_closed _ = False"

definition Status_fmt :: "Status \<Rightarrow> string" where
  "Status_fmt s =
     (case Status_reason s of
        Some r \<Rightarrow> Status_name s @ ''('' @ r @ '')''
      | None \<Rightarrow> Status_name s)"

section \<open>Item fields\<close>

datatype Trigger = TrNow | TrAt timestamp | TrOnCredential string | TrOnMcp string | TrOnAnswer string

text \<open>A \<open>serde_json::Value\<close>, numbers kept by their text: work items only carry and compare it.\<close>

datatype json =
    JNull | JBool bool | JNumber string | JString string | JArray "json list"
  | JObject "(string \<times> json) list"

record Precondition =
  pc_name :: string
  pc_args :: json

record ArtifactRef =
  ar_kind :: string
  ar_value :: string

record RungBudgets =
  rb_retries :: u32
  rb_repairs :: u32
  rb_worker_switches :: u32
  rb_acquisitions :: u32
  rb_builds :: u32
  rb_requests :: u32
  rb_improvements :: u32
  rb_replans :: u32

definition RungBudgets_default :: RungBudgets where
  "RungBudgets_default =
     \<lparr>rb_retries = 2, rb_repairs = 2, rb_worker_switches = 1, rb_acquisitions = 1, rb_builds = 1,
      rb_requests = 1, rb_improvements = 1, rb_replans = 1\<rparr>"

record Budget =
  bg_iterations :: u32
  bg_tokens :: u64
  bg_wall_seconds :: u64
  bg_repairs :: u32
  bg_rungs :: RungBudgets

definition without_execution_limits :: "Budget \<Rightarrow> Budget" where
  "without_execution_limits b = b\<lparr>bg_iterations := 0, bg_tokens := 0, bg_wall_seconds := 0\<rparr>"

definition Budget_default :: Budget where
  "Budget_default =
     \<lparr>bg_iterations = 0, bg_tokens = 0, bg_wall_seconds = 0, bg_repairs = 2,
      bg_rungs = RungBudgets_default\<rparr>"

record GraphCaps =
  gc_max_depth :: u32
  gc_max_items :: u32
  gc_max_inputs :: u32
  gc_max_input_tokens :: u32
  gc_max_replans_per_parent :: u32

definition GraphCaps_default :: GraphCaps where
  "GraphCaps_default =
     \<lparr>gc_max_depth = 3, gc_max_items = 12, gc_max_inputs = 8, gc_max_input_tokens = 600,
      gc_max_replans_per_parent = 1\<rparr>"

record WorkItem =
  wi_id :: work_item_id
  wi_kind :: WorkKind
  wi_title :: string
  wi_objective :: string
  wi_done_when :: string
  wi_constraints :: "string list"
  wi_decisions_made :: "string list"
  wi_artifact_refs :: "ArtifactRef list"
  wi_required_tools :: "string list"
  wi_required_mcp_servers :: "string list"
  wi_worker_kind :: WorkerKind
  wi_writable_resources :: "string list"
  wi_parent :: "work_item_id option"
  wi_inputs_from :: "work_item_id list"
  wi_origin_conversation_id :: "string option"
  wi_trigger :: Trigger
  wi_preconditions :: "Precondition list"
  wi_expires_at :: "timestamp option"
  wi_budget :: Budget
  wi_priority :: int
  wi_status :: Status
  wi_status_origin :: "work_item_id option"
  wi_plan_id :: "string option"
  wi_held_by :: "string option"
  wi_created_at :: timestamp
  wi_updated_at :: timestamp
  wi_closed_at :: "timestamp option"

section \<open>Events\<close>

datatype EventKind =
    EvTransition | EvCascade | EvRepoint | EvRung | EvLease | EvResume | EvRejection | EvWarning
  | EvReview | EvRun | EvDecision | EvQuestion | EvComment

fun EventKind_as_str :: "EventKind \<Rightarrow> string" where
  "EventKind_as_str EvTransition = ''transition''"
| "EventKind_as_str EvCascade = ''cascade''"
| "EventKind_as_str EvRepoint = ''repoint''"
| "EventKind_as_str EvRung = ''rung''"
| "EventKind_as_str EvLease = ''lease''"
| "EventKind_as_str EvResume = ''resume''"
| "EventKind_as_str EvRejection = ''rejection''"
| "EventKind_as_str EvWarning = ''warning''"
| "EventKind_as_str EvReview = ''review''"
| "EventKind_as_str EvRun = ''run''"
| "EventKind_as_str EvDecision = ''decision''"
| "EventKind_as_str EvQuestion = ''question''"
| "EventKind_as_str EvComment = ''comment''"

definition EventKind_parse :: "string \<Rightarrow> EventKind option" where
  "EventKind_parse raw =
     (if raw = ''transition'' then Some EvTransition
      else if raw = ''cascade'' then Some EvCascade
      else if raw = ''repoint'' then Some EvRepoint
      else if raw = ''rung'' then Some EvRung
      else if raw = ''lease'' then Some EvLease
      else if raw = ''resume'' then Some EvResume
      else if raw = ''rejection'' then Some EvRejection
      else if raw = ''warning'' then Some EvWarning
      else if raw = ''review'' then Some EvReview
      else if raw = ''run'' then Some EvRun
      else if raw = ''decision'' then Some EvDecision
      else if raw = ''question'' then Some EvQuestion
      else if raw = ''comment'' then Some EvComment
      else None)"

record WorkEvent =
  we_item :: work_item_id
  we_at :: timestamp
  we_kind :: EventKind
  we_from :: "Status option"
  we_to :: "Status option"
  we_actor :: string
  we_reason :: "string option"
  we_upstream :: "work_item_id option"
  we_origin :: "work_item_id option"
  we_evidence_ref :: "string option"

section \<open>Errors\<close>

datatype ErrorClass =
    EcTool | EcModel | EcCapabilityGap | EcEnvironment | EcVerification | EcPolicy | EcBudget | EcUnknown

fun ErrorClass_as_str :: "ErrorClass \<Rightarrow> string" where
  "ErrorClass_as_str EcTool = ''tool''"
| "ErrorClass_as_str EcModel = ''model''"
| "ErrorClass_as_str EcCapabilityGap = ''capability_gap''"
| "ErrorClass_as_str EcEnvironment = ''environment''"
| "ErrorClass_as_str EcVerification = ''verification''"
| "ErrorClass_as_str EcPolicy = ''policy''"
| "ErrorClass_as_str EcBudget = ''budget''"
| "ErrorClass_as_str EcUnknown = ''unknown''"

definition ErrorClass_parse :: "string \<Rightarrow> ErrorClass" where
  "ErrorClass_parse raw =
     (if raw = ''tool'' then EcTool
      else if raw = ''model'' then EcModel
      else if raw = ''capability_gap'' then EcCapabilityGap
      else if raw = ''environment'' then EcEnvironment
      else if raw = ''verification'' then EcVerification
      else if raw = ''policy'' then EcPolicy
      else if raw = ''budget'' then EcBudget
      else EcUnknown)"

datatype ErrorSubclass =
    EsInvalidArgs | EsNotFound | EsTimeout | EsUpstreamError | EsFormat | EsRefusal |
    EsHallucinatedTool | EsLoop | EsEmpty | EsToolGap | EsCredential | EsConsent | EsCompute |
    EsKnowledge | EsNetwork | EsDisk | EsPermission | EsProcess | EsDependency |
    EsClaimMismatch | EsCheckFailed | EsIncomplete | EsScope | EsSingleWriter | EsCeiling |
    EsIterations | EsTokens | EsWall | EsRepairs | EsUnclassified

definition ErrorSubclass_ALL :: "ErrorSubclass list" where
  "ErrorSubclass_ALL =
     [EsInvalidArgs, EsNotFound, EsTimeout, EsUpstreamError, EsFormat, EsRefusal,
      EsHallucinatedTool, EsLoop, EsEmpty, EsToolGap, EsCredential, EsConsent, EsCompute,
      EsKnowledge, EsNetwork, EsDisk, EsPermission, EsProcess, EsDependency, EsClaimMismatch,
      EsCheckFailed, EsIncomplete, EsScope, EsSingleWriter, EsCeiling, EsIterations, EsTokens,
      EsWall, EsRepairs, EsUnclassified]"

fun ErrorSubclass_class :: "ErrorSubclass \<Rightarrow> ErrorClass" where
  "ErrorSubclass_class EsInvalidArgs = EcTool"
| "ErrorSubclass_class EsNotFound = EcTool"
| "ErrorSubclass_class EsTimeout = EcTool"
| "ErrorSubclass_class EsUpstreamError = EcTool"
| "ErrorSubclass_class EsFormat = EcModel"
| "ErrorSubclass_class EsRefusal = EcModel"
| "ErrorSubclass_class EsHallucinatedTool = EcModel"
| "ErrorSubclass_class EsLoop = EcModel"
| "ErrorSubclass_class EsEmpty = EcModel"
| "ErrorSubclass_class EsToolGap = EcCapabilityGap"
| "ErrorSubclass_class EsCredential = EcCapabilityGap"
| "ErrorSubclass_class EsConsent = EcCapabilityGap"
| "ErrorSubclass_class EsCompute = EcCapabilityGap"
| "ErrorSubclass_class EsKnowledge = EcCapabilityGap"
| "ErrorSubclass_class EsNetwork = EcEnvironment"
| "ErrorSubclass_class EsDisk = EcEnvironment"
| "ErrorSubclass_class EsPermission = EcEnvironment"
| "ErrorSubclass_class EsProcess = EcEnvironment"
| "ErrorSubclass_class EsDependency = EcEnvironment"
| "ErrorSubclass_class EsClaimMismatch = EcVerification"
| "ErrorSubclass_class EsCheckFailed = EcVerification"
| "ErrorSubclass_class EsIncomplete = EcVerification"
| "ErrorSubclass_class EsScope = EcPolicy"
| "ErrorSubclass_class EsSingleWriter = EcPolicy"
| "ErrorSubclass_class EsCeiling = EcPolicy"
| "ErrorSubclass_class EsIterations = EcBudget"
| "ErrorSubclass_class EsTokens = EcBudget"
| "ErrorSubclass_class EsWall = EcBudget"
| "ErrorSubclass_class EsRepairs = EcBudget"
| "ErrorSubclass_class EsUnclassified = EcUnknown"

fun ErrorSubclass_as_str :: "ErrorSubclass \<Rightarrow> string" where
  "ErrorSubclass_as_str EsInvalidArgs = ''invalid_args''"
| "ErrorSubclass_as_str EsNotFound = ''not_found''"
| "ErrorSubclass_as_str EsTimeout = ''timeout''"
| "ErrorSubclass_as_str EsUpstreamError = ''upstream_error''"
| "ErrorSubclass_as_str EsFormat = ''format''"
| "ErrorSubclass_as_str EsRefusal = ''refusal''"
| "ErrorSubclass_as_str EsHallucinatedTool = ''hallucinated_tool''"
| "ErrorSubclass_as_str EsLoop = ''loop''"
| "ErrorSubclass_as_str EsEmpty = ''empty''"
| "ErrorSubclass_as_str EsToolGap = ''tool''"
| "ErrorSubclass_as_str EsCredential = ''credential''"
| "ErrorSubclass_as_str EsConsent = ''consent''"
| "ErrorSubclass_as_str EsCompute = ''compute''"
| "ErrorSubclass_as_str EsKnowledge = ''knowledge''"
| "ErrorSubclass_as_str EsNetwork = ''network''"
| "ErrorSubclass_as_str EsDisk = ''disk''"
| "ErrorSubclass_as_str EsPermission = ''permission''"
| "ErrorSubclass_as_str EsProcess = ''process''"
| "ErrorSubclass_as_str EsDependency = ''dependency''"
| "ErrorSubclass_as_str EsClaimMismatch = ''claim_mismatch''"
| "ErrorSubclass_as_str EsCheckFailed = ''check_failed''"
| "ErrorSubclass_as_str EsIncomplete = ''incomplete''"
| "ErrorSubclass_as_str EsScope = ''scope''"
| "ErrorSubclass_as_str EsSingleWriter = ''single_writer''"
| "ErrorSubclass_as_str EsCeiling = ''ceiling''"
| "ErrorSubclass_as_str EsIterations = ''iterations''"
| "ErrorSubclass_as_str EsTokens = ''tokens''"
| "ErrorSubclass_as_str EsWall = ''wall''"
| "ErrorSubclass_as_str EsRepairs = ''repairs''"
| "ErrorSubclass_as_str EsUnclassified = ''unclassified''"

definition ErrorSubclass_parse :: "string \<Rightarrow> ErrorSubclass option" where
  "ErrorSubclass_parse raw = find (\<lambda>s. ErrorSubclass_as_str s = raw) ErrorSubclass_ALL"

definition is_transient :: "ErrorSubclass \<Rightarrow> bool" where
  "is_transient s = (s = EsTimeout \<or> s = EsNetwork \<or> s = EsUpstreamError)"

record WorkError =
  er_class :: ErrorClass
  er_subclass :: ErrorSubclass
  er_fingerprint :: string
  er_detail :: string
  er_artifact_refs :: "ArtifactRef list"
  er_observed_by :: string

section \<open>The ladder's rungs\<close>

datatype Rung =
    RgRetry | RgRepair | RgSwitchWorker | RgAcquire | RgBuild | RgRequest | RgImprove | RgPlanB
  | RgReplan | RgSurface

fun Rung_order :: "Rung \<Rightarrow> string" where
  "Rung_order RgRetry = ''0''"
| "Rung_order RgRepair = ''1''"
| "Rung_order RgSwitchWorker = ''1''"
| "Rung_order RgAcquire = ''2a''"
| "Rung_order RgBuild = ''2b''"
| "Rung_order RgRequest = ''2c''"
| "Rung_order RgImprove = ''3''"
| "Rung_order RgPlanB = ''3+''"
| "Rung_order RgReplan = ''3+''"
| "Rung_order RgSurface = ''4''"

fun Rung_as_str :: "Rung \<Rightarrow> string" where
  "Rung_as_str RgRetry = ''retry''"
| "Rung_as_str RgRepair = ''repair''"
| "Rung_as_str RgSwitchWorker = ''switch_worker''"
| "Rung_as_str RgAcquire = ''acquire''"
| "Rung_as_str RgBuild = ''build''"
| "Rung_as_str RgRequest = ''request''"
| "Rung_as_str RgImprove = ''improve''"
| "Rung_as_str RgPlanB = ''plan_b''"
| "Rung_as_str RgReplan = ''replan''"
| "Rung_as_str RgSurface = ''surface''"

record RungEvent =
  re_rung :: Rung
  re_at :: timestamp
  re_error :: "WorkError option"
  re_outcome :: string

section \<open>What models send\<close>

datatype ItemRef = IrId work_item_id | IrTmp string

record DraftEdge =
  de_kind :: EdgeKind
  de_depends_on :: ItemRef

datatype CapabilityMode = CmAcquire | CmBuild | CmRequest

fun CapabilityMode_as_str :: "CapabilityMode \<Rightarrow> string" where
  "CapabilityMode_as_str CmAcquire = ''acquire''"
| "CapabilityMode_as_str CmBuild = ''build''"
| "CapabilityMode_as_str CmRequest = ''request''"

definition CapabilityMode_parse :: "string \<Rightarrow> CapabilityMode option" where
  "CapabilityMode_parse raw =
     (if raw = ''acquire'' then Some CmAcquire
      else if raw = ''build'' then Some CmBuild
      else if raw = ''request'' then Some CmRequest
      else None)"

datatype ReviewTier = RtStandard | RtElevated | RtHighest

fun ReviewTier_as_str :: "ReviewTier \<Rightarrow> string" where
  "ReviewTier_as_str RtStandard = ''standard''"
| "ReviewTier_as_str RtElevated = ''elevated''"
| "ReviewTier_as_str RtHighest = ''highest''"

definition ReviewTier_parse :: "string \<Rightarrow> ReviewTier" where
  "ReviewTier_parse raw =
     (if raw = ''elevated'' then RtElevated
      else if raw = ''highest'' then RtHighest
      else RtStandard)"

fun tier_rank :: "ReviewTier \<Rightarrow> nat" where
  "tier_rank RtStandard = 0"
| "tier_rank RtElevated = 1"
| "tier_rank RtHighest = 2"

text \<open>The derived \<open>Ord\<close> of the enum: declaration order.\<close>

instantiation ReviewTier :: linorder
begin

definition less_eq_ReviewTier :: "ReviewTier \<Rightarrow> ReviewTier \<Rightarrow> bool" where
  "less_eq_ReviewTier a b = (tier_rank a \<le> tier_rank b)"

definition less_ReviewTier :: "ReviewTier \<Rightarrow> ReviewTier \<Rightarrow> bool" where
  "less_ReviewTier a b = (tier_rank a < tier_rank b)"

instance
proof
  fix a b c :: ReviewTier
  show "(a < b) = (a \<le> b \<and> \<not> b \<le> a)"
    by (auto simp: less_eq_ReviewTier_def less_ReviewTier_def)
  show "a \<le> a" by (simp add: less_eq_ReviewTier_def)
  show "a \<le> b \<Longrightarrow> b \<le> c \<Longrightarrow> a \<le> c" by (simp add: less_eq_ReviewTier_def)
  show "a \<le> b \<Longrightarrow> b \<le> a \<Longrightarrow> a = b"
    by (cases a; cases b) (simp_all add: less_eq_ReviewTier_def)
  show "a \<le> b \<or> b \<le> a" by (auto simp: less_eq_ReviewTier_def)
qed

end

record WorkItemDraft =
  dr_tmp :: "string option"
  dr_kind :: "WorkKind option"
  dr_title :: string
  dr_objective :: string
  dr_done_when :: string
  dr_constraints :: "string list"
  dr_decisions_made :: "string list"
  dr_artifact_refs :: "ArtifactRef list"
  dr_required_tools :: "string list"
  dr_required_mcp_servers :: "string list"
  dr_worker_kind :: WorkerKind
  dr_writable_resources :: "string list"
  dr_parent :: "ItemRef option"
  dr_inputs_from :: "ItemRef list"
  dr_trigger :: Trigger
  dr_preconditions :: "Precondition list"
  dr_expires_at :: "timestamp option"
  dr_budget :: "Budget option"
  dr_priority :: int
  dr_edges :: "DraftEdge list"
  dr_supersedes :: "work_item_id option"
  dr_plan :: bool
  dr_capability :: "CapabilityMode option"
  dr_subject :: "string option"
  dr_review_tier :: "ReviewTier option"

definition WorkItemDraft_default :: WorkItemDraft where
  "WorkItemDraft_default =
     \<lparr>dr_tmp = None, dr_kind = None, dr_title = [], dr_objective = [], dr_done_when = [],
      dr_constraints = [], dr_decisions_made = [], dr_artifact_refs = [], dr_required_tools = [],
      dr_required_mcp_servers = [], dr_worker_kind = WrAny, dr_writable_resources = [],
      dr_parent = None, dr_inputs_from = [], dr_trigger = TrNow, dr_preconditions = [],
      dr_expires_at = None, dr_budget = None, dr_priority = 0, dr_edges = [],
      dr_supersedes = None, dr_plan = False, dr_capability = None, dr_subject = None,
      dr_review_tier = None\<rparr>"

record CronExecution =
  ce_budget :: "Budget option"
  ce_kind :: "WorkKind option"
  ce_done_when :: "string option"
  ce_worker_kind :: WorkerKind
  ce_required_tools :: "string list"
  ce_required_mcp_servers :: "string list"
  ce_writable_resources :: "string list"
  ce_artifact_refs :: "ArtifactRef list"
  ce_constraints :: "string list"

text \<open>
  The size of the value as JSON is what serde\_json's \<open>to_vec\<close> gives: a parameter, with \<open>None\<close>
  for a serialisation error.
\<close>

datatype CronError =
    CronBudgetNotPositive | CronInternalLifecycle | CronSerialize | CronOverBound

definition CronExecution_validate ::
  "(CronExecution \<Rightarrow> nat option) \<Rightarrow> CronExecution \<Rightarrow> CronError + unit" where
  "CronExecution_validate json_len c =
     (if (case ce_budget c of
            None \<Rightarrow> False
          | Some b \<Rightarrow> bg_iterations b = 0 \<or> bg_tokens b = 0 \<or> bg_wall_seconds b = 0)
      then Inl CronBudgetNotPositive
      else if ce_kind c \<notin> {None, Some WkTask, Some WkPersonal, Some WkResearch, Some WkCode}
      then Inl CronInternalLifecycle
      else case json_len c of
        None \<Rightarrow> Inl CronSerialize
      | Some n \<Rightarrow>
          if n > 16384 \<or> length (ce_required_tools c) > 64 \<or> length (ce_artifact_refs c) > 32
             \<or> length (ce_writable_resources c) > 32
          then Inl CronOverBound
          else Inr ())"

record PlanEdge =
  pe_item :: ItemRef
  pe_kind :: EdgeKind
  pe_depends_on :: ItemRef

record WorkPlan =
  wp_root :: ItemRef
  wp_items :: "WorkItemDraft list"
  wp_edges :: "PlanEdge list"
  wp_rationale :: string

datatype RejectionReason =
    RrUnknownRef | RrDuplicateTmp | RrInvalidItem | RrCycle | RrDepthExceeded | RrTooManyItems
  | RrOverBudget | RrSingleWriterConflict | RrPlanBEdges | RrEdgeOntoActive | RrInputUnordered
  | RrDeadFiling | RrSupersedesActive | RrSupersedesClosed | RrOutOfScope | RrKindNotAllowed
  | RrAlreadyPlanned | RrRateLimited | RrSequentialSplit | RrNoRepository

section \<open>Review facets\<close>

definition PROTECTED_AREAS :: "(string \<times> string list) list" where
  "PROTECTED_AREAS =
     [(''policy'', [''policy'', ''policies'', ''judgment'', ''standing_judgment'']),
      (''credentials'', [''credential'', ''credentials'', ''secret'', ''secrets'']),
      (''controller'', [''controller'', ''control'', ''ladder'', ''question_router'']),
      (''ladder_budgets'', [''ladder_budgets'', ''budget'', ''budgets'', ''rung_budgets'']),
      (''measurement'',
         [''measurement'', ''metric'', ''metrics'', ''evaluation'', ''dreaming'', ''dream''])]"

definition subject_area :: "string \<Rightarrow> string" where
  "subject_area subject =
     map (\<lambda>c. if c = CHR ''-'' \<or> c = CHR '' '' then CHR ''_'' else c)
       (to_ascii_lowercase (trim (takeWhile (\<lambda>c. c \<noteq> CHR '':'') subject)))"

definition protected_subject :: "string \<Rightarrow> string option" where
  "protected_subject subject =
     map_option fst (find (\<lambda>(_, words). subject_area subject \<in> set words) PROTECTED_AREAS)"

definition required_review_tier :: "string option \<Rightarrow> ReviewTier" where
  "required_review_tier subject =
     (case Option.bind subject protected_subject of Some _ \<Rightarrow> RtHighest | None \<Rightarrow> RtStandard)"

record WorkFacets =
  wf_capability :: "CapabilityMode option"
  wf_subject :: "string option"
  wf_review_tier :: "ReviewTier option"

definition WorkFacets_default :: WorkFacets where
  "WorkFacets_default = \<lparr>wf_capability = None, wf_subject = None, wf_review_tier = None\<rparr>"

definition WorkFacets_is_empty :: "WorkFacets \<Rightarrow> bool" where
  "WorkFacets_is_empty f = (wf_capability f = None \<and> wf_subject f = None \<and> wf_review_tier f = None)"

definition of_draft :: "WorkItemDraft \<Rightarrow> WorkKind \<Rightarrow> WorkFacets option" where
  "of_draft draft kind =
     (let facets =
        (case kind of
           WkCapability \<Rightarrow> WorkFacets_default\<lparr>wf_capability := dr_capability draft\<rparr>
         | WkProposal \<Rightarrow>
             (let subject =
                (case map_option trim (dr_subject draft) of
                   None \<Rightarrow> None
                 | Some s \<Rightarrow> if s = [] then None else Some s);
                  tier =
                (case dr_review_tier draft of
                   Some t \<Rightarrow> t
                 | None \<Rightarrow> required_review_tier subject)
              in \<lparr>wf_capability = None, wf_subject = subject, wf_review_tier = Some tier\<rparr>)
         | _ \<Rightarrow> WorkFacets_default)
      in if WorkFacets_is_empty facets then None else Some facets)"

section \<open>Codecs interpreted\<close>

lemma WorkKind_mem_ALL: "k \<in> set WorkKind_ALL"
  by (cases k) (simp_all add: WorkKind_ALL_def)

lemma EdgeKind_mem_ALL: "k \<in> set EdgeKind_ALL"
  by (cases k) (simp_all add: EdgeKind_ALL_def)

lemma BlockedReason_mem_ALL: "r \<in> set BlockedReason_ALL"
  by (cases r) (simp_all add: BlockedReason_ALL_def)

lemma ErrorSubclass_mem_ALL: "s \<in> set ErrorSubclass_ALL"
  by (cases s) (simp_all add: ErrorSubclass_ALL_def)

lemma WorkKind_as_str_inj: "inj WorkKind_as_str"
proof (rule injI)
  fix a b assume "WorkKind_as_str a = WorkKind_as_str b" then show "a = b"
    by (cases a; cases b) simp_all
qed

lemma EdgeKind_as_str_inj: "inj EdgeKind_as_str"
proof (rule injI)
  fix a b assume "EdgeKind_as_str a = EdgeKind_as_str b" then show "a = b"
    by (cases a; cases b) simp_all
qed

lemma BlockedReason_as_str_inj: "inj BlockedReason_as_str"
proof (rule injI)
  fix a b assume "BlockedReason_as_str a = BlockedReason_as_str b" then show "a = b"
    by (cases a; cases b) simp_all
qed

lemma ErrorSubclass_as_str_inj: "inj ErrorSubclass_as_str"
proof (rule injI)
  fix a b :: ErrorSubclass
  have "distinct (map ErrorSubclass_as_str ErrorSubclass_ALL)" by code_simp
  then have "inj_on ErrorSubclass_as_str (set ErrorSubclass_ALL)" by (simp add: distinct_map)
  moreover assume "ErrorSubclass_as_str a = ErrorSubclass_as_str b"
  ultimately show "a = b" by (meson ErrorSubclass_mem_ALL inj_onD)
qed

interpretation work_kind: string_codec WorkKind_as_str WorkKind_parse
  by unfold_locales
    (auto simp: WorkKind_parse_def find_codec[OF WorkKind_as_str_inj WorkKind_mem_ALL] dest: find_Some_mem)

interpretation worker_kind: string_codec WorkerKind_as_str WorkerKind_parse
proof
  show "WorkerKind_parse (WorkerKind_as_str x) = Some x" for x
    by (cases x) (simp_all add: WorkerKind_parse_def)
  show "WorkerKind_parse raw = Some x \<Longrightarrow> raw = WorkerKind_as_str x" for raw x
    by (auto simp: WorkerKind_parse_def split: if_splits)
qed

interpretation blocked_reason: string_codec BlockedReason_as_str BlockedReason_parse
  by unfold_locales
    (auto simp: BlockedReason_parse_def find_codec[OF BlockedReason_as_str_inj BlockedReason_mem_ALL]
      dest: find_Some_mem)

interpretation cancel_reason: string_codec CancelReason_as_str CancelReason_parse
proof
  show "CancelReason_parse (CancelReason_as_str x) = Some x" for x
    by (cases x) (simp_all add: CancelReason_parse_def)
  show "CancelReason_parse raw = Some x \<Longrightarrow> raw = CancelReason_as_str x" for raw x
    by (auto simp: CancelReason_parse_def split: if_splits)
qed

interpretation event_kind: string_codec EventKind_as_str EventKind_parse
proof
  show "EventKind_parse (EventKind_as_str x) = Some x" for x
    by (cases x) (simp_all add: EventKind_parse_def)
  show "EventKind_parse raw = Some x \<Longrightarrow> raw = EventKind_as_str x" for raw x
    by (auto simp: EventKind_parse_def split: if_splits)
qed

interpretation error_subclass: string_codec ErrorSubclass_as_str ErrorSubclass_parse
  by unfold_locales
    (auto simp: ErrorSubclass_parse_def find_codec[OF ErrorSubclass_as_str_inj ErrorSubclass_mem_ALL]
      dest: find_Some_mem)

interpretation capability_mode: string_codec CapabilityMode_as_str CapabilityMode_parse
proof
  show "CapabilityMode_parse (CapabilityMode_as_str x) = Some x" for x
    by (cases x) (simp_all add: CapabilityMode_parse_def)
  show "CapabilityMode_parse raw = Some x \<Longrightarrow> raw = CapabilityMode_as_str x" for raw x
    by (auto simp: CapabilityMode_parse_def split: if_splits)
qed

interpretation edge_kind: default_codec EdgeKind_as_str EdgeKind_parse EkBlocks
proof
  show "EdgeKind_parse (EdgeKind_as_str x) = x" for x
    by (simp add: EdgeKind_parse_def find_codec[OF EdgeKind_as_str_inj EdgeKind_mem_ALL])
  show "raw \<notin> range EdgeKind_as_str \<Longrightarrow> EdgeKind_parse raw = EkBlocks" for raw
    by (auto simp: EdgeKind_parse_def split: option.splits dest: find_Some_mem)
qed

interpretation error_class: default_codec ErrorClass_as_str ErrorClass_parse EcUnknown
proof
  show "ErrorClass_parse (ErrorClass_as_str x) = x" for x
    by (cases x) (simp_all add: ErrorClass_parse_def)
next
  fix raw assume "raw \<notin> range ErrorClass_as_str"
  then have ne: "raw \<noteq> ErrorClass_as_str x" for x by blast
  show "ErrorClass_parse raw = EcUnknown"
    using ne[of EcTool] ne[of EcModel] ne[of EcCapabilityGap] ne[of EcEnvironment]
      ne[of EcVerification] ne[of EcPolicy] ne[of EcBudget]
    by (simp add: ErrorClass_parse_def)
qed

interpretation review_tier: default_codec ReviewTier_as_str ReviewTier_parse RtStandard
proof
  show "ReviewTier_parse (ReviewTier_as_str x) = x" for x
    by (cases x) (simp_all add: ReviewTier_parse_def)
next
  fix raw assume "raw \<notin> range ReviewTier_as_str"
  then have ne: "raw \<noteq> ReviewTier_as_str x" for x by blast
  show "ReviewTier_parse raw = RtStandard"
    using ne[of RtElevated] ne[of RtHighest] by (simp add: ReviewTier_parse_def)
qed

declare blocked_reason.parse_as_str [codec_simps] cancel_reason.parse_as_str [codec_simps]

section \<open>Status groups\<close>

lemma status_groups:
  "is_waiting s \<or> is_active s \<or> is_closed s"
  "is_waiting s \<Longrightarrow> \<not> is_active s" "is_waiting s \<Longrightarrow> \<not> is_closed s" "is_active s \<Longrightarrow> \<not> is_closed s"
  by (cases s; simp)+

lemma not_waiting_iff: "\<not> is_waiting s \<longleftrightarrow> is_active s \<or> is_closed s"
  by (cases s) simp_all

section \<open>Properties\<close>

text \<open>A status written as its two columns (name and reason) is read back unchanged, for every
  status and every blocked or cancelled reason.\<close>

theorem status_columns_round_trip: "Status_parse (Status_name s) (Status_reason s) = s"
  by (cases s) (simp_all add: Status_parse_def codec_simps)

end
