(* ===== verification/Snapshot.thy ===== *)
theory Snapshot
  imports Work
begin

text \<open>
  The in-memory view every graph rule computes over and the effects the rules return:
  \<^verbatim>\<open>rustykrab-control/src/graph/mod.rs\<close> (\<open>Transition\<close>, \<open>Repoint\<close>, \<open>Effects\<close>) and
  \<^verbatim>\<open>graph/snapshot.rs\<close> (\<open>Snapshot\<close>).

  A snapshot keeps its rows (\<open>items\<close>, \<open>edges\<close>) and five derived containers (the id index, the
  children of each parent, the positions of the edges an item holds and of those naming it, the
  fired triggers). \<open>wf_snap\<close> says that the derived containers agree with the rows; every operation
  keeps it, and under it the accessors are the obvious searches through the rows
  (the interpretation of \<open>row_store\<close>).
\<close>

section \<open>Effects (graph/mod.rs)\<close>

definition PLAN_TOOL :: string where
  "PLAN_TOOL = ''work_plan''"

definition is_planning :: "WorkItem \<Rightarrow> bool" where
  "is_planning item = (PLAN_TOOL \<in> set (wi_required_tools item))"

datatype Link = LkEdge EdgeKind | LkInput

record Transition =
  tr_item :: work_item_id
  tr_from :: Status
  tr_to :: Status
  tr_kind :: EventKind
  tr_reason :: "string option"
  tr_upstream :: "work_item_id option"
  tr_origin :: "work_item_id option"

definition Transition_plain :: "work_item_id \<Rightarrow> Status \<Rightarrow> Status \<Rightarrow> string \<Rightarrow> Transition" where
  "Transition_plain item from to reason =
     \<lparr>tr_item = item, tr_from = from, tr_to = to, tr_kind = EvTransition, tr_reason = Some reason,
      tr_upstream = None, tr_origin = None\<rparr>"

definition Transition_caused ::
  "work_item_id \<Rightarrow> Status \<Rightarrow> Status \<Rightarrow> string \<Rightarrow> work_item_id \<Rightarrow> work_item_id \<Rightarrow> Transition" where
  "Transition_caused item from to reason upstream origin =
     \<lparr>tr_item = item, tr_from = from, tr_to = to, tr_kind = EvCascade, tr_reason = Some reason,
      tr_upstream = Some upstream, tr_origin = Some origin\<rparr>"

record Repoint =
  rp_item :: work_item_id
  rp_link :: Link
  rp_old_upstream :: work_item_id
  rp_new_upstream :: work_item_id
  rp_origin :: work_item_id

record Effects =
  ef_transitions :: "Transition list"
  ef_repoints :: "Repoint list"
  ef_dropped_edges :: "Edge list"
  ef_revoke :: "work_item_id list"
  ef_verifying :: "work_item_id list"

definition Effects_default :: Effects where
  "Effects_default =
     \<lparr>ef_transitions = [], ef_repoints = [], ef_dropped_edges = [], ef_revoke = [], ef_verifying = []\<rparr>"

definition Effects_is_empty :: "Effects \<Rightarrow> bool" where
  "Effects_is_empty e =
     (ef_transitions e = [] \<and> ef_repoints e = [] \<and> ef_dropped_edges e = [] \<and> ef_revoke e = []
      \<and> ef_verifying e = [])"

definition Effects_extend :: "Effects \<Rightarrow> Effects \<Rightarrow> Effects" where
  "Effects_extend e other =
     e\<lparr>ef_transitions := ef_transitions e @ ef_transitions other,
       ef_repoints := ef_repoints e @ ef_repoints other,
       ef_dropped_edges := ef_dropped_edges e @ ef_dropped_edges other,
       ef_revoke := foldl push_unique (ef_revoke e) (ef_revoke other),
       ef_verifying := foldl push_unique (ef_verifying e) (ef_verifying other)\<rparr>"

definition Effects_transition :: "Effects \<Rightarrow> work_item_id \<Rightarrow> Transition option" where
  "Effects_transition e item = find (\<lambda>t. tr_item t = item) (rev (ef_transitions e))"

definition Effects_status_of :: "Effects \<Rightarrow> work_item_id \<Rightarrow> Status option" where
  "Effects_status_of e item = map_option tr_to (Effects_transition e item)"

definition touched :: "Effects \<Rightarrow> work_item_id list" where
  "touched e =
     foldl push_unique (foldl push_unique [] (map tr_item (ef_transitions e)))
       (map rp_item (ef_repoints e))"

text \<open>Recording one effect: the \<open>push\<close> the source does on \<open>out\<close>.\<close>

abbreviation push_transition :: "Transition \<Rightarrow> Effects \<Rightarrow> Effects" where
  "push_transition t e \<equiv> e\<lparr>ef_transitions := ef_transitions e @ [t]\<rparr>"

abbreviation push_repoint :: "Repoint \<Rightarrow> Effects \<Rightarrow> Effects" where
  "push_repoint r e \<equiv> e\<lparr>ef_repoints := ef_repoints e @ [r]\<rparr>"

abbreviation push_dropped :: "Edge \<Rightarrow> Effects \<Rightarrow> Effects" where
  "push_dropped d e \<equiv> e\<lparr>ef_dropped_edges := ef_dropped_edges e @ [d]\<rparr>"

section \<open>The snapshot (graph/snapshot.rs)\<close>

record Snapshot =
  sn_items :: "WorkItem list"
  sn_index :: "(work_item_id \<times> nat) list"
  sn_edges :: "Edge list"
  sn_children :: "(work_item_id \<times> work_item_id list) list"
  sn_held :: "(work_item_id \<times> nat list) list"
  sn_naming :: "(work_item_id \<times> nat list) list"
  sn_fired :: "work_item_id set"

definition Snapshot_default :: Snapshot where
  "Snapshot_default =
     \<lparr>sn_items = [], sn_index = [], sn_edges = [], sn_children = [], sn_held = [], sn_naming = [],
      sn_fired = {}\<rparr>"

definition reindex_children :: "Snapshot \<Rightarrow> Snapshot" where
  "reindex_children s =
     s\<lparr>sn_children :=
         foldl (\<lambda>m item. case wi_parent item of None \<Rightarrow> m | Some p \<Rightarrow> hm_push p (wi_id item) m)
           [] (sn_items s)\<rparr>"

definition reindex_edges :: "Snapshot \<Rightarrow> Snapshot" where
  "reindex_edges s =
     (let rows = zip [0..<length (sn_edges s)] (sn_edges s) in
      s\<lparr>sn_held := foldl (\<lambda>m (i, e). hm_push (e_item e) i m) [] rows,
        sn_naming := foldl (\<lambda>m (i, e). hm_push (e_depends_on e) i m) [] rows\<rparr>)"

definition index_item :: "Snapshot \<Rightarrow> WorkItem \<Rightarrow> Snapshot" where
  \<comment> \<open>the body of the first loop of \<open>new\<close>: a repeated id keeps its first row\<close>
  "index_item s item =
     (if map_of (sn_index s) (wi_id item) = None
      then s\<lparr>sn_index := AList.update (wi_id item) (length (sn_items s)) (sn_index s),
             sn_items := sn_items s @ [item]\<rparr>
      else s)"

definition Snapshot_new :: "WorkItem list \<Rightarrow> Edge list \<Rightarrow> Snapshot" where
  "Snapshot_new items edges =
     (let s = foldl index_item Snapshot_default items;
          s = s\<lparr>sn_edges := foldl push_unique [] edges\<rparr>
      in reindex_edges (reindex_children s))"

definition with_fired :: "Snapshot \<Rightarrow> work_item_id set \<Rightarrow> Snapshot" where
  "with_fired s ids = s\<lparr>sn_fired := sn_fired s \<union> ids\<rparr>"

definition fire :: "Snapshot \<Rightarrow> work_item_id \<Rightarrow> Snapshot" where
  "fire s k = s\<lparr>sn_fired := insert k (sn_fired s)\<rparr>"

definition snap_item :: "Snapshot \<Rightarrow> work_item_id \<Rightarrow> WorkItem option" where
  "snap_item s k = Option.bind (map_of (sn_index s) k) (nth_opt (sn_items s))"

definition snap_contains :: "Snapshot \<Rightarrow> work_item_id \<Rightarrow> bool" where
  "snap_contains s k = (map_of (sn_index s) k \<noteq> None)"

definition snap_status :: "Snapshot \<Rightarrow> work_item_id \<Rightarrow> Status option" where
  "snap_status s k = map_option wi_status (snap_item s k)"

definition children :: "Snapshot \<Rightarrow> work_item_id \<Rightarrow> work_item_id list" where
  "children s k = hm_list (sn_children s) k"

definition has_children :: "Snapshot \<Rightarrow> work_item_id \<Rightarrow> bool" where
  "has_children s k = (children s k \<noteq> [])"

definition edges_held_by :: "Snapshot \<Rightarrow> work_item_id \<Rightarrow> Edge list" where
  "edges_held_by s k = List.map_filter (nth_opt (sn_edges s)) (hm_list (sn_held s) k)"

definition edges_naming :: "Snapshot \<Rightarrow> work_item_id \<Rightarrow> Edge list" where
  "edges_naming s k = List.map_filter (nth_opt (sn_edges s)) (hm_list (sn_naming s) k)"

definition parent_of :: "Snapshot \<Rightarrow> work_item_id \<Rightarrow> work_item_id option" where
  "parent_of s k = Option.bind (snap_item s k) wi_parent"

function ancestors_loop ::
  "Snapshot \<Rightarrow> work_item_id \<Rightarrow> work_item_id option \<Rightarrow> work_item_id list \<Rightarrow> work_item_id list" where
  "ancestors_loop s k None out = out"
| "ancestors_loop s k (Some p) out =
     (if p = k \<or> p \<in> set out \<or> \<not> snap_contains s p then out
      else ancestors_loop s k (parent_of s p) (out @ [p]))"
  by pat_completeness auto
termination
proof (relation "measure (\<lambda>(s, k, cur, out). card (fst ` set (sn_index s) - set out))", goal_cases)
  case 1
  then show ?case by simp
next
  case (2 s k p out)
  then have "p \<in> fst ` set (sn_index s)"
    by (auto simp: snap_contains_def dest: map_of_SomeD) (metis map_of_eq_None_iff not_Some_eq)
  with 2 show ?case
    using worklist_less[of "fst ` set (sn_index s)" "fst ` set (sn_index s)" p "set out"] by simp
qed

definition ancestors :: "Snapshot \<Rightarrow> work_item_id \<Rightarrow> work_item_id list" where
  "ancestors s k = ancestors_loop s k (parent_of s k) []"

text \<open>
  The stack of \<open>descendants\<close> is a list whose head is the top: pushing the children in reverse
  order puts the first child on top.
\<close>

function descendants_loop ::
  "Snapshot \<Rightarrow> work_item_id list \<Rightarrow> work_item_id list \<Rightarrow> work_item_id list \<Rightarrow> work_item_id list" where
  "descendants_loop s [] seen out = out"
| "descendants_loop s (child # stack) seen out =
     (if child \<in> set seen then descendants_loop s stack seen out
      else descendants_loop s (children s child @ stack) (child # seen) (out @ [child]))"
  by pat_completeness auto
termination
proof (relation "measures [\<lambda>(s, stack, seen, out).
    card (set stack \<union> (\<Union>p \<in> set (sn_children s). set (snd p)) - set seen),
    \<lambda>(s, stack, seen, out). length stack]", goal_cases)
  case 1
  then show ?case by simp
next
  case (2 s child stack seen out)
  let ?C = "\<Union>p \<in> set (sn_children s). set (snd p)"
  have "card (set stack \<union> ?C - set seen) \<le> card (set (child # stack) \<union> ?C - set seen)"
    by (rule worklist_le) auto
  then show ?case by (simp add: le_less)
next
  case (3 s child stack seen out)
  let ?C = "\<Union>p \<in> set (sn_children s). set (snd p)"
  have "set (children s child) \<subseteq> ?C" unfolding children_def by (rule hm_list_values)
  then have "card (set (children s child @ stack) \<union> ?C - insert child (set seen))
      < card (set (child # stack) \<union> ?C - set seen)"
    using 3 by (intro worklist_less) auto
  then show ?case by simp
qed

definition descendants :: "Snapshot \<Rightarrow> work_item_id \<Rightarrow> work_item_id list" where
  "descendants s k = descendants_loop s (children s k) [k] []"

definition is_within :: "Snapshot \<Rightarrow> work_item_id \<Rightarrow> work_item_id \<Rightarrow> bool" where
  "is_within s k root = ((k = root \<and> snap_contains s k) \<or> root \<in> set (ancestors s k))"

definition trigger_fired :: "Snapshot \<Rightarrow> work_item_id \<Rightarrow> timestamp \<Rightarrow> bool" where
  "trigger_fired s k now =
     (case map_option wi_trigger (snap_item s k) of
        Some TrNow \<Rightarrow> True
      | Some (TrAt t) \<Rightarrow> t \<le> now
      | Some _ \<Rightarrow> k \<in> sn_fired s
      | None \<Rightarrow> False)"

text \<open>\<open>item_mut\<close>: rewrite one row through the index.\<close>

definition update_item :: "Snapshot \<Rightarrow> work_item_id \<Rightarrow> (WorkItem \<Rightarrow> WorkItem) \<Rightarrow> Snapshot" where
  "update_item s k f =
     (case map_of (sn_index s) k of
        None \<Rightarrow> s
      | Some i \<Rightarrow>
          if i < length (sn_items s)
          then s\<lparr>sn_items := (sn_items s)[i := f (sn_items s ! i)]\<rparr>
          else s)"

definition with_status ::
  "Status \<Rightarrow> work_item_id option \<Rightarrow> timestamp \<Rightarrow> WorkItem \<Rightarrow> WorkItem" where
  "with_status to origin now item =
     item\<lparr>wi_status := to, wi_status_origin := origin, wi_updated_at := now,
          wi_closed_at := (if is_closed to \<and> wi_closed_at item = None then Some now
                           else wi_closed_at item)\<rparr>"

definition set_status ::
  "Snapshot \<Rightarrow> work_item_id \<Rightarrow> Status \<Rightarrow> work_item_id option \<Rightarrow> timestamp \<Rightarrow> Snapshot" where
  "set_status s k to origin now = update_item s k (with_status to origin now)"

definition moved_inputs :: "work_item_id \<Rightarrow> work_item_id \<Rightarrow> work_item_id list \<Rightarrow> work_item_id list" where
  "moved_inputs old new xs = foldl (\<lambda>acc e. push_unique acc (if e = old then new else e)) [] xs"

definition repoint_row :: "Snapshot \<Rightarrow> work_item_id \<Rightarrow> Link \<Rightarrow> work_item_id \<Rightarrow> work_item_id \<Rightarrow> Snapshot" where
  \<comment> \<open>\<open>Snapshot::repoint\<close>\<close>
  "repoint_row s item link old new =
     (case link of
        LkEdge kind \<Rightarrow>
          (case position (\<lambda>e. e_item e = item \<and> e_depends_on e = old \<and> e_kind e = kind) (sn_edges s) of
             None \<Rightarrow> s
           | Some pos \<Rightarrow>
               let moved = \<lparr>e_item = item, e_depends_on = new, e_kind = kind\<rparr> in
               reindex_edges
                 (s\<lparr>sn_edges := (if moved \<in> set (sn_edges s) then remove_at pos (sn_edges s)
                                 else (sn_edges s)[pos := moved])\<rparr>))
      | LkInput \<Rightarrow>
          update_item s item (\<lambda>row. row\<lparr>wi_inputs_from := moved_inputs old new (wi_inputs_from row)\<rparr>))"

definition remove_edge :: "Snapshot \<Rightarrow> Edge \<Rightarrow> Snapshot" where
  "remove_edge s edge =
     (case position (\<lambda>e. e = edge) (sn_edges s) of
        None \<Rightarrow> s
      | Some pos \<Rightarrow> reindex_edges (s\<lparr>sn_edges := remove_at pos (sn_edges s)\<rparr>))"

definition add_item :: "Snapshot \<Rightarrow> WorkItem \<Rightarrow> Snapshot" where
  "add_item s item =
     (if map_of (sn_index s) (wi_id item) \<noteq> None then s
      else s\<lparr>sn_index := AList.update (wi_id item) (length (sn_items s)) (sn_index s),
             sn_children := (case wi_parent item of
                               None \<Rightarrow> sn_children s
                             | Some p \<Rightarrow> hm_push p (wi_id item) (sn_children s)),
             sn_items := sn_items s @ [item]\<rparr>)"

definition add_edge :: "Snapshot \<Rightarrow> Edge \<Rightarrow> Snapshot" where
  "add_edge s edge =
     (if edge \<in> set (sn_edges s) then s
      else s\<lparr>sn_held := hm_push (e_item edge) (length (sn_edges s)) (sn_held s),
             sn_naming := hm_push (e_depends_on edge) (length (sn_edges s)) (sn_naming s),
             sn_edges := sn_edges s @ [edge]\<rparr>)"

definition snap_apply :: "Snapshot \<Rightarrow> Effects \<Rightarrow> timestamp \<Rightarrow> Snapshot" where
  "snap_apply s effects now =
     (let s = foldl (\<lambda>s t. set_status s (tr_item t) (tr_to t) (tr_origin t) now) s (ef_transitions effects);
          s = foldl (\<lambda>s r. repoint_row s (rp_item r) (rp_link r) (rp_old_upstream r) (rp_new_upstream r))
                s (ef_repoints effects)
      in foldl remove_edge s (ef_dropped_edges effects))"


section \<open>The interface the graph rules rely on\<close>

text \<open>
  What a client of the snapshot may assume: under the store's invariant the indexed accessors are
  searches through the rows, and ids are unique.
\<close>

locale row_store =
  fixes inv :: "'s \<Rightarrow> bool"
    and rows :: "'s \<Rightarrow> WorkItem list"
    and edge_rows :: "'s \<Rightarrow> Edge list"
    and lookup :: "'s \<Rightarrow> work_item_id \<Rightarrow> WorkItem option"
    and kids :: "'s \<Rightarrow> work_item_id \<Rightarrow> work_item_id list"
    and held :: "'s \<Rightarrow> work_item_id \<Rightarrow> Edge list"
    and naming :: "'s \<Rightarrow> work_item_id \<Rightarrow> Edge list"
  assumes ids_distinct: "inv s \<Longrightarrow> distinct (map wi_id (rows s))"
    and edges_distinct: "inv s \<Longrightarrow> distinct (edge_rows s)"
    and lookup_find: "inv s \<Longrightarrow> lookup s k = find (\<lambda>i. wi_id i = k) (rows s)"
    and kids_filter: "inv s \<Longrightarrow> kids s k = map wi_id (filter (\<lambda>i. wi_parent i = Some k) (rows s))"
    and held_filter: "inv s \<Longrightarrow> held s k = filter (\<lambda>e. e_item e = k) (edge_rows s)"
    and naming_filter: "inv s \<Longrightarrow> naming s k = filter (\<lambda>e. e_depends_on e = k) (edge_rows s)"
begin

lemma lookup_Some_iff:
  assumes "inv s"
  shows "lookup s k = Some i \<longleftrightarrow> i \<in> set (rows s) \<and> wi_id i = k"
proof
  assume "lookup s k = Some i"
  then show "i \<in> set (rows s) \<and> wi_id i = k"
    using find_Some_mem lookup_find[OF assms] by fastforce
next
  assume i: "i \<in> set (rows s) \<and> wi_id i = k"
  have "inj_on wi_id (set (rows s))" using ids_distinct[OF assms] by (simp add: distinct_map)
  then have "find (\<lambda>j. wi_id j = wi_id i) (rows s) = Some i" using i by (intro find_inj) auto
  with i show "lookup s k = Some i" by (simp add: lookup_find[OF assms])
qed

lemma kids_iff:
  assumes "inv s"
  shows "c \<in> set (kids s p) \<longleftrightarrow> (\<exists>i. lookup s c = Some i \<and> wi_parent i = Some p)"
  using assms by (auto simp: lookup_Some_iff kids_filter)

lemma kids_distinct:
  assumes "inv s"
  shows "distinct (kids s p)"
  using ids_distinct[OF assms] by (auto simp: kids_filter[OF assms] distinct_map intro: inj_on_subset)

lemma held_iff: "inv s \<Longrightarrow> e \<in> set (held s k) \<longleftrightarrow> e \<in> set (edge_rows s) \<and> e_item e = k"
  by (auto simp: held_filter)

lemma naming_iff: "inv s \<Longrightarrow> e \<in> set (naming s k) \<longleftrightarrow> e \<in> set (edge_rows s) \<and> e_depends_on e = k"
  by (auto simp: naming_filter)

end

section \<open>The invariant and its preservation\<close>

definition wf_snap :: "Snapshot \<Rightarrow> bool" where
  "wf_snap s \<longleftrightarrow>
     distinct (map wi_id (sn_items s)) \<and> distinct (sn_edges s) \<and>
     (\<forall>k. map_of (sn_index s) k = position (\<lambda>i. wi_id i = k) (sn_items s)) \<and>
     (\<forall>k. hm_list (sn_children s) k = map wi_id (filter (\<lambda>i. wi_parent i = Some k) (sn_items s))) \<and>
     (\<forall>k. hm_list (sn_held s) k = filter (\<lambda>i. e_item (sn_edges s ! i) = k) [0..<length (sn_edges s)]) \<and>
     (\<forall>k. hm_list (sn_naming s) k = filter (\<lambda>i. e_depends_on (sn_edges s ! i) = k) [0..<length (sn_edges s)])"

lemma bind_position_find: "Option.bind (position p xs) (nth_opt xs) = find p xs"
proof (induction xs)
  case Nil
  then show ?case by simp
next
  case (Cons x xs)
  have "nth_opt (x # xs) (Suc i) = nth_opt xs i" for i by (simp add: nth_opt_def)
  with Cons show ?case by (cases "position p xs") (auto simp: nth_opt_def)
qed

lemma position_map: "position (\<lambda>i. f i = k) xs = position (\<lambda>y. y = k) (map f xs)"
  by (induction xs) auto

lemma position_append:
  "position p (xs @ ys) = (case position p xs of Some i \<Rightarrow> Some i
     | None \<Rightarrow> map_option (\<lambda>j. length xs + j) (position p ys))"
  by (cases "position p ys"; induction xs) (auto split: option.splits)

lemma map_filter_nth_opt:
  "List.map_filter (nth_opt xs) (filter (\<lambda>i. P (xs ! i)) [0..<length xs]) = filter P xs"
proof -
  have "List.map_filter (nth_opt xs) js = map ((!) xs) js" if "\<forall>j \<in> set js. j < length xs" for js
    using that by (induction js) (auto simp: List.map_filter_simps nth_opt_def)
  then have "List.map_filter (nth_opt xs) (filter (\<lambda>i. P (xs ! i)) [0..<length xs])
      = map ((!) xs) (filter (P \<circ> (!) xs) [0..<length xs])"
    by (simp add: comp_def)
  also have "\<dots> = filter P (map ((!) xs) [0..<length xs])" by (simp only: filter_map)
  finally show ?thesis by (simp add: map_nth)
qed

lemma zip_index_filter:
  "map fst (filter (\<lambda>x. P (snd x)) (zip [0..<length es] es)) = filter (\<lambda>i. P (es ! i)) [0..<length es]"
proof (induction es rule: rev_induct)
  case Nil
  then show ?case by simp
next
  case (snoc x xs)
  have "filter (\<lambda>i. P ((xs @ [x]) ! i)) [0..<length xs] = filter (\<lambda>i. P (xs ! i)) [0..<length xs]"
    by (rule filter_cong) (auto simp: nth_append)
  with snoc show ?case by (auto simp: nth_append)
qed

lemma reindex_edges_simps [simp]:
  "sn_items (reindex_edges s) = sn_items s" "sn_index (reindex_edges s) = sn_index s"
  "sn_edges (reindex_edges s) = sn_edges s" "sn_children (reindex_edges s) = sn_children s"
  "sn_fired (reindex_edges s) = sn_fired s"
  by (simp_all add: reindex_edges_def Let_def)

lemma reindex_edges_lists [simp]:
  "hm_list (sn_held (reindex_edges s)) k = filter (\<lambda>i. e_item (sn_edges s ! i) = k) [0..<length (sn_edges s)]"
  "hm_list (sn_naming (reindex_edges s)) k = filter (\<lambda>i. e_depends_on (sn_edges s ! i) = k) [0..<length (sn_edges s)]"
  using zip_index_filter[of "\<lambda>e. e_item e = k" "sn_edges s"]
    zip_index_filter[of "\<lambda>e. e_depends_on e = k" "sn_edges s"]
  by (simp_all add: reindex_edges_def Let_def case_prod_beta' hm_list_foldl_push)

lemma reindex_children_simps [simp]:
  "sn_items (reindex_children s) = sn_items s" "sn_index (reindex_children s) = sn_index s"
  "sn_edges (reindex_children s) = sn_edges s" "sn_fired (reindex_children s) = sn_fired s"
  by (simp_all add: reindex_children_def)

lemma reindex_children_list [simp]:
  "hm_list (sn_children (reindex_children s)) k
     = map wi_id (filter (\<lambda>i. wi_parent i = Some k) (sn_items s))"
proof -
  have "hm_list (foldl (\<lambda>m item. case wi_parent item of None \<Rightarrow> m | Some p \<Rightarrow> hm_push p (wi_id item) m) m0 xs) k
      = hm_list m0 k @ map wi_id (filter (\<lambda>i. wi_parent i = Some k) xs)" for m0 xs
    by (induction xs arbitrary: m0) (auto split: option.splits)
  from this[of "[]" "sn_items s"] show ?thesis by (simp add: reindex_children_def)
qed

lemma wf_snap_cong:
  assumes "map (\<lambda>i. (wi_id i, wi_parent i)) (sn_items t) = map (\<lambda>i. (wi_id i, wi_parent i)) (sn_items s)"
    and "sn_index t = sn_index s" "sn_edges t = sn_edges s" "sn_children t = sn_children s"
    and "sn_held t = sn_held s" "sn_naming t = sn_naming s"
  shows "wf_snap t = wf_snap s"
proof -
  have ids: "map wi_id (sn_items t) = map wi_id (sn_items s)"
    using arg_cong[OF assms(1), of "map fst"] by (simp add: comp_def)
  have kids: "map wi_id (filter (\<lambda>i. wi_parent i = Some k) xs)
      = map fst (filter (\<lambda>x. snd x = Some k) (map (\<lambda>i. (wi_id i, wi_parent i)) xs))" for k xs
    by (induction xs) auto
  have "position (\<lambda>i. wi_id i = k) (sn_items t) = position (\<lambda>i. wi_id i = k) (sn_items s)" for k
    using ids position_map[of wi_id] by metis
  moreover have "map wi_id (filter (\<lambda>i. wi_parent i = Some k) (sn_items t))
      = map wi_id (filter (\<lambda>i. wi_parent i = Some k) (sn_items s))" for k
    by (simp only: kids assms(1))
  ultimately show ?thesis by (simp add: wf_snap_def ids assms(2-))
qed

lemma wf_reindex_edges:
  assumes "wf_snap s" and "distinct es"
  shows "wf_snap (reindex_edges (s\<lparr>sn_edges := es\<rparr>))"
  using assms by (simp add: wf_snap_def)

lemma map_update_same: "i < length xs \<Longrightarrow> g (f (xs ! i)) = g (xs ! i) \<Longrightarrow> map g (xs[i := f (xs ! i)]) = map g xs"
  by (simp add: map_update list_update_same_conv)

lemma wf_update_item [wf_intros]:
  assumes "wf_snap s" and "\<And>i. wi_id (f i) = wi_id i" and "\<And>i. wi_parent (f i) = wi_parent i"
  shows "wf_snap (update_item s k f)"
  using assms
  by (auto simp: update_item_def map_update_same split: option.splits
      intro!: wf_snap_cong[THEN iffD2, of _ s])

lemma with_status_simps [simp]:
  "wi_id (with_status to o1 now i) = wi_id i" "wi_parent (with_status to o1 now i) = wi_parent i"
  "wi_status (with_status to o1 now i) = to" "wi_status_origin (with_status to o1 now i) = o1"
  "wi_trigger (with_status to o1 now i) = wi_trigger i" "wi_held_by (with_status to o1 now i) = wi_held_by i"
  "wi_expires_at (with_status to o1 now i) = wi_expires_at i"
  "wi_inputs_from (with_status to o1 now i) = wi_inputs_from i"
  "wi_updated_at (with_status to o1 now i) = now"
  "wi_priority (with_status to o1 now i) = wi_priority i"
  "wi_kind (with_status to o1 now i) = wi_kind i"
  by (simp_all add: with_status_def)

lemma wf_set_status [wf_intros]: "wf_snap s \<Longrightarrow> wf_snap (set_status s k to o1 now)"
  unfolding set_status_def by (intro wf_intros) simp_all

lemma distinct_moved:
  assumes "distinct xs" and "y \<notin> set xs" and "i < length xs"
  shows "distinct (xs[i := y])"
  using assms by (simp add: distinct_list_update)

lemma wf_repoint_row [wf_intros]:
  assumes "wf_snap s"
  shows "wf_snap (repoint_row s k l old new)"
proof (cases l)
  case (LkEdge kind)
  show ?thesis
  proof (cases "position (\<lambda>e. e_item e = k \<and> e_depends_on e = old \<and> e_kind e = kind) (sn_edges s)")
    case None
    with LkEdge assms show ?thesis by (simp add: repoint_row_def)
  next
    case (Some pos)
    have "distinct (sn_edges s)" using assms by (simp add: wf_snap_def)
    moreover from Some have "pos < length (sn_edges s)" by (auto dest: position_Some)
    ultimately show ?thesis using LkEdge Some assms
      by (auto simp: repoint_row_def Let_def intro!: wf_reindex_edges distinct_remove_at distinct_moved)
  qed
next
  case LkInput
  with assms show ?thesis by (auto simp: repoint_row_def intro!: wf_intros)
qed

lemma wf_remove_edge [wf_intros]: "wf_snap s \<Longrightarrow> wf_snap (remove_edge s e)"
  by (auto simp: remove_edge_def wf_snap_def intro!: distinct_remove_at split: option.splits)

lemma wf_add_edge [wf_intros]:
  assumes "wf_snap s"
  shows "wf_snap (add_edge s e)"
proof (cases "e \<in> set (sn_edges s)")
  case True
  with assms show ?thesis by (simp add: add_edge_def)
next
  case False
  have "filter (\<lambda>i. P ((sn_edges s @ [e]) ! i)) [0..<length (sn_edges s)]
      = filter (\<lambda>i. P (sn_edges s ! i)) [0..<length (sn_edges s)]" for P
    by (rule filter_cong) (auto simp: nth_append)
  note this[of "\<lambda>x. e_item x = k" for k] and this[of "\<lambda>x. e_depends_on x = k" for k]
  with False assms show ?thesis by (auto simp: wf_snap_def add_edge_def)
qed

lemma wf_index_parts:
  assumes "wf_snap s" and "map_of (sn_index s) (wi_id item) = None"
  shows "distinct (map wi_id (sn_items s @ [item]))"
    and "map_of (AList.update (wi_id item) (length (sn_items s)) (sn_index s)) k
           = position (\<lambda>i. wi_id i = k) (sn_items s @ [item])"
proof -
  have none: "position (\<lambda>i. wi_id i = wi_id item) (sn_items s) = None"
    using assms by (simp add: wf_snap_def)
  then have "wi_id item \<notin> wi_id ` set (sn_items s)" by (auto simp: position_None)
  with assms(1) show "distinct (map wi_id (sn_items s @ [item]))" by (simp add: wf_snap_def)
  show "map_of (AList.update (wi_id item) (length (sn_items s)) (sn_index s)) k
      = position (\<lambda>i. wi_id i = k) (sn_items s @ [item])"
    using assms(1) none by (auto simp: wf_snap_def update_conv position_append split: option.splits)
qed

lemma wf_add_item [wf_intros]:
  assumes "wf_snap s"
  shows "wf_snap (add_item s item)"
proof (cases "map_of (sn_index s) (wi_id item)")
  case None
  with wf_index_parts[OF assms None] assms show ?thesis
    by (auto simp: add_item_def wf_snap_def split: option.splits)
next
  case (Some i)
  with assms show ?thesis by (simp add: add_item_def)
qed

lemma wf_foldl: "wf_snap s \<Longrightarrow> (\<And>s x. wf_snap s \<Longrightarrow> wf_snap (f s x)) \<Longrightarrow> wf_snap (foldl f s xs)"
  by (induction xs arbitrary: s) auto

lemma wf_snap_apply [wf_intros]: "wf_snap s \<Longrightarrow> wf_snap (snap_apply s e now)"
  unfolding snap_apply_def Let_def by (intro wf_foldl wf_intros)

lemma wf_with_fired [wf_intros]: "wf_snap s \<Longrightarrow> wf_snap (with_fired s ids)" "wf_snap s \<Longrightarrow> wf_snap (fire s k)"
  by (simp_all add: with_fired_def fire_def wf_snap_def)

lemma foldl_push_unique_distinct: "distinct acc \<Longrightarrow> distinct (foldl push_unique acc xs)"
  by (induction xs arbitrary: acc) auto

lemma foldl_index_item:
  fixes s :: Snapshot
  assumes "distinct (map wi_id (sn_items s))"
    and "\<forall>k. map_of (sn_index s) k = position (\<lambda>i. wi_id i = k) (sn_items s)"
  shows "distinct (map wi_id (sn_items (foldl index_item s items)))
    \<and> (\<forall>k. map_of (sn_index (foldl index_item s items)) k
            = position (\<lambda>i. wi_id i = k) (sn_items (foldl index_item s items)))"
  using assms
proof (induction items arbitrary: s)
  case Nil
  then show ?case by simp
next
  case (Cons item items)
  have "position (\<lambda>i. wi_id i = wi_id item) (sn_items s) = None \<Longrightarrow> wi_id item \<notin> wi_id ` set (sn_items s)"
    by (auto simp: position_None)
  with Cons.prems have "distinct (map wi_id (sn_items (index_item s item)))"
    and "\<forall>k. map_of (sn_index (index_item s item)) k = position (\<lambda>i. wi_id i = k) (sn_items (index_item s item))"
    by (auto simp: index_item_def update_conv position_append split: option.splits)
  then show ?case using Cons.IH by simp
qed

lemma wf_Snapshot_new: "wf_snap (Snapshot_new items edges)"
  using foldl_index_item[of Snapshot_default items] foldl_push_unique_distinct[of "[]" edges]
  by (simp add: Snapshot_new_def Let_def wf_snap_def Snapshot_default_def)

interpretation snap: row_store wf_snap sn_items sn_edges snap_item children edges_held_by edges_naming
proof
  fix s :: Snapshot and k
  assume wf: "wf_snap s"
  show "distinct (map wi_id (sn_items s))" "distinct (sn_edges s)" using wf by (simp_all add: wf_snap_def)
  show "snap_item s k = find (\<lambda>i. wi_id i = k) (sn_items s)"
    using wf by (simp add: snap_item_def wf_snap_def bind_position_find)
  show "children s k = map wi_id (filter (\<lambda>i. wi_parent i = Some k) (sn_items s))"
    using wf by (simp add: children_def wf_snap_def)
  show "edges_held_by s k = filter (\<lambda>e. e_item e = k) (sn_edges s)"
    using wf map_filter_nth_opt[of "sn_edges s" "\<lambda>e. e_item e = k"]
    by (simp add: edges_held_by_def wf_snap_def)
  show "edges_naming s k = filter (\<lambda>e. e_depends_on e = k) (sn_edges s)"
    using wf map_filter_nth_opt[of "sn_edges s" "\<lambda>e. e_depends_on e = k"]
    by (simp add: edges_naming_def wf_snap_def)
qed

section \<open>What each operation changes\<close>

lemma update_item_frame [frame_simps]:
  "sn_index (update_item s k f) = sn_index s" "sn_edges (update_item s k f) = sn_edges s"
  "sn_children (update_item s k f) = sn_children s" "sn_held (update_item s k f) = sn_held s"
  "sn_naming (update_item s k f) = sn_naming s" "sn_fired (update_item s k f) = sn_fired s"
  "length (sn_items (update_item s k f)) = length (sn_items s)"
  by (simp_all add: update_item_def split: option.splits)

lemma set_status_frame [frame_simps]:
  "sn_index (set_status s k to o1 now) = sn_index s" "sn_edges (set_status s k to o1 now) = sn_edges s"
  "sn_children (set_status s k to o1 now) = sn_children s" "sn_held (set_status s k to o1 now) = sn_held s"
  "sn_naming (set_status s k to o1 now) = sn_naming s" "sn_fired (set_status s k to o1 now) = sn_fired s"
  by (simp_all add: set_status_def frame_simps)

lemma set_status_access [simp]:
  "children (set_status s k to o1 now) j = children s j"
  "edges_held_by (set_status s k to o1 now) j = edges_held_by s j"
  "edges_naming (set_status s k to o1 now) j = edges_naming s j"
  "snap_contains (set_status s k to o1 now) j = snap_contains s j"
  "has_children (set_status s k to o1 now) j = has_children s j"
  by (simp_all add: children_def edges_held_by_def edges_naming_def snap_contains_def has_children_def frame_simps)

lemma wf_index_lt: "wf_snap s \<Longrightarrow> map_of (sn_index s) k = Some i \<Longrightarrow> i < length (sn_items s) \<and> wi_id (sn_items s ! i) = k"
  by (auto simp: wf_snap_def dest!: position_Some)

lemma snap_item_id: "wf_snap s \<Longrightarrow> snap_item s k = Some i \<Longrightarrow> wi_id i = k"
  using snap.lookup_Some_iff by blast

lemma snap_contains_iff: "wf_snap s \<Longrightarrow> snap_contains s k \<longleftrightarrow> snap_item s k \<noteq> None"
  by (auto simp: snap_contains_def snap_item_def nth_opt_def dest: wf_index_lt)

lemma snap_item_update:
  assumes "wf_snap s"
  shows "snap_item (update_item s k f) j = (if j = k then map_option f (snap_item s k) else snap_item s j)"
proof (cases "map_of (sn_index s) k")
  case None
  then show ?thesis by (simp add: update_item_def snap_item_def)
next
  case (Some i)
  with assms have i: "i < length (sn_items s)" "wi_id (sn_items s ! i) = k" by (auto dest: wf_index_lt)
  show ?thesis
  proof (cases "j = k")
    case True
    with Some i show ?thesis by (simp add: update_item_def snap_item_def nth_opt_def)
  next
    case False
    have "i \<noteq> m" if "map_of (sn_index s) j = Some m" for m
      using wf_index_lt[OF assms that] i False by auto
    with False Some i show ?thesis
      by (cases "map_of (sn_index s) j") (auto simp: update_item_def snap_item_def nth_opt_def)
  qed
qed

lemma snap_item_set_status:
  "wf_snap s \<Longrightarrow> snap_item (set_status s k to o1 now) j
     = (if j = k then map_option (with_status to o1 now) (snap_item s k) else snap_item s j)"
  by (simp add: set_status_def snap_item_update)

lemma snap_status_set_status:
  "wf_snap s \<Longrightarrow> snap_status (set_status s k to o1 now) j
     = (if j = k \<and> snap_contains s k then Some to else snap_status s j)"
  by (auto simp: snap_status_def snap_item_set_status snap_contains_iff option.map_comp comp_def)

lemma parent_of_set_status [simp]:
  "wf_snap s \<Longrightarrow> parent_of (set_status s k to o1 now) j = parent_of s j"
  by (cases "snap_item s k") (auto simp: parent_of_def snap_item_set_status)

text \<open>Re-pointing and dropping edges leave statuses and the tree alone.\<close>

lemma reindex_edges_access [simp]:
  "snap_item (reindex_edges s) j = snap_item s j" "children (reindex_edges s) j = children s j"
  "snap_contains (reindex_edges s) j = snap_contains s j"
  by (simp_all add: snap_item_def children_def snap_contains_def)

lemma edges_field_access [simp]:
  "snap_item (s\<lparr>sn_edges := es\<rparr>) j = snap_item s j" "children (s\<lparr>sn_edges := es\<rparr>) j = children s j"
  "snap_contains (s\<lparr>sn_edges := es\<rparr>) j = snap_contains s j"
  by (simp_all add: snap_item_def children_def snap_contains_def)

lemma repoint_row_access [simp]:
  "children (repoint_row s k l old new) j = children s j"
  "snap_contains (repoint_row s k l old new) j = snap_contains s j"
  "sn_children (repoint_row s k l old new) = sn_children s"
  "sn_index (repoint_row s k l old new) = sn_index s"
  "sn_fired (repoint_row s k l old new) = sn_fired s"
  by (auto simp: repoint_row_def Let_def children_def snap_contains_def frame_simps
      split: Link.splits option.splits)

lemma snap_item_repoint_row:
  "wf_snap s \<Longrightarrow> snap_item (repoint_row s k l old new) j
     = (if l = LkInput \<and> j = k
        then map_option (\<lambda>row. row\<lparr>wi_inputs_from := moved_inputs old new (wi_inputs_from row)\<rparr>) (snap_item s k)
        else snap_item s j)"
  by (auto simp: repoint_row_def Let_def snap_item_update split: Link.splits option.splits)

lemma snap_status_repoint_row [simp]:
  "wf_snap s \<Longrightarrow> snap_status (repoint_row s k l old new) j = snap_status s j"
  by (simp add: snap_status_def snap_item_repoint_row option.map_comp comp_def)

lemma snap_item_remove_edge [simp]:
  "snap_item (remove_edge s e) j = snap_item s j" "children (remove_edge s e) j = children s j"
  "snap_contains (remove_edge s e) j = snap_contains s j"
  by (auto simp: remove_edge_def split: option.splits)

text \<open>
  Changing a status commutes with moving an edge or input and with dropping an edge: the order in
  which \<open>apply\<close> replays the three lists does not matter to the status writes.
\<close>

lemma update_item_reindex: "update_item (reindex_edges s) k f = reindex_edges (update_item s k f)"
  by (auto simp: update_item_def reindex_edges_def Let_def split: option.splits)

lemma update_item_edges: "update_item (s\<lparr>sn_edges := es\<rparr>) k f = (update_item s k f)\<lparr>sn_edges := es\<rparr>"
  by (auto simp: update_item_def split: option.splits)

lemma update_item_commute:
  assumes "\<And>i. f (g i) = g (f i)"
  shows "update_item (update_item s k f) j g = update_item (update_item s j g) k f"
proof -
  consider (none) "map_of (sn_index s) k = None \<or> map_of (sn_index s) j = None"
    | (both) a b where "map_of (sn_index s) k = Some a" "map_of (sn_index s) j = Some b"
    by fastforce
  then show ?thesis
  proof cases
    case none
    then show ?thesis by (auto simp: update_item_def split: option.splits)
  next
    case both
    then show ?thesis by (cases "a = b") (auto simp: update_item_def assms list_update_swap)
  qed
qed

lemma set_status_repoint_row:
  "set_status (repoint_row s a l old new) k to o1 now = repoint_row (set_status s k to o1 now) a l old new"
proof (cases l)
  case (LkEdge x1)
  then show ?thesis
    by (auto simp: repoint_row_def set_status_def Let_def update_item_reindex update_item_edges
        frame_simps split: option.splits)
next
  case LkInput
  then show ?thesis
    by (simp add: repoint_row_def set_status_def update_item_commute with_status_def)
qed

lemma set_status_remove_edge:
  "set_status (remove_edge s e) k to o1 now = remove_edge (set_status s k to o1 now) e"
  by (auto simp: remove_edge_def set_status_def update_item_reindex update_item_edges frame_simps
      split: option.splits)

lemma foldl_set_status_repoint_row:
  "foldl (\<lambda>s r. repoint_row s (rp_item r) (rp_link r) (rp_old_upstream r) (rp_new_upstream r))
     (set_status s k to o1 now) rs
   = set_status (foldl (\<lambda>s r. repoint_row s (rp_item r) (rp_link r) (rp_old_upstream r) (rp_new_upstream r)) s rs)
       k to o1 now"
  by (induction rs arbitrary: s) (simp_all add: set_status_repoint_row[symmetric])

lemma foldl_set_status_remove_edge:
  "foldl remove_edge (set_status s k to o1 now) es = set_status (foldl remove_edge s es) k to o1 now"
  by (induction es arbitrary: s) (simp_all add: set_status_remove_edge[symmetric])

text \<open>So a status change pushed last is replayed last, whatever else was recorded before it.\<close>

lemma snap_apply_push_transition:
  "snap_apply s (push_transition t e) now
     = set_status (snap_apply s e now) (tr_item t) (tr_to t) (tr_origin t) now"
  by (simp add: snap_apply_def Let_def foldl_set_status_repoint_row foldl_set_status_remove_edge)

lemma snap_apply_push_repoint:
  "ef_dropped_edges e = [] \<Longrightarrow> snap_apply s (push_repoint r e) now
     = repoint_row (snap_apply s e now) (rp_item r) (rp_link r) (rp_old_upstream r) (rp_new_upstream r)"
  by (simp add: snap_apply_def Let_def)

lemma snap_apply_push_dropped:
  "snap_apply s (push_dropped d e) now = remove_edge (snap_apply s e now) d"
  by (simp add: snap_apply_def Let_def)

lemma snap_apply_revoke_verifying [simp]:
  "snap_apply s (e\<lparr>ef_revoke := r\<rparr>) now = snap_apply s e now"
  "snap_apply s (e\<lparr>ef_verifying := r\<rparr>) now = snap_apply s e now"
  by (simp_all add: snap_apply_def)

lemma snap_apply_default [simp]: "snap_apply s Effects_default now = s"
  by (simp add: snap_apply_def Effects_default_def)

section \<open>The tree\<close>

text \<open>\<open>kid_of s p c\<close>: the index lists \<open>c\<close> under \<open>p\<close>.\<close>

definition kid_of :: "Snapshot \<Rightarrow> work_item_id \<Rightarrow> work_item_id \<Rightarrow> bool" where
  "kid_of s p c = (c \<in> set (children s p))"

lemma kid_of_parent: "wf_snap s \<Longrightarrow> kid_of s p c \<longleftrightarrow> parent_of s c = Some p"
  by (auto simp: kid_of_def snap.kids_iff parent_of_def split: Option.bind_splits)

fun parent_chain :: "Snapshot \<Rightarrow> work_item_id \<Rightarrow> work_item_id list \<Rightarrow> bool" where
  "parent_chain s k [] = True"
| "parent_chain s k (p # ps) = (parent_of s k = Some p \<and> parent_chain s p ps)"

lemma parent_chain_snoc:
  "parent_chain s k (ps @ [p]) \<longleftrightarrow> parent_chain s k ps \<and> parent_of s (last (k # ps)) = Some p"
  by (induction ps arbitrary: k) auto

lemma ancestors_loop_chain:
  assumes "parent_chain s k out" "parent_of s (last (k # out)) = cur" "distinct (k # out)"
    "\<forall>p \<in> set out. snap_contains s p"
  shows "parent_chain s k (ancestors_loop s k cur out) \<and> distinct (k # ancestors_loop s k cur out)
    \<and> (\<forall>p \<in> set (ancestors_loop s k cur out). snap_contains s p)"
  using assms
proof (induction s k cur out rule: ancestors_loop.induct)
  case (1 s k out)
  then show ?case by simp
next
  case (2 s k p out)
  then show ?case by (auto simp: parent_chain_snoc)
qed

lemma ancestors_loop_stops:
  assumes "parent_chain s k out" "parent_of s (last (k # out)) = cur"
  shows "case parent_of s (last (k # ancestors_loop s k cur out)) of
      None \<Rightarrow> True
    | Some p \<Rightarrow> p = k \<or> p \<in> set (ancestors_loop s k cur out) \<or> \<not> snap_contains s p"
  using assms
proof (induction s k cur out rule: ancestors_loop.induct)
  case (1 s k out)
  from "1.prems"(2) show ?case by simp
next
  case (2 s k p out)
  show ?case
  proof (cases "p = k \<or> p \<in> set out \<or> \<not> snap_contains s p")
    case True
    with "2.prems"(2) show ?thesis by simp
  next
    case False
    then have unroll: "ancestors_loop s k (Some p) out = ancestors_loop s k (parent_of s p) (out @ [p])"
      by simp
    have "parent_chain s k (out @ [p])" using "2.prems" by (simp add: parent_chain_snoc)
    then show ?thesis unfolding unroll using "2.IH"[OF False] by simp
  qed
qed

lemma descendants_loop_sound:
  assumes "set out \<subseteq> R" "set stack \<subseteq> R" "\<And>p c. p \<in> R \<Longrightarrow> kid_of s p c \<Longrightarrow> c \<in> R"
  shows "set (descendants_loop s stack seen out) \<subseteq> R"
  using assms
proof (induction s stack seen out rule: descendants_loop.induct)
  case (1 s seen out)
  then show ?case by simp
next
  case (2 s child stack seen out)
  then show ?case by (auto simp: kid_of_def)
qed

lemma descendants_loop_complete:
  assumes "set seen = insert k (set out)"
    and "\<And>p c. p \<in> set seen \<Longrightarrow> kid_of s p c \<Longrightarrow> c \<in> set seen \<union> set stack"
  shows "set out \<subseteq> set (descendants_loop s stack seen out)
    \<and> set stack \<subseteq> insert k (set (descendants_loop s stack seen out))
    \<and> (\<forall>p \<in> insert k (set (descendants_loop s stack seen out)). \<forall>c. kid_of s p c
         \<longrightarrow> c \<in> insert k (set (descendants_loop s stack seen out)))"
  using assms
proof (induction s stack seen out rule: descendants_loop.induct)
  case (1 s seen out)
  then show ?case by auto
next
  case (2 s child stack seen out)
  show ?case
  proof (cases "child \<in> set seen")
    case True
    moreover have "c \<in> set seen \<union> set stack" if "p \<in> set seen" "kid_of s p c" for p c
      using that "2.prems"(2)[of p c] True by auto
    ultimately show ?thesis using "2.IH"(1)[OF True] "2.prems"(1) by auto
  next
    case False
    have "set (child # seen) = insert k (set (out @ [child]))" using "2.prems"(1) by auto
    moreover have "c \<in> set (child # seen) \<union> set (children s child @ stack)"
      if "p \<in> set (child # seen)" "kid_of s p c" for p c
      using that "2.prems"(2)[of p c] by (auto simp: kid_of_def)
    ultimately show ?thesis using "2.IH"(2)[OF False] False by auto
  qed
qed

lemma descendants_loop_distinct:
  assumes "distinct out" "set out \<subseteq> set seen" "k \<in> set seen" "k \<notin> set out"
  shows "distinct (descendants_loop s stack seen out) \<and> k \<notin> set (descendants_loop s stack seen out)"
  using assms by (induction s stack seen out rule: descendants_loop.induct) auto

lemma descendants_closed:
  "\<forall>p \<in> insert k (set (descendants s k)). \<forall>c. kid_of s p c \<longrightarrow> c \<in> insert k (set (descendants s k))"
  using descendants_loop_complete[of "[k]" k "[]" s "children s k"]
  unfolding descendants_def by (simp add: kid_of_def)

lemma descendants_reach:
  "d \<in> insert k (set (descendants s k)) \<longleftrightarrow> (kid_of s)\<^sup>*\<^sup>* k d"
proof
  let ?R = "{d. (kid_of s)\<^sup>*\<^sup>* k d}"
  have "set (descendants s k) \<subseteq> ?R"
    unfolding descendants_def
    by (rule descendants_loop_sound) (auto simp: kid_of_def intro: rtranclp.intros)
  then show "d \<in> insert k (set (descendants s k)) \<Longrightarrow> (kid_of s)\<^sup>*\<^sup>* k d" by auto
next
  assume "(kid_of s)\<^sup>*\<^sup>* k d"
  then show "d \<in> insert k (set (descendants s k))"
    by induction (use descendants_closed[of k s] in auto)
qed

lemma descendants_distinct: "distinct (descendants s k)" "k \<notin> set (descendants s k)"
  using descendants_loop_distinct[of "[]" "[k]" k s "children s k"] by (simp_all add: descendants_def)

text \<open>The walks read only the parent links and the children lists.\<close>

lemma ancestors_cong:
  assumes "\<And>j. parent_of s j = parent_of t j" and "\<And>j. snap_contains s j = snap_contains t j"
  shows "ancestors s k = ancestors t k"
proof -
  have "ancestors_loop s k cur out = ancestors_loop t k cur out" for cur out
    using assms by (induction s k cur out rule: ancestors_loop.induct) auto
  then show ?thesis by (simp add: ancestors_def assms(1))
qed

lemma descendants_cong:
  assumes "\<And>j. children s j = children t j"
  shows "descendants s k = descendants t k"
proof -
  have "descendants_loop s stack seen out = descendants_loop t stack seen out" for stack seen out
    using assms by (induction s stack seen out rule: descendants_loop.induct) auto
  then show ?thesis by (simp add: descendants_def assms)
qed

lemma ancestors_set_status [simp]: "wf_snap s \<Longrightarrow> ancestors (set_status s k to o1 now) j = ancestors s j"
  by (rule ancestors_cong) simp_all

lemma descendants_set_status [simp]: "descendants (set_status s k to o1 now) j = descendants s j"
  by (rule descendants_cong) simp

section \<open>Every snapshot the engine can hold is well formed\<close>

text \<open>The snapshots that public calls can build: loaded from rows, then grown, marked and replayed on.\<close>

inductive loaded :: "Snapshot \<Rightarrow> bool" where
  loaded_new: "loaded (Snapshot_new items edges)"
| loaded_fired: "loaded s \<Longrightarrow> loaded (with_fired s ids)"
| loaded_fire: "loaded s \<Longrightarrow> loaded (fire s k)"
| loaded_item: "loaded s \<Longrightarrow> loaded (add_item s item)"
| loaded_edge: "loaded s \<Longrightarrow> loaded (add_edge s e)"
| loaded_apply: "loaded s \<Longrightarrow> loaded (snap_apply s effects now)"

text \<open>A plain row, for examples.\<close>

definition blank_item :: "work_item_id \<Rightarrow> work_item_id option \<Rightarrow> Status \<Rightarrow> WorkItem" where
  "blank_item k p st =
     \<lparr>wi_id = k, wi_kind = WkTask, wi_title = k, wi_objective = k, wi_done_when = k,
      wi_constraints = [], wi_decisions_made = [], wi_artifact_refs = [], wi_required_tools = [],
      wi_required_mcp_servers = [], wi_worker_kind = WrAny, wi_writable_resources = [],
      wi_parent = p, wi_inputs_from = [], wi_origin_conversation_id = None, wi_trigger = TrNow,
      wi_preconditions = [], wi_expires_at = None, wi_budget = Budget_default, wi_priority = 0,
      wi_status = st, wi_status_origin = None, wi_plan_id = None, wi_held_by = None,
      wi_created_at = 0, wi_updated_at = 0, wi_closed_at = None\<rparr>"

text \<open>C35: every snapshot built through the public calls has consistent indexes: item ids and
  edges are unique, and the id index, the children lists and the two edge indexes agree with the rows.\<close>

theorem loaded_wf: "loaded s \<Longrightarrow> wf_snap s"
  by (induction rule: loaded.induct) (auto intro: wf_Snapshot_new wf_intros)

lemma loaded_wf_witness:
  "wf_snap (snap_apply (Snapshot_new [blank_item ''a'' None Queued] [])
     (push_transition (Transition_plain ''a'' Queued Ready ''r'') Effects_default) 5)"
  by (rule loaded_wf[OF loaded_apply[OF loaded_new]])

text \<open>\<open>ancestors\<close> always returns (a corrupt parent loop included); what it returns is the
  chain of parents from the item upwards, nearest first, without repeats and without the item
  itself, all in the snapshot, and it stops only at a root, at a repeat or at a missing parent.\<close>

theorem ancestors_spec:
  "parent_chain s k (ancestors s k) \<and> distinct (k # ancestors s k)
   \<and> set (ancestors s k) \<subseteq> {p. snap_contains s p}
   \<and> parent_of s (last (k # ancestors s k))
      \<in> {None} \<union> Some ` (insert k (set (ancestors s k)) \<union> {p. \<not> snap_contains s p})"
  using ancestors_loop_chain[of s k "[]" "parent_of s k"] ancestors_loop_stops[of s k "[]" "parent_of s k"]
  unfolding ancestors_def
  by (cases "parent_of s (last (k # ancestors_loop s k (parent_of s k) []))") (auto simp: subset_iff)

text \<open>\<open>descendants\<close> always returns, and returns each item reachable from \<open>k\<close> along the
  children lists exactly once, \<open>k\<close> itself excluded even on a corrupt parent loop.\<close>

theorem descendants_spec:
  "distinct (descendants s k) \<and> set (descendants s k) = {d. (kid_of s)\<^sup>*\<^sup>* k d} - {k}"
  using descendants_reach[where k = k and s = s] descendants_distinct[where k = k and s = s] by auto

end
