(* ===== verification/Ready.thy ===== *)
theory Ready
  imports Snapshot
begin

text \<open>
  Readiness, \<^verbatim>\<open>rustykrab-control/src/graph/ready.rs\<close>: what one ordering edge says about its
  downstream (\<open>verdict\<close>), how all edges of an item stand (\<open>edge_summary\<close>), the gate of an item and
  whether it may run now (\<open>is_ready\<close>).

  The lemmas show the key fact behind the settling pass: gates read only closed outcomes, so moving
  items between open statuses opens and shuts no gate.
\<close>

record Hold =
  ho_reason :: BlockedReason
  ho_origin :: work_item_id
  ho_upstream :: work_item_id

record CascadeCancel =
  cc_origin :: work_item_id
  cc_upstream :: work_item_id

record EdgeSummary =
  es_satisfied :: bool
  es_hold :: "Hold option"
  es_cancel :: "CascadeCancel option"

datatype Verdict = VSatisfied | VWaiting | VHold Hold | VCancel CascadeCancel

definition root_cause :: "WorkItem \<Rightarrow> work_item_id" where
  "root_cause up = (case wi_status_origin up of Some o1 \<Rightarrow> o1 | None \<Rightarrow> wi_id up)"

definition mk_hold :: "BlockedReason \<Rightarrow> work_item_id \<Rightarrow> work_item_id \<Rightarrow> Hold" where
  "mk_hold reason origin upstream = \<lparr>ho_reason = reason, ho_origin = origin, ho_upstream = upstream\<rparr>"

definition mk_cancel :: "WorkItem \<Rightarrow> CascadeCancel" where
  "mk_cancel up = \<lparr>cc_origin = root_cause up, cc_upstream = wi_id up\<rparr>"

definition cascade_hold :: "Status \<Rightarrow> BlockedReason option" where
  "cascade_hold st = (case st of Blocked r \<Rightarrow> if is_cascade r then Some r else None | _ \<Rightarrow> None)"

definition verdict :: "Snapshot \<Rightarrow> Edge \<Rightarrow> Verdict" where
  "verdict s edge =
     (if \<not> is_ordering (e_kind edge) then VSatisfied
      else case snap_item s (e_depends_on edge) of
        None \<Rightarrow> VWaiting
      | Some up \<Rightarrow>
          (case e_kind edge of
             EkBlocks \<Rightarrow>
               (case wi_status up of
                  Done \<Rightarrow> VSatisfied
                | Failed \<Rightarrow> VHold (mk_hold UpstreamFailed (wi_id up) (wi_id up))
                | Expired \<Rightarrow> VHold (mk_hold UpstreamExpired (wi_id up) (wi_id up))
                | Cancelled _ \<Rightarrow> VCancel (mk_cancel up)
                | _ \<Rightarrow> (case cascade_hold (wi_status up) of
                          Some r \<Rightarrow> VHold (mk_hold r (root_cause up) (wi_id up))
                        | None \<Rightarrow> VWaiting))
           | EkWaitsFor \<Rightarrow>
               (if is_closed (wi_status up) then VSatisfied
                else case cascade_hold (wi_status up) of
                  Some r \<Rightarrow> VHold (mk_hold r (root_cause up) (wi_id up))
                | None \<Rightarrow> VWaiting)
           | EkConditionalOnFailure \<Rightarrow>
               (case wi_status up of
                  Failed \<Rightarrow> VSatisfied
                | Done \<Rightarrow> VCancel (mk_cancel up)
                | Expired \<Rightarrow> VCancel (mk_cancel up)
                | Cancelled _ \<Rightarrow> VCancel (mk_cancel up)
                | _ \<Rightarrow> VWaiting)
           | EkSupersedes \<Rightarrow> VSatisfied
           | EkDiscoveredFrom \<Rightarrow> VSatisfied))"

definition get_or_insert :: "'a option \<Rightarrow> 'a \<Rightarrow> 'a option" where
  "get_or_insert old v = (case old of None \<Rightarrow> Some v | Some w \<Rightarrow> Some w)"

definition summary_step :: "Snapshot \<Rightarrow> EdgeSummary \<Rightarrow> Edge \<Rightarrow> EdgeSummary" where
  "summary_step s out edge =
     (case verdict s edge of
        VSatisfied \<Rightarrow> out
      | VWaiting \<Rightarrow> out\<lparr>es_satisfied := False\<rparr>
      | VHold h \<Rightarrow> out\<lparr>es_satisfied := False, es_hold := get_or_insert (es_hold out) h\<rparr>
      | VCancel c \<Rightarrow> out\<lparr>es_satisfied := False, es_cancel := get_or_insert (es_cancel out) c\<rparr>)"

definition edge_summary :: "Snapshot \<Rightarrow> work_item_id \<Rightarrow> EdgeSummary" where
  "edge_summary s k =
     foldl (summary_step s) \<lparr>es_satisfied = True, es_hold = None, es_cancel = None\<rparr> (edges_held_by s k)"

definition gate_open :: "Snapshot \<Rightarrow> WorkItem \<Rightarrow> timestamp \<Rightarrow> bool" where
  "gate_open s item now =
     (\<not> is_closed (wi_status item) \<and> wi_held_by item = None \<and> trigger_fired s (wi_id item) now
      \<and> (case wi_expires_at item of None \<Rightarrow> True | Some t \<Rightarrow> now < t)
      \<and> es_satisfied (edge_summary s (wi_id item)))"

definition is_ready :: "Snapshot \<Rightarrow> work_item_id \<Rightarrow> timestamp \<Rightarrow> bool" where
  "is_ready s k now =
     (case snap_item s k of
        None \<Rightarrow> False
      | Some item \<Rightarrow>
          (wi_status item = Queued \<or> wi_status item = Status.Ready) \<and> \<not> has_children s k
          \<and> gate_open s item now
          \<and> list_all (\<lambda>a. case snap_item s a of None \<Rightarrow> False | Some p \<Rightarrow> gate_open s p now)
              (ancestors s k))"

definition readiness :: "Snapshot \<Rightarrow> timestamp \<Rightarrow> work_item_id list" where
  "readiness s now = map wi_id (filter (\<lambda>i. wi_status i = Queued \<and> is_ready s (wi_id i) now) (sn_items s))"

definition stale_ready :: "Snapshot \<Rightarrow> timestamp \<Rightarrow> work_item_id list" where
  "stale_ready s now =
     map wi_id (filter (\<lambda>i. wi_status i = Status.Ready \<and> \<not> is_ready s (wi_id i) now) (sn_items s))"

definition due_expiries :: "Snapshot \<Rightarrow> timestamp \<Rightarrow> work_item_id list" where
  "due_expiries s now =
     (let due = filter (\<lambda>i. \<not> is_closed (wi_status i)
                            \<and> (case wi_expires_at i of None \<Rightarrow> False | Some t \<Rightarrow> t \<le> now)) (sn_items s);
          ids = map wi_id due
      in map wi_id (filter (\<lambda>i. \<not> list_ex (\<lambda>a. a \<in> set ids) (ancestors s (wi_id i))) due))"

section \<open>The edge table\<close>

lemma cascade_hold_Some_iff: "cascade_hold st = Some r \<longleftrightarrow> st = Blocked r \<and> is_cascade r"
  by (auto simp: cascade_hold_def split: Status.splits if_splits)

lemma cascade_hold_closed: "is_closed st \<Longrightarrow> cascade_hold st = None"
  by (cases st) (simp_all add: cascade_hold_def)

lemma foldl_summary:
  "foldl (summary_step s) out es =
     \<lparr>es_satisfied = (es_satisfied out \<and> (\<forall>e \<in> set es. verdict s e = VSatisfied)),
      es_hold = (case es_hold out of Some h \<Rightarrow> Some h
                 | None \<Rightarrow> (case find (\<lambda>e. \<exists>h. verdict s e = VHold h) es of None \<Rightarrow> None
                          | Some e \<Rightarrow> (case verdict s e of VHold h \<Rightarrow> Some h | _ \<Rightarrow> None))),
      es_cancel = (case es_cancel out of Some c \<Rightarrow> Some c
                 | None \<Rightarrow> (case find (\<lambda>e. \<exists>c. verdict s e = VCancel c) es of None \<Rightarrow> None
                          | Some e \<Rightarrow> (case verdict s e of VCancel c \<Rightarrow> Some c | _ \<Rightarrow> None)))\<rparr>"
proof (induction es arbitrary: out)
  case Nil
  then show ?case by (cases out) (simp split: option.splits)
next
  case (Cons e es)
  then show ?case
    by (cases "verdict s e") (auto simp: summary_step_def get_or_insert_def split: option.splits)
qed

lemma satisfied_iff:
  "wf_snap s \<Longrightarrow> es_satisfied (edge_summary s k)
     \<longleftrightarrow> (\<forall>e \<in> set (sn_edges s). e_item e = k \<longrightarrow> verdict s e = VSatisfied)"
  by (auto simp: edge_summary_def foldl_summary snap.held_iff)

lemma es_hold_Some:
  assumes "wf_snap s" and "es_hold (edge_summary s k) = Some h"
  obtains e where "e \<in> set (sn_edges s)" "e_item e = k" "verdict s e = VHold h"
proof -
  from assms(2) obtain e where "find (\<lambda>e. \<exists>h. verdict s e = VHold h) (edges_held_by s k) = Some e"
    and "verdict s e = VHold h"
    by (auto simp: edge_summary_def foldl_summary split: option.splits Verdict.splits)
  with that assms(1) show ?thesis using find_Some_mem snap.held_iff by metis
qed

lemma verdict_hold_cascade: "verdict s e = VHold h \<Longrightarrow> is_cascade (ho_reason h)"
  by (cases "e_kind e"; cases "snap_item s (e_depends_on e)")
    (auto simp: verdict_def mk_hold_def cascade_hold_Some_iff is_cascade_def split: if_splits option.splits Status.splits)

lemma es_hold_cascade: "wf_snap s \<Longrightarrow> es_hold (edge_summary s k) = Some h \<Longrightarrow> is_cascade (ho_reason h)"
  by (auto elim!: es_hold_Some dest: verdict_hold_cascade)

text \<open>Satisfaction reads only closed outcomes.\<close>

definition outcome :: "Status option \<Rightarrow> Status option" where
  "outcome st = (case st of None \<Rightarrow> None | Some x \<Rightarrow> if is_closed x then Some x else None)"

definition satisfied_by :: "EdgeKind \<Rightarrow> Status option \<Rightarrow> bool" where
  "satisfied_by kind up =
     (case kind of
        EkBlocks \<Rightarrow> up = Some Done
      | EkWaitsFor \<Rightarrow> up \<noteq> None
      | EkConditionalOnFailure \<Rightarrow> up = Some Failed
      | EkSupersedes \<Rightarrow> True
      | EkDiscoveredFrom \<Rightarrow> True)"

lemma verdict_satisfied_iff:
  "verdict s e = VSatisfied \<longleftrightarrow> satisfied_by (e_kind e) (outcome (snap_status s (e_depends_on e)))"
  by (cases "e_kind e"; cases "snap_item s (e_depends_on e)")
    (auto simp: verdict_def satisfied_by_def outcome_def snap_status_def cascade_hold_def
      split: Status.splits option.splits if_splits)

text \<open>
  Two snapshots with the same rows up to open statuses: what the settling pass and the roll-up may
  change. Gates agree on them.
\<close>

definition same_row :: "WorkItem \<Rightarrow> WorkItem \<Rightarrow> bool" where
  "same_row i j \<longleftrightarrow>
     wi_id i = wi_id j \<and> wi_parent i = wi_parent j \<and> wi_held_by i = wi_held_by j
     \<and> wi_trigger i = wi_trigger j \<and> wi_expires_at i = wi_expires_at j
     \<and> outcome (Some (wi_status i)) = outcome (Some (wi_status j))"

definition same_gates :: "Snapshot \<Rightarrow> Snapshot \<Rightarrow> bool" where
  "same_gates s t \<longleftrightarrow>
     sn_edges s = sn_edges t \<and> sn_fired s = sn_fired t \<and> (\<forall>k. children s k = children t k)
     \<and> (\<forall>k. snap_contains s k = snap_contains t k)
     \<and> (\<forall>k. rel_option same_row (snap_item s k) (snap_item t k))"

lemma same_gates_item:
  assumes "same_gates s t"
  obtains (none) "snap_item s k = None" "snap_item t k = None"
    | (some) i j where "snap_item s k = Some i" "snap_item t k = Some j" "same_row i j"
proof -
  have "rel_option same_row (snap_item s k) (snap_item t k)" using assms by (simp add: same_gates_def)
  then show ?thesis by (cases rule: option.rel_cases) (auto intro: that)
qed

lemma same_row_trans: "same_row i j \<Longrightarrow> same_row j k \<Longrightarrow> same_row i k"
  by (simp add: same_row_def)

lemma same_gates_refl: "same_gates s s"
  by (auto simp: same_gates_def same_row_def intro: option.rel_refl)

lemma same_gates_trans:
  assumes "same_gates s t" and "same_gates t u"
  shows "same_gates s u"
proof -
  have "rel_option same_row (snap_item s k) (snap_item u k)" for k
    by (rule same_gates_item[OF assms(1), of k]; rule same_gates_item[OF assms(2), of k])
      (auto intro: same_row_trans)
  with assms show ?thesis by (simp add: same_gates_def)
qed

lemma same_gates_outcome: "same_gates s t \<Longrightarrow> outcome (snap_status s k) = outcome (snap_status t k)"
  by (erule same_gates_item[where k = k]) (simp_all add: snap_status_def same_row_def)

lemma same_gates_parent: "same_gates s t \<Longrightarrow> parent_of s k = parent_of t k"
  by (erule same_gates_item[where k = k]) (simp_all add: parent_of_def same_row_def)

lemma same_gates_ancestors: "same_gates s t \<Longrightarrow> ancestors s k = ancestors t k"
  by (rule ancestors_cong) (auto simp: same_gates_parent, auto simp: same_gates_def)

lemma same_gates_trigger:
  assumes "same_gates s t"
  shows "trigger_fired s k now = trigger_fired t k now"
proof -
  have "sn_fired s = sn_fired t" using assms by (simp add: same_gates_def)
  with assms show ?thesis
    by (cases rule: same_gates_item[where k = k])
      (simp_all add: trigger_fired_def same_row_def split: Trigger.splits)
qed

lemma same_gates_satisfied:
  assumes "same_gates s t" "wf_snap s" "wf_snap t"
  shows "es_satisfied (edge_summary s k) = es_satisfied (edge_summary t k)"
  using assms same_gates_outcome[OF assms(1)]
  by (simp add: satisfied_iff verdict_satisfied_iff same_gates_def)

lemma outcome_closed: "outcome (Some a) = outcome (Some b) \<Longrightarrow> is_closed a = is_closed b"
  by (auto simp: outcome_def split: if_splits)

lemma same_gates_gate:
  assumes "same_gates s t" "wf_snap s" "wf_snap t" "snap_item s k = Some i" "snap_item t k = Some j"
  shows "gate_open s i now = gate_open t j now"
  using assms(1)
proof (cases rule: same_gates_item[where k = k])
  case none
  with assms(4) show ?thesis by simp
next
  case (some i' j')
  with assms have "i' = i" "j' = j" by simp_all
  with some assms show ?thesis
    using snap_item_id[OF assms(2,4)] snap_item_id[OF assms(3,5)]
    by (simp add: gate_open_def same_row_def same_gates_trigger[OF assms(1)] same_gates_satisfied[OF assms(1-3)]
        outcome_closed[of "wi_status i" "wi_status j"])
qed

text \<open>
  Being ready depends only on the gates and on the item's own status being \<open>queued\<close> or \<open>ready\<close>.
\<close>

definition runnable :: "Snapshot \<Rightarrow> work_item_id \<Rightarrow> timestamp \<Rightarrow> bool" where
  "runnable s k now =
     (case snap_item s k of None \<Rightarrow> False
      | Some item \<Rightarrow> \<not> has_children s k \<and> gate_open s item now
          \<and> list_all (\<lambda>a. case snap_item s a of None \<Rightarrow> False | Some p \<Rightarrow> gate_open s p now) (ancestors s k))"

lemma is_ready_runnable:
  "is_ready s k now \<longleftrightarrow> runnable s k now \<and> snap_status s k \<in> {Some Queued, Some Status.Ready}"
  by (auto simp: is_ready_def runnable_def snap_status_def split: option.splits)

lemma same_gates_runnable:
  assumes "same_gates s t" "wf_snap s" "wf_snap t"
  shows "runnable s k now = runnable t k now"
proof -
  have gate: "(case snap_item s a of None \<Rightarrow> False | Some p \<Rightarrow> gate_open s p now)
      = (case snap_item t a of None \<Rightarrow> False | Some p \<Rightarrow> gate_open t p now)" for a
    by (rule same_gates_item[OF assms(1), of a]) (simp_all add: same_gates_gate[OF assms])
  have kids: "has_children s k = has_children t k"
    using assms(1) by (simp add: has_children_def same_gates_def)
  have "runnable u k now = ((case snap_item u k of None \<Rightarrow> False | Some p \<Rightarrow> gate_open u p now)
      \<and> \<not> has_children u k
      \<and> list_all (\<lambda>a. case snap_item u a of None \<Rightarrow> False | Some p \<Rightarrow> gate_open u p now) (ancestors u k))" for u
    by (auto simp: runnable_def split: option.splits)
  then show ?thesis by (simp only: gate same_gates_ancestors[OF assms(1)] kids)
qed

lemma same_gates_set_status:
  assumes "wf_snap s" and "\<forall>st. snap_status s k = Some st \<longrightarrow> \<not> is_closed st" and "\<not> is_closed to"
  shows "same_gates s (set_status s k to o1 now)"
  using assms
  by (cases "snap_item s k")
    (auto simp: same_gates_def same_row_def snap_item_set_status snap_status_def frame_simps outcome_def
      intro: option.rel_refl)

section \<open>Membership in the readiness lists\<close>

lemma readiness_iff:
  "wf_snap s \<Longrightarrow> k \<in> set (readiness s now) \<longleftrightarrow> snap_status s k = Some Queued \<and> runnable s k now"
  by (auto simp: readiness_def is_ready_runnable snap_status_def snap.lookup_Some_iff)

lemma stale_ready_iff:
  "wf_snap s \<Longrightarrow> k \<in> set (stale_ready s now) \<longleftrightarrow> snap_status s k = Some Status.Ready \<and> \<not> runnable s k now"
  by (auto simp: stale_ready_def is_ready_runnable snap_status_def snap.lookup_Some_iff)

lemma readiness_distinct: "wf_snap s \<Longrightarrow> distinct (readiness s now)" "wf_snap s \<Longrightarrow> distinct (stale_ready s now)"
  using snap.ids_distinct[of s]
  by (auto simp: readiness_def stale_ready_def distinct_map intro: inj_on_subset)

section \<open>Properties\<close>

lemma gate_open_edges:
  assumes "wf_snap s" "snap_item s a = Some p" "gate_open s p now" "e \<in> set (sn_edges s)" "e_item e = a"
  shows "satisfied_by (e_kind e) (outcome (snap_status s (e_depends_on e)))"
  using assms snap_item_id[OF assms(1,2)]
  by (auto simp: gate_open_def satisfied_iff verdict_satisfied_iff)

text \<open>C34: an item that may run now has no upstream left to wait for: for each ordering edge that
  the item or any of its ancestors holds, the upstream is in the snapshot, closed, and closed with the
  outcome the edge asks for (\<open>blocks\<close>: done; \<open>waits_for\<close>: any; \<open>conditional_on_failure\<close>: failed).\<close>

theorem ready_upstreams_settled:
  assumes "wf_snap s" "is_ready s k now" "e \<in> set (sn_edges s)" "e_item e \<in> set (k # ancestors s k)"
  shows "satisfied_by (e_kind e) (outcome (snap_status s (e_depends_on e)))"
proof -
  have "\<exists>p. snap_item s (e_item e) = Some p \<and> gate_open s p now"
    using assms(2,4) by (auto simp: is_ready_def list_all_iff split: option.splits)
  then show ?thesis using gate_open_edges[OF assms(1) _ _ assms(3)] by blast
qed

lemma ready_upstreams_settled_witness:
  "satisfied_by EkBlocks (outcome (snap_status
     (Snapshot_new [blank_item ''up'' None Done, blank_item ''p'' None Queued, blank_item ''k'' (Some ''p'') Queued]
        [\<lparr>e_item = ''p'', e_depends_on = ''up'', e_kind = EkBlocks\<rparr>]) ''up''))"
proof -
  let ?s = "Snapshot_new [blank_item ''up'' None Done, blank_item ''p'' None Queued, blank_item ''k'' (Some ''p'') Queued]
        [\<lparr>e_item = ''p'', e_depends_on = ''up'', e_kind = EkBlocks\<rparr>]"
  have "is_ready ?s ''k'' 0" and "''p'' \<in> set (''k'' # ancestors ?s ''k'')"
    and "\<lparr>e_item = ''p'', e_depends_on = ''up'', e_kind = EkBlocks\<rparr> \<in> set (sn_edges ?s)"
    by code_simp+
  from ready_upstreams_settled[OF wf_Snapshot_new this(1) this(3)] this(2) show ?thesis by simp
qed

end
