(* ===== verification/Rollup.thy ===== *)
theory Rollup
  imports Ready
begin

text \<open>
  Parent roll-up, \<^verbatim>\<open>rustykrab-control/src/graph/rollup.rs\<close>: the status a parent takes from its
  subtree (\<open>rollup\<close>) and the pass over every touched ancestor, deepest first (\<open>rollup_all_into\<close>).
\<close>

record RollupResult =
  ro_status :: Status
  ro_origin :: "work_item_id option"

definition queued_rollup :: RollupResult where
  "queued_rollup = \<lparr>ro_status = Queued, ro_origin = None\<rparr>"

text \<open>\<open>blocked_rows\<close> keeps the position in the descendants list, the tie-break of \<open>min_by_key\<close>.\<close>

definition blocked_rows :: "WorkItem list \<Rightarrow> (nat \<times> BlockedReason \<times> WorkItem) list" where
  "blocked_rows ds =
     List.map_filter (\<lambda>(i, d). case wi_status d of Blocked r \<Rightarrow> Some (i, r, d) | _ \<Rightarrow> None)
       (zip [0..<length ds] ds)"

text \<open>\<^verbatim>\<open>Iterator::min_by_key\<close>: the first least element; the key is \<open>(updated_at, position)\<close>.\<close>

fun min_row :: "(nat \<times> BlockedReason \<times> WorkItem) list \<Rightarrow> (nat \<times> BlockedReason \<times> WorkItem) option" where
  "min_row [] = None"
| "min_row (x # xs) =
     (case min_row xs of
        None \<Rightarrow> Some x
      | Some y \<Rightarrow>
          if wi_updated_at (snd (snd x)) < wi_updated_at (snd (snd y))
             \<or> (wi_updated_at (snd (snd x)) = wi_updated_at (snd (snd y)) \<and> fst x \<le> fst y)
          then Some x else Some y)"

definition earliest :: "(nat \<times> BlockedReason \<times> WorkItem) list \<Rightarrow> bool \<Rightarrow> (nat \<times> BlockedReason \<times> WorkItem) option" where
  "earliest blocked user_only = min_row (filter (\<lambda>(i, r, d). \<not> user_only \<or> needs_user r) blocked)"

definition is_moving :: "Status \<Rightarrow> bool" where
  "is_moving st = (st = Status.Ready \<or> st = Leased \<or> st = Running \<or> st = Verifying)"

definition rollup :: "Snapshot \<Rightarrow> work_item_id \<Rightarrow> timestamp \<Rightarrow> RollupResult option" where
  "rollup s parent now =
     (case snap_item s parent of
        None \<Rightarrow> None
      | Some p \<Rightarrow>
          if \<not> has_children s parent then None
          else if is_closed (wi_status p)
          then Some \<lparr>ro_status = wi_status p, ro_origin = wi_status_origin p\<rparr>
          else if wi_held_by p \<noteq> None
          then Some \<lparr>ro_status = Blocked NeedsConsent, ro_origin = Some parent\<rparr>
          else
            (let edges = edge_summary s parent in
             case es_hold edges of
               Some h \<Rightarrow> Some \<lparr>ro_status = Blocked (ho_reason h), ro_origin = Some (ho_origin h)\<rparr>
             | None \<Rightarrow>
                 if \<not> es_satisfied edges \<or> \<not> trigger_fired s parent now then Some queued_rollup
                 else
                   (let ds = List.map_filter (snap_item s) (descendants s parent) in
                    if list_ex (\<lambda>d. is_moving (wi_status d)) ds
                    then Some \<lparr>ro_status = Running, ro_origin = None\<rparr>
                    else
                      (let blocked = blocked_rows ds in
                       case (case earliest blocked True of Some x \<Rightarrow> Some x | None \<Rightarrow> earliest blocked False) of
                         Some (i, reason, d) \<Rightarrow>
                           Some \<lparr>ro_status = Blocked reason,
                                 ro_origin = Some (case wi_status_origin d of Some o1 \<Rightarrow> o1 | None \<Rightarrow> wi_id d)\<rparr>
                       | None \<Rightarrow>
                           if list_ex (\<lambda>d. \<not> is_closed (wi_status d)) ds then Some queued_rollup
                           else Some \<lparr>ro_status = Verifying, ro_origin = None\<rparr>))))"

definition rollup_chain :: "Snapshot \<Rightarrow> work_item_id \<Rightarrow> work_item_id list" where
  "rollup_chain work k = (if has_children work k then [k] else []) @ ancestors work k"

definition push_parent :: "Snapshot \<Rightarrow> (nat \<times> nat \<times> work_item_id) list \<Rightarrow> work_item_id \<Rightarrow> (nat \<times> nat \<times> work_item_id) list" where
  \<comment> \<open>\<open>seen\<close> holds exactly the ids already pushed\<close>
  "push_parent work parents p =
     (if p \<in> (snd \<circ> snd) ` set parents then parents
      else parents @ [(length (ancestors work p), length parents, p)])"

definition collect_parents :: "Snapshot \<Rightarrow> work_item_id list \<Rightarrow> (nat \<times> nat \<times> work_item_id) list" where
  "collect_parents work changed =
     foldl (\<lambda>parents k. foldl (push_parent work) parents (rollup_chain work k)) [] changed"

text \<open>Deepest first, ties in first-seen order: the comparator of \<open>sort_by\<close>.\<close>

definition deeper :: "nat \<times> nat \<times> work_item_id \<Rightarrow> nat \<times> nat \<times> work_item_id \<Rightarrow> bool" where
  "deeper a b = (fst b < fst a \<or> (fst a = fst b \<and> fst (snd a) \<le> fst (snd b)))"

fun insert_by :: "('a \<Rightarrow> 'a \<Rightarrow> bool) \<Rightarrow> 'a \<Rightarrow> 'a list \<Rightarrow> 'a list" where
  "insert_by le x [] = [x]"
| "insert_by le x (y # ys) = (if le x y then x # y # ys else y # insert_by le x ys)"

definition sort_by :: "('a \<Rightarrow> 'a \<Rightarrow> bool) \<Rightarrow> 'a list \<Rightarrow> 'a list" where
  "sort_by le xs = foldr (insert_by le) xs []"

definition rollup_parent ::
  "timestamp \<Rightarrow> Snapshot \<times> Transition list \<Rightarrow> work_item_id \<Rightarrow> Snapshot \<times> Transition list" where
  "rollup_parent now st p =
     (case st of (work, out) \<Rightarrow>
        (case rollup work p now of
           None \<Rightarrow> (work, out)
         | Some r \<Rightarrow>
             (case snap_item work p of
                None \<Rightarrow> (work, out)
              | Some row \<Rightarrow>
                  let current = wi_status row in
                  if is_closed current \<or> current = Blocked BudgetExhausted
                     \<or> (current = Blocked VerificationFailed \<and> ro_status r = Verifying)
                  then (work, out)
                  else if current = ro_status r \<and> wi_status_origin row = ro_origin r then (work, out)
                  else (set_status work p (ro_status r) (ro_origin r) now,
                        out @ [\<lparr>tr_item = p, tr_from = current, tr_to = ro_status r, tr_kind = EvTransition,
                                tr_reason = Some ''roll-up'', tr_upstream = None, tr_origin = ro_origin r\<rparr>]))))"

definition rollup_all_into ::
  "Snapshot \<Rightarrow> work_item_id list \<Rightarrow> timestamp \<Rightarrow> Transition list \<Rightarrow> Snapshot \<times> Transition list" where
  "rollup_all_into work changed now out =
     foldl (rollup_parent now) (work, out) (map (snd \<circ> snd) (sort_by deeper (collect_parents work changed)))"

definition rollup_all :: "Snapshot \<Rightarrow> work_item_id list \<Rightarrow> timestamp \<Rightarrow> Transition list" where
  "rollup_all s changed now = snd (rollup_all_into s changed now [])"

section \<open>What a roll-up can return\<close>

lemma rollup_Some:
  assumes "rollup s p now = Some r"
  obtains item where "snap_item s p = Some item" "has_children s p"
  using assms by (auto simp: rollup_def split: option.splits if_splits)

lemma min_row_mem: "min_row xs = Some x \<Longrightarrow> x \<in> set xs"
  by (induction xs arbitrary: x) (auto split: option.splits if_splits)

lemma min_row_None: "min_row xs = None \<longleftrightarrow> xs = []"
  by (cases xs) (auto split: option.splits if_splits)

lemma map_filter_mem: "x \<in> set (List.map_filter f xs) \<longleftrightarrow> (\<exists>y \<in> set xs. f y = Some x)"
  by (auto simp: List.map_filter_def) (force)

lemma blocked_rows_iff:
  "(i, r, d) \<in> set (blocked_rows ds) \<longleftrightarrow> i < length ds \<and> ds ! i = d \<and> wi_status d = Blocked r"
proof
  assume "i < length ds \<and> ds ! i = d \<and> wi_status d = Blocked r"
  then show "(i, r, d) \<in> set (blocked_rows ds)"
    unfolding blocked_rows_def map_filter_mem by (intro bexI[of _ "(i, d)"]) (auto simp: in_set_zip intro!: exI[of _ i])
qed (auto simp: blocked_rows_def map_filter_mem in_set_zip split: Status.splits)

lemma earliest_mem: "earliest bs u = Some (i, r, d) \<Longrightarrow> (i, r, d) \<in> set bs \<and> (u \<longrightarrow> needs_user r)"
  by (auto simp: earliest_def dest!: min_row_mem)

text \<open>An open parent rolls up only to \<open>queued\<close>, \<open>running\<close>, \<open>blocked\<close> or \<open>verifying\<close>.\<close>

lemma rollup_open:
  assumes "rollup s p now = Some r" "snap_item s p = Some item" "\<not> is_closed (wi_status item)"
  shows "ro_status r \<in> {Queued, Running, Verifying} \<union> range Blocked"
  using assms
  by (auto simp: rollup_def Let_def queued_rollup_def split: option.splits if_splits)

text \<open>The descendants that are in the snapshot, by status.\<close>

lemma earliest_None: "earliest bs u = None \<longleftrightarrow> (\<forall>(i, r, d) \<in> set bs. u \<and> \<not> needs_user r)"
  by (auto simp: earliest_def min_row_None filter_empty_conv)

lemma blocked_row_of:
  assumes "d \<in> set ds" "wi_status d = Blocked r"
  shows "\<exists>i. (i, r, d) \<in> set (blocked_rows ds)"
proof -
  obtain i where "i < length ds" "ds ! i = d" using assms(1) by (auto simp: in_set_conv_nth)
  with assms(2) show ?thesis by (intro exI[of _ i]) (simp add: blocked_rows_iff)
qed

definition pick_blocked :: "WorkItem list \<Rightarrow> (nat \<times> BlockedReason \<times> WorkItem) option" where
  "pick_blocked ds =
     (case earliest (blocked_rows ds) True of Some x \<Rightarrow> Some x | None \<Rightarrow> earliest (blocked_rows ds) False)"

lemma pick_blocked_Some:
  assumes "pick_blocked ds = Some (i, r, d)"
  shows "d \<in> set ds \<and> wi_status d = Blocked r
    \<and> (needs_user r \<or> (\<forall>d' \<in> set ds. \<forall>r'. wi_status d' = Blocked r' \<longrightarrow> \<not> needs_user r'))"
proof (cases "earliest (blocked_rows ds) True")
  case None
  with assms have "(i, r, d) \<in> set (blocked_rows ds)" by (simp add: pick_blocked_def earliest_mem)
  moreover have "\<not> needs_user r'" if "d' \<in> set ds" "wi_status d' = Blocked r'" for d' r'
    using blocked_row_of[OF that] None by (auto simp: earliest_None)
  ultimately show ?thesis by (auto simp: blocked_rows_iff)
next
  case (Some x)
  with assms have "(i, r, d) \<in> set (blocked_rows ds) \<and> needs_user r"
    using earliest_mem[of "blocked_rows ds" True i r d] by (simp add: pick_blocked_def)
  then show ?thesis by (auto simp: blocked_rows_iff)
qed

lemma pick_blocked_None: "pick_blocked ds = None \<longleftrightarrow> (\<forall>d \<in> set ds. \<forall>r. wi_status d \<noteq> Blocked r)"
proof
  assume "pick_blocked ds = None"
  then have "earliest (blocked_rows ds) False = None" by (auto simp: pick_blocked_def split: option.splits)
  then have "blocked_rows ds = []" by (auto simp: earliest_def min_row_None filter_empty_conv)
  then show "\<forall>d \<in> set ds. \<forall>r. wi_status d \<noteq> Blocked r" using blocked_row_of[of _ ds] by fastforce
next
  assume none: "\<forall>d \<in> set ds. \<forall>r. wi_status d \<noteq> Blocked r"
  show "pick_blocked ds = None"
  proof (cases "pick_blocked ds")
    case (Some x)
    then obtain i r d where "pick_blocked ds = Some (i, r, d)" by (cases x) auto
    from pick_blocked_Some[OF this] none show ?thesis by blast
  qed
qed

text \<open>The rows below the gate, as one case distinction.\<close>

definition gate_clear :: "Snapshot \<Rightarrow> work_item_id \<Rightarrow> timestamp \<Rightarrow> bool" where
  "gate_clear s p now =
     (\<exists>item. snap_item s p = Some item \<and> \<not> is_closed (wi_status item) \<and> wi_held_by item = None
        \<and> es_hold (edge_summary s p) = None \<and> es_satisfied (edge_summary s p) \<and> trigger_fired s p now)"

lemma rollup_below_gate:
  assumes "gate_clear s p now" "has_children s p"
  shows "rollup s p now = Some (let ds = List.map_filter (snap_item s) (descendants s p) in
      if list_ex (\<lambda>d. is_moving (wi_status d)) ds then \<lparr>ro_status = Running, ro_origin = None\<rparr>
      else case pick_blocked ds of
        Some (i, reason, d) \<Rightarrow> \<lparr>ro_status = Blocked reason,
          ro_origin = Some (case wi_status_origin d of Some o1 \<Rightarrow> o1 | None \<Rightarrow> wi_id d)\<rparr>
      | None \<Rightarrow> if list_ex (\<lambda>d. \<not> is_closed (wi_status d)) ds then queued_rollup
                else \<lparr>ro_status = Verifying, ro_origin = None\<rparr>)"
  using assms by (auto simp: gate_clear_def rollup_def Let_def pick_blocked_def split: option.splits)

text \<open>The statuses found under a parent.\<close>

definition subtree_statuses :: "Snapshot \<Rightarrow> work_item_id \<Rightarrow> Status set" where
  "subtree_statuses s p = {st. \<exists>d \<in> set (descendants s p). snap_status s d = Some st}"

lemma subtree_statuses_rows:
  "subtree_statuses s p = wi_status ` set (List.map_filter (snap_item s) (descendants s p))"
  by (fastforce simp: subtree_statuses_def map_filter_mem snap_status_def image_iff)

section \<open>The pass over the ancestors\<close>

lemma rollup_parent_cases:
  assumes "rollup_parent now (work, out) p = st"
  obtains (same) "st = (work, out)"
    | (moved) r row where "rollup work p now = Some r" "snap_item work p = Some row"
        "\<not> is_closed (wi_status row)" "wi_status row \<noteq> Blocked BudgetExhausted"
        "wi_status row \<noteq> Blocked VerificationFailed \<or> ro_status r \<noteq> Verifying"
        "st = (set_status work p (ro_status r) (ro_origin r) now,
               out @ [\<lparr>tr_item = p, tr_from = wi_status row, tr_to = ro_status r, tr_kind = EvTransition,
                       tr_reason = Some ''roll-up'', tr_upstream = None, tr_origin = ro_origin r\<rparr>])"
  using assms by (auto simp: rollup_parent_def Let_def split: option.splits if_splits)

text \<open>An invariant of one roll-up is an invariant of the pass.\<close>

lemma rollup_all_into_induct:
  assumes "P (work, out)" and "\<And>st p. P st \<Longrightarrow> P (rollup_parent now st p)"
  shows "P (rollup_all_into work changed now out)"
proof -
  have "P st \<Longrightarrow> P (foldl (rollup_parent now) st ps)" for st ps
    using assms(2) by (induction ps arbitrary: st) auto
  then show ?thesis using assms(1) by (simp add: rollup_all_into_def)
qed

section \<open>Properties\<close>

text \<open>The roll-up table, for an open parent whose own gate is clear: it is \<open>running\<close> exactly
  when something under it is ready, leased, running or verifying; otherwise \<open>blocked\<close> exactly when
  something under it is blocked, with the reason of a blocked descendant and with a reason that
  needs the user whenever there is one; otherwise \<open>queued\<close> while anything under it is open; and
  \<open>verifying\<close> exactly when everything under it is closed.\<close>

theorem rollup_follows_table:
  assumes "gate_clear s p now" "has_children s p"
  shows "case map_option ro_status (rollup s p now) of
      Some Running \<Rightarrow> \<exists>st \<in> subtree_statuses s p. is_moving st
    | Some (Blocked r) \<Rightarrow> Blocked r \<in> subtree_statuses s p \<and> (\<nexists>st. st \<in> subtree_statuses s p \<and> is_moving st)
        \<and> (needs_user r \<or> (\<nexists>r'. Blocked r' \<in> subtree_statuses s p \<and> needs_user r'))
    | Some Queued \<Rightarrow> (\<nexists>st. st \<in> subtree_statuses s p \<and> (is_moving st \<or> st \<in> range Blocked))
        \<and> (\<exists>st \<in> subtree_statuses s p. \<not> is_closed st)
    | Some Verifying \<Rightarrow> subtree_statuses s p \<subseteq> Collect is_closed
    | _ \<Rightarrow> False"
proof -
  let ?ds = "List.map_filter (snap_item s) (descendants s p)"
  have rows: "subtree_statuses s p = wi_status ` set ?ds" by (rule subtree_statuses_rows)
  note table = rollup_below_gate[OF assms, unfolded Let_def]
  show ?thesis
  proof (cases "list_ex (\<lambda>d. is_moving (wi_status d)) ?ds")
    case True
    then show ?thesis by (auto simp: table rows list_ex_iff)
  next
    case still: False
    then have calm: "\<not> is_moving st" if "st \<in> subtree_statuses s p" for st
      using that by (auto simp: rows list_ex_iff)
    show ?thesis
    proof (cases "pick_blocked ?ds")
      case None
      then have "st \<notin> range Blocked" if "st \<in> subtree_statuses s p" for st
        using that pick_blocked_None[of ?ds] by (auto simp: rows)
      then show ?thesis using still None calm by (auto simp: table rows list_ex_iff queued_rollup_def)
    next
      case (Some x)
      then obtain i r d where x: "pick_blocked ?ds = Some (i, r, d)" by (cases x) auto
      have "d \<in> set ?ds" "wi_status d = Blocked r"
        "needs_user r \<or> (\<nexists>r'. Blocked r' \<in> wi_status ` set ?ds \<and> needs_user r')"
        using pick_blocked_Some[OF x] by (auto simp: image_iff)
      then show ?thesis using still calm x by (auto simp: table rows intro!: rev_image_eqI)
    qed
  qed
qed

lemma rollup_follows_table_witness:
  "map_option ro_status (rollup (Snapshot_new [blank_item ''p'' None Queued,
       blank_item ''a'' (Some ''p'') (Blocked UpstreamFailed), blank_item ''b'' (Some ''p'') (Blocked NeedsConsent)] []) ''p'' 0)
     = Some (Blocked NeedsConsent)
   \<and> Blocked NeedsConsent \<in> subtree_statuses (Snapshot_new [blank_item ''p'' None Queued,
       blank_item ''a'' (Some ''p'') (Blocked UpstreamFailed), blank_item ''b'' (Some ''p'') (Blocked NeedsConsent)] []) ''p''"
proof -
  let ?s = "Snapshot_new [blank_item ''p'' None Queued, blank_item ''a'' (Some ''p'') (Blocked UpstreamFailed),
    blank_item ''b'' (Some ''p'') (Blocked NeedsConsent)] []"
  have item: "snap_item ?s ''p'' = Some (blank_item ''p'' None Queued)" and kids: "has_children ?s ''p''"
    and r: "map_option ro_status (rollup ?s ''p'' 0) = Some (Blocked NeedsConsent)"
    and edges: "es_hold (edge_summary ?s ''p'') = None" "es_satisfied (edge_summary ?s ''p'')" "trigger_fired ?s ''p'' 0"
    by code_simp+
  have "gate_clear ?s ''p'' 0" using item edges by (simp add: gate_clear_def blank_item_def)
  from rollup_follows_table[OF this kids] r show ?thesis by simp
qed

end
