(* ===== verification/Cascade.thy ===== *)
theory Cascade
  imports Rollup
begin

text \<open>
  The cascade, \<^verbatim>\<open>rustykrab-control/src/graph/cascade.rs\<close>: what follows in the same transaction when an
  item closes (\<open>run\<close>), when a subtree is cancelled (\<open>cancel_subtree\<close>), on one controller step
  (\<open>step\<close>), on a change without a close (\<open>settle\<close>), and the re-derivation of holds
  (\<open>hold_recompute_all\<close>).

  The mutable working snapshot and effects of the source, \<open>(work, out)\<close>, are a pair that each helper
  takes and returns; queues are lists popped at the front. Every loop is a total function: the hold
  loop runs out of waiting items that are not held, the cascade loop out of unvisited ids, the
  re-derivation out of visits.
\<close>

type_synonym cstate = "Snapshot \<times> Effects"

definition holds_lease :: "Snapshot \<Rightarrow> work_item_id \<Rightarrow> Status \<Rightarrow> bool" where
  "holds_lease work k st = ((st = Leased \<or> st = Running) \<and> \<not> has_children work k)"

definition open_plan_b :: "Snapshot \<Rightarrow> work_item_id \<Rightarrow> work_item_id option" where
  "open_plan_b work step =
     map_option e_item
       (find (\<lambda>e. case snap_status work (e_item e) of None \<Rightarrow> False | Some st \<Rightarrow> is_waiting st)
          (filter (\<lambda>e. e_kind e = EkConditionalOnFailure) (edges_naming work step)))"

definition cascade_cancel ::
  "work_item_id \<Rightarrow> work_item_id \<Rightarrow> work_item_id \<Rightarrow> string \<Rightarrow> timestamp \<Rightarrow> cstate \<Rightarrow> cstate" where
  \<comment> \<open>\<open>cancel\<close>\<close>
  "cascade_cancel k origin upstream reason now st =
     (case st of (work, out) \<Rightarrow>
        (case snap_status work k of
           None \<Rightarrow> (work, out)
         | Some from \<Rightarrow>
             let to = Cancelled CrCascade in
             (set_status work k to (Some origin) now,
              push_transition (Transition_caused k from to reason upstream origin) out)))"

text \<open>The two reasons the callers of \<open>hold\<close> pass.\<close>

datatype HoldCause = HoldFailed | HoldExpired

fun hold_reason :: "HoldCause \<Rightarrow> BlockedReason" where
  "hold_reason HoldFailed = UpstreamFailed"
| "hold_reason HoldExpired = UpstreamExpired"

text \<open>An item a hold can still take: waiting, and not held by a cascade already.\<close>

definition holdable :: "Status \<Rightarrow> bool" where
  "holdable st = (is_waiting st \<and> cascade_hold st = None)"

definition spreads :: "Edge \<Rightarrow> bool" where
  "spreads e = (e_kind e = EkBlocks \<or> e_kind e = EkWaitsFor)"

lemma hold_cause_not_holdable [simp]: "\<not> holdable (Blocked (hold_reason c))"
  by (cases c) (simp_all add: holdable_def cascade_hold_def is_cascade_def)

lemma length_filter_update_less:
  assumes "i < length xs" "P (xs ! i)" "\<not> P y"
  shows "length (filter P (xs[i := y])) < length (filter P xs)"
proof -
  have "filter P xs = filter P (take i xs) @ xs ! i # filter P (drop (Suc i) xs)"
    using assms id_take_nth_drop[OF assms(1)] by (metis filter.simps(2) filter_append)
  moreover have "filter P (xs[i := y]) = filter P (take i xs) @ filter P (drop (Suc i) xs)"
    using assms by (simp add: upd_conv_take_nth_drop)
  ultimately show ?thesis by simp
qed

lemma holdable_rows_less:
  assumes "snap_status work x = Some from" "holdable from" "\<not> holdable to"
  shows "length (filter (\<lambda>i. holdable (wi_status i)) (sn_items (set_status work x to o1 now)))
    < length (filter (\<lambda>i. holdable (wi_status i)) (sn_items work))"
proof -
  obtain i where "map_of (sn_index work) x = Some i" "i < length (sn_items work)" "wi_status (sn_items work ! i) = from"
    using assms(1) by (auto simp: snap_status_def snap_item_def nth_opt_def split: if_splits Option.bind_splits)
  then show ?thesis using assms(2,3)
    by (simp add: set_status_def update_item_def length_filter_update_less)
qed

function hold_loop ::
  "HoldCause \<Rightarrow> work_item_id \<Rightarrow> timestamp \<Rightarrow> (work_item_id \<times> work_item_id) list \<Rightarrow> cstate \<Rightarrow> cstate" where
  "hold_loop cause origin now [] st = st"
| "hold_loop cause origin now ((x, up) # queue) (work, out) =
     (case snap_status work x of
        None \<Rightarrow> hold_loop cause origin now queue (work, out)
      | Some from \<Rightarrow>
          if \<not> is_waiting from \<or> cascade_hold from \<noteq> None
          then hold_loop cause origin now queue (work, out)
          else
            let to = Blocked (hold_reason cause);
                work' = set_status work x to (Some origin) now;
                out' = push_transition (Transition_caused x from to ''held behind upstream'' up origin) out;
                behind = map (\<lambda>e. (e_item e, x)) (filter spreads (edges_naming work' x))
            in hold_loop cause origin now (queue @ behind) (work', out'))"
  by pat_completeness auto
termination
  by (relation "measures [\<lambda>(c, o1, now, queue, st). length (filter (\<lambda>i. holdable (wi_status i)) (sn_items (fst st))),
      \<lambda>(c, o1, now, queue, st). length queue]")
    (auto simp: holdable_def[symmetric] intro!: holdable_rows_less)

text \<open>One turn of the loop, and the induction it gives.\<close>

abbreviation held_write :: "HoldCause \<Rightarrow> work_item_id \<Rightarrow> timestamp \<Rightarrow> work_item_id \<Rightarrow> work_item_id \<Rightarrow> Status \<Rightarrow> cstate \<Rightarrow> cstate" where
  "held_write c origin now x up from st \<equiv>
     (set_status (fst st) x (Blocked (hold_reason c)) (Some origin) now,
      push_transition (Transition_caused x from (Blocked (hold_reason c)) ''held behind upstream'' up origin) (snd st))"

definition behind :: "Snapshot \<Rightarrow> work_item_id \<Rightarrow> (work_item_id \<times> work_item_id) list" where
  "behind work x = map (\<lambda>e. (e_item e, x)) (filter spreads (edges_naming work x))"

lemma hold_loop_skip:
  "\<nexists>from. snap_status work x = Some from \<and> holdable from
     \<Longrightarrow> hold_loop c origin now ((x, up) # queue) (work, out) = hold_loop c origin now queue (work, out)"
  by (auto simp: holdable_def split: option.splits)

lemma hold_loop_take:
  "snap_status work x = Some from \<Longrightarrow> holdable from
     \<Longrightarrow> hold_loop c origin now ((x, up) # queue) (work, out)
         = hold_loop c origin now (queue @ behind work x) (held_write c origin now x up from (work, out))"
  by (simp add: holdable_def Let_def behind_def)

declare hold_loop.simps(2) [simp del]

lemma hold_loop_induct [case_names Nil skip take]:
  assumes "\<And>st. P [] st"
    and "\<And>x up queue work out. \<nexists>from. snap_status work x = Some from \<and> holdable from \<Longrightarrow> P queue (work, out)
           \<Longrightarrow> P ((x, up) # queue) (work, out)"
    and "\<And>x up queue work out from. snap_status work x = Some from \<Longrightarrow> holdable from
           \<Longrightarrow> P (queue @ behind work x) (held_write c origin now x up from (work, out)) \<Longrightarrow> P ((x, up) # queue) (work, out)"
  shows "P queue st"
  using assms
proof (induction c origin now queue st rule: hold_loop.induct)
  case (1 c origin now st)
  then show ?case by simp
next
  case (2 c origin now x up queue work out)
  show ?case
  proof (cases "\<exists>from. snap_status work x = Some from \<and> holdable from")
    case True
    then obtain old where f: "snap_status work x = Some old" "holdable old" by blast
    then have "P (queue @ behind work x) (held_write c origin now x up old (work, out))"
      using "2.IH"(3) "2.prems" by (simp add: holdable_def behind_def)
    with f "2.prems"(3) show ?thesis by blast
  next
    case False
    then have "P queue (work, out)"
      using "2.IH"(1,2) "2.prems" by (cases "snap_status work x") (auto simp: holdable_def)
    with False "2.prems"(2) show ?thesis by blast
  qed
qed

definition cascade_hold_item ::
  "HoldCause \<Rightarrow> work_item_id \<Rightarrow> work_item_id \<Rightarrow> work_item_id \<Rightarrow> timestamp \<Rightarrow> cstate \<Rightarrow> cstate" where
  \<comment> \<open>\<open>hold\<close>\<close>
  "cascade_hold_item cause k origin upstream now st = hold_loop cause origin now [(k, upstream)] st"

definition repoint_edge :: "Edge \<Rightarrow> work_item_id \<Rightarrow> work_item_id \<Rightarrow> cstate \<Rightarrow> cstate" where
  \<comment> \<open>\<open>repoint\<close>\<close>
  "repoint_edge edge to origin st =
     (case st of (work, out) \<Rightarrow>
        (repoint_row work (e_item edge) (LkEdge (e_kind edge)) (e_depends_on edge) to,
         push_repoint \<lparr>rp_item = e_item edge, rp_link = LkEdge (e_kind edge),
                       rp_old_upstream = e_depends_on edge, rp_new_upstream = to, rp_origin = origin\<rparr> out))"

definition input_movers :: "Snapshot \<Rightarrow> work_item_id \<Rightarrow> work_item_id list" where
  "input_movers work step =
     (let plan_bs = map e_item (filter (\<lambda>e. e_kind e = EkConditionalOnFailure) (edges_naming work step)) in
      map wi_id (filter (\<lambda>i. is_waiting (wi_status i) \<and> wi_id i \<notin> set plan_bs
                             \<and> step \<in> set (wi_inputs_from i)) (sn_items work)))"

definition repoint_input :: "work_item_id \<Rightarrow> work_item_id \<Rightarrow> cstate \<Rightarrow> work_item_id \<Rightarrow> cstate" where
  "repoint_input step plan_b st k =
     (case st of (work, out) \<Rightarrow>
        (repoint_row work k LkInput step plan_b,
         push_repoint \<lparr>rp_item = k, rp_link = LkInput, rp_old_upstream = step,
                       rp_new_upstream = plan_b, rp_origin = step\<rparr> out))"

definition repoint_inputs :: "work_item_id \<Rightarrow> work_item_id \<Rightarrow> cstate \<Rightarrow> cstate" where
  "repoint_inputs step plan_b st = foldl (repoint_input step plan_b) st (input_movers (fst st) step)"

definition cancel_descendant ::
  "work_item_id \<Rightarrow> string \<Rightarrow> work_item_id \<Rightarrow> timestamp \<Rightarrow> cstate \<times> work_item_id list \<Rightarrow> work_item_id
     \<Rightarrow> cstate \<times> work_item_id list" where
  \<comment> \<open>the loop body of \<open>cancel_open_descendants\<close>\<close>
  "cancel_descendant parent reason origin now stq d =
     (case stq of ((work, out), queue) \<Rightarrow>
        (case snap_item work d of
           None \<Rightarrow> ((work, out), queue)
         | Some row \<Rightarrow>
             let status = wi_status row in
             if is_closed status then ((work, out), queue)
             else if status = Verifying
             then ((work, out\<lparr>ef_verifying := push_unique (ef_verifying out) d\<rparr>), queue)
             else
               let out' = (if holds_lease work d status
                           then out\<lparr>ef_revoke := push_unique (ef_revoke out) d\<rparr> else out);
                   upstream = (case wi_parent row of Some p \<Rightarrow> p | None \<Rightarrow> parent)
               in (cascade_cancel d origin upstream reason now (work, out'), queue @ [d])))"

definition cancel_open_descendants ::
  "work_item_id \<Rightarrow> Status \<Rightarrow> work_item_id \<Rightarrow> timestamp \<Rightarrow> cstate \<times> work_item_id list \<Rightarrow> cstate \<times> work_item_id list" where
  "cancel_open_descendants parent parent_status origin now stq =
     (let reason = (if parent_status = Expired then ''ancestor expired'' else ''ancestor cancelled'') in
      foldl (cancel_descendant parent reason origin now) stq (descendants (fst (fst stq)) parent))"

definition run_edge ::
  "work_item_id \<Rightarrow> Status \<Rightarrow> work_item_id option \<Rightarrow> work_item_id \<Rightarrow> timestamp
     \<Rightarrow> cstate \<times> work_item_id list \<Rightarrow> Edge \<Rightarrow> cstate \<times> work_item_id list" where
  \<comment> \<open>the loop over \<open>dependents\<close> in \<open>run\<close>\<close>
  "run_edge closed status plan_b origin now stq edge =
     (case stq of ((work, out), queue) \<Rightarrow>
        (case snap_status work (e_item edge) of
           None \<Rightarrow> stq
         | Some dep \<Rightarrow>
             if \<not> is_waiting dep then stq
             else
               (case (e_kind edge, status) of
                  (EkBlocks, Failed) \<Rightarrow>
                    (case plan_b of
                       Some p \<Rightarrow>
                         if p \<noteq> e_item edge then (repoint_edge edge p closed (work, out), queue)
                         else (cascade_hold_item HoldFailed (e_item edge) origin closed now (work, out), queue)
                     | None \<Rightarrow> (cascade_hold_item HoldFailed (e_item edge) origin closed now (work, out), queue))
                | (EkWaitsFor, Failed) \<Rightarrow>
                    (case plan_b of
                       Some p \<Rightarrow>
                         if p \<noteq> e_item edge then (repoint_edge edge p closed (work, out), queue) else stq
                     | None \<Rightarrow> stq)
                | (EkBlocks, Expired) \<Rightarrow>
                    (cascade_hold_item HoldExpired (e_item edge) origin closed now (work, out), queue)
                | (EkBlocks, Cancelled _) \<Rightarrow>
                    (cascade_cancel (e_item edge) origin closed ''blocks upstream cancelled'' now (work, out),
                     queue @ [e_item edge])
                | (EkConditionalOnFailure, Failed) \<Rightarrow> stq
                | (EkConditionalOnFailure, _) \<Rightarrow>
                    (cascade_cancel (e_item edge) origin closed ''plan B not needed: its step did not fail'' now (work, out),
                     queue @ [e_item edge])
                | _ \<Rightarrow> stq)))"

definition ends_subtree :: "Status \<Rightarrow> bool" where
  "ends_subtree status = (case status of Cancelled _ \<Rightarrow> True | Expired \<Rightarrow> True | _ \<Rightarrow> False)"

definition run_dependents ::
  "work_item_id \<Rightarrow> Status \<Rightarrow> work_item_id \<Rightarrow> timestamp \<Rightarrow> cstate \<times> work_item_id list \<Rightarrow> cstate \<times> work_item_id list" where
  \<comment> \<open>the second half of that body: 4.1's table over the dependents, then the inputs of a plan B\<close>
  "run_dependents closed status origin now stq =
     (let work = fst (fst stq);
          plan_b = (if status = Failed then open_plan_b work closed else None);
          dependents = filter (\<lambda>e. is_ordering (e_kind e)) (edges_naming work closed);
          stq2 = foldl (run_edge closed status plan_b origin now) stq dependents
      in case plan_b of
           None \<Rightarrow> stq2
         | Some p \<Rightarrow> (repoint_inputs closed p (fst stq2), snd stq2))"

definition run_closed ::
  "work_item_id \<Rightarrow> Status \<Rightarrow> work_item_id \<Rightarrow> timestamp \<Rightarrow> cstate \<times> work_item_id list \<Rightarrow> cstate \<times> work_item_id list" where
  \<comment> \<open>the body of the loop of \<open>run\<close> for one closed item\<close>
  "run_closed closed status origin now stq =
     (let stq1 = (if ends_subtree status
                  then cancel_open_descendants closed status origin now stq else stq)
      in if status = Cancelled CrSuperseded then stq1
         else run_dependents closed status origin now stq1)"

section \<open>What every helper keeps\<close>

text \<open>
  The cascade changes its state through five kinds of write only. A property of the pair
  \<open>(work, out)\<close> that each write keeps is kept by the whole cascade; the laws state exactly what is
  known where the source performs the write. Without the re-points it is \<open>cascade_writes\<close>, which is all
  that cancelling, holding and the cascade of an item that did not fail need.
\<close>

locale cascade_writes =
  fixes keeps :: "cstate \<Rightarrow> bool" and now :: timestamp and origin :: work_item_id
  assumes cancel_write: "keeps (work, out) \<Longrightarrow> snap_status work k = Some from \<Longrightarrow> \<not> is_closed from
      \<Longrightarrow> from \<noteq> Verifying \<Longrightarrow> (holds_lease work k from \<Longrightarrow> k \<in> set (ef_revoke out))
      \<Longrightarrow> keeps (set_status work k (Cancelled CrCascade) (Some origin) now,
                push_transition (Transition_caused k from (Cancelled CrCascade) reason up origin) out)"
    and hold_write: "keeps (work, out) \<Longrightarrow> snap_status work k = Some from \<Longrightarrow> holdable from
      \<Longrightarrow> keeps (set_status work k (Blocked (hold_reason c)) (Some origin) now,
                push_transition (Transition_caused k from (Blocked (hold_reason c)) reason up origin) out)"
    and note_revoke: "keeps (work, out) \<Longrightarrow> snap_status work k = Some st \<Longrightarrow> holds_lease work k st
      \<Longrightarrow> keeps (work, out\<lparr>ef_revoke := push_unique (ef_revoke out) k\<rparr>)"
    and note_verifying: "keeps (work, out) \<Longrightarrow> snap_status work k = Some Verifying
      \<Longrightarrow> keeps (work, out\<lparr>ef_verifying := push_unique (ef_verifying out) k\<rparr>)"
begin

lemma cancel_keeps:
  assumes "keeps (work, out)" "snap_status work k = Some from" "\<not> is_closed from" "from \<noteq> Verifying"
    "holds_lease work k from \<Longrightarrow> k \<in> set (ef_revoke out)"
  shows "keeps (cascade_cancel k origin up reason now (work, out))"
  using assms by (simp add: cascade_cancel_def Let_def cancel_write)

lemma hold_loop_keeps: "keeps st \<Longrightarrow> keeps (hold_loop c origin now queue st)"
  by (induction queue st rule: hold_loop_induct[where c = c and origin = origin and now = now])
    (simp_all add: hold_loop_skip hold_loop_take hold_write)

lemma hold_keeps: "keeps st \<Longrightarrow> keeps (cascade_hold_item c k origin up now st)"
  by (simp add: cascade_hold_item_def hold_loop_keeps)

lemma cancel_descendant_keeps:
  assumes "keeps (fst stq)"
  shows "keeps (fst (cancel_descendant parent reason origin now stq d))"
proof -
  obtain work out queue where stq: "stq = ((work, out), queue)" by (metis surj_pair)
  show ?thesis
  proof (cases "snap_item work d")
    case None
    with assms stq show ?thesis by (simp add: cancel_descendant_def)
  next
    case (Some row)
    then have st: "snap_status work d = Some (wi_status row)" by (simp add: snap_status_def)
    let ?lease = "holds_lease work d (wi_status row)"
    have "keeps (work, if ?lease then out\<lparr>ef_revoke := push_unique (ef_revoke out) d\<rparr> else out)"
      using assms stq st note_revoke by simp
    then show ?thesis using assms stq Some st
      by (auto simp: cancel_descendant_def Let_def intro!: cancel_keeps note_verifying)
  qed
qed

lemma cancel_open_descendants_keeps:
  assumes "keeps (fst stq)"
  shows "keeps (fst (cancel_open_descendants parent pst origin now stq))"
proof -
  have "keeps (fst stq) \<Longrightarrow> keeps (fst (foldl (cancel_descendant parent reason origin now) stq ds))" for reason stq ds
    by (induction ds arbitrary: stq) (simp_all add: cancel_descendant_keeps)
  with assms show ?thesis by (simp add: cancel_open_descendants_def)
qed

text \<open>Without a failure nothing is re-pointed.\<close>

lemma run_edge_keeps_unfailed:
  assumes "keeps (fst stq)" "status \<noteq> Failed"
  shows "keeps (fst (run_edge closed status plan_b origin now stq e))"
proof -
  obtain work out queue where stq: "stq = ((work, out), queue)" by (metis surj_pair)
  show ?thesis
  proof (cases "\<exists>dep. snap_status work (e_item e) = Some dep \<and> is_waiting dep")
    case True
    then obtain dep where dep: "snap_status work (e_item e) = Some dep" "is_waiting dep" by blast
    then have open_dep: "\<not> is_closed dep" "dep \<noteq> Verifying" "\<not> holds_lease work (e_item e) dep"
      by (cases dep; simp add: holds_lease_def)+
    have "keeps (cascade_cancel (e_item e) origin closed reason now (work, out))" for reason
      using assms stq dep open_dep by (intro cancel_keeps) auto
    then show ?thesis using assms stq dep
      by (auto simp: run_edge_def hold_keeps split: EdgeKind.splits Status.splits option.splits)
  next
    case False
    with assms stq show ?thesis by (auto simp: run_edge_def split: option.splits)
  qed
qed

lemma run_closed_keeps_unfailed:
  assumes "keeps (fst stq)" "status \<noteq> Failed"
  shows "keeps (fst (run_closed closed status origin now stq))"
proof -
  have "keeps (fst stq) \<Longrightarrow> keeps (fst (foldl (run_edge closed status plan_b origin now) stq es))" for plan_b stq es
    using assms(2) by (induction es arbitrary: stq) (simp_all add: run_edge_keeps_unfailed)
  with assms show ?thesis
    by (simp add: run_closed_def run_dependents_def Let_def cancel_open_descendants_keeps)
qed

end

locale cascade_keeps = cascade_writes +
  assumes repoint_write: "keeps (work, out)
      \<Longrightarrow> keeps (repoint_row work (rp_item r) (rp_link r) (rp_old_upstream r) (rp_new_upstream r), push_repoint r out)"
begin

lemma repoint_edge_keeps: "keeps st \<Longrightarrow> keeps (repoint_edge e to cause st)"
  using repoint_write[of "fst st" "snd st"
      "\<lparr>rp_item = e_item e, rp_link = LkEdge (e_kind e), rp_old_upstream = e_depends_on e,
        rp_new_upstream = to, rp_origin = cause\<rparr>"]
  by (cases st) (simp add: repoint_edge_def)

lemma repoint_inputs_keeps: "keeps st \<Longrightarrow> keeps (repoint_inputs step plan_b st)"
proof -
  have one: "keeps st \<Longrightarrow> keeps (repoint_input step plan_b st k)" for st k
    using repoint_write[of "fst st" "snd st" "\<lparr>rp_item = k, rp_link = LkInput, rp_old_upstream = step,
        rp_new_upstream = plan_b, rp_origin = step\<rparr>"]
    by (cases st) (simp add: repoint_input_def)
  have "keeps st \<Longrightarrow> keeps (foldl (repoint_input step plan_b) st ks)" for st ks
    by (induction ks arbitrary: st) (simp_all add: one)
  then show "keeps st \<Longrightarrow> keeps (repoint_inputs step plan_b st)" by (simp add: repoint_inputs_def)
qed

lemma run_edge_keeps:
  assumes "keeps (fst stq)"
  shows "keeps (fst (run_edge closed status plan_b origin now stq e))"
proof (cases "status = Failed")
  case True
  with assms show ?thesis
    by (cases stq) (auto simp: run_edge_def hold_keeps repoint_edge_keeps split: EdgeKind.splits option.splits)
qed (use assms in \<open>simp add: run_edge_keeps_unfailed\<close>)

lemma run_edges_keep: "keeps (fst stq) \<Longrightarrow> keeps (fst (foldl (run_edge closed status plan_b origin now) stq es))"
  by (induction es arbitrary: stq) (simp_all add: run_edge_keeps)

lemma run_dependents_keeps: "keeps (fst stq) \<Longrightarrow> keeps (fst (run_dependents closed status origin now stq))"
  by (auto simp: run_dependents_def Let_def run_edges_keep repoint_inputs_keeps split: option.splits)

lemma run_closed_keeps: "keeps (fst stq) \<Longrightarrow> keeps (fst (run_closed closed status origin now stq))"
  by (simp add: run_closed_def Let_def cancel_open_descendants_keeps run_dependents_keeps)

end

section \<open>The cascade loop\<close>

text \<open>The ids a cascade can ever put on its queue: holders of edges and listed children.\<close>

definition cascade_ids :: "Snapshot \<Rightarrow> work_item_id set" where
  "cascade_ids work = e_item ` set (sn_edges work) \<union> (\<Union>p \<in> set (sn_children work). set (snd p))"

lemma finite_cascade_ids [simp]: "finite (cascade_ids work)"
  by (simp add: cascade_ids_def)

lemma nth_opt_mem: "nth_opt xs i = Some x \<Longrightarrow> x \<in> set xs"
  by (auto simp: nth_opt_def split: if_splits)

lemma edges_naming_subset: "set (edges_naming work k) \<subseteq> set (sn_edges work)"
  by (auto simp: edges_naming_def map_filter_mem dest: nth_opt_mem)

lemma descendants_subset: "set (descendants work k) \<subseteq> cascade_ids work"
proof -
  have kids: "kid_of work p c \<Longrightarrow> c \<in> cascade_ids work" for p c
    using hm_list_values[of "sn_children work" p] by (auto simp: kid_of_def children_def cascade_ids_def)
  show ?thesis unfolding descendants_def
    by (rule descendants_loop_sound) (use kids in \<open>auto simp: kid_of_def\<close>)
qed

lemma cascade_ids_set_status [simp]: "cascade_ids (set_status work k to o1 now) = cascade_ids work"
  by (simp add: cascade_ids_def frame_simps)

lemma cascade_ids_repoint_row: "cascade_ids (repoint_row work k l old new) \<subseteq> cascade_ids work"
proof (cases l)
  case (LkEdge kind)
  let ?moved = "\<lparr>e_item = k, e_depends_on = new, e_kind = kind\<rparr>"
  show ?thesis
  proof (cases "position (\<lambda>e. e_item e = k \<and> e_depends_on e = old \<and> e_kind e = kind) (sn_edges work)")
    case None
    with LkEdge show ?thesis by (simp add: repoint_row_def)
  next
    case (Some pos)
    have pos: "pos < length (sn_edges work)" "e_item (sn_edges work ! pos) = k"
      using position_Some[OF Some] by auto
    have "e_item x \<in> e_item ` set (sn_edges work)" if "x \<in> set ((sn_edges work)[pos := ?moved])" for x
      using that pos set_update_subset_insert[of "sn_edges work" pos ?moved] nth_mem[OF pos(1)] by fastforce
    then show ?thesis using LkEdge Some set_remove_at_subset[of pos "sn_edges work"]
      by (auto simp: cascade_ids_def repoint_row_def Let_def)
  qed
next
  case LkInput
  then show ?thesis by (simp add: repoint_row_def cascade_ids_def frame_simps)
qed

interpretation ids: cascade_keeps "\<lambda>st. cascade_ids (fst st) \<subseteq> U" now origin
  for U :: "work_item_id set" and now :: timestamp and origin :: work_item_id
  by unfold_locales (auto dest: subsetD[OF cascade_ids_repoint_row])

lemma cancel_open_descendants_queue:
  "set (snd (cancel_open_descendants parent pst origin now stq)) \<subseteq> set (snd stq) \<union> cascade_ids (fst (fst stq))"
proof -
  have one: "set (snd (cancel_descendant parent reason origin now stq d)) \<subseteq> insert d (set (snd stq))" for reason stq d
    by (auto simp: cancel_descendant_def Let_def split: prod.splits option.splits)
  have "set (snd (foldl (cancel_descendant parent reason origin now) stq ds)) \<subseteq> set (snd stq) \<union> set ds" for reason stq ds
  proof (induction ds arbitrary: stq)
    case (Cons d ds)
    with one[of reason stq d] show ?case by (simp add: subset_iff) blast
  qed simp
  with descendants_subset[of "fst (fst stq)" parent] show ?thesis
    unfolding cancel_open_descendants_def Let_def by blast
qed

lemma run_edges_queue:
  "set (snd (foldl (run_edge closed status plan_b origin now) stq es)) \<subseteq> set (snd stq) \<union> e_item ` set es"
proof (induction es arbitrary: stq)
  case (Cons e es)
  have "set (snd (run_edge closed status plan_b origin now stq e)) \<subseteq> insert (e_item e) (set (snd stq))"
    by (auto simp: run_edge_def split: prod.splits option.splits EdgeKind.splits Status.splits)
  with Cons[of "run_edge closed status plan_b origin now stq e"] show ?case by (simp add: subset_iff) blast
qed simp

lemma run_closed_queue:
  "set (snd (run_closed closed status origin now stq)) \<subseteq> set (snd stq) \<union> cascade_ids (fst (fst stq))"
proof -
  define stq1 where "stq1 = (if ends_subtree status then cancel_open_descendants closed status origin now stq else stq)"
  have q1: "set (snd stq1) \<subseteq> set (snd stq) \<union> cascade_ids (fst (fst stq))"
    using cancel_open_descendants_queue by (auto simp: stq1_def)
  have shrink: "cascade_ids (fst (fst stq1)) \<subseteq> cascade_ids (fst (fst stq))"
    using ids.cancel_open_descendants_keeps by (simp add: stq1_def)
  have naming: "e_item ` set (filter p (edges_naming (fst (fst stq1)) closed)) \<subseteq> cascade_ids (fst (fst stq1))" for p
    using edges_naming_subset[of "fst (fst stq1)" closed] by (auto simp: cascade_ids_def)
  have edges: "set (snd stq1) \<union> e_item ` set (filter p (edges_naming (fst (fst stq1)) closed))
      \<subseteq> set (snd stq) \<union> cascade_ids (fst (fst stq))" for p
    by (rule Un_least[OF q1 le_supI2[OF order_trans[OF naming shrink]]])
  have "set (snd (foldl (run_edge closed status plan_b origin now) stq1 (filter p (edges_naming (fst (fst stq1)) closed))))
       \<subseteq> set (snd stq) \<union> cascade_ids (fst (fst stq))" for plan_b p
    by (rule order_trans[OF run_edges_queue edges])
  then show ?thesis using q1
    unfolding run_closed_def stq1_def[symmetric] run_dependents_def by (auto simp: Let_def split: option.splits)
qed

lemma run_closed_ids: "cascade_ids (fst (fst (run_closed closed status origin now stq))) \<subseteq> cascade_ids (fst (fst stq))"
  by (rule ids.run_closed_keeps) simp

function run_loop ::
  "work_item_id \<Rightarrow> timestamp \<Rightarrow> work_item_id list \<Rightarrow> work_item_id set \<Rightarrow> cstate \<Rightarrow> cstate" where
  "run_loop origin now [] finished st = st"
| "run_loop origin now (closed # queue) finished st =
     (if closed \<in> finished then run_loop origin now queue finished st
      else
        case snap_status (fst st) closed of
          None \<Rightarrow> run_loop origin now queue (insert closed finished) st
        | Some status \<Rightarrow>
            if \<not> is_closed status then run_loop origin now queue (insert closed finished) st
            else
              let stq = run_closed closed status origin now (st, queue)
              in run_loop origin now (snd stq) (insert closed finished) (fst stq))"
  by pat_completeness auto
termination
proof (relation "measures [\<lambda>(o1, now, queue, finished, st). card (set queue \<union> cascade_ids (fst st) - finished),
    \<lambda>(o1, now, queue, finished, st). length queue]", goal_cases)
  case 1
  then show ?case by simp
next
  case (2 origin now closed queue finished st)
  have "card (set queue \<union> cascade_ids (fst st) - finished) \<le> card (set (closed # queue) \<union> cascade_ids (fst st) - finished)"
    by (rule worklist_le) auto
  then show ?case by (simp add: le_less)
next
  case (3 origin now closed queue finished st)
  then have "card (set queue \<union> cascade_ids (fst st) - insert closed finished)
      < card (set (closed # queue) \<union> cascade_ids (fst st) - finished)"
    by (intro worklist_less) auto
  then show ?case by simp
next
  case (4 origin now closed queue finished st status)
  then have "card (set queue \<union> cascade_ids (fst st) - insert closed finished)
      < card (set (closed # queue) \<union> cascade_ids (fst st) - finished)"
    by (intro worklist_less) auto
  then show ?case by simp
next
  case (5 origin now closed queue finished st status stq)
  let ?stq = "run_closed closed status origin now (st, queue)"
  have "set (snd ?stq) \<union> cascade_ids (fst (fst ?stq)) \<subseteq> set (closed # queue) \<union> cascade_ids (fst st)"
    using run_closed_queue[of closed status origin now "(st, queue)"]
      run_closed_ids[of closed status origin now "(st, queue)"] by auto
  then have "card (set (snd ?stq) \<union> cascade_ids (fst (fst ?stq)) - insert closed finished)
      < card (set (closed # queue) \<union> cascade_ids (fst st) - finished)"
    using 5 by (intro worklist_less) auto
  then show ?case using 5 by simp
qed

text \<open>One turn of the loop, and the induction it gives.\<close>

definition skips :: "work_item_id \<Rightarrow> work_item_id set \<Rightarrow> cstate \<Rightarrow> bool" where
  "skips k finished st = (k \<in> finished \<or> (case snap_status (fst st) k of None \<Rightarrow> True | Some status \<Rightarrow> \<not> is_closed status))"

lemma run_loop_skip:
  "skips k finished st \<Longrightarrow> run_loop origin now (k # queue) finished st = run_loop origin now queue (insert k finished) st"
  by (auto simp: skips_def insert_absorb split: option.splits)

lemma run_loop_close:
  "\<not> skips k finished st \<Longrightarrow> snap_status (fst st) k = Some status
     \<Longrightarrow> run_loop origin now (k # queue) finished st
         = run_loop origin now (snd (run_closed k status origin now (st, queue))) (insert k finished)
             (fst (run_closed k status origin now (st, queue)))"
  by (simp add: skips_def Let_def)

declare run_loop.simps(2) [simp del]

lemma run_loop_induct [case_names Nil skip close]:
  assumes "\<And>finished st. P [] finished st"
    and "\<And>k queue finished st. skips k finished st \<Longrightarrow> P queue (insert k finished) st \<Longrightarrow> P (k # queue) finished st"
    and "\<And>k queue finished st status. \<not> skips k finished st \<Longrightarrow> k \<notin> finished \<Longrightarrow> snap_status (fst st) k = Some status
           \<Longrightarrow> is_closed status
           \<Longrightarrow> P (snd (run_closed k status origin now (st, queue))) (insert k finished)
                 (fst (run_closed k status origin now (st, queue)))
           \<Longrightarrow> P (k # queue) finished st"
  shows "P queue finished st"
  using assms
proof (induction origin now queue finished st rule: run_loop.induct)
  case (1 origin now finished st)
  then show ?case by simp
next
  case (2 origin now k queue finished st)
  show ?case
  proof (cases "skips k finished st")
    case True
    have "P queue (insert k finished) st"
    proof (cases "k \<in> finished")
      case True
      then show ?thesis using "2.IH"(1) "2.prems" by (simp add: insert_absorb)
    next
      case False
      with \<open>skips k finished st\<close> show ?thesis
        using "2.IH"(2,3)[OF False] "2.prems" by (cases "snap_status (fst st) k") (auto simp: skips_def)
    qed
    with True "2.prems"(2) show ?thesis by blast
  next
    case False
    then obtain status where k: "k \<notin> finished" "snap_status (fst st) k = Some status" "is_closed status"
      by (auto simp: skips_def split: option.splits)
    then have "P (snd (run_closed k status origin now (st, queue))) (insert k finished)
        (fst (run_closed k status origin now (st, queue)))"
      using "2.IH"(4)[OF k(1,2)] "2.prems" by simp
    with False k "2.prems"(3) show ?thesis by blast
  qed
qed

definition run :: "work_item_id \<Rightarrow> work_item_id \<Rightarrow> timestamp \<Rightarrow> cstate \<Rightarrow> cstate" where
  "run start origin now st = run_loop origin now [start] {} st"

section \<open>The public operations\<close>

definition other_than :: "work_item_id \<Rightarrow> work_item_id \<Rightarrow> work_item_id option" where
  \<comment> \<open>\<^verbatim>\<open>(origin != item).then(|| origin)\<close>\<close>
  "other_than origin item = (if origin \<noteq> item then Some origin else None)"

definition cascade_from_run :: "Snapshot \<Rightarrow> work_item_id \<Rightarrow> Status \<Rightarrow> work_item_id \<Rightarrow> timestamp \<Rightarrow> cstate" where
  "cascade_from_run s item to origin now =
     run item origin now (set_status s item to (other_than origin item) now, Effects_default)"

definition cascade_from :: "Snapshot \<Rightarrow> work_item_id \<Rightarrow> Status \<Rightarrow> work_item_id \<Rightarrow> timestamp \<Rightarrow> Effects" where
  "cascade_from s item to origin now = snd (cascade_from_run s item to origin now)"

definition cascade :: "Snapshot \<Rightarrow> work_item_id \<Rightarrow> Status \<Rightarrow> timestamp \<Rightarrow> Effects" where
  "cascade s item to now = cascade_from s item to item now"

definition cancel_subtree_run ::
  "Snapshot \<Rightarrow> work_item_id \<Rightarrow> CancelReason \<Rightarrow> work_item_id \<Rightarrow> timestamp \<Rightarrow> cstate" where
  "cancel_subtree_run s parent reason origin now =
     (let out = Effects_default in
      case snap_status s parent of
        None \<Rightarrow> (s, out)
      | Some from \<Rightarrow>
          if is_closed from then (s, out)
          else if from = Verifying
          then (s, out\<lparr>ef_verifying := push_unique (ef_verifying out) parent\<rparr>)
          else
            let to = Cancelled reason;
                own_origin = other_than origin parent;
                out1 = push_transition
                  \<lparr>tr_item = parent, tr_from = from, tr_to = to,
                   tr_kind = (if own_origin \<noteq> None then EvCascade else EvTransition),
                   tr_reason = Some (''cancelled ('' @ CancelReason_as_str reason @ '')''),
                   tr_upstream = own_origin, tr_origin = own_origin\<rparr> out;
                out2 = (if holds_lease s parent from
                        then out1\<lparr>ef_revoke := push_unique (ef_revoke out1) parent\<rparr> else out1)
            in run parent origin now (set_status s parent to own_origin now, out2))"

definition cancel_subtree ::
  "Snapshot \<Rightarrow> work_item_id \<Rightarrow> CancelReason \<Rightarrow> work_item_id \<Rightarrow> timestamp \<Rightarrow> Effects" where
  "cancel_subtree s parent reason origin now = snd (cancel_subtree_run s parent reason origin now)"

definition plain_write :: "Status \<Rightarrow> Status \<Rightarrow> string \<Rightarrow> timestamp \<Rightarrow> cstate \<times> work_item_id list \<Rightarrow> work_item_id \<Rightarrow> cstate \<times> work_item_id list" where
  \<comment> \<open>the bodies of the two loops of \<open>settle_into\<close>\<close>
  "plain_write from to reason now stc k =
     (case stc of ((work, out), changed) \<Rightarrow>
        ((set_status work k to None now, push_transition (Transition_plain k from to reason) out),
         push_unique changed k))"

definition settle_into :: "work_item_id list \<Rightarrow> timestamp \<Rightarrow> cstate \<Rightarrow> cstate" where
  "settle_into changed now st =
     (let stc1 = foldl (plain_write Status.Ready Queued ''no longer ready'' now) (st, changed)
                   (stale_ready (fst st) now);
          stc2 = foldl (plain_write Queued Status.Ready ''ready'' now) stc1 (readiness (fst (fst stc1)) now);
          out2 = snd (fst stc2);
          r = rollup_all_into (fst (fst stc2)) (snd stc2) now (ef_transitions out2)
      in (fst r, out2\<lparr>ef_transitions := snd r\<rparr>))"

definition settle_run :: "Snapshot \<Rightarrow> work_item_id list \<Rightarrow> timestamp \<Rightarrow> cstate" where
  "settle_run s changed now = settle_into changed now (s, Effects_default)"

definition settle :: "Snapshot \<Rightarrow> work_item_id list \<Rightarrow> timestamp \<Rightarrow> Effects" where
  "settle s changed now = snd (settle_run s changed now)"

definition step_open :: "Snapshot \<Rightarrow> work_item_id \<Rightarrow> Status \<Rightarrow> Status \<Rightarrow> timestamp \<Rightarrow> cstate" where
  \<comment> \<open>\<open>step\<close> up to the cascade, for an open item in status \<open>from\<close>\<close>
  "step_open s item from to now =
     (let out1 = push_transition
            \<lparr>tr_item = item, tr_from = from, tr_to = to, tr_kind = EvTransition, tr_reason = None,
             tr_upstream = None, tr_origin = None\<rparr> Effects_default;
          out2 = (if holds_lease s item from \<and> ends_subtree to
                  then out1\<lparr>ef_revoke := push_unique (ef_revoke out1) item\<rparr> else out1);
          work = set_status s item to None now
      in if is_closed to then run item item now (work, out2) else (work, out2))"

definition step_run :: "Snapshot \<Rightarrow> work_item_id \<Rightarrow> Status \<Rightarrow> timestamp \<Rightarrow> cstate" where
  "step_run s item to now =
     (case snap_status s item of
        None \<Rightarrow> (s, Effects_default)
      | Some from \<Rightarrow>
          if is_closed from then (s, Effects_default)
          else let st = step_open s item from to now in settle_into (touched (snd st)) now st)"

definition step :: "Snapshot \<Rightarrow> work_item_id \<Rightarrow> Status \<Rightarrow> timestamp \<Rightarrow> Effects" where
  "step s item to now = snd (step_run s item to now)"

definition hold_recompute :: "Snapshot \<Rightarrow> work_item_id \<Rightarrow> Transition option" where
  "hold_recompute s item =
     (case snap_item s item of
        None \<Rightarrow> None
      | Some row \<Rightarrow>
          let held = (cascade_hold (wi_status row) \<noteq> None) in
          if \<not> held \<and> wi_status row \<noteq> Queued \<and> wi_status row \<noteq> Status.Ready then None
          else
            (case es_hold (edge_summary s item) of
               Some h \<Rightarrow>
                 let to = Blocked (ho_reason h) in
                 if wi_status row = to \<and> wi_status_origin row = Some (ho_origin h) then None
                 else Some (Transition_caused item (wi_status row) to ''held behind upstream'' (ho_upstream h) (ho_origin h))
             | None \<Rightarrow>
                 if held then Some (Transition_plain item (wi_status row) Queued ''hold cleared'') else None))"

definition visit_count :: "(work_item_id \<times> nat) list \<Rightarrow> work_item_id \<Rightarrow> nat" where
  "visit_count visits x = (case map_of visits x of None \<Rightarrow> 0 | Some n \<Rightarrow> n)"

lemma visit_count_update: "visit_count (AList.update x n visits) y = (if y = x then n else visit_count visits y)"
  by (simp add: visit_count_def update_conv)

definition visits_left :: "nat \<Rightarrow> work_item_id set \<Rightarrow> (work_item_id \<times> nat) list \<Rightarrow> nat" where
  "visits_left limit U visits = (\<Sum>x \<in> U. limit - visit_count visits x)"

lemma visits_left_le:
  assumes "finite U" "U' \<subseteq> U"
  shows "visits_left limit U' (AList.update x (visit_count visits x + 1) visits) \<le> visits_left limit U visits"
proof -
  let ?visits' = "AList.update x (visit_count visits x + 1) visits"
  have "visits_left limit U' ?visits' \<le> visits_left limit U ?visits'"
    unfolding visits_left_def using assms by (intro sum_mono2) auto
  also have "\<dots> \<le> visits_left limit U visits"
    unfolding visits_left_def by (rule sum_mono) (auto simp: visit_count_update)
  finally show ?thesis .
qed

lemma visits_left_less:
  assumes "finite U" "U' \<subseteq> U" "x \<in> U" "visit_count visits x < limit"
  shows "visits_left limit U' (AList.update x (visit_count visits x + 1) visits) < visits_left limit U visits"
proof -
  let ?visits' = "AList.update x (visit_count visits x + 1) visits"
  have "visits_left limit U' ?visits' \<le> visits_left limit U ?visits'"
    unfolding visits_left_def using assms by (intro sum_mono2) auto
  also have "\<dots> < visits_left limit U visits"
    unfolding visits_left_def using assms
    by (intro sum_strict_mono_ex1 bexI[of _ x]) (auto simp: visit_count_update)
  finally show ?thesis .
qed

function hold_recompute_loop ::
  "nat \<Rightarrow> timestamp \<Rightarrow> work_item_id list \<Rightarrow> (work_item_id \<times> nat) list \<Rightarrow> Snapshot \<times> Transition list
     \<Rightarrow> Snapshot \<times> Transition list" where
  "hold_recompute_loop limit now [] visits st = st"
| "hold_recompute_loop limit now (x # queue) visits (work, out) =
     (let seen = visit_count visits x + 1;
          visits' = AList.update x seen visits
      in if limit < seen then hold_recompute_loop limit now queue visits' (work, out)
         else
           case hold_recompute work x of
             None \<Rightarrow> hold_recompute_loop limit now queue visits' (work, out)
           | Some t \<Rightarrow>
               let work' = set_status work x (tr_to t) (tr_origin t) now;
                   behind = map e_item (filter spreads (edges_naming work' x))
               in hold_recompute_loop limit now (queue @ behind) visits' (work', out @ [t]))"
  by pat_completeness auto
termination
proof (relation "measures [\<lambda>(limit, now, queue, visits, st). visits_left limit (set queue \<union> cascade_ids (fst st)) visits,
    \<lambda>(limit, now, queue, visits, st). length queue]", goal_cases)
  case 1
  then show ?case by simp
next
  case (2 limit now x queue visits work out seen visits')
  with visits_left_le[of "set (x # queue) \<union> cascade_ids work" "set queue \<union> cascade_ids work" limit x visits]
  show ?case by (auto simp: le_less)
next
  case (3 limit now x queue visits work out seen visits')
  with visits_left_less[of "set (x # queue) \<union> cascade_ids work" "set queue \<union> cascade_ids work" x visits limit]
  show ?case by auto
next
  case (4 limit now x queue visits work out seen visits' t work' behind)
  have "set (queue @ behind) \<union> cascade_ids work' \<subseteq> set (x # queue) \<union> cascade_ids work"
    using 4 edges_naming_subset[of work x] by (auto simp: cascade_ids_def frame_simps)
  from visits_left_less[OF _ this, of x visits limit] 4 show ?case by auto
qed

definition hold_recompute_into ::
  "Snapshot \<Rightarrow> work_item_id list \<Rightarrow> timestamp \<Rightarrow> Transition list \<Rightarrow> Snapshot \<times> Transition list" where
  "hold_recompute_into work items now out =
     (let limit = 2 * length (sn_items work) + 2 in hold_recompute_loop limit now items [] (work, out))"

definition hold_recompute_all :: "Snapshot \<Rightarrow> work_item_id list \<Rightarrow> timestamp \<Rightarrow> Transition list" where
  "hold_recompute_all s items now = snd (hold_recompute_into s items now [])"

end
