(* ===== verification/CascadeLaws.thy ===== *)
theory CascadeLaws
  imports Cascade
begin

text \<open>
  What the cascade guarantees: the effects replayed on the snapshot give exactly the working state
  the engine computed with (so each rule saw the state the controller will write), closed is final,
  verifying items are left alone, leases of cancelled workers are revoked, cancelled subtrees are
  closed, failed steps hold or re-point their dependents, and a step leaves readiness settled.

  The general argument is the locale \<open>cascade_keeps\<close> (extended by \<open>settle_keeps\<close>): each
  invariant is one interpretation.
\<close>

section \<open>The whole cascade keeps what its writes keep\<close>

context cascade_keeps
begin

lemma run_loop_keeps: "keeps st \<Longrightarrow> keeps (run_loop origin now queue finished st)"
  by (induction queue finished st rule: run_loop_induct[where origin = origin and now = now])
    (simp_all add: run_loop_skip run_loop_close run_closed_keeps)

lemma run_keeps: "keeps st \<Longrightarrow> keeps (run start origin now st)"
  by (simp add: run_def run_loop_keeps)

end

text \<open>Settling and roll-up only move open items between open statuses.\<close>

locale settle_keeps =
  fixes keeps :: "cstate \<Rightarrow> bool" and now :: timestamp
  assumes settle_write: "keeps (work, out) \<Longrightarrow> snap_status work (tr_item t) = Some (tr_from t)
      \<Longrightarrow> \<not> is_closed (tr_from t) \<Longrightarrow> \<not> is_closed (tr_to t)
      \<Longrightarrow> keeps (set_status work (tr_item t) (tr_to t) (tr_origin t) now, push_transition t out)"
begin

lemma plain_writes_keep:
  assumes "keeps (fst stc)" "wf_snap (fst (fst stc))" "distinct ks"
    "\<forall>k \<in> set ks. snap_status (fst (fst stc)) k = Some from" "\<not> is_closed from" "\<not> is_closed to"
  shows "keeps (fst (foldl (plain_write from to reason now) stc ks))"
  using assms
proof (induction ks arbitrary: stc)
  case (Cons k ks)
  obtain work out changed where stc: "stc = ((work, out), changed)" by (metis surj_pair)
  have "keeps (fst (plain_write from to reason now stc k))"
    using Cons.prems stc settle_write[of work out "Transition_plain k from to reason"]
    by (simp add: plain_write_def Transition_plain_def)
  moreover have "\<forall>j \<in> set ks. snap_status (fst (fst (plain_write from to reason now stc k))) j = Some from"
    using Cons.prems stc by (auto simp: plain_write_def snap_status_set_status)
  moreover have "wf_snap (fst (fst (plain_write from to reason now stc k)))"
    using Cons.prems stc by (simp add: plain_write_def wf_set_status)
  ultimately show ?case using Cons by simp
qed simp

lemma rollup_keeps:
  assumes "keeps (work, out)"
  shows "keeps (fst (rollup_all_into work changed now (ef_transitions out)),
    out\<lparr>ef_transitions := snd (rollup_all_into work changed now (ef_transitions out))\<rparr>)"
proof -
  let ?P = "\<lambda>st. keeps (fst st, out\<lparr>ef_transitions := snd st\<rparr>)"
  have "?P (rollup_all_into work changed now (ef_transitions out))"
  proof (rule rollup_all_into_induct)
    show "?P (work, ef_transitions out)" using assms by simp
    fix st :: "Snapshot \<times> Transition list" and p
    assume st: "?P st"
    obtain w ts where w: "st = (w, ts)" by (cases st)
    have "rollup_parent now (w, ts) p = rollup_parent now st p" using w by simp
    then show "?P (rollup_parent now st p)"
    proof (cases rule: rollup_parent_cases)
      case same
      then show ?thesis using st w by simp
    next
      case (moved r row)
      have "\<not> is_closed (ro_status r)" using rollup_open[OF moved(1-3)] by auto
      with moved st w show ?thesis
        using settle_write[of w "out\<lparr>ef_transitions := ts\<rparr>" "\<lparr>tr_item = p, tr_from = wi_status row, tr_to = ro_status r,
          tr_kind = EvTransition, tr_reason = Some ''roll-up'', tr_upstream = None, tr_origin = ro_origin r\<rparr>"]
        by (simp add: snap_status_def)
    qed
  qed
  then show ?thesis .
qed

lemma settle_into_keeps:
  assumes "keeps st" "wf_snap (fst st)"
  shows "keeps (settle_into changed now st)"
proof -
  define stc1 where "stc1 = foldl (plain_write Status.Ready Queued ''no longer ready'' now) (st, changed) (stale_ready (fst st) now)"
  define stc2 where "stc2 = foldl (plain_write Queued Status.Ready ''ready'' now) stc1 (readiness (fst (fst stc1)) now)"
  have wf: "wf_snap (fst (fst (foldl (plain_write a b reason now) stc ks)))" if "wf_snap (fst (fst stc))" for a b reason stc ks
    using that by (induction ks arbitrary: stc) (auto simp: plain_write_def wf_set_status split: prod.splits)
  have "keeps (fst stc1)" unfolding stc1_def
    using assms by (intro plain_writes_keep) (auto simp: stale_ready_iff readiness_distinct)
  moreover have wf1: "wf_snap (fst (fst stc1))" unfolding stc1_def using assms by (intro wf) simp
  ultimately have "keeps (fst stc2)" unfolding stc2_def
    by (intro plain_writes_keep) (auto simp: readiness_iff readiness_distinct)
  then have "keeps (fst (fst stc2), snd (fst stc2))" by simp
  from rollup_keeps[OF this, of "snd stc2"] show ?thesis
    by (simp add: settle_into_def Let_def stc1_def[symmetric] stc2_def[symmetric])
qed

end

text \<open>A property that both kinds of write keep.\<close>

locale effect_keeps = cascade_keeps + settle_keeps

section \<open>The invariants\<close>

text \<open>Replaying the effects on the starting snapshot gives the working snapshot.\<close>

definition replays :: "Snapshot \<Rightarrow> timestamp \<Rightarrow> cstate \<Rightarrow> bool" where
  "replays base now st \<longleftrightarrow>
     wf_snap (fst st) \<and> snap_apply base (snd st) now = fst st \<and> ef_dropped_edges (snd st) = []"

text \<open>
  The transitions, in order, are a run of the status machine: each starts from the status its item
  has at that point, and none leaves a closed status.
\<close>

fun valid_log :: "(work_item_id \<Rightarrow> Status option) \<Rightarrow> Transition list \<Rightarrow> bool" where
  "valid_log f [] = True"
| "valid_log f (t # ts) =
     (f (tr_item t) = Some (tr_from t) \<and> \<not> is_closed (tr_from t) \<and> valid_log (f(tr_item t \<mapsto> tr_to t)) ts)"

definition log_end :: "(work_item_id \<Rightarrow> Status option) \<Rightarrow> Transition list \<Rightarrow> work_item_id \<Rightarrow> Status option" where
  "log_end f ts = foldl (\<lambda>f t. f(tr_item t \<mapsto> tr_to t)) f ts"

lemma log_end_simps [simp]:
  "log_end f [] = f" "log_end f (ts @ [t]) = (log_end f ts)(tr_item t \<mapsto> tr_to t)"
  by (simp_all add: log_end_def)

lemma log_end_Cons: "log_end f (t # ts) = log_end (f(tr_item t \<mapsto> tr_to t)) ts"
  by (simp add: log_end_def)

lemma valid_log_snoc [simp]:
  "valid_log f (ts @ [t]) \<longleftrightarrow> valid_log f ts \<and> log_end f ts (tr_item t) = Some (tr_from t) \<and> \<not> is_closed (tr_from t)"
  by (induction ts arbitrary: f) (simp_all add: log_end_def)

lemma valid_log_closed: "valid_log f ts \<Longrightarrow> f k = Some st \<Longrightarrow> is_closed st \<Longrightarrow> log_end f ts k = Some st"
proof (induction ts arbitrary: f)
  case (Cons t ts)
  then have "tr_item t \<noteq> k" by auto
  then have upd: "(f(tr_item t \<mapsto> tr_to t)) k = Some st" using Cons.prems by simp
  have "valid_log (f(tr_item t \<mapsto> tr_to t)) ts" using Cons.prems by simp
  from Cons.IH[OF this upd Cons.prems(3)] show ?case by (simp only: log_end_Cons)
qed simp

definition logged :: "Snapshot \<Rightarrow> cstate \<Rightarrow> bool" where
  "logged base st \<longleftrightarrow>
     wf_snap (fst st) \<and> valid_log (snap_status base) (ef_transitions (snd st))
     \<and> log_end (snap_status base) (ef_transitions (snd st)) = snap_status (fst st)"

lemma logged_push:
  assumes "logged base (work, out)" "snap_status work k = Some (tr_from t)" "\<not> is_closed (tr_from t)" "tr_item t = k"
  shows "logged base (set_status work k (tr_to t) o1 now, push_transition t out)"
proof -
  have "snap_contains work k"
    using assms by (auto simp: logged_def snap_contains_iff snap_status_def)
  then have "snap_status (set_status work k (tr_to t) o1 now) = (snap_status work)(k \<mapsto> tr_to t)"
    using assms(1) by (auto simp: logged_def snap_status_set_status)
  with assms show ?thesis by (simp add: logged_def wf_set_status)
qed

lemma logged_push_caused:
  "logged base (work, out) \<Longrightarrow> snap_status work k = Some from \<Longrightarrow> \<not> is_closed from
     \<Longrightarrow> logged base (set_status work k to o1 now, push_transition (Transition_caused k from to reason up org) out)"
  using logged_push[of base work out k "Transition_caused k from to reason up org"]
  by (simp add: Transition_caused_def)

lemma holdable_open: "holdable st \<Longrightarrow> \<not> is_closed st \<and> is_waiting st"
  by (cases st) (simp_all add: holdable_def)

lemma logged_repoint: "logged base (work, out) \<Longrightarrow> logged base (repoint_row work k l old new, push_repoint r out)"
  by (auto simp: logged_def wf_repoint_row fun_eq_iff)

lemma snap_status_fun_repoint: "wf_snap work \<Longrightarrow> snap_status (repoint_row work k l old new) = snap_status work"
  by (simp add: fun_eq_iff)

interpretation replay: effect_keeps "replays base now" now origin
  for base :: Snapshot and now :: timestamp and origin :: work_item_id
  by unfold_locales
    (auto simp: replays_def wf_set_status wf_repoint_row snap_apply_push_transition snap_apply_push_repoint
      Transition_caused_def)

interpretation log: effect_keeps "logged base" now origin
  for base :: Snapshot and now :: timestamp and origin :: work_item_id
proof (unfold_locales, goal_cases)
  case (1 work out k old reason up)
  then show ?case by (intro logged_push_caused)
next
  case (2 work out k old c reason up)
  then show ?case by (intro logged_push_caused) (simp_all add: holdable_open)
next
  case (5 work out r)
  then show ?case by (intro logged_repoint)
next
  case (6 work out t)
  then show ?case by (intro logged_push) simp_all
qed (simp_all add: logged_def)

text \<open>The cascade proper leaves closed and verifying items alone, and the tree as it was.\<close>

definition spared :: "Status option \<Rightarrow> Status option \<Rightarrow> bool" where
  "spared before after \<longleftrightarrow>
     (before = None \<longleftrightarrow> after = None)
     \<and> (\<forall>x. before = Some x \<and> (is_closed x \<or> x = Verifying) \<longrightarrow> after = Some x)
     \<and> (after = Some Verifying \<longrightarrow> before = Some Verifying)"

definition spares :: "Snapshot \<Rightarrow> cstate \<Rightarrow> bool" where
  "spares base st \<longleftrightarrow>
     wf_snap (fst st) \<and> (\<forall>k. children (fst st) k = children base k)
     \<and> (\<forall>k. spared (snap_status base k) (snap_status (fst st) k))"

lemma spared_refl [simp]: "spared a a"
  by (simp add: spared_def)

lemma spared_write:
  "spared a (Some old) \<Longrightarrow> \<not> is_closed old \<Longrightarrow> old \<noteq> Verifying \<Longrightarrow> to \<noteq> Verifying \<Longrightarrow> spared a (Some to)"
  by (auto simp: spared_def)

lemma spares_write:
  assumes "spares base (work, out)" "snap_status work k = Some old" "\<not> is_closed old" "old \<noteq> Verifying"
    "to \<noteq> Verifying"
  shows "spares base (set_status work k to o1 now, out')"
proof -
  have "spared (snap_status base k) (Some old)"
    using assms(1,2) unfolding spares_def by (metis fst_conv)
  from spared_write[OF this assms(3-5)] assms(1) show ?thesis
    by (simp add: spares_def wf_set_status snap_status_set_status)
qed

interpretation spare: cascade_keeps "spares base" now origin
  for base :: Snapshot and now :: timestamp and origin :: work_item_id
proof (unfold_locales, goal_cases)
  case (1 work out k old reason up)
  then show ?case by (intro spares_write) simp_all
next
  case (2 work out k old c reason up)
  then have "\<not> is_closed old" "old \<noteq> Verifying" by (cases old; simp add: holdable_def)+
  with 2 show ?case by (intro spares_write) simp_all
qed (simp_all add: spares_def wf_repoint_row)

lemma spares_refl: "wf_snap s \<Longrightarrow> spares s (s, out)"
  by (simp add: spares_def)

text \<open>Every lease the cascade ends is on the revoke list.\<close>

definition revokes :: "Snapshot \<Rightarrow> cstate \<Rightarrow> bool" where
  "revokes base st \<longleftrightarrow>
     (\<forall>k. children (fst st) k = children base k)
     \<and> (\<forall>t \<in> set (ef_transitions (snd st)). holds_lease base (tr_item t) (tr_from t) \<and> ends_subtree (tr_to t)
          \<longrightarrow> tr_item t \<in> set (ef_revoke (snd st)))"

lemma holds_lease_cong: "children s k = children t k \<Longrightarrow> holds_lease s k st = holds_lease t k st"
  by (simp add: holds_lease_def has_children_def)

interpretation revoke: effect_keeps "revokes base" now origin
  for base :: Snapshot and now :: timestamp and origin :: work_item_id
proof (unfold_locales, goal_cases)
  case (1 work out k old reason up)
  then show ?case using holds_lease_cong[of work k base] by (auto simp: revokes_def Transition_caused_def)
next
  case (2 work out k old c reason up)
  then show ?case by (auto simp: revokes_def Transition_caused_def ends_subtree_def)
next
  case (6 work out t)
  then show ?case by (auto simp: revokes_def ends_subtree_def split: Status.splits)
qed (auto simp: revokes_def)

section \<open>From the start of each operation\<close>

lemma step_open_cases:
  obtains (closes) out where "is_closed to" "step_open s item old to now = run item item now (set_status s item to None now, out)"
      "ef_transitions out = [\<lparr>tr_item = item, tr_from = old, tr_to = to, tr_kind = EvTransition, tr_reason = None,
             tr_upstream = None, tr_origin = None\<rparr>]" "ef_repoints out = []" "ef_dropped_edges out = []"
      "holds_lease s item old \<and> ends_subtree to \<longrightarrow> item \<in> set (ef_revoke out)"
    | (opens) out where "\<not> is_closed to" "step_open s item old to now = (set_status s item to None now, out)"
      "ef_transitions out = [\<lparr>tr_item = item, tr_from = old, tr_to = to, tr_kind = EvTransition, tr_reason = None,
             tr_upstream = None, tr_origin = None\<rparr>]" "ef_repoints out = []" "ef_dropped_edges out = []"
      "holds_lease s item old \<and> ends_subtree to \<longrightarrow> item \<in> set (ef_revoke out)"
  unfolding step_open_def Let_def Effects_default_def by (cases "is_closed to") auto

text \<open>An invariant that holds after the first write holds after the whole step.\<close>

lemma step_open_keeps:
  assumes "cascade_keeps keeps now item"
    and "\<And>out. ef_transitions out = [\<lparr>tr_item = item, tr_from = old, tr_to = to, tr_kind = EvTransition,
           tr_reason = None, tr_upstream = None, tr_origin = None\<rparr>] \<Longrightarrow> ef_repoints out = [] \<Longrightarrow> ef_dropped_edges out = []
         \<Longrightarrow> holds_lease s item old \<and> ends_subtree to \<longrightarrow> item \<in> set (ef_revoke out)
         \<Longrightarrow> keeps (set_status s item to None now, out)"
  shows "keeps (step_open s item old to now)"
  by (rule step_open_cases[where s = s and item = item and to = to and now = now and old = old])
    (simp_all add: assms(2) cascade_keeps.run_keeps[OF assms(1)])

lemma wf_step_open: "wf_snap s \<Longrightarrow> wf_snap (fst (step_open s item old to now))"
  using step_open_keeps[of "spares (set_status s item to None now)" now item old to s, OF spare.cascade_keeps_axioms]
  by (auto simp: spares_def wf_set_status)

lemma step_run_keeps:
  assumes "effect_keeps keeps now item" "wf_snap s" "keeps (s, Effects_default)"
    and "\<And>from out. snap_status s item = Some from \<Longrightarrow> \<not> is_closed from
         \<Longrightarrow> ef_transitions out = [\<lparr>tr_item = item, tr_from = from, tr_to = to, tr_kind = EvTransition,
           tr_reason = None, tr_upstream = None, tr_origin = None\<rparr>] \<Longrightarrow> ef_repoints out = [] \<Longrightarrow> ef_dropped_edges out = []
         \<Longrightarrow> holds_lease s item from \<and> ends_subtree to \<longrightarrow> item \<in> set (ef_revoke out)
         \<Longrightarrow> keeps (set_status s item to None now, out)"
  shows "keeps (step_run s item to now)"
proof (cases "snap_status s item")
  case None
  with assms(3) show ?thesis by (simp add: step_run_def)
next
  case (Some old)
  show ?thesis
  proof (cases "is_closed old")
    case True
    with Some assms(3) show ?thesis by (simp add: step_run_def)
  next
    case False
    have cascade: "cascade_keeps keeps now item" and settle: "settle_keeps keeps now"
      using assms(1) by (simp_all add: effect_keeps_def)
    have "keeps (step_open s item old to now)"
      by (rule step_open_keeps[OF cascade assms(4)[OF Some False]])
    then show ?thesis
      using Some False settle_keeps.settle_into_keeps[OF settle _ wf_step_open[OF assms(2)]]
      by (simp add: step_run_def Let_def)
  qed
qed

lemma snap_apply_one:
  assumes "ef_transitions out = [t]" "ef_repoints out = []" "ef_dropped_edges out = []"
  shows "snap_apply s out now = set_status s (tr_item t) (tr_to t) (tr_origin t) now"
  using assms by (simp add: snap_apply_def)

lemma step_run_replays: "wf_snap s \<Longrightarrow> replays s now (step_run s item to now)"
  by (rule step_run_keeps[OF replay.effect_keeps_axioms])
    (auto simp: replays_def snap_apply_one wf_set_status Effects_default_def snap_apply_def)

lemma logged_first:
  assumes "wf_snap s" "snap_status s item = Some old" "\<not> is_closed old" "ef_transitions out = [t]"
    "tr_item t = item" "tr_from t = old" "tr_to t = to"
  shows "logged s (set_status s item to o1 now, out)"
proof -
  have "logged s (s, Effects_default)" using assms(1) by (simp add: logged_def Effects_default_def)
  from logged_push[OF this, of item t o1 now] assms show ?thesis
    by (simp add: logged_def Effects_default_def)
qed

lemma logged_start: "wf_snap s \<Longrightarrow> logged s (s, Effects_default)"
  by (simp add: logged_def Effects_default_def)

lemma step_run_logged: "wf_snap s \<Longrightarrow> logged s (step_run s item to now)"
  by (rule step_run_keeps[OF log.effect_keeps_axioms]) (auto intro: logged_start logged_first)

lemma step_run_revokes: "wf_snap s \<Longrightarrow> revokes s (step_run s item to now)"
  by (rule step_run_keeps[OF revoke.effect_keeps_axioms]) (auto simp: revokes_def Effects_default_def)

section \<open>Ending a subtree\<close>

definition ended :: "Snapshot \<Rightarrow> work_item_id \<Rightarrow> bool" where
  "ended work d \<longleftrightarrow> (case snap_status work d of None \<Rightarrow> True | Some x \<Rightarrow> is_closed x \<or> x = Verifying)"

lemma spared_settled: "spared (Some x) after \<Longrightarrow> is_closed x \<or> x = Verifying \<Longrightarrow> after = Some x"
  unfolding spared_def by blast

lemma spared_Verifying: "spared before (Some Verifying) \<Longrightarrow> before = Some Verifying"
  unfolding spared_def by blast

lemma spared_None: "spared None after \<Longrightarrow> after = None"
  unfolding spared_def by blast

lemma ended_spares:
  assumes "spares base st" "ended base d"
  shows "ended (fst st) d"
proof -
  have sp: "spared (snap_status base d) (snap_status (fst st) d)" using assms(1) by (simp add: spares_def)
  show ?thesis
  proof (cases "snap_status base d")
    case None
    with sp have "snap_status (fst st) d = None" by (simp only: spared_None)
    then show ?thesis by (simp add: ended_def)
  next
    case (Some x)
    then have "is_closed x \<or> x = Verifying" using assms(2) by (simp add: ended_def)
    with sp Some have "snap_status (fst st) d = Some x" by (simp only: spared_settled)
    with \<open>is_closed x \<or> x = Verifying\<close> show ?thesis by (simp add: ended_def)
  qed
qed

lemma cancel_descendant_ends:
  assumes "wf_snap (fst (fst stq))"
  shows "ended (fst (fst (cancel_descendant parent reason origin now stq d))) d"
proof -
  obtain work out queue where stq: "stq = ((work, out), queue)" by (metis surj_pair)
  show ?thesis
  proof (cases "snap_item work d")
    case None
    with stq show ?thesis by (simp add: cancel_descendant_def ended_def snap_status_def)
  next
    case (Some row)
    then have "snap_status work d = Some (wi_status row)" "snap_contains work d"
      using assms stq by (simp_all add: snap_status_def snap_contains_iff)
    then show ?thesis using assms stq Some
      by (auto simp: cancel_descendant_def Let_def cascade_cancel_def ended_def snap_status_set_status)
  qed
qed

lemma cancel_descendants_end:
  assumes "wf_snap (fst (fst stq))"
  shows "\<forall>d \<in> set ds. ended (fst (fst (foldl (cancel_descendant parent reason origin now) stq ds))) d"
  using assms
proof (induction ds arbitrary: stq)
  case (Cons d ds)
  let ?stq' = "cancel_descendant parent reason origin now stq d"
  have keep: "spares b (fst (foldl (cancel_descendant parent reason origin now) q ds))" if "spares b (fst q)" for b q
    using that by (induction ds arbitrary: q) (simp_all add: spare.cancel_descendant_keeps)
  have "spares (fst (fst stq)) (fst ?stq')"
    by (rule spare.cancel_descendant_keeps) (simp add: spares_def Cons.prems)
  then have wf': "wf_snap (fst (fst ?stq'))" by (simp add: spares_def)
  then have "spares (fst (fst ?stq')) (fst ?stq')" by (simp add: spares_def)
  from ended_spares[OF keep[OF this] cancel_descendant_ends[OF Cons.prems]] Cons.IH[OF wf'] show ?case by simp
qed simp

lemma run_closed_ends:
  assumes "wf_snap (fst st)" "ends_subtree status" "d \<in> set (descendants (fst st) k)"
  shows "ended (fst (fst (run_closed k status origin now (st, queue)))) d"
proof -
  let ?stq1 = "cancel_open_descendants k status origin now (st, queue)"
  have "spares (fst st) (fst ?stq1)"
    by (rule spare.cancel_open_descendants_keeps) (simp add: spares_def assms(1))
  then have "spares (fst (fst ?stq1)) (fst ?stq1)" by (simp add: spares_def)
  moreover have "ended (fst (fst ?stq1)) d"
    using cancel_descendants_end[of "(st, queue)" "descendants (fst st) k"] assms
    by (simp add: cancel_open_descendants_def Let_def)
  ultimately have "ended (fst (fst (run_dependents k status origin now ?stq1))) d"
    by (intro ended_spares[OF spare.run_dependents_keeps])
  then show ?thesis
    using \<open>ended (fst (fst ?stq1)) d\<close> assms(2)
    by (cases "status = Cancelled CrSuperseded") (simp_all add: run_closed_def Let_def)
qed

lemma ends_subtree_closed: "ends_subtree st \<Longrightarrow> is_closed st"
  by (cases st) (simp_all add: ends_subtree_def)

lemma run_ends_subtree:
  assumes "wf_snap (fst st)" "snap_status (fst st) k = Some status" "ends_subtree status"
    "d \<in> set (descendants (fst st) k)"
  shows "ended (fst (run k origin now st)) d"
proof -
  let ?stq = "run_closed k status origin now (st, [])"
  have "\<not> skips k {} st" using assms(2,3) by (simp add: skips_def ends_subtree_closed)
  then have run: "run k origin now st = run_loop origin now (snd ?stq) {k} (fst ?stq)"
    using assms(2) by (simp add: run_def run_loop_close)
  have "spares (fst st) (fst ?stq)" by (rule spare.run_closed_keeps) (simp add: spares_def assms(1))
  then have "spares (fst (fst ?stq)) (fst ?stq)" by (simp add: spares_def)
  from ended_spares[OF spare.run_loop_keeps[OF this] run_closed_ends[OF assms(1,3,4)]] show ?thesis
    by (simp add: run)
qed

section \<open>Settling\<close>

lemma same_gates_closed:
  assumes "same_gates s t" "case snap_status s d of None \<Rightarrow> True | Some x \<Rightarrow> is_closed x"
  shows "case snap_status t d of None \<Rightarrow> True | Some x \<Rightarrow> is_closed x"
  using assms(1)
proof (cases rule: same_gates_item[where k = d])
  case none
  then show ?thesis by (simp add: snap_status_def)
next
  case (some i j)
  with assms(2) show ?thesis using outcome_closed[of "wi_status i" "wi_status j"]
    by (simp add: snap_status_def same_row_def)
qed

lemma plain_writes_status:
  assumes "wf_snap (fst (fst stc))" "\<forall>k \<in> set ks. snap_contains (fst (fst stc)) k"
  shows "wf_snap (fst (fst (foldl (plain_write a b reason now) stc ks)))
    \<and> (\<forall>k. snap_status (fst (fst (foldl (plain_write a b reason now) stc ks))) k
          = (if k \<in> set ks then Some b else snap_status (fst (fst stc)) k))"
  using assms
proof (induction ks arbitrary: stc)
  case (Cons k ks)
  obtain work out changed where stc: "stc = ((work, out), changed)" by (metis surj_pair)
  then have "fst (fst (plain_write a b reason now stc k)) = set_status work k b None now"
    by (simp add: plain_write_def)
  with Cons stc show ?case by (auto simp: wf_set_status snap_status_set_status)
qed simp

interpretation gates: settle_keeps "\<lambda>st. wf_snap (fst st) \<and> same_gates base (fst st)" now
  for base :: Snapshot and now :: timestamp
  by unfold_locales (auto simp: wf_set_status intro!: same_gates_trans[OF _ same_gates_set_status])

text \<open>No \<open>queued\<close> item may run and every \<open>ready\<close> item may, judged by the gates of \<open>base\<close>.\<close>

definition ready_settled :: "Snapshot \<Rightarrow> timestamp \<Rightarrow> Snapshot \<Rightarrow> bool" where
  "ready_settled base now work \<longleftrightarrow>
     (\<forall>k. (snap_status work k = Some Queued \<longrightarrow> \<not> runnable base k now)
        \<and> (snap_status work k = Some Status.Ready \<longrightarrow> runnable base k now))"

lemma ready_settled_lists:
  assumes "wf_snap work" "wf_snap base" "same_gates base work" "ready_settled base now work"
  shows "readiness work now = []" "stale_ready work now = []"
proof -
  have "k \<notin> set (readiness work now)" "k \<notin> set (stale_ready work now)" for k
    using assms(4) same_gates_runnable[OF assms(3,2,1), of k now]
    by (auto simp: readiness_iff[OF assms(1)] stale_ready_iff[OF assms(1)] ready_settled_def)
  then have "set (readiness work now) = {}" "set (stale_ready work now) = {}" by (simp_all add: set_eq_iff)
  then show "readiness work now = []" "stale_ready work now = []" by simp_all
qed

lemma rollup_ready_settled:
  assumes "wf_snap base" "wf_snap work" "same_gates base work" "ready_settled base now work"
  shows "ready_settled base now (fst (rollup_all_into work changed now out))"
proof -
  let ?P = "\<lambda>st. wf_snap (fst st) \<and> (\<forall>k. children (fst st) k = children base k) \<and> ready_settled base now (fst st)"
  have "?P (rollup_all_into work changed now out)"
  proof (rule rollup_all_into_induct)
    show "?P (work, out)" using assms by (simp add: same_gates_def)
    fix st :: "Snapshot \<times> Transition list" and p
    assume st: "?P st"
    obtain w ts where w: "st = (w, ts)" by (cases st)
    have "rollup_parent now (w, ts) p = rollup_parent now st p" using w by simp
    then show "?P (rollup_parent now st p)"
    proof (cases rule: rollup_parent_cases)
      case same
      then show ?thesis using st w by simp
    next
      case (moved r row)
      have "has_children base p" using rollup_Some[OF moved(1)] st w by (auto simp: has_children_def)
      then have "\<not> runnable base p now" by (auto simp: runnable_def split: option.splits)
      moreover have "ro_status r \<noteq> Status.Ready" using rollup_open[OF moved(1-3)] by auto
      ultimately show ?thesis using moved st w
        by (auto simp: wf_set_status ready_settled_def snap_status_set_status)
    qed
  qed
  then show ?thesis by simp
qed

lemma settle_into_settled:
  assumes "wf_snap (fst st)"
  shows "readiness (fst (settle_into changed now st)) now = []
    \<and> stale_ready (fst (settle_into changed now st)) now = []"
proof -
  let ?base = "fst st"
  define stc1 where "stc1 = foldl (plain_write Status.Ready Queued ''no longer ready'' now) (st, changed) (stale_ready ?base now)"
  define stc2 where "stc2 = foldl (plain_write Queued Status.Ready ''ready'' now) stc1 (readiness (fst (fst stc1)) now)"
  have stale: "\<forall>k \<in> set (stale_ready ?base now). snap_contains ?base k"
    using assms by (auto simp: stale_ready_iff snap_contains_iff snap_status_def)
  have s1: "wf_snap (fst (fst stc1))"
    "\<And>k. snap_status (fst (fst stc1)) k = (if k \<in> set (stale_ready ?base now) then Some Queued else snap_status ?base k)"
    using plain_writes_status[of "(st, changed)" "stale_ready ?base now" Status.Ready Queued "''no longer ready''" now] assms stale
    by (simp_all add: stc1_def)
  have "wf_snap (fst (fst stc1)) \<and> same_gates ?base (fst (fst stc1))" unfolding stc1_def
    by (rule gates.plain_writes_keep[where base = ?base and stc = "(st, changed)"])
      (auto simp: assms same_gates_refl stale_ready_iff readiness_distinct)
  then have g1: "same_gates ?base (fst (fst stc1))" ..
  have contains: "\<forall>k \<in> set (readiness (fst (fst stc1)) now). snap_contains (fst (fst stc1)) k"
    using s1(1) by (auto simp: readiness_iff snap_contains_iff snap_status_def)
  have s2: "wf_snap (fst (fst stc2))"
    "\<And>k. snap_status (fst (fst stc2)) k = (if k \<in> set (readiness (fst (fst stc1)) now) then Some Status.Ready else snap_status (fst (fst stc1)) k)"
    using plain_writes_status[of stc1 "readiness (fst (fst stc1)) now" Queued Status.Ready "''ready''" now] s1 contains
    by (simp_all add: stc2_def)
  have "wf_snap (fst (fst stc2)) \<and> same_gates ?base (fst (fst stc2))" unfolding stc2_def
    by (rule gates.plain_writes_keep[where base = ?base and stc = stc1]) (auto simp: s1(1) g1 readiness_iff readiness_distinct)
  then have g2: "same_gates ?base (fst (fst stc2))" ..
  have "ready_settled ?base now (fst (fst stc2))"
    using s1(2) s2(2) same_gates_runnable[OF g1 assms s1(1)]
    by (auto simp: ready_settled_def readiness_iff[OF s1(1)] stale_ready_iff[OF assms] split: if_splits)
  from rollup_ready_settled[OF assms s2(1) g2 this, of "snd stc2" "ef_transitions (snd (fst stc2))"]
  have "ready_settled ?base now (fst (settle_into changed now st))"
    by (simp add: settle_into_def Let_def stc1_def[symmetric] stc2_def[symmetric])
  moreover have "wf_snap (fst (settle_into changed now st)) \<and> same_gates ?base (fst (settle_into changed now st))"
    by (rule gates.settle_into_keeps) (simp_all add: assms same_gates_refl)
  ultimately show ?thesis using ready_settled_lists assms by blast
qed

section \<open>Properties\<close>

text \<open>An example: under the root \<open>r\<close>, \<open>b\<close> blocks on the running \<open>a\<close>; \<open>z\<close> is done.\<close>

definition demo :: Snapshot where
  "demo = Snapshot_new
     [blank_item ''r'' None Running, blank_item ''a'' (Some ''r'') Running,
      blank_item ''b'' (Some ''r'') Queued, blank_item ''z'' None Done]
     [\<lparr>e_item = ''b'', e_depends_on = ''a'', e_kind = EkBlocks\<rparr>]"

lemma wf_demo: "wf_snap demo"
  by (simp add: demo_def wf_Snapshot_new)

text \<open>C1: replaying the effects of a step on the snapshot it was computed from gives exactly the
  working snapshot the engine ended with: every rule inside the step (cascade, holds, re-points,
  settling, roll-up) read the state that the controller will have written, with nothing lost in the
  effect lists.\<close>

theorem step_effects_replay:
  assumes "wf_snap s"
  shows "snap_apply s (step s item to now) now = fst (step_run s item to now)"
  using step_run_replays[OF assms, of now item to] by (simp add: replays_def step_def)

lemma step_effects_replay_witness:
  "snap_apply demo (step demo ''a'' Failed 7) 7 = fst (step_run demo ''a'' Failed 7)"
  by (rule step_effects_replay[OF wf_demo])

text \<open>C2: the transitions a step asks to write are, in order, a run of the status machine: each one
  names the status its item has at that point, no transition leaves a closed status, and the
  statuses after the last one are those of the replayed snapshot.\<close>

theorem step_transitions_form_a_run:
  assumes "wf_snap s"
  shows "valid_log (snap_status s) (ef_transitions (step s item to now))
    \<and> log_end (snap_status s) (ef_transitions (step s item to now))
      = snap_status (snap_apply s (step s item to now) now)"
  using step_run_logged[OF assms, of item to now] step_run_replays[OF assms, of now item to]
  by (simp add: logged_def replays_def step_def)

lemma step_transitions_form_a_run_witness:
  "valid_log (snap_status demo) (ef_transitions (step demo ''a'' (Cancelled CrRequested) 7))"
  using step_transitions_form_a_run[OF wf_demo] by blast

text \<open>Closed is final. Whatever item a step moves and wherever it moves it, an item that was
  done, failed, cancelled or expired before the step has the same status after it.\<close>

theorem closed_is_final:
  assumes "wf_snap s" "snap_status s k = Some st" "is_closed st"
  shows "snap_status (snap_apply s (step s item to now) now) k = Some st"
  using step_run_logged[OF assms(1), of item to now] step_run_replays[OF assms(1), of now item to]
    valid_log_closed[of "snap_status s" "ef_transitions (step s item to now)" k st] assms
  by (simp add: logged_def replays_def step_def)

lemma closed_is_final_witness:
  "snap_status (snap_apply demo (step demo ''a'' Failed 7) 7) ''z'' = Some Done"
proof -
  have "snap_status demo ''z'' = Some Done" by code_simp
  from closed_is_final[OF wf_demo this] show ?thesis by simp
qed

text \<open>C25: no lease survives the end of its item. Each leased or running leaf that a step cancels or
  expires, directly or through an ancestor, is on the list of leases to revoke.\<close>

theorem ended_leases_are_revoked:
  assumes "wf_snap s" "t \<in> set (ef_transitions (step s item to now))"
    "holds_lease s (tr_item t) (tr_from t)" "ends_subtree (tr_to t)"
  shows "tr_item t \<in> set (ef_revoke (step s item to now))"
  using step_run_revokes[OF assms(1), of item to now] assms(2-) by (simp add: revokes_def step_def)

lemma ended_leases_are_revoked_witness:
  "''a'' \<in> set (ef_revoke (step demo ''r'' (Cancelled CrRequested) 7))"
proof -
  let ?t = "Transition_caused ''a'' Running (Cancelled CrCascade) ''ancestor cancelled'' ''r'' ''r''"
  have "?t \<in> set (ef_transitions (step demo ''r'' (Cancelled CrRequested) 7))"
    and "holds_lease demo ''a'' Running" "ends_subtree (Cancelled CrCascade)"
    by code_simp+
  then show ?thesis using ended_leases_are_revoked[OF wf_demo, of ?t] by (simp add: Transition_caused_def)
qed

lemma step_settled:
  assumes "wf_snap s" "snap_status s item = Some old" "\<not> is_closed old"
  shows "readiness (snap_apply s (step s item to now) now) now = []
    \<and> stale_ready (snap_apply s (step s item to now) now) now = []"
  using step_run_replays[OF assms(1), of now item to] assms
    settle_into_settled[OF wf_step_open[OF assms(1)]]
  by (simp add: replays_def step_def step_run_def Let_def)

text \<open>C3: a step leaves readiness settled. After the effects of a step on an open item are written,
  no queued item is waiting to become ready and no ready item has stopped being ready: a second
  settling pass would find nothing to do.\<close>

theorem step_leaves_readiness_settled:
  assumes "wf_snap s" "snap_status s item = Some old" "\<not> is_closed old"
  shows "readiness (snap_apply s (step s item to now) now) now = []
    \<and> stale_ready (snap_apply s (step s item to now) now) now = []"
  by (rule step_settled[OF assms])

lemma step_leaves_readiness_settled_witness:
  "readiness (snap_apply demo (step demo ''a'' Done 7) 7) 7 = []"
proof -
  have "snap_status demo ''a'' = Some Running" by code_simp
  from step_leaves_readiness_settled[OF wf_demo this] show ?thesis by simp
qed

text \<open>C4: cancelling or expiring an item ends its whole subtree: after the cascade each descendant
  in the snapshot is closed, or is verifying and was verifying before (verification is left to finish).\<close>

theorem cancelled_subtree_ends:
  assumes "wf_snap s" "snap_status s item = Some old" "\<not> is_closed old" "ends_subtree to"
    "d \<in> set (descendants s item)" "snap_status s d \<noteq> Some Verifying"
  shows "case snap_status (snap_apply s (step s item to now) now) d of None \<Rightarrow> True | Some x \<Rightarrow> is_closed x"
proof -
  let ?w = "set_status s item to None now" and ?st = "step_open s item old to now"
  let ?final = "settle_into (touched (snd ?st)) now ?st"
  have wf: "wf_snap ?w" using assms(1) by (rule wf_set_status)
  have closed: "is_closed to" using assms(4) by (rule ends_subtree_closed)
  have "snap_contains s item" using assms(1,2) by (auto simp: snap_contains_iff snap_status_def)
  then have there: "snap_status ?w item = Some to" using assms(1) by (simp add: snap_status_set_status)
  obtain out where st: "?st = run item item now (?w, out)" using closed by (auto simp: step_open_def Let_def)
  have end1: "ended (fst ?st) d" unfolding st
    by (rule run_ends_subtree[OF _ _ assms(4)]) (simp_all add: wf there assms(5))
  have "spared (snap_status ?w d) (snap_status (fst ?st) d)"
    using spare.run_keeps[OF spares_refl[OF wf]] by (simp add: st spares_def)
  moreover have "snap_status ?w d \<noteq> Some Verifying"
    using assms(1,6) closed by (auto simp: snap_status_set_status)
  ultimately have "snap_status (fst ?st) d \<noteq> Some Verifying" using spared_Verifying by metis
  with end1 have ended: "case snap_status (fst ?st) d of None \<Rightarrow> True | Some x \<Rightarrow> is_closed x"
    by (auto simp: ended_def split: option.splits)
  have "wf_snap (fst ?final) \<and> same_gates (fst ?st) (fst ?final)"
    by (rule gates.settle_into_keeps) (simp_all add: same_gates_refl wf_step_open assms(1))
  then have "case snap_status (fst ?final) d of None \<Rightarrow> True | Some x \<Rightarrow> is_closed x"
    using same_gates_closed ended by blast
  then show ?thesis
    using step_run_replays[OF assms(1), of now item to] assms(2,3) by (simp add: replays_def step_def step_run_def Let_def)
qed

lemma cancelled_subtree_ends_witness:
  "case snap_status (snap_apply demo (step demo ''r'' Expired 7) 7) ''a'' of None \<Rightarrow> True | Some x \<Rightarrow> is_closed x"
proof -
  have "snap_status demo ''r'' = Some Running" "ends_subtree Expired" "''a'' \<in> set (descendants demo ''r'')"
    "snap_status demo ''a'' \<noteq> Some Verifying"
    by code_simp+
  from cancelled_subtree_ends[OF wf_demo this(1) _ this(2-)] show ?thesis by simp
qed

end
