(* ===== verification/CascadeOutcomes.thy ===== *)
theory CascadeOutcomes
  imports CascadeLaws
begin

text \<open>
  What the three kinds of cascade do, exactly: a hold takes the items reachable through \<open>blocks\<close> and
  \<open>waits_for\<close> edges along holdable items and nothing else; a failed step without a plan B holds its
  dependents, with one it re-points them; a cancelled subtree leaves verifying items to finish.
\<close>

section \<open>How far a hold spreads\<close>

definition can_hold :: "Snapshot \<Rightarrow> work_item_id \<Rightarrow> bool" where
  "can_hold work x = (case snap_status work x of None \<Rightarrow> False | Some st \<Rightarrow> holdable st)"

text \<open>\<open>behind_hold work Q x\<close>: \<open>x\<close> can be held and is in \<open>Q\<close> or behind such an item.\<close>

inductive behind_hold :: "Snapshot \<Rightarrow> work_item_id set \<Rightarrow> work_item_id \<Rightarrow> bool"
  for work :: Snapshot and Q :: "work_item_id set" where
  hold_start: "x \<in> Q \<Longrightarrow> can_hold work x \<Longrightarrow> behind_hold work Q x"
| hold_spread: "behind_hold work Q x \<Longrightarrow> e \<in> set (edges_naming work x) \<Longrightarrow> spreads e \<Longrightarrow> can_hold work (e_item e)
    \<Longrightarrow> behind_hold work Q (e_item e)"

lemma behind_hold_can: "behind_hold work Q x \<Longrightarrow> can_hold work x"
  by (induction rule: behind_hold.induct) simp_all

lemma behind_hold_skip:
  assumes "\<not> can_hold work x"
  shows "behind_hold work (insert x Q) y \<longleftrightarrow> behind_hold work Q y"
proof
  assume "behind_hold work (insert x Q) y"
  then show "behind_hold work Q y"
    by induction (use assms in \<open>auto intro: behind_hold.intros\<close>)
next
  assume "behind_hold work Q y"
  then show "behind_hold work (insert x Q) y" by induction (auto intro: behind_hold.intros)
qed

lemma can_hold_held:
  assumes "wf_snap work" "can_hold work x"
  shows "can_hold (set_status work x (Blocked (hold_reason c)) o1 now) y \<longleftrightarrow> can_hold work y \<and> y \<noteq> x"
proof -
  have "snap_contains work x" using assms
    by (auto simp: can_hold_def snap_contains_iff snap_status_def split: option.splits)
  with assms(1) show ?thesis by (simp add: can_hold_def snap_status_set_status)
qed

lemma behind_hold_take:
  assumes "wf_snap work" "can_hold work x"
  shows "behind_hold work (insert x Q) y \<longleftrightarrow>
    y = x \<or> behind_hold (set_status work x (Blocked (hold_reason c)) o1 now) (Q \<union> fst ` set (behind work x)) y"
    (is "_ \<longleftrightarrow> y = x \<or> behind_hold ?work ?Q y")
proof
  assume "behind_hold work (insert x Q) y"
  then show "y = x \<or> behind_hold ?work ?Q y"
  proof induction
    case (hold_start y)
    then show ?case using assms by (auto simp: can_hold_held intro: behind_hold.hold_start)
  next
    case (hold_spread y e)
    show ?case
    proof (cases "e_item e = x")
      case False
      then have can: "can_hold ?work (e_item e)" using hold_spread assms by (simp add: can_hold_held)
      from hold_spread.IH show ?thesis
      proof
        assume "y = x"
        with hold_spread have "e_item e \<in> fst ` set (behind work x)" by (force simp: behind_def)
        with can show ?thesis by (auto intro: behind_hold.hold_start)
      next
        assume "behind_hold ?work ?Q y"
        then show ?thesis using hold_spread can by (auto intro: behind_hold.hold_spread)
      qed
    qed simp
  qed
next
  have start: "behind_hold work (insert x Q) x" using assms(2) by (intro behind_hold.hold_start) simp_all
  assume "y = x \<or> behind_hold ?work ?Q y"
  then show "behind_hold work (insert x Q) y"
  proof
    assume "y = x"
    with start show ?thesis by simp
  next
    assume "behind_hold ?work ?Q y"
    then show ?thesis
    proof induction
      case (hold_start y)
      then have can: "can_hold work y" using assms by (simp add: can_hold_held)
      from hold_start(1) show ?case
      proof
        assume "y \<in> Q"
        with can show ?thesis by (intro behind_hold.hold_start) simp_all
      next
        assume "y \<in> fst ` set (behind work x)"
        then obtain e where "e \<in> set (edges_naming work x)" "spreads e" "y = e_item e" by (auto simp: behind_def)
        with start can show ?thesis by (auto intro: behind_hold.hold_spread)
      qed
    next
      case (hold_spread y e)
      then show ?case using assms by (auto simp: can_hold_held intro: behind_hold.hold_spread)
    qed
  qed
qed

lemma hold_loop_status:
  assumes "wf_snap (fst st)"
  shows "snap_status (fst (hold_loop c origin now queue st)) y
    = (if behind_hold (fst st) (fst ` set queue) y then Some (Blocked (hold_reason c)) else snap_status (fst st) y)"
  using assms
proof (induction queue st rule: hold_loop_induct[where c = c and origin = origin and now = now])
  case (Nil st)
  have "\<not> behind_hold (fst st) {} y" by (rule notI, induct rule: behind_hold.induct) simp_all
  then show ?case by simp
next
  case (skip x up queue work out)
  then have "\<not> can_hold work x" by (auto simp: can_hold_def split: option.splits)
  with skip show ?case by (simp add: hold_loop_skip behind_hold_skip)
next
  case (take x up queue work out old)
  let ?work = "set_status work x (Blocked (hold_reason c)) (Some origin) now"
  have can: "can_hold work x" using take by (simp add: can_hold_def)
  have "snap_contains work x" using take by (auto simp: snap_contains_iff snap_status_def)
  then have "snap_status ?work y = (if y = x then Some (Blocked (hold_reason c)) else snap_status work y)"
    using take.prems by (simp add: snap_status_set_status)
  moreover have "snap_status (fst (hold_loop c origin now ((x, up) # queue) (work, out))) y
    = (if behind_hold ?work (fst ` set queue \<union> fst ` set (behind work x)) y then Some (Blocked (hold_reason c))
       else snap_status ?work y)"
    using take by (simp add: hold_loop_take wf_set_status image_Un)
  ultimately show ?case
    using behind_hold_take[OF _ can, of "fst ` set queue" y c "Some origin" now] take.prems
    by (cases "y = x") simp_all
qed

lemma hold_loop_wf: "wf_snap (fst st) \<Longrightarrow> wf_snap (fst (hold_loop c origin now queue st))"
  using spare.hold_loop_keeps[of "fst st" st] by (simp add: spares_def)

section \<open>A failed step and its dependents\<close>

definition waits :: "Snapshot \<Rightarrow> work_item_id \<Rightarrow> bool" where
  "waits work x = (case snap_status work x of None \<Rightarrow> False | Some st \<Rightarrow> is_waiting st)"

lemma hold_item_status:
  "wf_snap work \<Longrightarrow> snap_status (fst (cascade_hold_item c k origin up now (work, out))) y
     = (if behind_hold work {k} y then Some (Blocked (hold_reason c)) else snap_status work y)"
  using hold_loop_status[of "(work, out)" c origin now "[(k, up)]" y] by (simp add: cascade_hold_item_def)

lemma hold_item_effect:
  assumes "wf_snap work"
  shows "wf_snap (fst (cascade_hold_item c k origin up now (work, out)))"
    and "sn_edges (fst (cascade_hold_item c k origin up now (work, out))) = sn_edges work"
    and "waits work y \<Longrightarrow> waits (fst (cascade_hold_item c k origin up now (work, out))) y"
    and "\<not> can_hold work y \<Longrightarrow> \<not> can_hold (fst (cascade_hold_item c k origin up now (work, out))) y"
    and "\<not> can_hold (fst (cascade_hold_item c k origin up now (work, out))) k"
proof -
  have edges: "sn_edges (fst (hold_loop c origin now queue st)) = sn_edges (fst st)" for queue and st :: cstate
    by (induction queue st rule: hold_loop_induct[where c = c and origin = origin and now = now])
      (simp_all add: hold_loop_skip hold_loop_take frame_simps)
  show "sn_edges (fst (cascade_hold_item c k origin up now (work, out))) = sn_edges work"
    by (simp add: cascade_hold_item_def edges)
  show "wf_snap (fst (cascade_hold_item c k origin up now (work, out)))"
    using assms by (simp add: cascade_hold_item_def hold_loop_wf)
  show "waits work y \<Longrightarrow> waits (fst (cascade_hold_item c k origin up now (work, out))) y"
    using assms by (simp add: waits_def hold_item_status)
  show "\<not> can_hold work y \<Longrightarrow> \<not> can_hold (fst (cascade_hold_item c k origin up now (work, out))) y"
    using assms behind_hold_can by (auto simp: can_hold_def hold_item_status)
  show "\<not> can_hold (fst (cascade_hold_item c k origin up now (work, out))) k"
    using assms hold_start[of k "{k}" work] by (auto simp: can_hold_def hold_item_status)
qed

lemma run_edge_failed:
  "run_edge closed Failed plan_b origin now ((work, out), queue) e =
     (if \<not> waits work (e_item e) then ((work, out), queue)
      else if spreads e \<and> plan_b \<noteq> None \<and> plan_b \<noteq> Some (e_item e)
      then (repoint_edge e (the plan_b) closed (work, out), queue)
      else if e_kind e = EkBlocks then (cascade_hold_item HoldFailed (e_item e) origin closed now (work, out), queue)
      else ((work, out), queue))"
  by (cases "e_kind e") (auto simp: run_edge_def waits_def spreads_def split: option.splits)

text \<open>Without a plan B, each \<open>blocks\<close> dependent that waits ends held.\<close>

lemma run_edges_hold:
  assumes "wf_snap (fst (fst stq))"
  shows "(let work = fst (fst (foldl (run_edge closed Failed None origin now) stq es)) in
      (\<forall>y. waits (fst (fst stq)) y \<longrightarrow> waits work y)
      \<and> (\<forall>y. \<not> can_hold (fst (fst stq)) y \<longrightarrow> \<not> can_hold work y)
      \<and> (\<forall>e \<in> set es. e_kind e = EkBlocks \<longrightarrow> \<not> can_hold work (e_item e)))"
  using assms
proof (induction es arbitrary: stq)
  case (Cons e es)
  obtain work out queue where stq: "stq = ((work, out), queue)" by (metis surj_pair)
  let ?stq' = "run_edge closed Failed None origin now stq e"
  have can: "can_hold work y \<Longrightarrow> waits work y" for y
    by (auto simp: can_hold_def waits_def holdable_def split: option.splits)
  have step: "wf_snap (fst (fst ?stq'))" "\<And>y. waits work y \<Longrightarrow> waits (fst (fst ?stq')) y"
    "\<And>y. \<not> can_hold work y \<Longrightarrow> \<not> can_hold (fst (fst ?stq')) y"
    "e_kind e = EkBlocks \<Longrightarrow> \<not> can_hold (fst (fst ?stq')) (e_item e)"
    using Cons.prems stq hold_item_effect[of work] can[of "e_item e"] by (auto simp: run_edge_failed)
  show ?case using Cons.IH[OF step(1)] step stq by (simp add: Let_def)
qed (simp add: Let_def)

lemma run_edges_failed_queue: "snd (foldl (run_edge closed Failed plan_b origin now) stq es) = snd stq"
proof (induction es arbitrary: stq)
  case (Cons e es)
  have "snd (run_edge closed Failed plan_b origin now stq e) = snd stq"
    using run_edge_failed[of closed plan_b origin now "fst (fst stq)" "snd (fst stq)" "snd stq" e] by simp
  with Cons show ?case by simp
qed simp

text \<open>A failing item is the only one its cascade visits.\<close>

lemma cascade_run_failed:
  assumes "wf_snap s" "snap_contains s item"
  shows "cascade_from_run s item Failed item now
    = fst (run_dependents item Failed item now ((set_status s item Failed None now, Effects_default), []))"
proof -
  let ?st = "(set_status s item Failed None now, Effects_default)"
  have "snap_status (fst ?st) item = Some Failed" using assms by (simp add: snap_status_set_status)
  moreover from this have "\<not> skips item {} ?st" by (simp add: skips_def)
  moreover have "snd (run_dependents item Failed item now (?st, [])) = []"
    by (simp add: run_dependents_def Let_def run_edges_failed_queue split: option.splits)
  ultimately show ?thesis
    by (simp add: cascade_from_run_def run_def run_loop_close other_than_def run_closed_def ends_subtree_def)
qed

lemma cascade_replays:
  assumes "wf_snap s"
  shows "replays (set_status s item to (other_than origin item) now) now (cascade_from_run s item to origin now)"
  unfolding cascade_from_run_def
  by (rule replay.run_keeps) (simp add: replays_def wf_set_status assms, simp add: Effects_default_def)

text \<open>With a plan B, each \<open>blocks\<close> or \<open>waits_for\<close> edge of another waiting item moves to it.\<close>

definition moved_to :: "work_item_id \<Rightarrow> Edge \<Rightarrow> Edge" where
  "moved_to p e = \<lparr>e_item = e_item e, e_depends_on = p, e_kind = e_kind e\<rparr>"

lemma set_remove_at: "distinct xs \<Longrightarrow> i < length xs \<Longrightarrow> set (remove_at i xs) = set xs - {xs ! i}"
proof -
  assume xs: "distinct xs" "i < length xs"
  have split: "xs = take i xs @ xs ! i # drop (Suc i) xs" using xs(2) by (rule id_take_nth_drop)
  then have "set xs = insert (xs ! i) (set (remove_at i xs))"
    unfolding remove_at_def by (metis Un_insert_right list.simps(15) set_append)
  moreover have "xs ! i \<notin> set (remove_at i xs)"
    using xs(1) split unfolding remove_at_def by (metis distinct.simps(2) distinct_append IntI empty_iff Un_iff list.set_intros(1) set_append)
  ultimately show ?thesis by blast
qed

lemma repoint_edge_set:
  assumes "wf_snap work" "e \<in> set (sn_edges work)" "p \<noteq> e_depends_on e"
  shows "set (sn_edges (fst (repoint_edge e p closed (work, out)))) = insert (moved_to p e) (set (sn_edges work) - {e})"
proof -
  let ?P = "\<lambda>x. e_item x = e_item e \<and> e_depends_on x = e_depends_on e \<and> e_kind x = e_kind e"
  obtain pos where pos: "position ?P (sn_edges work) = Some pos"
    using assms(2) position_None[of ?P "sn_edges work"] by (cases "position ?P (sn_edges work)") auto
  then have at: "pos < length (sn_edges work)" "sn_edges work ! pos = e"
    using position_Some[OF pos] by (auto intro: Edge.equality)
  have "distinct (sn_edges work)" using assms(1) by (rule snap.edges_distinct)
  moreover have "moved_to p e \<noteq> e" using assms(3) by (metis Edge.select_convs(2) moved_to_def)
  ultimately show ?thesis using pos at
    by (auto simp: repoint_edge_def repoint_row_def Let_def moved_to_def[symmetric] set_remove_at set_update_distinct)
qed

lemma run_edge_moves:
  fixes origin :: work_item_id and now :: timestamp and out :: Effects and queue :: "work_item_id list"
  assumes "wf_snap work" "e \<in> set (sn_edges work)" "e_depends_on e = closed" "p \<noteq> closed"
  defines "work1 \<equiv> fst (fst (run_edge closed Failed (Some p) origin now ((work, out), queue) e))"
  shows "wf_snap work1" and "waits work y \<Longrightarrow> waits work1 y"
    and "set (sn_edges work1) = (if waits work (e_item e) \<and> spreads e \<and> e_item e \<noteq> p
           then insert (moved_to p e) (set (sn_edges work) - {e}) else set (sn_edges work))"
proof -
  have moved: "fst (repoint_edge e p closed (work, out)) = repoint_row work (e_item e) (LkEdge (e_kind e)) (e_depends_on e) p"
    by (simp add: repoint_edge_def)
  show "wf_snap work1" unfolding work1_def run_edge_failed
    using assms(1) hold_item_effect(1)[OF assms(1)] by (simp add: moved wf_repoint_row)
  show "waits work y \<Longrightarrow> waits work1 y" unfolding work1_def run_edge_failed
    using assms(1) hold_item_effect(3)[OF assms(1)] by (auto simp: moved waits_def)
  show "set (sn_edges work1) = (if waits work (e_item e) \<and> spreads e \<and> e_item e \<noteq> p
           then insert (moved_to p e) (set (sn_edges work) - {e}) else set (sn_edges work))"
    unfolding work1_def run_edge_failed
    using assms(1-4) hold_item_effect(2)[OF assms(1)] by (auto simp: repoint_edge_set)
qed

lemma run_edges_move:
  fixes origin :: work_item_id and now :: timestamp
  assumes "wf_snap (fst (fst stq))" "distinct es" "p \<noteq> closed"
    "\<forall>e \<in> set es. e \<in> set (sn_edges (fst (fst stq))) \<and> e_depends_on e = closed"
  defines "work' \<equiv> fst (fst (foldl (run_edge closed Failed (Some p) origin now) stq es))"
  shows "(\<forall>e \<in> set es. spreads e \<and> e_item e \<noteq> p \<and> waits (fst (fst stq)) (e_item e)
            \<longrightarrow> moved_to p e \<in> set (sn_edges work') \<and> e \<notin> set (sn_edges work'))
    \<and> (\<forall>x. x \<in> set (sn_edges (fst (fst stq))) \<and> e_depends_on x \<noteq> closed \<longrightarrow> x \<in> set (sn_edges work'))
    \<and> (\<forall>x. x \<notin> set (sn_edges (fst (fst stq))) \<and> e_depends_on x = closed \<longrightarrow> x \<notin> set (sn_edges work'))"
  using assms(1-4) unfolding work'_def
proof (induction es arbitrary: stq)
  case (Cons e es)
  obtain work out queue where stq: "stq = ((work, out), queue)" by (metis surj_pair)
  let ?stq1 = "run_edge closed Failed (Some p) origin now stq e"
  have pre: "wf_snap work" "e \<in> set (sn_edges work)" "e_depends_on e = closed" using Cons.prems stq by simp_all
  note one = run_edge_moves[OF pre Cons.prems(3), where origin = origin and now = now and out = out and queue = queue,
      folded stq]
  have dep: "e_depends_on (moved_to p e) \<noteq> closed" using Cons.prems(3) by (simp add: moved_to_def)
  have "\<forall>e' \<in> set es. e' \<in> set (sn_edges (fst (fst ?stq1))) \<and> e_depends_on e' = closed"
    using Cons.prems stq one(3) by auto
  from Cons.IH[OF one(1) _ Cons.prems(3) this] Cons.prems(2) have IH:
    "\<And>e'. e' \<in> set es \<Longrightarrow> spreads e' \<Longrightarrow> e_item e' \<noteq> p \<Longrightarrow> waits (fst (fst ?stq1)) (e_item e')
       \<Longrightarrow> moved_to p e' \<in> set (sn_edges (fst (fst (foldl (run_edge closed Failed (Some p) origin now) ?stq1 es))))
         \<and> e' \<notin> set (sn_edges (fst (fst (foldl (run_edge closed Failed (Some p) origin now) ?stq1 es))))"
    "\<And>x. x \<in> set (sn_edges (fst (fst ?stq1))) \<Longrightarrow> e_depends_on x \<noteq> closed
       \<Longrightarrow> x \<in> set (sn_edges (fst (fst (foldl (run_edge closed Failed (Some p) origin now) ?stq1 es))))"
    "\<And>x. x \<notin> set (sn_edges (fst (fst ?stq1))) \<Longrightarrow> e_depends_on x = closed
       \<Longrightarrow> x \<notin> set (sn_edges (fst (fst (foldl (run_edge closed Failed (Some p) origin now) ?stq1 es))))"
    by simp_all
  show ?case
  proof (intro conjI ballI allI impI, goal_cases)
    case (1 e')
    then show ?case using IH(1,2) one(2,3) dep stq by (cases "e' = e") auto
  next
    case (2 e')
    have "moved_to p e \<noteq> e" using dep pre(3) by metis
    then show ?case using 2 IH(1,3) one(2,3) stq pre(3) by (cases "e' = e") auto
  next
    case (3 x)
    then have "x \<noteq> e" using pre(3) by auto
    with 3 have "x \<in> set (sn_edges (fst (fst ?stq1)))" using one(3) stq by simp
    with 3 IH(2) show ?case by simp
  next
    case (4 x)
    then have "x \<noteq> moved_to p e" using dep by auto
    with 4 have "x \<notin> set (sn_edges (fst (fst ?stq1)))" using one(3) stq by simp
    with 4 IH(3) show ?case by simp
  qed
qed simp

lemma repoint_inputs_edges: "sn_edges (fst (repoint_inputs k p st)) = sn_edges (fst st)"
proof -
  have "sn_edges (fst (foldl (repoint_input k p) st ks)) = sn_edges (fst st)" for ks
    by (induction ks arbitrary: st) (simp_all add: repoint_input_def repoint_row_def frame_simps split: prod.splits)
  then show ?thesis by (simp add: repoint_inputs_def)
qed

lemma open_plan_b_waits: "open_plan_b work k = Some p \<Longrightarrow> waits work p"
  by (auto simp: open_plan_b_def waits_def dest: find_Some_mem)

section \<open>Re-deriving a hold\<close>

lemma edge_summary_own_status:
  assumes "wf_snap s" "\<forall>e \<in> set (sn_edges s). e_item e = k \<longrightarrow> e_depends_on e \<noteq> k"
  shows "edge_summary (set_status s k to o1 now) k = edge_summary s k"
proof -
  have "verdict (set_status s k to o1 now) e = verdict s e" if "e \<in> set (edges_held_by s k)" for e
    using that assms by (simp add: snap.held_iff verdict_def snap_item_set_status)
  then have "foldl (summary_step (set_status s k to o1 now)) out es = foldl (summary_step s) out es"
    if "set es \<subseteq> set (edges_held_by s k)" for out es
    using that by (induction es arbitrary: out) (simp_all add: summary_step_def)
  then show ?thesis by (simp add: edge_summary_def)
qed

section \<open>Properties\<close>

text \<open>a hold spreads exactly as far as it should. Holding an item gives the hold's reason to the
  item and to every waiting, not yet held item behind it through \<open>blocks\<close> and \<open>waits_for\<close> edges, along
  items that are themselves waiting and not yet held; every other item keeps its status.\<close>

theorem hold_spreads_exactly:
  assumes "wf_snap work"
  shows "snap_status (fst (cascade_hold_item c k origin up now (work, out))) y
    = (if behind_hold work {k} y then Some (Blocked (hold_reason c)) else snap_status work y)"
  using hold_loop_status[of "(work, out)" c origin now "[(k, up)]" y] assms by (simp add: cascade_hold_item_def)

lemma hold_spreads_exactly_witness:
  "snap_status (fst (cascade_hold_item HoldFailed ''b'' ''a'' ''a'' 7 (demo, Effects_default))) ''b''
     = Some (Blocked UpstreamFailed)"
proof -
  have "can_hold demo ''b''" by code_simp
  then have "behind_hold demo {''b''} ''b''" by (intro hold_start) simp_all
  with hold_spreads_exactly[OF wf_demo, of HoldFailed "''b''" "''a''" "''a''" 7 Effects_default "''b''"] show ?thesis by simp
qed

text \<open>C26: when a step fails and no plan B is waiting, every waiting item that \<open>blocks\<close> on it is held:
  after the cascade it is \<open>blocked(upstream_failed)\<close> or \<open>blocked(upstream_expired)\<close>, so it cannot run.\<close>

theorem failed_step_holds_dependents:
  assumes "wf_snap s" "snap_contains s item" "open_plan_b (set_status s item Failed None now) item = None"
    "e \<in> set (sn_edges s)" "e_depends_on e = item" "e_kind e = EkBlocks" "e_item e \<noteq> item" "waits s (e_item e)"
  shows "\<exists>r. is_cascade r \<and> snap_status
      (snap_apply (set_status s item Failed None now) (cascade s item Failed now) now) (e_item e) = Some (Blocked r)"
proof -
  let ?w = "set_status s item Failed None now"
  let ?es = "filter (\<lambda>e. is_ordering (e_kind e)) (edges_naming ?w item)"
  let ?fin = "fst (fst (foldl (run_edge item Failed None item now) ((?w, Effects_default), []) ?es))"
  have wf: "wf_snap ?w" using assms(1) by (rule wf_set_status)
  have e: "e \<in> set ?es"
    using assms wf by (simp add: snap.naming_iff frame_simps)
  have "waits ?w (e_item e)" using assms by (simp add: waits_def snap_status_set_status)
  then have "waits ?fin (e_item e)" "\<not> can_hold ?fin (e_item e)"
    using run_edges_hold[of "((?w, Effects_default), [])" item item now ?es] wf e assms(6) by (auto simp: Let_def)
  then have "\<exists>r. is_cascade r \<and> snap_status ?fin (e_item e) = Some (Blocked r)"
    by (auto simp: waits_def can_hold_def holdable_def cascade_hold_def split: option.splits Status.splits if_splits)
  moreover have "snap_apply ?w (cascade s item Failed now) now = ?fin"
    using cascade_replays[OF assms(1), of item Failed item now] cascade_run_failed[OF assms(1,2), of now] assms(3)
    by (simp add: replays_def cascade_def cascade_from_def other_than_def run_dependents_def)
  ultimately show ?thesis by simp
qed

lemma failed_step_holds_dependents_witness:
  "\<exists>r. is_cascade r \<and> snap_status
      (snap_apply (set_status demo ''a'' Failed None 7) (cascade demo ''a'' Failed 7) 7) ''b'' = Some (Blocked r)"
proof -
  let ?e = "\<lparr>e_item = ''b'', e_depends_on = ''a'', e_kind = EkBlocks\<rparr>"
  have "snap_contains demo ''a''" "open_plan_b (set_status demo ''a'' Failed None 7) ''a'' = None"
    "?e \<in> set (sn_edges demo)" "waits demo ''b''"
    by code_simp+
  from failed_step_holds_dependents[OF wf_demo this(1-3)] this(4) show ?thesis by simp
qed

text \<open>C27: when a step fails and a plan B is waiting, the plan B stands in for it: after the cascade every
  \<open>blocks\<close> or \<open>waits_for\<close> edge that another waiting item held on the step names the plan B instead,
  and no longer the step.\<close>

theorem plan_b_takes_over:
  assumes "wf_snap s" "snap_contains s item" "open_plan_b (set_status s item Failed None now) item = Some p"
    "e \<in> set (sn_edges s)" "e_depends_on e = item" "spreads e" "e_item e \<noteq> item" "e_item e \<noteq> p" "waits s (e_item e)"
  shows "let edges = set (sn_edges (snap_apply (set_status s item Failed None now) (cascade s item Failed now) now))
    in moved_to p e \<in> edges \<and> e \<notin> edges"
proof -
  let ?w = "set_status s item Failed None now"
  let ?es = "filter (\<lambda>e. is_ordering (e_kind e)) (edges_naming ?w item)"
  let ?stq = "foldl (run_edge item Failed (Some p) item now) ((?w, Effects_default), []) ?es"
  have wf: "wf_snap ?w" using assms(1) by (rule wf_set_status)
  have "waits ?w p" using assms(3) by (rule open_plan_b_waits)
  then have p: "p \<noteq> item" using assms(1,2) by (auto simp: waits_def snap_status_set_status)
  have es: "e \<in> set ?es" using assms wf by (auto simp: snap.naming_iff frame_simps spreads_def)
  have "distinct ?es" using snap.edges_distinct[OF assms(1)] by (simp add: snap.naming_filter[OF assms(1)])
  moreover have "waits ?w (e_item e)" using assms by (simp add: waits_def snap_status_set_status)
  moreover have "\<forall>e \<in> set ?es. e \<in> set (sn_edges ?w) \<and> e_depends_on e = item"
    using snap.naming_iff[OF wf, of _ item] by auto
  ultimately have "moved_to p e \<in> set (sn_edges (fst (fst ?stq))) \<and> e \<notin> set (sn_edges (fst (fst ?stq)))"
    using run_edges_move[of "((?w, Effects_default), [])" ?es p item item now, THEN conjunct1, THEN bspec, OF _ _ p _ es]
      wf assms(6,8) by simp
  moreover have "sn_edges (snap_apply ?w (cascade s item Failed now) now) = sn_edges (fst (fst ?stq))"
    using cascade_replays[OF assms(1), of item Failed item now] cascade_run_failed[OF assms(1,2), of now] assms(3)
    by (simp add: replays_def cascade_def cascade_from_def other_than_def run_dependents_def repoint_inputs_edges Let_def)
  ultimately show ?thesis by simp
qed

definition demo_plan_b :: Snapshot where
  "demo_plan_b = Snapshot_new
     [blank_item ''a'' None Running, blank_item ''b'' None Queued, blank_item ''p'' None Queued]
     [\<lparr>e_item = ''b'', e_depends_on = ''a'', e_kind = EkBlocks\<rparr>,
      \<lparr>e_item = ''p'', e_depends_on = ''a'', e_kind = EkConditionalOnFailure\<rparr>]"

lemma plan_b_takes_over_witness:
  "\<lparr>e_item = ''b'', e_depends_on = ''p'', e_kind = EkBlocks\<rparr>
     \<in> set (sn_edges (snap_apply (set_status demo_plan_b ''a'' Failed None 7) (cascade demo_plan_b ''a'' Failed 7) 7))"
proof -
  let ?e = "\<lparr>e_item = ''b'', e_depends_on = ''a'', e_kind = EkBlocks\<rparr>"
  have "snap_contains demo_plan_b ''a''" "open_plan_b (set_status demo_plan_b ''a'' Failed None 7) ''a'' = Some ''p''"
    "?e \<in> set (sn_edges demo_plan_b)" "waits demo_plan_b ''b''"
    by code_simp+
  from plan_b_takes_over[OF _ this(1-3)] this(4) show ?thesis
    by (simp add: demo_plan_b_def wf_Snapshot_new spreads_def moved_to_def Let_def)
qed

text \<open>Re-deriving a hold settles in one step. When \<open>hold_recompute\<close> asks for a transition (into a hold,
  onto another origin, or out of one) it starts from the item's current status, and once it is written
  the same call asks for nothing more.\<close>

theorem hold_recompute_settles:
  assumes "wf_snap s" "hold_recompute s k = Some t" "\<forall>e \<in> set (sn_edges s). e_item e = k \<longrightarrow> e_depends_on e \<noteq> k"
  shows "tr_item t = k \<and> snap_status s k = Some (tr_from t)
    \<and> hold_recompute (set_status s k (tr_to t) (tr_origin t) now) k = None"
proof -
  obtain row where row: "snap_item s k = Some row" using assms(2) by (auto simp: hold_recompute_def split: option.splits)
  note same = edge_summary_own_status[OF assms(1,3)]
  show ?thesis
  proof (cases "es_hold (edge_summary s k)")
    case None
    with assms(2) row have "t = Transition_plain k (wi_status row) Queued ''hold cleared''"
      by (auto simp: hold_recompute_def Let_def split: if_splits)
    with None row assms(1) show ?thesis
      by (simp add: hold_recompute_def Let_def Transition_plain_def snap_status_def snap_item_set_status same
          cascade_hold_def)
  next
    case (Some h)
    then have "is_cascade (ho_reason h)" by (rule es_hold_cascade[OF assms(1)])
    moreover from Some assms(2) row
    have "t = Transition_caused k (wi_status row) (Blocked (ho_reason h)) ''held behind upstream'' (ho_upstream h) (ho_origin h)"
      by (auto simp: hold_recompute_def Let_def split: if_splits)
    ultimately show ?thesis using Some row assms(1)
      by (simp add: hold_recompute_def Let_def Transition_caused_def snap_status_def snap_item_set_status same
          cascade_hold_def)
  qed
qed

definition demo_held :: Snapshot where
  "demo_held = Snapshot_new
     [blank_item ''a'' None Done, blank_item ''b'' None (Blocked UpstreamFailed)]
     [\<lparr>e_item = ''b'', e_depends_on = ''a'', e_kind = EkBlocks\<rparr>]"

lemma hold_recompute_settles_witness:
  "hold_recompute (set_status demo_held ''b'' Queued None 7) ''b'' = None"
proof -
  let ?t = "Transition_plain ''b'' (Blocked UpstreamFailed) Queued ''hold cleared''"
  have "hold_recompute demo_held ''b'' = Some ?t" by code_simp
  moreover have "sn_edges demo_held = [\<lparr>e_item = ''b'', e_depends_on = ''a'', e_kind = EkBlocks\<rparr>]" by code_simp
  ultimately show ?thesis
    using hold_recompute_settles[of demo_held "''b''" ?t 7] by (simp add: demo_held_def wf_Snapshot_new Transition_plain_def)
qed

end
