(* ===== verification/Supersede.thy ===== *)
theory Supersede
  imports CascadeOutcomes
begin

text \<open>
  Superseding, \<^verbatim>\<open>rustykrab-control/src/graph/supersede.rs\<close>: when a target may be superseded
  (\<open>supersede_refusals\<close>) and the five passes that do it (\<open>supersede_in\<close>): re-point what names the
  targets, drop the targets' own ordering edges, cancel the targets, cascade through their subtrees,
  re-derive the holds behind what moved.
\<close>

record SupersedeRefusal =
  sr_reason :: RejectionReason
  sr_items :: "work_item_id list"
  sr_detail :: string

definition supersede_refusals :: "Snapshot \<Rightarrow> work_item_id \<Rightarrow> work_item_id option \<Rightarrow> SupersedeRefusal list" where
  "supersede_refusals s target scope =
     (case snap_item s target of
        None \<Rightarrow> [\<lparr>sr_reason = RrUnknownRef, sr_items = [target],
                  sr_detail = ''the supersede target does not exist''\<rparr>]
      | Some row \<Rightarrow>
          (if \<not> (case scope of None \<Rightarrow> False | Some r \<Rightarrow> is_within s target r)
           then [\<lparr>sr_reason = RrOutOfScope, sr_items = [target],
                  sr_detail = (case scope of
                      Some r \<Rightarrow> target @ '' is not under the filer'' @ [char_of (39 :: nat)] @ ''s root '' @ r
                    | None \<Rightarrow> ''the filing has no scope to supersede in'')\<rparr>]
           else [])
          @ (if is_active (wi_status row)
             then [\<lparr>sr_reason = RrSupersedesActive, sr_items = [target],
                    sr_detail = target @ '' is '' @ Status_fmt (wi_status row) @ '': it must fail or finish first''\<rparr>]
             else if is_closed (wi_status row)
             then [\<lparr>sr_reason = RrSupersedesClosed, sr_items = [target],
                    sr_detail = target @ '' is '' @ Status_fmt (wi_status row)
                      @ '': closed is final; file a retry as a new item''\<rparr>]
             else [])
          @ List.map_filter
              (\<lambda>d. case snap_status s d of
                     None \<Rightarrow> None
                   | Some st \<Rightarrow>
                       if is_active st
                       then Some \<lparr>sr_reason = RrSupersedesActive, sr_items = [target, d],
                                  sr_detail = d @ '' under '' @ target @ '' is '' @ Status_fmt st\<rparr>
                       else None)
              (descendants s target))"

text \<open>Pass 1, one edge and one reader of a target. \<open>fresh\<close> rows are written re-pointed: no event.\<close>

definition supersede_edge ::
  "work_item_id set \<Rightarrow> work_item_id set \<Rightarrow> work_item_id \<Rightarrow> work_item_id
     \<Rightarrow> cstate \<times> work_item_id list \<Rightarrow> Edge \<Rightarrow> cstate \<times> work_item_id list" where
  "supersede_edge targets fresh replacement target stm edge =
     (case stm of ((work, out), moved) \<Rightarrow>
        if e_item edge \<in> targets \<or> e_item edge = replacement then stm
        else if \<not> waits work (e_item edge) then stm
        else
          ((repoint_row work (e_item edge) (LkEdge (e_kind edge)) target replacement,
            if e_item edge \<in> fresh then out
            else push_repoint \<lparr>rp_item = e_item edge, rp_link = LkEdge (e_kind edge), rp_old_upstream = target,
                   rp_new_upstream = replacement, rp_origin = replacement\<rparr> out),
           push_unique moved (e_item edge)))"

definition supersede_readers :: "work_item_id set \<Rightarrow> work_item_id \<Rightarrow> work_item_id \<Rightarrow> Snapshot \<Rightarrow> work_item_id list" where
  "supersede_readers targets replacement target work =
     map wi_id (filter (\<lambda>i. is_waiting (wi_status i) \<and> wi_id i \<notin> targets \<and> wi_id i \<noteq> replacement
                            \<and> target \<in> set (wi_inputs_from i)) (sn_items work))"

definition supersede_reader ::
  "work_item_id set \<Rightarrow> work_item_id \<Rightarrow> work_item_id \<Rightarrow> cstate \<Rightarrow> work_item_id \<Rightarrow> cstate" where
  "supersede_reader fresh replacement target st k =
     (case st of (work, out) \<Rightarrow>
        (repoint_row work k LkInput target replacement,
         if k \<in> fresh then out
         else push_repoint \<lparr>rp_item = k, rp_link = LkInput, rp_old_upstream = target,
                rp_new_upstream = replacement, rp_origin = replacement\<rparr> out))"

definition supersede_pair ::
  "work_item_id set \<Rightarrow> work_item_id set \<Rightarrow> cstate \<times> work_item_id list \<Rightarrow> work_item_id \<times> work_item_id
     \<Rightarrow> cstate \<times> work_item_id list" where
  "supersede_pair targets fresh stm pair =
     (case pair of (replacement, target) \<Rightarrow>
        let dependents = filter (\<lambda>e. is_ordering (e_kind e)) (edges_naming (fst (fst stm)) target);
            stm1 = foldl (supersede_edge targets fresh replacement target) stm dependents
        in (foldl (supersede_reader fresh replacement target) (fst stm1)
              (supersede_readers targets replacement target (fst (fst stm1))),
            snd stm1))"

definition drop_own_edge :: "Edge set \<Rightarrow> cstate \<Rightarrow> Edge \<Rightarrow> cstate" where
  "drop_own_edge fresh_edges st edge =
     (case st of (work, out) \<Rightarrow>
        (remove_edge work edge, if edge \<in> fresh_edges then out else push_dropped edge out))"

definition drop_own_edges :: "Edge set \<Rightarrow> cstate \<Rightarrow> work_item_id \<Rightarrow> cstate" where
  "drop_own_edges fresh_edges st target =
     foldl (drop_own_edge fresh_edges) st (filter (\<lambda>e. is_ordering (e_kind e)) (edges_held_by (fst st) target))"

definition cancel_target ::
  "timestamp \<Rightarrow> cstate \<times> work_item_id list \<Rightarrow> work_item_id \<times> work_item_id \<Rightarrow> cstate \<times> work_item_id list" where
  "cancel_target now stc pair =
     (case (stc, pair) of (((work, out), closed), (replacement, target)) \<Rightarrow>
        if target \<in> set closed then stc
        else case snap_status work target of
          None \<Rightarrow> stc
        | Some from \<Rightarrow>
            let to = Cancelled CrSuperseded in
            ((set_status work target to (Some replacement) now,
              push_transition (Transition_caused target from to ''superseded'' replacement replacement) out),
             closed @ [target]))"

definition supersede_in ::
  "(work_item_id \<times> work_item_id) list \<Rightarrow> work_item_id set \<Rightarrow> Edge set \<Rightarrow> timestamp \<Rightarrow> cstate \<Rightarrow> cstate" where
  "supersede_in pairs fresh_items fresh_edges now st =
     (let targets = set (map snd pairs);
          stm = foldl (supersede_pair targets fresh_items) (st, []) pairs;
          st2 = foldl (drop_own_edges fresh_edges) (fst stm) (foldl push_unique [] (map snd pairs));
          stc = foldl (cancel_target now) (st2, []) pairs;
          st4 = foldl (\<lambda>st target. run target target now st) (fst stc) (snd stc);
          r = hold_recompute_into (fst st4) (snd stm) now (ef_transitions (snd st4))
      in (fst r, (snd st4)\<lparr>ef_transitions := snd r\<rparr>))"

definition supersede_run :: "Snapshot \<Rightarrow> (work_item_id \<times> work_item_id) list \<Rightarrow> timestamp \<Rightarrow> cstate" where
  "supersede_run s pairs now = supersede_in pairs {} {} now (s, Effects_default)"

definition supersede :: "Snapshot \<Rightarrow> (work_item_id \<times> work_item_id) list \<Rightarrow> timestamp \<Rightarrow> Effects" where
  "supersede s pairs now = snd (supersede_run s pairs now)"

section \<open>Holds re-derived leave closed items alone\<close>

lemma hold_recompute_open:
  assumes "hold_recompute s k = Some t"
  shows "tr_item t = k \<and> snap_status s k = Some (tr_from t) \<and> is_waiting (tr_from t)"
  using assms
  by (auto simp: hold_recompute_def Let_def snap_status_def Transition_caused_def Transition_plain_def
      cascade_hold_Some_iff split: option.splits if_splits)

lemma hold_recompute_loop_induct:
  assumes "P st" and "\<And>work out t. P (work, out) \<Longrightarrow> hold_recompute work (tr_item t) = Some t
    \<Longrightarrow> P (set_status work (tr_item t) (tr_to t) (tr_origin t) now, out @ [t])"
  shows "P (hold_recompute_loop limit now queue visits st)"
  using assms
proof (induction limit now queue visits st rule: hold_recompute_loop.induct)
  case (1 limit now visits st)
  then show ?case by simp
next
  case (2 limit now x queue visits work out)
  show ?case
  proof (cases "limit < visit_count visits x + 1")
    case True
    then show ?thesis using "2.IH"(1) "2.prems" by simp
  next
    case False
    show ?thesis
    proof (cases "hold_recompute work x")
      case None
      then show ?thesis using "2.IH"(2) "2.prems" False by simp
    next
      case (Some t)
      then have "tr_item t = x" using hold_recompute_open by blast
      then have "P (set_status work x (tr_to t) (tr_origin t) now, out @ [t])" using "2.prems" Some by blast
      then show ?thesis using "2.IH"(3) "2.prems"(2) Some False by simp
    qed
  qed
qed

text \<open>The status a target has once it is cancelled survives the later passes.\<close>

definition frozen :: "work_item_id \<Rightarrow> Status \<Rightarrow> Snapshot \<Rightarrow> bool" where
  "frozen k x work \<longleftrightarrow> wf_snap work \<and> snap_status work k = Some x"

lemma frozen_run:
  assumes "is_closed x" "frozen k x (fst st)"
  shows "frozen k x (fst (run start origin now st))"
proof -
  have "spares (fst st) st" using assms(2) by (simp add: spares_def frozen_def)
  then have "spares (fst st) (run start origin now st)" by (rule spare.run_keeps)
  then have "wf_snap (fst (run start origin now st))" "spared (Some x) (snap_status (fst (run start origin now st)) k)"
    using assms(2) by (auto simp: spares_def frozen_def) metis
  then show ?thesis using assms(1) spared_settled by (auto simp: frozen_def)
qed

lemma frozen_hold_recompute:
  assumes "is_closed x" "frozen k x work"
  shows "frozen k x (fst (hold_recompute_into work items now out))"
proof -
  have "frozen k x (fst (hold_recompute_loop limit now items [] (work, out)))" for limit
  proof (rule hold_recompute_loop_induct)
    show "frozen k x (fst (work, out))" using assms by simp
    fix work and out :: "Transition list" and t
    assume w: "frozen k x (fst (work, out))" and t: "hold_recompute work (tr_item t) = Some t"
    have "tr_item t \<noteq> k"
    proof
      assume "tr_item t = k"
      with hold_recompute_open[OF t] w have "is_waiting x" by (auto simp: frozen_def)
      with assms(1) show False by (cases x) simp_all
    qed
    with w show "frozen k x (fst (set_status work (tr_item t) (tr_to t) (tr_origin t) now, out @ [t]))"
      by (simp add: frozen_def wf_set_status snap_status_set_status)
  qed
  then show ?thesis by (simp add: hold_recompute_into_def)
qed

lemma foldl_contains: "(\<And>t x. snap_contains (f t x) k = snap_contains t k) \<Longrightarrow> snap_contains (foldl f t xs) k = snap_contains t k"
  by (induction xs arbitrary: t) simp_all

lemma snap_contains_apply [simp]: "snap_contains (snap_apply s e now) k = snap_contains s k"
  by (simp add: snap_apply_def Let_def foldl_contains)

section \<open>A cascade of cancels re-points nothing\<close>

definition cancelled :: "Snapshot \<Rightarrow> work_item_id \<Rightarrow> bool" where
  "cancelled work k = (\<exists>r. snap_status work k = Some (Cancelled r))"

definition only_cancels :: "Repoint list \<Rightarrow> cstate \<times> work_item_id list \<Rightarrow> bool" where
  "only_cancels rs stq \<longleftrightarrow> wf_snap (fst (fst stq)) \<and> (\<forall>k \<in> set (snd stq). cancelled (fst (fst stq)) k)
     \<and> ef_repoints (snd (fst stq)) = rs"

lemma only_cancels_cancel:
  assumes "only_cancels rs ((work, out), queue)" "snap_status work d = Some st"
  shows "only_cancels rs (cascade_cancel d origin up reason now (work, out), queue @ [d])"
proof -
  have "snap_contains work d" using assms by (auto simp: only_cancels_def snap_contains_iff snap_status_def)
  with assms show ?thesis
    by (auto simp: only_cancels_def cascade_cancel_def Let_def wf_set_status cancelled_def snap_status_set_status)
qed

lemma only_cancels_descendants:
  assumes "only_cancels rs stq"
  shows "only_cancels rs (cancel_open_descendants k st origin now stq)"
proof -
  have one: "only_cancels rs (cancel_descendant k reason origin now stq d)" if "only_cancels rs stq" for reason stq d
  proof -
    obtain work out queue where stq: "stq = ((work, out), queue)" by (metis surj_pair)
    have keep: "only_cancels rs ((work, out'), queue)" if "ef_repoints out' = ef_repoints out" for out'
      using \<open>only_cancels rs stq\<close> that stq by (simp add: only_cancels_def)
    show ?thesis using that stq
      by (auto simp: cancel_descendant_def Let_def snap_status_def intro!: only_cancels_cancel keep split: option.splits)
  qed
  have "only_cancels rs stq \<Longrightarrow> only_cancels rs (foldl (cancel_descendant k reason origin now) stq ds)" for reason stq ds
    by (induction ds arbitrary: stq) (simp_all add: one)
  with assms show ?thesis by (simp add: cancel_open_descendants_def)
qed

lemma only_cancels_dependents:
  assumes "only_cancels rs stq"
  shows "only_cancels rs (run_dependents k (Cancelled r) origin now stq)"
proof -
  have one: "only_cancels rs (run_edge k (Cancelled r) None origin now stq e)" if "only_cancels rs stq" for stq e
  proof -
    obtain work out queue where stq: "stq = ((work, out), queue)" by (metis surj_pair)
    show ?thesis using that stq
      by (auto simp: run_edge_def intro!: only_cancels_cancel split: option.splits EdgeKind.splits)
  qed
  have "only_cancels rs stq \<Longrightarrow> only_cancels rs (foldl (run_edge k (Cancelled r) None origin now) stq es)" for stq es
    by (induction es arbitrary: stq) (simp_all add: one)
  with assms show ?thesis by (simp add: run_dependents_def)
qed

lemma run_loop_only_cancels:
  "only_cancels rs (st, queue) \<Longrightarrow> ef_repoints (snd (run_loop origin now queue finished st)) = rs"
proof (induction queue finished st rule: run_loop_induct[where origin = origin and now = now])
  case (Nil finished st)
  then show ?case by (simp add: only_cancels_def)
next
  case (skip k queue finished st)
  then show ?case by (simp add: run_loop_skip only_cancels_def)
next
  case (close k queue finished st status)
  then obtain r where r: "status = Cancelled r" by (auto simp: only_cancels_def cancelled_def)
  have "only_cancels rs (st, queue)" using close.prems by (simp add: only_cancels_def)
  then have "only_cancels rs (run_closed k status origin now (st, queue))"
    by (auto simp: run_closed_def Let_def r intro!: only_cancels_descendants only_cancels_dependents)
  with close show ?case by (simp add: run_loop_close)
qed

lemma run_only_cancels:
  "wf_snap (fst st) \<Longrightarrow> cancelled (fst st) k \<Longrightarrow> ef_repoints (snd (run k origin now st)) = ef_repoints (snd st)"
  using run_loop_only_cancels[of "ef_repoints (snd st)" st "[k]" origin now "{}"]
  by (simp add: run_def only_cancels_def)

text \<open>So the replay survives dropped edges: re-points come first, then drops, then statuses.\<close>

definition replays_until :: "Repoint list \<Rightarrow> Snapshot \<Rightarrow> timestamp \<Rightarrow> cstate \<Rightarrow> bool" where
  "replays_until rs base now st \<longleftrightarrow>
     wf_snap (fst st) \<and> length rs \<le> length (ef_repoints (snd st))
     \<and> (ef_repoints (snd st) = rs \<longrightarrow> snap_apply base (snd st) now = fst st)"

interpretation until: effect_keeps "replays_until rs base now" now origin
  for rs :: "Repoint list" and base :: Snapshot and now :: timestamp and origin :: work_item_id
  by unfold_locales
    (auto simp: replays_until_def wf_set_status wf_repoint_row snap_apply_push_transition Transition_caused_def)

definition replays_all :: "Snapshot \<Rightarrow> timestamp \<Rightarrow> cstate \<Rightarrow> bool" where
  "replays_all base now st \<longleftrightarrow> wf_snap (fst st) \<and> snap_apply base (snd st) now = fst st"

lemma supersede_pair_replays:
  assumes "replays base now (fst stm)"
  shows "replays base now (fst (supersede_pair targets {} stm pair))"
proof -
  obtain replacement target where pair: "pair = (replacement, target)" by (cases pair)
  have edge: "replays base now (fst (supersede_edge targets {} replacement target stm e))"
    if "replays base now (fst stm)" for stm e
    using that by (auto simp: supersede_edge_def replays_def wf_repoint_row snap_apply_push_repoint split: prod.splits)
  have edges: "replays base now (fst stm) \<Longrightarrow> replays base now (fst (foldl (supersede_edge targets {} replacement target) stm es))"
    for stm es by (induction es arbitrary: stm) (simp_all add: edge)
  have reader: "replays base now st \<Longrightarrow> replays base now (supersede_reader {} replacement target st k)" for st k
    by (auto simp: supersede_reader_def replays_def wf_repoint_row snap_apply_push_repoint split: prod.splits)
  have "replays base now st \<Longrightarrow> replays base now (foldl (supersede_reader {} replacement target) st ks)" for st ks
    by (induction ks arbitrary: st) (simp_all add: reader)
  with edges[OF assms] show ?thesis by (simp add: supersede_pair_def pair Let_def)
qed

lemma drop_own_edges_replays:
  assumes "replays_all base now st"
  shows "replays_all base now (drop_own_edges {} st target)"
proof -
  have one: "replays_all base now (drop_own_edge {} st e)" if "replays_all base now st" for st e
    using that by (auto simp: drop_own_edge_def replays_all_def wf_remove_edge snap_apply_push_dropped split: prod.splits)
  have "replays_all base now st \<Longrightarrow> replays_all base now (foldl (drop_own_edge {}) st es)" for st es
    by (induction es arbitrary: st) (simp_all add: one)
  with assms show ?thesis by (simp add: drop_own_edges_def)
qed

text \<open>Pass 3: what it has cancelled so far.\<close>

definition targets_cancelled :: "Snapshot \<Rightarrow> timestamp \<Rightarrow> cstate \<times> work_item_id list \<Rightarrow> bool" where
  "targets_cancelled base now stc \<longleftrightarrow> replays_all base now (fst stc)
     \<and> (\<forall>k \<in> set (snd stc). snap_status (fst (fst stc)) k = Some (Cancelled CrSuperseded))"

lemma cancel_target_keeps:
  assumes "targets_cancelled base now stc"
  shows "targets_cancelled base now (cancel_target now stc pair)
    \<and> (snap_contains (fst (fst stc)) (snd pair) \<longrightarrow> snd pair \<in> set (snd (cancel_target now stc pair)))
    \<and> set (snd stc) \<subseteq> set (snd (cancel_target now stc pair))
    \<and> (\<forall>k. snap_contains (fst (fst (cancel_target now stc pair))) k = snap_contains (fst (fst stc)) k)"
proof -
  obtain work out closed where stc: "stc = ((work, out), closed)" by (metis surj_pair)
  have wf: "wf_snap work" using assms stc by (simp add: targets_cancelled_def replays_all_def)
  then have "snap_contains work (snd pair) \<longleftrightarrow> snap_status work (snd pair) \<noteq> None"
    by (simp add: snap_contains_iff snap_status_def)
  then show ?thesis using assms stc wf
    by (cases pair) (auto simp: cancel_target_def Let_def targets_cancelled_def replays_all_def wf_set_status
        snap_apply_push_transition Transition_caused_def snap_status_set_status split: option.splits)
qed

lemma cancel_targets_keep:
  assumes "targets_cancelled base now stc"
  shows "targets_cancelled base now (foldl (cancel_target now) stc pairs)
    \<and> (\<forall>pair \<in> set pairs. snap_contains (fst (fst stc)) (snd pair) \<longrightarrow> snd pair \<in> set (snd (foldl (cancel_target now) stc pairs)))
    \<and> set (snd stc) \<subseteq> set (snd (foldl (cancel_target now) stc pairs))"
  using assms
proof (induction pairs arbitrary: stc)
  case (Cons pair pairs)
  note one = cancel_target_keeps[OF Cons.prems, of pair]
  show ?case using Cons.IH[of "cancel_target now stc pair"] one by (simp add: subset_iff)
qed simp

text \<open>Pass 4.\<close>

lemma run_targets_keep:
  assumes "targets_cancelled base now (st, ks)" "set ts \<subseteq> set ks"
  shows "targets_cancelled base now (foldl (\<lambda>st target. run target target now st) st ts, ks)"
  using assms
proof (induction ts arbitrary: st)
  case (Cons t ts)
  let ?st = "run t t now st"
  have pre: "replays_all base now st" "\<And>k. k \<in> set ks \<Longrightarrow> frozen k (Cancelled CrSuperseded) (fst st)"
    using Cons.prems by (auto simp: targets_cancelled_def replays_all_def frozen_def)
  then have "cancelled (fst st) t" using Cons.prems by (auto simp: frozen_def cancelled_def)
  then have "ef_repoints (snd ?st) = ef_repoints (snd st)"
    using pre by (intro run_only_cancels) (simp add: replays_all_def)
  moreover have "replays_until (ef_repoints (snd st)) base now ?st"
    using pre(1) by (intro until.run_keeps) (simp add: replays_until_def replays_all_def)
  ultimately have "replays_all base now ?st" by (simp add: replays_until_def replays_all_def)
  moreover have "frozen k (Cancelled CrSuperseded) (fst ?st)" if "k \<in> set ks" for k
    using pre(2)[OF that] by (intro frozen_run) simp_all
  ultimately have "targets_cancelled base now (?st, ks)" by (simp add: targets_cancelled_def frozen_def)
  with Cons show ?case by simp
qed simp

text \<open>Pass 5.\<close>

lemma hold_recompute_replays:
  assumes "replays_all base now (work, out)"
  shows "replays_all base now (fst (hold_recompute_into work items now (ef_transitions out)),
    out\<lparr>ef_transitions := snd (hold_recompute_into work items now (ef_transitions out))\<rparr>)"
proof -
  let ?P = "\<lambda>r. replays_all base now (fst r, out\<lparr>ef_transitions := snd r\<rparr>)"
  have "?P (hold_recompute_loop limit now items [] (work, ef_transitions out))" for limit
  proof (rule hold_recompute_loop_induct)
    show "?P (work, ef_transitions out)" using assms by simp
    fix w and ts :: "Transition list" and t
    assume "?P (w, ts)" and "hold_recompute w (tr_item t) = Some t"
    then show "?P (set_status w (tr_item t) (tr_to t) (tr_origin t) now, ts @ [t])"
      using snap_apply_push_transition[where s = base and t = t and e = "out\<lparr>ef_transitions := ts\<rparr>" and now = now]
      by (simp add: replays_all_def wf_set_status)
  qed
  then show ?thesis by (simp add: hold_recompute_into_def)
qed

lemma supersede_run_result:
  assumes "wf_snap s"
  shows "replays_all s now (supersede_run s pairs now)
    \<and> (\<forall>pair \<in> set pairs. snap_contains s (snd pair)
         \<longrightarrow> snap_status (fst (supersede_run s pairs now)) (snd pair) = Some (Cancelled CrSuperseded))"
proof -
  define stm where "stm = foldl (supersede_pair (set (map snd pairs)) {}) ((s, Effects_default), []) pairs"
  define st2 where "st2 = foldl (drop_own_edges {}) (fst stm) (foldl push_unique [] (map snd pairs))"
  define stc where "stc = foldl (cancel_target now) (st2, []) pairs"
  define st4 where "st4 = foldl (\<lambda>st target. run target target now st) (fst stc) (snd stc)"
  have "replays s now (fst (foldl (supersede_pair targets {}) stm ps))" if "replays s now (fst stm)" for targets stm ps
    using that by (induction ps arbitrary: stm) (simp_all add: supersede_pair_replays)
  moreover have "replays s now (s, Effects_default)"
    using assms by (simp add: replays_def, simp add: Effects_default_def)
  ultimately have "replays s now (fst stm)" by (simp add: stm_def)
  then have "replays_all s now (fst stm)" by (simp add: replays_def replays_all_def)
  moreover have "replays_all s now st \<Longrightarrow> replays_all s now (foldl (drop_own_edges {}) st ts)" for st ts
    by (induction ts arbitrary: st) (simp_all add: drop_own_edges_replays)
  ultimately have r2: "replays_all s now st2" by (simp add: st2_def)
  then have "targets_cancelled s now (st2, [])" by (simp add: targets_cancelled_def)
  note c3 = cancel_targets_keep[OF this, of pairs, folded stc_def]
  have "fst st2 = snap_apply s (snd st2) now" using r2 by (simp add: replays_all_def)
  then have there: "snap_contains (fst st2) k = snap_contains s k" for k
    by (simp add: snap_contains_apply)
  have "targets_cancelled s now (st4, snd stc)" unfolding st4_def
    by (rule run_targets_keep) (use c3 in auto)
  then have r4: "replays_all s now st4"
    and frozen4: "\<And>k. k \<in> set (snd stc) \<Longrightarrow> frozen k (Cancelled CrSuperseded) (fst st4)"
    by (auto simp: targets_cancelled_def frozen_def replays_all_def)
  have run: "supersede_run s pairs now =
      (fst (hold_recompute_into (fst st4) (snd stm) now (ef_transitions (snd st4))),
       (snd st4)\<lparr>ef_transitions := snd (hold_recompute_into (fst st4) (snd stm) now (ef_transitions (snd st4)))\<rparr>)"
    by (simp add: supersede_run_def supersede_in_def Let_def stm_def st2_def stc_def st4_def)
  have "replays_all s now (supersede_run s pairs now)" unfolding run
    by (rule hold_recompute_replays) (simp add: r4)
  moreover have "frozen k (Cancelled CrSuperseded) (fst (supersede_run s pairs now))" if "k \<in> set (snd stc)" for k
    using frozen_hold_recompute[OF _ frozen4[OF that]] by (simp add: run)
  ultimately show ?thesis using c3 there by (auto simp: frozen_def)
qed

section \<open>Properties\<close>

text \<open>A target passes exactly when it is a waiting item of the snapshot inside the filer's scope and
  nothing under it is leased, running or verifying.\<close>

theorem supersede_allowed_iff:
  "supersede_refusals s target scope = [] \<longleftrightarrow>
     waits s target \<and> (\<exists>r. scope = Some r \<and> is_within s target r)
     \<and> subtree_statuses s target \<inter> Collect is_active = {}"
proof (cases "snap_item s target")
  case None
  then show ?thesis by (simp add: supersede_refusals_def waits_def snap_status_def)
next
  case (Some row)
  have waiting: "is_waiting st \<longleftrightarrow> \<not> is_active st \<and> \<not> is_closed st" for st by (cases st) simp_all
  have empty: "List.map_filter f xs = [] \<longleftrightarrow> (\<forall>x \<in> set xs. f x = None)" for f :: "work_item_id \<Rightarrow> SupersedeRefusal option" and xs
    by (induction xs) (simp_all add: List.map_filter_simps split: option.splits)
  show ?thesis using Some
    by (auto simp: supersede_refusals_def waits_def snap_status_def waiting empty subtree_statuses_def
        split: option.splits if_splits)
qed

text \<open>C30: after superseding, every target of the filing that exists is \<open>cancelled(superseded)\<close>, whatever the
  subtree cascades and the re-derived holds did afterwards, and replaying the returned effects
  (re-points, then dropped edges, with the status changes) gives exactly the engine's working snapshot.\<close>

theorem superseded_targets_end:
  assumes "wf_snap s" "(replacement, target) \<in> set pairs" "snap_contains s target"
  shows "snap_status (snap_apply s (supersede s pairs now) now) target = Some (Cancelled CrSuperseded)
    \<and> snap_apply s (supersede s pairs now) now = fst (supersede_run s pairs now)"
  using supersede_run_result[OF assms(1), of now pairs] assms(2,3) by (auto simp: supersede_def replays_all_def)

lemma superseded_targets_end_witness:
  "snap_status (snap_apply demo (supersede demo [(''z'', ''b'')] 7) 7) ''b'' = Some (Cancelled CrSuperseded)"
proof -
  have "snap_contains demo ''b''" by code_simp
  then have "snap_status (snap_apply demo (supersede demo [(''z'', ''b'')] 7) 7) ''b'' = Some (Cancelled CrSuperseded)
      \<and> snap_apply demo (supersede demo [(''z'', ''b'')] 7) 7 = fst (supersede_run demo [(''z'', ''b'')] 7)"
    by (intro superseded_targets_end[OF wf_demo, of "''z''"]) simp_all
  then show ?thesis ..
qed

end
