(* ===== verification/Aging.thy ===== *)
theory Aging
  imports CascadeOutcomes
begin

text \<open>
  Aging, \<^verbatim>\<open>rustykrab-control/src/graph/aging.rs\<close>: which closed items may be compacted into the archive.
  The hash set \<open>eligible\<close> is a list; the loop that shrinks it is a total function, and its result is the
  largest set of old, unnamed, closed items closed under parents and children.
\<close>

definition names_of :: "Snapshot \<Rightarrow> WorkItem \<Rightarrow> work_item_id list" where
  \<comment> \<open>what one open item adds to \<open>named\<close>\<close>
  "names_of s item =
     map e_depends_on (filter (\<lambda>e. is_ordering (e_kind e)) (edges_held_by s (wi_id item)))
     @ wi_inputs_from item @ (case wi_parent item of None \<Rightarrow> [] | Some p \<Rightarrow> [p])"

definition named_by_open :: "Snapshot \<Rightarrow> work_item_id list" where
  "named_by_open s = concat (map (names_of s) (filter (\<lambda>i. \<not> is_closed (wi_status i)) (sn_items s)))"

definition old_enough :: "timestamp \<Rightarrow> (WorkKind \<times> timestamp) list \<Rightarrow> WorkItem \<Rightarrow> bool" where
  "old_enough now windows i =
     (case (wi_closed_at i, map_of windows (wi_kind i)) of
        (Some closed, Some window) \<Rightarrow> closed + window \<le> now
      | _ \<Rightarrow> False)"

definition aging_start :: "Snapshot \<Rightarrow> timestamp \<Rightarrow> (WorkKind \<times> timestamp) list \<Rightarrow> work_item_id list" where
  "aging_start s now windows =
     map wi_id (filter (\<lambda>i. is_closed (wi_status i) \<and> wi_id i \<notin> set (named_by_open s) \<and> old_enough now windows i)
                  (sn_items s))"

definition kin_blocks :: "Snapshot \<Rightarrow> work_item_id list \<Rightarrow> work_item_id \<Rightarrow> bool" where
  "kin_blocks s eligible k =
     ((case parent_of s k of None \<Rightarrow> False | Some p \<Rightarrow> snap_contains s p \<and> p \<notin> set eligible)
      \<or> list_ex (\<lambda>c. c \<notin> set eligible) (children s k))"

function shrink :: "Snapshot \<Rightarrow> work_item_id list \<Rightarrow> work_item_id list" where
  "shrink s eligible =
     (let drops = filter (kin_blocks s eligible) eligible in
      if drops = [] then eligible
      else shrink s (filter (\<lambda>k. k \<notin> set drops) eligible))"
  by pat_completeness auto
termination
proof (relation "measure (\<lambda>(s, eligible). length eligible)", goal_cases)
  case 1
  then show ?case by simp
next
  case (2 s eligible drops)
  then have "hd drops \<in> set drops" by (intro hd_in_set) simp
  moreover have "set drops \<subseteq> set eligible" using 2 by auto
  ultimately have "hd drops \<in> set eligible" "hd drops \<in> set drops" by auto
  then show ?case by (auto intro: length_filter_less)
qed

declare shrink.simps [simp del]

definition aging_candidates :: "Snapshot \<Rightarrow> timestamp \<Rightarrow> (WorkKind \<times> timestamp) list \<Rightarrow> work_item_id list" where
  "aging_candidates s now windows =
     (let eligible = shrink s (aging_start s now windows) in
      map wi_id (filter (\<lambda>i. wi_id i \<in> set eligible) (sn_items s)))"

section \<open>The loop computes a greatest fixpoint\<close>

lemma shrink_subset: "set (shrink s eligible) \<subseteq> set eligible"
proof (induction s eligible rule: shrink.induct)
  case (1 s eligible)
  then show ?case by (subst shrink.simps) (auto simp: Let_def)
qed

lemma shrink_stable: "k \<in> set (shrink s eligible) \<Longrightarrow> \<not> kin_blocks s (shrink s eligible) k"
proof (induction s eligible rule: shrink.induct)
  case (1 s eligible)
  show ?case
  proof (cases "filter (kin_blocks s eligible) eligible = []")
    case True
    then have "shrink s eligible = eligible" by (simp add: shrink.simps[of s eligible] Let_def)
    with True "1.prems" show ?thesis by (simp add: filter_empty_conv)
  next
    case False
    then have "shrink s eligible = shrink s (filter (\<lambda>k. k \<notin> set (filter (kin_blocks s eligible) eligible)) eligible)"
      by (simp add: shrink.simps[of s eligible] Let_def)
    with "1.IH"[OF refl False] "1.prems" show ?thesis by simp
  qed
qed

lemma kin_blocks_mono: "set xs \<subseteq> set ys \<Longrightarrow> kin_blocks s ys k \<Longrightarrow> kin_blocks s xs k"
  by (auto simp: kin_blocks_def list_ex_iff split: option.splits)

lemma shrink_greatest:
  assumes "set S \<subseteq> set eligible" "\<And>k. k \<in> set S \<Longrightarrow> \<not> kin_blocks s S k"
  shows "set S \<subseteq> set (shrink s eligible)"
  using assms
proof (induction s eligible rule: shrink.induct)
  case (1 s eligible)
  have "\<not> kin_blocks s eligible k" if "k \<in> set S" for k
    using kin_blocks_mono[OF "1.prems"(1)] "1.prems"(2)[OF that] by blast
  then have "set S \<subseteq> set (filter (\<lambda>k. k \<notin> set (filter (kin_blocks s eligible) eligible)) eligible)"
    using "1.prems"(1) by auto
  with 1 show ?case by (cases "filter (kin_blocks s eligible) eligible = []") (auto simp: shrink.simps[of s eligible] Let_def)
qed

lemma aging_candidates_set: "set (aging_candidates s now windows) = set (shrink s (aging_start s now windows))"
proof
  show "set (aging_candidates s now windows) \<subseteq> set (shrink s (aging_start s now windows))"
    by (auto simp: aging_candidates_def Let_def)
  show "set (shrink s (aging_start s now windows)) \<subseteq> set (aging_candidates s now windows)"
    using shrink_subset[of s "aging_start s now windows"] by (auto simp: aging_candidates_def Let_def aging_start_def)
qed

text \<open>A set of items that holds the kin of each of its members.\<close>

definition kin_closed :: "Snapshot \<Rightarrow> work_item_id set \<Rightarrow> bool" where
  "kin_closed s S \<longleftrightarrow>
     (\<forall>k \<in> S. (\<forall>p. parent_of s k = Some p \<longrightarrow> snap_contains s p \<longrightarrow> p \<in> S) \<and> set (children s k) \<subseteq> S)"

lemma kin_closed_iff: "kin_closed s (set xs) \<longleftrightarrow> (\<forall>k \<in> set xs. \<not> kin_blocks s xs k)"
proof -
  have "\<not> kin_blocks s xs k \<longleftrightarrow>
      (\<forall>p. parent_of s k = Some p \<longrightarrow> snap_contains s p \<longrightarrow> p \<in> set xs) \<and> set (children s k) \<subseteq> set xs" for k
    by (cases "parent_of s k") (auto simp: kin_blocks_def list_ex_iff)
  then show ?thesis by (simp add: kin_closed_def)
qed

section \<open>Properties\<close>

text \<open>An aging candidate is closed and old enough, and no open item of the snapshot names it: no open
  item holds an ordering edge onto it, reads it as an input or has it as its parent. So readiness never
  reads a compacted row.\<close>

theorem aged_items_are_not_named:
  assumes "wf_snap s" "k \<in> set (aging_candidates s now windows)"
  shows "\<exists>i. snap_item s k = Some i \<and> is_closed (wi_status i) \<and> old_enough now windows i
    \<and> (\<nexists>j e. snap_item s (wi_id j) = Some j \<and> \<not> is_closed (wi_status j)
         \<and> (k \<in> set (wi_inputs_from j) \<or> wi_parent j = Some k
            \<or> e \<in> set (sn_edges s) \<and> is_ordering (e_kind e) \<and> e_item e = wi_id j \<and> e_depends_on e = k))"
proof -
  have "k \<in> set (aging_start s now windows)"
    using assms(2) shrink_subset by (auto simp: aging_candidates_set)
  then obtain i where i: "i \<in> set (sn_items s)" "wi_id i = k" "is_closed (wi_status i)" "old_enough now windows i"
    and free: "k \<notin> set (named_by_open s)"
    by (auto simp: aging_start_def)
  have "k \<in> set (named_by_open s)" if "snap_item s (wi_id j) = Some j" "\<not> is_closed (wi_status j)"
    "k \<in> set (wi_inputs_from j) \<or> wi_parent j = Some k
      \<or> e \<in> set (sn_edges s) \<and> is_ordering (e_kind e) \<and> e_item e = wi_id j \<and> e_depends_on e = k" for j e
  proof -
    have "k \<in> set (names_of s j)" using that(3) assms(1) by (auto simp: names_of_def snap.held_iff)
    moreover have "j \<in> set (sn_items s)" using that(1) assms(1) by (simp add: snap.lookup_Some_iff)
    ultimately show ?thesis using that(2) by (auto simp: named_by_open_def)
  qed
  with i free assms(1) show ?thesis by (intro exI[of _ i]) (auto simp: snap.lookup_Some_iff)
qed

definition demo_old :: Snapshot where
  "demo_old = Snapshot_new
     [(blank_item ''p'' None Done)\<lparr>wi_closed_at := Some 0\<rparr>, (blank_item ''c'' (Some ''p'') Failed)\<lparr>wi_closed_at := Some 1\<rparr>,
      blank_item ''q'' None Queued] []"

lemma aged_items_are_not_named_witness:
  "\<exists>i. snap_item demo_old ''c'' = Some i \<and> is_closed (wi_status i)"
proof -
  have "''c'' \<in> set (aging_candidates demo_old 50 [(WkTask, 10)])" by code_simp
  from aged_items_are_not_named[OF _ this] show ?thesis by (auto simp: demo_old_def wf_Snapshot_new)
qed

text \<open>C32: subtrees age together. The candidates are the largest set of closed, old, unnamed items in which
  each item's parent (when it is in the snapshot) and each item's children are candidates too.\<close>

theorem subtrees_age_together:
  "set (aging_candidates s now windows)
     = \<Union>{S. S \<subseteq> set (aging_start s now windows) \<and> kin_closed s S}
   \<and> kin_closed s (set (aging_candidates s now windows))"
proof (intro conjI equalityI)
  let ?C = "shrink s (aging_start s now windows)"
  have "kin_closed s (set ?C)" using shrink_stable kin_closed_iff by blast
  then show closed: "kin_closed s (set (aging_candidates s now windows))" by (simp add: aging_candidates_set)
  show "set (aging_candidates s now windows) \<subseteq> \<Union>{S. S \<subseteq> set (aging_start s now windows) \<and> kin_closed s S}"
    using closed shrink_subset by (intro Union_upper) (simp add: aging_candidates_set)
  show "\<Union>{S. S \<subseteq> set (aging_start s now windows) \<and> kin_closed s S} \<subseteq> set (aging_candidates s now windows)"
  proof (rule Union_least)
    fix S assume S: "S \<in> {S. S \<subseteq> set (aging_start s now windows) \<and> kin_closed s S}"
    then have "finite S" using finite_subset by fastforce
    then obtain xs where xs: "set xs = S" using finite_list by blast
    then have "\<not> kin_blocks s xs k" if "k \<in> set xs" for k using that S kin_closed_iff[of s xs] by blast
    then show "S \<subseteq> set (aging_candidates s now windows)"
      using shrink_greatest[of xs "aging_start s now windows" s] S xs by (simp add: aging_candidates_set)
  qed
qed

end
