(* ===== verification/DepOrder.thy ===== *)
theory DepOrder
  imports Ready
begin

text \<open>
  The dependency graph behind "ordered after", \<^verbatim>\<open>rustykrab-control/src/graph/order.rs\<close>: \<open>Arcs::build\<close> and
  \<open>Arcs::reach\<close>. The code adds arcs between row positions in two passes (edge rows; then, per row, the
  parent's arc and the ordering edges inherited from its ancestors); \<open>reach\<close> is a breadth-first search.
  The search is shown to compute exactly the transitive closure of the dependency relation read off the
  rows. The cycle search of the same file is in \<open>Tarjan\<close> and \<open>Cycles\<close>.
\<close>

record Arcs =
  ar_nodes :: "work_item_id list"
  ar_index :: "(work_item_id \<times> nat) list"
  ar_out :: "nat list list"

definition node_index :: "work_item_id list \<Rightarrow> (work_item_id \<times> nat) list" where
  "node_index nodes = foldl (\<lambda>m (i, k). AList.update k i m) [] (zip [0..<length nodes] nodes)"

definition add_arc :: "nat list list \<Rightarrow> nat \<times> nat \<Rightarrow> nat list list" where
  "add_arc out arc = (case arc of (from, to) \<Rightarrow> out[from := push_unique (out ! from) to])"

definition edge_arc :: "(work_item_id \<times> nat) list \<Rightarrow> bool \<Rightarrow> Edge set \<Rightarrow> Edge \<Rightarrow> (nat \<times> nat) option" where
  \<comment> \<open>the body of the loop over the edges\<close>
  "edge_arc index all_kinds skip edge =
     (if edge \<in> skip \<or> \<not> (all_kinds \<or> is_ordering (e_kind edge)) then None
      else case (map_of index (e_item edge), map_of index (e_depends_on edge)) of
        (Some from, Some to) \<Rightarrow> Some (from, to)
      | _ \<Rightarrow> None)"

definition inherited_arc :: "(work_item_id \<times> nat) list \<Rightarrow> Edge set \<Rightarrow> nat \<Rightarrow> Edge \<Rightarrow> (nat \<times> nat) option" where
  "inherited_arc index skip i edge =
     (if \<not> is_ordering (e_kind edge) \<or> edge \<in> skip then None
      else map_option (\<lambda>to. (i, to)) (map_of index (e_depends_on edge)))"

definition item_arcs :: "Snapshot \<Rightarrow> (work_item_id \<times> nat) list \<Rightarrow> Edge set \<Rightarrow> nat \<times> WorkItem \<Rightarrow> (nat \<times> nat) list" where
  \<comment> \<open>the body of the loop over the items\<close>
  "item_arcs s index skip row =
     (case row of (i, item) \<Rightarrow>
        (case Option.bind (wi_parent item) (map_of index) of None \<Rightarrow> [] | Some p \<Rightarrow> [(p, i)])
        @ concat (map (\<lambda>a. List.map_filter (inherited_arc index skip i) (edges_held_by s a)) (ancestors s (wi_id item))))"

definition Arcs_build :: "Snapshot \<Rightarrow> bool \<Rightarrow> Edge set \<Rightarrow> Arcs" where
  "Arcs_build s all_kinds skip =
     (let nodes = map wi_id (sn_items s);
          index = node_index nodes;
          arcs = List.map_filter (edge_arc index all_kinds skip) (sn_edges s)
                 @ concat (map (item_arcs s index skip) (zip [0..<length (sn_items s)] (sn_items s)))
      in \<lparr>ar_nodes = nodes, ar_index = index, ar_out = foldl add_arc (replicate (length nodes) []) arcs\<rparr>)"

definition succs :: "Arcs \<Rightarrow> nat \<Rightarrow> nat list" where
  "succs a n = (case nth_opt (ar_out a) n of None \<Rightarrow> [] | Some ms \<Rightarrow> ms)"

lemma succs_subset: "set (succs a n) \<subseteq> (\<Union>ms \<in> set (ar_out a). set ms)"
  by (auto simp: succs_def nth_opt_def intro: nth_mem split: if_splits)

function reach_loop :: "Arcs \<Rightarrow> nat list \<Rightarrow> nat list \<Rightarrow> work_item_id list \<Rightarrow> work_item_id list" where
  "reach_loop a [] seen found = found"
| "reach_loop a (n # queue) seen found =
     (if n \<in> set seen then reach_loop a queue seen found
      else reach_loop a (queue @ succs a n) (n # seen)
             (case nth_opt (ar_nodes a) n of None \<Rightarrow> found | Some k \<Rightarrow> push_unique found k))"
  by pat_completeness auto
termination
proof (relation "measures [\<lambda>(a, queue, seen, found). card (set queue \<union> (\<Union>ms \<in> set (ar_out a). set ms) - set seen),
    \<lambda>(a, queue, seen, found). length queue]", goal_cases)
  case 1
  then show ?case by simp
next
  case (2 a n queue seen found)
  let ?U = "\<Union>ms \<in> set (ar_out a). set ms"
  have "card (set queue \<union> ?U - set seen) \<le> card (set (n # queue) \<union> ?U - set seen)" by (rule worklist_le) auto
  then show ?case by (simp add: le_less)
next
  case (3 a n queue seen found)
  let ?U = "\<Union>ms \<in> set (ar_out a). set ms"
  have "card (set (queue @ succs a n) \<union> ?U - insert n (set seen)) < card (set (n # queue) \<union> ?U - set seen)"
    using 3 succs_subset[of a n] by (intro worklist_less) auto
  then show ?case by simp
qed

definition reach :: "Arcs \<Rightarrow> work_item_id \<Rightarrow> work_item_id list" where
  "reach a k =
     (case map_of (ar_index a) k of
        None \<Rightarrow> []
      | Some start \<Rightarrow> reach_loop a (succs a start) [] [])"

section \<open>The specification: dependencies read off the rows\<close>

text \<open>
  \<open>x\<close> depends on \<open>y\<close> through an edge row of its own, as a parent on its child, or through an ordering
  edge one of its ancestors holds.
\<close>

definition depends :: "Snapshot \<Rightarrow> bool \<Rightarrow> Edge set \<Rightarrow> work_item_id \<Rightarrow> work_item_id \<Rightarrow> bool" where
  "depends s all_kinds skip x y \<longleftrightarrow>
     snap_contains s x \<and> snap_contains s y
     \<and> ((\<exists>e \<in> set (sn_edges s). e \<notin> skip \<and> (all_kinds \<or> is_ordering (e_kind e)) \<and> e_item e = x \<and> e_depends_on e = y)
        \<or> parent_of s y = Some x
        \<or> (\<exists>e \<in> set (sn_edges s). e \<notin> skip \<and> is_ordering (e_kind e) \<and> e_item e \<in> set (ancestors s x) \<and> e_depends_on e = y))"

section \<open>Breadth-first search computes the closure\<close>

lemma reach_loop_sound:
  assumes "set queue \<subseteq> R" "set found \<subseteq> {k. \<exists>n \<in> R. nth_opt (ar_nodes a) n = Some k}"
    "\<And>n m. n \<in> R \<Longrightarrow> m \<in> set (succs a n) \<Longrightarrow> m \<in> R"
  shows "set (reach_loop a queue seen found) \<subseteq> {k. \<exists>n \<in> R. nth_opt (ar_nodes a) n = Some k}"
  using assms
proof (induction a queue seen found rule: reach_loop.induct)
  case (1 a seen found)
  then show ?case by simp
next
  case (2 a n queue seen found)
  show ?case
  proof (cases "n \<in> set seen")
    case True
    with 2 show ?thesis by simp
  next
    case False
    have "set (queue @ succs a n) \<subseteq> R" using "2.prems" by auto
    moreover have "set (case nth_opt (ar_nodes a) n of None \<Rightarrow> found | Some k \<Rightarrow> push_unique found k)
        \<subseteq> {k. \<exists>n \<in> R. nth_opt (ar_nodes a) n = Some k}"
      using "2.prems" by (auto split: option.splits)
    ultimately show ?thesis using "2.IH"(2)[OF False] "2.prems"(3) False by simp
  qed
qed

lemma reach_loop_complete:
  assumes "\<forall>n \<in> set seen. set (succs a n) \<subseteq> set seen \<union> set queue"
    and "\<forall>n \<in> set seen. \<forall>k. nth_opt (ar_nodes a) n = Some k \<longrightarrow> k \<in> set found"
  shows "\<exists>S. set queue \<subseteq> S \<and> set seen \<subseteq> S \<and> (\<forall>n \<in> S. set (succs a n) \<subseteq> S)
    \<and> (\<forall>n \<in> S. \<forall>k. nth_opt (ar_nodes a) n = Some k \<longrightarrow> k \<in> set (reach_loop a queue seen found))"
  using assms
proof (induction a queue seen found rule: reach_loop.induct)
  case (1 a seen found)
  then show ?case by (intro exI[of _ "set seen"]) simp
next
  case (2 a n queue seen found)
  show ?case
  proof (cases "n \<in> set seen")
    case True
    then have "\<forall>n \<in> set seen. set (succs a n) \<subseteq> set seen \<union> set queue" using "2.prems"(1) by auto
    from "2.IH"(1)[OF True this "2.prems"(2)]
    obtain S where S: "set queue \<subseteq> S" "set seen \<subseteq> S" "\<forall>n \<in> S. set (succs a n) \<subseteq> S"
      "\<forall>n \<in> S. \<forall>k. nth_opt (ar_nodes a) n = Some k \<longrightarrow> k \<in> set (reach_loop a queue seen found)"
      by (elim exE conjE)
    moreover have "set (n # queue) \<subseteq> S" using S(1,2) True by auto
    ultimately show ?thesis using True by (intro exI[of _ S]) simp
  next
    case False
    let ?found = "case nth_opt (ar_nodes a) n of None \<Rightarrow> found | Some k \<Rightarrow> push_unique found k"
    have "\<forall>x \<in> set (n # seen). set (succs a x) \<subseteq> set (n # seen) \<union> set (queue @ succs a n)"
      using "2.prems"(1) by auto
    moreover have "\<forall>x \<in> set (n # seen). \<forall>k. nth_opt (ar_nodes a) x = Some k \<longrightarrow> k \<in> set ?found"
      using "2.prems"(2) by (auto split: option.splits)
    ultimately have "\<exists>S. set (queue @ succs a n) \<subseteq> S \<and> set (n # seen) \<subseteq> S \<and> (\<forall>n \<in> S. set (succs a n) \<subseteq> S)
      \<and> (\<forall>x \<in> S. \<forall>k. nth_opt (ar_nodes a) x = Some k \<longrightarrow> k \<in> set (reach_loop a (queue @ succs a n) (n # seen) ?found))"
      by (rule "2.IH"(2)[OF False])
    then obtain S where S: "set (queue @ succs a n) \<subseteq> S" "set (n # seen) \<subseteq> S" "\<forall>n \<in> S. set (succs a n) \<subseteq> S"
      "\<forall>x \<in> S. \<forall>k. nth_opt (ar_nodes a) x = Some k \<longrightarrow> k \<in> set (reach_loop a (queue @ succs a n) (n # seen) ?found)"
      by (elim exE conjE)
    moreover have "set (n # queue) \<subseteq> S" "set seen \<subseteq> S" using S(1,2) by auto
    ultimately show ?thesis using False by (intro exI[of _ S]) simp
  qed
qed

lemma reach_loop_closure:
  "set (reach_loop a (succs a start) [] [])
     = {k. \<exists>n. (\<lambda>n m. m \<in> set (succs a n))\<^sup>+\<^sup>+ start n \<and> nth_opt (ar_nodes a) n = Some k}"
proof
  let ?R = "{n. (\<lambda>n m. m \<in> set (succs a n))\<^sup>+\<^sup>+ start n}"
  have "set (reach_loop a (succs a start) [] []) \<subseteq> {k. \<exists>n \<in> ?R. nth_opt (ar_nodes a) n = Some k}"
    by (rule reach_loop_sound) (auto intro: tranclp.intros)
  then show "set (reach_loop a (succs a start) [] [])
      \<subseteq> {k. \<exists>n. (\<lambda>n m. m \<in> set (succs a n))\<^sup>+\<^sup>+ start n \<and> nth_opt (ar_nodes a) n = Some k}" by auto
next
  obtain S where S: "set (succs a start) \<subseteq> S" "\<forall>n \<in> S. set (succs a n) \<subseteq> S"
    "\<forall>n \<in> S. \<forall>k. nth_opt (ar_nodes a) n = Some k \<longrightarrow> k \<in> set (reach_loop a (succs a start) [] [])"
    using reach_loop_complete[of "[]" a "succs a start" "[]"] by (simp, elim exE conjE) (rule that)
  have "n \<in> S" if "(\<lambda>n m. m \<in> set (succs a n))\<^sup>+\<^sup>+ start n" for n
    using that by induction (use S in auto)
  with S(3) show "{k. \<exists>n. (\<lambda>n m. m \<in> set (succs a n))\<^sup>+\<^sup>+ start n \<and> nth_opt (ar_nodes a) n = Some k}
      \<subseteq> set (reach_loop a (succs a start) [] [])" by blast
qed

section \<open>The arcs are the dependencies\<close>

lemma node_index_iff:
  assumes "distinct nodes"
  shows "map_of (node_index nodes) k = Some i \<longleftrightarrow> i < length nodes \<and> nodes ! i = k"
  using assms
proof (induction nodes arbitrary: i rule: rev_induct)
  case Nil
  then show ?case by (simp add: node_index_def)
next
  case (snoc x xs)
  have "node_index (xs @ [x]) = AList.update x (length xs) (node_index xs)"
    by (simp add: node_index_def)
  then have upd: "map_of (node_index (xs @ [x])) k = (if k = x then Some (length xs) else map_of (node_index xs) k)"
    by (simp add: update_conv)
  have "x \<notin> set xs" "distinct xs" using snoc.prems by simp_all
  then have old: "i < length xs \<Longrightarrow> xs ! i \<noteq> x" by auto
  show ?case
  proof (cases "k = x")
    case True
    then show ?thesis using upd old by (cases "i < length xs") (auto simp: nth_append)
  next
    case False
    then show ?thesis using upd snoc.IH[OF \<open>distinct xs\<close>, of i] by (auto simp: nth_append less_Suc_eq)
  qed
qed

lemma add_arcs_length [simp]: "length (foldl add_arc out arcs) = length out"
  by (induction arcs arbitrary: out) (auto simp: add_arc_def split: prod.splits)

lemma add_arcs:
  "n < length out \<Longrightarrow> m \<in> set (foldl add_arc out arcs ! n) \<longleftrightarrow> m \<in> set (out ! n) \<or> (n, m) \<in> set arcs"
proof (induction arcs arbitrary: out)
  case (Cons arc arcs)
  obtain i j where arc: "arc = (i, j)" by (cases arc)
  then have "m \<in> set (add_arc out arc ! n) \<longleftrightarrow> m \<in> set (out ! n) \<or> (n, m) = arc"
    using Cons.prems by (cases "i = n") (auto simp: add_arc_def)
  moreover have "n < length (add_arc out arc)" using Cons.prems by (simp add: add_arc_def arc)
  ultimately show ?case using Cons.IH[of "add_arc out arc"] by auto
qed simp

lemma map_filter_iff: "x \<in> set (List.map_filter f xs) \<longleftrightarrow> (\<exists>y \<in> set xs. f y = Some x)"
  by (auto simp: List.map_filter_def) force

lemma contains_row:
  assumes "wf_snap s"
  shows "snap_contains s x \<longleftrightarrow> x \<in> wi_id ` set (sn_items s)"
  using assms by (auto simp: snap_contains_iff snap.lookup_Some_iff)

lemma edge_arcs_iff:
  assumes idx: "\<And>k i. map_of index k = Some i \<longleftrightarrow> i < length nodes \<and> nodes ! i = k"
  shows "(n, m) \<in> set (List.map_filter (edge_arc index all_kinds skip) es) \<longleftrightarrow>
    n < length nodes \<and> m < length nodes
    \<and> (\<exists>e \<in> set es. e \<notin> skip \<and> (all_kinds \<or> is_ordering (e_kind e)) \<and> e_item e = nodes ! n \<and> e_depends_on e = nodes ! m)"
proof -
  have "edge_arc index all_kinds skip e = Some (n, m) \<longleftrightarrow> e \<notin> skip \<and> (all_kinds \<or> is_ordering (e_kind e))
      \<and> map_of index (e_item e) = Some n \<and> map_of index (e_depends_on e) = Some m" for e
    by (auto simp: edge_arc_def split: option.splits)
  then show ?thesis by (auto simp: map_filter_iff idx)
qed

lemma item_arcs_iff:
  assumes wf: "wf_snap s"
    and idx: "\<And>k i. map_of index k = Some i \<longleftrightarrow> i < length (sn_items s) \<and> wi_id (sn_items s ! i) = k"
  shows "(n, m) \<in> set (concat (map (item_arcs s index skip) (zip [0..<length (sn_items s)] (sn_items s)))) \<longleftrightarrow>
    n < length (sn_items s) \<and> m < length (sn_items s)
    \<and> (wi_parent (sn_items s ! m) = Some (wi_id (sn_items s ! n))
       \<or> (\<exists>e \<in> set (sn_edges s). e \<notin> skip \<and> is_ordering (e_kind e)
            \<and> e_item e \<in> set (ancestors s (wi_id (sn_items s ! n))) \<and> e_depends_on e = wi_id (sn_items s ! m)))"
proof -
  have inh: "inherited_arc index skip i e = Some (n, m) \<longleftrightarrow> is_ordering (e_kind e) \<and> e \<notin> skip \<and> n = i
      \<and> map_of index (e_depends_on e) = Some m" for i e
    by (auto simp: inherited_arc_def)
  have row: "(n, m) \<in> set (item_arcs s index skip (i, item)) \<longleftrightarrow>
      (\<exists>x. wi_parent item = Some x \<and> map_of index x = Some n \<and> m = i)
      \<or> (n = i \<and> (\<exists>e \<in> set (sn_edges s). e \<notin> skip \<and> is_ordering (e_kind e)
            \<and> e_item e \<in> set (ancestors s (wi_id item)) \<and> map_of index (e_depends_on e) = Some m))" for i item
  proof -
    have "(n, m) \<in> set (case Option.bind (wi_parent item) (map_of index) of None \<Rightarrow> [] | Some p \<Rightarrow> [(p, i)])
        \<longleftrightarrow> (\<exists>x. wi_parent item = Some x \<and> map_of index x = Some n \<and> m = i)"
      by (cases "wi_parent item") (auto split: option.splits)
    moreover have "(n, m) \<in> set (concat (map (\<lambda>a. List.map_filter (inherited_arc index skip i) (edges_held_by s a)) (ancestors s (wi_id item))))
        \<longleftrightarrow> (n = i \<and> (\<exists>e \<in> set (sn_edges s). e \<notin> skip \<and> is_ordering (e_kind e)
            \<and> e_item e \<in> set (ancestors s (wi_id item)) \<and> map_of index (e_depends_on e) = Some m))"
      by (auto simp: map_filter_iff inh Bex_def snap.held_iff[OF wf])
    ultimately show ?thesis by (simp only: item_arcs_def prod.case set_append Un_iff)
  qed
  have "(n, m) \<in> set (concat (map (item_arcs s index skip) (zip [0..<length (sn_items s)] (sn_items s))))
      \<longleftrightarrow> (\<exists>i < length (sn_items s). (n, m) \<in> set (item_arcs s index skip (i, sn_items s ! i)))"
  proof -
    have "set (zip [0..<length (sn_items s)] (sn_items s)) = {(i, sn_items s ! i) | i. i < length (sn_items s)}"
      by (auto simp: set_zip) (metis add_0 nth_upt)
    then show ?thesis by auto
  qed
  then have "(n, m) \<in> set (concat (map (item_arcs s index skip) (zip [0..<length (sn_items s)] (sn_items s)))) \<longleftrightarrow>
      m < length (sn_items s) \<and> (\<exists>x. wi_parent (sn_items s ! m) = Some x \<and> map_of index x = Some n)
      \<or> n < length (sn_items s) \<and> (\<exists>e \<in> set (sn_edges s). e \<notin> skip \<and> is_ordering (e_kind e)
            \<and> e_item e \<in> set (ancestors s (wi_id (sn_items s ! n))) \<and> map_of index (e_depends_on e) = Some m)"
    unfolding row by blast
  then show ?thesis by (auto simp: idx)
qed

lemma build_succs:
  assumes "wf_snap s"
  shows "m \<in> set (succs (Arcs_build s all_kinds skip) n) \<longleftrightarrow>
    n < length (sn_items s) \<and> m < length (sn_items s)
    \<and> depends s all_kinds skip (wi_id (sn_items s ! n)) (wi_id (sn_items s ! m))"
proof -
  let ?nodes = "map wi_id (sn_items s)"
  let ?arcs = "List.map_filter (edge_arc (node_index ?nodes) all_kinds skip) (sn_edges s)
    @ concat (map (item_arcs s (node_index ?nodes) skip) (zip [0..<length (sn_items s)] (sn_items s)))"
  have idx: "map_of (node_index ?nodes) k = Some i \<longleftrightarrow> i < length (sn_items s) \<and> wi_id (sn_items s ! i) = k" for k i
    using node_index_iff[OF snap.ids_distinct[OF assms], of k i] by auto
  have out: "ar_out (Arcs_build s all_kinds skip) = foldl add_arc (replicate (length (sn_items s)) []) ?arcs"
    by (simp add: Arcs_build_def Let_def)
  have "m \<in> set (succs (Arcs_build s all_kinds skip) n) \<longleftrightarrow> n < length (sn_items s) \<and> (n, m) \<in> set ?arcs"
    using add_arcs[of n "replicate (length (sn_items s)) []" m ?arcs]
    by (cases "n < length (sn_items s)") (simp_all add: succs_def nth_opt_def out)
  also have "\<dots> \<longleftrightarrow> n < length (sn_items s) \<and> m < length (sn_items s)
      \<and> depends s all_kinds skip (wi_id (sn_items s ! n)) (wi_id (sn_items s ! m))"
  proof -
    have "snap_item s (wi_id (sn_items s ! i)) = Some (sn_items s ! i)" if "i < length (sn_items s)" for i
      using that assms by (simp add: snap.lookup_Some_iff)
    then have "depends s all_kinds skip (wi_id (sn_items s ! n)) (wi_id (sn_items s ! m)) \<longleftrightarrow>
      (\<exists>e \<in> set (sn_edges s). e \<notin> skip \<and> (all_kinds \<or> is_ordering (e_kind e)) \<and> e_item e = wi_id (sn_items s ! n)
         \<and> e_depends_on e = wi_id (sn_items s ! m))
      \<or> wi_parent (sn_items s ! m) = Some (wi_id (sn_items s ! n))
      \<or> (\<exists>e \<in> set (sn_edges s). e \<notin> skip \<and> is_ordering (e_kind e)
            \<and> e_item e \<in> set (ancestors s (wi_id (sn_items s ! n))) \<and> e_depends_on e = wi_id (sn_items s ! m))"
      if "n < length (sn_items s)" "m < length (sn_items s)"
      using that assms by (simp add: depends_def parent_of_def snap_contains_iff)
    moreover have "(n, m) \<in> set (List.map_filter (edge_arc (node_index ?nodes) all_kinds skip) (sn_edges s)) \<longleftrightarrow>
      n < length (sn_items s) \<and> m < length (sn_items s)
      \<and> (\<exists>e \<in> set (sn_edges s). e \<notin> skip \<and> (all_kinds \<or> is_ordering (e_kind e)) \<and> e_item e = wi_id (sn_items s ! n)
         \<and> e_depends_on e = wi_id (sn_items s ! m))"
      using edge_arcs_iff[OF node_index_iff[OF snap.ids_distinct[OF assms]], of n m all_kinds skip "sn_edges s"]
      by (simp cong: conj_cong)
    moreover note item_arcs_iff[OF assms idx, of n m skip]
    ultimately show ?thesis unfolding set_append Un_iff by blast
  qed
  finally show ?thesis .
qed

lemma depends_closure_rows:
  assumes "wf_snap s" and "(depends s all_kinds skip)\<^sup>+\<^sup>+ x y"
  shows "\<exists>i < length (sn_items s). wi_id (sn_items s ! i) = x" and "\<exists>i < length (sn_items s). wi_id (sn_items s ! i) = y"
  using assms(2) by induction (auto simp: depends_def contains_row[OF assms(1)] in_set_conv_nth)

lemma succs_closure:
  assumes "wf_snap s"
  shows "(\<lambda>n m. m \<in> set (succs (Arcs_build s all_kinds skip) n))\<^sup>+\<^sup>+ i n \<longleftrightarrow>
    i < length (sn_items s) \<and> n < length (sn_items s)
    \<and> (depends s all_kinds skip)\<^sup>+\<^sup>+ (wi_id (sn_items s ! i)) (wi_id (sn_items s ! n))"
proof -
  let ?R = "\<lambda>n m. m \<in> set (succs (Arcs_build s all_kinds skip) n)" and ?id = "\<lambda>n. wi_id (sn_items s ! n)"
  note arc = build_succs[OF assms, of _ all_kinds skip]
  have down: "(depends s all_kinds skip)\<^sup>+\<^sup>+ (?id i) (?id n)" if "?R\<^sup>+\<^sup>+ i n" for i n
    using that by induction (auto simp: arc intro: tranclp.intros)
  have up: "\<exists>n. ?R\<^sup>+\<^sup>+ i n \<and> n < length (sn_items s) \<and> ?id n = y"
    if "(depends s all_kinds skip)\<^sup>+\<^sup>+ x y" "i < length (sn_items s)" "?id i = x" for i x y
    using that
  proof induction
    case (base y)
    then obtain n where "n < length (sn_items s)" "?id n = y"
      by (auto simp: depends_def contains_row[OF assms] in_set_conv_nth)
    with base show ?case by (intro exI[of _ n]) (auto simp: arc)
  next
    case (step y z)
    then obtain m where m: "?R\<^sup>+\<^sup>+ i m" "m < length (sn_items s)" "?id m = y" by blast
    from step obtain n where "n < length (sn_items s)" "?id n = z"
      by (auto simp: depends_def contains_row[OF assms] in_set_conv_nth)
    with step.hyps m have n: "?R m n" "n < length (sn_items s)" "?id n = z" by (simp_all add: arc)
    from tranclp.trancl_into_trancl[OF m(1) n(1)] n(2,3) show ?case by blast
  qed
  have inj: "?id n = ?id m \<Longrightarrow> n = m" if "n < length (sn_items s)" "m < length (sn_items s)" for n m
    using snap.ids_distinct[OF assms] that by (simp add: nth_eq_iff_index_eq[of "map wi_id (sn_items s)", symmetric])
  have "i < length (sn_items s) \<and> n < length (sn_items s)" if "?R\<^sup>+\<^sup>+ i n"
    using that by induction (auto simp: arc)
  then show ?thesis using down up[OF _ _ refl] inj by metis
qed

section \<open>Reachability\<close>

text \<open>\<open>reach\<close> is exactly the transitive closure of the dependency relation: an item reaches another when
  a chain of own edges, parent-to-child steps and edges inherited from ancestors leads to it, on cyclic
  and corrupt graphs too.\<close>

theorem reach_closure:
  assumes "wf_snap s"
  shows "set (reach (Arcs_build s all_kinds skip) k) = {y. (depends s all_kinds skip)\<^sup>+\<^sup>+ k y}"
proof -
  let ?a = "Arcs_build s all_kinds skip"
  let ?id = "\<lambda>n. wi_id (sn_items s ! n)"
  have idx: "map_of (ar_index ?a) x = Some i \<longleftrightarrow> i < length (sn_items s) \<and> ?id i = x" for x i
    using node_index_iff[OF snap.ids_distinct[OF assms], of x i] by (auto simp: Arcs_build_def Let_def)
  have node: "nth_opt (ar_nodes ?a) n = Some y \<longleftrightarrow> n < length (sn_items s) \<and> ?id n = y" for n y
    by (auto simp: Arcs_build_def Let_def nth_opt_def)
  show ?thesis
  proof (cases "map_of (ar_index ?a) k")
    case None
    then have "\<not> snap_contains s k"
      using idx[of k] contains_row[OF assms, of k] by (auto simp: in_set_conv_nth)
    then have "\<not> (depends s all_kinds skip)\<^sup>+\<^sup>+ k y" for y
      by (auto simp: depends_def dest: tranclpD)
    with None show ?thesis by (simp add: reach_def)
  next
    case (Some i)
    then have i: "i < length (sn_items s)" "?id i = k" using idx by auto
    have "set (reach ?a k) = {y. \<exists>n. (\<lambda>n m. m \<in> set (succs ?a n))\<^sup>+\<^sup>+ i n \<and> nth_opt (ar_nodes ?a) n = Some y}"
      using Some by (simp add: reach_def reach_loop_closure)
    also have "\<dots> = {y. \<exists>n < length (sn_items s). (depends s all_kinds skip)\<^sup>+\<^sup>+ k y \<and> ?id n = y}"
      using i by (auto simp: node succs_closure[OF assms])
    also have "\<dots> = {y. (depends s all_kinds skip)\<^sup>+\<^sup>+ k y}"
      using depends_closure_rows(2)[OF assms] by blast
    finally show ?thesis .
  qed
qed

end
