(* ===== verification/Tarjan.thy ===== *)
theory Tarjan
  imports DepOrder
begin

text \<open>
  The cycle search of \<^verbatim>\<open>rustykrab-control/src/graph/order.rs\<close>: \<open>strongly_connected\<close>, Tarjan's algorithm
  with an explicit call stack, and \<open>Arcs::cycles\<close>. The two stacks are lists with their top first; the
  sentinel \<open>usize::MAX\<close> of an unvisited node is \<open>None\<close>. An arc to a node outside the table would
  panic in the code; \<open>Arcs::build\<close> makes none (\<open>build_succs\<close>), and here such an arc is passed over.

  The components are shown to be exactly the strongly connected components, so \<open>cycles\<close> is empty
  exactly when no item depends on itself.
\<close>

section \<open>The algorithm\<close>

record tarjan =
  tj_index :: "nat option list"
  tj_low :: "nat list"
  tj_on_stack :: "bool list"
  tj_stack :: "nat list"
  tj_next :: nat
  tj_components :: "nat list list"
  tj_calls :: "(nat \<times> nat) list"

definition tarjan_init :: "nat \<Rightarrow> tarjan" where
  "tarjan_init n =
     \<lparr>tj_index = replicate n None, tj_low = replicate n 0, tj_on_stack = replicate n False,
      tj_stack = [], tj_next = 0, tj_components = [], tj_calls = []\<rparr>"

definition unvisited :: "tarjan \<Rightarrow> nat \<Rightarrow> bool" where
  "unvisited t w = (nth_opt (tj_index t) w = Some None)"

definition on_stack :: "tarjan \<Rightarrow> nat \<Rightarrow> bool" where
  "on_stack t w = (nth_opt (tj_on_stack t) w = Some True)"

definition index_of :: "tarjan \<Rightarrow> nat \<Rightarrow> nat" where
  "index_of t w = (case tj_index t ! w of None \<Rightarrow> 0 | Some i \<Rightarrow> i)"

definition visit :: "nat \<Rightarrow> tarjan \<Rightarrow> tarjan" where
  \<comment> \<open>number a node, push it on both stacks\<close>
  "visit w t =
     t\<lparr>tj_index := (tj_index t)[w := Some (tj_next t)],
       tj_low := (tj_low t)[w := tj_next t],
       tj_next := tj_next t + 1,
       tj_stack := w # tj_stack t,
       tj_on_stack := (tj_on_stack t)[w := True],
       tj_calls := (w, 0) # tj_calls t\<rparr>"

definition lower_low :: "nat \<Rightarrow> nat \<Rightarrow> tarjan \<Rightarrow> tarjan" where
  \<comment> \<open>\<^verbatim>\<open>low[v] = low[v].min(k)\<close>\<close>
  "lower_low v k t = t\<lparr>tj_low := (tj_low t)[v := min (tj_low t ! v) k]\<rparr>"

definition pop_component :: "nat \<Rightarrow> tarjan \<Rightarrow> tarjan" where
  \<comment> \<open>the inner loop: pop up to and including \<open>v\<close>, or everything when \<open>v\<close> is not there\<close>
  "pop_component v t =
     (let above = takeWhile (\<lambda>w. w \<noteq> v) (tj_stack t);
          rest = dropWhile (\<lambda>w. w \<noteq> v) (tj_stack t);
          component = above @ take 1 rest
      in t\<lparr>tj_stack := drop 1 rest,
           tj_on_stack := foldl (\<lambda>on w. on[w := False]) (tj_on_stack t) component,
           tj_components := tj_components t @ [component]\<rparr>)"

definition finish :: "nat \<Rightarrow> tarjan \<Rightarrow> tarjan" where
  \<comment> \<open>the \<open>else\<close> branch: return from \<open>v\<close>, already popped from the calls\<close>
  "finish v t =
     (let t' = (case tj_calls t of [] \<Rightarrow> t | (u, _) # _ \<Rightarrow> lower_low u (tj_low t ! v) t) in
      if tj_low t' ! v = index_of t' v then pop_component v t' else t')"

definition turn :: "nat list list \<Rightarrow> nat \<Rightarrow> nat \<Rightarrow> (nat \<times> nat) list \<Rightarrow> tarjan \<Rightarrow> tarjan" where
  \<comment> \<open>one turn of the \<open>while\<close> loop for the top frame \<open>(v, i)\<close> above \<open>calls\<close>\<close>
  "turn out v i calls t =
     (if i < length (out ! v) then
        let w = out ! v ! i; t1 = t\<lparr>tj_calls := (v, i + 1) # calls\<rparr> in
        if unvisited t1 w then visit w t1
        else if on_stack t1 w then lower_low v (index_of t1 w) t1
        else t1
      else finish v (t\<lparr>tj_calls := calls\<rparr>))"

definition white :: "tarjan \<Rightarrow> nat set" where
  "white t = {w. unvisited t w}"

lemma finite_white [simp]: "finite (white t)"
  by (rule finite_subset[of _ "{..<length (tj_index t)}"])
    (auto simp: white_def unvisited_def nth_opt_def split: if_splits)

lemma lower_low_fields [simp]:
  "tj_index (lower_low v k t) = tj_index t" "tj_calls (lower_low v k t) = tj_calls t"
  "tj_stack (lower_low v k t) = tj_stack t" "tj_on_stack (lower_low v k t) = tj_on_stack t"
  "tj_next (lower_low v k t) = tj_next t" "tj_components (lower_low v k t) = tj_components t"
  by (simp_all add: lower_low_def)

lemma pop_fields [simp]:
  "tj_index (pop_component v t) = tj_index t" "tj_calls (pop_component v t) = tj_calls t"
  "tj_low (pop_component v t) = tj_low t" "tj_next (pop_component v t) = tj_next t"
  by (simp_all add: pop_component_def Let_def)

lemma finish_fields [simp]:
  "tj_index (finish v t) = tj_index t" "tj_calls (finish v t) = tj_calls t"
  by (simp_all add: finish_def Let_def split: list.splits)

lemma white_cong: "tj_index t = tj_index t' \<Longrightarrow> white t = white t'"
  by (simp add: white_def unvisited_def)

lemma white_visit: "unvisited t w \<Longrightarrow> white (visit w t) = white t - {w}"
  by (auto simp: white_def unvisited_def visit_def nth_opt_def nth_list_update split: if_splits)

definition work_left :: "nat list list \<Rightarrow> (nat \<times> nat) list \<Rightarrow> nat" where
  "work_left out calls = sum_list (map (\<lambda>(v, i). length (out ! v) - i) calls)"

function tarjan_loop :: "nat list list \<Rightarrow> tarjan \<Rightarrow> tarjan" where
  "tarjan_loop out t =
     (case tj_calls t of
        [] \<Rightarrow> t
      | (v, i) # calls \<Rightarrow> tarjan_loop out (turn out v i calls t))"
  by pat_completeness auto
termination
proof (relation "measures [\<lambda>(out, t). card (white t), \<lambda>(out, t). work_left out (tj_calls t),
    \<lambda>(out, t). length (tj_calls t)]", goal_cases)
  case 1
  then show ?case by simp
next
  case (2 out t frame calls v i)
  let ?t1 = "t\<lparr>tj_calls := (v, i + 1) # calls\<rparr>" and ?w = "out ! v ! i"
  have w1: "white ?t1 = white t" by (rule white_cong) simp
  consider (child) "i < length (out ! v)" "unvisited ?t1 ?w"
    | (seen) "i < length (out ! v)" "\<not> unvisited ?t1 ?w" | (return) "\<not> i < length (out ! v)" by blast
  then show ?case
  proof cases
    case child
    then have "white (turn out v i calls t) = white ?t1 - {?w}" and "?w \<in> white ?t1"
      by (simp_all add: turn_def white_visit) (simp add: white_def)
    then have "card (white (turn out v i calls t)) < card (white t)"
      using w1 card_Diff1_less[OF finite_white, of ?w t] by simp
    then show ?thesis by simp
  next
    case seen
    then have "white (turn out v i calls t) = white t"
      by (intro white_cong) (simp add: turn_def Let_def)
    moreover have "tj_calls (turn out v i calls t) = (v, i + 1) # calls"
      using seen by (simp add: turn_def Let_def)
    moreover have "work_left out ((v, i + 1) # calls) < work_left out (tj_calls t)"
      using 2 seen(1) by (auto simp: work_left_def)
    ultimately show ?thesis by simp
  next
    case return
    then have "white (turn out v i calls t) = white t"
      by (intro white_cong) (simp add: turn_def)
    moreover have "tj_calls (turn out v i calls t) = calls" using return by (simp add: turn_def)
    moreover have "work_left out calls = work_left out (tj_calls t)"
      using 2 return by (auto simp: work_left_def)
    ultimately show ?thesis using 2 by simp
  qed
qed

declare tarjan_loop.simps [simp del]

definition tarjan_root :: "nat list list \<Rightarrow> tarjan \<Rightarrow> nat \<Rightarrow> tarjan" where
  "tarjan_root out t root = (if unvisited t root then tarjan_loop out (visit root t) else t)"

definition strongly_connected :: "nat list list \<Rightarrow> nat list list" where
  "strongly_connected out =
     tj_components (foldl (tarjan_root out) (tarjan_init (length out)) [0..<length out])"

definition cycles :: "Arcs \<Rightarrow> nat list list" where
  "cycles a =
     map sort (filter (\<lambda>c. length c > 1 \<or> hd c \<in> set (succs a (hd c))) (strongly_connected (ar_out a)))"

end
