(* ===== verification/TarjanLaws.thy ===== *)
theory TarjanLaws
  imports Tarjan
begin

text \<open>
  Correctness of the cycle search. The invariant of Tarjan's algorithm is stated on the loop's state
  (the node stack, the call stack, numbers and low links) and kept by each of its turns: visiting a
  node, passing an arc to a visited node, and returning with or without a component. The locale
  \<open>arc_table\<close> holds the one thing the search relies on, that arcs stay inside the table; it is
  interpreted on the table \<open>Arcs_build\<close> makes of any snapshot.
\<close>

section \<open>Reachability and components\<close>

definition arc :: "nat list list \<Rightarrow> nat \<Rightarrow> nat \<Rightarrow> bool" where
  "arc out v w = (v < length out \<and> w \<in> set (out ! v))"

abbreviation leads :: "nat list list \<Rightarrow> nat \<Rightarrow> nat \<Rightarrow> bool" where
  "leads out \<equiv> (arc out)\<^sup>*\<^sup>*"

definition scc :: "nat list list \<Rightarrow> nat set \<Rightarrow> bool" where
  "scc out C = (C \<noteq> {} \<and> (\<forall>u \<in> C. C = {w. leads out u w \<and> leads out w u}))"

section \<open>The invariant\<close>

definition seen :: "tarjan \<Rightarrow> nat \<Rightarrow> bool" where
  "seen t v = (v < length (tj_index t) \<and> tj_index t ! v \<noteq> None)"

definition settled :: "tarjan \<Rightarrow> nat set" where
  "settled t = set (concat (tj_components t))"

definition grey :: "tarjan \<Rightarrow> nat set" where
  "grey t = fst ` set (tj_calls t)"

abbreviation low :: "tarjan \<Rightarrow> nat \<Rightarrow> nat" where
  "low t v \<equiv> tj_low t ! v"

abbreviation newer :: "tarjan \<Rightarrow> nat \<Rightarrow> nat \<Rightarrow> bool" where
  "newer t a b \<equiv> index_of t b < index_of t a"

definition sizes :: "nat list list \<Rightarrow> tarjan \<Rightarrow> bool" where
  "sizes out t =
     (length (tj_index t) = length out \<and> length (tj_low t) = length out
      \<and> length (tj_on_stack t) = length out)"

definition stacks :: "nat list list \<Rightarrow> tarjan \<Rightarrow> bool" where
  "stacks out t =
     ((\<forall>w < length out. tj_on_stack t ! w = (w \<in> set (tj_stack t)))
      \<and> sorted_wrt (newer t) (tj_stack t) \<and> sorted_wrt (newer t) (map fst (tj_calls t))
      \<and> grey t \<subseteq> set (tj_stack t)
      \<and> (\<forall>v. seen t v \<longleftrightarrow> v \<in> set (tj_stack t) \<or> v \<in> settled t)
      \<and> set (tj_stack t) \<inter> settled t = {}
      \<and> (\<forall>v \<in> set (tj_stack t). index_of t v < tj_next t))"

text \<open>Each frame below the top waits at the arc to the node above it.\<close>

fun chained :: "nat list list \<Rightarrow> (nat \<times> nat) list \<Rightarrow> bool" where
  "chained out [] = True"
| "chained out [(v, i)] = (i \<le> length (out ! v))"
| "chained out ((v, i) # (u, j) # calls) =
     (i \<le> length (out ! v) \<and> 0 < j \<and> out ! u ! (j - 1) = v \<and> chained out ((u, j) # calls))"

text \<open>The arcs whose search is over: all but the one the frame waits at.\<close>

definition handled :: "nat list list \<Rightarrow> (nat \<times> nat) list \<Rightarrow> nat \<Rightarrow> nat set" where
  "handled out calls y =
     (case calls of
        [] \<Rightarrow> set (out ! y)
      | (v, i) # cs \<Rightarrow>
          if y = v then set (take i (out ! v))
          else (case map_of cs y of
                  Some j \<Rightarrow> set (take (j - 1) (out ! y))
                | None \<Rightarrow> set (out ! y)))"

definition owner :: "tarjan \<Rightarrow> nat \<Rightarrow> nat \<Rightarrow> bool" where
  "owner t y g =
     (g \<in> grey t \<and> index_of t g \<le> index_of t y
      \<and> (\<forall>g' \<in> grey t. index_of t g' \<le> index_of t y \<longrightarrow> index_of t g' \<le> index_of t g))"

definition explored :: "nat list list \<Rightarrow> tarjan \<Rightarrow> bool" where
  "explored out t =
     ((\<forall>v w. seen t v \<longrightarrow> w \<in> handled out (tj_calls t) v \<longrightarrow> seen t w)
      \<and> (\<forall>v w. v \<in> settled t \<longrightarrow> arc out v w \<longrightarrow> w \<in> settled t))"

definition linked :: "nat list list \<Rightarrow> tarjan \<Rightarrow> bool" where
  "linked out t =
     ((\<forall>v \<in> set (tj_stack t). low t v \<le> index_of t v
         \<and> (\<exists>x \<in> set (tj_stack t). index_of t x = low t v \<and> leads out v x))
      \<and> (\<forall>y \<in> set (tj_stack t). \<exists>g \<in> grey t. index_of t g \<le> index_of t y \<and> leads out y g)
      \<and> (\<forall>g \<in> grey t. \<forall>y \<in> set (tj_stack t). index_of t g \<le> index_of t y \<longrightarrow> leads out g y))"

definition bounded :: "nat list list \<Rightarrow> tarjan \<Rightarrow> bool" where
  "bounded out t =
     (\<forall>y \<in> set (tj_stack t). \<forall>z \<in> set (tj_stack t). \<forall>g.
        z \<in> handled out (tj_calls t) y \<longrightarrow> owner t y g \<longrightarrow> low t g \<le> index_of t z)"

definition emitted :: "nat list list \<Rightarrow> tarjan \<Rightarrow> bool" where
  "emitted out t = ((\<forall>c \<in> set (tj_components t). scc out (set c)) \<and> distinct (concat (tj_components t)))"

definition tarjan_inv :: "nat list list \<Rightarrow> tarjan \<Rightarrow> bool" where
  "tarjan_inv out t =
     (sizes out t \<and> stacks out t \<and> chained out (tj_calls t) \<and> explored out t \<and> linked out t
      \<and> bounded out t \<and> emitted out t)"

section \<open>Reading the invariant\<close>

lemma sorted_newer_distinct: "sorted_wrt (newer t) xs \<Longrightarrow> distinct xs"
  by (induction xs) auto

lemma stack_index_inj:
  assumes "sorted_wrt (newer t) xs" "a \<in> set xs" "b \<in> set xs" "index_of t a = index_of t b"
  shows "a = b"
  using assms by (induction xs) auto

lemma chained_tl: "chained out (f # calls) \<Longrightarrow> chained out calls"
  by (cases f; cases calls) auto

lemma chained_top: "chained out ((v, i) # calls) \<Longrightarrow> i \<le> length (out ! v)"
  by (cases calls) auto

lemma seen_unvisited: "w < length (tj_index t) \<Longrightarrow> unvisited t w \<longleftrightarrow> \<not> seen t w"
  by (auto simp: unvisited_def seen_def nth_opt_def)

lemma index_visit [simp]:
  "w < length (tj_index t) \<Longrightarrow> index_of (visit w t) v = (if v = w then tj_next t else index_of t v)"
  by (simp add: index_of_def visit_def)

lemma seen_visit [simp]:
  "w < length (tj_index t) \<Longrightarrow> seen (visit w t) v \<longleftrightarrow> v = w \<or> seen t v"
  by (auto simp: seen_def visit_def nth_list_update)

lemma low_visit [simp]:
  "w < length (tj_low t) \<Longrightarrow> low (visit w t) v = (if v = w then tj_next t else low t v)"
  by (simp add: visit_def)

lemma visit_fields [simp]:
  "tj_stack (visit w t) = w # tj_stack t" "tj_calls (visit w t) = (w, 0) # tj_calls t"
  "tj_components (visit w t) = tj_components t" "settled (visit w t) = settled t"
  "tj_next (visit w t) = Suc (tj_next t)"
  by (simp_all add: visit_def settled_def)

lemma low_lower_low [simp]:
  "v < length (tj_low t) \<Longrightarrow> low (lower_low v k t) u = (if u = v then min (low t v) k else low t u)"
  by (simp add: lower_low_def)

lemma length_low_lower_low [simp]: "length (tj_low (lower_low v k t)) = length (tj_low t)"
  by (simp add: lower_low_def)

lemma state_cong [simp]:
  "index_of (lower_low v k t) = index_of t" "seen (lower_low v k t) = seen t"
  "settled (lower_low v k t) = settled t"
  "index_of (t\<lparr>tj_calls := cs\<rparr>) = index_of t" "seen (t\<lparr>tj_calls := cs\<rparr>) = seen t"
  "settled (t\<lparr>tj_calls := cs\<rparr>) = settled t"
  by (auto simp: fun_eq_iff index_of_def seen_def settled_def)

lemma sorted_visit:
  assumes "sorted_wrt (newer t) xs" "w \<notin> set xs" "w < length (tj_index t)"
  shows "sorted_wrt (newer (visit w t)) xs"
  by (rule sorted_wrt_mono_rel[OF _ assms(1)]) (use assms in auto)

lemma handled_push:
  assumes "y \<noteq> w"
  shows "handled out ((w, 0) # (v, Suc i) # cs) y
    = (if y = v then set (take i (out ! v)) else handled out ((v, i) # cs) y)"
  using assms by (simp add: handled_def)

lemma owner_top:
  assumes "tj_calls t = (v, i) # cs" and "sorted_wrt (newer t) (map fst (tj_calls t))"
    and "index_of t v \<le> index_of t y"
  shows "owner t y g \<longleftrightarrow> g = v"
proof -
  have less: "index_of t g' < index_of t v" if "g' \<in> fst ` set cs" for g' using assms(1,2) that by auto
  show ?thesis
  proof
    assume "owner t y g"
    then have "g \<in> grey t" and "index_of t v \<le> index_of t g"
      using assms(1,3) by (auto simp: owner_def grey_def)
    then show "g = v" using less[of g] assms(1) by (fastforce simp: grey_def)
  next
    assume "g = v"
    moreover have "index_of t g' \<le> index_of t v" if "g' \<in> grey t" for g'
      using less[of g'] that unfolding assms(1) grey_def by (cases "g' = v") (auto simp: less_imp_le)
    moreover have "v \<in> grey t" using assms(1) by (simp add: grey_def)
    ultimately show "owner t y g" using assms(3) by (auto simp: owner_def)
  qed
qed

section \<open>Turns keep the invariant\<close>

locale arc_table =
  fixes out :: "nat list list"
  assumes in_range: "v < length out \<Longrightarrow> w \<in> set (out ! v) \<Longrightarrow> w < length out"
begin

lemma stack_in_range: "tarjan_inv out t \<Longrightarrow> v \<in> set (tj_stack t) \<Longrightarrow> v < length out"
  by (auto simp: tarjan_inv_def stacks_def sizes_def seen_def)

lemma no_calls_empty_stack: "tarjan_inv out t \<Longrightarrow> tj_calls t = [] \<Longrightarrow> tj_stack t = []"
  by (cases "tj_stack t") (auto simp: tarjan_inv_def linked_def grey_def)

lemma visit_child:
  assumes inv: "tarjan_inv out t" and calls: "tj_calls t = (v, i) # cs"
    and i: "i < length (out ! v)" "w = out ! v ! i" and w: "\<not> seen t w"
  shows "tarjan_inv out (visit w (t\<lparr>tj_calls := (v, Suc i) # cs\<rparr>))"
proof -
  let ?t = "visit w (t\<lparr>tj_calls := (v, Suc i) # cs\<rparr>)"
  have sz: "sizes out t" and st: "stacks out t" and ch: "chained out (tj_calls t)"
    and ex: "explored out t" and li: "linked out t" and bo: "bounded out t" and em: "emitted out t"
    using inv by (auto simp: tarjan_inv_def)
  have v: "v \<in> set (tj_stack t)" using st calls by (auto simp: stacks_def grey_def)
  then have vn: "v < length out" using stack_in_range[OF inv] by blast
  have wn: "w < length out" using in_range[OF vn, of w] i by simp
  have arc: "arc out v w" using vn i by (simp add: arc_def)
  have wS: "w \<notin> set (tj_stack t)" "w \<notin> settled t" using st w by (auto simp: stacks_def)
  have len: "w < length (tj_index t)" "w < length (tj_low t)" using sz wn by (simp_all add: sizes_def)
  have old: "index_of t y < tj_next t" if "y \<in> set (tj_stack t)" for y
    using st that by (auto simp: stacks_def)
  have greyS: "g \<in> set (tj_stack t)" if "g \<in> grey t" for g using st that by (auto simp: stacks_def)
  have greyeq: "grey ?t = insert w (grey t)" using calls by (simp add: grey_def)
  have top: "index_of t g \<le> index_of t v" if "g \<in> grey t" for g
    using st calls that by (auto simp: stacks_def grey_def less_imp_le)
  have take: "set (take (Suc i) (out ! v)) = insert w (set (take i (out ! v)))"
    using i by (simp add: take_Suc_conv_app_nth)
  have 1: "sizes out ?t" using sz by (simp add: sizes_def visit_def)
  have 2: "stacks out ?t"
  proof -
    have "tj_on_stack ?t ! u = (u \<in> set (tj_stack ?t))" if "u < length out" for u
      using st sz that wn by (cases "u = w") (auto simp: stacks_def sizes_def visit_def)
    moreover have "sorted_wrt (newer ?t) (tj_stack ?t)"
    proof -
      have "sorted_wrt (newer ?t) (tj_stack t)"
        by (rule sorted_visit) (use st wS len in \<open>simp_all add: stacks_def\<close>)
      moreover have "newer ?t w y" if "y \<in> set (tj_stack t)" for y using old[OF that] that len wS by auto
      ultimately show ?thesis by simp
    qed
    moreover have "sorted_wrt (newer ?t) (map fst (tj_calls ?t))"
    proof -
      have "sorted_wrt (newer (t\<lparr>tj_calls := (v, Suc i) # cs\<rparr>)) (v # map fst cs)"
        using st calls by (simp add: stacks_def)
      moreover have "w \<notin> set (v # map fst cs)" using greyS wS calls by (auto simp: grey_def)
      ultimately have "sorted_wrt (newer ?t) (v # map fst cs)" using len by (intro sorted_visit) auto
      moreover have "newer ?t w g" if "g \<in> set (v # map fst cs)" for g
        using old[of g] greyS[of g] that calls len wS by (auto simp: grey_def)
      ultimately show ?thesis by simp
    qed
    moreover have "grey ?t \<subseteq> set (tj_stack ?t)" unfolding greyeq using greyS by auto
    moreover have "\<forall>u. seen ?t u \<longleftrightarrow> u \<in> set (tj_stack ?t) \<or> u \<in> settled ?t"
      using st len by (auto simp: stacks_def)
    moreover have "set (tj_stack ?t) \<inter> settled ?t = {}" using st wS by (auto simp: stacks_def)
    moreover have "\<forall>u \<in> set (tj_stack ?t). index_of ?t u < tj_next ?t"
      using old len by (auto simp: less_Suc_eq)
    ultimately show ?thesis by (simp add: stacks_def)
  qed
  have 3: "chained out (tj_calls ?t)" using ch i calls by (cases cs) auto
  have 4: "explored out ?t"
  proof -
    have "seen ?t z" if "seen ?t y" "z \<in> handled out (tj_calls ?t) y" for y z
      using that ex i len calls by (cases "y = w") (auto simp: explored_def handled_push handled_def split: if_splits)
    then show ?thesis using ex by (auto simp: explored_def)
  qed
  have 5: "linked out ?t"
  proof -
    have "low ?t y \<le> index_of ?t y
        \<and> (\<exists>x \<in> set (tj_stack ?t). index_of ?t x = low ?t y \<and> leads out y x)"
      if "y \<in> set (tj_stack ?t)" for y
      using that li len wS by (cases "y = w") (fastforce simp: linked_def)+
    moreover have "\<exists>g \<in> grey ?t. index_of ?t g \<le> index_of ?t y \<and> leads out y g"
      if "y \<in> set (tj_stack ?t)" for y
    proof (cases "y = w")
      case False
      with that li obtain g where "g \<in> grey t" "index_of t g \<le> index_of t y" "leads out y g"
        by (auto simp: linked_def)
      moreover have "g \<noteq> w" using greyS[OF \<open>g \<in> grey t\<close>] wS by auto
      ultimately show ?thesis unfolding greyeq using False len by (intro bexI[of _ g]) auto
    qed (simp add: greyeq)
    moreover have "leads out g y"
      if g: "g \<in> grey ?t" and y: "y \<in> set (tj_stack ?t)" and le: "index_of ?t g \<le> index_of ?t y" for g y
    proof (cases "g = w")
      case True
      then have "y = w" using y le old[of y] len by (auto split: if_splits)
      with True show ?thesis by simp
    next
      case False
      then have gt: "g \<in> grey t" using g unfolding greyeq by blast
      show ?thesis
      proof (cases "y = w")
        case True
        have "leads out g v" using li gt v top[OF gt] by (auto simp: linked_def)
        then show ?thesis using arc True by (simp add: rtranclp.rtrancl_into_rtrancl)
      next
        case y': False
        then show ?thesis using li gt y le len False by (auto simp: linked_def)
      qed
    qed
    ultimately show ?thesis by (auto simp: linked_def)
  qed
  have 6: "bounded out ?t"
    unfolding bounded_def
  proof (intro ballI allI impI)
    fix y z g
    assume y: "y \<in> set (tj_stack ?t)" and z: "z \<in> set (tj_stack ?t)"
      and h: "z \<in> handled out (tj_calls ?t) y" and o: "owner ?t y g"
    have yw: "y \<noteq> w" using h by (auto simp: handled_def)
    have h': "z \<in> handled out (tj_calls t) y" using h yw calls by (auto simp: handled_push handled_def split: if_splits)
    then have zw: "z \<noteq> w" using ex w y yw st by (auto simp: explored_def stacks_def)
    have gw: "g \<noteq> w" using o yw y old[of y] len by (auto simp: owner_def)
    have "owner t y g"
      using o yw gw len greyS wS unfolding owner_def greyeq by (auto split: if_splits)
    then show "low ?t g \<le> index_of ?t z"
      using bo y z h' yw zw gw len by (auto simp: bounded_def)
  qed
  have 7: "emitted out ?t" using em by (simp add: emitted_def)
  from 1 2 3 4 5 6 7 show ?thesis by (simp add: tarjan_inv_def)
qed

lemma visit_root:
  assumes inv: "tarjan_inv out t" and calls: "tj_calls t = []" and w: "w < length out" "\<not> seen t w"
  shows "tarjan_inv out (visit w t)"
proof -
  have S: "tj_stack t = []" using no_calls_empty_stack[OF inv calls] .
  have sz: "sizes out t" and st: "stacks out t" and ex: "explored out t" and em: "emitted out t"
    using inv by (auto simp: tarjan_inv_def)
  have len: "w < length (tj_index t)" "w < length (tj_low t)" "w < length (tj_on_stack t)"
    using sz w by (simp_all add: sizes_def)
  have wS: "w \<notin> settled t" using st w by (auto simp: stacks_def)
  have "sizes out (visit w t)" using sz by (simp add: sizes_def visit_def)
  moreover have "stacks out (visit w t)"
    using st S calls len wS by (auto simp: stacks_def visit_def grey_def settled_def nth_list_update seen_def index_of_def)
  moreover have "explored out (visit w t)"
    using ex calls len by (auto simp: explored_def handled_def split: if_splits)
  moreover have "linked out (visit w t)" using S calls len by (simp add: linked_def grey_def)
  moreover have "bounded out (visit w t)" using S calls by (simp add: bounded_def handled_def)
  ultimately show ?thesis using em calls by (simp add: tarjan_inv_def emitted_def)
qed

lemma handled_advance:
  assumes "i < length (out ! v)" and "w = out ! v ! i"
  shows "handled out ((v, Suc i) # cs) y = (if y = v then insert w (handled out ((v, i) # cs) v)
     else handled out ((v, i) # cs) y)"
  using assms by (simp add: handled_def take_Suc_conv_app_nth)

text \<open>Passing an arc to a visited node: the low link takes the node's number while it is on the stack.\<close>

lemma pass_arc:
  assumes inv: "tarjan_inv out t" and calls: "tj_calls t = (v, i) # cs"
    and i: "i < length (out ! v)" "w = out ! v ! i" and w: "seen t w"
    and t': "t' = (if w \<in> set (tj_stack t) then lower_low v (index_of t w) else id)
      (t\<lparr>tj_calls := (v, Suc i) # cs\<rparr>)"
  shows "tarjan_inv out t'"
proof -
  have sz: "sizes out t" and st: "stacks out t" and ch: "chained out (tj_calls t)"
    and ex: "explored out t" and li: "linked out t" and bo: "bounded out t" and em: "emitted out t"
    using inv by (auto simp: tarjan_inv_def)
  have v: "v \<in> set (tj_stack t)" using st calls by (auto simp: stacks_def grey_def)
  then have vn: "v < length out" using stack_in_range[OF inv] by blast
  have len: "v < length (tj_low t)" using sz vn by (simp add: sizes_def)
  have arc: "arc out v w" using vn i by (simp add: arc_def)
  have f: "index_of t' = index_of t" "seen t' = seen t" "settled t' = settled t"
    "tj_stack t' = tj_stack t" "tj_calls t' = (v, Suc i) # cs" "tj_components t' = tj_components t"
    "tj_on_stack t' = tj_on_stack t" "tj_next t' = tj_next t" "grey t' = grey t"
    using t' calls by (auto simp: grey_def)
  have low: "low t' u = (if u = v \<and> w \<in> set (tj_stack t) then min (low t v) (index_of t w) else low t u)" for u
    using t' len by auto
  have own: "owner t' y g = owner t y g" for y g by (simp add: owner_def f)
  have h: "handled out ((v, Suc i) # cs) y = (if y = v then insert w (handled out (tj_calls t) v)
      else handled out (tj_calls t) y)" for y
    unfolding calls by (rule handled_advance[OF i])
  have "sizes out t'" using sz t' by (simp add: sizes_def)
  moreover have "stacks out t'" using st calls by (simp add: stacks_def f)
  moreover have "chained out (tj_calls t')" using ch calls i by (cases cs) (auto simp: f)
  moreover have "explored out t'"
    using ex w by (auto simp: explored_def h f split: if_splits)
  moreover have "linked out t'"
  proof -
    have "low t' y \<le> index_of t y \<and> (\<exists>x \<in> set (tj_stack t). index_of t x = low t' y \<and> leads out y x)"
      if y: "y \<in> set (tj_stack t)" for y
    proof (cases "y = v \<and> w \<in> set (tj_stack t) \<and> index_of t w < low t v")
      case True
      then have "low t' y = index_of t w" by (simp add: low)
      moreover have "low t v \<le> index_of t v" using li v by (simp add: linked_def)
      moreover have "leads out v w" using arc by blast
      ultimately show ?thesis using True by auto
    next
      case False
      then have "low t' y = low t y" by (auto simp: low min_def)
      then show ?thesis using li y by (simp add: linked_def)
    qed
    then show ?thesis using li by (simp add: linked_def f)
  qed
  moreover have "bounded out t'"
    unfolding bounded_def f own
  proof (intro ballI allI impI)
    fix y z g
    assume y: "y \<in> set (tj_stack t)" and z: "z \<in> set (tj_stack t)"
      and hz: "z \<in> handled out ((v, Suc i) # cs) y" and o: "owner t y g"
    have le: "low t' g \<le> low t g" by (simp add: low)
    consider "z \<in> handled out (tj_calls t) y" | "y = v" "z = w"
      using hz h[of y] by (auto split: if_splits)
    then show "low t' g \<le> index_of t z"
    proof cases
      case 1
      then have "low t g \<le> index_of t z" using bo y z o by (auto simp: bounded_def)
      then show ?thesis using le by simp
    next
      case 2
      then have "g = v" using o owner_top[OF calls, of v] st by (simp add: stacks_def)
      then show ?thesis using 2 z by (simp add: low)
    qed
  qed
  ultimately show ?thesis using em by (simp add: tarjan_inv_def emitted_def f)
qed

lemma handled_return:
  assumes "chained out ((v, length (out ! v)) # cs)" and "v \<notin> fst ` set cs"
  shows "handled out cs y = (case cs of (u, _) # _ \<Rightarrow> if y = u then insert v (handled out ((v, length (out ! v)) # cs) u)
       else handled out ((v, length (out ! v)) # cs) y
     | [] \<Rightarrow> handled out ((v, length (out ! v)) # cs) y)"
proof (cases cs)
  case Nil
  then show ?thesis by (simp add: handled_def)
next
  case (Cons f cs')
  obtain u j where f: "f = (u, j)" by (cases f)
  have j: "0 < j" "out ! u ! (j - 1) = v" "j \<le> length (out ! u)"
    using assms(1) Cons f chained_top[of out u j cs'] by (auto dest: chained_tl)
  then have "take j (out ! u) = take (j - 1) (out ! u) @ [v]"
    by (metis One_nat_def Suc_pred less_le_trans lessI take_Suc_conv_app_nth)
  moreover have "u \<noteq> v" and "map_of cs' v = None" using assms(2) Cons f by (auto simp: map_of_eq_None_iff)
  ultimately show ?thesis using Cons f by (auto simp: handled_def split: option.splits)
qed

lemma top_frame:
  assumes inv: "tarjan_inv out t" and calls: "tj_calls t = (v, i) # cs" and i: "\<not> i < length (out ! v)"
  shows "i = length (out ! v)" and "v \<in> set (tj_stack t)" and "v < length out"
    and "v \<notin> fst ` set cs" and "\<And>g. g \<in> fst ` set cs \<Longrightarrow> index_of t g < index_of t v"
    and "grey t = insert v (fst ` set cs)" and "\<And>y g. index_of t v \<le> index_of t y \<Longrightarrow> owner t y g = (g = v)"
proof -
  have st: "stacks out t" and ch: "chained out (tj_calls t)" using inv by (auto simp: tarjan_inv_def)
  show "i = length (out ! v)" using ch calls i chained_top[of out v i cs] by simp
  show "v \<in> set (tj_stack t)" using st calls by (auto simp: stacks_def grey_def)
  then show "v < length out" using stack_in_range[OF inv] by blast
  show less: "index_of t g < index_of t v" if "g \<in> fst ` set cs" for g
    using st calls that by (auto simp: stacks_def)
  then show "v \<notin> fst ` set cs" by blast
  show "grey t = insert v (fst ` set cs)" using calls by (simp add: grey_def)
  show "owner t y g = (g = v)" if "index_of t v \<le> index_of t y" for y g
    using owner_top[OF calls _ that] st by (simp add: stacks_def)
qed

text \<open>Returning while the low link points below: the caller inherits the link.\<close>

lemma return_open:
  assumes inv: "tarjan_inv out t" and calls: "tj_calls t = (v, i) # cs" and i: "\<not> i < length (out ! v)"
    and open': "low t v < index_of t v"
  shows "\<exists>u j cs'. cs = (u, j) # cs' \<and> tarjan_inv out (lower_low u (low t v) (t\<lparr>tj_calls := cs\<rparr>))"
proof -
  note top = top_frame[OF inv calls i]
  have sz: "sizes out t" and st: "stacks out t" and ch: "chained out (tj_calls t)"
    and ex: "explored out t" and li: "linked out t" and bo: "bounded out t" and em: "emitted out t"
    using inv by (auto simp: tarjan_inv_def)
  obtain x where x: "x \<in> set (tj_stack t)" "index_of t x = low t v" "leads out v x"
    using li top(2) by (auto simp: linked_def)
  obtain g0 where g0: "g0 \<in> grey t" "index_of t g0 \<le> index_of t x" "leads out x g0"
    using li x(1) by (auto simp: linked_def)
  then have g0cs: "g0 \<in> fst ` set cs" using open' x(2) top(6) by auto
  then obtain u j cs' where cs: "cs = (u, j) # cs'" by (cases cs) auto
  let ?t = "lower_low u (low t v) (t\<lparr>tj_calls := cs\<rparr>)"
  have grey: "grey ?t = fst ` set cs" by (simp add: grey_def)
  have u: "u \<in> grey t" "u \<in> set (tj_stack t)" "index_of t u < index_of t v" "u \<noteq> v"
    using top(4-6) st cs by (auto simp: stacks_def)
  then have len: "u < length (tj_low t)" using sz stack_in_range[OF inv u(2)] by (simp add: sizes_def)
  have low: "low ?t y = (if y = u then min (low t u) (low t v) else low t y)" for y using len by simp
  have uv: "leads out u v" using li u top(2) by (auto simp: linked_def)
  have utop: "owner ?t y g = (g = u)" if "index_of t u \<le> index_of t y" for y g
    using owner_top[of ?t u j cs' y g] st calls cs that by (simp add: stacks_def)
  have lowv: "low t v \<le> index_of t v" using open' by simp
  have h: "handled out cs y = (if y = u then insert v (handled out (tj_calls t) u) else handled out (tj_calls t) y)" for y
    using handled_return[of v cs y] ch calls cs top(1,4) by simp
  have "sizes out ?t" using sz by (simp add: sizes_def)
  moreover have "stacks out ?t" using st calls top(6) grey by (simp add: stacks_def)
  moreover have "chained out (tj_calls ?t)" using ch calls chained_tl by auto
  moreover have "explored out ?t"
    using ex top(2) st by (auto simp: explored_def h stacks_def split: if_splits)
  moreover have "linked out ?t"
  proof -
    have "low ?t y \<le> index_of t y \<and> (\<exists>x \<in> set (tj_stack t). index_of t x = low ?t y \<and> leads out y x)"
      if y: "y \<in> set (tj_stack t)" for y
    proof (cases "y = u \<and> low t v < low t u")
      case True
      then have "low ?t y = low t v" by (simp add: low)
      moreover have "low t u \<le> index_of t u" using li u(2) by (simp add: linked_def)
      moreover have "leads out u x" using uv x(3) by simp
      ultimately show ?thesis using True x by auto
    next
      case False
      then have "low ?t y = low t y" by (auto simp: low)
      then show ?thesis using li y by (simp add: linked_def)
    qed
    moreover have "\<exists>g \<in> fst ` set cs. index_of t g \<le> index_of t y \<and> leads out y g"
      if y: "y \<in> set (tj_stack t)" for y
    proof -
      obtain g where g: "g \<in> grey t" "index_of t g \<le> index_of t y" "leads out y g"
        using li y by (auto simp: linked_def)
      show ?thesis
      proof (cases "g = v")
        case True
        then have "leads out y g0" using g(3) x(3) g0(3) by simp
        moreover have "index_of t g0 \<le> index_of t y" using g0(2) x(2) open' g(2) True by simp
        ultimately show ?thesis using g0cs by blast
      next
        case False
        then show ?thesis using g top(6) by blast
      qed
    qed
    ultimately show ?thesis using li top(6) unfolding linked_def grey by auto
  qed
  moreover have "bounded out ?t"
    unfolding bounded_def
  proof (intro ballI allI impI)
    fix y z g
    assume y: "y \<in> set (tj_stack ?t)" and z: "z \<in> set (tj_stack ?t)"
      and hz: "z \<in> handled out (tj_calls ?t) y" and o: "owner ?t y g"
    show "low ?t g \<le> index_of ?t z"
    proof (cases "y = u \<and> z = v")
      case True
      then have "g = u" using utop[of u g] o by simp
      then show ?thesis using True lowv by (simp add: low)
    next
      case False
      then have hz': "z \<in> handled out (tj_calls t) y" using hz h[of y] by (auto split: if_splits)
      show ?thesis
      proof (cases "index_of t v \<le> index_of t y")
        case True
        then have "low t v \<le> index_of t z" using bo y z hz' top(7)[of y v] by (auto simp: bounded_def)
        moreover have "g = u" using utop[of y g] o True u(3) by simp
        ultimately show ?thesis by (simp add: low)
      next
        case False
        then have "owner t y g" using o top(6) unfolding owner_def grey by auto
        then have "low t g \<le> index_of t z" using bo y z hz' by (auto simp: bounded_def)
        then show ?thesis using low[of g] by (auto simp: min_def split: if_splits)
      qed
    qed
  qed
  ultimately have "tarjan_inv out ?t" using em by (simp add: tarjan_inv_def emitted_def)
  then show ?thesis using cs by blast
qed

text \<open>The stack splits at the returning node: what lies above it has a greater number.\<close>

lemma stack_split:
  assumes inv: "tarjan_inv out t" and v: "v \<in> set (tj_stack t)"
  obtains over below where "tj_stack t = over @ v # below" and "v \<notin> set over"
    and "set (over @ [v]) = {y \<in> set (tj_stack t). index_of t v \<le> index_of t y}"
    and "set below = {y \<in> set (tj_stack t). index_of t y < index_of t v}"
    and "distinct (over @ v # below)"
proof -
  obtain over below where s: "tj_stack t = over @ v # below" "v \<notin> set over"
    using split_list_first[OF v] by blast
  have st: "sorted_wrt (newer t) (over @ v # below)" using inv s by (simp add: tarjan_inv_def stacks_def)
  then have "\<forall>y \<in> set over. index_of t v < index_of t y" "\<forall>y \<in> set below. index_of t y < index_of t v"
    by (auto simp: sorted_wrt_append)
  then show thesis using that[OF s] s sorted_newer_distinct[OF st] by fastforce
qed

lemma pop_split:
  assumes "tj_stack t = over @ v # below" and "v \<notin> set over"
  shows "pop_component v t = t\<lparr>tj_stack := below,
      tj_on_stack := foldl (\<lambda>on w. on[w := False]) (tj_on_stack t) (over @ [v]),
      tj_components := tj_components t @ [over @ [v]]\<rparr>"
proof -
  have "takeWhile (\<lambda>w. w \<noteq> v) (over @ v # below) = over"
    "dropWhile (\<lambda>w. w \<noteq> v) (over @ v # below) = v # below"
    using assms(2) by (induction over) auto
  then show ?thesis by (simp add: pop_component_def assms(1))
qed

lemma foldl_clear:
  "w < length on \<Longrightarrow> foldl (\<lambda>on w. on[w := False]) on cs ! w = (on ! w \<and> w \<notin> set cs)"
proof (induction cs arbitrary: on)
  case (Cons a cs)
  then show ?case using Cons.IH[of "on[a := False]"] by (cases "a = w") auto
qed simp

lemma length_foldl_clear [simp]: "length (foldl (\<lambda>on w. on[w := False]) on cs) = length on"
  by (induction cs arbitrary: on) simp_all

text \<open>When the low link is the node's own number, nothing above it leads below it.\<close>

lemma segment_closed:
  assumes inv: "tarjan_inv out t" and calls: "tj_calls t = (v, i) # cs" and i: "\<not> i < length (out ! v)"
    and closed: "low t v = index_of t v"
    and y: "y \<in> set (tj_stack t)" "index_of t v \<le> index_of t y" and z: "arc out y z"
  shows "z \<in> settled t \<or> z \<in> set (tj_stack t) \<and> index_of t v \<le> index_of t z"
proof -
  note top = top_frame[OF inv calls i]
  have st: "stacks out t" and ex: "explored out t" and bo: "bounded out t"
    using inv by (auto simp: tarjan_inv_def)
  have "y = v \<or> map_of cs y = None"
    using top(5)[of y] y(2) by (cases "map_of cs y") (force dest!: map_of_SomeD)+
  then have h: "z \<in> handled out (tj_calls t) y" using z top(1) calls by (auto simp: handled_def arc_def)
  have "seen t z" using ex h y st by (auto simp: explored_def stacks_def)
  moreover have "low t v \<le> index_of t z" if "z \<in> set (tj_stack t)"
    using bo h y that top(7)[of y v] by (auto simp: bounded_def)
  ultimately show ?thesis using closed st by (auto simp: stacks_def)
qed

lemma segment_scc:
  assumes inv: "tarjan_inv out t" and calls: "tj_calls t = (v, i) # cs" and i: "\<not> i < length (out ! v)"
    and closed: "low t v = index_of t v"
  shows "scc out {y \<in> set (tj_stack t). index_of t v \<le> index_of t y}" (is "scc out ?C")
proof -
  note top = top_frame[OF inv calls i]
  have st: "stacks out t" and ex: "explored out t" and li: "linked out t"
    using inv by (auto simp: tarjan_inv_def)
  have disj: "?C \<inter> settled t = {}" using st by (auto simp: stacks_def)
  have stay: "w \<in> ?C \<or> w \<in> settled t" if "leads out y w" "y \<in> ?C" for y w
    using that
  proof induction
    case (step a b)
    then show ?case using segment_closed[OF inv calls i closed, of a b] ex by (auto simp: explored_def)
  qed auto
  have settled_stays: "w \<in> settled t" if "leads out y w" "y \<in> settled t" for y w
    using that by induction (use ex in \<open>auto simp: explored_def\<close>)
  have down: "leads out v y" if "y \<in> ?C" for y using li top(6) that by (auto simp: linked_def)
  have up: "leads out y v" if y: "y \<in> ?C" for y
  proof -
    obtain g where g: "g \<in> grey t" "leads out y g" using li y by (auto simp: linked_def)
    have "g \<in> ?C" using stay[OF g(2) y] disj st g(1) by (auto simp: stacks_def)
    then have "g = v" using g(1) top(5)[of g] top(6) by fastforce
    with g(2) show ?thesis by simp
  qed
  have vC: "v \<in> ?C" using top(2) by simp
  have "?C = {w. leads out u w \<and> leads out w u}" if u: "u \<in> ?C" for u
  proof
    show "?C \<subseteq> {w. leads out u w \<and> leads out w u}"
      using u up down by (auto intro: rtranclp_trans)
    show "{w. leads out u w \<and> leads out w u} \<subseteq> ?C"
      using stay[OF _ u] settled_stays u disj by blast
  qed
  then show ?thesis unfolding scc_def using vC by blast
qed

text \<open>Returning with the low link at the node itself emits its component.\<close>

lemma return_closed:
  assumes inv: "tarjan_inv out t" and calls: "tj_calls t = (v, i) # cs" and i: "\<not> i < length (out ! v)"
    and closed: "low t v = index_of t v"
  shows "tarjan_inv out (pop_component v (t\<lparr>tj_calls := cs\<rparr>))"
proof -
  note top = top_frame[OF inv calls i]
  have sz: "sizes out t" and st: "stacks out t" and ch: "chained out (tj_calls t)"
    and ex: "explored out t" and li: "linked out t" and bo: "bounded out t" and em: "emitted out t"
    using inv by (auto simp: tarjan_inv_def)
  obtain over below where split: "tj_stack t = over @ v # below" "v \<notin> set over"
    and C: "set (over @ [v]) = {y \<in> set (tj_stack t). index_of t v \<le> index_of t y}"
    and B: "set below = {y \<in> set (tj_stack t). index_of t y < index_of t v}"
    and dist: "distinct (over @ v # below)"
    using stack_split[OF inv top(2)] by blast
  let ?t = "pop_component v (t\<lparr>tj_calls := cs\<rparr>)"
  have pop: "?t = t\<lparr>tj_calls := cs, tj_stack := below,
      tj_on_stack := foldl (\<lambda>on w. on[w := False]) (tj_on_stack t) (over @ [v]),
      tj_components := tj_components t @ [over @ [v]]\<rparr>"
    using pop_split[of "t\<lparr>tj_calls := cs\<rparr>" over v below] split by simp
  have f: "index_of ?t = index_of t" "seen ?t = seen t" "tj_stack ?t = below" "tj_calls ?t = cs"
    "tj_components ?t = tj_components t @ [over @ [v]]" "tj_low ?t = tj_low t" "tj_next ?t = tj_next t"
    by (auto simp: pop index_of_def seen_def fun_eq_iff)
  have settled: "settled ?t = settled t \<union> set (over @ [v])" by (auto simp: settled_def f)
  have grey: "grey ?t = fst ` set cs" by (simp add: grey_def f)
  have greyB: "g \<in> set below" if "g \<in> fst ` set cs" for g
    using top(5)[OF that] top(6) that st B by (auto simp: stacks_def)
  have BS: "y \<in> set (tj_stack t)" "index_of t y < index_of t v" if "y \<in> set below" for y
    using that B by auto
  have h: "z \<in> handled out (tj_calls t) y" if "z \<in> handled out cs y" "y \<in> set below" "z \<noteq> v" for y z
    using that handled_return[of v cs y] ch calls top(1,4) by (cases cs) (auto split: if_splits)
  have "sizes out ?t" using sz by (simp add: sizes_def pop)
  moreover have "stacks out ?t"
  proof -
    have "tj_on_stack ?t ! w = (w \<in> set below)" if "w < length out" for w
    proof -
      have "tj_on_stack ?t ! w = (w \<in> set (tj_stack t) \<and> w \<notin> set (over @ [v]))"
        using st sz that foldl_clear[of w "tj_on_stack t" "over @ [v]"]
        by (simp add: pop stacks_def sizes_def)
      then show ?thesis using split dist by auto
    qed
    moreover have "sorted_wrt (newer t) below" using st split by (simp add: stacks_def sorted_wrt_append)
    moreover have "sorted_wrt (newer t) (map fst cs)" using st calls by (simp add: stacks_def)
    moreover have "seen t w \<longleftrightarrow> w \<in> set below \<or> w \<in> settled ?t" for w
      using st split unfolding settled by (auto simp: stacks_def)
    moreover have "set below \<inter> settled ?t = {}"
      using st split dist unfolding settled by (auto simp: stacks_def)
    moreover have "grey ?t \<subseteq> set below" unfolding grey using greyB by blast
    moreover have "\<forall>w \<in> set below. index_of t w < tj_next t" using st BS(1) by (auto simp: stacks_def)
    ultimately show ?thesis by (simp add: stacks_def f)
  qed
  moreover have "chained out (tj_calls ?t)" using ch calls chained_tl by (auto simp: f)
  moreover have "explored out ?t"
  proof -
    have "seen t w" if sy: "seen t y" and hw: "w \<in> handled out cs y" for y w
    proof (cases "w = v")
      case True
      then show ?thesis using top(2) st by (simp add: stacks_def)
    next
      case False
      then have "w \<in> handled out (tj_calls t) y"
        using hw handled_return[of v cs y] ch calls top(1,4) by (cases cs) (auto split: if_splits)
      then show ?thesis using ex sy by (auto simp: explored_def)
    qed
    moreover have "w \<in> settled ?t" if y: "y \<in> settled ?t" and a: "arc out y w" for y w
    proof (cases "y \<in> settled t")
      case True
      then show ?thesis using ex a unfolding settled explored_def by blast
    next
      case False
      then have "y \<in> set (over @ [v])" using y unfolding settled by blast
      then have "w \<in> settled t \<or> w \<in> set (over @ [v])"
        using segment_closed[OF inv calls i closed _ _ a] unfolding C by blast
      then show ?thesis unfolding settled by blast
    qed
    ultimately show ?thesis by (simp add: explored_def f)
  qed
  moreover have "linked out ?t"
  proof -
    have "low t y \<le> index_of t y \<and> (\<exists>x \<in> set below. index_of t x = low t y \<and> leads out y x)"
      if y: "y \<in> set below" for y
    proof -
      obtain x where "x \<in> set (tj_stack t)" "index_of t x = low t y" "leads out y x" "low t y \<le> index_of t y"
        using li BS(1)[OF y] by (auto simp: linked_def)
      then show ?thesis using BS(2)[OF y] B by auto
    qed
    moreover have "\<exists>g \<in> fst ` set cs. index_of t g \<le> index_of t y \<and> leads out y g"
      if y: "y \<in> set below" for y
    proof -
      obtain g where g: "g \<in> grey t" "index_of t g \<le> index_of t y" "leads out y g"
        using li BS(1)[OF y] by (auto simp: linked_def)
      then have "g \<noteq> v" using BS(2)[OF y] by auto
      then show ?thesis using g top(6) by blast
    qed
    ultimately show ?thesis using li top(6) BS unfolding linked_def grey f by auto
  qed
  moreover have "bounded out ?t"
    unfolding bounded_def f
  proof (intro ballI allI impI)
    fix y z g
    assume y: "y \<in> set below" and z: "z \<in> set below" and hz: "z \<in> handled out cs y" and o: "owner ?t y g"
    have "owner t y g" using o top(6) BS(2)[OF y] unfolding owner_def grey f by auto
    moreover have "z \<in> handled out (tj_calls t) y" using h[OF hz y] BS(2)[OF z] by auto
    ultimately show "low t g \<le> index_of t z" using bo BS(1)[OF y] BS(1)[OF z] by (auto simp: bounded_def)
  qed
  moreover have "emitted out ?t"
    using em segment_scc[OF inv calls i closed] C dist st split
    by (auto simp: emitted_def f stacks_def settled_def)
  ultimately show ?thesis by (simp add: tarjan_inv_def)
qed

section \<open>The whole search\<close>

lemma finish_keeps:
  assumes inv: "tarjan_inv out t" and calls: "tj_calls t = (v, i) # cs" and i: "\<not> i < length (out ! v)"
  shows "tarjan_inv out (finish v (t\<lparr>tj_calls := cs\<rparr>))"
proof (cases "low t v = index_of t v")
  case True
  note top = top_frame[OF inv calls i]
  have same: "lower_low u (low t v) (t\<lparr>tj_calls := cs\<rparr>) = t\<lparr>tj_calls := cs\<rparr>" if "u \<in> fst ` set cs" for u
  proof -
    have "low t u \<le> index_of t u" using inv top(6) that by (auto simp: tarjan_inv_def linked_def stacks_def)
    then have "min (low t u) (low t v) = low t u" using top(5)[OF that] True by simp
    then show ?thesis by (simp add: lower_low_def)
  qed
  have "finish v (t\<lparr>tj_calls := cs\<rparr>) = pop_component v (t\<lparr>tj_calls := cs\<rparr>)"
    using True same by (cases cs) (auto simp: finish_def)
  then show ?thesis using return_closed[OF inv calls i True] by simp
next
  case False
  have "low t v \<le> index_of t v"
    using inv top_frame(2)[OF inv calls i] by (simp add: tarjan_inv_def linked_def)
  with False have "low t v < index_of t v" by simp
  from return_open[OF inv calls i this] obtain u j cs' where cs: "cs = (u, j) # cs'"
    and t': "tarjan_inv out (lower_low u (low t v) (t\<lparr>tj_calls := cs\<rparr>))" by blast
  have "u \<noteq> v" using top_frame(4)[OF inv calls i] cs by auto
  then have "finish v (t\<lparr>tj_calls := cs\<rparr>) = lower_low u (low t v) (t\<lparr>tj_calls := cs\<rparr>)"
    using False cs by (simp add: finish_def Let_def) (simp add: lower_low_def)
  then show ?thesis using t' by simp
qed

lemma turn_keeps:
  assumes inv: "tarjan_inv out t" and calls: "tj_calls t = (v, i) # cs"
  shows "tarjan_inv out (turn out v i cs t)"
proof (cases "i < length (out ! v)")
  case True
  let ?w = "out ! v ! i" and ?t1 = "t\<lparr>tj_calls := (v, Suc i) # cs\<rparr>"
  have sz: "sizes out t" and st: "stacks out t" using inv by (auto simp: tarjan_inv_def)
  have "v < length out" using stack_in_range[OF inv, of v] st calls by (auto simp: stacks_def grey_def)
  then have w: "?w < length out" using in_range True by simp
  have unv: "unvisited ?t1 ?w \<longleftrightarrow> \<not> seen t ?w" using seen_unvisited[of ?w ?t1] w sz by (simp add: sizes_def)
  have on: "on_stack ?t1 ?w \<longleftrightarrow> ?w \<in> set (tj_stack t)"
    using st sz w by (simp add: on_stack_def nth_opt_def stacks_def sizes_def)
  show ?thesis
  proof (cases "seen t ?w")
    case False
    then show ?thesis using visit_child[OF inv calls True refl] True unv by (simp add: turn_def)
  next
    case seen: True
    show ?thesis using pass_arc[OF inv calls True refl seen refl] True unv on seen
      by (simp add: turn_def split: if_splits)
  qed
next
  case False
  then show ?thesis using finish_keeps[OF inv calls False] by (simp add: turn_def)
qed

lemma turn_seen: "seen t u \<Longrightarrow> seen (turn out v i cs t) u"
  by (cases "out ! v ! i = u") (auto simp: turn_def Let_def seen_def visit_def)

lemma loop_keeps_same:
  "table = out \<Longrightarrow> tarjan_inv out t \<Longrightarrow> tarjan_inv out (tarjan_loop table t)
     \<and> tj_calls (tarjan_loop table t) = [] \<and> (\<forall>v. seen t v \<longrightarrow> seen (tarjan_loop table t) v)"
proof (induction table t rule: tarjan_loop.induct)
  case (1 table t)
  show ?case
  proof (cases "tj_calls t")
    case Nil
    then show ?thesis using "1.prems" by (simp add: tarjan_loop.simps)
  next
    case (Cons f calls)
    obtain v i where f: "f = (v, i)" by (cases f)
    have "tarjan_loop table t = tarjan_loop table (turn table v i calls t)"
      using Cons f by (simp add: tarjan_loop.simps[of table t])
    moreover have "tarjan_inv out (turn out v i calls t)"
      using turn_keeps[OF "1.prems"(2)] Cons f by simp
    ultimately show ?thesis
      using "1.IH"[OF Cons f[symmetric]] "1.prems"(1) turn_seen by simp
  qed
qed

lemmas loop_keeps = loop_keeps_same[OF refl]

lemma init_inv: "tarjan_inv out (tarjan_init (length out))"
  by (auto simp: tarjan_inv_def tarjan_init_def sizes_def stacks_def grey_def seen_def settled_def
      explored_def linked_def bounded_def emitted_def)

lemma root_keeps:
  assumes "tarjan_inv out t" and "tj_calls t = []" and "root < length out"
  shows "tarjan_inv out (tarjan_root out t root) \<and> tj_calls (tarjan_root out t root) = []
    \<and> seen (tarjan_root out t root) root \<and> (\<forall>v. seen t v \<longrightarrow> seen (tarjan_root out t root) v)"
proof -
  have len: "root < length (tj_index t)" using assms by (simp add: tarjan_inv_def sizes_def)
  show ?thesis
  proof (cases "seen t root")
    case True
    then show ?thesis using assms seen_unvisited[OF len] by (simp add: tarjan_root_def)
  next
    case False
    then have "tarjan_inv out (visit root t)" using visit_root[OF assms] by blast
    then show ?thesis using False len seen_unvisited[OF len] loop_keeps[of "visit root t"]
      by (simp add: tarjan_root_def)
  qed
qed

lemma roots_keep:
  assumes "m \<le> length out"
  defines "t \<equiv> foldl (tarjan_root out) (tarjan_init (length out)) [0..<m]"
  shows "tarjan_inv out t \<and> tj_calls t = [] \<and> (\<forall>v < m. seen t v)"
  using assms(1) unfolding t_def
proof (induction m)
  case 0
  then show ?case using init_inv by (simp add: tarjan_init_def)
next
  case (Suc m)
  then show ?case
    using root_keeps[of "foldl (tarjan_root out) (tarjan_init (length out)) [0..<m]" m]
    by (auto simp: less_Suc_eq)
qed

text \<open>The components partition the nodes, each is strongly connected and as large as it can be.\<close>

lemma components_spec:
  shows "\<And>c. c \<in> set (strongly_connected out) \<Longrightarrow> scc out (set c)"
    and "set (concat (strongly_connected out)) = {..<length out}"
    and "distinct (concat (strongly_connected out))"
proof -
  let ?t = "foldl (tarjan_root out) (tarjan_init (length out)) [0..<length out]"
  have inv: "tarjan_inv out ?t" and calls: "tj_calls ?t = []" and all: "\<forall>v < length out. seen ?t v"
    using roots_keep[of "length out"] by auto
  show "scc out (set c)" if "c \<in> set (strongly_connected out)" for c
    using inv that by (simp add: strongly_connected_def tarjan_inv_def emitted_def)
  show "distinct (concat (strongly_connected out))"
    using inv by (simp add: strongly_connected_def tarjan_inv_def emitted_def)
  have "seen ?t v \<longleftrightarrow> v \<in> settled ?t" for v
    using inv no_calls_empty_stack[OF inv calls] by (simp add: tarjan_inv_def stacks_def)
  moreover have "seen ?t v \<Longrightarrow> v < length out" for v
    using inv by (simp add: tarjan_inv_def sizes_def seen_def)
  ultimately show "set (concat (strongly_connected out)) = {..<length out}"
    using all unfolding strongly_connected_def settled_def by auto
qed

lemma component_leads:
  assumes "c \<in> set (strongly_connected out)" and "u \<in> set c"
  shows "set c = {w. leads out u w \<and> leads out w u}"
  using components_spec(1)[OF assms(1)] assms(2) unfolding scc_def by blast

lemma component_on_cycle:
  assumes c: "c \<in> set (strongly_connected out)" and u: "u \<in> set c" and cyc: "(arc out)\<^sup>+\<^sup>+ u u"
  shows "set c = {w. (arc out)\<^sup>+\<^sup>+ u w \<and> (arc out)\<^sup>+\<^sup>+ w u}"
proof -
  have "leads out u w \<longleftrightarrow> (arc out)\<^sup>+\<^sup>+ u w" "leads out w u \<longleftrightarrow> (arc out)\<^sup>+\<^sup>+ w u" for w
    using cyc by (auto simp: tranclp_into_rtranclp dest: tranclp_rtranclp_tranclp rtranclp_tranclp_tranclp)
  then show ?thesis using component_leads[OF c u] by auto
qed

text \<open>The filter of \<open>cycles\<close> keeps exactly the components whose nodes lead back to themselves.\<close>

lemma cyclic_component_iff:
  assumes c: "c \<in> set (strongly_connected out)" and u: "u \<in> set c"
  shows "(length c > 1 \<or> hd c \<in> set (out ! hd c)) \<longleftrightarrow> (arc out)\<^sup>+\<^sup>+ u u"
proof
  have cn: "v < length out" if "v \<in> set c" for v
    using components_spec(2) c that by auto
  have dist: "distinct c" using components_spec(3) c by (simp add: distinct_concat_iff)
  assume "length c > 1 \<or> hd c \<in> set (out ! hd c)"
  then show "(arc out)\<^sup>+\<^sup>+ u u"
  proof
    assume "length c > 1"
    then obtain w where w: "w \<in> set c" "w \<noteq> u"
      using dist u by (cases c; cases "tl c") auto
    then have "leads out u w" "leads out w u" using component_leads[OF c u] by auto
    then show ?thesis using w(2) by (metis rtranclpD rtranclp_tranclp_tranclp)
  next
    assume self: "hd c \<in> set (out ! hd c)"
    have hd: "hd c \<in> set c" using u by (cases c) auto
    then have "leads out u (hd c)" "leads out (hd c) u" using component_leads[OF c u] by auto
    moreover have "arc out (hd c) (hd c)" using self cn[OF hd] by (simp add: arc_def)
    ultimately show ?thesis by (meson rtranclp_into_tranclp1 tranclp_rtranclp_tranclp)
  qed
next
  assume "(arc out)\<^sup>+\<^sup>+ u u"
  then obtain z where z: "arc out u z" "leads out z u" by (meson tranclpD)
  then have "z \<in> set c" using component_leads[OF c u] by blast
  then show "length c > 1 \<or> hd c \<in> set (out ! hd c)"
    using z(1) u by (cases c; cases "tl c") (auto simp: arc_def)
qed

lemma cyclic_components:
  "set ` set (filter (\<lambda>c. length c > 1 \<or> hd c \<in> set (out ! hd c)) (strongly_connected out))
     = {{w. (arc out)\<^sup>+\<^sup>+ u w \<and> (arc out)\<^sup>+\<^sup>+ w u} | u. (arc out)\<^sup>+\<^sup>+ u u}" (is "set ` set (filter ?P ?C) = ?R")
proof
  show "set ` set (filter ?P ?C) \<subseteq> ?R"
  proof
    fix S assume "S \<in> set ` set (filter ?P ?C)"
    then obtain c where c: "c \<in> set ?C" "?P c" "S = set c" by auto
    have "set c \<noteq> {}" using components_spec(1)[OF c(1)] unfolding scc_def by blast
    then obtain u where u: "u \<in> set c" by (meson ex_in_conv)
    then have "(arc out)\<^sup>+\<^sup>+ u u" using cyclic_component_iff[OF c(1) u] c(2) by blast
    then show "S \<in> ?R" using component_on_cycle[OF c(1) u] c(3) by blast
  qed
  show "?R \<subseteq> set ` set (filter ?P ?C)"
  proof
    fix S assume "S \<in> ?R"
    then obtain u where u: "(arc out)\<^sup>+\<^sup>+ u u" "S = {w. (arc out)\<^sup>+\<^sup>+ u w \<and> (arc out)\<^sup>+\<^sup>+ w u}" by blast
    then have "u < length out" by (meson arc_def tranclpD)
    then have "u \<in> set (concat ?C)" using components_spec(2) by simp
    then obtain c where c: "c \<in> set ?C" "u \<in> set c" by auto
    then show "S \<in> set ` set (filter ?P ?C)"
      using cyclic_component_iff[OF c] component_on_cycle[OF c u(1)] u by auto
  qed
qed

end

end
