(* ===== verification/Cycles.thy ===== *)
theory Cycles
  imports TarjanLaws
begin

text \<open>
  The cycle search on the arcs of a snapshot, and the cycle it reports: \<open>Arcs::cycles\<close> and
  \<open>Arcs::cycle_path\<close> of \<^verbatim>\<open>rustykrab-control/src/graph/order.rs\<close>. The laws of the locale \<open>arc_table\<close>
  reach the rows through the interpretation \<open>built\<close>; the path search is a breadth-first search
  inside the component with a walk back over its \<open>prev\<close> links, which is a partial function in the
  model and is shown to return.
\<close>

section \<open>The path through a component\<close>

fun path_scan :: "nat list \<Rightarrow> nat \<Rightarrow> nat \<Rightarrow> nat list \<Rightarrow> nat list \<times> nat list \<times> (nat \<times> nat) list
    \<Rightarrow> bool \<times> nat list \<times> nat list \<times> (nat \<times> nat) list" where
  \<comment> \<open>the \<open>for\<close> over the arcs of \<open>n\<close>; \<open>True\<close> is \<^verbatim>\<open>break 'search\<close>\<close>
  "path_scan members start n [] (queue, reached, prev) = (False, queue, reached, prev)"
| "path_scan members start n (m # ms) (queue, reached, prev) =
     (if m = start then (True, queue, reached, prev)
      else if m \<in> set members \<and> m \<notin> set reached
      then path_scan members start n ms (queue @ [m], m # reached, (m, n) # prev)
      else path_scan members start n ms (queue, reached, prev))"

lemma path_scan_grows:
  assumes "path_scan members start n ms (queue, reached, prev) = (b, queue', reached', prev')"
  shows "set reached \<subseteq> set reached' \<and> (reached' = reached \<and> queue' = queue \<or> \<not> set members \<inter> set reached' \<subseteq> set reached)"
  using assms
proof (induction ms arbitrary: queue reached prev)
  case (Cons m ms)
  show ?case
  proof (cases "m \<noteq> start \<and> m \<in> set members \<and> m \<notin> set reached")
    case True
    then have "path_scan members start n ms (queue @ [m], m # reached, (m, n) # prev) = (b, queue', reached', prev')"
      using Cons.prems by simp
    from Cons.IH[OF this] show ?thesis using True by auto
  next
    case False
    then show ?thesis using Cons.prems Cons.IH[of queue reached prev] by (auto split: if_splits)
  qed
qed simp

function path_search :: "Arcs \<Rightarrow> nat list \<Rightarrow> nat \<Rightarrow> nat list \<Rightarrow> nat list \<Rightarrow> (nat \<times> nat) list
    \<Rightarrow> nat option \<times> (nat \<times> nat) list" where
  "path_search a members start [] reached prev = (None, prev)"
| "path_search a members start (n # queue) reached prev =
     (case path_scan members start n (succs a n) (queue, reached, prev) of
        (True, queue', reached', prev') \<Rightarrow> (Some n, prev')
      | (False, queue', reached', prev') \<Rightarrow> path_search a members start queue' reached' prev')"
  by pat_completeness auto
termination
proof (relation "measures [\<lambda>(a, members, start, queue, reached, prev). card (set members - set reached),
    \<lambda>(a, members, start, queue, reached, prev). length queue]", goal_cases)
  case 1
  then show ?case by simp
next
  case (2 a members start n queue reached prev b r queue' r' reached' prev')
  then have "path_scan members start n (succs a n) (queue, reached, prev) = (False, queue', reached', prev')" by auto
  note g = path_scan_grows[OF this]
  show ?case
  proof (cases "reached' = reached \<and> queue' = queue")
    case False
    then have "set members - set reached' \<subset> set members - set reached" using g by blast
    then have "card (set members - set reached') < card (set members - set reached)" by (simp add: psubset_card_mono)
    then show ?thesis using 2 by auto
  qed (use 2 in auto)
qed

partial_function (option) back_walk :: "nat \<Rightarrow> (nat \<times> nat) list \<Rightarrow> nat option \<Rightarrow> nat list option" where
  \<comment> \<open>\<^verbatim>\<open>while let Some(n) = at\<close>: the nodes pushed, in that order\<close>
  "back_walk start prev at =
     (case at of
        None \<Rightarrow> Some []
      | Some n \<Rightarrow>
          if n = start then Some []
          else Option.bind (back_walk start prev (map_of prev n)) (\<lambda>back. Some (n # back)))"

declare back_walk.simps [code]

definition cycle_path :: "Arcs \<Rightarrow> nat list \<Rightarrow> work_item_id list option" where
  "cycle_path a component =
     (let start = hd component;
          (last, prev) = path_search a component start [start] [start] []
      in map_option (\<lambda>back. map (\<lambda>n. ar_nodes a ! n) (start # rev back @ [start])) (back_walk start prev last))"

section \<open>The table of a snapshot\<close>

lemma node_index_range: "map_of (node_index nodes) k = Some i \<Longrightarrow> i < length nodes"
proof (induction nodes arbitrary: i rule: rev_induct)
  case (snoc x xs)
  have "node_index (xs @ [x]) = AList.update x (length xs) (node_index xs)" by (simp add: node_index_def)
  then show ?case using snoc by (auto simp: update_conv less_Suc_eq split: if_splits)
qed (simp add: node_index_def)

lemma edge_arc_range: "edge_arc (node_index nodes) all_kinds skip e = Some (n, m) \<Longrightarrow> m < length nodes"
  by (auto simp: edge_arc_def node_index_range split: if_splits option.splits)

lemma item_arc_range:
  assumes "(n, m) \<in> set (item_arcs s (node_index nodes) skip (i, item))" and "i < length nodes"
  shows "m < length nodes"
  using assms
  by (auto simp: item_arcs_def inherited_arc_def map_filter_iff node_index_range split: option.splits if_splits)

lemma built_out:
  "ar_out (Arcs_build s all_kinds skip) = foldl add_arc (replicate (length (sn_items s)) [])
     (List.map_filter (edge_arc (node_index (map wi_id (sn_items s))) all_kinds skip) (sn_edges s)
      @ concat (map (item_arcs s (node_index (map wi_id (sn_items s))) skip)
          (zip [0..<length (sn_items s)] (sn_items s))))"
  by (simp add: Arcs_build_def Let_def)

interpretation built: arc_table "ar_out (Arcs_build s all_kinds skip)" for s all_kinds skip
proof
  fix v w
  assume v: "v < length (ar_out (Arcs_build s all_kinds skip))"
    and w: "w \<in> set (ar_out (Arcs_build s all_kinds skip) ! v)"
  have n: "length (ar_out (Arcs_build s all_kinds skip)) = length (sn_items s)" by (simp add: built_out)
  have "(v, w) \<in> set (List.map_filter (edge_arc (node_index (map wi_id (sn_items s))) all_kinds skip) (sn_edges s)
      @ concat (map (item_arcs s (node_index (map wi_id (sn_items s))) skip)
          (zip [0..<length (sn_items s)] (sn_items s))))"
    using w v n add_arcs[of v "replicate (length (sn_items s)) []"] unfolding built_out by (simp del: foldl_append)
  then show "w < length (ar_out (Arcs_build s all_kinds skip))"
    using edge_arc_range[of "map wi_id (sn_items s)"] item_arc_range[of _ _ s "map wi_id (sn_items s)"] unfolding n
    by (fastforce simp: map_filter_iff dest: set_zip_leftD)
qed

section \<open>The path search returns a cycle\<close>

text \<open>Each link of \<open>prev\<close> goes to the start or to a node linked earlier.\<close>

fun rooted :: "Arcs \<Rightarrow> nat list \<Rightarrow> nat \<Rightarrow> (nat \<times> nat) list \<Rightarrow> bool" where
  "rooted a members start [] = True"
| "rooted a members start ((m, n) # prev) =
     (m \<noteq> start \<and> m \<notin> fst ` set prev \<and> m \<in> set members \<and> m \<in> set (succs a n)
      \<and> (n = start \<or> n \<in> fst ` set prev) \<and> rooted a members start prev)"

lemma rooted_fresh: "rooted a members start (newer' @ (m, n) # prev) \<Longrightarrow> m \<notin> fst ` set newer'"
  by (induction newer') (fastforce simp: image_Un)+

lemma rooted_suffix: "rooted a members start (newer' @ prev) \<Longrightarrow> rooted a members start prev"
  by (induction newer') auto

lemma back_walk_trail:
  assumes "rooted a members start (newer' @ prev)" and "n = start \<or> n \<in> fst ` set prev"
  shows "\<exists>trail. back_walk start (newer' @ prev) (Some n) = Some trail \<and> set trail \<subseteq> set members
    \<and> successively (\<lambda>x y. y \<in> set (succs a x)) (start # rev trail) \<and> List.last (start # rev trail) = n"
  using assms
proof (induction prev arbitrary: newer' n)
  case Nil
  then show ?case by (simp add: back_walk.simps)
next
  case (Cons e prev)
  obtain m q where e: "e = (m, q)" by (cases e)
  have r: "rooted a members start ((m, q) # prev)" using Cons.prems(1) e rooted_suffix by blast
  consider "n = start" | "n \<noteq> start" "n = m" | "n \<noteq> start" "n \<noteq> m" "n \<in> fst ` set prev"
    using Cons.prems(2) e by auto
  then show ?case
  proof cases
    case 1
    then show ?thesis by (simp add: back_walk.simps)
  next
    case 2
    have "map_of newer' m = None"
      using rooted_fresh[of a members start newer' m q prev] Cons.prems(1) e by (simp add: map_of_eq_None_iff)
    then have get: "map_of (newer' @ e # prev) m = Some q" using e by (simp add: map_add_Some_iff)
    obtain trail where trail: "back_walk start (newer' @ e # prev) (Some q) = Some trail" "set trail \<subseteq> set members"
      "successively (\<lambda>x y. y \<in> set (succs a x)) (start # rev trail)" "List.last (start # rev trail) = q"
      using Cons.IH[of "newer' @ [e]" q] Cons.prems(1) r by auto
    have "successively (\<lambda>x y. y \<in> set (succs a x)) ((start # rev trail) @ [m])"
      using trail(3,4) r by (subst successively_append_iff) simp
    then show ?thesis using 2 get trail r by (intro exI[of _ "m # trail"]) (simp add: back_walk.simps)
  next
    case 3
    then show ?thesis using Cons.IH[of "newer' @ [e]" n] Cons.prems(1) by simp
  qed
qed

text \<open>The state of the search: \<open>done\<close> nodes have no arc to the start and all their arcs inside the
  component lead to reached nodes.\<close>

definition searching :: "Arcs \<Rightarrow> nat list \<Rightarrow> nat \<Rightarrow> nat list \<Rightarrow> nat list \<Rightarrow> (nat \<times> nat) list \<Rightarrow> bool" where
  "searching a members start queue reached prev =
     (rooted a members start prev \<and> set reached = insert start (fst ` set prev) \<and> set queue \<subseteq> set reached)"

lemma path_scan_keeps:
  assumes "path_scan members start n ms (queue, reached, prev) = (b, queue', reached', prev')"
    and "searching a members start queue reached prev" and "n \<in> set reached" and "set ms \<subseteq> set (succs a n)"
  shows "searching a members start queue' reached' prev' \<and> set reached \<subseteq> set reached'
    \<and> set reached' - set reached \<subseteq> set queue' \<and> set queue \<subseteq> set queue' \<and> b = (start \<in> set ms)
    \<and> (\<not> b \<longrightarrow> set ms \<inter> set members \<subseteq> set reached')"
  using assms
proof (induction ms arbitrary: queue reached prev)
  case Nil
  then show ?case by simp
next
  case (Cons m ms)
  show ?case
  proof (cases "m \<noteq> start \<and> m \<in> set members \<and> m \<notin> set reached")
    case True
    then have "path_scan members start n ms (queue @ [m], m # reached, (m, n) # prev) = (b, queue', reached', prev')"
      using Cons.prems(1) by simp
    moreover have "searching a members start (queue @ [m]) (m # reached) ((m, n) # prev)"
      using Cons.prems(2-4) True by (auto simp: searching_def)
    ultimately have "searching a members start queue' reached' prev' \<and> set (m # reached) \<subseteq> set reached'
      \<and> set reached' - set (m # reached) \<subseteq> set queue' \<and> set (queue @ [m]) \<subseteq> set queue' \<and> b = (start \<in> set ms)
      \<and> (\<not> b \<longrightarrow> set ms \<inter> set members \<subseteq> set reached')"
      using Cons.prems(3,4) by (intro Cons.IH) auto
    then show ?thesis using True by auto
  next
    case False
    then show ?thesis using Cons.prems Cons.IH[of queue reached prev] by (cases "m = start") auto
  qed
qed

lemma path_search_spec:
  assumes "path_search a members start queue reached prev = (found, prev')"
    and "searching a members start queue reached prev"
    and "\<forall>n \<in> set reached - set queue. start \<notin> set (succs a n) \<and> set (succs a n) \<inter> set members \<subseteq> set reached"
  shows "rooted a members start prev' \<and> (case found of
      Some n \<Rightarrow> start \<in> set (succs a n) \<and> (n = start \<or> n \<in> fst ` set prev')
    | None \<Rightarrow> \<exists>R. set reached \<subseteq> R
        \<and> (\<forall>n \<in> R. start \<notin> set (succs a n) \<and> set (succs a n) \<inter> set members \<subseteq> R))"
  using assms
proof (induction a members start queue reached prev rule: path_search.induct)
  case (1 a members start reached prev)
  then have "found = None" "prev' = prev" by simp_all
  then show ?case using "1.prems"(2,3) by (simp add: searching_def) (intro exI[of _ "set reached"], simp, blast)
next
  case (2 a members start n queue reached prev)
  obtain b queue' reached' prev'' where scan:
    "path_scan members start n (succs a n) (queue, reached, prev) = (b, queue', reached', prev'')"
    by (metis prod_cases4)
  have n: "n \<in> set reached" "searching a members start queue reached prev"
    using "2.prems"(2) by (auto simp: searching_def)
  from path_scan_keeps[OF scan n(2,1)]
  have s: "searching a members start queue' reached' prev''" "set reached \<subseteq> set reached'"
    "set reached' - set reached \<subseteq> set queue'" "set queue \<subseteq> set queue'" "b = (start \<in> set (succs a n))"
    "\<not> b \<Longrightarrow> set (succs a n) \<inter> set members \<subseteq> set reached'"
    by auto
  show ?case
  proof (cases b)
    case True
    then have "found = Some n" "prev' = prev''" using "2.prems"(1) scan by auto
    then show ?thesis using s n(1) True by (auto simp: searching_def)
  next
    case False
    have "start \<notin> set (succs a x) \<and> set (succs a x) \<inter> set members \<subseteq> set reached'"
      if x: "x \<in> set reached' - set queue'" for x
    proof (cases "x = n")
      case False
      then have "x \<in> set reached - set (n # queue)" using x s(3,4) by auto
      then have "start \<notin> set (succs a x)" "set (succs a x) \<inter> set members \<subseteq> set reached"
        using "2.prems"(3) by blast+
      then show ?thesis using s(2) by blast
    qed (use s(5,6) False in blast)
    moreover have "path_search a members start queue' reached' prev'' = (found, prev')"
      using "2.prems"(1) scan False by simp
    ultimately have "rooted a members start prev' \<and> (case found of
        Some n \<Rightarrow> start \<in> set (succs a n) \<and> (n = start \<or> n \<in> fst ` set prev')
      | None \<Rightarrow> \<exists>R. set reached' \<subseteq> R
          \<and> (\<forall>n \<in> R. start \<notin> set (succs a n) \<and> set (succs a n) \<inter> set members \<subseteq> R))"
      using "2.IH"[OF scan[symmetric] _ refl refl] False s(1) by simp
    then show ?thesis using s(2) by (auto split: option.splits)
  qed
qed

lemma built_arc: "arc (ar_out a) n m \<longleftrightarrow> m \<in> set (succs a n)"
  by (simp add: arc_def succs_def nth_opt_def)

lemma built_node: "n < length (sn_items s) \<Longrightarrow> ar_nodes (Arcs_build s all_kinds skip) ! n = wi_id (sn_items s ! n)"
  by (simp add: Arcs_build_def Let_def)

lemma built_closure:
  assumes "wf_snap s"
  shows "(arc (ar_out (Arcs_build s all_kinds skip)))\<^sup>+\<^sup>+ i n \<longleftrightarrow>
    i < length (sn_items s) \<and> n < length (sn_items s)
    \<and> (depends s all_kinds skip)\<^sup>+\<^sup>+ (wi_id (sn_items s ! i)) (wi_id (sn_items s ! n))"
  using succs_closure[OF assms, of all_kinds skip i n] by (simp add: built_arc[abs_def])

lemma cycles_filter:
  "cycles a = map sort (filter (\<lambda>c. length c > 1 \<or> hd c \<in> set (ar_out a ! hd c)) (strongly_connected (ar_out a)))"
  if "arc_table (ar_out a)"
proof -
  have "c \<noteq> [] \<Longrightarrow> hd c < length (ar_out a)" if "c \<in> set (strongly_connected (ar_out a))" for c
    using arc_table.components_spec(2)[OF \<open>arc_table (ar_out a)\<close>] that by (force dest: hd_in_set)
  moreover have "c \<noteq> []" if "c \<in> set (strongly_connected (ar_out a))" for c
    using arc_table.components_spec(1)[OF \<open>arc_table (ar_out a)\<close> that] by (auto simp: scc_def)
  ultimately show ?thesis unfolding cycles_def
    by (intro arg_cong[of _ _ "map sort"] filter_cong) (auto simp: succs_def nth_opt_def)
qed

lemma sort_Nil_iff [simp]: "sort xs = [] \<longleftrightarrow> xs = []"
  by (metis length_0_conv length_sort)

lemma image_setcompr_cong: "(\<And>u. P u \<Longrightarrow> f u = g u) \<Longrightarrow> {f u | u. P u} = {g u | u. P u}"
  by metis

lemma cycles_nonempty: "c \<in> set (cycles (Arcs_build s all_kinds skip)) \<Longrightarrow> c \<noteq> []"
  using built.components_spec(1)[of _ s all_kinds skip] by (auto simp: cycles_def scc_def)

text \<open>The nodes of a reported cycle lead to each other and to nothing less.\<close>

lemma cycle_nodes:
  assumes "c \<in> set (cycles (Arcs_build s all_kinds skip))" and "u \<in> set c"
  shows "(arc (ar_out (Arcs_build s all_kinds skip)))\<^sup>+\<^sup>+ u u"
    and "set c = {w. (arc (ar_out (Arcs_build s all_kinds skip)))\<^sup>+\<^sup>+ u w \<and> (arc (ar_out (Arcs_build s all_kinds skip)))\<^sup>+\<^sup>+ w u}"
proof -
  obtain d where d: "d \<in> set (strongly_connected (ar_out (Arcs_build s all_kinds skip)))" "set c = set d"
      "length d > 1 \<or> hd d \<in> set (ar_out (Arcs_build s all_kinds skip) ! hd d)"
    using assms(1) unfolding cycles_filter[OF built.arc_table_axioms] by auto
  show cyc: "(arc (ar_out (Arcs_build s all_kinds skip)))\<^sup>+\<^sup>+ u u"
    using built.cyclic_component_iff[OF d(1)] d(2,3) assms(2) by simp
  show "set c = {w. (arc (ar_out (Arcs_build s all_kinds skip)))\<^sup>+\<^sup>+ u w \<and> (arc (ar_out (Arcs_build s all_kinds skip)))\<^sup>+\<^sup>+ w u}"
    using built.component_on_cycle[OF d(1) _ cyc] d(2) assms(2) by simp
qed

lemma distinct_concat_sorted_filter:
  "distinct (concat xss) \<Longrightarrow> distinct (concat (map sort (filter P xss)))"
  by (induction xss) auto

lemma cycles_distinct: "distinct (concat (cycles (Arcs_build s all_kinds skip)))"
  unfolding cycles_def by (rule distinct_concat_sorted_filter) (rule built.components_spec(3))

text \<open>The search from a node that leads back to itself inside the component finds the arc that closes it.\<close>

lemma path_search_finds:
  assumes cyc: "(\<lambda>n m. m \<in> set (succs a n))\<^sup>+\<^sup>+ start start" and start: "start \<in> set members"
    and members: "\<And>w. (\<lambda>n m. m \<in> set (succs a n))\<^sup>+\<^sup>+ start w \<Longrightarrow> (\<lambda>n m. m \<in> set (succs a n))\<^sup>*\<^sup>* w start \<Longrightarrow> w \<in> set members"
  shows "\<exists>n prev. path_search a members start [start] [start] [] = (Some n, prev) \<and> rooted a members start prev
    \<and> start \<in> set (succs a n) \<and> (n = start \<or> n \<in> fst ` set prev)"
proof -
  let ?R = "\<lambda>n m. m \<in> set (succs a n)"
  obtain found prev where p: "path_search a members start [start] [start] [] = (found, prev)" by fastforce
  have spec: "rooted a members start prev \<and> (case found of
      Some n \<Rightarrow> start \<in> set (succs a n) \<and> (n = start \<or> n \<in> fst ` set prev)
    | None \<Rightarrow> \<exists>R. set [start] \<subseteq> R
        \<and> (\<forall>n \<in> R. start \<notin> set (succs a n) \<and> set (succs a n) \<inter> set members \<subseteq> R))"
    by (rule path_search_spec[OF p]) (simp_all add: searching_def)
  have "found \<noteq> None"
  proof
    assume "found = None"
    then obtain R where R: "start \<in> R" "\<And>n. n \<in> R \<Longrightarrow> start \<notin> set (succs a n)"
      "\<And>n. n \<in> R \<Longrightarrow> set (succs a n) \<inter> set members \<subseteq> R"
      using spec by auto
    have "w \<in> R" if "?R\<^sup>*\<^sup>* start w" "?R\<^sup>*\<^sup>* w start" for w
      using that
    proof induction
      case (step y z)
      then have "y \<in> R" by (meson converse_rtranclp_into_rtranclp)
      moreover have "?R\<^sup>+\<^sup>+ start z" using step.hyps by (rule rtranclp_into_tranclp1)
      ultimately show ?case using R(3)[of y] step members by blast
    qed (use R in simp)
    moreover obtain y where "?R\<^sup>*\<^sup>* start y" "?R y start" using cyc
      by cases (auto intro: tranclp_into_rtranclp)
    ultimately show False using R(2)[of y] by blast
  qed
  then show ?thesis using spec p by auto
qed

lemma dependency_cycles:
  fixes s :: Snapshot and all_kinds :: bool and skip :: "Edge set"
  assumes "wf_snap s"
  defines "a \<equiv> Arcs_build s all_kinds skip" and "D \<equiv> depends s all_kinds skip"
  shows "(\<lambda>c. (\<lambda>n. ar_nodes a ! n) ` set c) ` set (cycles a) = {{y. D\<^sup>+\<^sup>+ x y \<and> D\<^sup>+\<^sup>+ y x} | x. D\<^sup>+\<^sup>+ x x}"
proof -
  let ?A = "arc (ar_out a)" and ?id = "\<lambda>n. ar_nodes a ! n" and ?n = "length (sn_items s)"
  have cl: "?A\<^sup>+\<^sup>+ i n \<longleftrightarrow> i < ?n \<and> n < ?n \<and> D\<^sup>+\<^sup>+ (?id i) (?id n)" for i n
    using built_closure[OF assms(1), of all_kinds skip i n] by (auto simp: a_def D_def built_node)
  have rows: "\<exists>i < ?n. ?id i = x" if "D\<^sup>+\<^sup>+ x y \<or> D\<^sup>+\<^sup>+ y x" for x y
    using that depends_closure_rows[OF assms(1), of all_kinds skip] unfolding D_def a_def by (metis built_node)
  have cls: "?id ` {w. ?A\<^sup>+\<^sup>+ u w \<and> ?A\<^sup>+\<^sup>+ w u} = {y. D\<^sup>+\<^sup>+ (?id u) y \<and> D\<^sup>+\<^sup>+ y (?id u)}" if "u < ?n" for u
    using that rows[of _ "?id u"] by (auto simp: cl image_iff)
  have "set ` set (cycles a) = {{w. ?A\<^sup>+\<^sup>+ u w \<and> ?A\<^sup>+\<^sup>+ w u} | u. ?A\<^sup>+\<^sup>+ u u}"
    using built.cyclic_components[of s all_kinds skip] cycles_filter[OF built.arc_table_axioms, of s all_kinds skip]
    by (simp add: a_def image_image)
  then have "(\<lambda>c. ?id ` set c) ` set (cycles a) = (\<lambda>S. ?id ` S) ` {{w. ?A\<^sup>+\<^sup>+ u w \<and> ?A\<^sup>+\<^sup>+ w u} | u. ?A\<^sup>+\<^sup>+ u u}"
    by (simp flip: image_image)
  also have "\<dots> = {{y. D\<^sup>+\<^sup>+ x y \<and> D\<^sup>+\<^sup>+ y x} | x. D\<^sup>+\<^sup>+ x x}"
  proof -
    have "(\<lambda>S. ?id ` S) ` {{w. ?A\<^sup>+\<^sup>+ u w \<and> ?A\<^sup>+\<^sup>+ w u} | u. ?A\<^sup>+\<^sup>+ u u}
        = {?id ` {w. ?A\<^sup>+\<^sup>+ u w \<and> ?A\<^sup>+\<^sup>+ w u} | u. u < ?n \<and> D\<^sup>+\<^sup>+ (?id u) (?id u)}"
      using cl by blast
    also have "\<dots> = {{y. D\<^sup>+\<^sup>+ (?id u) y \<and> D\<^sup>+\<^sup>+ y (?id u)} | u. u < ?n \<and> D\<^sup>+\<^sup>+ (?id u) (?id u)}"
      by (rule image_setcompr_cong) (simp add: cls)
    also have "\<dots> = {{y. D\<^sup>+\<^sup>+ x y \<and> D\<^sup>+\<^sup>+ y x} | x. D\<^sup>+\<^sup>+ x x}"
      using rows by blast
    finally show ?thesis .
  qed
  finally show ?thesis .
qed

section \<open>Properties\<close>

text \<open>C33: The cycle search is complete and exact. Read as item ids, the cycles it returns are precisely the
  classes of items that depend on each other: one class per item that depends on itself, directly,
  transitively, through a parent's children or through an ancestor's edges, and none when no item does.
  No row is in two cycles, and each cycle comes in row order.\<close>

theorem cycles_are_the_dependency_cycles:
  fixes s :: Snapshot and all_kinds :: bool and skip :: "Edge set"
  assumes "wf_snap s"
  defines "a \<equiv> Arcs_build s all_kinds skip" and "D \<equiv> depends s all_kinds skip"
  shows "(\<lambda>c. (\<lambda>n. ar_nodes a ! n) ` set c) ` set (cycles a) = {{y. D\<^sup>+\<^sup>+ x y \<and> D\<^sup>+\<^sup>+ y x} | x. D\<^sup>+\<^sup>+ x x}
    \<and> distinct (concat (cycles a)) \<and> list_all sorted (cycles a)"
  using dependency_cycles[OF assms(1), of all_kinds skip] cycles_distinct[of s all_kinds skip]
  by (simp add: a_def D_def) (auto simp: cycles_def list_all_iff)

lemma cycles_are_the_dependency_cycles_witness:
  "(depends (Snapshot_new [blank_item ''a'' None Queued, blank_item ''b'' None Queued]
      [\<lparr>e_item = ''a'', e_depends_on = ''b'', e_kind = EkBlocks\<rparr>, \<lparr>e_item = ''b'', e_depends_on = ''a'', e_kind = EkBlocks\<rparr>])
      False {})\<^sup>+\<^sup>+ ''a'' ''a''"
proof -
  let ?s = "Snapshot_new [blank_item ''a'' None Queued, blank_item ''b'' None Queued]
      [\<lparr>e_item = ''a'', e_depends_on = ''b'', e_kind = EkBlocks\<rparr>, \<lparr>e_item = ''b'', e_depends_on = ''a'', e_kind = EkBlocks\<rparr>]"
  have "cycles (Arcs_build ?s False {}) = [[0, 1]]" by code_simp
  moreover have "ar_nodes (Arcs_build ?s False {}) = [''a'', ''b'']" by code_simp
  ultimately have "{''a'', ''b''} \<in> (\<lambda>c. (\<lambda>n. ar_nodes (Arcs_build ?s False {}) ! n) ` set c) ` set (cycles (Arcs_build ?s False {}))"
    by simp
  then have "{''a'', ''b''} \<in> {{y. (depends ?s False {})\<^sup>+\<^sup>+ x y \<and> (depends ?s False {})\<^sup>+\<^sup>+ y x} | x. (depends ?s False {})\<^sup>+\<^sup>+ x x}"
    using cycles_are_the_dependency_cycles[OF wf_Snapshot_new, of _ _ False "{}"] by simp
  then obtain x where "{''a'', ''b''} = {y. (depends ?s False {})\<^sup>+\<^sup>+ x y \<and> (depends ?s False {})\<^sup>+\<^sup>+ y x}" by blast
  then have "(depends ?s False {})\<^sup>+\<^sup>+ x ''a''" "(depends ?s False {})\<^sup>+\<^sup>+ ''a'' x" by blast+
  then show ?thesis by (meson tranclp_trans)
qed

text \<open>The cycle a rejection names is a real one: for every cycle the search returns, the path is found, it
  starts and ends at the cycle's first row, has at least one arc, every item on it depends on the next,
  and it stays inside the cycle.\<close>

theorem cycle_path_is_a_cycle:
  fixes s :: Snapshot and all_kinds :: bool and skip :: "Edge set"
  defines "a \<equiv> Arcs_build s all_kinds skip"
  assumes "wf_snap s" and "c \<in> set (cycles a)"
  shows "\<exists>path. cycle_path a c = Some path \<and> length path \<ge> 2 \<and> hd path = ar_nodes a ! hd c \<and> last path = hd path
    \<and> successively (depends s all_kinds skip) path \<and> set path \<subseteq> (\<lambda>n. ar_nodes a ! n) ` set c"
proof -
  let ?R = "\<lambda>n m. m \<in> set (succs a n)"
  have R: "arc (ar_out a) = ?R" by (simp add: fun_eq_iff built_arc)
  have "c \<noteq> []" using cycles_nonempty assms(3) unfolding a_def by blast
  then have hd: "hd c \<in> set c" by simp
  note nodes = cycle_nodes[OF assms(3)[unfolded a_def] hd, folded a_def, unfolded R]
  have "w \<in> set c" if "?R\<^sup>+\<^sup>+ (hd c) w" "?R\<^sup>*\<^sup>* w (hd c)" for w
    using nodes that by (metis (mono_tags, lifting) mem_Collect_eq rtranclp_tranclp_tranclp)
  from path_search_finds[OF nodes(1) hd this]
  obtain n prev where n: "path_search a c (hd c) [hd c] [hd c] [] = (Some n, prev)" "rooted a c (hd c) prev"
    "hd c \<in> set (succs a n)" "n = hd c \<or> n \<in> fst ` set prev" by blast
  from back_walk_trail[of a c "hd c" "[]" prev n] n(2,4)
  obtain trail where trail: "back_walk (hd c) prev (Some n) = Some trail" "set trail \<subseteq> set c"
    "successively ?R (hd c # rev trail)" "last (hd c # rev trail) = n" by auto
  let ?p = "(hd c # rev trail) @ [hd c]"
  have succ: "successively ?R ?p" unfolding successively_append_iff using trail(3,4) n(3) by simp
  have "successively (\<lambda>x y. depends s all_kinds skip (ar_nodes a ! x) (ar_nodes a ! y)) ?p"
    using succ by (rule successively_mono) (auto simp: a_def build_succs[OF assms(2)] built_node)
  then have "successively (depends s all_kinds skip) (map (\<lambda>n. ar_nodes a ! n) ?p)"
    by (simp only: successively_map)
  moreover have "cycle_path a c = Some (map (\<lambda>n. ar_nodes a ! n) ?p)"
    using n(1) trail(1) by (simp add: cycle_path_def Let_def)
  ultimately show ?thesis using trail(2) hd by (intro exI[of _ "map (\<lambda>n. ar_nodes a ! n) ?p"]) auto
qed

lemma cycle_path_is_a_cycle_witness:
  "\<exists>path. cycle_path (Arcs_build (Snapshot_new [blank_item ''a'' None Queued, blank_item ''b'' None Queued]
      [\<lparr>e_item = ''a'', e_depends_on = ''b'', e_kind = EkBlocks\<rparr>, \<lparr>e_item = ''b'', e_depends_on = ''a'', e_kind = EkBlocks\<rparr>])
      False {}) [0, 1] = Some path \<and> length path \<ge> 2 \<and> last path = hd path"
proof -
  let ?s = "Snapshot_new [blank_item ''a'' None Queued, blank_item ''b'' None Queued]
      [\<lparr>e_item = ''a'', e_depends_on = ''b'', e_kind = EkBlocks\<rparr>, \<lparr>e_item = ''b'', e_depends_on = ''a'', e_kind = EkBlocks\<rparr>]"
  have "[0, 1] \<in> set (cycles (Arcs_build ?s False {}))" by code_simp
  from cycle_path_is_a_cycle[OF wf_Snapshot_new this] show ?thesis by blast
qed

end
