(* ===== verification/Priority.thy ===== *)
theory Priority
  imports CascadeOutcomes "HOL-Library.List_Lexorder" "HOL-Library.Char_ord"
    "HOL-Library.Product_Lexorder" "HOL-Library.Multiset"
begin

text \<open>
  Scheduling priorities, \<^verbatim>\<open>rustykrab-control/src/graph/priority.rs\<close>: the urgency a prerequisite inherits from
  the open work that needs it (\<open>scheduling_priorities\<close>) and the ordered list of pending leaves that
  dispatch and the UIs read (\<open>priority_list\<close>). The SHA-256 digest of the serialized entries is a
  parameter. Item ids are compared as byte strings; on characters below 256 the order of UTF-8 bytes is
  the order of the characters. A rank is looked up with \<open>rank_of\<close>; the source indexes a map that has a
  rank for each row.
\<close>

record SchedulingPriority =
  sp_priority :: int
  sp_waiters :: nat

datatype ordering = Less | Equal | Greater

definition cmp :: "'a::linorder \<Rightarrow> 'a \<Rightarrow> ordering" where
  "cmp a b = (if a < b then Less else if a = b then Equal else Greater)"

definition then_with :: "ordering \<Rightarrow> ordering \<Rightarrow> ordering" where
  "then_with a b = (if a = Equal then b else a)"

definition SchedulingPriority_compare :: "SchedulingPriority \<Rightarrow> SchedulingPriority \<Rightarrow> ordering" where
  "SchedulingPriority_compare self other =
     then_with (cmp (sp_priority other) (sp_priority self)) (cmp (sp_waiters other) (sp_waiters self))"

record PriorityDependency =
  pd_item :: work_item_id
  pd_title :: string

record PriorityEntry =
  pe_position :: nat
  pe_item :: work_item_id
  pe_title :: string
  pe_objective :: string
  pe_done_when :: string
  pe_description_truncated :: bool
  pe_status :: Status
  pe_base_priority :: int
  pe_effective_priority :: int
  pe_waiters :: nat
  pe_goal :: "PriorityDependency option"
  pe_waiting_on :: "PriorityDependency list"
  pe_wait_reason :: string

record PriorityList =
  pl_revision :: string
  pl_entries :: "PriorityEntry list"

section \<open>Inherited urgency\<close>

definition unreleased_alternative :: "Snapshot \<Rightarrow> WorkItem \<Rightarrow> bool" where
  "unreleased_alternative s item =
     list_ex (\<lambda>edge. e_kind edge = EkConditionalOnFailure \<and> verdict s edge \<noteq> VSatisfied) (edges_held_by s (wi_id item))"

definition interested :: "Snapshot \<Rightarrow> timestamp \<Rightarrow> WorkItem \<Rightarrow> bool" where
  "interested s now item =
     (\<not> is_closed (wi_status item) \<and> wi_held_by item = None
      \<and> (case wi_expires_at item of None \<Rightarrow> True | Some t \<Rightarrow> now < t)
      \<and> trigger_fired s (wi_id item) now \<and> \<not> unreleased_alternative s item)"

definition donates :: "Snapshot \<Rightarrow> timestamp \<Rightarrow> WorkItem \<Rightarrow> bool" where
  \<comment> \<open>an interested source none of whose ancestors is uninterested\<close>
  "donates s now source =
     (interested s now source
      \<and> \<not> list_ex (\<lambda>p. \<not> interested s now p) (List.map_filter (snap_item s) (ancestors s (wi_id source))))"

definition unmet :: "Snapshot \<Rightarrow> Edge \<Rightarrow> work_item_id option" where
  "unmet s edge =
     (case snap_item s (e_depends_on edge) of
        None \<Rightarrow> None
      | Some up \<Rightarrow>
          if (case e_kind edge of
                EkBlocks \<Rightarrow> wi_status up \<noteq> Done
              | EkWaitsFor \<Rightarrow> \<not> is_closed (wi_status up)
              | _ \<Rightarrow> False)
          then Some (wi_id up) else None)"

definition prerequisites :: "Snapshot \<Rightarrow> work_item_id \<Rightarrow> work_item_id list" where
  \<comment> \<open>what one live item pushes on \<open>pending\<close>, in order\<close>
  "prerequisites s k =
     children s k
     @ concat (map (\<lambda>owner. List.map_filter (unmet s) (edges_held_by s owner)) (k # ancestors s k))"

definition live :: "Snapshot \<Rightarrow> work_item_id \<Rightarrow> bool" where
  "live s k =
     (case snap_item s k of
        None \<Rightarrow> False
      | Some item \<Rightarrow> \<not> is_closed (wi_status item) \<and> \<not> unreleased_alternative s item)"

definition bump :: "int \<Rightarrow> work_item_id \<Rightarrow> (work_item_id \<times> SchedulingPriority) list \<Rightarrow> (work_item_id \<times> SchedulingPriority) list" where
  "bump p k ranks =
     (case map_of ranks k of
        None \<Rightarrow> ranks
      | Some rank \<Rightarrow> AList.update k \<lparr>sp_priority = max (sp_priority rank) p, sp_waiters = sp_waiters rank + 1\<rparr> ranks)"

definition pending_ids :: "Snapshot \<Rightarrow> work_item_id set" where
  "pending_ids s = (\<Union>p \<in> set (sn_children s). set (snd p)) \<union> wi_id ` set (sn_items s)"

lemma finite_pending_ids [simp]: "finite (pending_ids s)"
  by (simp add: pending_ids_def)

lemma snap_item_mem: "snap_item s k = Some i \<Longrightarrow> i \<in> set (sn_items s)"
  by (auto simp: snap_item_def nth_opt_def split: if_splits Option.bind_splits)

lemma prerequisites_subset: "set (prerequisites s k) \<subseteq> pending_ids s"
proof -
  have "set (children s k) \<subseteq> pending_ids s"
    using hm_list_values[of "sn_children s" k] by (auto simp: children_def pending_ids_def)
  moreover have "unmet s e = Some x \<Longrightarrow> x \<in> pending_ids s" for e x
    by (auto simp: unmet_def pending_ids_def dest: snap_item_mem split: option.splits if_splits)
  ultimately show ?thesis by (auto simp: prerequisites_def map_filter_mem)
qed

text \<open>\<open>pending\<close> is a stack whose head is the top: \<open>extend\<close> and \<open>push\<close> put the last element on top.\<close>

function donate_loop ::
  "Snapshot \<Rightarrow> WorkItem \<Rightarrow> work_item_id list \<Rightarrow> work_item_id list \<Rightarrow> (work_item_id \<times> SchedulingPriority) list
     \<Rightarrow> (work_item_id \<times> SchedulingPriority) list" where
  "donate_loop s source [] seen ranks = ranks"
| "donate_loop s source (k # pending) seen ranks =
     (if k \<in> set seen then donate_loop s source pending seen ranks
      else if \<not> live s k then donate_loop s source pending (k # seen) ranks
      else
        donate_loop s source (rev (prerequisites s k) @ pending) (k # seen)
          (if k \<noteq> wi_id source then bump (wi_priority source) k ranks else ranks))"
  by pat_completeness auto
termination
proof (relation "measures [\<lambda>(s, source, pending, seen, ranks). card (set pending \<union> pending_ids s - set seen),
    \<lambda>(s, source, pending, seen, ranks). length pending]", goal_cases)
  case 1
  then show ?case by simp
next
  case (2 s source k pending seen ranks)
  have "card (set pending \<union> pending_ids s - set seen) \<le> card (set (k # pending) \<union> pending_ids s - set seen)"
    by (rule worklist_le) auto
  then show ?case by (simp add: le_less)
next
  case (3 s source k pending seen ranks)
  then have "card (set pending \<union> pending_ids s - insert k (set seen)) < card (set (k # pending) \<union> pending_ids s - set seen)"
    by (intro worklist_less) auto
  then show ?case by simp
next
  case (4 s source k pending seen ranks)
  then have "card (set (rev (prerequisites s k) @ pending) \<union> pending_ids s - insert k (set seen))
      < card (set (k # pending) \<union> pending_ids s - set seen)"
    using prerequisites_subset[of s k] by (intro worklist_less) auto
  then show ?case by simp
qed

definition base_ranks :: "Snapshot \<Rightarrow> (work_item_id \<times> SchedulingPriority) list" where
  "base_ranks s = map (\<lambda>i. (wi_id i, \<lparr>sp_priority = wi_priority i, sp_waiters = 0\<rparr>)) (sn_items s)"

definition scheduling_priorities :: "Snapshot \<Rightarrow> timestamp \<Rightarrow> (work_item_id \<times> SchedulingPriority) list" where
  "scheduling_priorities s now =
     foldl (\<lambda>ranks source. donate_loop s source [wi_id source] [] ranks) (base_ranks s)
       (filter (donates s now) (sn_items s))"

section \<open>The ordered list\<close>

definition rank_of :: "(work_item_id \<times> SchedulingPriority) list \<Rightarrow> work_item_id \<Rightarrow> SchedulingPriority" where
  "rank_of ranks k = (case map_of ranks k of Some r \<Rightarrow> r | None \<Rightarrow> \<lparr>sp_priority = 0, sp_waiters = 0\<rparr>)"

definition compare_items :: "(work_item_id \<times> SchedulingPriority) list \<Rightarrow> WorkItem \<Rightarrow> WorkItem \<Rightarrow> ordering" where
  "compare_items ranks a b =
     then_with (then_with (SchedulingPriority_compare (rank_of ranks (wi_id a)) (rank_of ranks (wi_id b)))
                 (cmp (wi_created_at a) (wi_created_at b)))
       (cmp (wi_id a) (wi_id b))"

definition before :: "(work_item_id \<times> SchedulingPriority) list \<Rightarrow> WorkItem \<Rightarrow> WorkItem \<Rightarrow> bool" where
  "before ranks a b = (compare_items ranks a b \<noteq> Greater)"

definition dependency :: "Snapshot \<Rightarrow> work_item_id \<Rightarrow> PriorityDependency" where
  "dependency s k =
     \<lparr>pd_item = k, pd_title = (case snap_item s k of None \<Rightarrow> ''Missing prerequisite'' | Some i \<Rightarrow> wi_title i)\<rparr>"

definition waiting_on :: "Snapshot \<Rightarrow> WorkItem \<Rightarrow> work_item_id list" where
  \<comment> \<open>the \<open>BTreeSet\<close> \<open>waiting\<close>, in order\<close>
  "waiting_on s item =
     sort (remdups (concat (map (\<lambda>owner.
       map e_depends_on (filter (\<lambda>edge. is_ordering (e_kind edge) \<and> verdict s edge \<noteq> VSatisfied) (edges_held_by s owner))
       @ (if owner \<noteq> wi_id item \<and> (case snap_item s owner of None \<Rightarrow> False | Some i \<Rightarrow> wi_held_by i \<noteq> None)
          then [owner] else []))
       (wi_id item # ancestors s (wi_id item)))))"

definition status_wait_reason :: "Status \<Rightarrow> string" where
  "status_wait_reason st =
     (case st of
        Status.Ready \<Rightarrow> ''Ready for dispatch checks''
      | Queued \<Rightarrow> ''Waiting for readiness checks''
      | Leased \<Rightarrow> ''Assigned to a worker''
      | Running \<Rightarrow> ''Running''
      | Verifying \<Rightarrow> ''Checking the result''
      | Blocked NeedsConsent \<Rightarrow> ''Needs your permission''
      | Blocked NeedsDecision \<Rightarrow> ''Needs your decision''
      | Blocked NeedsCredential \<Rightarrow> ''Needs a credential''
      | Blocked BudgetExhausted \<Rightarrow> ''Stopped at its execution budget''
      | Blocked NeedsTool \<Rightarrow> ''Waiting for a required tool''
      | Blocked _ \<Rightarrow> ''Waiting for recovery''
      | _ \<Rightarrow> ''Closed'')"

definition wait_reason :: "Snapshot \<Rightarrow> timestamp \<Rightarrow> WorkItem \<Rightarrow> string" where
  "wait_reason s now item =
     (if wi_held_by item \<noteq> None then ''Waiting for your approval''
      else if waiting_on s item \<noteq> [] then ''Waiting for prerequisite work''
      else if \<not> trigger_fired s (wi_id item) now then ''Waiting for its trigger''
      else status_wait_reason (wi_status item))"

definition priority_entry ::
  "Snapshot \<Rightarrow> timestamp \<Rightarrow> (work_item_id \<times> SchedulingPriority) list \<Rightarrow> nat \<times> WorkItem \<Rightarrow> PriorityEntry" where
  "priority_entry s now ranks row =
     (case row of (index, item) \<Rightarrow>
        \<lparr>pe_position = index + 1, pe_item = wi_id item, pe_title = wi_title item,
         pe_objective = take 800 (wi_objective item), pe_done_when = take 400 (wi_done_when item),
         pe_description_truncated = (800 < length (wi_objective item) \<or> 400 < length (wi_done_when item)),
         pe_status = wi_status item, pe_base_priority = wi_priority item,
         pe_effective_priority = sp_priority (rank_of ranks (wi_id item)),
         pe_waiters = sp_waiters (rank_of ranks (wi_id item)),
         pe_goal = (if ancestors s (wi_id item) = [] then None
                    else Some (dependency s (last (ancestors s (wi_id item))))),
         pe_waiting_on = map (dependency s) (waiting_on s item),
         pe_wait_reason = wait_reason s now item\<rparr>)"

definition pending_leaves :: "Snapshot \<Rightarrow> timestamp \<Rightarrow> WorkItem list" where
  "pending_leaves s now =
     sort_by (before (scheduling_priorities s now))
       (filter (\<lambda>i. \<not> is_closed (wi_status i) \<and> \<not> has_children s (wi_id i)) (sn_items s))"

definition priority_list :: "(PriorityEntry list \<Rightarrow> string) \<Rightarrow> Snapshot \<Rightarrow> timestamp \<Rightarrow> PriorityList" where
  "priority_list digest s now =
     (let items = pending_leaves s now;
          entries = map (priority_entry s now (scheduling_priorities s now)) (zip [0..<length items] items)
      in \<lparr>pl_revision = digest entries, pl_entries = entries\<rparr>)"

section \<open>Who needs an item\<close>

text \<open>
  \<open>needs s a k\<close>: the open item \<open>k\<close> is \<open>a\<close> or is reached from it through unmet prerequisites and children
  of live items; a plan B that is not released yet is not entered.
\<close>

definition needs :: "Snapshot \<Rightarrow> work_item_id \<Rightarrow> work_item_id \<Rightarrow> bool" where
  "needs s a k \<longleftrightarrow> (\<lambda>x y. live s x \<and> y \<in> set (prerequisites s x))\<^sup>*\<^sup>* a k \<and> live s k"

definition closed_under_needs :: "Snapshot \<Rightarrow> work_item_id set \<Rightarrow> bool" where
  "closed_under_needs s R \<longleftrightarrow> (\<forall>k \<in> R. live s k \<longrightarrow> set (prerequisites s k) \<subseteq> R)"

lemma donate_loop_visits:
  "\<exists>vs. donate_loop s source pending seen ranks = foldl (\<lambda>r k. bump (wi_priority source) k r) ranks (filter (\<lambda>k. k \<noteq> wi_id source) vs)
     \<and> distinct vs \<and> set vs \<inter> set seen = {} \<and> (\<forall>k \<in> set vs. live s k)
     \<and> (\<forall>R. set pending \<subseteq> R \<longrightarrow> closed_under_needs s R \<longrightarrow> set vs \<subseteq> R)
     \<and> (\<forall>k \<in> set pending. live s k \<longrightarrow> k \<in> set seen \<union> set vs)
     \<and> (\<forall>k \<in> set vs. \<forall>y \<in> set (prerequisites s k). live s y \<longrightarrow> y \<in> set seen \<union> set vs)"
proof (induction s source pending seen ranks rule: donate_loop.induct)
  case (1 s source seen ranks)
  then show ?case by (intro exI[of _ "[]"]) simp
next
  case (2 s source k pending seen ranks)
  consider (seen) "k \<in> set seen" | (dead) "k \<notin> set seen" "\<not> live s k" | (live) "k \<notin> set seen" "live s k" by blast
  then show ?case
  proof cases
    case seen
    from "2.IH"(1)[OF seen] seen show ?thesis by (elim exE) (rule exI, auto)
  next
    case dead
    from "2.IH"(2)[OF dead] dead show ?thesis by (elim exE) (rule exI, auto)
  next
    case live
    then have live': "\<not> \<not> live s k" by simp
    let ?ranks = "if k \<noteq> wi_id source then bump (wi_priority source) k ranks else ranks"
    obtain vs where vs: "donate_loop s source (rev (prerequisites s k) @ pending) (k # seen) ?ranks
        = foldl (\<lambda>r k. bump (wi_priority source) k r) ?ranks (filter (\<lambda>k. k \<noteq> wi_id source) vs)"
      "distinct vs" "set vs \<inter> set (k # seen) = {}" "\<forall>k \<in> set vs. live s k"
      "\<forall>R. set (rev (prerequisites s k) @ pending) \<subseteq> R \<longrightarrow> closed_under_needs s R \<longrightarrow> set vs \<subseteq> R"
      "\<forall>x \<in> set (rev (prerequisites s k) @ pending). live s x \<longrightarrow> x \<in> set (k # seen) \<union> set vs"
      "\<forall>x \<in> set vs. \<forall>y \<in> set (prerequisites s x). live s y \<longrightarrow> y \<in> set (k # seen) \<union> set vs"
      using "2.IH"(3)[OF live(1) live'] by (elim exE conjE)
    have "set (k # vs) \<subseteq> R" if "set (k # pending) \<subseteq> R" "closed_under_needs s R" for R
    proof -
      have "set (rev (prerequisites s k) @ pending) \<subseteq> R" using that live by (auto simp: closed_under_needs_def)
      with vs(5) that show ?thesis by auto
    qed
    with vs live show ?thesis by (intro exI[of _ "k # vs"]) auto
  qed
qed

declare donate_loop.simps(2) [simp del]

lemma donate_visits:
  obtains vs where "donate_loop s source [wi_id source] [] ranks
      = foldl (\<lambda>r k. bump (wi_priority source) k r) ranks (filter (\<lambda>k. k \<noteq> wi_id source) vs)"
    "distinct vs" "set vs = {k. needs s (wi_id source) k}"
proof -
  let ?a = "wi_id source" and ?R = "\<lambda>x y. live s x \<and> y \<in> set (prerequisites s x)"
  obtain vs where vs: "donate_loop s source [?a] [] ranks
      = foldl (\<lambda>r k. bump (wi_priority source) k r) ranks (filter (\<lambda>k. k \<noteq> ?a) vs)"
    "distinct vs" "set vs \<inter> set [] = {}" "\<forall>k \<in> set vs. live s k"
    "\<forall>R. set [?a] \<subseteq> R \<longrightarrow> closed_under_needs s R \<longrightarrow> set vs \<subseteq> R"
    "\<forall>k \<in> set [?a]. live s k \<longrightarrow> k \<in> set [] \<union> set vs"
    "\<forall>k \<in> set vs. \<forall>y \<in> set (prerequisites s k). live s y \<longrightarrow> y \<in> set [] \<union> set vs"
    using donate_loop_visits[of s source "[?a]" "[]" ranks] by (elim exE conjE)
  have "closed_under_needs s {k. ?R\<^sup>*\<^sup>* ?a k}"
    by (auto simp: closed_under_needs_def intro: rtranclp.rtrancl_into_rtrancl)
  then have "set vs \<subseteq> {k. ?R\<^sup>*\<^sup>* ?a k}" using vs(5) by simp
  moreover have "live s k \<longrightarrow> k \<in> set vs" if "?R\<^sup>*\<^sup>* ?a k" for k
    using that by induction (use vs(6,7) in auto)
  ultimately have "set vs = {k. needs s ?a k}" using vs(4) by (auto simp: needs_def)
  with vs(1,2) that show ?thesis by blast
qed

lemma map_of_bump:
  "map_of (bump p k ranks) j = (if j = k then map_option (\<lambda>r. \<lparr>sp_priority = max (sp_priority r) p, sp_waiters = sp_waiters r + 1\<rparr>) (map_of ranks k)
     else map_of ranks j)"
  by (auto simp: bump_def update_conv split: option.splits)

lemma map_of_bumps:
  "distinct vs \<Longrightarrow> map_of (foldl (\<lambda>r k. bump p k r) ranks vs) j
     = (if j \<in> set vs then map_option (\<lambda>r. \<lparr>sp_priority = max (sp_priority r) p, sp_waiters = sp_waiters r + 1\<rparr>) (map_of ranks j)
        else map_of ranks j)"
  by (induction vs arbitrary: ranks) (auto simp: map_of_bump)

lemma donate_rank:
  "map_of (donate_loop s source [wi_id source] [] ranks) k
     = (if k \<noteq> wi_id source \<and> needs s (wi_id source) k
        then map_option (\<lambda>r. \<lparr>sp_priority = max (sp_priority r) (wi_priority source), sp_waiters = sp_waiters r + 1\<rparr>) (map_of ranks k)
        else map_of ranks k)"
  by (rule donate_visits[of s source ranks]) (simp add: map_of_bumps)

lemma donate_all_rank:
  assumes "map_of ranks k = Some r"
  shows "map_of (foldl (\<lambda>ranks source. donate_loop s source [wi_id source] [] ranks) ranks sources) k
    = Some (let D = filter (\<lambda>src. wi_id src \<noteq> k \<and> needs s (wi_id src) k) sources in
        \<lparr>sp_priority = foldl max (sp_priority r) (map wi_priority D), sp_waiters = sp_waiters r + length D\<rparr>)"
  using assms
proof (induction sources arbitrary: ranks r)
  case Nil
  then show ?case by (cases r) simp
next
  case (Cons src sources)
  let ?ranks = "donate_loop s src [wi_id src] [] ranks"
  show ?case
  proof (cases "wi_id src \<noteq> k \<and> needs s (wi_id src) k")
    case True
    then have "map_of ?ranks k = Some \<lparr>sp_priority = max (sp_priority r) (wi_priority src), sp_waiters = sp_waiters r + 1\<rparr>"
      using Cons.prems by (auto simp: donate_rank)
    from Cons.IH[OF this] True show ?thesis by (simp add: Let_def)
  next
    case False
    then have "map_of ?ranks k = Some r" using Cons.prems by (auto simp: donate_rank)
    from Cons.IH[OF this] False show ?thesis by (simp add: Let_def)
  qed
qed

section \<open>Sorting\<close>

text \<open>What \<open>sort_by\<close> needs of a comparator, and what it then returns.\<close>

locale comparator =
  fixes le :: "'a \<Rightarrow> 'a \<Rightarrow> bool"
  assumes le_total: "le a b \<or> le b a"
    and le_trans: "le a b \<Longrightarrow> le b c \<Longrightarrow> le a c"
begin

lemma insert_by_sorted: "sorted_wrt le xs \<Longrightarrow> sorted_wrt le (insert_by le x xs)"
proof (induction xs)
  case (Cons y ys)
  have mem: "set (insert_by le x ys) = insert x (set ys)" by (induction ys) auto
  show ?case
  proof (cases "le x y")
    case True
    with Cons.prems show ?thesis by (auto intro: le_trans)
  next
    case False
    then have "le y x" using le_total by blast
    with False Cons mem show ?thesis by auto
  qed
qed simp

lemma sort_by_sorted: "sorted_wrt le (sort_by le xs)"
  unfolding sort_by_def by (induction xs) (simp_all add: insert_by_sorted)

lemma mset_insert_by: "mset (insert_by le x xs) = add_mset x (mset xs)"
  by (induction xs) auto

lemma mset_sort_by: "mset (sort_by le xs) = mset xs"
  unfolding sort_by_def by (induction xs) (simp_all add: mset_insert_by)

end

definition rank_key :: "(work_item_id \<times> SchedulingPriority) list \<Rightarrow> WorkItem \<Rightarrow> int \<times> int \<times> timestamp \<times> work_item_id" where
  "rank_key ranks i = (let r = rank_of ranks (wi_id i) in (- sp_priority r, - int (sp_waiters r), wi_created_at i, wi_id i))"

lemma before_key: "before ranks a b \<longleftrightarrow> rank_key ranks a \<le> rank_key ranks b"
  by (auto simp: before_def compare_items_def SchedulingPriority_compare_def then_with_def cmp_def rank_key_def
      Let_def less_eq_prod_def less_prod_def split: if_splits)

interpretation by_rank: comparator "before ranks" for ranks :: "(work_item_id \<times> SchedulingPriority) list"
  by unfold_locales (auto simp: before_key)

interpretation by_depth: comparator deeper
  by unfold_locales (auto simp: deeper_def)

section \<open>Properties\<close>

text \<open>C31: inherited urgency, exactly. An item's effective priority is the highest of its own base priority
  and the base priorities of the donating items that need it, and its waiters are the number of distinct
  such items, each counted once however many paths lead from it.\<close>

theorem scheduling_priorities_spec:
  assumes "wf_snap s" "snap_item s k = Some i"
  shows "rank_of (scheduling_priorities s now) k =
    (let D = filter (\<lambda>src. wi_id src \<noteq> k \<and> needs s (wi_id src) k) (filter (donates s now) (sn_items s)) in
       \<lparr>sp_priority = foldl max (wi_priority i) (map wi_priority D), sp_waiters = length D\<rparr>)"
proof -
  have inj: "inj_on wi_id (set (sn_items s))" using snap.ids_distinct[OF assms(1)] by (simp add: distinct_map)
  have i: "i \<in> set (sn_items s)" "wi_id i = k" using assms snap.lookup_Some_iff by blast+
  have "map_of (map (\<lambda>i. (wi_id i, f i)) xs) (wi_id x) = Some (f x)"
    if "inj_on wi_id (set xs)" "x \<in> set xs" for f :: "WorkItem \<Rightarrow> SchedulingPriority" and xs x
    using that by (induction xs) (auto simp: inj_on_def)
  from this[OF inj i(1), of "\<lambda>i. \<lparr>sp_priority = wi_priority i, sp_waiters = 0\<rparr>"]
  have "map_of (base_ranks s) k = Some \<lparr>sp_priority = wi_priority i, sp_waiters = 0\<rparr>"
    by (simp add: base_ranks_def i(2))
  from donate_all_rank[OF this] show ?thesis by (simp add: scheduling_priorities_def rank_of_def)
qed

lemma scheduling_priorities_spec_witness:
  "sp_waiters (rank_of (scheduling_priorities demo 0) ''z'') = 0"
proof -
  have "snap_item demo ''z'' = Some (blank_item ''z'' None Done)" by code_simp
  moreover have "\<not> live demo ''z''" by code_simp
  ultimately show ?thesis
    using scheduling_priorities_spec[OF wf_demo, of "''z''" _ 0] by (simp add: needs_def)
qed

text \<open>the list that dispatch reads holds each open leaf exactly once, ordered by effective priority
  (highest first), then by waiters (most first), then by age and id, with positions counted from one.\<close>

theorem priority_list_ordered:
  "mset (map pe_item (pl_entries (priority_list digest s now)))
     = mset (map wi_id (filter (\<lambda>i. \<not> is_closed (wi_status i) \<and> \<not> has_children s (wi_id i)) (sn_items s)))
   \<and> map pe_position (pl_entries (priority_list digest s now)) = [1..<length (pl_entries (priority_list digest s now)) + 1]
   \<and> sorted_wrt (\<lambda>a b. (- pe_effective_priority a, - int (pe_waiters a)) \<le> (- pe_effective_priority b, - int (pe_waiters b)))
       (pl_entries (priority_list digest s now))"
proof -
  let ?ranks = "scheduling_priorities s now" and ?items = "pending_leaves s now"
  have entries: "pl_entries (priority_list digest s now) = map (priority_entry s now ?ranks) (zip [0..<length ?items] ?items)"
    by (simp add: priority_list_def Let_def)
  have "pe_item (priority_entry s now ?ranks x) = wi_id (snd x)" for x
    by (simp add: priority_entry_def split: prod.splits)
  then have "map pe_item (pl_entries (priority_list digest s now)) = map wi_id (map snd (zip [0..<length ?items] ?items))"
    by (simp only: entries map_map comp_def)
  then have items: "mset (map pe_item (pl_entries (priority_list digest s now)))
      = mset (map wi_id (filter (\<lambda>i. \<not> is_closed (wi_status i) \<and> \<not> has_children s (wi_id i)) (sn_items s)))"
    by (simp add: pending_leaves_def by_rank.mset_sort_by)
  have "pe_position (priority_entry s now ?ranks x) = Suc (fst x)" for x
    by (simp add: priority_entry_def split: prod.splits)
  then have "map pe_position (pl_entries (priority_list digest s now)) = map Suc (map fst (zip [0..<length ?items] ?items))"
    by (simp only: entries map_map comp_def)
  then have positions: "map pe_position (pl_entries (priority_list digest s now)) = [1..<length (pl_entries (priority_list digest s now)) + 1]"
    by (simp add: entries map_Suc_upt)
  have "sorted_wrt (before ?ranks) ?items" by (simp add: pending_leaves_def by_rank.sort_by_sorted)
  then have "sorted_wrt (\<lambda>a b. before ?ranks (snd a) (snd b)) (zip [0..<length ?items] ?items)"
    using sorted_wrt_map[of "before ?ranks" snd "zip [0..<length ?items] ?items"] by simp
  then have "sorted_wrt (\<lambda>a b. (- pe_effective_priority a, - int (pe_waiters a)) \<le> (- pe_effective_priority b, - int (pe_waiters b)))
      (pl_entries (priority_list digest s now))"
    unfolding entries sorted_wrt_map
    by (rule sorted_wrt_mono_rel[rotated])
      (auto simp: before_key rank_key_def Let_def priority_entry_def less_eq_prod_def split: prod.splits)
  with items positions show ?thesis by blast
qed

end
