(* ===== verification/Gaps.thy ===== *)
theory Gaps
  imports Work
begin

text \<open>
  The structured half of the failure taxonomy, \<^verbatim>\<open>rustykrab-control/src/errors/mod.rs\<close>: what a provider,
  verifier, policy check or budget reports, the capability gaps an error records
  (\<open>gap_detail\<close>, \<open>gap_of\<close>), and the \<open>internal\<close> item order 3 of the ladder files
  (\<open>internal_item_draft\<close>). The properties: a gap written into an error's detail is read back, and
  the drafted item carries the failure's identity and all its evidence.
\<close>

section \<open>What failed\<close>

datatype ProviderProblem =
    PpEmpty | PpFormat | PpRefusal | PpLoop | PpHallucinatedTool | PpUnavailable

fun ProviderProblem_subclass :: "ProviderProblem \<Rightarrow> ErrorSubclass" where
  "ProviderProblem_subclass PpEmpty = EsEmpty"
| "ProviderProblem_subclass PpFormat = EsFormat"
| "ProviderProblem_subclass PpRefusal = EsRefusal"
| "ProviderProblem_subclass PpLoop = EsLoop"
| "ProviderProblem_subclass PpHallucinatedTool = EsHallucinatedTool"
| "ProviderProblem_subclass PpUnavailable = EsUpstreamError"

datatype VerifierVerdict = VvClaimMismatch | VvCheckFailed | VvIncomplete

fun VerifierVerdict_subclass :: "VerifierVerdict \<Rightarrow> ErrorSubclass" where
  "VerifierVerdict_subclass VvClaimMismatch = EsClaimMismatch"
| "VerifierVerdict_subclass VvCheckFailed = EsCheckFailed"
| "VerifierVerdict_subclass VvIncomplete = EsIncomplete"

datatype PolicyStop = PsScope | PsSingleWriter | PsCeiling

fun PolicyStop_subclass :: "PolicyStop \<Rightarrow> ErrorSubclass" where
  "PolicyStop_subclass PsScope = EsScope"
| "PolicyStop_subclass PsSingleWriter = EsSingleWriter"
| "PolicyStop_subclass PsCeiling = EsCeiling"

datatype BudgetKind = BkIterations | BkTokens | BkWall | BkRepairs

fun BudgetKind_subclass :: "BudgetKind \<Rightarrow> ErrorSubclass" where
  "BudgetKind_subclass BkIterations = EsIterations"
| "BudgetKind_subclass BkTokens = EsTokens"
| "BudgetKind_subclass BkWall = EsWall"
| "BudgetKind_subclass BkRepairs = EsRepairs"

section \<open>Capability gaps\<close>

datatype GapKind =
    GkTool | GkCredential | GkConsent | GkCompute | GkKnowledge | GkCapacity | GkInstall

definition GapKind_ALL :: "GapKind list" where
  "GapKind_ALL =
     [GkTool, GkCredential, GkConsent, GkCompute, GkKnowledge, GkCapacity, GkInstall]"

fun GapKind_as_str :: "GapKind \<Rightarrow> string" where
  "GapKind_as_str GkTool = ''tool''"
| "GapKind_as_str GkCredential = ''credential''"
| "GapKind_as_str GkConsent = ''consent''"
| "GapKind_as_str GkCompute = ''compute''"
| "GapKind_as_str GkKnowledge = ''knowledge''"
| "GapKind_as_str GkCapacity = ''capacity''"
| "GapKind_as_str GkInstall = ''install''"

definition GapKind_parse :: "string \<Rightarrow> GapKind option" where
  "GapKind_parse raw = find (\<lambda>g. GapKind_as_str g = raw) GapKind_ALL"

fun GapKind_subclass :: "GapKind \<Rightarrow> ErrorSubclass" where
  "GapKind_subclass GkTool = EsToolGap"
| "GapKind_subclass GkCredential = EsCredential"
| "GapKind_subclass GkConsent = EsConsent"
| "GapKind_subclass GkCompute = EsCompute"
| "GapKind_subclass GkCapacity = EsCompute"
| "GapKind_subclass GkKnowledge = EsKnowledge"
| "GapKind_subclass GkInstall = EsDependency"

fun from_subclass :: "ErrorSubclass \<Rightarrow> GapKind option" where
  "from_subclass EsToolGap = Some GkTool"
| "from_subclass EsCredential = Some GkCredential"
| "from_subclass EsConsent = Some GkConsent"
| "from_subclass EsCompute = Some GkCompute"
| "from_subclass EsKnowledge = Some GkKnowledge"
| "from_subclass EsDependency = Some GkInstall"
| "from_subclass _ = None"

record Gap =
  gp_kind :: GapKind
  gp_subject :: string

definition same_need :: "Gap \<Rightarrow> Gap \<Rightarrow> bool" where
  "same_need a b =
     (gp_kind a = gp_kind b
      \<and> to_lowercase (trim (gp_subject a)) = to_lowercase (trim (gp_subject b)))"

definition gap_detail :: "GapKind \<Rightarrow> string \<Rightarrow> string" where
  "gap_detail gap subject = ''needs '' @ GapKind_as_str gap @ '': '' @ subject"

text \<open>The gap an error's detail names, when its kind agrees with the error's subclass.\<close>

definition named_gap :: "WorkError \<Rightarrow> (GapKind \<times> string) option" where
  "named_gap err =
     (case Option.bind (strip_prefix ''needs '' (er_detail err)) (split_once '': '') of
        None \<Rightarrow> None
      | Some (kind, subject) \<Rightarrow>
          (case GapKind_parse kind of
             None \<Rightarrow> None
           | Some k \<Rightarrow> if GapKind_subclass k = er_subclass err then Some (k, subject) else None))"

definition gap_of :: "WorkError \<Rightarrow> Gap option" where
  "gap_of err =
     (case from_subclass (er_subclass err) of
        None \<Rightarrow> None
      | Some implied \<Rightarrow>
          Some (case named_gap err of
                  Some (kind, subject) \<Rightarrow> \<lparr>gp_kind = kind, gp_subject = subject\<rparr>
                | None \<Rightarrow> \<lparr>gp_kind = implied, gp_subject = er_detail err\<rparr>))"

section \<open>Defects and the items they file\<close>

definition is_defect :: "WorkError \<Rightarrow> bool" where
  "is_defect err = (er_class err = EcUnknown)"

definition unnamed_gap :: "WorkError \<Rightarrow> GapKind option" where
  "unnamed_gap err =
     (case gap_of err of
        None \<Rightarrow> None
      | Some g \<Rightarrow> if trim (gp_subject g) = [] then Some (gp_kind g) else None)"

definition DEFAULT_PROMOTE_THRESHOLD :: u32 where
  "DEFAULT_PROMOTE_THRESHOLD = 3"

definition FAILURE_FINGERPRINT :: string where
  "FAILURE_FINGERPRINT = ''failure_fingerprint''"

definition CLASSIFIER_RULE :: string where
  "CLASSIFIER_RULE = ''classifier_rule''"

definition LANDING_RULE :: string where
  "LANDING_RULE =
     ''This item is done only when it lands something the controller ''
     @ ''can check: a commit on its branch in its worktree, or a `classifier_rule` artifact that ''
     @ ''replays. If you cannot land one, say plainly in the summary what you found, what you ''
     @ ''could not determine and what you need; that conclusion goes to the owner as a question, ''
     @ ''and nothing is marked done.''"

text \<open>The artifact references of the drafted item: the error's own, its identity, the evidence.\<close>

definition draft_refs :: "WorkError \<Rightarrow> ArtifactRef list \<Rightarrow> ArtifactRef list" where
  "draft_refs err evidence =
     foldl push_unique
       (push_unique (er_artifact_refs err)
          \<lparr>ar_kind = FAILURE_FINGERPRINT, ar_value = er_fingerprint err\<rparr>)
       evidence"

text \<open>Title, objective, done-when and constraints, by what the failure is.\<close>

definition draft_texts :: "WorkError \<Rightarrow> string \<times> string \<times> string \<times> string list" where
  "draft_texts err =
     (let fp = er_fingerprint err in
      if is_defect err then
        (''Classify unknown failure '' @ fp,
         ''Add the probe, log line, check or parser that would have classified this ''
           @ ''failure. It was recorded as unknown (observed_by '' @ er_observed_by err @ ''): ''
           @ er_detail err,
         ''Replaying the attached evidence through the classifier yields a class other ''
           @ ''than unknown, and a test pins that classification for fingerprint '' @ fp @ ''.'',
         [''Add measurement only; change no behaviour beyond classification.'',
          ''A message rule may land as a `'' @ CLASSIFIER_RULE
            @ ''` artifact, `<subclass>: <pattern>`; ''
            @ ''it counts once the failure replays through it as classified.''])
      else case unnamed_gap err of
        Some gap \<Rightarrow>
          (''Name the missing '' @ GapKind_as_str gap @ '' in failure '' @ fp,
           ''A capability gap was recorded without naming the '' @ GapKind_as_str gap
             @ '' it lacks (fingerprint '' @ fp @ '', observed_by '' @ er_observed_by err
             @ ''), so no capability item could be filed for it: '' @ er_detail err,
           ''Replaying the attached evidence through the classifier names the missing ''
             @ GapKind_as_str gap @ '', and a test pins that for fingerprint '' @ fp @ ''.'',
           [''Add measurement only; change no behaviour beyond classification.''])
      | None \<Rightarrow>
          (''Stop recurring '' @ ErrorClass_as_str (er_class err) @ ''/''
             @ ErrorSubclass_as_str (er_subclass err) @ '' failure '' @ fp,
           ''The same failure recurred across items (fingerprint '' @ fp @ '', observed_by ''
             @ er_observed_by err @ ''): '' @ er_detail err
             @ ''. Fix the cause, or add the check that catches it before dispatch, instead ''
             @ ''of repairing the symptom again.'',
           ''The attached evidence no longer reproduces the failure, or a check rejects it ''
             @ ''before dispatch, and fingerprint '' @ fp @ '' stops recurring.'',
           []))"

definition internal_item_draft :: "WorkError \<Rightarrow> ArtifactRef list \<Rightarrow> WorkItemDraft" where
  "internal_item_draft err evidence =
     (case draft_texts err of (title, objective, done_when, constraints) \<Rightarrow>
        WorkItemDraft_default
          \<lparr>dr_kind := Some WkInternal,
           dr_title := title,
           dr_objective := objective,
           dr_done_when := done_when,
           dr_constraints := constraints @ [LANDING_RULE],
           dr_artifact_refs := draft_refs err evidence\<rparr>)"

section \<open>Lemmas\<close>

lemma GapKind_mem_ALL: "g \<in> set GapKind_ALL"
  by (cases g) (simp_all add: GapKind_ALL_def)

lemma GapKind_as_str_inj: "inj GapKind_as_str"
proof (rule injI)
  fix a b assume "GapKind_as_str a = GapKind_as_str b" then show "a = b"
    by (cases a; cases b) simp_all
qed

interpretation gap_kind: string_codec GapKind_as_str GapKind_parse
  by unfold_locales
    (auto simp: GapKind_parse_def find_codec[OF GapKind_as_str_inj GapKind_mem_ALL]
      dest: find_Some_mem)

lemma from_subclass_of_gap: "from_subclass (GapKind_subclass k) \<noteq> None"
  by (cases k) simp_all

lemma from_subclass_sound: "from_subclass s = Some k \<Longrightarrow> GapKind_subclass k = s"
  by (cases s) auto

lemma named_gap_subclass: "named_gap err = Some (k, subj) \<Longrightarrow> GapKind_subclass k = er_subclass err"
  by (auto simp: named_gap_def split: option.splits if_splits)

lemma gap_of_subclass: "gap_of err = Some g \<Longrightarrow> GapKind_subclass (gp_kind g) = er_subclass err"
  by (auto simp: gap_of_def split: option.splits dest: named_gap_subclass from_subclass_sound)

lemma gap_of_None_iff: "gap_of err = None \<longleftrightarrow> er_subclass err \<notin> range GapKind_subclass"
proof (cases "from_subclass (er_subclass err)")
  case None
  then have "er_subclass err \<notin> range GapKind_subclass" using from_subclass_of_gap by fastforce
  with None show ?thesis by (simp add: gap_of_def)
next
  case (Some k)
  then have "er_subclass err = GapKind_subclass k" by (simp add: from_subclass_sound)
  with Some show ?thesis by (simp add: gap_of_def)
qed

text \<open>The printed kind holds no colon, so the first separator is the one \<open>gap_detail\<close> wrote.\<close>

lemma split_once_kind: "split_once '': '' (GapKind_as_str k @ '': '' @ subject) = Some (GapKind_as_str k, subject)"
  by (cases k) (simp_all add: starts_with_def)

lemma named_gap_detail:
  assumes "er_subclass err = GapKind_subclass k" and "er_detail err = gap_detail k subject"
  shows "named_gap err = Some (k, subject)"
proof -
  have "strip_prefix ''needs '' (er_detail err) = Some (GapKind_as_str k @ '': '' @ subject)"
    unfolding assms(2) gap_detail_def by (rule strip_prefix_append)
  then show ?thesis
    unfolding named_gap_def using assms(1) split_once_kind[of k subject] gap_kind.parse_as_str
    by simp
qed

lemmas draft_defs = internal_item_draft_def WorkItemDraft_default_def

section \<open>Properties\<close>

text \<open>A capability gap written into an error with its own subclass and the \<open>needs <gap>: <subject>\<close>
  detail is read back by \<open>gap_of\<close> with the same kind and subject, whatever the subject holds
  (separators included); and \<open>gap_of\<close> answers nothing exactly for the subclasses of no gap.\<close>

theorem gap_detail_round_trip:
  "(er_subclass err = GapKind_subclass k \<and> er_detail err = gap_detail k subject
      \<longrightarrow> gap_of err = Some \<lparr>gp_kind = k, gp_subject = subject\<rparr>)
   \<and> (gap_of err = None \<longleftrightarrow> er_subclass err \<notin> range GapKind_subclass)"
proof (intro conjI impI)
  assume a: "er_subclass err = GapKind_subclass k \<and> er_detail err = gap_detail k subject"
  obtain i where "from_subclass (er_subclass err) = Some i"
    using a from_subclass_of_gap[of k] by auto
  then show "gap_of err = Some \<lparr>gp_kind = k, gp_subject = subject\<rparr>"
    using named_gap_detail[of err k subject] a by (simp add: gap_of_def)
qed (rule gap_of_None_iff)

definition demo_error :: WorkError where
  "demo_error =
     \<lparr>er_class = EcCapabilityGap, er_subclass = EsCompute, er_fingerprint = ''f0'',
      er_detail = ''needs capacity: gpu: a100'', er_artifact_refs = [], er_observed_by = ''worker''\<rparr>"

theorem gap_detail_round_trip_witness:
  "gap_of demo_error = Some \<lparr>gp_kind = GkCapacity, gp_subject = ''gpu: a100''\<rparr>"
  using gap_detail_round_trip[of demo_error GkCapacity "''gpu: a100''"]
  by (simp add: demo_error_def gap_detail_def)

text \<open>The item order 3 files for a failure is an \<open>internal\<close> one that carries the failure's
  fingerprint, every reference of the error and all the evidence, nothing else and no repeats of its
  own making, and ends its constraints with the landing rule, for every kind of failure.\<close>

theorem internal_draft_carries_evidence:
  "let d = internal_item_draft err evidence in
     dr_kind d = Some WkInternal
     \<and> set (dr_artifact_refs d)
         = set (er_artifact_refs err) \<union> set evidence
           \<union> {\<lparr>ar_kind = ''failure_fingerprint'', ar_value = er_fingerprint err\<rparr>}
     \<and> (distinct (dr_artifact_refs d) = distinct (er_artifact_refs err))
     \<and> last (dr_constraints d) = LANDING_RULE
     \<and> dr_title d \<noteq> [] \<and> dr_objective d \<noteq> [] \<and> dr_done_when d \<noteq> []"
  by (auto simp: draft_defs draft_refs_def draft_texts_def FAILURE_FINGERPRINT_def Let_def
      set_foldl_push_unique distinct_foldl_push_unique split: prod.splits option.splits if_splits)

end
