(* ===== verification/Ladder.thy ===== *)
theory Ladder
  imports Gaps
begin

text \<open>
  The resolution ladder, \<^verbatim>\<open>rustykrab-control/src/ladder/{mod,summary}.rs\<close>: an item's rung history and
  budgets, the next move for a classified failure, recording a climbed rung, re-deriving the ladder
  from stored events, and the text a surfaced message carries. The JSON codec of a rung event
  (serde\_json) is a parameter. \<open>climb\<close> is the run the controller makes of these two functions:
  each decision of \<open>ladder_next\<close> is recorded with the failure it answers, the contexts being
  arbitrary. The properties bound every such run.
\<close>

section \<open>Rungs and stored rung events\<close>

definition RUNGS :: "Rung list" where
  "RUNGS =
     [RgRetry, RgRepair, RgSwitchWorker, RgAcquire, RgBuild, RgRequest, RgImprove, RgPlanB,
      RgReplan, RgSurface]"

definition encode_rung_event :: "(RungEvent \<Rightarrow> string option) \<Rightarrow> RungEvent \<Rightarrow> string" where
  "encode_rung_event to_json e = (case to_json e of Some s \<Rightarrow> s | None \<Rightarrow> [])"

text \<open>Old availability events: kept as history, no longer counted as failures.\<close>

definition retired_event :: "RungEvent \<Rightarrow> bool" where
  "retired_event r =
     (case re_error r of
        None \<Rightarrow> False
      | Some e \<Rightarrow>
          er_class e = EcCapabilityGap \<and> er_subclass e = EsCompute
          \<and> er_observed_by e = ''capability_check''
          \<and> starts_with ''needs capacity: a '' (er_detail e))"

definition rung_event :: "(string \<Rightarrow> RungEvent option) \<Rightarrow> WorkEvent \<Rightarrow> RungEvent option" where
  "rung_event of_json event =
     (if we_kind event \<noteq> EvRung then None
      else case Option.bind (we_reason event) of_json of
        None \<Rightarrow> None
      | Some r \<Rightarrow> if retired_event r then None else Some r)"

definition ladder_of_events :: "(string \<Rightarrow> RungEvent option) \<Rightarrow> WorkEvent list \<Rightarrow> RungEvent list" where
  "ladder_of_events of_json events = List.map_filter (rung_event of_json) events"

definition last_error :: "(string \<Rightarrow> RungEvent option) \<Rightarrow> WorkEvent list \<Rightarrow> WorkError option" where
  "last_error of_json events =
     (case List.map_filter re_error (List.map_filter (rung_event of_json) (rev events)) of
        [] \<Rightarrow> None
      | e # _ \<Rightarrow> Some e)"

fun rank :: "Rung \<Rightarrow> nat" where
  "rank RgRetry = 0"
| "rank RgRepair = 1"
| "rank RgSwitchWorker = 2"
| "rank RgAcquire = 3"
| "rank RgBuild = 4"
| "rank RgRequest = 5"
| "rank RgImprove = 6"
| "rank RgPlanB = 7"
| "rank RgReplan = 8"
| "rank RgSurface = 9"

section \<open>The ladder's state\<close>

record LadderState =
  ls_history :: "RungEvent list"
  ls_budgets :: RungBudgets

definition LadderState_new :: "RungBudgets \<Rightarrow> LadderState" where
  "LadderState_new budgets = \<lparr>ls_history = [], ls_budgets = budgets\<rparr>"

definition climbed :: "LadderState \<Rightarrow> Rung \<Rightarrow> nat" where
  "climbed s rung = length (filter (\<lambda>e. re_rung e = rung) (ls_history s))"

definition used :: "LadderState \<Rightarrow> Rung \<Rightarrow> u32" where
  "used s rung = u32_of_usize (climbed s rung)"

fun rung_budget :: "RungBudgets \<Rightarrow> Rung \<Rightarrow> u32 option" where
  "rung_budget b RgRetry = Some (rb_retries b)"
| "rung_budget b RgRepair = Some (rb_repairs b)"
| "rung_budget b RgSwitchWorker = Some (rb_worker_switches b)"
| "rung_budget b RgAcquire = Some (rb_acquisitions b)"
| "rung_budget b RgBuild = Some (rb_builds b)"
| "rung_budget b RgRequest = Some (rb_requests b)"
| "rung_budget b RgImprove = Some (rb_improvements b)"
| "rung_budget b RgReplan = Some (rb_replans b)"
| "rung_budget b RgPlanB = None"
| "rung_budget b RgSurface = None"

definition budget :: "LadderState \<Rightarrow> Rung \<Rightarrow> u32 option" where
  "budget s rung = rung_budget (ls_budgets s) rung"

definition left :: "LadderState \<Rightarrow> Rung \<Rightarrow> u32" where
  "left s rung =
     (case budget s rung of
        None \<Rightarrow> u32_of_usize u32_max
      | Some b \<Rightarrow> saturating_sub b (used s rung))"

text \<open>\<^verbatim>\<open>max_by_key\<close> keeps the last of the greatest elements.\<close>

definition max_by_rank :: "Rung list \<Rightarrow> Rung option" where
  "max_by_rank rs =
     foldl (\<lambda>best r. case best of None \<Rightarrow> Some r | Some b \<Rightarrow> Some (if rank b \<le> rank r then r else b))
       None rs"

definition highest :: "LadderState \<Rightarrow> Rung option" where
  "highest s = max_by_rank (map re_rung (ls_history s))"

definition order_label :: "Rung option \<Rightarrow> string" where
  "order_label r = (case r of None \<Rightarrow> ''none'' | Some r \<Rightarrow> Rung_order r)"

definition order_reached :: "LadderState \<Rightarrow> string" where
  "order_reached s = order_label (highest s)"

record LadderContext =
  lc_error :: WorkError
  lc_recurrence_count :: u32
  lc_promote_threshold :: u32
  lc_has_plan_b :: bool
  lc_replans_left_on_parent :: u32
  lc_policy_stop :: bool
  lc_only_user_can_meet :: bool
  lc_tool_exists :: "bool option"

definition LadderContext_new :: "WorkError \<Rightarrow> LadderContext" where
  "LadderContext_new err =
     \<lparr>lc_error = err, lc_recurrence_count = 0, lc_promote_threshold = DEFAULT_PROMOTE_THRESHOLD,
      lc_has_plan_b = False, lc_replans_left_on_parent = 0, lc_policy_stop = False,
      lc_only_user_can_meet = False, lc_tool_exists = None\<rparr>"

record CapabilityNeed =
  cn_gap :: GapKind
  cn_subject :: string
  cn_trigger :: Trigger

datatype SurfaceReason = SrPolicyStop | SrLadderSpent

record Surfacing =
  sf_reason :: SurfaceReason
  sf_error :: WorkError
  sf_rungs :: "RungEvent list"
  sf_reached :: "Rung option"
  sf_ask :: string

definition Surfacing_order_reached :: "Surfacing \<Rightarrow> string" where
  "Surfacing_order_reached sf = order_label (sf_reached sf)"

datatype Decision =
    DRetry
  | DRepair (with_diagnosis: bool)
  | DSwitchWorker
  | DAcquire CapabilityNeed
  | DBuild CapabilityNeed
  | DRequest CapabilityNeed
  | DImprove string
  | DPlanB
  | DReplan
  | DSurface Surfacing
  | DPark BlockedReason

fun Decision_rung :: "Decision \<Rightarrow> Rung" where
  "Decision_rung DRetry = RgRetry"
| "Decision_rung (DRepair _) = RgRepair"
| "Decision_rung DSwitchWorker = RgSwitchWorker"
| "Decision_rung (DAcquire _) = RgAcquire"
| "Decision_rung (DBuild _) = RgBuild"
| "Decision_rung (DRequest _) = RgRequest"
| "Decision_rung (DImprove _) = RgImprove"
| "Decision_rung DPlanB = RgPlanB"
| "Decision_rung DReplan = RgReplan"
| "Decision_rung (DSurface _) = RgSurface"
| "Decision_rung (DPark _) = RgSurface"

section \<open>The texts of a surfaced message\<close>

definition is_capability :: "Rung \<Rightarrow> bool" where
  "is_capability rung = (rung \<in> {RgAcquire, RgBuild, RgRequest})"

definition class_label :: "WorkError \<Rightarrow> string" where
  "class_label err = ErrorClass_as_str (er_class err) @ ''/'' @ ErrorSubclass_as_str (er_subclass err)"

definition label :: "Rung \<Rightarrow> WorkError \<Rightarrow> string" where
  "label rung err =
     (if is_capability rung
      then case gap_of err of
          Some gap \<Rightarrow> GapKind_as_str (gp_kind gap) @ '': '' @ gp_subject gap
        | None \<Rightarrow> class_label err
      else class_label err)"

fun noun :: "Rung \<Rightarrow> string \<times> string" where
  "noun RgRetry = (''retry'', ''retries'')"
| "noun RgRepair = (''repair'', ''repairs'')"
| "noun RgSwitchWorker = (''worker switch'', ''worker switches'')"
| "noun RgAcquire = (''acquisition'', ''acquisitions'')"
| "noun RgBuild = (''build'', ''builds'')"
| "noun RgRequest = (''capability request'', ''capability requests'')"
| "noun RgImprove = (''internal item'', ''internal items'')"
| "noun RgPlanB = (''plan B'', ''plan Bs'')"
| "noun RgReplan = (''re-plan'', ''re-plans'')"
| "noun RgSurface = (''question'', ''questions'')"

definition clause_labels :: "Rung \<Rightarrow> RungEvent list \<Rightarrow> string list" where
  "clause_labels rung events =
     foldl (\<lambda>labels e. case re_error e of
              None \<Rightarrow> labels
            | Some err \<Rightarrow> push_unique labels (label rung err))
       [] events"

definition clause :: "Rung \<Rightarrow> RungEvent list \<Rightarrow> string option" where
  "clause rung history =
     (let events = filter (\<lambda>e. re_rung e = rung) history in
      if events = [] then None
      else
        let n = length events;
            head = nat_digits n @ '' '' @ (if n = 1 then fst (noun rung) else snd (noun rung));
            labels = clause_labels rung events;
            named = (if labels = [] then []
                     else (if is_capability rung then '' for '' else '' on '') @ join '', '' labels);
            outcome = trim_end_char (CHR ''.'') (trim (re_outcome (last events)));
            ending = (if outcome = [] then [] else '', last: '' @ outcome)
        in Some (head @ named @ ending))"

definition climbed_orders :: "RungEvent list \<Rightarrow> string list" where
  "climbed_orders history =
     foldl (\<lambda>orders rung.
              if (\<exists>e \<in> set history. re_rung e = rung) \<and> Rung_order rung \<notin> set orders
              then orders @ [Rung_order rung] else orders)
       [] RUNGS"

definition order_sentence :: "RungEvent list \<Rightarrow> string \<Rightarrow> string" where
  "order_sentence history order =
     ''Order '' @ order @ '': ''
     @ join ''; '' (List.map_filter (\<lambda>r. clause r history) (filter (\<lambda>r. Rung_order r = order) RUNGS))
     @ ''.''"

definition summarise :: "RungEvent list \<Rightarrow> string" where
  "summarise history =
     (if history = [] then ''Nothing tried: the ladder was not climbed.''
      else
        join '' ''
          (map (order_sentence history) (climbed_orders history)
           @ [''Reached order '' @ order_label (max_by_rank (map re_rung history)) @ ''.'']))"

definition summary :: "LadderState \<Rightarrow> string" where
  "summary s = summarise (ls_history s)"

definition Surfacing_summary :: "Surfacing \<Rightarrow> string" where
  "Surfacing_summary sf = summarise (sf_rungs sf)"

definition ask :: "SurfaceReason \<Rightarrow> WorkError \<Rightarrow> string" where
  "ask reason err =
     (case reason of
        SrPolicyStop \<Rightarrow>
          ''Stopped by policy ('' @ class_label err @ ''): '' @ er_detail err
          @ ''. Allow it, change it, or cancel it?''
      | SrLadderSpent \<Rightarrow>
          if er_class err = EcBudget then
            ''The executor reported a retired task limit ('' @ class_label err @ ''): ''
            @ er_detail err
            @ ''. Update or reconfigure the executor before retrying; task usage does not require an allowance.''
          else
            ''Every rung is spent ('' @ class_label err @ ''): '' @ er_detail err
            @ ''. How should it go on, or should it stop?'')"

section \<open>The next move\<close>

definition surfacing :: "LadderState \<Rightarrow> WorkError \<Rightarrow> SurfaceReason \<Rightarrow> Surfacing" where
  "surfacing s err reason =
     \<lparr>sf_reason = reason, sf_error = err, sf_rungs = ls_history s, sf_reached = highest s,
      sf_ask = ask reason err\<rparr>"

definition park_reason :: "WorkError \<Rightarrow> BlockedReason" where
  "park_reason err =
     (case map_option gp_kind (gap_of err) of
        Some GkCredential \<Rightarrow> NeedsCredential
      | Some GkConsent \<Rightarrow> NeedsConsent
      | Some GkTool \<Rightarrow> NeedsTool
      | Some GkInstall \<Rightarrow> NeedsTool
      | _ \<Rightarrow> NeedsDecision)"

definition same_fingerprint :: "RungEvent \<Rightarrow> WorkError \<Rightarrow> bool" where
  "same_fingerprint event err =
     (case re_error event of None \<Rightarrow> False | Some e \<Rightarrow> er_fingerprint e = er_fingerprint err)"

definition improve_due :: "LadderState \<Rightarrow> LadderContext \<Rightarrow> bool" where
  "improve_due s ctx =
     (let err = lc_error ctx;
          promoted = is_defect err \<or> unnamed_gap err \<noteq> None
            \<or> max (lc_promote_threshold ctx) 1 \<le> lc_recurrence_count ctx
      in promoted \<and> 0 < left s RgImprove
         \<and> \<not> (\<exists>e \<in> set (ls_history s). re_rung e = RgImprove \<and> same_fingerprint e err))"

text \<open>The order-2 rung a gap takes.\<close>

definition gap_rung :: "LadderContext \<Rightarrow> Gap \<Rightarrow> Rung" where
  "gap_rung ctx gap =
     (if gp_kind gap = GkTool \<and> lc_tool_exists ctx = Some False then RgBuild
      else if gp_kind gap = GkCapacity then RgRequest
      else RgAcquire)"

definition filed_for :: "LadderState \<Rightarrow> Rung \<Rightarrow> Gap \<Rightarrow> bool" where
  "filed_for s rung gap =
     (\<exists>e \<in> set (ls_history s). re_rung e = rung
        \<and> (case Option.bind (re_error e) gap_of of None \<Rightarrow> False | Some g \<Rightarrow> same_need g gap))"

definition capability_need :: "Gap \<Rightarrow> CapabilityNeed" where
  "capability_need gap =
     \<lparr>cn_gap = gp_kind gap, cn_subject = gp_subject gap,
      cn_trigger =
        (case gp_kind gap of
           GkCredential \<Rightarrow> TrOnCredential (gp_subject gap)
         | GkConsent \<Rightarrow> TrOnAnswer (gp_subject gap)
         | _ \<Rightarrow> TrNow)\<rparr>"

definition capability :: "LadderState \<Rightarrow> LadderContext \<Rightarrow> Gap \<Rightarrow> Decision option" where
  "capability s ctx gap =
     (if trim (gp_subject gap) = [] then None
      else
        let rung = gap_rung ctx gap in
        if filed_for s rung gap \<or> left s rung = 0 then None
        else
          Some (case rung of
                  RgBuild \<Rightarrow> DBuild (capability_need gap)
                | RgRequest \<Rightarrow> DRequest (capability_need gap)
                | _ \<Rightarrow> DAcquire (capability_need gap)))"

definition verification_repaired :: "LadderState \<Rightarrow> bool" where
  "verification_repaired s =
     (\<exists>e \<in> set (ls_history s). re_rung e = RgRepair
        \<and> (case re_error e of None \<Rightarrow> False | Some x \<Rightarrow> er_class x = EcVerification))"

definition own_rung :: "LadderState \<Rightarrow> LadderContext \<Rightarrow> Decision option" where
  "own_rung s ctx =
     (let err = lc_error ctx in
      case gap_of err of
        Some gap \<Rightarrow> capability s ctx gap
      | None \<Rightarrow>
          if er_class err = EcBudget then None
          else if er_subclass err = EsLoop \<and> 0 < left s RgSwitchWorker then Some DSwitchWorker
          else if is_transient (er_subclass err) \<and> 0 < left s RgRetry then Some DRetry
          else if er_class err = EcVerification \<and> 0 < left s RgSwitchWorker
            \<and> verification_repaired s then Some DSwitchWorker
          else if 0 < left s RgRepair then
            Some (DRepair (is_defect err
              \<or> (\<exists>e \<in> set (ls_history s). re_rung e = RgRepair \<and> same_fingerprint e err)))
          else if 0 < left s RgSwitchWorker then Some DSwitchWorker
          else None)"

definition plan_b_open :: "LadderState \<Rightarrow> LadderContext \<Rightarrow> bool" where
  "plan_b_open s ctx = (lc_has_plan_b ctx \<and> used s RgPlanB = 0)"

definition ladder_next :: "LadderState \<Rightarrow> LadderContext \<Rightarrow> Decision" where
  "ladder_next s ctx =
     (let err = lc_error ctx in
      if lc_policy_stop ctx \<or> er_class err = EcPolicy then
        DSurface (surfacing s err SrPolicyStop)
      else if improve_due s ctx then DImprove (er_fingerprint err)
      else if lc_only_user_can_meet ctx then
        (if plan_b_open s ctx then DPlanB else DPark (park_reason err))
      else case own_rung s ctx of
        Some decision \<Rightarrow> decision
      | None \<Rightarrow>
          if plan_b_open s ctx then DPlanB
          else if 0 < lc_replans_left_on_parent ctx then DReplan
          else DSurface (surfacing s err SrLadderSpent))"

definition record_rung :: "LadderState \<Rightarrow> Rung \<Rightarrow> WorkError \<Rightarrow> string \<Rightarrow> timestamp \<Rightarrow> LadderState" where
  "record_rung s rung err outcome at =
     s\<lparr>ls_history := ls_history s
         @ [\<lparr>re_rung = rung, re_at = at, re_error = Some err, re_outcome = outcome\<rparr>]\<rparr>"

end
