(* ===== verification/LadderLaws.thy ===== *)
theory LadderLaws
  imports Ladder "HOL-Library.Sublist"
begin

text \<open>
  What the resolution ladder promises. The laws of one decision come first (which budget it is
  allowed to spend, what error it answers); then the runs \<open>climb\<close>: counts, bounds, and the locale
  \<open>filed_once\<close>, whose interpretations say that no run files the same improvement or the same
  capability twice.
\<close>

section \<open>Budgets\<close>

lemma unat_le_u32_max: "unat (b :: u32) \<le> u32_max"
  using unsigned_less[of b, where 'a = nat] by (simp add: u32_max_def)

lemma left_pos_iff:
  "0 < left s r \<longleftrightarrow> (case budget s r of None \<Rightarrow> True | Some b \<Rightarrow> climbed s r < unat b)"
proof (cases "budget s r")
  case None
  have "0 < u32_of_usize u32_max"
    by (simp add: word_less_nat_alt unat_u32_of_usize) (simp add: u32_max_def)
  with None show ?thesis by (simp add: left_def)
next
  case (Some b)
  have "min (climbed s r) u32_max < unat b \<longleftrightarrow> climbed s r < unat b"
    using unat_le_u32_max[of b] by auto
  with Some show ?thesis
    by (simp add: left_def saturating_sub_pos used_def unat_u32_of_usize)
qed

lemma left_zero_iff: "left s r = 0 \<longleftrightarrow> \<not> 0 < left s r"
  by (simp add: word_gt_0)

lemma used_zero_iff: "used s r = 0 \<longleftrightarrow> climbed s r = 0"
proof -
  have "used s r = 0 \<longleftrightarrow> unat (used s r) = 0" by (simp add: unat_eq_zero)
  also have "\<dots> \<longleftrightarrow> min (climbed s r) u32_max = 0" by (simp only: used_def unat_u32_of_usize)
  also have "\<dots> \<longleftrightarrow> climbed s r = 0" by (auto simp: u32_max_def min_def)
  finally show ?thesis .
qed

text \<open>The rungs a count bounds.\<close>

definition counted :: "Rung set" where
  "counted = {RgRetry, RgRepair, RgSwitchWorker, RgAcquire, RgBuild, RgRequest, RgImprove}"

section \<open>One decision\<close>

lemma gap_rung_cases: "gap_rung c g \<in> {RgBuild, RgRequest, RgAcquire}"
  by (simp add: gap_rung_def)

lemma capability_Some:
  assumes "capability s c g = Some d"
  shows "Decision_rung d = gap_rung c g \<and> 0 < left s (Decision_rung d)
    \<and> \<not> filed_for s (Decision_rung d) g \<and> trim (gp_subject g) \<noteq> []
    \<and> d \<in> {DAcquire (capability_need g), DBuild (capability_need g), DRequest (capability_need g)}"
  using assms gap_rung_cases[of c g]
  by (auto simp: capability_def Let_def left_zero_iff split: if_splits)

lemma own_rung_gap: "gap_of (lc_error c) = Some g \<Longrightarrow> own_rung s c = capability s c g"
  by (simp add: own_rung_def)

lemma own_rung_no_gap:
  assumes "own_rung s c = Some d" and "gap_of (lc_error c) = None"
  shows "d \<in> {DRetry, DSwitchWorker, DRepair (with_diagnosis d)} \<and> er_class (lc_error c) \<noteq> EcBudget
    \<and> 0 < left s (Decision_rung d) \<and> (d = DRetry \<longrightarrow> is_transient (er_subclass (lc_error c)))"
  using assms by (auto simp: own_rung_def Let_def split: if_splits)

lemma own_rung_None:
  assumes "own_rung s c = None" and "gap_of (lc_error c) = None"
  shows "er_class (lc_error c) = EcBudget \<or> left s RgRepair = 0 \<and> left s RgSwitchWorker = 0
    \<and> (is_transient (er_subclass (lc_error c)) \<longrightarrow> left s RgRetry = 0)"
  using assms by (auto simp: own_rung_def Let_def left_zero_iff split: if_splits)

lemma capability_None:
  "capability s c g = None \<Longrightarrow>
     trim (gp_subject g) = [] \<or> filed_for s (gap_rung c g) g \<or> left s (gap_rung c g) = 0"
  by (auto simp: capability_def Let_def split: if_splits)

lemma own_rung_Some:
  assumes "own_rung s c = Some d"
  shows "Decision_rung d \<in> counted - {RgImprove} \<and> 0 < left s (Decision_rung d)"
proof (cases "gap_of (lc_error c)")
  case None
  from own_rung_no_gap[OF assms None] show ?thesis
    by (cases d) (auto simp: counted_def)
next
  case (Some g)
  with assms have "capability s c g = Some d" by (simp add: own_rung_gap)
  then show ?thesis using capability_Some[of s c g d] gap_rung_cases[of c g]
    by (auto simp: counted_def)
qed

lemma improve_due_left: "improve_due s c \<Longrightarrow> 0 < left s RgImprove"
  by (simp add: improve_due_def Let_def)

text \<open>The decision as a disjunction of cases, each with the check that let it through.\<close>

lemma ladder_next_cases:
  obtains
    (policy) "ladder_next s c = DSurface (surfacing s (lc_error c) SrPolicyStop)"
      "lc_policy_stop c \<or> er_class (lc_error c) = EcPolicy"
  | (improve) "ladder_next s c = DImprove (er_fingerprint (lc_error c))" "improve_due s c"
      "\<not> lc_policy_stop c" "er_class (lc_error c) \<noteq> EcPolicy"
  | (plan_b) "ladder_next s c = DPlanB" "plan_b_open s c" "\<not> improve_due s c"
      "\<not> lc_policy_stop c" "er_class (lc_error c) \<noteq> EcPolicy"
      "lc_only_user_can_meet c \<or> own_rung s c = None"
  | (park) "ladder_next s c = DPark (park_reason (lc_error c))" "\<not> plan_b_open s c"
      "lc_only_user_can_meet c" "\<not> improve_due s c"
      "\<not> lc_policy_stop c" "er_class (lc_error c) \<noteq> EcPolicy"
  | (own) d where "ladder_next s c = d" "own_rung s c = Some d" "\<not> lc_only_user_can_meet c"
      "\<not> improve_due s c" "\<not> lc_policy_stop c" "er_class (lc_error c) \<noteq> EcPolicy"
  | (replan) "ladder_next s c = DReplan" "own_rung s c = None" "\<not> plan_b_open s c"
      "0 < lc_replans_left_on_parent c" "\<not> lc_only_user_can_meet c" "\<not> improve_due s c"
      "\<not> lc_policy_stop c" "er_class (lc_error c) \<noteq> EcPolicy"
  | (spent) "ladder_next s c = DSurface (surfacing s (lc_error c) SrLadderSpent)"
      "own_rung s c = None" "\<not> plan_b_open s c" "lc_replans_left_on_parent c = 0"
      "\<not> lc_only_user_can_meet c" "\<not> improve_due s c"
      "\<not> lc_policy_stop c" "er_class (lc_error c) \<noteq> EcPolicy"
proof (cases "lc_policy_stop c \<or> er_class (lc_error c) = EcPolicy")
  case True
  then show thesis by (intro that(1)) (auto simp: ladder_next_def)
next
  case live: False
  show thesis
  proof (cases "improve_due s c")
    case True
    with live show thesis by (intro that(2)) (auto simp: ladder_next_def)
  next
    case idle: False
    show thesis
    proof (cases "lc_only_user_can_meet c")
      case True
      with live idle show thesis
        by (cases "plan_b_open s c") (auto intro: that(3,4) simp: ladder_next_def)
    next
      case False
      note here = live idle False
      show thesis
      proof (cases "own_rung s c")
        case (Some d)
        with here show thesis by (intro that(5)) (auto simp: ladder_next_def)
      next
        case None
        have "0 < lc_replans_left_on_parent c \<or> lc_replans_left_on_parent c = 0"
          by (simp add: word_gt_0)
        with here None show thesis
          by (cases "plan_b_open s c") (auto intro: that(3,6,7) simp: ladder_next_def)
      qed
    qed
  qed
qed

lemma next_counted:
  assumes "Decision_rung (ladder_next s c) \<in> counted"
  shows "0 < left s (Decision_rung (ladder_next s c))"
  by (cases rule: ladder_next_cases[of s c])
    (use assms own_rung_Some[of s c] in \<open>auto simp: counted_def improve_due_left\<close>)

lemma next_plan_b:
  "Decision_rung (ladder_next s c) = RgPlanB \<Longrightarrow> climbed s RgPlanB = 0"
  by (cases rule: ladder_next_cases[of s c])
    (use own_rung_Some[of s c] in \<open>auto simp: plan_b_open_def used_zero_iff counted_def\<close>)

section \<open>Runs\<close>

text \<open>A run of the ladder on one item: each decision is recorded with the failure it answers.\<close>

inductive climb :: "LadderState \<Rightarrow> Decision list \<Rightarrow> LadderState \<Rightarrow> bool" for s where
  climb_start: "climb s [] s"
| climb_step: "climb s ds t \<Longrightarrow> d = ladder_next t c \<Longrightarrow>
     climb s (ds @ [d]) (record_rung t (Decision_rung d) (lc_error c) outcome at)"

inductive_cases climb_NilE: "climb s [] t"

lemma record_fields [simp]:
  "ls_budgets (record_rung s r e out t) = ls_budgets s"
  "budget (record_rung s r e out t) = budget s"
  "climbed (record_rung s r e out t) q = climbed s q + (if q = r then 1 else 0)"
  by (auto simp: record_rung_def budget_def fun_eq_iff climbed_def)

lemma climb_budget: "climb s ds t \<Longrightarrow> budget t = budget s"
  by (induction rule: climb.induct) simp_all

lemma climb_rungs:
  "climb s ds t \<Longrightarrow> map re_rung (ls_history t) = map re_rung (ls_history s) @ map Decision_rung ds"
  by (induction rule: climb.induct) (simp_all add: record_rung_def)

lemma climb_within:
  assumes "climb s ds t" and "r \<in> counted" and "budget s r = Some b"
  shows "climbed t r \<le> max (climbed s r) (unat b)"
  using assms(1)
proof (induction rule: climb.induct)
  case (climb_step ds t d c outcome at)
  have "climbed t r < unat b" if "r = Decision_rung d"
    using next_counted[of t c] assms(2,3) climb_budget[OF climb_step.hyps(1)] climb_step.hyps(2) that
    by (simp add: left_pos_iff)
  then show ?case using climb_step.IH by auto
qed simp

text \<open>At most one plan B per run, on top of what the history already had.\<close>

lemma climb_plan_b:
  assumes "climb s ds t"
  shows "climbed t RgPlanB \<le> max (climbed s RgPlanB) 1"
  using assms
proof (induction rule: climb.induct)
  case (climb_step ds t d c outcome at)
  then show ?case using next_plan_b[of t c] by auto
qed simp

lemma climb_new_count:
  assumes "climb (LadderState_new b) ds t"
  shows "climbed t r = count_list (map Decision_rung ds) r"
proof -
  have "climbed t r = count_list (map re_rung (ls_history t)) r"
    by (simp add: climbed_def count_list_eq_length_filter filter_map comp_def eq_commute)
  then show ?thesis using climb_rungs[OF assms] by (simp add: LadderState_new_def)
qed

section \<open>Filed once\<close>

text \<open>
  Rungs that file something: the interface is the guard (a decision is refused when an earlier event
  of the same rung answers the same failure), the client lemma is that no run holds two.
\<close>

definition apart :: "Rung set \<Rightarrow> (WorkError \<Rightarrow> WorkError \<Rightarrow> bool) \<Rightarrow> RungEvent list \<Rightarrow> bool" where
  "apart R same h =
     sorted_wrt (\<lambda>e f. re_rung f \<in> R \<longrightarrow> re_rung e = re_rung f \<longrightarrow>
       (\<forall>x y. re_error e = Some x \<longrightarrow> re_error f = Some y \<longrightarrow> \<not> same x y)) h"

locale filed_once =
  fixes R :: "Rung set" and same :: "WorkError \<Rightarrow> WorkError \<Rightarrow> bool"
  assumes refused: "Decision_rung (ladder_next s c) \<in> R \<Longrightarrow> e \<in> set (ls_history s) \<Longrightarrow>
    re_rung e = Decision_rung (ladder_next s c) \<Longrightarrow> re_error e = Some x \<Longrightarrow> \<not> same x (lc_error c)"
begin

lemma climb_apart: "climb s ds t \<Longrightarrow> apart R same (ls_history s) \<Longrightarrow> apart R same (ls_history t)"
proof (induction rule: climb.induct)
  case (climb_step ds t d c outcome at)
  then show ?case
    using refused[of t c] by (auto simp: apart_def record_rung_def sorted_wrt_append)
qed

lemma climb_new_apart: "climb (LadderState_new b) ds t \<Longrightarrow> apart R same (ls_history t)"
  using climb_apart[of "LadderState_new b" ds t] by (simp add: LadderState_new_def apart_def)

end

definition same_cause :: "WorkError \<Rightarrow> WorkError \<Rightarrow> bool" where
  "same_cause x y = (er_fingerprint x = er_fingerprint y)"

definition same_gap :: "WorkError \<Rightarrow> WorkError \<Rightarrow> bool" where
  "same_gap x y =
     (case (gap_of x, gap_of y) of (Some g, Some h) \<Rightarrow> same_need g h | _ \<Rightarrow> False)"

lemma next_improve:
  "Decision_rung (ladder_next s c) = RgImprove \<Longrightarrow> improve_due s c"
  by (cases rule: ladder_next_cases[of s c]) (use own_rung_Some[of s c] in auto)

lemma next_order_2:
  assumes "Decision_rung (ladder_next s c) \<in> {RgAcquire, RgBuild, RgRequest}"
  shows "\<exists>g. gap_of (lc_error c) = Some g \<and> capability s c g = Some (ladder_next s c)"
proof (cases rule: ladder_next_cases[of s c])
  case (own d)
  then show ?thesis using assms own_rung_no_gap[of s c d]
    by (cases "gap_of (lc_error c)"; cases d) (auto simp: own_rung_gap)
qed (use assms in auto)

interpretation improvements: filed_once "{RgImprove}" same_cause
proof
  fix s c e x
  assume "Decision_rung (ladder_next s c) \<in> {RgImprove}" and "e \<in> set (ls_history s)"
    and "re_rung e = Decision_rung (ladder_next s c)" and "re_error e = Some x"
  then show "\<not> same_cause x (lc_error c)" using next_improve[of s c]
    by (auto simp: improve_due_def Let_def same_fingerprint_def same_cause_def)
qed

interpretation capabilities: filed_once "{RgAcquire, RgBuild, RgRequest}" same_gap
proof
  fix s c e x
  assume r: "Decision_rung (ladder_next s c) \<in> {RgAcquire, RgBuild, RgRequest}"
    and e: "e \<in> set (ls_history s)" "re_rung e = Decision_rung (ladder_next s c)"
      "re_error e = Some x"
  obtain g where g: "gap_of (lc_error c) = Some g" "capability s c g = Some (ladder_next s c)"
    using next_order_2[OF r] by blast
  have "\<not> filed_for s (Decision_rung (ladder_next s c)) g" using capability_Some[OF g(2)] by blast
  then show "\<not> same_gap x (lc_error c)"
    using e g(1) by (auto simp: filed_for_def same_gap_def split: option.splits)
qed

section \<open>Counting a run\<close>

lemma sum_count_list:
  assumes "finite R"
  shows "(\<Sum>r \<in> R. count_list rs r) = length (filter (\<lambda>r. r \<in> R) rs)"
proof (induction rs)
  case (Cons a rs)
  have "(\<Sum>r \<in> R. count_list (a # rs) r)
      = (\<Sum>r \<in> R. count_list rs r) + (\<Sum>r \<in> R. if a = r then 1 else 0)"
    by (simp add: sum.distrib[symmetric] if_distrib cong: if_cong)
  then show ?case using Cons.IH assms by simp
qed simp

definition rung_total :: "RungBudgets \<Rightarrow> nat" where
  "rung_total b =
     unat (rb_retries b) + unat (rb_repairs b) + unat (rb_worker_switches b)
     + unat (rb_acquisitions b) + unat (rb_builds b) + unat (rb_requests b)
     + unat (rb_improvements b)"

lemma counted_or_final: "r \<in> insert RgPlanB counted \<longleftrightarrow> r \<noteq> RgReplan \<and> r \<noteq> RgSurface"
  by (cases r) (simp_all add: counted_def)

lemma climb_new_within:
  assumes "climb (LadderState_new b) ds t" and "r \<in> counted" and "rung_budget b r = Some n"
  shows "climbed t r \<le> unat n"
  using climb_within[OF assms(1,2), of n] assms(3)
  by (simp add: budget_def LadderState_new_def climbed_def)

lemma climb_new_plan_b: "climb (LadderState_new b) ds t \<Longrightarrow> climbed t RgPlanB \<le> 1"
  using climb_plan_b[of "LadderState_new b" ds t] by (simp add: LadderState_new_def climbed_def)

section \<open>The stored ladder and its summary\<close>

lemma map_filter_map: "List.map_filter f (map g xs) = List.map_filter (\<lambda>x. f (g x)) xs"
  by (induction xs) (simp_all add: List.map_filter_def)

lemma map_filter_cond:
  assumes "\<And>x. x \<in> set xs \<Longrightarrow> f x = (if P x then None else Some x)"
  shows "List.map_filter f xs = filter (\<lambda>x. \<not> P x) xs"
  using assms by (induction xs) (simp_all add: List.map_filter_def)

lemma sublist_join: "x \<in> set xs \<Longrightarrow> sublist x (join sep xs)"
proof (induction sep xs rule: join.induct)
  case (3 sep a b xs)
  show ?case
  proof (cases "x = a")
    case True
    then show ?thesis by simp
  next
    case False
    with 3 have "sublist x (join sep (b # xs))" by simp
    then show ?thesis by (simp add: sublist_append)
  qed
qed simp_all

lemma sublist_prepend: "sublist xs ys \<Longrightarrow> sublist xs (ps @ ys)"
  using sublist_order.order_trans sublist_append_leftI by blast

lemma sublist_postpend: "sublist xs ys \<Longrightarrow> sublist xs (ys @ ps)"
  using sublist_order.order_trans sublist_append_rightI by blast

lemma orders_mono:
  "set acc \<subseteq> set (foldl (\<lambda>os r. if P r \<and> f r \<notin> set os then os @ [f r] else os) acc rs)"
proof (induction rs arbitrary: acc)
  case (Cons q rs)
  let ?acc = "if P q \<and> f q \<notin> set acc then acc @ [f q] else acc"
  have "set acc \<subseteq> set ?acc" by auto
  also note Cons.IH[of ?acc]
  finally show ?case by simp
qed simp

lemma orders_all:
  "r \<in> set rs \<Longrightarrow> P r \<Longrightarrow>
     f r \<in> set (foldl (\<lambda>os r. if P r \<and> f r \<notin> set os then os @ [f r] else os) acc rs)"
proof (induction rs arbitrary: acc)
  case (Cons q rs)
  show ?case
  proof (cases "r = q")
    case True
    let ?acc = "if P q \<and> f q \<notin> set acc then acc @ [f q] else acc"
    have "f r \<in> set ?acc" using True Cons.prems by auto
    then show ?thesis using orders_mono[of ?acc P f rs] by auto
  next
    case False
    with Cons show ?thesis by simp
  qed
qed simp

lemma RUNGS_all: "r \<in> set RUNGS"
  by (cases r) (simp_all add: RUNGS_def)

lemma climbed_orders_all:
  "e \<in> set history \<Longrightarrow> Rung_order (re_rung e) \<in> set (climbed_orders history)"
  unfolding climbed_orders_def by (rule orders_all[OF RUNGS_all]) auto

lemma clause_Some: "e \<in> set history \<Longrightarrow> \<exists>words. clause (re_rung e) history = Some words"
  by (auto simp: clause_def Let_def filter_empty_conv)

lemma clause_in_sentence:
  assumes "clause r history = Some words"
  shows "sublist words (order_sentence history (Rung_order r))"
proof -
  have "words \<in> set (List.map_filter (\<lambda>q. clause q history)
      (filter (\<lambda>q. Rung_order q = Rung_order r) RUNGS))"
    using assms RUNGS_all[of r] by (force simp: List.map_filter_def)
  from sublist_join[OF this, of "''; ''"] show ?thesis
    unfolding order_sentence_def
    by (rule sublist_prepend[OF sublist_prepend[OF sublist_prepend[OF sublist_postpend]]])
qed

lemma sentence_in_summary:
  assumes "order \<in> set (climbed_orders history)" and "history \<noteq> []"
  shows "sublist (order_sentence history order) (summarise history)"
  unfolding summarise_def using assms by (auto intro!: sublist_join)

section \<open>A run to evaluate\<close>

definition demo_timeout :: WorkError where
  "demo_timeout =
     \<lparr>er_class = EcTool, er_subclass = EsTimeout, er_fingerprint = ''t1'', er_detail = ''30s'',
      er_artifact_refs = [], er_observed_by = ''worker''\<rparr>"

definition demo_small :: RungBudgets where
  "demo_small = RungBudgets_default\<lparr>rb_retries := 1, rb_repairs := 0, rb_worker_switches := 0\<rparr>"

definition demo_retried :: LadderState where
  "demo_retried = record_rung (LadderState_new demo_small) RgRetry demo_timeout ''again'' 5"

lemmas demo_simps =
  ladder_next_def improve_due_def own_rung_def left_pos_iff budget_def climbed_def gap_of_def
  named_gap_def unnamed_gap_def is_defect_def is_transient_def plan_b_open_def used_zero_iff
  LadderContext_new_def LadderState_new_def DEFAULT_PROMOTE_THRESHOLD_def demo_timeout_def
  demo_small_def demo_retried_def record_rung_def RungBudgets_default_def same_fingerprint_def

lemma demo_next:
  "ladder_next (LadderState_new demo_small) (LadderContext_new demo_timeout) = DRetry"
  "ladder_next demo_retried (LadderContext_new demo_timeout)
     = DSurface (surfacing demo_retried demo_timeout SrLadderSpent)"
  by (simp_all add: demo_simps Let_def)

lemma demo_climb:
  "climb (LadderState_new demo_small) ([] @ [DRetry]) demo_retried"
  using climb_step[OF climb_start demo_next(1)[symmetric]]
  by (simp add: demo_retried_def LadderContext_new_def)

definition demo_two_causes :: LadderState where
  "demo_two_causes =
     record_rung (record_rung (LadderState_new (RungBudgets_default\<lparr>rb_improvements := 2\<rparr>))
       RgImprove (demo_timeout\<lparr>er_class := EcUnknown\<rparr>) ''filed'' 1)
       RgImprove (demo_timeout\<lparr>er_class := EcUnknown, er_fingerprint := ''t2''\<rparr>) ''filed'' 2"

section \<open>Properties\<close>

text \<open>C16: on a fresh item, no run of the ladder, whatever failures it answers, climbs a rung more often
  than the item's budget for it (the parent's re-plan is bounded on the parent), and it takes plan B
  at most once.\<close>

theorem climb_within_budgets:
  assumes "climb (LadderState_new b) ds t"
  shows "(\<forall>r n. r \<noteq> RgReplan \<longrightarrow> rung_budget b r = Some n \<longrightarrow> climbed t r \<le> unat n)
    \<and> climbed t RgPlanB \<le> 1"
proof (intro conjI allI impI)
  fix r n assume "r \<noteq> RgReplan" and n: "rung_budget b r = Some n"
  then have "r \<in> counted" by (cases r) (simp_all add: counted_def)
  then show "climbed t r \<le> unat n" using climb_new_within[OF assms _ n] by blast
qed (rule climb_new_plan_b[OF assms])

theorem climb_within_budgets_witness:
  "climbed demo_retried RgRetry \<le> 1 \<and> climbed demo_retried RgPlanB \<le> 1"
proof -
  have "rung_budget demo_small RgRetry = Some 1" by (simp add: demo_small_def)
  then show ?thesis using climb_within_budgets[OF demo_climb] by fastforce
qed

text \<open>C17: every run of the ladder on a fresh item reaches the user or the parent: at most the sum of
  the seven budgets plus one (plan B) of its moves are anything but a re-plan, a parked question or
  a surfaced message.\<close>

theorem climb_ends:
  assumes "climb (LadderState_new b) ds t"
  shows "length (filter (\<lambda>d. Decision_rung d \<notin> {RgReplan, RgSurface}) ds) \<le> rung_total b + 1"
proof -
  have "length (filter (\<lambda>d. Decision_rung d \<notin> {RgReplan, RgSurface}) ds)
      = length (filter (\<lambda>r. r \<in> insert RgPlanB counted) (map Decision_rung ds))"
    by (simp only: counted_or_final filter_map length_map comp_def) simp
  also have "\<dots> = (\<Sum>r \<in> insert RgPlanB counted. climbed t r)"
    unfolding climb_new_count[OF assms] by (rule sum_count_list[symmetric]) (simp add: counted_def)
  also have "\<dots> \<le> rung_total b + 1"
    using climb_new_within[OF assms, of RgRetry] climb_new_within[OF assms, of RgRepair]
      climb_new_within[OF assms, of RgSwitchWorker] climb_new_within[OF assms, of RgAcquire]
      climb_new_within[OF assms, of RgBuild] climb_new_within[OF assms, of RgRequest]
      climb_new_within[OF assms, of RgImprove] climb_new_plan_b[OF assms]
    by (simp add: counted_def rung_total_def)
  finally show ?thesis .
qed

theorem climb_ends_witness:
  "length (filter (\<lambda>d. Decision_rung d \<notin> {RgReplan, RgSurface}) [DRetry]) \<le> rung_total demo_small + 1"
  using climb_ends[OF demo_climb] by simp

text \<open>No run files twice for one cause: two \<open>improve\<close> events of a run have different fingerprints,
  and two events of the same order-2 rung do not answer the same need.\<close>

theorem climb_files_once:
  assumes "climb (LadderState_new b) ds t" and "i < j" and "j < length (ls_history t)"
    and "re_rung (ls_history t ! i) = re_rung (ls_history t ! j)"
    and "re_error (ls_history t ! i) = Some x" and "re_error (ls_history t ! j) = Some y"
  shows "(re_rung (ls_history t ! j) = RgImprove \<longrightarrow> er_fingerprint x \<noteq> er_fingerprint y)
    \<and> (re_rung (ls_history t ! j) \<in> {RgAcquire, RgBuild, RgRequest} \<longrightarrow>
         (\<forall>g h. gap_of x = Some g \<longrightarrow> gap_of y = Some h \<longrightarrow> \<not> same_need g h))"
  using sorted_wrt_nth_less[OF improvements.climb_new_apart[OF assms(1), unfolded apart_def] assms(2,3)]
    sorted_wrt_nth_less[OF capabilities.climb_new_apart[OF assms(1), unfolded apart_def] assms(2,3)]
    assms(4-6)
  by (auto simp: same_cause_def same_gap_def)

theorem climb_files_once_witness:
  "er_fingerprint (demo_timeout\<lparr>er_class := EcUnknown\<rparr>)
     \<noteq> er_fingerprint (demo_timeout\<lparr>er_class := EcUnknown, er_fingerprint := ''t2''\<rparr>)"
proof -
  let ?b = "RungBudgets_default\<lparr>rb_improvements := 2\<rparr>"
  let ?x = "demo_timeout\<lparr>er_class := EcUnknown\<rparr>"
  let ?y = "demo_timeout\<lparr>er_class := EcUnknown, er_fingerprint := ''t2''\<rparr>"
  have 1: "DImprove ''t1'' = ladder_next (LadderState_new ?b) (LadderContext_new ?x)"
    by (simp add: demo_simps)
  have 2: "DImprove ''t2'' = ladder_next (record_rung (LadderState_new ?b) RgImprove ?x ''filed'' 1)
      (LadderContext_new ?y)"
    by (simp add: demo_simps)
  have one: "climb (LadderState_new ?b) ([] @ [DImprove ''t1''])
      (record_rung (LadderState_new ?b) RgImprove ?x ''filed'' 1)"
    using climb_step[OF climb_start 1] by (simp add: LadderContext_new_def)
  have "climb (LadderState_new ?b) (([] @ [DImprove ''t1'']) @ [DImprove ''t2'']) demo_two_causes"
    using climb_step[OF one 2, of "''filed''" 2] by (simp add: LadderContext_new_def demo_two_causes_def)
  from climb_files_once[OF this, of 0 1 ?x ?y] show ?thesis
    by (simp add: demo_two_causes_def record_rung_def LadderState_new_def)
qed

text \<open>A policy stop surfaces at once, whatever budgets, plan B or re-plans are left, and nothing
  else is reported as a policy stop.\<close>

theorem policy_stops_surface:
  "(lc_policy_stop c \<or> er_class (lc_error c) = EcPolicy)
     \<longleftrightarrow> (\<exists>sf. ladder_next s c = DSurface sf \<and> sf_reason sf = SrPolicyStop)"
proof (cases rule: ladder_next_cases[of s c])
  case (own d)
  then show ?thesis using own_rung_Some[of s c d] by (auto simp: counted_def)
qed (auto simp: surfacing_def)

text \<open>Surfacing is the last resort: a message that says every rung is spent is sent only when no
  plan B and no re-plan is left, the improvement is not due, and every rung the error's class allows
  has spent its budget or has already been filed for the same need; it carries the whole history.\<close>

theorem surfacing_is_last_resort:
  assumes "ladder_next s c = DSurface sf" and "sf_reason sf = SrLadderSpent"
  shows "\<not> plan_b_open s c \<and> lc_replans_left_on_parent c = 0 \<and> \<not> improve_due s c
    \<and> sf_rungs sf = ls_history s \<and> sf_error sf = lc_error c
    \<and> (case gap_of (lc_error c) of
         None \<Rightarrow> er_class (lc_error c) = EcBudget \<or> left s RgRepair = 0 \<and> left s RgSwitchWorker = 0
           \<and> (is_transient (er_subclass (lc_error c)) \<longrightarrow> left s RgRetry = 0)
       | Some g \<Rightarrow> trim (gp_subject g) = [] \<or> filed_for s (gap_rung c g) g
           \<or> left s (gap_rung c g) = 0)"
proof (cases rule: ladder_next_cases[of s c])
  case (own d)
  then show ?thesis using own_rung_Some[of s c d] assms by (auto simp: counted_def)
next
  case spent
  then show ?thesis using assms own_rung_None[of s c] capability_None[of s c]
    by (cases "gap_of (lc_error c)") (auto simp: surfacing_def own_rung_gap)
qed (use assms in \<open>auto simp: surfacing_def\<close>)

theorem surfacing_is_last_resort_witness:
  "left demo_retried RgRepair = 0 \<and> left demo_retried RgRetry = 0"
proof -
  have "gap_of (lc_error (LadderContext_new demo_timeout)) = None"
    "er_class (lc_error (LadderContext_new demo_timeout)) = EcTool"
    "is_transient (er_subclass (lc_error (LadderContext_new demo_timeout)))"
    by code_simp+
  then show ?thesis using surfacing_is_last_resort[OF demo_next(2)] by (simp add: surfacing_def)
qed

text \<open>The item's own rungs follow the error: only transient failures are retried; a spent budget or
  a capability gap is never retried, repaired or moved to another worker; an order-2 rung answers
  the gap the error records, with its kind and subject.\<close>

theorem own_rungs_follow_the_error:
  "(ladder_next s c = DRetry \<longrightarrow> is_transient (er_subclass (lc_error c)))
   \<and> (ladder_next s c \<in> {DRetry, DSwitchWorker} \<or> (\<exists>diag. ladder_next s c = DRepair diag) \<longrightarrow>
        gap_of (lc_error c) = None \<and> er_class (lc_error c) \<noteq> EcBudget)
   \<and> (\<forall>need. ladder_next s c \<in> {DAcquire need, DBuild need, DRequest need} \<longrightarrow>
        gap_of (lc_error c) = Some \<lparr>gp_kind = cn_gap need, gp_subject = cn_subject need\<rparr>)"
proof (cases rule: ladder_next_cases[of s c])
  case (own d)
  show ?thesis
  proof (cases "gap_of (lc_error c)")
    case None
    from own_rung_no_gap[OF own(2) None] own(1) None show ?thesis by auto
  next
    case (Some g)
    then have "capability s c g = Some d" using own(2) by (simp add: own_rung_gap)
    from capability_Some[OF this] own(1) Some show ?thesis by (auto simp: capability_need_def)
  qed
qed auto

theorem own_rungs_follow_the_error_witness:
  "is_transient (er_subclass demo_timeout) \<and> gap_of demo_timeout = None"
  using own_rungs_follow_the_error[of "LadderState_new demo_small" "LadderContext_new demo_timeout"]
  unfolding demo_next(1) by (simp add: LadderContext_new_def)

text \<open>A need only the user can meet is never re-planned around, retried or surfaced as spent: unless
  policy stops the work or order 3 is due, the item takes its plan B, or parks in the blocked state
  that names the need.\<close>

theorem user_needs_are_not_replanned:
  assumes "lc_only_user_can_meet c" and "\<not> lc_policy_stop c" and "er_class (lc_error c) \<noteq> EcPolicy"
  shows "ladder_next s c =
    (if improve_due s c then DImprove (er_fingerprint (lc_error c))
     else if lc_has_plan_b c \<and> climbed s RgPlanB = 0 then DPlanB
     else DPark (case gap_of (lc_error c) of
         None \<Rightarrow> NeedsDecision
       | Some g \<Rightarrow>
           if gp_kind g = GkCredential then NeedsCredential
           else if gp_kind g = GkConsent then NeedsConsent
           else if gp_kind g \<in> {GkTool, GkInstall} then NeedsTool
           else NeedsDecision))"
proof (cases rule: ladder_next_cases[of s c])
  case park
  then show ?thesis
    by (cases "gap_of (lc_error c)"; cases "gp_kind (the (gap_of (lc_error c)))")
      (auto simp: plan_b_open_def used_zero_iff park_reason_def)
qed (use assms in \<open>auto simp: plan_b_open_def used_zero_iff\<close>)

theorem user_needs_are_not_replanned_witness:
  "ladder_next (LadderState_new demo_small)
     ((LadderContext_new (demo_error\<lparr>er_subclass := EsCredential, er_detail := ''github''\<rparr>))
        \<lparr>lc_only_user_can_meet := True, lc_replans_left_on_parent := 1\<rparr>)
   = DPark NeedsCredential"
  (is "ladder_next ?s ?c = _")
proof -
  have "lc_only_user_can_meet ?c" "\<not> lc_policy_stop ?c" "er_class (lc_error ?c) \<noteq> EcPolicy"
    by code_simp+
  note rule = user_needs_are_not_replanned[OF this, of ?s]
  have "\<not> improve_due ?s ?c" and "\<not> lc_has_plan_b ?c"
    and "gap_of (lc_error ?c) = Some \<lparr>gp_kind = GkCredential, gp_subject = ''github''\<rparr>"
    by (simp_all add: demo_simps demo_error_def strip_prefix_def starts_with_def trim_def trim_start_def
        trim_end_def is_whitespace_def code_of_def)
  then show ?thesis using rule by simp
qed

text \<open>The ladder re-derives from the store: reading back the events under which a history was stored
  gives the history without the retired availability events, for any JSON codec that reads back
  what it wrote.\<close>

theorem stored_ladder_reads_back:
  assumes "\<forall>e \<in> set history. \<exists>words. to_json e = Some words \<and> of_json words = Some e"
    and "\<forall>e \<in> set history. we_kind (store e) = EvRung
           \<and> we_reason (store e) = Some (encode_rung_event to_json e)"
  shows "ladder_of_events of_json (map store history) = filter (\<lambda>e. \<not> retired_event e) history"
proof -
  have "rung_event of_json (store e) = (if retired_event e then None else Some e)"
    if "e \<in> set history" for e
    using bspec[OF assms(1) that] bspec[OF assms(2) that]
    by (auto simp: rung_event_def encode_rung_event_def)
  then show ?thesis
    unfolding ladder_of_events_def map_filter_map by (rule map_filter_cond)
qed

theorem stored_ladder_reads_back_witness:
  "ladder_of_events (\<lambda>_. Some (hd (ls_history demo_retried)))
     (map (\<lambda>e. \<lparr>we_item = ''a'', we_at = 0, we_kind = EvRung, we_from = None, we_to = None,
        we_actor = ''controller'', we_reason = Some ''{}'', we_upstream = None, we_origin = None,
        we_evidence_ref = None\<rparr>) (ls_history demo_retried)) = ls_history demo_retried"
proof -
  note demo = demo_retried_def record_rung_def LadderState_new_def
  have "filter (\<lambda>e. \<not> retired_event e) (ls_history demo_retried) = ls_history demo_retried"
    by code_simp
  moreover have "\<forall>e \<in> set (ls_history demo_retried). \<exists>words. (\<lambda>_. Some ''{}'') e = Some words
      \<and> (\<lambda>_. Some (hd (ls_history demo_retried))) words = Some e"
    by (simp add: demo)
  note read = stored_ladder_reads_back[OF this]
  ultimately show ?thesis by (subst read) (simp_all add: encode_rung_event_def)
qed

text \<open>The paragraph a surfaced message carries says what was tried: for every event of the history
  the clause of its rung (how often, on what, the last outcome) is a contiguous part of the text.\<close>

theorem summary_names_every_rung:
  assumes "e \<in> set history"
  shows "\<exists>words. clause (re_rung e) history = Some words \<and> sublist words (summarise history)"
proof -
  obtain words where words: "clause (re_rung e) history = Some words" using clause_Some[OF assms] by blast
  have "sublist words (order_sentence history (Rung_order (re_rung e)))"
    using clause_in_sentence[OF words] .
  moreover have "sublist (order_sentence history (Rung_order (re_rung e))) (summarise history)"
    using sentence_in_summary[OF climbed_orders_all[OF assms]] assms by fastforce
  ultimately show ?thesis using words sublist_order.order_trans by blast
qed

theorem summary_names_every_rung_witness:
  "sublist ''1 retry on tool/timeout, last: again'' (summarise (ls_history demo_retried))"
proof -
  have "hd (ls_history demo_retried) \<in> set (ls_history demo_retried)"
    by (simp add: demo_retried_def record_rung_def LadderState_new_def)
  from summary_names_every_rung[OF this]
  obtain words where "clause RgRetry (ls_history demo_retried) = Some words"
    and "sublist words (summarise (ls_history demo_retried))"
    by (auto simp: demo_retried_def record_rung_def LadderState_new_def)
  moreover have "clause RgRetry (ls_history demo_retried) = Some ''1 retry on tool/timeout, last: again''"
    by code_simp
  ultimately show ?thesis by simp
qed

end
