(* ===== verification/Progress.thy ===== *)
theory Progress
  imports Work
begin

text \<open>
  The progress ledger of one run, \<^verbatim>\<open>rustykrab-control/src/progress.rs\<close>: tool calls are fingerprinted,
  a repeated fingerprint is no progress, a row of repeats is a stall and two rows end the attempt.
  The hash of a step (the standard library's \<open>DefaultHasher\<close> over the tool, the arguments' JSON text
  and the outcome) is the parameter \<open>step_hash\<close>; counters are 32-bit words that wrap as in a release
  build. The property refines the ledger to a count over the list of fingerprints.
\<close>

definition DEFAULT_STALL_STEPS :: u32 where
  "DEFAULT_STALL_STEPS = 6"

record Stall =
  st_steps :: u32
  st_without_progress :: u32
  st_last_tool :: string

definition Stall_detail :: "Stall \<Rightarrow> string" where
  "Stall_detail s =
     ''stalled: '' @ nat_digits (unat (st_without_progress s))
     @ '' steps without new evidence (progress ledger), '' @ nat_digits (unat (st_steps s))
     @ '' steps in all; last tool '' @ st_last_tool s"

record StepLedger =
  sl_threshold :: u32
  sl_seen :: "u64 list"
  sl_steps :: u32
  sl_since_progress :: u32
  sl_last_tool :: string

definition StepLedger_new :: "u32 \<Rightarrow> StepLedger" where
  "StepLedger_new threshold =
     \<lparr>sl_threshold = max threshold 1, sl_seen = [], sl_steps = 0, sl_since_progress = 0,
      sl_last_tool = []\<rparr>"

definition StepLedger_record ::
  "(string \<Rightarrow> json \<Rightarrow> string \<Rightarrow> u64) \<Rightarrow> StepLedger \<Rightarrow> string \<Rightarrow> json \<Rightarrow> string \<Rightarrow> StepLedger \<times> bool" where
  "StepLedger_record step_hash l tool args outcome =
     (let h = step_hash tool args outcome;
          fresh = h \<notin> set (sl_seen l)
      in (l\<lparr>sl_seen := push_unique (sl_seen l) h,
            sl_steps := sl_steps l + 1,
            sl_last_tool := tool,
            sl_since_progress := (if fresh then 0 else sl_since_progress l + 1)\<rparr>,
          fresh))"

definition stalled :: "StepLedger \<Rightarrow> Stall option" where
  "stalled l =
     (if sl_threshold l \<le> sl_since_progress l
      then Some \<lparr>st_steps = sl_steps l, st_without_progress = sl_since_progress l,
                 st_last_tool = sl_last_tool l\<rparr>
      else None)"

definition recovery_due :: "StepLedger \<Rightarrow> Stall option" where
  "recovery_due l =
     (if saturating_mul (sl_threshold l) 2 \<le> sl_since_progress l then stalled l else None)"

section \<open>The run and its specification\<close>

type_synonym tool_call = "string \<times> json \<times> string"

definition run_ledger :: "(string \<Rightarrow> json \<Rightarrow> string \<Rightarrow> u64) \<Rightarrow> u32 \<Rightarrow> tool_call list \<Rightarrow> StepLedger" where
  "run_ledger step_hash threshold calls =
     foldl (\<lambda>l (tool, args, outcome). fst (StepLedger_record step_hash l tool args outcome))
       (StepLedger_new threshold) calls"

text \<open>How many elements at the end of a list repeat an earlier element, counted back to the last new
  one; the list is given newest first.\<close>

fun repeats :: "'a list \<Rightarrow> nat" where
  "repeats [] = 0"
| "repeats (x # older) = (if x \<in> set older then Suc (repeats older) else 0)"

definition call_hash :: "(string \<Rightarrow> json \<Rightarrow> string \<Rightarrow> u64) \<Rightarrow> tool_call \<Rightarrow> u64" where
  "call_hash step_hash c = (case c of (tool, args, outcome) \<Rightarrow> step_hash tool args outcome)"

lemma repeats_le: "repeats xs \<le> length xs"
  by (induction xs) auto

lemma repeats_Cons_less: "repeats (x # xs) < Suc (length xs)"
  by (induction xs arbitrary: x) (auto simp: less_Suc_eq_le)

lemma run_ledger_fields:
  "set (sl_seen (run_ledger h n calls)) = call_hash h ` set calls
   \<and> sl_steps (run_ledger h n calls) = word_of_nat (length calls)
   \<and> sl_threshold (run_ledger h n calls) = max n 1
   \<and> sl_last_tool (run_ledger h n calls) = (if calls = [] then [] else fst (last calls))"
proof (induction calls rule: rev_induct)
  case Nil
  then show ?case by (simp add: run_ledger_def StepLedger_new_def)
next
  case (snoc c calls)
  then show ?case
    by (cases c) (simp add: run_ledger_def StepLedger_record_def Let_def call_hash_def add.commute)
qed

lemma run_ledger_since:
  "sl_since_progress (run_ledger h n calls) = word_of_nat (repeats (map (call_hash h) (rev calls)))"
proof (induction calls rule: rev_induct)
  case Nil
  then show ?case by (simp add: run_ledger_def StepLedger_new_def)
next
  case (snoc c calls)
  have seen: "set (sl_seen (run_ledger h n calls)) = call_hash h ` set calls"
    using run_ledger_fields[of h n calls] by blast
  obtain tool args outcome where c: "c = (tool, args, outcome)" by (cases c)
  have "run_ledger h n (calls @ [c])
      = fst (StepLedger_record h (run_ledger h n calls) tool args outcome)"
    by (simp add: run_ledger_def c)
  then show ?case
    using snoc seen by (simp add: StepLedger_record_def Let_def c call_hash_def add.commute)
qed

lemma unat_max: "unat (max a b :: u32) = max (unat a) (unat b)"
  by (simp add: max_def word_le_nat_alt)

section \<open>Properties\<close>

text \<open>over a run of fewer than 2 to the 32 tool calls the ledger reports a stall exactly when the
  calls since the last new fingerprint number at least the threshold (one at least), and ends the
  attempt exactly when they number twice the threshold (capped at the largest counter); the report
  carries the number of calls, of repeats, and the last tool.\<close>

theorem ledger_counts_repeats:
  assumes "length calls < 2 ^ 32"
  shows "let k = repeats (map (call_hash h) (rev calls)); l = run_ledger h n calls in
    stalled l = (if max (unat n) 1 \<le> k
       then Some \<lparr>st_steps = word_of_nat (length calls), st_without_progress = word_of_nat k,
                  st_last_tool = fst (last calls)\<rparr> else None)
    \<and> recovery_due l = (if min (max (unat n) 1 * 2) u32_max \<le> k then stalled l else None)
    \<and> unat (sl_since_progress l) = k \<and> unat (sl_steps l) = length calls"
proof -
  let ?k = "repeats (map (call_hash h) (rev calls))" and ?l = "run_ledger h n calls"
  have k: "?k \<le> length calls" using repeats_le[of "map (call_hash h) (rev calls)"] by simp
  have since: "unat (sl_since_progress ?l) = ?k"
    using k assms by (simp add: run_ledger_since unat_of_nat)
  have steps: "unat (sl_steps ?l) = length calls"
    using run_ledger_fields[of h n calls] assms by (simp add: unat_of_nat)
  have some: "calls \<noteq> []" if "max (unat n) 1 \<le> ?k" using that k by auto
  note f = run_ledger_fields[of h n calls]
  have "stalled ?l = (if max (unat n) 1 \<le> ?k
       then Some \<lparr>st_steps = word_of_nat (length calls), st_without_progress = word_of_nat ?k,
                  st_last_tool = fst (last calls)\<rparr> else None)"
    using f some run_ledger_since[of h n calls] unfolding stalled_def word_le_nat_alt since
    by (simp add: unat_max)
  moreover have "recovery_due ?l
      = (if min (max (unat n) 1 * 2) u32_max \<le> ?k then stalled ?l else None)"
    using f by (simp add: recovery_due_def word_le_nat_alt since unat_saturating_mul unat_max)
  ultimately show ?thesis using since steps by (simp add: Let_def)
qed

theorem ledger_counts_repeats_witness:
  "recovery_due (run_ledger (\<lambda>_ _ _. 7) 1 [(''exec'', JNull, ''a''), (''exec'', JNull, ''b''), (''read'', JNull, ''c'')])
     = Some \<lparr>st_steps = 3, st_without_progress = 2, st_last_tool = ''read''\<rparr>"
proof -
  let ?calls = "[(''exec'', JNull, ''a''), (''exec'', JNull, ''b''), (''read'', JNull, ''c'')]"
  have "length ?calls < 2 ^ 32" by simp
  from ledger_counts_repeats[OF this, of "\<lambda>_ _ _. 7" 1] show ?thesis
    by (simp add: call_hash_def u32_max_def Let_def)
qed

end
