(* ===== verification/Questions.thy ===== *)
theory Questions
  imports Work
begin

text \<open>
  Questions as data, \<^verbatim>\<open>rustykrab-core/src/questions.rs\<close> and \<^verbatim>\<open>work_preference.rs\<close>, with the projects
  crate's impact names: classes, kinds, statuses, the record of a delegated decision, the compiled
  checks of a standing-judgment grant, and the reviewed work templates a grant may carry. The
  properties: question classes survive the store and the projects crate, and a template matches
  exactly the same reviewed scope.
\<close>

section \<open>Classes\<close>

datatype QuestionClass =
    QcBlockingNow | QcBlockingLater | QcResearchable | QcDefaultable | QcDelegated | QcObsolete

definition QuestionClass_ALL :: "QuestionClass list" where
  "QuestionClass_ALL =
     [QcBlockingNow, QcBlockingLater, QcResearchable, QcDefaultable, QcDelegated, QcObsolete]"

fun QuestionClass_as_str :: "QuestionClass \<Rightarrow> string" where
  "QuestionClass_as_str QcBlockingNow = ''blocking_now''"
| "QuestionClass_as_str QcBlockingLater = ''blocking_later''"
| "QuestionClass_as_str QcResearchable = ''researchable''"
| "QuestionClass_as_str QcDefaultable = ''defaultable''"
| "QuestionClass_as_str QcDelegated = ''delegated''"
| "QuestionClass_as_str QcObsolete = ''obsolete''"

definition QuestionClass_parse :: "string \<Rightarrow> QuestionClass option" where
  "QuestionClass_parse raw =
     (let norm = map (\<lambda>c. if c = CHR '' '' \<or> c = CHR ''-'' then CHR ''_'' else c)
        (to_ascii_lowercase (trim raw))
      in find (\<lambda>c. QuestionClass_as_str c = norm) QuestionClass_ALL)"

section \<open>Kinds\<close>

datatype QuestionKind = QkDecision | QkConsent | QkCredential | QkCapability | QkApproval

definition QuestionKind_ALL :: "QuestionKind list" where
  "QuestionKind_ALL = [QkDecision, QkConsent, QkCredential, QkCapability, QkApproval]"

fun QuestionKind_as_str :: "QuestionKind \<Rightarrow> string" where
  "QuestionKind_as_str QkDecision = ''decision''"
| "QuestionKind_as_str QkConsent = ''consent''"
| "QuestionKind_as_str QkCredential = ''credential''"
| "QuestionKind_as_str QkCapability = ''capability''"
| "QuestionKind_as_str QkApproval = ''approval''"

definition QuestionKind_parse :: "string \<Rightarrow> QuestionKind option" where
  "QuestionKind_parse raw = find (\<lambda>k. QuestionKind_as_str k = trim raw) QuestionKind_ALL"

fun blocked_reason :: "QuestionKind \<Rightarrow> BlockedReason" where
  "blocked_reason QkDecision = NeedsDecision"
| "blocked_reason QkConsent = NeedsConsent"
| "blocked_reason QkApproval = NeedsConsent"
| "blocked_reason QkCredential = NeedsCredential"
| "blocked_reason QkCapability = NeedsTool"

fun for_blocked :: "BlockedReason \<Rightarrow> QuestionKind" where
  "for_blocked NeedsConsent = QkConsent"
| "for_blocked NeedsCredential = QkCredential"
| "for_blocked NeedsTool = QkCapability"
| "for_blocked _ = QkDecision"

section \<open>Statuses\<close>

datatype QuestionStatus =
    QsOpen | QsRecorded | QsResearching | QsAnswered | QsDefaulted | QsDelegated | QsObsolete

definition QuestionStatus_ALL :: "QuestionStatus list" where
  "QuestionStatus_ALL =
     [QsOpen, QsRecorded, QsResearching, QsAnswered, QsDefaulted, QsDelegated, QsObsolete]"

fun QuestionStatus_as_str :: "QuestionStatus \<Rightarrow> string" where
  "QuestionStatus_as_str QsOpen = ''open''"
| "QuestionStatus_as_str QsRecorded = ''recorded''"
| "QuestionStatus_as_str QsResearching = ''researching''"
| "QuestionStatus_as_str QsAnswered = ''answered''"
| "QuestionStatus_as_str QsDefaulted = ''defaulted''"
| "QuestionStatus_as_str QsDelegated = ''delegated''"
| "QuestionStatus_as_str QsObsolete = ''obsolete''"

definition QuestionStatus_parse :: "string \<Rightarrow> QuestionStatus" where
  "QuestionStatus_parse raw =
     (case find (\<lambda>s. QuestionStatus_as_str s = raw) QuestionStatus_ALL of
        Some s \<Rightarrow> s | None \<Rightarrow> QsOpen)"

definition QuestionStatus_is_waiting :: "QuestionStatus \<Rightarrow> bool" where
  "QuestionStatus_is_waiting s = (s \<in> {QsOpen, QsRecorded, QsResearching})"

definition has_answer :: "QuestionStatus \<Rightarrow> bool" where
  "has_answer s = (s \<in> {QsAnswered, QsDefaulted, QsDelegated})"

record DelegatedDecision =
  dd_chosen :: string
  dd_alternatives :: "string list"
  dd_rationale :: string
  dd_authority :: string
  dd_revisit :: string

section \<open>Reviewed work templates\<close>

datatype WorkStartMode = WsOnce | WsAutomatic

record WorkTemplate =
  wt_example_item :: string
  wt_title :: string
  wt_kind :: WorkKind
  wt_project_id :: "string option"
  wt_objective :: string
  wt_done_when :: string
  wt_constraints :: "string list"
  wt_decisions_made :: "string list"
  wt_artifact_refs :: "ArtifactRef list"
  wt_required_tools :: "string list"
  wt_required_mcp_servers :: "string list"
  wt_writable_resources :: "string list"
  wt_worker_kind :: WorkerKind
  wt_inputs_from :: "string list"
  wt_trigger :: Trigger
  wt_preconditions :: "Precondition list"
  wt_budget :: Budget
  wt_facets :: "WorkFacets option"

definition WorkTemplate_capture :: "WorkItem \<Rightarrow> WorkFacets option \<Rightarrow> WorkTemplate" where
  "WorkTemplate_capture i facets =
     \<lparr>wt_example_item = wi_id i, wt_title = wi_title i, wt_kind = wi_kind i, wt_project_id = None,
      wt_objective = wi_objective i, wt_done_when = wi_done_when i,
      wt_constraints = wi_constraints i, wt_decisions_made = wi_decisions_made i,
      wt_artifact_refs = wi_artifact_refs i, wt_required_tools = wi_required_tools i,
      wt_required_mcp_servers = wi_required_mcp_servers i,
      wt_writable_resources = wi_writable_resources i, wt_worker_kind = wi_worker_kind i,
      wt_inputs_from = wi_inputs_from i, wt_trigger = wi_trigger i,
      wt_preconditions = wi_preconditions i, wt_budget = wi_budget i, wt_facets = facets\<rparr>"

text \<open>What \<open>matches\<close> erases of both sides: the task label, the worker pin and the retired limits.\<close>

definition reviewed_scope :: "WorkTemplate \<Rightarrow> WorkTemplate" where
  "reviewed_scope t =
     t\<lparr>wt_kind := (if wt_kind t \<in> {WkProposal, WkCapability} then wt_kind t else WkTask),
       wt_worker_kind := WrAny,
       wt_budget := without_execution_limits (wt_budget t)\<rparr>"

definition WorkTemplate_matches :: "WorkTemplate \<Rightarrow> WorkTemplate \<Rightarrow> bool" where
  "WorkTemplate_matches reviewed candidate =
     (reviewed_scope reviewed
      = reviewed_scope (candidate\<lparr>wt_example_item := wt_example_item reviewed\<rparr>))"

section \<open>Compiled checks\<close>

datatype JudgmentCheck =
    JcWorkTemplate WorkStartMode u32 WorkTemplate
  | JcPlanItemsAtMost u32
  | JcPlanTokensAtMost u64
  | JcConsentFor string
  | JcDelegate string
  | JcDecideOn string
  | JcReserveOn string

fun JudgmentCheck_describe :: "JudgmentCheck \<Rightarrow> string" where
  "JudgmentCheck_describe (JcWorkTemplate WsOnce limit t) =
     ''one-time approval example: '' @ wt_title t"
| "JudgmentCheck_describe (JcWorkTemplate WsAutomatic limit t) =
     ''start the exact template '' @ wt_title t @ '' automatically, at most ''
     @ nat_digits (unat limit) @ '' times per day''"
| "JudgmentCheck_describe (JcPlanItemsAtMost items) =
     ''plans of up to '' @ nat_digits (unat items) @ '' items run without asking''"
| "JudgmentCheck_describe (JcPlanTokensAtMost tokens) =
     ''plans budgeted up to '' @ nat_digits (unat tokens) @ '' tokens run without asking''"
| "JudgmentCheck_describe (JcConsentFor resource) = ''ask before anything writes '' @ resource"
| "JudgmentCheck_describe (JcDelegate resource) =
     ''writing '' @ resource @ '' is delegated; no need to ask''"
| "JudgmentCheck_describe (JcDecideOn topic) =
     ''decide questions about '' @ topic @ '' without asking, and record why''"
| "JudgmentCheck_describe (JcReserveOn topic) = ''always ask about '' @ topic"

section \<open>The projects crate's names\<close>

datatype QuestionImpact =
    QiBlockingNow | QiBlockingLater | QiResearchable | QiDefaultable | QiDelegated | QiObsolete
  | QiCustom string

fun impact_of :: "QuestionClass \<Rightarrow> QuestionImpact" where
  "impact_of QcBlockingNow = QiBlockingNow"
| "impact_of QcBlockingLater = QiBlockingLater"
| "impact_of QcResearchable = QiResearchable"
| "impact_of QcDefaultable = QiDefaultable"
| "impact_of QcDelegated = QiDelegated"
| "impact_of QcObsolete = QiObsolete"

fun class_of :: "QuestionImpact \<Rightarrow> QuestionClass option" where
  "class_of QiBlockingNow = Some QcBlockingNow"
| "class_of QiBlockingLater = Some QcBlockingLater"
| "class_of QiResearchable = Some QcResearchable"
| "class_of QiDefaultable = Some QcDefaultable"
| "class_of QiDelegated = Some QcDelegated"
| "class_of QiObsolete = Some QcObsolete"
| "class_of (QiCustom _) = None"

section \<open>Codecs interpreted\<close>

lemma QuestionStatus_mem_ALL: "s \<in> set QuestionStatus_ALL"
  by (cases s) (simp_all add: QuestionStatus_ALL_def)

lemma QuestionStatus_as_str_inj: "inj QuestionStatus_as_str"
proof (rule injI)
  fix a b assume "QuestionStatus_as_str a = QuestionStatus_as_str b" then show "a = b"
    by (cases a; cases b) simp_all
qed

interpretation question_status: default_codec QuestionStatus_as_str QuestionStatus_parse QsOpen
proof
  show "QuestionStatus_parse (QuestionStatus_as_str x) = x" for x
    by (simp add: QuestionStatus_parse_def find_codec[OF QuestionStatus_as_str_inj QuestionStatus_mem_ALL])
  show "raw \<notin> range QuestionStatus_as_str \<Longrightarrow> QuestionStatus_parse raw = QsOpen" for raw
    by (auto simp: QuestionStatus_parse_def split: option.splits dest: find_Some_mem)
qed


lemma QuestionClass_reads_back: "QuestionClass_parse (QuestionClass_as_str c) = Some c"
proof -
  have "list_all (\<lambda>c. QuestionClass_parse (QuestionClass_as_str c) = Some c) QuestionClass_ALL"
    by code_simp
  moreover have "c \<in> set QuestionClass_ALL" by (cases c) (simp_all add: QuestionClass_ALL_def)
  ultimately show ?thesis by (simp add: list_all_iff)
qed

lemma QuestionKind_reads_back: "QuestionKind_parse (QuestionKind_as_str k) = Some k"
proof -
  have "list_all (\<lambda>k. QuestionKind_parse (QuestionKind_as_str k) = Some k) QuestionKind_ALL"
    by code_simp
  moreover have "k \<in> set QuestionKind_ALL" by (cases k) (simp_all add: QuestionKind_ALL_def)
  ultimately show ?thesis by (simp add: list_all_iff)
qed

lemma without_limits_eq_iff:
  "without_execution_limits a = without_execution_limits b \<longleftrightarrow>
     bg_repairs a = bg_repairs b \<and> bg_rungs a = bg_rungs b"
  by (cases a; cases b) (auto simp: without_execution_limits_def)

section \<open>Properties\<close>

text \<open>Question data survives its encodings: a class read back from its printed name or from the
  projects crate's name is the same class, a kind likewise, and a status that no build printed is
  read as open, so its item keeps waiting.\<close>

theorem question_codecs:
  "QuestionClass_parse (QuestionClass_as_str c) = Some c
   \<and> class_of (impact_of c) = Some c
   \<and> QuestionKind_parse (QuestionKind_as_str k) = Some k
   \<and> QuestionStatus_parse (QuestionStatus_as_str s) = s
   \<and> (raw \<notin> range QuestionStatus_as_str \<longrightarrow> QuestionStatus_is_waiting (QuestionStatus_parse raw))"
proof (intro conjI impI)
  show "QuestionClass_parse (QuestionClass_as_str c) = Some c" by (rule QuestionClass_reads_back)
  show "QuestionKind_parse (QuestionKind_as_str k) = Some k" by (rule QuestionKind_reads_back)
  show "class_of (impact_of c) = Some c" by (cases c) simp_all
  show "QuestionStatus_parse (QuestionStatus_as_str s) = s" by (rule question_status.dparse_as_str)
  show "raw \<notin> range QuestionStatus_as_str \<Longrightarrow> QuestionStatus_is_waiting (QuestionStatus_parse raw)"
    by (simp add: question_status.dparse_other QuestionStatus_is_waiting_def)
qed

theorem question_codecs_witness:
  "QuestionStatus_is_waiting (QuestionStatus_parse ''bogus'')
   \<and> QuestionClass_parse ''researchable'' = Some QcResearchable"
proof -
  have "''bogus'' \<noteq> QuestionStatus_as_str s" for s by (cases s) simp_all
  then have "''bogus'' \<notin> range QuestionStatus_as_str" by blast
  then show ?thesis using question_codecs[of QcResearchable QkDecision QsOpen "''bogus''"] by simp
qed

text \<open>A reviewed template matches a candidate exactly when they agree on everything the owner
  reviewed: the content, tools, servers, resources, inputs, trigger, preconditions, recovery budget
  and facets, and on the kind where it is a proposal or a capability; ids, other task labels, worker
  pins and execution estimates do not count.\<close>

theorem template_matches_reviewed_scope:
  "WorkTemplate_matches r c \<longleftrightarrow>
     wt_title c = wt_title r \<and> wt_project_id c = wt_project_id r \<and> wt_objective c = wt_objective r
     \<and> wt_done_when c = wt_done_when r \<and> wt_constraints c = wt_constraints r
     \<and> wt_decisions_made c = wt_decisions_made r \<and> wt_artifact_refs c = wt_artifact_refs r
     \<and> wt_required_tools c = wt_required_tools r
     \<and> wt_required_mcp_servers c = wt_required_mcp_servers r
     \<and> wt_writable_resources c = wt_writable_resources r \<and> wt_inputs_from c = wt_inputs_from r
     \<and> wt_trigger c = wt_trigger r \<and> wt_preconditions c = wt_preconditions r
     \<and> wt_facets c = wt_facets r
     \<and> bg_repairs (wt_budget c) = bg_repairs (wt_budget r)
     \<and> bg_rungs (wt_budget c) = bg_rungs (wt_budget r)
     \<and> (wt_kind c = wt_kind r \<or> {wt_kind c, wt_kind r} \<inter> {WkProposal, WkCapability} = {})"
  by (cases r; cases c)
    (auto simp: WorkTemplate_matches_def reviewed_scope_def without_limits_eq_iff)

end
