(* ===== verification/Judgment.thy ===== *)
theory Judgment
  imports Questions "HOL-Library.List_Lexorder" "HOL-Library.Char_ord"
begin

text \<open>
  Standing judgment, \<^verbatim>\<open>rustykrab-control/src/questions/judgment.rs\<close>, with the approval policy it
  folds over (\<^verbatim>\<open>graph/validate.rs\<close>): the compiler from a grant's sentences to checks, the fold of the
  active grants, and the lookups the question router makes. A \<^verbatim>\<open>BTreeSet<String>\<close> is a sorted list
  without repeats. Words hold only letters, digits and (removed) apostrophes, so reading a number
  never meets a sign.
\<close>

section \<open>The approval policy\<close>

record ApprovalPolicy =
  ap_id :: "string option"
  ap_max_items :: "u32 option"
  ap_max_total_tokens :: "u64 option"
  ap_delegated_resources :: "string list option"
  ap_authorized_slices :: "work_item_id list option"
  ap_hold_discovered :: bool
  ap_consent_resources :: "string list"

definition ApprovalPolicy_default :: ApprovalPolicy where
  "ApprovalPolicy_default =
     \<lparr>ap_id = None, ap_max_items = None, ap_max_total_tokens = None,
      ap_delegated_resources = None, ap_authorized_slices = None, ap_hold_discovered = False,
      ap_consent_resources = []\<rparr>"

definition under :: "string \<Rightarrow> string \<Rightarrow> bool" where
  \<comment> \<open>\<^verbatim>\<open>resource.starts_with(&format!("{r}:"))\<close>\<close>
  "under r resource = starts_with (r @ '':'') resource"

definition names_side_effect :: "ApprovalPolicy \<Rightarrow> string \<Rightarrow> string option" where
  "names_side_effect p resource =
     find (\<lambda>r. resource = r \<or> under r resource) (ap_consent_resources p)"

definition ApprovalPolicy_evaluates :: "ApprovalPolicy \<Rightarrow> bool" where
  "ApprovalPolicy_evaluates p =
     (ap_max_items p \<noteq> None \<or> ap_delegated_resources p \<noteq> None \<or> ap_authorized_slices p \<noteq> None
      \<or> ap_consent_resources p \<noteq> [])"

definition PAYMENT :: string where
  "PAYMENT = ''payment''"

definition THIRD_PARTY_MESSAGE :: string where
  "THIRD_PARTY_MESSAGE = ''message:third_party''"

definition bt_of_list :: "string list \<Rightarrow> string list" where
  "bt_of_list xs = foldl (\<lambda>s x. insort_insert x s) [] xs"

definition baseline :: ApprovalPolicy where
  "baseline =
     ApprovalPolicy_default
       \<lparr>ap_id := Some ''baseline'', ap_max_items := Some 10, ap_max_total_tokens := Some 1000000,
        ap_consent_resources := bt_of_list [PAYMENT, THIRD_PARTY_MESSAGE]\<rparr>"

section \<open>Words\<close>

text \<open>\<^verbatim>\<open>char::is_alphanumeric\<close> on the first 256 code points.\<close>

definition is_alphanumeric :: "char \<Rightarrow> bool" where
  "is_alphanumeric c =
     (let n = (of_char c :: int) in
      (48 \<le> n \<and> n \<le> 57) \<or> (65 \<le> n \<and> n \<le> 90) \<or> (97 \<le> n \<and> n \<le> 122)
      \<or> n \<in> {170, 178, 179, 181, 185, 186, 188, 189, 190}
      \<or> (192 \<le> n \<and> n \<noteq> 215 \<and> n \<noteq> 247))"

text \<open>Character tests evaluated on binary integers.\<close>

lemma of_char_int: "(of_char c :: int) = int (code_of c)"
  by (simp add: code_of_def of_nat_of_char)

lemma is_whitespace_code [code]:
  "is_whitespace c = (let n = (of_char c :: int) in (9 \<le> n \<and> n \<le> 13) \<or> n = 32 \<or> n = 133 \<or> n = 160)"
  by (auto simp: is_whitespace_def of_char_int Let_def)

lemma lower_code [code]:
  "lower c = (let n = (of_char c :: int) in
     if (65 \<le> n \<and> n \<le> 90) \<or> (192 \<le> n \<and> n \<le> 222 \<and> n \<noteq> 215) then char_of (n + 32) else c)"
proof -
  have "(char_of (int (code_of c) + 32) :: char) = char_of (code_of c + 32)"
    using char_of_nat[of "code_of c + 32", where 'a = int] by simp
  then show ?thesis by (simp add: lower_def of_char_int Let_def)
qed

definition APOSTROPHE :: char where
  "APOSTROPHE = CHR 0x27"

definition sentences :: "string \<Rightarrow> string list" where
  "sentences txt =
     filter (\<lambda>s. s \<noteq> [])
       (map (\<lambda>s. join '' '' (split_whitespace s))
         (split_on (\<lambda>c. c \<in> {CHR ''.'', CHR '';'', CHR ''!'', CHR 0x0A}) txt))"

definition words :: "string \<Rightarrow> string list" where
  "words sentence =
     filter (\<lambda>w. w \<noteq> [])
       (map (filter (\<lambda>c. c \<noteq> APOSTROPHE))
         (split_on (\<lambda>c. \<not> (is_alphanumeric c \<or> c = APOSTROPHE)) (to_lowercase sentence)))"

definition has :: "string list \<Rightarrow> string list \<Rightarrow> bool" where
  "has ws any = (\<exists>w \<in> set ws. w \<in> set any)"

fun has_pair :: "string list \<Rightarrow> string \<Rightarrow> string \<Rightarrow> bool" where
  "has_pair (x # y # ws) a b = (x = a \<and> y = b \<or> has_pair (y # ws) a b)"
| "has_pair _ a b = False"

definition PAY :: "string list" where
  "PAY =
     [''pay'', ''paying'', ''pays'', ''payment'', ''payments'', ''spend'', ''spending'', ''buy'',
      ''buying'', ''purchase'', ''purchases'', ''purchasing'', ''charge'', ''charging'']"

definition MESSAGE :: "string list" where
  "MESSAGE =
     [''message'', ''messages'', ''messaging'', ''email'', ''emails'', ''emailing'', ''text'',
      ''texting'', ''contact'', ''contacting'', ''invite'', ''inviting'', ''invitations'',
      ''invites'']"

definition WRITE :: "string list" where
  "WRITE =
     [''write'', ''writing'', ''change'', ''changing'', ''edit'', ''editing'', ''touch'',
      ''touching'', ''update'', ''updating'', ''use'', ''using'', ''book'', ''booking'',
      ''manage'', ''managing'', ''modify'', ''modifying'', ''delete'', ''deleting'']"

definition FILLER :: "string list" where
  "FILLER =
     [''my'', ''the'', ''a'', ''an'', ''to'', ''on'', ''in'', ''of'', ''for'', ''me'', ''any'',
      ''anything'', ''things'', ''stuff'', ''yourself'', ''without'', ''asking'', ''ask'',
      ''first'', ''please'', ''you'', ''your'', ''about'', ''before'', ''and'', ''or'', ''it'',
      ''them'', ''all'', ''always'', ''never'']"

definition asks_first :: "string list \<Rightarrow> bool" where
  "asks_first ws =
     (has ws [''ask'', ''check'', ''confirm''] \<and> has ws [''before'', ''first'']
      \<or> has_pair ws ''always'' ''ask''
      \<or> has_pair ws ''need'' ''approval''
      \<or> has_pair ws ''my'' ''approval'')"

definition delegates :: "string list \<Rightarrow> bool" where
  "delegates ws =
     (has_pair ws ''you'' ''may'' \<or> has_pair ws ''you'' ''can'' \<or> has_pair ws ''feel'' ''free''
      \<or> has_pair ws ''go'' ''ahead'' \<or> has_pair ws ''without'' ''asking''
      \<or> has_pair ws ''no'' ''need'' \<or> has_pair ws ''dont'' ''ask'' \<or> has_pair ws ''do'' ''not'')"

definition resource_of :: "string list \<Rightarrow> string option" where
  "resource_of ws =
     (if has ws PAY then Some PAYMENT
      else if has ws MESSAGE
        \<or> has ws [''send'', ''sending'']
          \<and> has ws [''people'', ''anyone'', ''anybody'', ''others'', ''someone'', ''friends'']
      then Some THIRD_PARTY_MESSAGE
      else case position (\<lambda>w. w \<in> set WRITE) ws of
        None \<Rightarrow> None
      | Some at \<Rightarrow>
          (case find (\<lambda>w. w \<notin> set FILLER \<and> w \<notin> set WRITE) (drop (at + 1) ws) of
             None \<Rightarrow> None
           | Some w \<Rightarrow>
               (let r = trim_end_char (CHR ''s'') w in if r = [] then None else Some r)))"

section \<open>Numbers\<close>

definition is_digit :: "char \<Rightarrow> bool" where
  "is_digit c = (let n = (of_char c :: int) in 48 \<le> n \<and> n \<le> 57)"

definition digits_value :: "string \<Rightarrow> int" where
  "digits_value s = foldl (\<lambda>n c. n * 10 + (of_char c - 48)) 0 s"

definition parse_u64 :: "string \<Rightarrow> u64 option" where
  "parse_u64 s =
     (if s \<noteq> [] \<and> list_all is_digit s \<and> digits_value s < 2 ^ 64
      then Some (word_of_int (digits_value s)) else None)"

text \<open>The product wraps as in a release build.\<close>

definition number_of :: "string \<Rightarrow> u64 option" where
  "number_of w =
     (if w \<noteq> [] \<and> last w = CHR ''k'' then map_option (\<lambda>n. n * 1000) (parse_u64 (butlast w))
      else parse_u64 w)"

fun number_in :: "string list \<Rightarrow> u64 option" where
  "number_in [] = None"
| "number_in (w # ws) = (case number_of w of Some n \<Rightarrow> Some n | None \<Rightarrow> number_in ws)"

definition topic_after :: "string list \<Rightarrow> string list \<Rightarrow> string option" where
  "topic_after ws after =
     (case position (\<lambda>w. w \<in> set after) ws of
        None \<Rightarrow> None
      | Some at \<Rightarrow>
          (let topic = filter (\<lambda>w. w \<notin> set FILLER \<and> w \<notin> set after) (drop (at + 1) ws)
           in if topic = [] then None else Some (join '' '' topic)))"

section \<open>The compiler\<close>

definition u32_of_u64 :: "u64 \<Rightarrow> u32" where
  \<comment> \<open>\<^verbatim>\<open>u32::try_from(n).unwrap_or(u32::MAX)\<close>\<close>
  "u32_of_u64 n = (if n \<le> 0xFFFFFFFF then ucast n else 0xFFFFFFFF)"

definition plan_threshold :: "string list \<Rightarrow> JudgmentCheck option" where
  "plan_threshold ws =
     (case number_in ws of
        None \<Rightarrow> None
      | Some n \<Rightarrow>
          if has ws [''token'', ''tokens''] then Some (JcPlanTokensAtMost n)
          else if has ws [''item'', ''items'', ''step'', ''steps'', ''task'', ''tasks'']
          then Some (JcPlanItemsAtMost (u32_of_u64 n))
          else None)"

definition decides_alone :: "string list \<Rightarrow> bool" where
  "decides_alone ws =
     (has ws [''judgment'', ''judgement'']
      \<or> (has ws [''decide'', ''choose'', ''pick''] \<and> has ws [''yourself'', ''may'', ''can''])
        \<and> \<not> asks_first ws)"

definition decide_topic :: "string list \<Rightarrow> JudgmentCheck option" where
  "decide_topic ws =
     (if decides_alone ws
      then map_option JcDecideOn
        (topic_after ws [''on'', ''about'', ''for'', ''decide'', ''choose'', ''pick''])
      else None)"

definition reserve_topic :: "string list \<Rightarrow> JudgmentCheck option" where
  "reserve_topic ws =
     (if has_pair ws ''never'' ''decide'' \<or> has_pair ws ''never'' ''choose''
      then map_option JcReserveOn (topic_after ws [''decide'', ''choose''])
      else None)"

definition compile_sentence :: "string \<Rightarrow> JudgmentCheck list" where
  "compile_sentence sentence =
     (let ws = words sentence in
      case plan_threshold ws of
        Some c \<Rightarrow> [c]
      | None \<Rightarrow>
      (case decide_topic ws of
        Some c \<Rightarrow> [c]
      | None \<Rightarrow>
      (case reserve_topic ws of
        Some c \<Rightarrow> [c]
      | None \<Rightarrow>
      (case resource_of ws of
        Some resource \<Rightarrow>
          if asks_first ws \<and> \<not> has_pair ws ''without'' ''asking'' then [JcConsentFor resource]
          else if delegates ws then [JcDelegate resource]
          else []
      | None \<Rightarrow>
          if has_pair ws ''always'' ''ask''
          then (case topic_after ws [''about'', ''before'', ''on''] of
                  Some topic \<Rightarrow> [JcReserveOn topic] | None \<Rightarrow> [])
          else []))))"

record JudgmentPolicy =
  jp_statement :: string
  jp_delegated_scopes :: "string list"
  jp_reserved_decisions :: "string list"
  jp_extensions :: "(string \<times> json) list"

record Compiled =
  cp_checks :: "JudgmentCheck list"
  cp_policy :: JudgmentPolicy
  cp_unrecognised :: "string list"

definition compile_step ::
  "JudgmentCheck list \<times> string list \<Rightarrow> string \<Rightarrow> JudgmentCheck list \<times> string list" where
  "compile_step st sentence =
     (case st of (checks, unrecognised) \<Rightarrow>
        let found = compile_sentence sentence in
        (foldl push_unique checks found,
         if found = [] then unrecognised @ [sentence] else unrecognised))"

fun reserves_check :: "JudgmentCheck \<Rightarrow> bool" where
  "reserves_check (JcConsentFor _) = True"
| "reserves_check (JcReserveOn _) = True"
| "reserves_check _ = False"

definition compile :: "string \<Rightarrow> Compiled" where
  "compile txt =
     (case foldl compile_step ([], []) (sentences txt) of (checks, unrecognised) \<Rightarrow>
        \<lparr>cp_checks = checks,
         cp_policy =
           \<lparr>jp_statement = trim txt,
            jp_delegated_scopes = map JudgmentCheck_describe (filter (\<lambda>c. \<not> reserves_check c) checks),
            jp_reserved_decisions = map JudgmentCheck_describe (filter reserves_check checks),
            jp_extensions = []\<rparr>,
         cp_unrecognised = unrecognised\<rparr>)"

section \<open>The active grants\<close>

record JudgmentRow =
  jr_id :: string
  jr_scope :: string
  jr_text :: string
  jr_checks :: "JudgmentCheck list"
  jr_policy :: JudgmentPolicy
  jr_unrecognised :: "string list"
  jr_granted_by :: "string option"
  jr_granted_at :: timestamp
  jr_revoked_at :: "timestamp option"

record Judgment =
  jg_approval :: ApprovalPolicy
  jg_decide_on :: "(string \<times> string) list"
  jg_reserve_on :: "(string \<times> string) list"
  jg_delegated :: "(string \<times> string) list"
  jg_sources :: "string list"

definition Judgment_new :: "ApprovalPolicy \<Rightarrow> Judgment" where
  "Judgment_new base =
     \<lparr>jg_approval = base, jg_decide_on = [], jg_reserve_on = [], jg_delegated = [],
      jg_sources = []\<rparr>"

definition covered_by :: "string \<Rightarrow> string \<Rightarrow> bool" where
  "covered_by resource r = (r = resource \<or> under resource r \<or> under r resource)"

definition drop_key :: "string \<Rightarrow> (string \<times> string) list \<Rightarrow> (string \<times> string) list" where
  "drop_key k xs = filter (\<lambda>(t, _). t \<noteq> k) xs"

fun Judgment_apply :: "Judgment \<Rightarrow> JudgmentCheck \<Rightarrow> string \<Rightarrow> Judgment" where
  "Judgment_apply j (JcWorkTemplate _ _ _) policy = j"
| "Judgment_apply j (JcPlanItemsAtMost items) policy =
     j\<lparr>jg_approval := (jg_approval j)\<lparr>ap_max_items := Some items\<rparr>\<rparr>"
| "Judgment_apply j (JcPlanTokensAtMost tokens) policy =
     j\<lparr>jg_approval := (jg_approval j)\<lparr>ap_max_total_tokens := Some tokens\<rparr>\<rparr>"
| "Judgment_apply j (JcConsentFor resource) policy =
     j\<lparr>jg_delegated := drop_key resource (jg_delegated j),
       jg_approval := (jg_approval j)
         \<lparr>ap_consent_resources := insort_insert resource (ap_consent_resources (jg_approval j))\<rparr>\<rparr>"
| "Judgment_apply j (JcDelegate resource) policy =
     j\<lparr>jg_approval := (jg_approval j)
         \<lparr>ap_consent_resources :=
            filter (\<lambda>r. \<not> covered_by resource r) (ap_consent_resources (jg_approval j))\<rparr>,
       jg_delegated := jg_delegated j @ [(resource, policy)]\<rparr>"
| "Judgment_apply j (JcDecideOn topic) policy =
     j\<lparr>jg_reserve_on := drop_key topic (jg_reserve_on j),
       jg_decide_on := jg_decide_on j @ [(topic, policy)]\<rparr>"
| "Judgment_apply j (JcReserveOn topic) policy =
     j\<lparr>jg_decide_on := drop_key topic (jg_decide_on j),
       jg_reserve_on := jg_reserve_on j @ [(topic, policy)]\<rparr>"

definition in_force :: "JudgmentRow \<Rightarrow> bool" where
  "in_force g = (jr_revoked_at g = None \<and> (jr_scope g = [] \<or> jr_scope g = ''all''))"

definition apply_grant :: "Judgment \<Rightarrow> JudgmentRow \<Rightarrow> Judgment" where
  "apply_grant j grant =
     (let j' = foldl (\<lambda>j c. Judgment_apply j c (jr_id grant)) j (jr_checks grant) in
      if jr_checks grant = [] then j'
      else j'\<lparr>jg_sources := jg_sources j' @ [jr_id grant],
              jg_approval := (jg_approval j')\<lparr>ap_id := Some (jr_id grant)\<rparr>\<rparr>)"

definition from_grants :: "ApprovalPolicy \<Rightarrow> JudgmentRow list \<Rightarrow> Judgment" where
  "from_grants base grants = foldl apply_grant (Judgment_new base) (filter in_force grants)"

section \<open>Lookups\<close>

definition stem :: "string \<Rightarrow> string" where
  "stem w = trim_end_char (CHR ''s'') w"

definition mentions :: "string \<Rightarrow> string \<Rightarrow> bool" where
  "mentions txt topic =
     (let hay = map stem (words txt);
          needles = filter (\<lambda>w. w \<noteq> []) (map stem (words topic))
      in needles \<noteq> [] \<and> (\<forall>n \<in> set needles. n \<in> set hay))"

definition reserves :: "Judgment \<Rightarrow> string \<Rightarrow> string option" where
  "reserves j txt = map_option snd (find (\<lambda>(t, _). mentions txt t) (rev (jg_reserve_on j)))"

definition decides :: "Judgment \<Rightarrow> string \<Rightarrow> (string \<times> string) option" where
  "decides j txt = find (\<lambda>(t, _). mentions txt t) (rev (jg_decide_on j))"

definition resource_word :: "string \<Rightarrow> string" where
  "resource_word r =
     map (\<lambda>c. if c = CHR ''_'' then CHR '' '' else c) (rev (takeWhile (\<lambda>c. c \<noteq> CHR '':'') (rev r)))"

definition delegates_in :: "Judgment \<Rightarrow> string \<Rightarrow> (string \<times> string) option" where
  "delegates_in j txt =
     find (\<lambda>(r, _). mentions txt (resource_word r)) (rev (jg_delegated j))"

definition Judgment_describe :: "Judgment \<Rightarrow> string list" where
  "Judgment_describe j =
     (case ap_max_items (jg_approval j) of
        None \<Rightarrow> []
      | Some n \<Rightarrow> [''plans of more than '' @ nat_digits (unat n) @ '' items need approval''])
     @ map (\<lambda>r. ''anything that writes '' @ r @ '' needs approval'')
         (ap_consent_resources (jg_approval j))
     @ map (\<lambda>(r, _). ''writing '' @ r @ '' is delegated'') (jg_delegated j)
     @ map (\<lambda>(t, _). ''questions about '' @ t @ '' are decided by policy'') (jg_decide_on j)
     @ map (\<lambda>(t, _). ''questions about '' @ t @ '' always go to you'') (jg_reserve_on j)"

end
