(* ===== verification/Router.thy ===== *)
theory Router
  imports Judgment
begin

text \<open>
  The question router, \<^verbatim>\<open>rustykrab-control/src/questions/router.rs\<close>, and what it and the standing
  judgment promise together. The locale \<open>grant_fold\<close> is the contract of an invariant of the fold
  over the active grants; its interpretations trace every delegation to a live grant and keep the
  grants exclusive. The properties follow a question from the user's words to the answer given
  without asking.
\<close>

section \<open>Questions and routes\<close>

record Asked =
  aq_text :: string
  aq_claimed :: "QuestionClass option"
  aq_kind :: QuestionKind
  aq_options :: "string list"
  aq_default :: "string option"

record RouteContext =
  rc_item_open :: bool
  rc_answered_before :: "(string \<times> string) option"
  rc_judgment :: Judgment

datatype Route =
    RoAsk
  | RoLater
  | RoResearch
  | RoDefault string
  | RoDelegated string DelegatedDecision string
  | RoObsolete string
  | RoRepeat string

record Routed =
  ro_class :: QuestionClass
  ro_route :: Route
  ro_rule :: string

definition routed :: "QuestionClass \<Rightarrow> Route \<Rightarrow> string \<Rightarrow> Routed" where
  "routed class route rule = \<lparr>ro_class = class, ro_route = route, ro_rule = rule\<rparr>"

text \<open>A consent question about a delegated resource.\<close>

definition resource_decision :: "string \<Rightarrow> string \<Rightarrow> DelegatedDecision" where
  "resource_decision resource policy =
     \<lparr>dd_chosen = ''yes'', dd_alternatives = [''no'', ''ask the user''],
      dd_rationale = ''the question is about '' @ resource @ '', which the user delegated'',
      dd_authority = ''standing judgment '' @ policy @ '': writing '' @ resource @ '' is delegated'',
      dd_revisit =
        ''revoke standing judgment '' @ policy @ '' (`rustykrab judgment revoke '' @ policy
        @ ''`), and consent questions about '' @ resource @ '' go to you again''\<rparr>"

definition topic_decision :: "Asked \<Rightarrow> string \<Rightarrow> string \<Rightarrow> string \<Rightarrow> DelegatedDecision" where
  "topic_decision asked answer topic policy =
     \<lparr>dd_chosen = answer,
      dd_alternatives = filter (\<lambda>o'. o' \<noteq> answer) (aq_options asked) @ [''ask the user''],
      dd_rationale =
        (case aq_default asked of
           Some d \<Rightarrow> ''the asker'' @ [APOSTROPHE] @ ''s recorded default is '' @ d
         | None \<Rightarrow> ''the first option the asker offered''),
      dd_authority =
        ''standing judgment '' @ policy @ '': questions about '' @ topic @ '' are decided by policy'',
      dd_revisit =
        ''answer differently with `rustykrab work answer`, or revoke standing judgment ''
        @ policy @ '' (`rustykrab judgment revoke '' @ policy @ ''`)''\<rparr>"

definition choice :: "Asked \<Rightarrow> string option" where
  "choice asked =
     (case aq_default asked of
        Some d \<Rightarrow> Some d
      | None \<Rightarrow> (case aq_options asked of [] \<Rightarrow> None | o' # _ \<Rightarrow> Some o'))"

definition defaultable :: "Asked \<Rightarrow> bool" where
  "defaultable asked =
     (aq_default asked \<noteq> None
      \<or> length (aq_options asked) = 1 \<and> aq_kind asked \<noteq> QkConsent
      \<or> aq_claimed asked = Some QcDefaultable \<and> aq_options asked \<noteq> [])"

definition route_resource :: "Asked \<Rightarrow> Judgment \<Rightarrow> Routed option" where
  "route_resource asked j =
     (if aq_kind asked = QkConsent
      then (case delegates_in j (aq_text asked) of
              None \<Rightarrow> None
            | Some (resource, policy) \<Rightarrow>
                Some (routed QcDelegated
                  (RoDelegated ''yes'' (resource_decision resource policy) policy)
                  ''delegated_resource''))
      else None)"

definition route_topic :: "Asked \<Rightarrow> Judgment \<Rightarrow> Routed option" where
  "route_topic asked j =
     (case (decides j (aq_text asked), choice asked) of
        (Some (topic, policy), Some answer) \<Rightarrow>
          if aq_kind asked \<noteq> QkConsent
          then Some (routed QcDelegated
            (RoDelegated answer (topic_decision asked answer topic policy) policy) ''delegated_topic'')
          else None
      | _ \<Rightarrow> None)"

definition route_default :: "Asked \<Rightarrow> Routed option" where
  "route_default asked =
     (if defaultable asked \<and> aq_kind asked \<noteq> QkConsent
      then map_option (\<lambda>answer. routed QcDefaultable (RoDefault answer) ''defaultable'') (choice asked)
      else None)"

definition route_claim :: "Asked \<Rightarrow> Routed" where
  "route_claim asked =
     (if aq_claimed asked = Some QcResearchable \<and> aq_kind asked = QkDecision
      then routed QcResearchable RoResearch ''researchable''
      else if aq_claimed asked = Some QcBlockingLater
      then routed QcBlockingLater RoLater ''blocking_later''
      else if aq_claimed asked = Some QcObsolete
      then routed QcObsolete (RoObsolete ''the asker said it no longer needs an answer'') ''obsolete''
      else routed QcBlockingNow RoAsk ''blocking_now'')"

definition route :: "Asked \<Rightarrow> RouteContext \<Rightarrow> Routed" where
  "route asked ctx =
     (if \<not> rc_item_open ctx
      then routed QcObsolete (RoObsolete ''the item that asked is closed'') ''item_closed''
      else case rc_answered_before ctx of
        Some (previous, _) \<Rightarrow>
          routed (case aq_claimed asked of Some c \<Rightarrow> c | None \<Rightarrow> QcBlockingNow)
            (RoRepeat previous) ''repeat''
      | None \<Rightarrow>
          let j = rc_judgment ctx in
          if reserves j (aq_text asked) \<noteq> None then routed QcBlockingNow RoAsk ''reserved''
          else if aq_kind asked = QkCredential then routed QcBlockingNow RoAsk ''credential''
          else case route_resource asked j of
            Some r \<Rightarrow> r
          | None \<Rightarrow>
              (case route_topic asked j of
                 Some r \<Rightarrow> r
               | None \<Rightarrow>
                   (case route_default asked of
                      Some r \<Rightarrow> r
                    | None \<Rightarrow> route_claim asked)))"

definition stated_default :: "string \<Rightarrow> string list \<Rightarrow> string option" where
  "stated_default txt options =
     (case split_once ''default is '' (to_lowercase txt) of
        None \<Rightarrow> None
      | Some (_, rest) \<Rightarrow>
          (let said = trim (takeWhile
             (\<lambda>c. c \<notin> {CHR ''.'', CHR '','', CHR '';'', CHR ''?'', CHR ''!'', CHR 0x0A}) rest)
           in find (\<lambda>o'. to_lowercase (trim o') = said) options))"

definition question_norm :: "string \<Rightarrow> string" where
  "question_norm s =
     rev (dropWhile (\<lambda>c. c \<in> {CHR ''?'', CHR ''.'', CHR ''!'', CHR '' ''})
       (rev (join '' '' (split_whitespace (to_lowercase s)))))"

definition same_question :: "string \<Rightarrow> string \<Rightarrow> bool" where
  "same_question a b = (question_norm a = question_norm b)"

section \<open>Resource names\<close>

lemma under_iff: "under r x \<longleftrightarrow> (\<exists>rest. x = r @ CHR '':'' # rest)"
  unfolding under_def starts_with_def
  by (auto simp: append_eq_conv_conj) (metis append.assoc append_Cons append_Nil append_take_drop_id)

lemma under_covered:
  assumes "x = r \<or> under r x" and "x = q \<or> under q x"
  shows "covered_by r q"
proof (cases "x = r \<or> x = q")
  case True
  then show ?thesis using assms by (auto simp: covered_by_def)
next
  case False
  with assms have "\<exists>a. x = r @ CHR '':'' # a" and "\<exists>b. x = q @ CHR '':'' # b"
    by (simp_all add: under_iff)
  then obtain a b where "x = r @ CHR '':'' # a" and "x = q @ CHR '':'' # b" by blast
  then have "r @ CHR '':'' # a = q @ CHR '':'' # b" by simp
  then obtain us where "r = q @ us \<and> us @ CHR '':'' # a = CHR '':'' # b
      \<or> r @ us = q \<and> CHR '':'' # a = us @ CHR '':'' # b"
    by (auto simp only: append_eq_append_conv2)
  then show ?thesis by (cases us) (auto simp: covered_by_def under_iff)
qed

section \<open>Invariants of the fold over the grants\<close>

text \<open>The id stamp a contributing grant leaves.\<close>

definition stamp :: "Judgment \<Rightarrow> string \<Rightarrow> Judgment" where
  "stamp j g = j\<lparr>jg_sources := jg_sources j @ [g], jg_approval := (jg_approval j)\<lparr>ap_id := Some g\<rparr>\<rparr>"

locale grant_fold =
  fixes ok :: "ApprovalPolicy \<Rightarrow> bool" and I :: "JudgmentRow set \<Rightarrow> Judgment \<Rightarrow> bool"
  assumes start: "ok base \<Longrightarrow> I G (Judgment_new base)"
    and check: "I G j \<Longrightarrow> g \<in> G \<Longrightarrow> in_force g \<Longrightarrow> c \<in> set (jr_checks g) \<Longrightarrow>
      I G (Judgment_apply j c (jr_id g))"
    and stamped: "I G j \<Longrightarrow> I G (stamp j g')"
begin

lemma grant_keeps:
  assumes "I G j" and "g \<in> G" and "in_force g"
  shows "I G (apply_grant j g)"
proof -
  have "I G (foldl (\<lambda>j c. Judgment_apply j c (jr_id g)) j cs)" if "set cs \<subseteq> set (jr_checks g)" for cs
    using that by (induction cs rule: rev_induct) (auto simp: assms intro: check)
  from this[of "jr_checks g"] show ?thesis
    using stamped[unfolded stamp_def] assms(1) by (simp add: apply_grant_def Let_def)
qed

lemma from_grants_keeps:
  assumes "ok base"
  shows "I (set grants) (from_grants base grants)"
proof -
  have "I (set grants) (foldl apply_grant (Judgment_new base) gs)"
    if "set gs \<subseteq> {g \<in> set grants. in_force g}" for gs
    using that by (induction gs rule: rev_induct) (auto simp: start[OF assms] intro: grant_keeps)
  then show ?thesis by (simp add: from_grants_def)
qed

end

text \<open>Every entry of the folded judgment comes from a check of a grant in force.\<close>

definition granted :: "JudgmentRow set \<Rightarrow> JudgmentCheck \<Rightarrow> string \<Rightarrow> bool" where
  "granted G c p = (\<exists>g \<in> G. in_force g \<and> jr_id g = p \<and> c \<in> set (jr_checks g))"

definition traced :: "JudgmentRow set \<Rightarrow> Judgment \<Rightarrow> bool" where
  "traced G j =
     ((\<forall>(t, p) \<in> set (jg_decide_on j). granted G (JcDecideOn t) p)
      \<and> (\<forall>(t, p) \<in> set (jg_reserve_on j). granted G (JcReserveOn t) p)
      \<and> (\<forall>(r, p) \<in> set (jg_delegated j). granted G (JcDelegate r) p))"

definition exclusive :: "Judgment \<Rightarrow> bool" where
  "exclusive j =
     (fst ` set (jg_decide_on j) \<inter> fst ` set (jg_reserve_on j) = {}
      \<and> fst ` set (jg_delegated j) \<inter> set (ap_consent_resources (jg_approval j)) = {}
      \<and> sorted (ap_consent_resources (jg_approval j))
      \<and> distinct (ap_consent_resources (jg_approval j)))"

lemma set_drop_key: "set (drop_key k xs) = {p \<in> set xs. fst p \<noteq> k}"
  by (auto simp: drop_key_def)

interpretation trace: grant_fold "\<lambda>_. True" traced
proof
  show "traced G (Judgment_new base)" for G base by (simp add: traced_def Judgment_new_def)
  show "traced G j \<Longrightarrow> traced G (stamp j g)" for G j g by (simp add: traced_def stamp_def)
next
  fix G j g c
  assume j: "traced G j" and g: "g \<in> G" "in_force g" "c \<in> set (jr_checks g)"
  then have new: "granted G c (jr_id g)" by (auto simp: granted_def)
  show "traced G (Judgment_apply j c (jr_id g))"
    using j new by (cases c) (auto simp: traced_def set_drop_key)
qed

interpretation exclusion: grant_fold
  "\<lambda>base. sorted (ap_consent_resources base) \<and> distinct (ap_consent_resources base)" "\<lambda>_. exclusive"
proof
  show "exclusive (Judgment_new base)"
    if "sorted (ap_consent_resources base) \<and> distinct (ap_consent_resources base)" for base
    using that by (simp add: exclusive_def Judgment_new_def)
  show "exclusive j \<Longrightarrow> exclusive (stamp j g)" for j g by (simp add: exclusive_def stamp_def)
next
  fix j g c assume "exclusive j"
  then show "exclusive (Judgment_apply j c (jr_id g))"
    by (cases c) (auto simp: exclusive_def set_drop_key set_insort_insert sorted_insort_insert
        distinct_insort_insert covered_by_def sorted_filter[where f = "\<lambda>x. x", simplified])
qed

section \<open>The router's branches\<close>

lemma find_rev_mem: "find P (rev xs) = Some x \<Longrightarrow> x \<in> set xs \<and> P x"
  using find_Some_mem by fastforce

lemma delegates_in_mem:
  "delegates_in j txt = Some (r, p) \<Longrightarrow> (r, p) \<in> set (jg_delegated j) \<and> mentions txt (resource_word r)"
  unfolding delegates_in_def by (drule find_rev_mem) simp

lemma decides_mem:
  "decides j txt = Some (t, p) \<Longrightarrow> (t, p) \<in> set (jg_decide_on j) \<and> mentions txt t"
  unfolding decides_def by (drule find_rev_mem) simp

lemma reserves_None_iff:
  "reserves j txt = None \<longleftrightarrow> (\<forall>(t, p) \<in> set (jg_reserve_on j). \<not> mentions txt t)"
  unfolding reserves_def by (auto simp: find_None_iff)

lemma route_answers:
  assumes "route q c = r" and "ro_route r = RoDefault a \<or> ro_route r = RoDelegated a d p"
  shows "rc_item_open c \<and> rc_answered_before c = None \<and> reserves (rc_judgment c) (aq_text q) = None
    \<and> aq_kind q \<noteq> QkCredential
    \<and> (route_resource q (rc_judgment c) = Some r \<or> route_topic q (rc_judgment c) = Some r
       \<or> route_default q = Some r)"
  using assms
  by (auto simp: route_def routed_def Let_def route_claim_def split: if_splits option.splits)

lemma route_resource_Some:
  "route_resource q j = Some r \<Longrightarrow> aq_kind q = QkConsent \<and>
     (\<exists>res p. delegates_in j (aq_text q) = Some (res, p) \<and> ro_class r = QcDelegated
        \<and> ro_route r = RoDelegated ''yes'' (resource_decision res p) p)"
  by (auto simp: route_resource_def routed_def split: if_splits option.splits)

lemma route_topic_Some:
  "route_topic q j = Some r \<Longrightarrow> aq_kind q \<noteq> QkConsent \<and>
     (\<exists>t p a. decides j (aq_text q) = Some (t, p) \<and> choice q = Some a \<and> ro_class r = QcDelegated
        \<and> ro_route r = RoDelegated a (topic_decision q a t p) p)"
  by (auto simp: route_topic_def routed_def split: if_splits option.splits prod.splits)

lemma route_default_Some:
  "route_default q = Some r \<Longrightarrow> aq_kind q \<noteq> QkConsent \<and> defaultable q \<and>
     (\<exists>a. choice q = Some a \<and> ro_route r = RoDefault a)"
  by (auto simp: route_default_def routed_def split: if_splits)

lemma choice_offered:
  "choice q = Some a \<Longrightarrow> aq_default q = Some a \<or> aq_default q = None \<and> a \<in> set (aq_options q)"
  by (auto simp: choice_def split: option.splits list.splits)

section \<open>The compiler\<close>

lemma compile_step_fold:
  assumes "foldl compile_step (cs, us) ss = (cs', us')"
  shows "set cs' = set cs \<union> (\<Union>s \<in> set ss. set (compile_sentence s))
    \<and> us' = us @ filter (\<lambda>s. compile_sentence s = []) ss \<and> distinct cs' = distinct cs"
proof -
  show ?thesis using assms
  proof (induction ss arbitrary: cs us)
    case (Cons s ss)
    have step: "compile_step (cs, us) s = (foldl push_unique cs (compile_sentence s),
        if compile_sentence s = [] then us @ [s] else us)"
      by (simp add: compile_step_def Let_def)
    from Cons.prems have "foldl compile_step (foldl push_unique cs (compile_sentence s),
        if compile_sentence s = [] then us @ [s] else us) ss = (cs', us')"
      using step by simp
    from Cons.IH[OF this] show ?case
      by (auto simp: set_foldl_push_unique distinct_foldl_push_unique)
  qed auto
qed

section \<open>Grants to evaluate\<close>

definition demo_grant :: "string \<Rightarrow> string \<Rightarrow> JudgmentRow" where
  "demo_grant gid txt =
     \<lparr>jr_id = gid, jr_scope = ''all'', jr_text = txt, jr_checks = cp_checks (compile txt),
      jr_policy = cp_policy (compile txt), jr_unrecognised = cp_unrecognised (compile txt),
      jr_granted_by = None, jr_granted_at = 0, jr_revoked_at = None\<rparr>"

definition demo_restaurants :: JudgmentRow where
  "demo_restaurants = demo_grant ''j1'' ''Use your judgment on restaurants.''"

definition demo_question :: Asked where
  "demo_question =
     \<lparr>aq_text = ''Which restaurant for Friday?'', aq_claimed = Some QcBlockingNow,
      aq_kind = QkDecision, aq_options = [''Tasca'', ''Cervejaria''], aq_default = None\<rparr>"

definition demo_context :: RouteContext where
  "demo_context =
     \<lparr>rc_item_open = True, rc_answered_before = None,
      rc_judgment = from_grants baseline [demo_restaurants]\<rparr>"

lemma demo_checks: "jr_checks demo_restaurants = [JcDecideOn ''restaurants'']"
  unfolding demo_restaurants_def demo_grant_def by code_simp

lemma demo_routed:
  "ro_route (route demo_question demo_context)
     = RoDelegated ''Tasca'' (topic_decision demo_question ''Tasca'' ''restaurants'' ''j1'') ''j1''"
  by code_simp

text \<open>
  The grammar reads a prohibition as a delegation: the pairs ``you may'' and ``do not'' count as
  delegating whatever follows them.
\<close>

lemma prohibition_delegates:
  "cp_checks (compile ''You may not pay for anything. Do not email anyone.'')
     = [JcDelegate ''payment'', JcDelegate ''message:third_party'']"
  by code_simp

section \<open>Properties\<close>

lemma delegation_traces_to_a_grant:
  assumes "ro_route (route q c) = RoDelegated a d p" and "rc_judgment c = from_grants base grants"
  shows "\<exists>g \<in> set grants. in_force g \<and> jr_id g = p \<and>
    (aq_kind q = QkConsent \<and> a = ''yes''
       \<and> (\<exists>r. JcDelegate r \<in> set (jr_checks g) \<and> mentions (aq_text q) (resource_word r))
     \<or> aq_kind q \<notin> {QkConsent, QkCredential}
       \<and> (aq_default q = Some a \<or> aq_default q = None \<and> a \<in> set (aq_options q))
       \<and> (\<exists>t. JcDecideOn t \<in> set (jr_checks g) \<and> mentions (aq_text q) t))"
proof -
  let ?j = "rc_judgment c" and ?r = "route q c"
  have traced: "traced (set grants) ?j" using trace.from_grants_keeps assms(2) by simp
  from route_answers[OF refl, of q c a d p] assms(1)
  have nc: "aq_kind q \<noteq> QkCredential" and some: "route_resource q ?j = Some ?r
      \<or> route_topic q ?j = Some ?r \<or> route_default q = Some ?r"
    by auto
  from some show ?thesis
  proof (elim disjE)
    assume "route_resource q ?j = Some ?r"
    then obtain res where k: "aq_kind q = QkConsent" "a = ''yes''"
      and "delegates_in ?j (aq_text q) = Some (res, p)"
      using route_resource_Some assms(1) by fastforce
    from delegates_in_mem[OF this(3)] traced k show ?thesis
      by (fastforce simp: traced_def granted_def)
  next
    assume "route_topic q ?j = Some ?r"
    then obtain t where k: "aq_kind q \<noteq> QkConsent" "choice q = Some a"
      and "decides ?j (aq_text q) = Some (t, p)"
      using route_topic_Some assms(1) by fastforce
    from decides_mem[OF this(3)] traced k nc choice_offered[OF k(2)] show ?thesis
      by (fastforce simp: traced_def granted_def)
  next
    assume "route_default q = Some ?r"
    then show ?thesis using route_default_Some assms(1) by fastforce
  qed
qed

text \<open>C18: no answer is given in the user's name without a live grant. Whenever the router decides a
  question by delegation, under a judgment folded from the stored grants, some unrevoked global
  grant with the recorded policy id carries the check that covers it: a delegated resource the
  consent question mentions (answered yes), or a topic the question mentions (answered with the
  asker's default or an offered option). What the asker claims plays no part.\<close>

theorem delegation_needs_a_live_grant:
  assumes "ro_route (route q c) = RoDelegated a d p" and "rc_judgment c = from_grants base grants"
  shows "\<exists>g \<in> set grants. jr_revoked_at g = None \<and> jr_scope g \<in> {'''', ''all''} \<and> jr_id g = p \<and>
    (aq_kind q = QkConsent \<and> a = ''yes''
       \<and> (\<exists>r. JcDelegate r \<in> set (jr_checks g) \<and> mentions (aq_text q) (resource_word r))
     \<or> aq_kind q \<notin> {QkConsent, QkCredential}
       \<and> (aq_default q = Some a \<or> aq_default q = None \<and> a \<in> set (aq_options q))
       \<and> (\<exists>t. JcDecideOn t \<in> set (jr_checks g) \<and> mentions (aq_text q) t))"
  using delegation_traces_to_a_grant[OF assms] by (simp add: in_force_def)

theorem delegation_needs_a_live_grant_witness:
  "JcDecideOn ''restaurants'' \<in> set (jr_checks demo_restaurants)
   \<and> (\<exists>g \<in> set [demo_restaurants]. jr_revoked_at g = None \<and> jr_id g = ''j1'')"
proof -
  have "rc_judgment demo_context = from_grants baseline [demo_restaurants]"
    by (simp add: demo_context_def)
  with demo_routed have "\<exists>g \<in> set [demo_restaurants]. jr_revoked_at g = None \<and> jr_id g = ''j1''"
    using delegation_needs_a_live_grant by blast
  then show ?thesis by (simp add: demo_checks)
qed

text \<open>C39: what the router answers itself it may answer: never for a closed item or a question already
  answered, never on a topic a grant reserves for the user, never a credential; and a recorded
  default never consents.\<close>

theorem answers_given_without_asking:
  assumes "ro_route (route q c) = RoDefault a \<or> ro_route (route q c) = RoDelegated a d p"
  shows "rc_item_open c \<and> rc_answered_before c = None \<and> aq_kind q \<noteq> QkCredential
    \<and> (\<forall>(t, g) \<in> set (jg_reserve_on (rc_judgment c)). \<not> mentions (aq_text q) t)
    \<and> (ro_route (route q c) = RoDefault a \<longrightarrow> aq_kind q \<noteq> QkConsent \<and> defaultable q
         \<and> (aq_default q = Some a \<or> aq_default q = None \<and> a \<in> set (aq_options q)))"
proof -
  note r = route_answers[OF refl assms]
  have "aq_kind q \<noteq> QkConsent \<and> defaultable q
      \<and> (aq_default q = Some a \<or> aq_default q = None \<and> a \<in> set (aq_options q))"
    if d: "ro_route (route q c) = RoDefault a"
  proof -
    have "route_default q = Some (route q c)"
      using r d route_resource_Some[of q] route_topic_Some[of q] by fastforce
    from route_default_Some[OF this] d choice_offered[of q a] show ?thesis by auto
  qed
  with r show ?thesis by (auto simp: reserves_None_iff)
qed

theorem answers_given_without_asking_witness:
  "rc_item_open demo_context \<and> rc_answered_before demo_context = None
   \<and> aq_kind demo_question \<noteq> QkCredential"
  using answers_given_without_asking[of demo_question demo_context] demo_routed by blast

text \<open>the folded grants never contradict themselves: no topic is both decided by policy and
  reserved for the user, no resource both delegated and in need of consent, and the consent set
  stays a sorted set, from any policy whose consent set is one.\<close>

theorem grants_are_exclusive:
  assumes "sorted (ap_consent_resources base)" and "distinct (ap_consent_resources base)"
  shows "let j = from_grants base grants in
    fst ` set (jg_decide_on j) \<inter> fst ` set (jg_reserve_on j) = {}
    \<and> fst ` set (jg_delegated j) \<inter> set (ap_consent_resources (jg_approval j)) = {}
    \<and> sorted (ap_consent_resources (jg_approval j))
    \<and> distinct (ap_consent_resources (jg_approval j))"
  using exclusion.from_grants_keeps[of base grants] assms by (simp add: exclusive_def Let_def)

theorem grants_are_exclusive_witness:
  "sorted (ap_consent_resources (jg_approval (from_grants baseline [demo_restaurants])))"
proof -
  have "sorted (ap_consent_resources baseline)" and "distinct (ap_consent_resources baseline)"
    by code_simp+
  from grants_are_exclusive[OF this, of "[demo_restaurants]"] show ?thesis by (simp add: Let_def)
qed

text \<open>The last word on a resource wins: delegating it lifts the consent requirement for it and
  everything under it and leaves unrelated resources alone; asking for consent again restores it for
  the resource and everything under it, and removes the delegation.\<close>

theorem last_word_on_a_resource:
  assumes "x = r \<or> under r x"
  shows "names_side_effect (jg_approval (Judgment_apply j (JcDelegate r) p)) x = None
    \<and> (\<forall>q \<in> set (ap_consent_resources (jg_approval j)). \<not> covered_by r q \<longrightarrow>
         q \<in> set (ap_consent_resources (jg_approval (Judgment_apply j (JcDelegate r) p))))
    \<and> names_side_effect (jg_approval (Judgment_apply j (JcConsentFor r) p)) x \<noteq> None
    \<and> r \<notin> fst ` set (jg_delegated (Judgment_apply j (JcConsentFor r) p))"
  using assms under_covered[OF assms]
  by (auto simp: names_side_effect_def find_None_iff set_insort_insert set_drop_key)

theorem last_word_on_a_resource_witness:
  "names_side_effect (jg_approval (Judgment_apply (Judgment_new baseline) (JcDelegate ''payment'') ''j1''))
     ''payment:card'' = None"
proof -
  have "''payment:card'' = ''payment'' \<or> under ''payment'' ''payment:card''"
    by (simp add: under_def starts_with_def)
  from last_word_on_a_resource[OF this] show ?thesis by blast
qed

text \<open>The compiler accounts for every sentence of a grant: the checks are exactly those its
  sentences compile to, without repeats, and the sentences reported as not understood are exactly
  those that compile to none, in order.\<close>

theorem compile_accounts_for_every_sentence:
  "set (cp_checks (compile txt)) = (\<Union>s \<in> set (sentences txt). set (compile_sentence s))
   \<and> distinct (cp_checks (compile txt))
   \<and> cp_unrecognised (compile txt) = filter (\<lambda>s. compile_sentence s = []) (sentences txt)"
proof -
  obtain cs us where f: "foldl compile_step ([], []) (sentences txt) = (cs, us)" by fastforce
  from compile_step_fold[OF f] show ?thesis by (simp add: compile_def f)
qed

text \<open>C40: a prohibition is read as permission: the grant ``You may not pay for anything.'' compiles to a
  delegation of payments, so the consent the baseline policy asks for a payment is no longer asked.\<close>

theorem prohibition_lifts_consent:
  "names_side_effect baseline ''payment'' = Some ''payment''
   \<and> names_side_effect (jg_approval (from_grants baseline
       [demo_grant ''j9'' ''You may not pay for anything.''])) ''payment'' = None"
  by code_simp

end
