(* ===== verification/Filing.thy ===== *)
theory Filing
  imports Supersede Judgment Cycles
begin

text \<open>
  Filing validation, first half: the data of \<^verbatim>\<open>rustykrab-control/src/graph/validate.rs\<close> (filing context,
  failures, results) and the validator's \<open>Run\<close> with the checks that read the filing itself: resolving
  references, edges and kinds, the drafts, the scope, the rows to build, the supersede pairs.

  \<^item> The ids come from \<open>Uuid::new_v4\<close>, a parameter \<open>uuid\<close>: the \<open>n\<close>-th id one call of \<open>validate\<close> draws.
  \<^item> \<open>HashSet\<close>s of ids are lists used for membership; \<open>BTreeSet\<close> and \<open>BTreeMap\<close> are sorted lists.
  \<^item> A check that \<open>fail\<close>s adds to \<open>rn_failed\<close> and goes on; a filing is accepted when the list stays empty.
\<close>

section \<open>Inputs\<close>

datatype FilingSource =
    FsPlanner | FsWorkFile | FsDiscovered | FsLadder | FsProposal | FsDeliveryImport

datatype SplitMode = SmAllow | SmWarn | SmReject

datatype ApprovalTrigger =
    AtItemCount u32 u32
  | AtBudget u64 u64
  | AtUndelegatedResource work_item_id string
  | AtCodeOutsideSlice work_item_id
  | AtDiscovered u32
  | AtLadder u32
  | AtNamedSideEffect work_item_id string

record FilingContext =
  fc_now :: timestamp
  fc_source :: FilingSource
  fc_caps :: GraphCaps
  fc_scope :: "work_item_id option"
  fc_visible :: "work_item_id list option"
  fc_sequential_split :: SplitMode
  fc_supersedes_in_window :: u32
  fc_supersede_limit :: u32
  fc_already_planned :: bool
  fc_approval :: ApprovalPolicy
  fc_isolated_repo_writes :: bool
  fc_default_budget :: Budget
  fc_remaining_budget :: "(work_item_id \<times> Budget) list"
  fc_origin_conversation_id :: "string option"
  fc_discovered_from :: "work_item_id option"

definition FilingContext_new :: "FilingSource \<Rightarrow> timestamp \<Rightarrow> FilingContext" where
  "FilingContext_new source now =
     \<lparr>fc_now = now, fc_source = source, fc_caps = GraphCaps_default, fc_scope = None,
      fc_visible = None, fc_sequential_split = SmAllow, fc_supersedes_in_window = 0,
      fc_supersede_limit = 2, fc_already_planned = False, fc_approval = ApprovalPolicy_default,
      fc_isolated_repo_writes = False, fc_default_budget = Budget_default,
      fc_remaining_budget = [], fc_origin_conversation_id = None, fc_discovered_from = None\<rparr>"

section \<open>Outputs\<close>

fun RejectionReason_as_str :: "RejectionReason \<Rightarrow> string" where
  "RejectionReason_as_str RrUnknownRef = ''unknown_ref''"
| "RejectionReason_as_str RrDuplicateTmp = ''duplicate_tmp''"
| "RejectionReason_as_str RrInvalidItem = ''invalid_item''"
| "RejectionReason_as_str RrCycle = ''cycle''"
| "RejectionReason_as_str RrDepthExceeded = ''depth_exceeded''"
| "RejectionReason_as_str RrTooManyItems = ''too_many_items''"
| "RejectionReason_as_str RrOverBudget = ''over_budget''"
| "RejectionReason_as_str RrSingleWriterConflict = ''single_writer_conflict''"
| "RejectionReason_as_str RrPlanBEdges = ''plan_b_edges''"
| "RejectionReason_as_str RrEdgeOntoActive = ''edge_onto_active''"
| "RejectionReason_as_str RrInputUnordered = ''input_unordered''"
| "RejectionReason_as_str RrDeadFiling = ''dead_filing''"
| "RejectionReason_as_str RrSupersedesActive = ''supersedes_active''"
| "RejectionReason_as_str RrSupersedesClosed = ''supersedes_closed''"
| "RejectionReason_as_str RrOutOfScope = ''out_of_scope''"
| "RejectionReason_as_str RrKindNotAllowed = ''kind_not_allowed''"
| "RejectionReason_as_str RrAlreadyPlanned = ''already_planned''"
| "RejectionReason_as_str RrRateLimited = ''rate_limited''"
| "RejectionReason_as_str RrSequentialSplit = ''sequential_split''"
| "RejectionReason_as_str RrNoRepository = ''no_repository''"

datatype WarningCheck = WcSequentialSplit

record FailedCheck =
  fk_reason :: RejectionReason
  fk_offending :: "ItemRef list"
  fk_detail :: string

record PlanWarning =
  pw_check :: WarningCheck
  pw_items :: "work_item_id list"

record PlanAccepted =
  pa_root :: work_item_id
  pa_ids :: "(string \<times> work_item_id) list"
  pa_held :: "work_item_id list"
  pa_policy :: "string option"
  pa_warnings :: "PlanWarning list"

record PlanRejected =
  pr_failed :: "FailedCheck list"

datatype PlanOutcome = PoAccepted PlanAccepted | PoRejected PlanRejected

datatype Check = CkReason RejectionReason | CkSequentialSplit

record Failure =
  fl_check :: Check
  fl_offending :: "ItemRef list"
  fl_detail :: string

record Rejection =
  rj_failed :: "Failure list"

definition Rejection_has :: "Rejection \<Rightarrow> RejectionReason \<Rightarrow> bool" where
  "Rejection_has r reason = list_ex (\<lambda>f. fl_check f = CkReason reason) (rj_failed r)"

definition Rejection_checks :: "Rejection \<Rightarrow> Check list" where
  "Rejection_checks r = foldl (\<lambda>out f. push_unique out (fl_check f)) [] (rj_failed r)"

definition Rejection_of :: "Rejection \<Rightarrow> RejectionReason \<Rightarrow> Failure list" where
  "Rejection_of r reason = filter (\<lambda>f. fl_check f = CkReason reason) (rj_failed r)"

definition Rejection_to_core :: "Rejection \<Rightarrow> PlanRejected" where
  "Rejection_to_core r =
     \<lparr>pr_failed = map (\<lambda>f. case fl_check f of
          CkReason reason \<Rightarrow> \<lparr>fk_reason = reason, fk_offending = fl_offending f, fk_detail = fl_detail f\<rparr>
        | CkSequentialSplit \<Rightarrow>
            \<lparr>fk_reason = RrSequentialSplit, fk_offending = fl_offending f, fk_detail = fl_detail f\<rparr>)
        (rj_failed r)\<rparr>"

record Accepted =
  ac_plan_id :: string
  ac_root :: work_item_id
  ac_ids :: "(string \<times> work_item_id) list"
  ac_items :: "WorkItem list"
  ac_edges :: "Edge list"
  ac_effects :: Effects
  ac_held :: "work_item_id list"
  ac_question :: "string option"
  ac_triggers :: "ApprovalTrigger list"
  ac_policy :: "string option"
  ac_warnings :: "PlanWarning list"
  ac_supersedes :: bool

definition Accepted_id :: "Accepted \<Rightarrow> string \<Rightarrow> work_item_id option" where
  "Accepted_id a tmp = map_of (ac_ids a) tmp"

definition Accepted_changed :: "Accepted \<Rightarrow> work_item_id list" where
  "Accepted_changed a =
     foldl push_unique (foldl push_unique (map wi_id (ac_items a)) (touched (ac_effects a)))
       (map e_item (ac_edges a))"

definition Accepted_to_core :: "Accepted \<Rightarrow> PlanAccepted" where
  "Accepted_to_core a =
     \<lparr>pa_root = ac_root a, pa_ids = ac_ids a, pa_held = ac_held a, pa_policy = ac_policy a,
      pa_warnings = ac_warnings a\<rparr>"

datatype Validation = VAccepted Accepted | VRejected Rejection

fun Validation_accepted :: "Validation \<Rightarrow> Accepted option" where
  "Validation_accepted (VAccepted a) = Some a"
| "Validation_accepted (VRejected _) = None"

fun Validation_rejected :: "Validation \<Rightarrow> Rejection option" where
  "Validation_rejected (VAccepted _) = None"
| "Validation_rejected (VRejected r) = Some r"

fun Validation_to_outcome :: "Validation \<Rightarrow> PlanOutcome" where
  "Validation_to_outcome (VAccepted a) = PoAccepted (Accepted_to_core a)"
| "Validation_to_outcome (VRejected r) = PoRejected (Rejection_to_core r)"

section \<open>Texts\<close>

text \<open>\<^verbatim>\<open>{:?}\<close> of a string, on the first 256 code points: what Rust's \<open>escape_debug\<close> leaves printable.\<close>

definition QUOTE :: char where
  "QUOTE = CHR 0x22"

definition BACKSLASH :: char where
  "BACKSLASH = CHR 0x5C"

definition hex_digit :: "nat \<Rightarrow> char" where
  "hex_digit d = (if d < 10 then char_of (48 + d) else char_of (87 + d))"

definition hex_digits :: "nat \<Rightarrow> string" where
  "hex_digits n = (if n < 16 then [hex_digit n] else [hex_digit (n div 16), hex_digit (n mod 16)])"

definition escape_debug :: "char \<Rightarrow> string" where
  "escape_debug c =
     (let n = code_of c in
      if n = 0 then [BACKSLASH, CHR ''0'']
      else if n = 9 then [BACKSLASH, CHR ''t'']
      else if n = 10 then [BACKSLASH, CHR ''n'']
      else if n = 13 then [BACKSLASH, CHR ''r'']
      else if c = QUOTE \<or> c = BACKSLASH then [BACKSLASH, c]
      else if n < 32 \<or> (127 \<le> n \<and> n \<le> 160) \<or> n = 173
      then [BACKSLASH, CHR ''u''] @ ''{'' @ hex_digits n @ ''}''
      else [c])"

definition debug_str :: "string \<Rightarrow> string" where
  "debug_str s = QUOTE # concat (map escape_debug s) @ [QUOTE]"

definition describe :: "ItemRef \<Rightarrow> string" where
  "describe r = (case r of IrId k \<Rightarrow> k | IrTmp tmp \<Rightarrow> tmp)"

definition review_scope_violation :: "WorkItemDraft \<Rightarrow> string option" where
  "review_scope_violation draft =
     (case dr_subject draft of
        None \<Rightarrow> None
      | Some subject \<Rightarrow>
          (case protected_subject subject of
             None \<Rightarrow> None
           | Some area \<Rightarrow>
               (case dr_review_tier draft of
                  None \<Rightarrow> None
                | Some tier \<Rightarrow>
                    if tier < RtHighest
                    then Some (''a proposal on `'' @ subject @ ''` touches '' @ area
                      @ '', which only the highest review tier may change; it asked for ''
                      @ ReviewTier_as_str tier)
                    else None)))"

section \<open>The run\<close>

record Run =
  rn_snap :: Snapshot
  rn_plan :: WorkPlan
  rn_ctx :: FilingContext
  rn_ids :: "work_item_id list"
  rn_labels :: "(work_item_id \<times> ItemRef) list"
  rn_by_tmp :: "(string \<times> nat) list"
  rn_fresh :: "work_item_id list"
  rn_failed :: "Failure list"

definition Run_fail :: "RejectionReason \<Rightarrow> ItemRef list \<Rightarrow> string \<Rightarrow> Run \<Rightarrow> Run" where
  "Run_fail reason offending detail rn =
     rn\<lparr>rn_failed := push_unique (rn_failed rn)
           \<lparr>fl_check = CkReason reason, fl_offending = offending, fl_detail = detail\<rparr>\<rparr>"

definition new_draft :: "(nat \<Rightarrow> string) \<Rightarrow> Run \<Rightarrow> nat \<times> WorkItemDraft \<Rightarrow> Run" where
  "new_draft uuid rn row =
     (case row of (i, draft) \<Rightarrow>
        let k = uuid i;
            lab = IrTmp (case dr_tmp draft of Some tmp \<Rightarrow> tmp | None \<Rightarrow> ''#'' @ nat_digits i);
            rn1 = (case dr_tmp draft of
                 None \<Rightarrow> rn
               | Some tmp \<Rightarrow>
                   if map_of (rn_by_tmp rn) tmp \<noteq> None
                   then Run_fail RrDuplicateTmp [lab]
                          (''temp id '' @ debug_str tmp @ '' is used by more than one item'') rn
                   else rn\<lparr>rn_by_tmp := AList.update tmp i (rn_by_tmp rn)\<rparr>)
        in rn1\<lparr>rn_labels := AList.update k lab (rn_labels rn1),
                rn_fresh := push_unique (rn_fresh rn1) k,
                rn_ids := rn_ids rn1 @ [k]\<rparr>)"

definition Run_new :: "(nat \<Rightarrow> string) \<Rightarrow> Snapshot \<Rightarrow> WorkPlan \<Rightarrow> FilingContext \<Rightarrow> Run" where
  "Run_new uuid snap plan ctx =
     foldl (new_draft uuid)
       \<lparr>rn_snap = snap, rn_plan = plan, rn_ctx = ctx, rn_ids = [], rn_labels = [], rn_by_tmp = [],
        rn_fresh = [], rn_failed = []\<rparr>
       (enumerate 0 (wp_items plan))"

definition Run_label :: "Run \<Rightarrow> work_item_id \<Rightarrow> ItemRef" where
  "Run_label rn k = (case map_of (rn_labels rn) k of Some l \<Rightarrow> l | None \<Rightarrow> IrId k)"

definition Run_name :: "Run \<Rightarrow> nat \<Rightarrow> string" where
  "Run_name rn i =
     (case dr_tmp (wp_items (rn_plan rn) ! i) of
        Some tmp \<Rightarrow> debug_str tmp
      | None \<Rightarrow> ''item #'' @ nat_digits i)"

definition Run_visible :: "Run \<Rightarrow> work_item_id \<Rightarrow> bool" where
  "Run_visible rn k =
     (snap_contains (rn_snap rn) k
      \<and> (case fc_visible (rn_ctx rn) of None \<Rightarrow> True | Some v \<Rightarrow> k \<in> set v))"

definition Run_resolve :: "ItemRef \<Rightarrow> string \<Rightarrow> Run \<Rightarrow> work_item_id option \<times> Run" where
  "Run_resolve r whose rn =
     (case r of
        IrTmp tmp \<Rightarrow>
          (case map_of (rn_by_tmp rn) tmp of
             Some i \<Rightarrow> (Some (rn_ids rn ! i), rn)
           | None \<Rightarrow>
               (None, Run_fail RrUnknownRef [r]
                  (''no item in this call has temp id '' @ debug_str tmp @ '' ('' @ whose @ '')'') rn))
      | IrId k \<Rightarrow>
          if Run_visible rn k then (Some k, rn)
          else (None, Run_fail RrUnknownRef [r]
                  (''no item '' @ k @ '' the caller may see ('' @ whose @ '')'') rn))"

section \<open>References\<close>

definition resolve_input :: "string \<Rightarrow> work_item_id list \<times> Run \<Rightarrow> ItemRef \<Rightarrow> work_item_id list \<times> Run" where
  "resolve_input whose acc r =
     (case acc of (found, rn) \<Rightarrow>
        (case Run_resolve r whose rn of
           (Some k, rn') \<Rightarrow> (push_unique found k, rn')
         | (None, rn') \<Rightarrow> (found, rn')))"

definition resolve_draft ::
  "work_item_id option \<Rightarrow> nat option \<Rightarrow> (work_item_id option list \<times> work_item_id list list) \<times> Run
     \<Rightarrow> nat \<times> WorkItemDraft \<Rightarrow> (work_item_id option list \<times> work_item_id list list) \<times> Run" where
  \<comment> \<open>the parent and the inputs of one draft\<close>
  "resolve_draft root root_index acc row =
     (case (acc, row) of (((parents, inputs), rn), (i, draft)) \<Rightarrow>
        let whose = Run_name rn i;
            (parent, rn1) = (case dr_parent draft of
                 Some r \<Rightarrow> Run_resolve r (''the parent of '' @ whose) rn
               | None \<Rightarrow> if Some i = root_index then (None, rn) else (root, rn));
            (found, rn2) = foldl (resolve_input (''the inputs of '' @ whose)) ([], rn1) (dr_inputs_from draft)
        in ((parents @ [parent], inputs @ [found]), rn2))"

definition root_index :: "WorkPlan \<Rightarrow> Run \<Rightarrow> nat option" where
  "root_index plan rn = (case wp_root plan of IrTmp tmp \<Rightarrow> map_of (rn_by_tmp rn) tmp | IrId _ \<Rightarrow> None)"

definition push_edge :: "Snapshot \<Rightarrow> Edge list \<Rightarrow> Edge \<Rightarrow> Edge list" where
  "push_edge snap out edge = (if edge \<in> set out \<or> edge \<in> set (sn_edges snap) then out else out @ [edge])"

definition resolve_draft_edge ::
  "work_item_id \<Rightarrow> string \<Rightarrow> Edge list \<times> Run \<Rightarrow> EdgeKind \<times> ItemRef \<Rightarrow> Edge list \<times> Run" where
  "resolve_draft_edge me whose acc de =
     (case (acc, de) of ((out, rn), (kind, r)) \<Rightarrow>
        (case Run_resolve r whose rn of
           (Some up, rn') \<Rightarrow>
             (push_edge (rn_snap rn) out \<lparr>e_item = me, e_depends_on = up, e_kind = kind\<rparr>, rn')
         | (None, rn') \<Rightarrow> (out, rn')))"

definition resolve_draft_edges :: "Edge list \<times> Run \<Rightarrow> nat \<times> WorkItemDraft \<Rightarrow> Edge list \<times> Run" where
  \<comment> \<open>the edges one draft declares, its supersede target and the \<open>discovered_from\<close> edge of the call\<close>
  "resolve_draft_edges acc row =
     (case row of (i, draft) \<Rightarrow>
        let me = rn_ids (snd acc) ! i;
            whose = ''an edge of '' @ Run_name (snd acc) i;
            declared = map (\<lambda>de. (de_kind de, de_depends_on de)) (dr_edges draft)
              @ (case dr_supersedes draft of None \<Rightarrow> [] | Some target \<Rightarrow> [(EkSupersedes, IrId target)]);
            (out, rn) = foldl (resolve_draft_edge me whose) acc declared
        in (case fc_discovered_from (rn_ctx rn) of
              None \<Rightarrow> (out, rn)
            | Some source \<Rightarrow>
                (push_edge (rn_snap rn) out
                   \<lparr>e_item = me, e_depends_on = source, e_kind = EkDiscoveredFrom\<rparr>, rn)))"

definition resolve_plan_edge :: "Edge list \<times> Run \<Rightarrow> PlanEdge \<Rightarrow> Edge list \<times> Run" where
  "resolve_plan_edge acc pe =
     (case acc of (out, rn) \<Rightarrow>
        let (item, rn1) = Run_resolve (pe_item pe) ''a plan edge'' rn;
            (up, rn2) = Run_resolve (pe_depends_on pe) ''a plan edge'' rn1
        in (case (item, up) of
              (Some x, Some y) \<Rightarrow>
                (push_edge (rn_snap rn) out \<lparr>e_item = x, e_depends_on = y, e_kind = pe_kind pe\<rparr>, rn2)
            | _ \<Rightarrow> (out, rn2)))"

definition resolve_edges :: "Run \<Rightarrow> Edge list \<times> Run" where
  "resolve_edges rn =
     foldl resolve_plan_edge
       (foldl resolve_draft_edges ([], rn) (enumerate 0 (wp_items (rn_plan rn))))
       (wp_edges (rn_plan rn))"

definition resolve_kinds :: "Run \<Rightarrow> WorkKind list" where
  "resolve_kinds rn =
     map (\<lambda>draft. if dr_subject draft \<noteq> None then WkProposal
                   else if dr_capability draft \<noteq> None then WkCapability
                   else case dr_kind draft of Some k \<Rightarrow> k | None \<Rightarrow> WkTask)
       (wp_items (rn_plan rn))"

section \<open>Drafts and scope\<close>

definition CAPABILITY_REF :: string where
  "CAPABILITY_REF = ''capability''"

definition missing_fields :: "WorkItemDraft \<Rightarrow> string list" where
  "missing_fields draft =
     map fst (filter (\<lambda>(_, v). trim v = [])
       [(''title'', dr_title draft), (''objective'', dr_objective draft), (''done_when'', dr_done_when draft)])"

definition unnamed_capability :: "WorkItemDraft \<Rightarrow> bool" where
  "unnamed_capability draft =
     (list_ex (\<lambda>r. ar_kind r = CAPABILITY_REF
          \<and> trim (case split_once '':'' (ar_value r) of Some (_, s) \<Rightarrow> s | None \<Rightarrow> ar_value r) = [])
        (dr_artifact_refs draft)
      \<or> (case split_once '':'' (dr_title draft) of Some (_, name) \<Rightarrow> trim name = [] | None \<Rightarrow> False))"

definition check_draft :: "WorkKind list \<Rightarrow> Run \<Rightarrow> nat \<times> WorkItemDraft \<Rightarrow> Run" where
  "check_draft kinds rn row =
     (case row of (i, draft) \<Rightarrow>
        let lab = Run_label rn (rn_ids rn ! i);
            missing = missing_fields draft;
            rn1 = (if missing = [] then rn
                   else Run_fail RrInvalidItem [lab] (''missing '' @ join '', '' missing) rn);
            rn2 = (if dr_plan draft \<and> fc_source (rn_ctx rn) \<noteq> FsWorkFile
                   then Run_fail RrInvalidItem [lab]
                     ''`plan: true` belongs to work_file; an item of a graph is already planned'' rn1
                   else rn1);
            rn3 = (if kinds ! i = WkProposal
                   then (case review_scope_violation draft of
                           None \<Rightarrow> rn2
                         | Some detail \<Rightarrow> Run_fail RrOutOfScope [lab] detail rn2)
                   else rn2)
        in if kinds ! i = WkCapability \<and> unnamed_capability draft
           then Run_fail RrInvalidItem [lab]
             ''a capability item needs the name of the tool or resource it answers'' rn3
           else rn3)"

definition check_drafts :: "WorkKind list \<Rightarrow> Run \<Rightarrow> Run" where
  "check_drafts kinds rn = foldl (check_draft kinds) rn (enumerate 0 (wp_items (rn_plan rn)))"

definition check_root_scope :: "Run \<Rightarrow> Run" where
  "check_root_scope rn =
     (case (wp_root (rn_plan rn), fc_scope (rn_ctx rn)) of
        (IrId r, Some s) \<Rightarrow>
          if snap_contains (rn_snap rn) r \<and> \<not> is_within (rn_snap rn) r s
          then Run_fail RrOutOfScope [IrId r]
            (''the root '' @ r @ '' is outside the caller'' @ [APOSTROPHE] @ ''s scope '' @ s) rn
          else rn
      | _ \<Rightarrow> rn)"

definition check_parent_scope ::
  "work_item_id option \<Rightarrow> work_item_id option \<Rightarrow> Run \<Rightarrow> nat \<times> work_item_id option \<Rightarrow> Run" where
  "check_parent_scope root scope rn row =
     (case row of
        (i, None) \<Rightarrow> rn
      | (i, Some p) \<Rightarrow>
          if p \<in> set (rn_fresh rn) \<or> \<not> snap_contains (rn_snap rn) p \<or> Some p = root then rn
          else if \<not> (case scope of None \<Rightarrow> False | Some s \<Rightarrow> is_within (rn_snap rn) p s)
          then Run_fail RrOutOfScope [Run_label rn (rn_ids rn ! i), IrId p]
            (''the parent '' @ p @ '' is outside the caller'' @ [APOSTROPHE] @ ''s scope'') rn
          else rn)"

definition check_scope ::
  "work_item_id option \<Rightarrow> work_item_id option list \<Rightarrow> work_item_id option \<Rightarrow> Run \<Rightarrow> Run" where
  "check_scope root parents scope rn =
     foldl (check_parent_scope root scope) (check_root_scope rn) (enumerate 0 parents)"

section \<open>The rows\<close>

definition i64_of_usize :: "nat \<Rightarrow> int" where
  \<comment> \<open>\<^verbatim>\<open>i64::try_from(i).unwrap_or(0)\<close>\<close>
  "i64_of_usize i = (if int i < 2 ^ 63 then int i else 0)"

definition build_item ::
  "Run \<Rightarrow> nat \<Rightarrow> work_item_id option \<Rightarrow> WorkKind \<Rightarrow> work_item_id list \<Rightarrow> string \<Rightarrow> WorkItem" where
  "build_item rn i parent kind inputs_from plan_id =
     (let d = wp_items (rn_plan rn) ! i in
      \<lparr>wi_id = rn_ids rn ! i,
       wi_kind = kind,
       wi_title = dr_title d,
       wi_objective = dr_objective d,
       wi_done_when = dr_done_when d,
       wi_constraints = dr_constraints d,
       wi_decisions_made = dr_decisions_made d,
       wi_artifact_refs = dr_artifact_refs d,
       wi_required_tools = dr_required_tools d,
       wi_required_mcp_servers = dr_required_mcp_servers d,
       wi_worker_kind = WrAny,
       wi_writable_resources = dr_writable_resources d,
       wi_parent = parent,
       wi_inputs_from = inputs_from,
       wi_origin_conversation_id = fc_origin_conversation_id (rn_ctx rn),
       wi_trigger = dr_trigger d,
       wi_preconditions = dr_preconditions d,
       wi_expires_at = dr_expires_at d,
       wi_budget = without_execution_limits
         (case dr_budget d of Some b \<Rightarrow> b | None \<Rightarrow> fc_default_budget (rn_ctx rn)),
       wi_priority = dr_priority d,
       wi_status = Queued,
       wi_status_origin = None,
       wi_plan_id = Some plan_id,
       wi_held_by = None,
       wi_created_at = fc_now (rn_ctx rn) + i64_of_usize i,
       wi_updated_at = fc_now (rn_ctx rn),
       wi_closed_at = None\<rparr>)"

section \<open>Supersedes\<close>

definition check_supersede ::
  "(work_item_id \<times> work_item_id list) list \<Rightarrow> work_item_id option
     \<Rightarrow> (work_item_id \<times> work_item_id) list \<times> Run \<Rightarrow> work_item_id \<times> work_item_id
     \<Rightarrow> (work_item_id \<times> work_item_id) list \<times> Run" where
  \<comment> \<open>one pair of a replacement and its target\<close>
  "check_supersede replacements scope acc pair =
     (case (acc, pair) of ((valid, rn), (r, t)) \<Rightarrow>
        if length (hm_list replacements t) > 1
        then (valid, Run_fail RrInvalidItem (map (Run_label rn) (hm_list replacements t))
               (t @ '' is superseded by more than one item; one replaces it'') rn)
        else if t \<in> set (rn_fresh rn)
        then (valid, Run_fail RrInvalidItem [Run_label rn r, Run_label rn t]
               ''a supersede target must already exist'' rn)
        else
          let refusals = supersede_refusals (rn_snap rn) t scope in
          (if refusals = [] then valid @ [(r, t)] else valid,
           foldl (\<lambda>rn refusal. Run_fail (sr_reason refusal) (map (Run_label rn) (sr_items refusal))
                    (sr_detail refusal) rn) rn refusals))"

definition check_supersedes ::
  "(work_item_id \<times> work_item_id) list \<Rightarrow> work_item_id option \<Rightarrow> Run
     \<Rightarrow> (work_item_id \<times> work_item_id) list \<times> Run" where
  "check_supersedes pairs scope rn =
     (let replacements = foldl (\<lambda>m (r, t). hm_push t r m) [] pairs
      in foldl (check_supersede replacements scope) ([], rn) pairs)"

end
