(* ===== verification/Validate.thy ===== *)
theory Validate
  imports Filing
begin

text \<open>
  Filing validation, second half: the checks of \<^verbatim>\<open>rustykrab-control/src/graph/validate.rs\<close> on the graph
  as it would stand (cycles, depth, size, plan B edges, active items, inputs, expiry, dead filings,
  writers, splits), the approval holds, and \<open>validate\<close> itself. The fixpoint of \<open>check_dead\<close> ends because
  each round that changes something marks one more candidate; the approval queue ends because it only
  takes new items.
\<close>

section \<open>Structure\<close>

definition ancestral :: "Snapshot \<Rightarrow> Edge \<Rightarrow> bool" where
  "ancestral work edge =
     (e_item edge = e_depends_on edge
      \<or> e_depends_on edge \<in> set (ancestors work (e_item edge))
      \<or> e_item edge \<in> set (ancestors work (e_depends_on edge)))"

definition check_ancestral :: "Snapshot \<Rightarrow> work_item_id set \<Rightarrow> Edge set \<times> Run \<Rightarrow> Edge \<Rightarrow> Edge set \<times> Run" where
  "check_ancestral work hit acc edge =
     (case acc of (reported, rn) \<Rightarrow>
        if \<not> is_ordering (e_kind edge) \<or> e_item edge \<notin> hit then acc
        else if ancestral work edge
        then (insert edge reported,
              Run_fail RrCycle
                (Run_label rn (e_item edge)
                  # (if e_depends_on edge \<noteq> e_item edge then [Run_label rn (e_depends_on edge)] else []))
                (''a '' @ EdgeKind_as_str (e_kind edge)
                  @ '' edge between an item and its own ancestor or descendant'') rn)
        else acc)"

definition check_component :: "Arcs \<Rightarrow> work_item_id set \<Rightarrow> Run \<Rightarrow> nat list \<Rightarrow> Run" where
  "check_component arcs hit rn component =
     (if \<not> list_ex (\<lambda>n. ar_nodes arcs ! n \<in> hit) component then rn
      else Run_fail RrCycle (map (\<lambda>n. Run_label rn (ar_nodes arcs ! n)) component)
        (''cycle: '' @ join '' -> '' (map (\<lambda>k. describe (Run_label rn k))
           (case cycle_path arcs component of Some path \<Rightarrow> path | None \<Rightarrow> []))) rn)"

definition check_cycles :: "Snapshot \<Rightarrow> work_item_id set \<Rightarrow> Run \<Rightarrow> Run" where
  "check_cycles work hit rn =
     (let (reported, rn1) = foldl (check_ancestral work hit) ({}, rn) (sn_edges work);
          arcs = Arcs_build work True reported
      in foldl (check_component arcs hit) rn1 (cycles arcs))"

definition check_depth :: "Snapshot \<Rightarrow> Run \<Rightarrow> Run" where
  "check_depth work rn =
     (let max = unat (gc_max_depth (fc_caps (rn_ctx rn)));
          deep = filter (\<lambda>k. length (ancestors work k) + 1 > max) (rn_ids rn)
      in if deep = [] then rn
         else Run_fail RrDepthExceeded (map (Run_label rn) deep)
           (''the parent tree may be at most '' @ nat_digits max @ '' levels deep'') rn)"

definition open_item :: "Snapshot \<Rightarrow> work_item_id \<Rightarrow> bool" where
  "open_item work k = (case snap_status work k of None \<Rightarrow> False | Some st \<Rightarrow> \<not> is_closed st)"

definition open_count :: "Snapshot \<Rightarrow> work_item_id option \<Rightarrow> work_item_id list \<Rightarrow> nat" where
  \<comment> \<open>the root when open, the open items under it, and the new items elsewhere\<close>
  "open_count work root ids =
     (let under = (case root of None \<Rightarrow> [] | Some r \<Rightarrow> descendants work r)
      in (if (case root of None \<Rightarrow> False | Some r \<Rightarrow> open_item work r) then 1 else 0)
         + length (filter (open_item work) under)
         + length (filter (\<lambda>k. k \<notin> set under \<and> Some k \<noteq> root) ids))"

definition check_count :: "Snapshot \<Rightarrow> work_item_id option \<Rightarrow> Run \<Rightarrow> Run" where
  "check_count work root rn =
     (let max = unat (gc_max_items (fc_caps (rn_ctx rn)));
          count = open_count work root (rn_ids rn)
      in if count > max
         then Run_fail RrTooManyItems (case root of None \<Rightarrow> [] | Some r \<Rightarrow> [Run_label rn r])
           (nat_digits count @ '' open items in the tree; the cap is '' @ nat_digits max) rn
         else rn)"

definition unreleased_plan_b :: "Snapshot \<Rightarrow> work_item_id \<Rightarrow> bool" where
  "unreleased_plan_b work k =
     list_ex (\<lambda>e. e_kind e = EkConditionalOnFailure \<and> snap_status work (e_depends_on e) \<noteq> Some Failed)
       (edges_held_by work k)"

definition check_plan_b_edge :: "Snapshot \<Rightarrow> work_item_id \<Rightarrow> Run \<Rightarrow> Edge \<Rightarrow> Run" where
  "check_plan_b_edge work k rn edge =
     (if edge \<in> set (sn_edges (rn_snap rn)) \<or> e_kind edge \<notin> {EkBlocks, EkWaitsFor} then rn
      else if unreleased_plan_b work (e_depends_on edge)
      then Run_fail RrPlanBEdges [Run_label rn k, Run_label rn (e_depends_on edge)]
        ''downstream items name the step, never its plan B'' rn
      else rn)"

definition check_plan_b_item :: "Snapshot \<Rightarrow> work_item_id set \<Rightarrow> Run \<Rightarrow> WorkItem \<Rightarrow> Run" where
  "check_plan_b_item work hit rn item =
     (if wi_id item \<notin> hit then rn
      else
        let ordering = filter (\<lambda>e. is_ordering (e_kind e)) (edges_held_by work (wi_id item));
            rn1 = (if list_ex (\<lambda>e. e_kind e = EkConditionalOnFailure) ordering \<and> length ordering > 1
                   then Run_fail RrPlanBEdges [Run_label rn (wi_id item)]
                     ''a plan B has exactly one upstream edge: the step it covers'' rn
                   else rn)
        in foldl (check_plan_b_edge work (wi_id item)) rn1 ordering)"

definition check_plan_b :: "Snapshot \<Rightarrow> work_item_id set \<Rightarrow> Run \<Rightarrow> Run" where
  "check_plan_b work hit rn = foldl (check_plan_b_item work hit) rn (sn_items work)"

section \<open>Active items\<close>

definition check_onto_edge :: "Run \<Rightarrow> Edge \<Rightarrow> Run" where
  "check_onto_edge rn edge =
     (if \<not> is_ordering (e_kind edge) \<or> e_item edge \<in> set (rn_fresh rn) then rn
      else case snap_status (rn_snap rn) (e_item edge) of
        None \<Rightarrow> rn
      | Some st \<Rightarrow>
          if is_waiting st then rn
          else Run_fail RrEdgeOntoActive [IrId (e_item edge)]
            (e_item edge @ '' is '' @ Status_fmt st
              @ '': an edge may be added only while it is queued, ready or blocked'') rn)"

definition check_onto_parent ::
  "work_item_id list \<times> Run \<Rightarrow> nat \<times> work_item_id option \<Rightarrow> work_item_id list \<times> Run" where
  "check_onto_parent acc row =
     (case (acc, row) of
        (_, (_, None)) \<Rightarrow> acc
      | ((dead, rn), (i, Some p)) \<Rightarrow>
          if p \<in> set (rn_fresh rn) then acc
          else case snap_item (rn_snap rn) p of
            None \<Rightarrow> acc
          | Some row \<Rightarrow>
              let k = rn_ids rn ! i; lab = Run_label rn k in
              if is_closed (wi_status row)
              then (push_unique dead k,
                    Run_fail RrDeadFiling [lab]
                      (''the parent '' @ p @ '' is '' @ Status_fmt (wi_status row) @ '': it takes no new children'') rn)
              else if wi_status row = Verifying
              then (dead, Run_fail RrEdgeOntoActive [lab, IrId p]
                      (''the parent '' @ p @ '' is verifying: it takes no new children'') rn)
              else if is_active (wi_status row) \<and> \<not> has_children (rn_snap rn) p
              then (dead, Run_fail RrEdgeOntoActive [lab, IrId p]
                      (p @ '' is '' @ Status_fmt (wi_status row) @ '': an active item cannot become a parent'') rn)
              else acc)"

definition check_onto_active ::
  "Edge list \<Rightarrow> work_item_id option list \<Rightarrow> Run \<Rightarrow> work_item_id list \<times> Run" where
  "check_onto_active new_edges parents rn =
     foldl check_onto_parent ([], foldl check_onto_edge rn new_edges) (enumerate 0 parents)"

section \<open>Inputs and expiry\<close>

definition default_input :: "Snapshot \<Rightarrow> (WorkItemDraft \<times> work_item_id) \<Rightarrow> Snapshot" where
  "default_input work row =
     (case row of (draft, k) \<Rightarrow>
        if dr_inputs_from draft \<noteq> [] then work
        else
          let upstreams = foldl push_unique []
                (map e_depends_on (filter (\<lambda>e. e_kind e = EkBlocks) (edges_held_by work k)))
          in update_item work k (\<lambda>item. item\<lparr>wi_inputs_from := upstreams\<rparr>))"

definition default_inputs :: "Run \<Rightarrow> Snapshot \<Rightarrow> Snapshot" where
  "default_inputs rn work = foldl default_input work (zip (wp_items (rn_plan rn)) (rn_ids rn))"

definition check_input :: "work_item_id \<Rightarrow> work_item_id list \<Rightarrow> Run \<Rightarrow> work_item_id \<Rightarrow> Run" where
  "check_input k reached rn input =
     (if input = k \<or> input \<notin> set reached
      then Run_fail RrInputUnordered [Run_label rn k, Run_label rn input]
        (describe (Run_label rn k) @ '' is not ordered after '' @ describe (Run_label rn input)
          @ '', so its results may not exist at lease time'') rn
      else rn)"

definition check_item_inputs :: "Snapshot \<Rightarrow> Arcs \<Rightarrow> Run \<Rightarrow> work_item_id \<Rightarrow> Run" where
  "check_item_inputs work arcs rn k =
     (case snap_item work k of
        None \<Rightarrow> rn
      | Some item \<Rightarrow> foldl (check_input k (reach arcs k)) rn (wi_inputs_from item))"

definition check_inputs :: "Snapshot \<Rightarrow> Run \<Rightarrow> Run" where
  "check_inputs work rn = foldl (check_item_inputs work (Arcs_build work False {})) rn (rn_ids rn)"

definition parent_expiry :: "Snapshot \<Rightarrow> work_item_id \<Rightarrow> timestamp option" where
  "parent_expiry work k =
     Option.bind (Option.bind (Option.bind (snap_item work k) wi_parent) (snap_item work)) wi_expires_at"

definition capped_expiry :: "timestamp option \<Rightarrow> timestamp option \<Rightarrow> timestamp option" where
  "capped_expiry cap own =
     (case cap of
        None \<Rightarrow> own
      | Some c \<Rightarrow> Some (case own of None \<Rightarrow> c | Some e \<Rightarrow> min e c))"

definition cap_item ::
  "(work_item_id list \<times> Snapshot) \<times> Run \<Rightarrow> work_item_id \<Rightarrow> (work_item_id list \<times> Snapshot) \<times> Run" where
  "cap_item acc k =
     (case acc of ((dead, work), rn) \<Rightarrow>
        (case snap_item work k of
           None \<Rightarrow> acc
         | Some row \<Rightarrow>
             let expires = capped_expiry (parent_expiry work k) (wi_expires_at row);
                 work1 = update_item work k (\<lambda>row. row\<lparr>wi_expires_at := expires\<rparr>)
             in if (case expires of None \<Rightarrow> False | Some e \<Rightarrow> e \<le> fc_now (rn_ctx rn))
                then ((push_unique dead k, work1),
                      Run_fail RrDeadFiling [Run_label rn k] ''it would be filed already expired'' rn)
                else ((dead, work1), rn)))"

definition cap_expiry :: "Snapshot \<Rightarrow> Run \<Rightarrow> (work_item_id list \<times> Snapshot) \<times> Run" where
  "cap_expiry work rn =
     foldl cap_item (([], work), rn) (sort_key (\<lambda>k. length (ancestors work k)) (rn_ids rn))"

section \<open>Dead filings\<close>

type_synonym dead_cause = "Status \<times> work_item_id \<times> string"

definition cancel_cause :: "Edge \<Rightarrow> CascadeCancel \<Rightarrow> dead_cause" where
  "cancel_cause edge c =
     (Cancelled CrCascade, cc_origin c,
      EdgeKind_as_str (e_kind edge) @ '' '' @ cc_upstream c @ '' would cancel it at once'')"

definition hold_cause :: "Edge \<Rightarrow> Hold \<Rightarrow> dead_cause" where
  "hold_cause edge h =
     (Blocked (ho_reason h), ho_origin h,
      EdgeKind_as_str (e_kind edge) @ '' '' @ ho_upstream h @ '' would hold it ''
        @ Status_fmt (Blocked (ho_reason h)))"

fun dead_edges :: "Snapshot \<Rightarrow> Edge list \<Rightarrow> bool \<Rightarrow> Edge list \<Rightarrow> dead_cause option \<Rightarrow> dead_cause option" where
  \<comment> \<open>the loop over the edges an item holds, with its \<open>break\<close> at the first cancel\<close>
  "dead_edges scratch stored fresh [] cause = cause"
| "dead_edges scratch stored fresh (edge # es) cause =
     (if \<not> fresh \<and> edge \<in> set stored then dead_edges scratch stored fresh es cause
      else case verdict scratch edge of
        VCancel c \<Rightarrow> Some (cancel_cause edge c)
      | VHold h \<Rightarrow>
          dead_edges scratch stored fresh es (if cause = None then Some (hold_cause edge h) else cause)
      | _ \<Rightarrow> dead_edges scratch stored fresh es cause)"

fun dead_ancestors :: "Snapshot \<Rightarrow> work_item_id list \<Rightarrow> Run \<Rightarrow> work_item_id list \<Rightarrow> dead_cause option" where
  "dead_ancestors scratch dead rn [] = None"
| "dead_ancestors scratch dead rn (a # as) =
     (if a \<in> set dead
      then Some (Cancelled CrCascade, a, ''its parent '' @ describe (Run_label rn a) @ '' is itself a dead filing'')
      else case es_cancel (edge_summary scratch a) of
        Some c \<Rightarrow> Some (Cancelled CrCascade, cc_origin c,
                    ''its ancestor '' @ a @ '' would be cancelled by '' @ cc_upstream c)
      | None \<Rightarrow>
          (case es_hold (edge_summary scratch a) of
             Some h \<Rightarrow> Some (Blocked (ho_reason h), ho_origin h,
                         ''its ancestor '' @ a @ '' is held behind '' @ ho_upstream h)
           | None \<Rightarrow> dead_ancestors scratch dead rn as))"

definition cause_of_death :: "Snapshot \<Rightarrow> work_item_id list \<Rightarrow> Run \<Rightarrow> work_item_id \<Rightarrow> dead_cause option" where
  "cause_of_death scratch dead rn k =
     (let fresh = k \<in> set (rn_fresh rn) in
      case dead_edges scratch (sn_edges (rn_snap rn)) fresh (edges_held_by scratch k) None of
        Some cause \<Rightarrow> Some cause
      | None \<Rightarrow> if fresh then dead_ancestors scratch dead rn (ancestors scratch k) else None)"

type_synonym dead_state = "((work_item_id list \<times> Snapshot) \<times> Run) \<times> bool"

definition dead_item :: "dead_state \<Rightarrow> work_item_id \<Rightarrow> dead_state" where
  "dead_item acc k =
     (case acc of (((dead, scratch), rn), changed) \<Rightarrow>
        if k \<in> set dead then acc
        else case cause_of_death scratch dead rn k of
          None \<Rightarrow> acc
        | Some (status, origin, detail) \<Rightarrow>
            (((push_unique dead k, set_status scratch k status (Some origin) (fc_now (rn_ctx rn))),
              Run_fail RrDeadFiling [Run_label rn k] detail rn), True))"

lemma dead_pass_grows:
  assumes "foldl dead_item (((dead, scratch), rn), ch) ks = (((dead', scratch'), rn'), ch')"
  shows "set dead \<subseteq> set dead' \<and> (ch' \<longrightarrow> ch \<or> \<not> set ks \<inter> set dead' \<subseteq> set dead)"
  using assms
proof (induction ks arbitrary: dead scratch rn ch)
  case (Cons k ks)
  obtain dead1 scratch1 rn1 ch1 where s: "dead_item (((dead, scratch), rn), ch) k = (((dead1, scratch1), rn1), ch1)"
    by (metis surj_pair)
  then have 1: "set dead \<subseteq> set dead1 \<and> (ch1 \<longrightarrow> ch \<or> k \<in> set dead1 \<and> k \<notin> set dead)"
    by (auto simp: dead_item_def split: if_splits option.splits)
  have "set dead1 \<subseteq> set dead' \<and> (ch' \<longrightarrow> ch1 \<or> \<not> set ks \<inter> set dead' \<subseteq> set dead1)"
    using Cons.prems s by (intro Cons.IH) simp
  then show ?case using 1 by auto
qed simp

function dead_loop :: "work_item_id list \<Rightarrow> (work_item_id list \<times> Snapshot) \<times> Run \<Rightarrow> (work_item_id list \<times> Snapshot) \<times> Run" where
  "dead_loop candidates st =
     (let (st', changed) = foldl dead_item (st, False) candidates
      in if changed then dead_loop candidates st' else st')"
  by pat_completeness auto
termination
proof (relation "measure (\<lambda>(candidates, st). card (set candidates - set (fst (fst st))))", goal_cases)
  case 1
  then show ?case by simp
next
  case (2 candidates st x st' changed)
  obtain dead scratch rn where st: "st = ((dead, scratch), rn)" by (metis surj_pair)
  obtain dead' scratch' rn' where st': "st' = ((dead', scratch'), rn')" by (metis surj_pair)
  have "foldl dead_item (((dead, scratch), rn), False) candidates = (((dead', scratch'), rn'), True)"
    using 2 st st' by simp
  from dead_pass_grows[OF this] have "set candidates - set dead' \<subset> set candidates - set dead" by blast
  then show ?case by (simp add: st st' psubset_card_mono)
qed

declare dead_loop.simps [simp del]

definition dead_on_arrival :: "Snapshot \<Rightarrow> work_item_id list \<times> Run \<Rightarrow> work_item_id \<Rightarrow> work_item_id list \<times> Run" where
  \<comment> \<open>a new item the supersede already cancelled\<close>
  "dead_on_arrival work acc k =
     (case acc of (dead, rn) \<Rightarrow>
        if k \<in> set dead then acc
        else case snap_status work k of
          None \<Rightarrow> acc
        | Some st \<Rightarrow>
            if is_closed st
            then (push_unique dead k,
                  Run_fail RrDeadFiling [Run_label rn k]
                    (''it would be filed '' @ Status_fmt st @ '': its parent is superseded'') rn)
            else acc)"

definition check_dead :: "Snapshot \<Rightarrow> work_item_id set \<Rightarrow> work_item_id list \<Rightarrow> Run \<Rightarrow> Run" where
  "check_dead work hit dead rn =
     (let (dead1, rn1) = foldl (dead_on_arrival work) (dead, rn) (rn_ids rn);
          candidates = map wi_id (filter (\<lambda>i. wi_id i \<in> hit \<and> is_waiting (wi_status i)) (sn_items work))
      in snd (dead_loop candidates ((dead1, work), rn1)))"

section \<open>Writers and splits\<close>

definition REPO_PREFIX :: string where
  "REPO_PREFIX = ''repo:''"

definition shared_resources :: "string list \<Rightarrow> string list \<Rightarrow> bool \<Rightarrow> string list" where
  "shared_resources a b isolated_repos =
     (let first_a = find (starts_with REPO_PREFIX) a;
          first_b = find (starts_with REPO_PREFIX) b
      in filter (\<lambda>r. \<not> isolated_repos \<or> first_a \<noteq> Some r \<or> first_b \<noteq> Some r)
           (filter (\<lambda>r. r \<in> set b) a))"

definition repo_of :: "string list \<Rightarrow> string option" where
  "repo_of writable_resources =
     (case List.map_filter (strip_prefix REPO_PREFIX) writable_resources of
        [] \<Rightarrow> None
      | p # _ \<Rightarrow> if trim p = [] then None else Some (trim p))"

definition writer_pool :: "Snapshot \<Rightarrow> work_item_id option \<Rightarrow> work_item_id list \<Rightarrow> work_item_id list" where
  "writer_pool work root ids =
     foldl push_unique (case root of None \<Rightarrow> [] | Some r \<Rightarrow> r # descendants work r) ids"

definition writers_of :: "Snapshot \<Rightarrow> work_item_id list \<Rightarrow> WorkItem list" where
  "writers_of work pool =
     filter (\<lambda>i. \<not> is_closed (wi_status i) \<and> \<not> has_children work (wi_id i) \<and> wi_writable_resources i \<noteq> [])
       (List.map_filter (snap_item work) pool)"

definition check_writer_pair :: "Arcs \<Rightarrow> WorkItem \<Rightarrow> Run \<Rightarrow> WorkItem \<Rightarrow> Run" where
  "check_writer_pair arcs a rn b =
     (if wi_id a \<notin> set (rn_fresh rn) \<and> wi_id b \<notin> set (rn_fresh rn) then rn
      else
        let shared = shared_resources (wi_writable_resources a) (wi_writable_resources b)
              (fc_isolated_repo_writes (rn_ctx rn))
        in if shared = [] then rn
           else if wi_id b \<in> set (reach arcs (wi_id a)) \<or> wi_id a \<in> set (reach arcs (wi_id b)) then rn
           else Run_fail RrSingleWriterConflict [Run_label rn (wi_id a), Run_label rn (wi_id b)]
             (''both write '' @ join '', '' shared @ '' and neither is ordered after the other'') rn)"

fun check_writer_pairs :: "Arcs \<Rightarrow> WorkItem list \<Rightarrow> Run \<Rightarrow> Run" where
  "check_writer_pairs arcs [] rn = rn"
| "check_writer_pairs arcs (a # rest) rn =
     check_writer_pairs arcs rest (foldl (check_writer_pair arcs a) rn rest)"

definition check_writers :: "Snapshot \<Rightarrow> work_item_id option \<Rightarrow> Run \<Rightarrow> Run" where
  "check_writers work root rn =
     (if fc_source (rn_ctx rn) = FsDeliveryImport then rn
      else
        let writers = writers_of work (writer_pool work root (rn_ids rn))
        in if length writers < 2 then rn
           else check_writer_pairs (Arcs_build work False {}) writers rn)"

definition adds_nothing :: "work_item_id list \<Rightarrow> WorkItem \<Rightarrow> WorkItem \<Rightarrow> bool" where
  "adds_nothing held up down =
     ((wi_trigger down = TrNow \<or> wi_trigger down = wi_trigger up)
      \<and> list_all (\<lambda>p. p \<in> set (wi_preconditions up)) (wi_preconditions down)
      \<and> list_all (\<lambda>r. r \<in> set (wi_writable_resources up)) (wi_writable_resources down)
      \<and> \<not> (wi_id down \<in> set held \<and> wi_id up \<notin> set held))"

definition is_split :: "Snapshot \<Rightarrow> work_item_id list \<Rightarrow> work_item_id list \<Rightarrow> Edge \<Rightarrow> bool" where
  \<comment> \<open>a \<open>blocks\<close> link between leaves that adds nothing\<close>
  "is_split work fresh held edge =
     (e_kind edge = EkBlocks \<and> (e_item edge \<in> set fresh \<or> e_depends_on edge \<in> set fresh)
      \<and> (case (snap_item work (e_depends_on edge), snap_item work (e_item edge)) of
           (Some up, Some down) \<Rightarrow>
             \<not> has_children work (wi_id up) \<and> \<not> has_children work (wi_id down) \<and> \<not> is_planning up
             \<and> length (filter (\<lambda>e. is_ordering (e_kind e)) (edges_held_by work (wi_id down))) = 1
             \<and> length (filter (\<lambda>e. is_ordering (e_kind e)) (edges_naming work (wi_id up))) = 1
             \<and> adds_nothing held up down
         | _ \<Rightarrow> False))"

definition check_split_edge ::
  "Snapshot \<Rightarrow> work_item_id list \<Rightarrow> PlanWarning list \<times> Run \<Rightarrow> Edge \<Rightarrow> PlanWarning list \<times> Run" where
  "check_split_edge work held acc edge =
     (case acc of (warnings, rn) \<Rightarrow>
        if \<not> is_split work (rn_fresh rn) held edge then acc
        else case fc_sequential_split (rn_ctx rn) of
          SmAllow \<Rightarrow> acc
        | SmWarn \<Rightarrow> (warnings @ [\<lparr>pw_check = WcSequentialSplit, pw_items = [e_depends_on edge, e_item edge]\<rparr>], rn)
        | SmReject \<Rightarrow>
            (warnings,
             rn\<lparr>rn_failed := push_unique (rn_failed rn)
                  \<lparr>fl_check = CkSequentialSplit,
                   fl_offending = [Run_label rn (e_depends_on edge), Run_label rn (e_item edge)],
                   fl_detail = ''a blocks link that adds nothing: one worker can do both in one item''\<rparr>\<rparr>))"

definition check_split :: "Snapshot \<Rightarrow> work_item_id list \<Rightarrow> Run \<Rightarrow> PlanWarning list \<times> Run" where
  "check_split work held rn =
     (if fc_source (rn_ctx rn) = FsDeliveryImport then ([], rn)
      else foldl (check_split_edge work held) ([], rn) (sn_edges work))"

section \<open>Approval\<close>

definition leaf_triggers :: "ApprovalPolicy \<Rightarrow> Snapshot \<Rightarrow> WorkItem \<Rightarrow> ApprovalTrigger list" where
  "leaf_triggers policy work item =
     (case ap_delegated_resources policy of
        None \<Rightarrow> []
      | Some delegated \<Rightarrow>
          map (AtUndelegatedResource (wi_id item))
            (filter (\<lambda>r. r \<notin> set delegated) (wi_writable_resources item)))
     @ map (AtNamedSideEffect (wi_id item))
         (filter (\<lambda>r. names_side_effect policy r \<noteq> None) (wi_writable_resources item))
     @ (case ap_authorized_slices policy of
          None \<Rightarrow> []
        | Some slices \<Rightarrow>
            if repo_of (wi_writable_resources item) \<noteq> None
               \<and> \<not> list_ex (\<lambda>a. a \<in> set slices) (ancestors work (wi_id item))
            then [AtCodeOutsideSlice (wi_id item)] else [])"

definition whole_triggers :: "FilingContext \<Rightarrow> work_item_id list \<Rightarrow> ApprovalTrigger list" where
  "whole_triggers ctx ids =
     (let policy = fc_approval ctx; count = word_of_nat (length ids) :: u32 in
      (case ap_max_items policy of
         None \<Rightarrow> []
       | Some threshold \<Rightarrow> if count > threshold then [AtItemCount count threshold] else [])
      @ (if ap_hold_discovered policy \<and> fc_source ctx = FsDiscovered then [AtDiscovered count] else [])
      @ (if ap_hold_discovered policy \<and> fc_source ctx = FsLadder \<and> ids \<noteq> [] then [AtLadder count] else []))"

definition pushed_holds :: "Snapshot \<Rightarrow> work_item_id list \<Rightarrow> work_item_id \<Rightarrow> work_item_id list" where
  "pushed_holds work fresh h =
     filter (\<lambda>k. k \<in> set fresh)
       (map e_item (filter (\<lambda>e. is_ordering (e_kind e)) (edges_naming work h)) @ descendants work h)"

function approve_loop :: "Snapshot \<Rightarrow> work_item_id list \<Rightarrow> work_item_id list \<Rightarrow> work_item_id list \<Rightarrow> work_item_id list" where
  \<comment> \<open>the queue is popped from its end: its last element is the head of the list\<close>
  "approve_loop work fresh [] held = held"
| "approve_loop work fresh (h # queue) held =
     (if h \<in> set held then approve_loop work fresh queue held
      else approve_loop work fresh (rev (pushed_holds work fresh h) @ queue) (held @ [h]))"
  by pat_completeness auto
termination
proof (relation "measures [\<lambda>(work, fresh, queue, held). card (set queue \<union> set fresh - set held),
    \<lambda>(work, fresh, queue, held). length queue]", goal_cases)
  case 1
  then show ?case by simp
next
  case (2 work fresh h queue held)
  have "card (set queue \<union> set fresh - set held) \<le> card (set (h # queue) \<union> set fresh - set held)"
    by (rule worklist_le) auto
  then show ?case by (simp add: le_less)
next
  case (3 work fresh h queue held)
  have "card (set (rev (pushed_holds work fresh h) @ queue) \<union> set fresh - insert h (set held))
      < card (set (h # queue) \<union> set fresh - set held)"
    using 3 by (intro worklist_less) (auto simp: pushed_holds_def)
  then show ?case by simp
qed

definition approve ::
  "Snapshot \<Rightarrow> work_item_id list \<Rightarrow> work_item_id list \<Rightarrow> FilingContext
     \<Rightarrow> work_item_id list \<times> ApprovalTrigger list" where
  "approve work ids fresh ctx =
     (let policy = fc_approval ctx;
          whole = whole_triggers ctx ids;
          leaves = List.map_filter (snap_item work) (filter (\<lambda>k. \<not> has_children work k) ids);
          triggers = whole @ concat (map (leaf_triggers policy work) leaves);
          seeds = foldl (\<lambda>seeds item. if leaf_triggers policy work item = [] then seeds
                                       else push_unique seeds (wi_id item)) [] leaves
      in if whole \<noteq> [] then (ids, triggers)
         else
           let held = approve_loop work fresh (rev seeds) [] in
           (filter (\<lambda>k. k \<in> set held) ids, triggers))"

section \<open>The validator\<close>

text \<open>What resolving the filing's references gives.\<close>

record References =
  rf_root :: "work_item_id option"
  rf_parents :: "work_item_id option list"
  rf_inputs :: "work_item_id list list"
  rf_edges :: "Edge list"
  rf_run :: Run

definition references :: "(nat \<Rightarrow> string) \<Rightarrow> Snapshot \<Rightarrow> WorkPlan \<Rightarrow> FilingContext \<Rightarrow> References" where
  "references uuid snap plan ctx =
     (let (root, rn1) = Run_resolve (wp_root plan) ''the root'' (Run_new uuid snap plan ctx);
          ((parents, inputs), rn2) =
            foldl (resolve_draft root (root_index plan rn1)) (([], []), rn1) (enumerate 0 (wp_items plan));
          (edges, rn3) = resolve_edges rn2
      in \<lparr>rf_root = root, rf_parents = parents, rf_inputs = inputs, rf_edges = edges, rf_run = rn3\<rparr>)"

definition filing_scope :: "Snapshot \<Rightarrow> FilingContext \<Rightarrow> work_item_id option \<Rightarrow> work_item_id option" where
  "filing_scope snap ctx root =
     (case fc_scope ctx of
        Some s \<Rightarrow> Some s
      | None \<Rightarrow> (case root of Some r \<Rightarrow> if snap_contains snap r then Some r else None | None \<Rightarrow> None))"

definition filed_rows :: "Run \<Rightarrow> References \<Rightarrow> WorkKind list \<Rightarrow> string \<Rightarrow> Snapshot \<Rightarrow> Snapshot" where
  \<comment> \<open>the rows and edges of the filing added to the snapshot\<close>
  "filed_rows rn refs kinds plan_id snap =
     foldl add_edge
       (foldl (\<lambda>work i. add_item work
                 (build_item rn i (rf_parents refs ! i) (kinds ! i) (rf_inputs refs ! i) plan_id))
          snap [0..<length (wp_items (rn_plan rn))])
       (rf_edges refs)"

definition supersede_pairs :: "Edge list \<Rightarrow> (work_item_id \<times> work_item_id) list" where
  "supersede_pairs edges =
     map (\<lambda>e. (e_item e, e_depends_on e)) (filter (\<lambda>e. e_kind e = EkSupersedes) edges)"

text \<open>The filing examined: everything \<open>validate\<close> has computed when it decides.\<close>

record Examined =
  ex_plan_id :: string
  ex_root :: "work_item_id option"
  ex_effects :: Effects
  ex_hit :: "work_item_id set"
  ex_valid_pairs :: "(work_item_id \<times> work_item_id) list"
  ex_graph :: Snapshot
  ex_work :: Snapshot
  ex_held :: "work_item_id list"
  ex_triggers :: "ApprovalTrigger list"
  ex_warnings :: "PlanWarning list"
  ex_run :: Run

definition check_rates :: "(work_item_id \<times> work_item_id) list \<Rightarrow> work_item_id option \<Rightarrow> Run \<Rightarrow> Run" where
  \<comment> \<open>\<open>already_planned\<close> and \<open>rate_limited\<close>\<close>
  "check_rates pairs root rn =
     (let ctx = rn_ctx rn;
          rn1 = (if fc_already_planned ctx
                 then Run_fail RrAlreadyPlanned (case root of None \<Rightarrow> [] | Some r \<Rightarrow> [Run_label rn r])
                   ''this planning run already has an accepted graph'' rn
                 else rn)
      in if pairs \<noteq> [] \<and> fc_supersedes_in_window ctx \<ge> fc_supersede_limit ctx
         then Run_fail RrRateLimited (map (\<lambda>(_, t). Run_label rn1 t) pairs)
           (nat_digits (unat (fc_supersedes_in_window ctx))
             @ '' supersede filings under this root in the window; the policy allows ''
             @ nat_digits (unat (fc_supersede_limit ctx))) rn1
         else rn1)"

definition examine :: "(nat \<Rightarrow> string) \<Rightarrow> Snapshot \<Rightarrow> WorkPlan \<Rightarrow> FilingContext \<Rightarrow> Examined" where
  "examine uuid snap plan ctx =
     (let refs = references uuid snap plan ctx;
          root = rf_root refs; new_edges = rf_edges refs; rn0 = rf_run refs;
          kinds = resolve_kinds rn0;
          rn1 = check_drafts kinds rn0;
          scope = filing_scope snap ctx root;
          rn2 = check_scope root (rf_parents refs) scope rn1;
          plan_id = uuid (length (wp_items plan));
          pairs = supersede_pairs new_edges;
          (valid_pairs, rn3) = check_supersedes pairs scope rn2;
          (work, effects) = supersede_in valid_pairs (set (rn_fresh rn3)) (set new_edges) (fc_now ctx)
            (filed_rows rn2 refs kinds plan_id snap, Effects_default);
          hit = set (rn_fresh rn3) \<union> e_item ` set new_edges \<union> rp_item ` set (ef_repoints effects);
          rn4 = check_cycles work hit rn3;
          rn5 = check_depth work rn4;
          rn6 = check_count work root rn5;
          rn7 = check_plan_b work hit rn6;
          (dead1, rn8) = check_onto_active new_edges (rf_parents refs) rn7;
          work1 = default_inputs rn8 work;
          rn9 = check_inputs work1 rn8;
          ((dead2, work2), rn10) = cap_expiry work1 rn9;
          rn11 = check_dead work2 hit (dead1 @ dead2) rn10;
          rn12 = check_writers work2 root rn11;
          rn13 = check_rates pairs root rn12;
          (held, triggers) = approve work2 (rn_ids rn13) (rn_fresh rn13) ctx;
          (warnings, rn14) = check_split work2 held rn13
      in \<lparr>ex_plan_id = plan_id, ex_root = root, ex_effects = effects, ex_hit = hit,
          ex_valid_pairs = valid_pairs, ex_graph = work, ex_work = work2, ex_held = held,
          ex_triggers = triggers, ex_warnings = warnings, ex_run = rn14\<rparr>)"

definition hold_row :: "string option \<Rightarrow> Snapshot \<Rightarrow> work_item_id \<Rightarrow> Snapshot" where
  "hold_row question work k =
     update_item work k (\<lambda>row. row\<lparr>wi_status := Blocked NeedsConsent, wi_held_by := question\<rparr>)"

definition gained_edge :: "timestamp \<Rightarrow> Snapshot \<times> Effects \<Rightarrow> work_item_id \<Rightarrow> Snapshot \<times> Effects" where
  \<comment> \<open>a ready item with an edge that is not satisfied returns to \<open>queued\<close>\<close>
  "gained_edge now acc k =
     (case acc of (work, effects) \<Rightarrow>
        if snap_status work k = Some Status.Ready \<and> \<not> es_satisfied (edge_summary work k)
        then (set_status work k Queued None now,
              push_transition (Transition_plain k Status.Ready Queued ''gained an unsatisfied edge'') effects)
        else acc)"

definition repointed_edges :: "Effects \<Rightarrow> Edge list" where
  "repointed_edges effects =
     List.map_filter (\<lambda>r. case rp_link r of
         LkEdge kind \<Rightarrow> Some \<lparr>e_item = rp_item r, e_depends_on = rp_new_upstream r, e_kind = kind\<rparr>
       | LkInput \<Rightarrow> None) (ef_repoints effects)"

definition accept :: "(nat \<Rightarrow> string) \<Rightarrow> Snapshot \<Rightarrow> WorkPlan \<Rightarrow> FilingContext \<Rightarrow> Examined \<Rightarrow> work_item_id \<Rightarrow> Accepted" where
  "accept uuid snap plan ctx ex root =
     (let rn = ex_run ex; held = ex_held ex;
          question = (if held = [] then None else Some (uuid (length (wp_items plan) + 1)));
          work1 = foldl (hold_row question) (ex_work ex) held;
          gained = map wi_id (filter (\<lambda>i. wi_id i \<notin> set (rn_fresh rn) \<and> wi_id i \<in> ex_hit ex) (sn_items work1));
          (work2, effects) = foldl (gained_edge (fc_now ctx)) (work1, ex_effects ex) gained
      in \<lparr>ac_plan_id = ex_plan_id ex,
          ac_root = root,
          ac_ids = sort_key fst (map (\<lambda>(tmp, i). (tmp, rn_ids rn ! i)) (rn_by_tmp rn)),
          ac_items = List.map_filter (snap_item work2) (rn_ids rn),
          ac_edges = filter (\<lambda>e. e \<notin> set (sn_edges snap) \<and> e \<notin> set (repointed_edges effects)) (sn_edges work2),
          ac_effects = effects,
          ac_held = held,
          ac_question = question,
          ac_triggers = ex_triggers ex,
          ac_policy = (if question = None then None else ap_id (fc_approval ctx)),
          ac_warnings = ex_warnings ex,
          ac_supersedes = (ex_valid_pairs ex \<noteq> [])\<rparr>)"

definition validate :: "(nat \<Rightarrow> string) \<Rightarrow> Snapshot \<Rightarrow> WorkPlan \<Rightarrow> FilingContext \<Rightarrow> Validation" where
  "validate uuid snap plan ctx =
     (let ex = examine uuid snap plan ctx in
      case (ex_root ex, rn_failed (ex_run ex)) of
        (Some root, []) \<Rightarrow> VAccepted (accept uuid snap plan ctx ex root)
      | _ \<Rightarrow> VRejected \<lparr>rj_failed = rn_failed (ex_run ex)\<rparr>)"

end
