(* ===== verification/ValidateLaws.thy ===== *)
theory ValidateLaws
  imports Validate
begin

text \<open>
  What acceptance means. Every check of the validator only adds failures to the run, so a filing that
  ends without any was examined with one unchanged run, and each check's condition holds of the graph
  it read. The locale \<open>filing_check\<close> is that contract of a check; it is interpreted on each of them.
\<close>

section \<open>A check only adds failures\<close>

definition noted :: "Run \<Rightarrow> Run \<Rightarrow> bool" where
  "noted rn rn' = (\<exists>fs. rn' = rn\<lparr>rn_failed := rn_failed rn @ fs\<rparr>)"

lemma noted_refl [simp, intro]: "noted rn rn"
  by (auto simp: noted_def intro: exI[of _ "[]"])

lemma noted_trans: "noted a b \<Longrightarrow> noted b c \<Longrightarrow> noted a c"
  by (auto simp: noted_def)

lemma noted_push: "noted rn (rn\<lparr>rn_failed := push_unique (rn_failed rn) f\<rparr>)"
  by (auto simp: noted_def push_unique_def intro: exI[of _ "[]"])

lemma noted_fail [simp, intro]: "noted rn (Run_fail reason offending detail rn)"
  unfolding Run_fail_def by (rule noted_push)

lemma noted_clean: "noted rn rn' \<Longrightarrow> rn_failed rn' = [] \<Longrightarrow> rn' = rn"
  by (auto simp: noted_def)

lemma fail_not_clean [simp]: "rn_failed (Run_fail reason offending detail rn) \<noteq> []"
  by (simp add: Run_fail_def push_unique_def split: if_splits) auto

lemma fail_changes: "rn_failed rn = [] \<Longrightarrow> Run_fail reason offending detail rn \<noteq> rn"
  using fail_not_clean by metis

lemma noted_foldl: "(\<And>rn x. noted rn (f rn x)) \<Longrightarrow> noted rn (foldl f rn xs)"
  by (induction xs arbitrary: rn) (auto intro: noted_trans)

lemma noted_foldl_snd: "(\<And>acc x. noted (snd acc) (snd (f acc x))) \<Longrightarrow> noted (snd acc) (snd (foldl f acc xs))"
proof (induction xs arbitrary: acc)
  case (Cons x xs)
  then show ?case using noted_trans[of "snd acc" "snd (f acc x)"] by simp
qed simp

text \<open>A clean fold ran each of its checks on the same run.\<close>

lemma clean_foldl:
  assumes "\<And>rn x. noted rn (f rn x)" and "rn_failed (foldl f rn xs) = []"
  shows "x \<in> set xs \<Longrightarrow> f rn x = rn"
  using assms(2)
proof (induction xs arbitrary: rn)
  case (Cons y ys)
  have "noted rn (f rn y)" "noted (f rn y) (foldl f (f rn y) ys)" using assms(1) noted_foldl by blast+
  moreover have "rn_failed (f rn y) = []"
    using Cons.prems(2) calculation(2) by (auto simp: noted_def)
  ultimately have "f rn y = rn" using noted_clean by blast
  then show ?case using Cons by (cases "x = y") auto
qed simp

locale filing_check =
  fixes chk :: "Run \<Rightarrow> Run"
  assumes only_notes: "noted rn (chk rn)"
begin

lemma keeps:
  "rn_snap (chk rn) = rn_snap rn" "rn_plan (chk rn) = rn_plan rn" "rn_ctx (chk rn) = rn_ctx rn"
  "rn_ids (chk rn) = rn_ids rn" "rn_fresh (chk rn) = rn_fresh rn" "rn_by_tmp (chk rn) = rn_by_tmp rn"
  "rn_labels (chk rn) = rn_labels rn"
  using only_notes[of rn] by (auto simp: noted_def)

lemma clean: "rn_failed (chk rn) = [] \<Longrightarrow> chk rn = rn"
  using only_notes noted_clean by blast

end

lemma noted_resolve: "noted rn (snd (Run_resolve r whose rn))"
  by (simp add: Run_resolve_def split: ItemRef.splits option.splits)

lemma noted_resolve_input: "noted (snd acc) (snd (resolve_input whose acc r))"
  using noted_resolve[of "snd acc" r whose]
  by (cases acc) (auto simp: resolve_input_def split: prod.splits option.splits)

lemma noted_resolve_draft: "noted (snd acc) (snd (resolve_draft root ri acc row))"
proof -
  obtain parents inputs rn where acc: "acc = ((parents, inputs), rn)" by (metis surj_pair)
  obtain i draft where row: "row = (i, draft)" by (cases row)
  let ?whose = "Run_name rn i"
  obtain parent rn1 where p: "(case dr_parent draft of
                 Some r \<Rightarrow> Run_resolve r (''the parent of '' @ ?whose) rn
               | None \<Rightarrow> if Some i = ri then (None, rn) else (root, rn)) = (parent, rn1)" by (metis surj_pair)
  then have "noted rn rn1"
    using noted_resolve[of rn _ "''the parent of '' @ ?whose"] by (auto split: option.splits if_splits) (metis snd_conv)
  moreover have "noted (snd ([] :: work_item_id list, rn1))
      (snd (foldl (resolve_input (''the inputs of '' @ ?whose)) ([], rn1) (dr_inputs_from draft)))"
    by (rule noted_foldl_snd) (rule noted_resolve_input)
  ultimately show ?thesis using p
    by (auto simp: resolve_draft_def acc row Let_def split: prod.splits intro: noted_trans)
qed

lemma noted_draft_edge: "noted (snd acc) (snd (resolve_draft_edge me whose acc de))"
  using noted_resolve[of "snd acc" "snd de" whose]
  by (cases acc; cases de) (auto simp: resolve_draft_edge_def split: prod.splits option.splits)

lemma noted_draft_edges: "noted (snd acc) (snd (resolve_draft_edges acc row))"
proof -
  have fold: "noted (snd acc) (snd (foldl (resolve_draft_edge me whose) acc des))" for me whose des
    by (rule noted_foldl_snd) (rule noted_draft_edge)
  show ?thesis
    unfolding resolve_draft_edges_def Let_def case_prod_unfold
    by (rule option.split[THEN iffD2]) (simp only: fold snd_conv simp_thms)
qed

lemma noted_plan_edge: "noted (snd acc) (snd (resolve_plan_edge acc pe))"
proof -
  obtain out rn where acc: "acc = (out, rn)" by (cases acc)
  obtain x rn1 where 1: "Run_resolve (pe_item pe) ''a plan edge'' rn = (x, rn1)" by (metis surj_pair)
  obtain y rn2 where 2: "Run_resolve (pe_depends_on pe) ''a plan edge'' rn1 = (y, rn2)" by (metis surj_pair)
  have "noted rn rn1" "noted rn1 rn2" using noted_resolve 1 2 by (metis snd_conv)+
  then show ?thesis using 1 2 by (auto simp: resolve_plan_edge_def acc intro: noted_trans split: option.splits)
qed

lemma noted_resolve_edges: "noted rn (snd (resolve_edges rn))"
proof -
  have drafts: "noted (snd acc) (snd (foldl resolve_draft_edges acc rows))" for acc rows
    by (rule noted_foldl_snd) (rule noted_draft_edges)
  have plan: "noted (snd acc) (snd (foldl resolve_plan_edge acc pes))" for acc pes
    by (rule noted_foldl_snd) (rule noted_plan_edge)
  show ?thesis unfolding resolve_edges_def using noted_trans[OF drafts plan, of "([], rn)"] by simp
qed

section \<open>The checks interpreted\<close>

lemma noted_if: "noted rn a \<Longrightarrow> noted rn b \<Longrightarrow> noted rn (if P then a else b)"
  by simp

lemma noted_fail_after: "noted rn rn' \<Longrightarrow> noted rn (Run_fail reason offending detail rn')"
  by (rule noted_trans[OF _ noted_fail])

interpretation drafts: filing_check "check_drafts kinds" for kinds
proof
  fix rn
  have "noted rn (check_draft kinds rn row)" for rn row
    by (cases row) (auto simp: check_draft_def Let_def intro!: noted_fail_after split: option.splits)
  then show "noted rn (check_drafts kinds rn)" unfolding check_drafts_def by (rule noted_foldl)
qed

interpretation scoped: filing_check "check_scope root parents scope" for root parents scope
proof
  fix rn
  have "noted rn (check_parent_scope root scope rn row)" for rn row
    by (cases row) (auto simp: check_parent_scope_def split: option.splits)
  moreover have "noted rn (check_root_scope rn)"
    by (auto simp: check_root_scope_def split: ItemRef.splits option.splits)
  ultimately show "noted rn (check_scope root parents scope rn)"
    unfolding check_scope_def by (meson noted_foldl noted_trans)
qed

interpretation superseding: filing_check "\<lambda>rn. snd (check_supersedes pairs scope rn)" for pairs scope
proof
  fix rn
  have "noted rn (foldl (\<lambda>rn refusal. Run_fail (sr_reason refusal) (map (Run_label rn) (sr_items refusal))
      (sr_detail refusal) rn) rn refusals)" for rn and refusals :: "SupersedeRefusal list"
    by (rule noted_foldl) (rule noted_fail)
  then have "noted (snd acc) (snd (check_supersede replacements scope acc pair))" for replacements acc pair
    by (cases acc; cases pair) (simp add: check_supersede_def Let_def)
  then have "noted (snd acc) (snd (foldl (check_supersede replacements scope) acc ps))" for replacements acc ps
    by (rule noted_foldl_snd)
  from this[of "([], rn)"] show "noted rn (snd (check_supersedes pairs scope rn))"
    by (simp add: check_supersedes_def Let_def)
qed

lemma noted_ancestral: "noted (snd acc) (snd (check_ancestral work hit acc edge))"
  by (cases acc) (simp add: check_ancestral_def)

lemma noted_component: "noted rn (check_component arcs hit rn c)"
  by (simp add: check_component_def)

interpretation acyclic: filing_check "check_cycles work hit" for work hit
proof
  fix rn
  have "noted (snd acc) (snd (foldl (check_ancestral work hit) acc es))" for acc es
    by (rule noted_foldl_snd) (rule noted_ancestral)
  from this[of "({}, rn)" "sn_edges work"] show "noted rn (check_cycles work hit rn)"
    unfolding check_cycles_def Let_def case_prod_unfold
    by (auto intro: noted_trans noted_foldl noted_component)
qed

interpretation depth: filing_check "check_depth work" for work
  by unfold_locales (simp add: check_depth_def Let_def)

interpretation counted: filing_check "check_count work root" for work root
  by unfold_locales (simp add: check_count_def Let_def)

interpretation plan_b: filing_check "check_plan_b work hit" for work hit
proof
  fix rn
  have edge: "noted rn (check_plan_b_edge work k rn e)" for k rn e by (simp add: check_plan_b_edge_def)
  have edges: "noted rn (foldl (check_plan_b_edge work k) rn es)" for k rn es by (rule noted_foldl) (rule edge)
  have "noted rn (check_plan_b_item work hit rn item)" for rn item
    by (auto simp: check_plan_b_item_def Let_def intro: edges noted_trans[OF noted_fail edges])
  then show "noted rn (check_plan_b work hit rn)" unfolding check_plan_b_def by (rule noted_foldl)
qed

interpretation onto: filing_check "\<lambda>rn. snd (check_onto_active es parents rn)" for es parents
proof
  fix rn
  have "noted rn (check_onto_edge rn e)" for rn e by (simp add: check_onto_edge_def split: option.splits)
  then have "noted rn (foldl check_onto_edge rn es)" by (rule noted_foldl)
  moreover have "noted (snd acc) (snd (check_onto_parent acc row))" for acc row
    by (cases acc; cases row) (simp add: check_onto_parent_def Let_def split: option.splits)
  then have "noted (snd acc) (snd (foldl check_onto_parent acc rows))" for acc rows by (rule noted_foldl_snd)
  from this[of "([], foldl check_onto_edge rn es)"] calculation
  show "noted rn (snd (check_onto_active es parents rn))"
    by (auto simp: check_onto_active_def intro: noted_trans)
qed

lemma noted_input: "noted rn (check_input k reached rn input)"
  by (simp add: check_input_def)

lemma noted_item_inputs: "noted rn (check_item_inputs work arcs rn k)"
  by (simp add: check_item_inputs_def noted_foldl noted_input split: option.splits)

interpretation inputs: filing_check "check_inputs work" for work
  by unfold_locales (simp add: check_inputs_def noted_foldl noted_item_inputs)

lemma noted_cap_item: "noted (snd acc) (snd (cap_item acc k))"
  by (cases acc) (auto simp: cap_item_def Let_def split: option.splits prod.splits)

interpretation expiry: filing_check "\<lambda>rn. snd (cap_expiry work rn)" for work
proof
  fix rn
  have "noted (snd acc) (snd (foldl cap_item acc ks))" for acc ks by (rule noted_foldl_snd) (rule noted_cap_item)
  from this[of "(([], work), rn)"] show "noted rn (snd (cap_expiry work rn))" by (simp add: cap_expiry_def)
qed

lemma noted_dead_item: "noted (snd (fst acc)) (snd (fst (dead_item acc k)))"
  by (cases acc) (auto simp: dead_item_def split: prod.splits option.splits)

lemma noted_dead_pass: "noted (snd (fst acc)) (snd (fst (foldl dead_item acc ks)))"
proof (induction ks arbitrary: acc)
  case (Cons k ks)
  then show ?case using noted_trans[OF noted_dead_item Cons.IH] by simp
qed simp

lemma noted_dead_loop: "noted (snd st) (snd (dead_loop candidates st))"
proof (induction candidates st rule: dead_loop.induct)
  case (1 candidates st)
  obtain st' ch where p: "foldl dead_item (st, False) candidates = (st', ch)" by (cases "foldl dead_item (st, False) candidates")
  have "noted (snd st) (snd st')" using noted_dead_pass[of "(st, False)" candidates] p by simp
  moreover have "noted (snd st') (snd (dead_loop candidates st'))" if ch using 1[OF p[symmetric] refl that] .
  ultimately show ?case using p by (subst dead_loop.simps) (auto intro: noted_trans)
qed

interpretation alive: filing_check "check_dead work hit dead" for work hit dead
proof
  fix rn
  have "noted (snd acc) (snd (dead_on_arrival work acc k))" for acc k
    by (cases acc) (simp add: dead_on_arrival_def split: option.splits)
  then have "noted (snd acc) (snd (foldl (dead_on_arrival work) acc ks))" for acc ks by (rule noted_foldl_snd)
  from this[of "(dead, rn)" "rn_ids rn"] show "noted rn (check_dead work hit dead rn)"
    unfolding check_dead_def Let_def case_prod_unfold using noted_trans[OF _ noted_dead_loop] by simp
qed

lemma noted_writer_pair: "noted rn (check_writer_pair arcs a rn b)"
  by (simp add: check_writer_pair_def Let_def)

lemma noted_writer_pairs: "noted rn (check_writer_pairs arcs ws rn)"
proof (induction ws arbitrary: rn)
  case (Cons a rest)
  have "noted rn (foldl (check_writer_pair arcs a) rn rest)" by (rule noted_foldl) (rule noted_writer_pair)
  then show ?case using Cons noted_trans by simp
qed simp

interpretation writers: filing_check "check_writers work root" for work root
  by unfold_locales (simp add: check_writers_def Let_def noted_writer_pairs)

interpretation rates: filing_check "check_rates pairs root" for pairs root
  by unfold_locales (auto simp: check_rates_def Let_def intro: noted_fail_after)

lemma noted_split_edge: "noted (snd acc) (snd (check_split_edge work held acc e))"
  by (cases acc) (simp add: check_split_edge_def noted_push split: SplitMode.splits)

interpretation splits: filing_check "\<lambda>rn. snd (check_split work held rn)" for work held
proof
  fix rn
  have "noted (snd acc) (snd (foldl (check_split_edge work held) acc es))" for acc es
    by (rule noted_foldl_snd) (rule noted_split_edge)
  from this[of "([], rn)"] show "noted rn (snd (check_split work held rn))" by (simp add: check_split_def)
qed

section \<open>A clean examination\<close>

lemma examine_clean:
  fixes uuid snap plan ctx
  defines "ex \<equiv> examine uuid snap plan ctx" and "refs \<equiv> references uuid snap plan ctx"
  defines "rn \<equiv> rf_run refs"
  defines "kinds \<equiv> resolve_kinds rn" and "scope \<equiv> filing_scope snap ctx (rf_root refs)" and "pairs \<equiv> supersede_pairs (rf_edges refs)"
  assumes clean: "rn_failed (ex_run ex) = []"
  shows "ex_run ex = rn" and "rn_failed rn = []" and "ex_root ex = rf_root refs"
    and "ex_graph ex = fst (supersede_in (ex_valid_pairs ex) (set (rn_fresh rn)) (set (rf_edges refs)) (fc_now ctx)
           (filed_rows rn refs kinds (uuid (length (wp_items plan))) snap, Effects_default))"
    and "check_cycles (ex_graph ex) (ex_hit ex) rn = rn" and "check_depth (ex_graph ex) rn = rn"
    and "check_count (ex_graph ex) (rf_root refs) rn = rn" and "check_plan_b (ex_graph ex) (ex_hit ex) rn = rn"
    and "check_inputs (default_inputs rn (ex_graph ex)) rn = rn"
    and "\<exists>dead. cap_expiry (default_inputs rn (ex_graph ex)) rn = ((dead, ex_work ex), rn)"
    and "check_writers (ex_work ex) (rf_root refs) rn = rn"
    and "ex_held ex = fst (approve (ex_work ex) (rn_ids rn) (rn_fresh rn) ctx)"
    and "ex_hit ex = set (rn_fresh rn) \<union> e_item ` set (rf_edges refs) \<union> rp_item ` set (ef_repoints (ex_effects ex))"
proof -
  define rn1 where "rn1 = check_drafts kinds rn"
  define rn2 where "rn2 = check_scope (rf_root refs) (rf_parents refs) scope rn1"
  obtain valid rn3 where s3: "check_supersedes pairs scope rn2 = (valid, rn3)" by fastforce
  obtain work effects where s: "supersede_in valid (set (rn_fresh rn3)) (set (rf_edges refs)) (fc_now ctx)
      (filed_rows rn2 refs kinds (uuid (length (wp_items plan))) snap, Effects_default) = (work, effects)" by fastforce
  define hit where "hit = set (rn_fresh rn3) \<union> e_item ` set (rf_edges refs) \<union> rp_item ` set (ef_repoints effects)"
  define rn7 where "rn7 = check_plan_b work hit (check_count work (rf_root refs) (check_depth work (check_cycles work hit rn3)))"
  obtain dead1 rn8 where s8: "check_onto_active (rf_edges refs) (rf_parents refs) rn7 = (dead1, rn8)" by fastforce
  define work1 where "work1 = default_inputs rn8 work"
  define rn9 where "rn9 = check_inputs work1 rn8"
  obtain dead2 work2 rn10 where s10: "cap_expiry work1 rn9 = ((dead2, work2), rn10)" by (metis surj_pair)
  define rn12 where "rn12 = check_writers work2 (rf_root refs) (check_dead work2 hit (dead1 @ dead2) rn10)"
  define rn13 where "rn13 = check_rates pairs (rf_root refs) rn12"
  obtain held triggers where a: "approve work2 (rn_ids rn13) (rn_fresh rn13) ctx = (held, triggers)" by fastforce
  obtain warnings rn14 where s14: "check_split work2 held rn13 = (warnings, rn14)" by fastforce
  have ex: "ex = \<lparr>ex_plan_id = uuid (length (wp_items plan)), ex_root = rf_root refs, ex_effects = effects, ex_hit = hit,
      ex_valid_pairs = valid, ex_graph = work, ex_work = work2, ex_held = held, ex_triggers = triggers,
      ex_warnings = warnings, ex_run = rn14\<rparr>"
    unfolding ex_def examine_def Let_def refs_def[symmetric] rn_def[symmetric] kinds_def[symmetric] scope_def[symmetric]
      pairs_def[symmetric] rn1_def[symmetric] rn2_def[symmetric] s3 prod.case s hit_def[symmetric] rn7_def[symmetric]
      s8 work1_def[symmetric] rn9_def[symmetric] s10 rn12_def[symmetric] rn13_def[symmetric] a s14 ..
  have c14: "rn_failed rn14 = []" using clean ex by simp
  then have 14: "rn14 = rn13" using splits.clean[of work2 held rn13] s14 by simp
  then have 13: "rn13 = rn12" using rates.clean[of pairs "rf_root refs" rn12] c14 by (simp add: rn13_def)
  then have 12: "rn12 = check_dead work2 hit (dead1 @ dead2) rn10"
    using writers.clean c14 14 by (simp add: rn12_def)
  then have 11: "rn12 = rn10" using alive.clean c14 14 13 by simp
  then have 10: "rn10 = rn9" using expiry.clean[of work1 rn9] s10 c14 14 13 by simp
  then have 9: "rn9 = rn8" using inputs.clean[of work1 rn8] c14 14 13 11 by (simp add: rn9_def)
  then have 8: "rn8 = rn7" using onto.clean[of "rf_edges refs" "rf_parents refs" rn7] s8 c14 14 13 11 10 by simp
  define rn4 where "rn4 = check_cycles work hit rn3"
  define rn5 where "rn5 = check_depth work rn4"
  define rn6 where "rn6 = check_count work (rf_root refs) rn5"
  have c7: "rn_failed rn7 = []" using c14 14 13 11 10 9 8 by simp
  have r7: "rn7 = check_plan_b work hit rn6" by (simp add: rn7_def rn6_def rn5_def rn4_def)
  then have 7: "rn7 = rn6" using plan_b.clean[of work hit rn6] c7 by simp
  then have 6: "rn6 = rn5" using counted.clean[of work "rf_root refs" rn5] c7 by (simp add: rn6_def)
  then have 5: "rn5 = rn4" using depth.clean[of work rn4] c7 7 by (simp add: rn5_def)
  then have 4: "rn4 = rn3" using acyclic.clean[of work hit rn3] c7 7 6 by (simp add: rn4_def)
  then have 3: "rn3 = rn2" using superseding.clean[of pairs scope rn2] s3 c7 7 6 5 by simp
  then have 2: "rn2 = rn1" using scoped.clean[of "rf_root refs" "rf_parents refs" scope rn1] c7 7 6 5 4 by (simp add: rn2_def)
  then have 1: "rn1 = rn" using drafts.clean[of kinds rn] c7 7 6 5 4 3 by (simp add: rn1_def)
  note all = 14 13 12 11 10 9 8 7 6 5 4 3 2 1
  show "ex_run ex = rn" "rn_failed rn = []" "ex_root ex = rf_root refs" using c14 all ex by simp_all
  show "ex_graph ex = fst (supersede_in (ex_valid_pairs ex) (set (rn_fresh rn)) (set (rf_edges refs)) (fc_now ctx)
           (filed_rows rn refs kinds (uuid (length (wp_items plan))) snap, Effects_default))"
    using s 3 2 1 ex by simp
  show "check_cycles (ex_graph ex) (ex_hit ex) rn = rn" "check_depth (ex_graph ex) rn = rn"
    "check_count (ex_graph ex) (rf_root refs) rn = rn" "check_plan_b (ex_graph ex) (ex_hit ex) rn = rn"
    using r7 rn6_def rn5_def rn4_def 7 6 5 4 3 2 1 ex by simp_all
  have w1: "work1 = default_inputs rn work" using work1_def 8 7 6 5 4 3 2 1 by simp
  show "check_inputs (default_inputs rn (ex_graph ex)) rn = rn"
    using rn9_def w1 9 8 7 6 5 4 3 2 1 ex by simp
  show "\<exists>dead. cap_expiry (default_inputs rn (ex_graph ex)) rn = ((dead, ex_work ex), rn)"
    using s10 w1 10 9 8 7 6 5 4 3 2 1 ex by auto
  show "check_writers (ex_work ex) (rf_root refs) rn = rn"
    using rn12_def 12 11 10 9 8 7 6 5 4 3 2 1 ex by simp
  show "ex_held ex = fst (approve (ex_work ex) (rn_ids rn) (rn_fresh rn) ctx)"
    using a 13 11 10 9 8 7 6 5 4 3 2 1 ex by simp
  show "ex_hit ex = set (rn_fresh rn) \<union> e_item ` set (rf_edges refs) \<union> rp_item ` set (ef_repoints (ex_effects ex))"
    using hit_def 3 2 1 ex by simp
qed

end
