(* ===== verification/ValidateOutcomes.thy ===== *)
theory ValidateOutcomes
  imports ValidateLaws
begin

text \<open>
  What an accepted filing guarantees about the graph as it would stand: no new item on a dependency
  cycle, the caps kept, every input ordered before its reader, no two unordered writers of one
  resource, no item outliving its parent, and every side effect that needs consent held.
\<close>

lemma validate_accepted:
  assumes "validate uuid snap plan ctx = VAccepted a"
  shows "rn_failed (ex_run (examine uuid snap plan ctx)) = []"
    and "\<exists>root. ex_root (examine uuid snap plan ctx) = Some root
      \<and> a = accept uuid snap plan ctx (examine uuid snap plan ctx) root"
  using assms by (auto simp: validate_def Let_def split: option.splits list.splits)

section \<open>The run's ids\<close>

lemma new_drafts:
  "rn_ids (foldl (new_draft uuid) rn rows) = rn_ids rn @ map (uuid \<circ> fst) rows
   \<and> set (rn_fresh (foldl (new_draft uuid) rn rows)) = set (rn_fresh rn) \<union> set (map (uuid \<circ> fst) rows)
   \<and> rn_snap (foldl (new_draft uuid) rn rows) = rn_snap rn \<and> rn_plan (foldl (new_draft uuid) rn rows) = rn_plan rn
   \<and> rn_ctx (foldl (new_draft uuid) rn rows) = rn_ctx rn"
proof (induction rows arbitrary: rn)
  case (Cons row rows)
  obtain i draft where row: "row = (i, draft)" by (cases row)
  have "rn_ids (new_draft uuid rn row) = rn_ids rn @ [uuid i]"
    "set (rn_fresh (new_draft uuid rn row)) = insert (uuid i) (set (rn_fresh rn))"
    "rn_snap (new_draft uuid rn row) = rn_snap rn" "rn_plan (new_draft uuid rn row) = rn_plan rn"
    "rn_ctx (new_draft uuid rn row) = rn_ctx rn"
    by (simp_all add: new_draft_def row Let_def Run_fail_def split: option.splits)
  then show ?case using Cons[of "new_draft uuid rn row"] row by auto
qed simp

lemma noted_after_root:
  "noted (snd (Run_resolve (wp_root plan) ''the root'' (Run_new uuid snap plan ctx))) (rf_run (references uuid snap plan ctx))"
proof -
  obtain root rn1 where 1: "Run_resolve (wp_root plan) ''the root'' (Run_new uuid snap plan ctx) = (root, rn1)" by fastforce
  obtain parents inputs rn2 where 2: "foldl (resolve_draft root (root_index plan rn1)) (([], []), rn1)
      (enumerate 0 (wp_items plan)) = ((parents, inputs), rn2)" by (metis surj_pair)
  have "noted (snd acc) (snd (foldl (resolve_draft root (root_index plan rn1)) acc rows))" for acc rows
    by (rule noted_foldl_snd) (rule noted_resolve_draft)
  from this[of "(([], []), rn1)"] have "noted rn1 rn2" using 2 by (metis snd_conv)
  then show ?thesis using noted_resolve_edges[of rn2] 1 2
    by (auto simp: references_def Let_def case_prod_unfold intro: noted_trans)
qed

lemma noted_references: "noted (Run_new uuid snap plan ctx) (rf_run (references uuid snap plan ctx))"
  by (rule noted_trans[OF noted_resolve noted_after_root])

lemma run_fields:
  fixes uuid snap plan ctx
  defines "rn \<equiv> rf_run (references uuid snap plan ctx)"
  shows "rn_ids rn = map uuid [0..<length (wp_items plan)]" and "set (rn_fresh rn) = set (rn_ids rn)"
    and "rn_ctx rn = ctx" and "rn_plan rn = plan" and "rn_snap rn = snap"
proof -
  note new = new_drafts[of uuid "\<lparr>rn_snap = snap, rn_plan = plan, rn_ctx = ctx, rn_ids = [], rn_labels = [],
    rn_by_tmp = [], rn_fresh = [], rn_failed = []\<rparr>" "enumerate 0 (wp_items plan)"]
  have ids: "map (uuid \<circ> fst) (enumerate 0 (wp_items plan)) = map uuid [0..<length (wp_items plan)]"
    by (simp add: enumerate_eq_zip map_map[symmetric] del: map_map)
  show "rn_ids rn = map uuid [0..<length (wp_items plan)]" "set (rn_fresh rn) = set (rn_ids rn)"
    "rn_ctx rn = ctx" "rn_plan rn = plan" "rn_snap rn = snap"
    using noted_references[of uuid snap plan ctx] new ids by (auto simp: noted_def rn_def Run_new_def)
qed

section \<open>The graph that is examined is well formed and has every new row\<close>

definition kept :: "work_item_id set \<Rightarrow> Snapshot \<Rightarrow> bool" where
  "kept K work = (wf_snap work \<and> (\<forall>k \<in> K. snap_contains work k))"

lemma kept_writes:
  "kept K work \<Longrightarrow> kept K (set_status work k to o1 now)" "kept K work \<Longrightarrow> kept K (repoint_row work k l old new)"
  "kept K work \<Longrightarrow> kept K (remove_edge work e)"
  by (simp_all add: kept_def wf_set_status wf_repoint_row wf_remove_edge)

definition kept_state :: "work_item_id set \<Rightarrow> cstate \<Rightarrow> bool" where
  "kept_state K st = kept K (fst st)"

interpretation keep_rows: effect_keeps "kept_state K" now origin
  for K :: "work_item_id set" and now :: timestamp and origin :: work_item_id
  by unfold_locales (auto simp: kept_state_def kept_writes)

lemma foldl_keeps: "P st \<Longrightarrow> (\<And>st x. P st \<Longrightarrow> P (f st x)) \<Longrightarrow> P (foldl f st xs)"
  by (induction xs arbitrary: st) simp_all

lemma kept_supersede_pair:
  assumes "kept K (fst (fst stm))"
  shows "kept K (fst (fst (supersede_pair targets fresh stm pair)))"
proof -
  obtain replacement target where pair: "pair = (replacement, target)" by (cases pair)
  have "kept K (fst (fst (foldl (supersede_edge targets fresh replacement target) stm es)))" for es
    using assms by (rule foldl_keeps) (auto simp: supersede_edge_def kept_writes split: prod.splits)
  then have "kept K (fst (foldl (supersede_reader fresh replacement target)
      (fst (foldl (supersede_edge targets fresh replacement target) stm es)) ks))" for es ks
    by (rule foldl_keeps) (auto simp: supersede_reader_def kept_writes split: prod.splits)
  then show ?thesis by (simp add: supersede_pair_def pair Let_def)
qed

lemma kept_cancel_target: "kept K (fst (fst stc)) \<Longrightarrow> kept K (fst (fst (cancel_target now stc pair)))"
  by (auto simp: cancel_target_def Let_def kept_writes split: prod.splits option.splits)

lemma kept_drop_own_edges: "kept K (fst st) \<Longrightarrow> kept K (fst (drop_own_edges fresh st target))"
  unfolding drop_own_edges_def
  by (rule foldl_keeps) (auto simp: drop_own_edge_def kept_writes split: prod.splits)

lemma kept_hold_recompute_into: "kept K work \<Longrightarrow> kept K (fst (hold_recompute_into work items now out))"
proof -
  assume keep: "kept K work"
  have "kept K (fst (hold_recompute_loop limit now items [] (work, out)))" for limit
    by (rule hold_recompute_loop_induct) (simp_all add: keep kept_writes)
  then show ?thesis by (simp add: hold_recompute_into_def)
qed

lemma kept_supersede_in:
  assumes "kept K (fst st)"
  shows "kept K (fst (supersede_in pairs fresh fresh_edges now st))"
proof -
  define stm where "stm = foldl (supersede_pair (set (map snd pairs)) fresh) (st, []) pairs"
  define st2 where "st2 = foldl (drop_own_edges fresh_edges) (fst stm) (foldl push_unique [] (map snd pairs))"
  define stc where "stc = foldl (cancel_target now) (st2, []) pairs"
  have "kept K (fst (fst stm))" unfolding stm_def
    by (rule foldl_keeps[where P = "\<lambda>stm. kept K (fst (fst stm))"]) (simp_all add: assms kept_supersede_pair)
  then have "kept K (fst st2)" unfolding st2_def by (rule foldl_keeps) (rule kept_drop_own_edges)
  then have "kept K (fst (fst stc))" unfolding stc_def
    by (intro foldl_keeps[where P = "\<lambda>stc. kept K (fst (fst stc))"]) (simp_all add: kept_cancel_target)
  then have "kept_state K (foldl (\<lambda>st target. run target target now st) (fst stc) (snd stc))"
    by (intro foldl_keeps[where P = "kept_state K"] keep_rows.run_keeps) (simp_all add: kept_state_def)
  then show ?thesis
    unfolding supersede_in_def Let_def stm_def[symmetric] st2_def[symmetric] stc_def[symmetric]
    by (simp add: kept_state_def kept_hold_recompute_into)
qed

lemma wf_filed_rows [wf_intros]: "wf_snap snap \<Longrightarrow> wf_snap (filed_rows rn refs kinds plan_id snap)"
  unfolding filed_rows_def by (intro wf_foldl wf_add_edge wf_add_item)

lemma add_item_contains: "snap_contains (add_item work item) k \<longleftrightarrow> snap_contains work k \<or> k = wi_id item"
  by (auto simp: add_item_def snap_contains_def update_conv split: option.splits)

lemma filed_rows_contain:
  assumes "k \<in> set (rn_ids rn)" and "length (rn_ids rn) = length (wp_items (rn_plan rn))"
  shows "snap_contains (filed_rows rn refs kinds plan_id snap) k"
proof -
  let ?row = "\<lambda>i. build_item rn i (rf_parents refs ! i) (kinds ! i) (rf_inputs refs ! i) plan_id"
  have items: "snap_contains (foldl (\<lambda>work i. add_item work (?row i)) work is) k \<longleftrightarrow> snap_contains work k \<or> (\<exists>i \<in> set is. wi_id (?row i) = k)" for work "is"
    by (induction "is" arbitrary: work) (auto simp: add_item_contains)
  have edges: "snap_contains (foldl add_edge work es) k = snap_contains work k" for work es
    by (rule foldl_contains) (simp add: add_edge_def snap_contains_def)
  obtain i where "i < length (rn_ids rn)" "rn_ids rn ! i = k" using assms(1) by (auto simp: in_set_conv_nth)
  then have "i \<in> set [0..<length (wp_items (rn_plan rn))]" "wi_id (?row i) = k" using assms(2) by (simp_all add: build_item_def Let_def)
  then show ?thesis unfolding filed_rows_def edges items by blast
qed

lemma kept_ex_graph:
  assumes "wf_snap snap" and "rn_failed (ex_run (examine uuid snap plan ctx)) = []"
  shows "kept (set (rn_ids (ex_run (examine uuid snap plan ctx)))) (ex_graph (examine uuid snap plan ctx))"
proof -
  let ?rn = "rf_run (references uuid snap plan ctx)"
  have "length (rn_ids ?rn) = length (wp_items (rn_plan ?rn))" by (simp add: run_fields)
  then have "kept (set (rn_ids ?rn)) (filed_rows ?rn refs kinds plan_id snap)" for refs kinds plan_id
    using wf_filed_rows[OF assms(1)] filed_rows_contain by (simp add: kept_def)
  then show ?thesis
    unfolding examine_clean(4)[OF assms(2)] examine_clean(1)[OF assms(2)] by (intro kept_supersede_in) simp
qed

section \<open>Rewriting rows keeps the tree\<close>

text \<open>The later passes change single fields of rows: the edges, the parents and a view \<open>g\<close> of the rows stay.\<close>

definition agree :: "(WorkItem \<Rightarrow> 'a) \<Rightarrow> Snapshot \<Rightarrow> Snapshot \<Rightarrow> bool" where
  "agree g s t \<longleftrightarrow> wf_snap s \<and> wf_snap t \<and> sn_edges s = sn_edges t
     \<and> (\<forall>k. snap_contains s k = snap_contains t k) \<and> (\<forall>k. parent_of s k = parent_of t k)
     \<and> (\<forall>k. children s k = children t k) \<and> (\<forall>k. map_option g (snap_item s k) = map_option g (snap_item t k))"

lemma agree_refl: "wf_snap s \<Longrightarrow> agree g s s"
  by (simp add: agree_def)

lemma agree_trans: "agree g s t \<Longrightarrow> agree g t u \<Longrightarrow> agree g s u"
  by (simp add: agree_def)

lemma agree_update:
  assumes "wf_snap s" and "\<And>i. wi_id (f i) = wi_id i" "\<And>i. wi_parent (f i) = wi_parent i" "\<And>i. g (f i) = g i"
  shows "agree g s (update_item s k f)"
  using assms
  by (auto simp: agree_def wf_update_item frame_simps snap_contains_def children_def parent_of_def
      snap_item_update option.map_comp comp_def split: if_splits) (cases "snap_item s k"; simp)+

lemma agree_foldl: "wf_snap s \<Longrightarrow> (\<And>s x. wf_snap s \<Longrightarrow> agree g s (f s x)) \<Longrightarrow> agree g s (foldl f s xs)"
proof (induction xs arbitrary: s)
  case (Cons x xs)
  have "agree g s (f s x)" using Cons.prems by blast
  moreover have "wf_snap (f s x)" using calculation by (simp add: agree_def)
  ultimately show ?case using Cons.IH[of "f s x"] Cons.prems(2) agree_trans by auto
qed (simp add: agree_refl)

lemma agree_walks: "agree g s t \<Longrightarrow> ancestors s k = ancestors t k" "agree g s t \<Longrightarrow> descendants s k = descendants t k"
  by (auto simp: agree_def intro: ancestors_cong descendants_cong)

lemma agree_depends: "agree g s t \<Longrightarrow> depends s = depends t"
  using agree_walks(1)[of g s t] by (simp add: fun_eq_iff depends_def agree_def)

section \<open>What a clean check found\<close>

lemma noted_failed: "noted rn rn' \<Longrightarrow> rn_failed rn' = [] \<Longrightarrow> rn_failed rn = []"
  by (auto simp: noted_def)

lemma clean_ancestral:
  assumes "rn_failed (snd (foldl (check_ancestral work hit) (reported, rn) es)) = []"
  shows "foldl (check_ancestral work hit) (reported, rn) es = (reported, rn)
    \<and> (\<forall>e \<in> set es. is_ordering (e_kind e) \<longrightarrow> e_item e \<in> hit \<longrightarrow> \<not> ancestral work e)"
  using assms
proof (induction es)
  case (Cons e es)
  let ?acc = "check_ancestral work hit (reported, rn) e"
  have "noted (snd ?acc) (snd (foldl (check_ancestral work hit) ?acc es))"
    by (rule noted_foldl_snd) (rule noted_ancestral)
  then have "rn_failed (snd ?acc) = []" using Cons.prems by (auto simp: noted_def)
  then have "?acc = (reported, rn) \<and> (is_ordering (e_kind e) \<longrightarrow> e_item e \<in> hit \<longrightarrow> \<not> ancestral work e)"
    by (auto simp: check_ancestral_def split: if_splits)
  then show ?case using Cons by simp
qed simp

lemma clean_cycles:
  assumes wf: "wf_snap work" and clean: "check_cycles work hit rn = rn" "rn_failed rn = []" and x: "x \<in> hit"
  shows "\<not> (depends work True {})\<^sup>+\<^sup>+ x x"
    and "\<And>e. e \<in> set (sn_edges work) \<Longrightarrow> is_ordering (e_kind e) \<Longrightarrow> e_item e \<in> hit \<Longrightarrow> \<not> ancestral work e"
proof -
  let ?f = "foldl (check_ancestral work hit) ({}, rn) (sn_edges work)"
  have all: "rn_failed (foldl (check_component (Arcs_build work True (fst ?f)) hit) (snd ?f)
      (cycles (Arcs_build work True (fst ?f)))) = []"
    using clean by (simp add: check_cycles_def Let_def case_prod_unfold)
  moreover have "noted (snd ?f) (foldl (check_component (Arcs_build work True (fst ?f)) hit) (snd ?f)
      (cycles (Arcs_build work True (fst ?f))))"
    by (rule noted_foldl) (rule noted_component)
  ultimately have "rn_failed (snd ?f) = []" by (auto simp: noted_def)
  note f = clean_ancestral[OF this]
  then show "\<not> ancestral work e" if "e \<in> set (sn_edges work)" "is_ordering (e_kind e)" "e_item e \<in> hit" for e
    using that by blast
  let ?arcs = "Arcs_build work True {}"
  have "rn_failed (foldl (check_component ?arcs hit) rn (cycles ?arcs)) = []" using all f by simp
  then have "check_component ?arcs hit rn c = rn" if "c \<in> set (cycles ?arcs)" for c
    using clean_foldl[of "check_component ?arcs hit", OF noted_component] that by blast
  then have none: "\<not> list_ex (\<lambda>n. ar_nodes ?arcs ! n \<in> hit) c" if "c \<in> set (cycles ?arcs)" for c
    using that fail_changes[OF clean(2)] unfolding check_component_def by metis
  show "\<not> (depends work True {})\<^sup>+\<^sup>+ x x"
  proof
    assume "(depends work True {})\<^sup>+\<^sup>+ x x"
    then have "{y. (depends work True {})\<^sup>+\<^sup>+ x y \<and> (depends work True {})\<^sup>+\<^sup>+ y x}
        \<in> (\<lambda>c. (\<lambda>n. ar_nodes ?arcs ! n) ` set c) ` set (cycles ?arcs)"
      unfolding dependency_cycles[OF wf] by blast
    then obtain c where c: "c \<in> set (cycles ?arcs)"
      "(\<lambda>n. ar_nodes ?arcs ! n) ` set c = {y. (depends work True {})\<^sup>+\<^sup>+ x y \<and> (depends work True {})\<^sup>+\<^sup>+ y x}" by auto
    then have "x \<in> (\<lambda>n. ar_nodes ?arcs ! n) ` set c" using \<open>(depends work True {})\<^sup>+\<^sup>+ x x\<close> by blast
    then show False using none[OF c(1)] x by (auto simp: list_ex_iff)
  qed
qed

lemma clean_depth:
  assumes "check_depth work rn = rn" and "rn_failed rn = []" and "k \<in> set (rn_ids rn)"
  shows "length (ancestors work k) < unat (gc_max_depth (fc_caps (rn_ctx rn)))"
  using assms fail_changes[OF assms(2)] by (auto simp: check_depth_def Let_def filter_empty_conv not_less split: if_splits)

lemma clean_count:
  assumes "check_count work root rn = rn" and "rn_failed rn = []"
  shows "open_count work root (rn_ids rn) \<le> unat (gc_max_items (fc_caps (rn_ctx rn)))"
  using assms fail_changes[OF assms(2)] by (auto simp: check_count_def Let_def not_less split: if_splits)

lemma clean_inputs:
  assumes "wf_snap work" and "check_inputs work rn = rn" and "rn_failed rn = []"
    and "k \<in> set (rn_ids rn)" and "snap_item work k = Some row" and "input \<in> set (wi_inputs_from row)"
  shows "input \<noteq> k \<and> (depends work False {})\<^sup>+\<^sup>+ k input"
proof -
  have "rn_failed (foldl (check_item_inputs work (Arcs_build work False {})) rn (rn_ids rn)) = []"
    using assms(2,3) by (simp add: check_inputs_def)
  from clean_foldl[of "check_item_inputs work (Arcs_build work False {})", OF noted_item_inputs this assms(4)]
  have "foldl (check_input k (reach (Arcs_build work False {}) k)) rn (wi_inputs_from row) = rn"
    using assms(5) by (simp add: check_item_inputs_def)
  then have "check_input k (reach (Arcs_build work False {}) k) rn input = rn"
    using clean_foldl[of "check_input k (reach (Arcs_build work False {}) k)", OF noted_input] assms(3,6) by metis
  then have "input \<noteq> k" and "input \<in> set (reach (Arcs_build work False {}) k)"
    using fail_changes[OF assms(3)] by (auto simp: check_input_def split: if_splits)
  then show ?thesis using reach_closure[OF assms(1)] by simp
qed

lemma clean_writer_pairs:
  "check_writer_pairs arcs ws rn = rn \<Longrightarrow> rn_failed rn = [] \<Longrightarrow> sorted_wrt (\<lambda>a b. check_writer_pair arcs a rn b = rn) ws"
proof (induction ws)
  case (Cons a rest)
  let ?rn = "foldl (check_writer_pair arcs a) rn rest"
  have "rn_failed ?rn = []"
    by (rule noted_failed[OF noted_writer_pairs[of ?rn arcs rest]]) (use Cons.prems in simp)
  moreover have "noted rn ?rn" by (rule noted_foldl) (rule noted_writer_pair)
  ultimately have "?rn = rn" using noted_clean by blast
  moreover have "check_writer_pair arcs a rn b = rn" if "b \<in> set rest" for b
    using clean_foldl[of "check_writer_pair arcs a", OF noted_writer_pair] \<open>rn_failed ?rn = []\<close> that by blast
  ultimately show ?case using Cons by simp
qed simp

lemma sorted_wrt_pair: "sorted_wrt P xs \<Longrightarrow> a \<in> set xs \<Longrightarrow> b \<in> set xs \<Longrightarrow> a \<noteq> b \<Longrightarrow> P a b \<or> P b a"
  by (induction xs) auto

lemma shared_resources_commute: "shared_resources a b isolated = [] \<longleftrightarrow> shared_resources b a isolated = []"
  by (auto simp: shared_resources_def Let_def filter_empty_conv)

lemma clean_writers:
  assumes wf: "wf_snap work" and clean: "check_writers work root rn = rn" "rn_failed rn = []"
    and src: "fc_source (rn_ctx rn) \<noteq> FsDeliveryImport"
    and ab: "a \<in> set (writers_of work (writer_pool work root (rn_ids rn)))"
      "b \<in> set (writers_of work (writer_pool work root (rn_ids rn)))" "a \<noteq> b"
    and new: "wi_id a \<in> set (rn_fresh rn) \<or> wi_id b \<in> set (rn_fresh rn)"
    and shared: "shared_resources (wi_writable_resources a) (wi_writable_resources b) (fc_isolated_repo_writes (rn_ctx rn)) \<noteq> []"
  shows "(depends work False {})\<^sup>+\<^sup>+ (wi_id a) (wi_id b) \<or> (depends work False {})\<^sup>+\<^sup>+ (wi_id b) (wi_id a)"
proof -
  let ?arcs = "Arcs_build work False {}" and ?ws = "writers_of work (writer_pool work root (rn_ids rn))"
  have "\<not> length ?ws < 2"
    using ab by (cases ?ws; cases "tl ?ws") auto
  then have "check_writer_pairs ?arcs ?ws rn = rn" using clean(1) src by (simp add: check_writers_def Let_def)
  note pairs = sorted_wrt_pair[OF clean_writer_pairs[OF this clean(2)] ab]
  have ordered: "wi_id y \<in> set (reach ?arcs (wi_id x)) \<or> wi_id x \<in> set (reach ?arcs (wi_id y))"
    if "check_writer_pair ?arcs x rn y = rn" "wi_id x \<in> set (rn_fresh rn) \<or> wi_id y \<in> set (rn_fresh rn)"
      "shared_resources (wi_writable_resources x) (wi_writable_resources y) (fc_isolated_repo_writes (rn_ctx rn)) \<noteq> []" for x y
    using that fail_changes[OF clean(2)] unfolding check_writer_pair_def Let_def by metis
  from pairs show ?thesis
  proof
    assume "check_writer_pair ?arcs a rn b = rn"
    from ordered[OF this new shared] show ?thesis by (simp add: reach_closure[OF wf])
  next
    assume "check_writer_pair ?arcs b rn a = rn"
    from ordered[OF this] new shared shared_resources_commute show ?thesis by (auto simp: reach_closure[OF wf])
  qed
qed

section \<open>Expiry\<close>

definition expiry_of :: "Snapshot \<Rightarrow> work_item_id \<Rightarrow> timestamp option" where
  "expiry_of work k = Option.bind (snap_item work k) wi_expires_at"

definition cap_row :: "Snapshot \<Rightarrow> work_item_id \<Rightarrow> Snapshot" where
  "cap_row work k = update_item work k (\<lambda>row. row\<lparr>wi_expires_at := capped_expiry (parent_expiry work k) (wi_expires_at row)\<rparr>)"

definition within_parent :: "Snapshot \<Rightarrow> work_item_id \<Rightarrow> bool" where
  "within_parent work k =
     (case Option.bind (parent_of work k) (expiry_of work) of
        None \<Rightarrow> True
      | Some c \<Rightarrow> (case expiry_of work k of None \<Rightarrow> False | Some e \<Rightarrow> e \<le> c))"

lemma within_parent_cong:
  "Option.bind (parent_of s k) (expiry_of s) = Option.bind (parent_of t k) (expiry_of t) \<Longrightarrow> expiry_of s k = expiry_of t k
     \<Longrightarrow> within_parent s k = within_parent t k"
  by (simp only: within_parent_def)

lemma parent_expiry_of: "parent_expiry work k = Option.bind (parent_of work k) (expiry_of work)"
  by (cases "snap_item work k") (auto simp: parent_expiry_def parent_of_def expiry_of_def[abs_def] split: bind_splits)

lemma agree_cap_row: "wf_snap work \<Longrightarrow> (\<And>row t. g (row\<lparr>wi_expires_at := t\<rparr>) = g row) \<Longrightarrow> agree g work (cap_row work k)"
  unfolding cap_row_def by (rule agree_update) simp_all

lemma wf_cap_row: "wf_snap work \<Longrightarrow> wf_snap (cap_row work k)"
  using agree_cap_row[of work "\<lambda>_. ()" k] by (simp add: agree_def)

lemma parent_of_cap_row: "wf_snap work \<Longrightarrow> parent_of (cap_row work k) j = parent_of work j"
  using agree_cap_row[of work "\<lambda>_. ()" k] by (simp add: agree_def)

lemma expiry_cap_row:
  "wf_snap work \<Longrightarrow> expiry_of (cap_row work k) j
     = (if j = k \<and> snap_contains work k then capped_expiry (parent_expiry work k) (expiry_of work k) else expiry_of work j)"
  by (auto simp: expiry_of_def cap_row_def snap_item_update snap_contains_iff)

lemma cap_item_row:
  assumes "wf_snap work" and "rn_failed (snd (cap_item ((dead, work), rn) k)) = []"
  shows "snd (fst (cap_item ((dead, work), rn) k)) = cap_row work k"
    and "snap_contains work k \<Longrightarrow> \<forall>e. expiry_of (cap_row work k) k = Some e \<longrightarrow> fc_now (rn_ctx rn) < e"
proof -
  show "snd (fst (cap_item ((dead, work), rn) k)) = cap_row work k"
  proof (cases "snap_item work k")
    case None
    then have "map_of (sn_index work) k = None" using snap_contains_iff[OF assms(1), of k] by (simp add: snap_contains_def)
    then show ?thesis using None by (simp add: cap_item_def cap_row_def update_item_def)
  next
    case (Some row)
    then have "cap_row work k = update_item work k (\<lambda>r. r\<lparr>wi_expires_at := capped_expiry (parent_expiry work k) (wi_expires_at row)\<rparr>)"
      unfolding cap_row_def by (auto simp: update_item_def snap_item_def nth_opt_def split: option.splits if_splits)
    then show ?thesis using Some by (simp add: cap_item_def Let_def)
  qed
  show "\<forall>e. expiry_of (cap_row work k) k = Some e \<longrightarrow> fc_now (rn_ctx rn) < e" if k: "snap_contains work k"
  proof -
    obtain row where row: "snap_item work k = Some row" using k snap_contains_iff[OF assms(1), of k] by auto
    then have "expiry_of (cap_row work k) k = capped_expiry (parent_expiry work k) (wi_expires_at row)"
      using expiry_cap_row[OF assms(1)] k by (simp add: expiry_of_def)
    then show ?thesis using assms(2) row by (auto simp: cap_item_def Let_def split: if_splits option.splits)
  qed
qed

lemma clean_cap_items:
  assumes "rn_failed (snd (foldl cap_item acc ks)) = []"
  shows "snd (foldl cap_item acc ks) = snd acc"
  by (rule noted_clean[OF noted_foldl_snd[of cap_item, OF noted_cap_item] assms])

lemma cap_items_rows:
  assumes "wf_snap work" and "rn_failed (snd (foldl cap_item ((dead, work), rn) ks)) = []"
  shows "snd (fst (foldl cap_item ((dead, work), rn) ks)) = foldl cap_row work ks"
  using assms(2)
proof (induction ks rule: rev_induct)
  case (snoc k ks)
  obtain d w rn' where acc: "foldl cap_item ((dead, work), rn) ks = ((d, w), rn')" by (metis surj_pair)
  have c: "rn_failed (snd (cap_item ((d, w), rn') k)) = []" using snoc.prems acc by simp
  then have "rn_failed rn' = []" using noted_failed[OF noted_cap_item] by fastforce
  then have w: "w = foldl cap_row work ks" using snoc.IH acc by simp
  have "wf_snap w" unfolding w using assms(1) by (rule foldl_keeps) (rule wf_cap_row)
  from cap_item_row(1)[OF this c] show ?case using acc w by simp
qed simp

lemma cap_items_expiry:
  assumes wf: "wf_snap work" and clean: "rn_failed (snd (foldl cap_item ((dead, work), rn) ks)) = []"
    and order: "sorted_wrt (\<lambda>a b. a \<noteq> b \<and> parent_of work a \<noteq> Some b) ks"
    and rows: "\<And>k. k \<in> set ks \<Longrightarrow> snap_contains work k \<and> parent_of work k \<noteq> Some k" and k: "k \<in> set ks"
  shows "within_parent (foldl cap_row work ks) k
    \<and> (\<forall>e. expiry_of (foldl cap_row work ks) k = Some e \<longrightarrow> fc_now (rn_ctx rn) < e)"
  using clean order rows k
proof (induction ks arbitrary: k rule: rev_induct)
  case (snoc x ks)
  let ?w = "foldl cap_row work ks"
  obtain d w rn' where acc: "foldl cap_item ((dead, work), rn) ks = ((d, w), rn')" by (metis surj_pair)
  have c: "rn_failed (snd (cap_item ((d, w), rn') x)) = []" using snoc.prems(1) acc by simp
  then have c': "rn_failed rn' = []" using noted_failed[OF noted_cap_item] by fastforce
  then have w: "w = ?w" "rn' = rn"
    using cap_items_rows[OF wf, of dead rn ks] clean_cap_items[of "((dead, work), rn)" ks] acc by simp_all
  have "agree (\<lambda>_. ()) work ?w" using wf by (rule agree_foldl) (simp add: agree_cap_row)
  then have wf': "wf_snap ?w" and par: "parent_of ?w j = parent_of work j" and con: "snap_contains ?w j = snap_contains work j" for j
    by (simp_all add: agree_def)
  have ex: "expiry_of (cap_row ?w x) j = (if j = x then capped_expiry (parent_expiry ?w x) (expiry_of ?w x) else expiry_of ?w j)" for j
    using expiry_cap_row[OF wf', of x j] con snoc.prems(3)[of x] by simp
  show ?case
  proof (cases "k = x")
    case True
    have x: "parent_of work x \<noteq> Some x" using snoc.prems(3)[of x] by simp
    then have "Option.bind (parent_of (cap_row ?w x) x) (expiry_of (cap_row ?w x)) = parent_expiry ?w x"
      unfolding parent_expiry_of parent_of_cap_row[OF wf'] par by (cases "parent_of work x") (auto simp: ex)
    then have "within_parent (cap_row ?w x) x"
      by (auto simp: within_parent_def ex capped_expiry_def split: option.splits)
    then show ?thesis using True cap_item_row(2)[OF wf', of d rn x] c w con snoc.prems(3)[of x] by simp
  next
    case False
    then have kks: "k \<in> set ks" using snoc.prems(4) by simp
    then have "parent_of work k \<noteq> Some x" using snoc.prems(2) by (auto simp: sorted_wrt_append)
    then have "Option.bind (parent_of (cap_row ?w x) k) (expiry_of (cap_row ?w x)) = Option.bind (parent_of ?w k) (expiry_of ?w)"
      unfolding parent_of_cap_row[OF wf'] par by (cases "parent_of work k") (auto simp: ex)
    moreover have "within_parent ?w k \<and> (\<forall>e. expiry_of ?w k = Some e \<longrightarrow> fc_now (rn_ctx rn) < e)"
      using c' acc snoc.prems(2,3) kks by (intro snoc.IH) (simp_all add: sorted_wrt_append)
    moreover have "expiry_of (cap_row ?w x) k = expiry_of ?w k" using False by (simp add: ex)
    ultimately show ?thesis using within_parent_cong[of "cap_row ?w x" k ?w] by simp
  qed
qed simp

lemma ancestors_loop_mono: "set out \<subseteq> set (ancestors_loop s k cur out)"
  by (induction s k cur out rule: ancestors_loop.induct) auto

lemma ancestors_loop_parent:
  assumes "k \<notin> set (ancestors_loop s p cur out)"
  shows "ancestors_loop s k cur (p # out) = p # ancestors_loop s p cur out"
  using assms
proof (induction s p cur out rule: ancestors_loop.induct)
  case (2 s p q out)
  show ?case
  proof (cases "q = p \<or> q \<in> set out \<or> \<not> snap_contains s q")
    case False
    then have "q \<in> set (ancestors_loop s p (Some q) out)"
      using ancestors_loop_mono[of "out @ [q]" s p "parent_of s q"] by auto
    then have "q \<noteq> k" using "2.prems" by blast
    then show ?thesis using "2.IH"[OF False] "2.prems" False by auto
  qed auto
qed simp

lemma ancestors_parent:
  assumes "parent_of s k = Some p" and "snap_contains s p" and "p \<noteq> k" and "k \<notin> set (ancestors s p)"
  shows "ancestors s k = p # ancestors s p"
  using assms ancestors_loop_parent[of k s p "parent_of s p" "[]"] by (simp add: ancestors_def)

text \<open>An item's ancestors depend on it, so on an acyclic graph a parent is one level above its child.\<close>

lemma chain_depends:
  "parent_chain s k ps \<Longrightarrow> snap_contains s k \<Longrightarrow> (\<forall>p \<in> set ps. snap_contains s p) \<Longrightarrow> a \<in> set ps
     \<Longrightarrow> (depends s all_kinds skip)\<^sup>+\<^sup>+ a k"
proof (induction ps arbitrary: k)
  case (Cons p ps)
  have pk: "depends s all_kinds skip p k" using Cons.prems by (simp add: depends_def)
  show ?case
  proof (cases "a = p")
    case False
    then have "(depends s all_kinds skip)\<^sup>+\<^sup>+ a p" using Cons by simp
    then show ?thesis using pk by (rule tranclp.trancl_into_trancl)
  qed (use pk in blast)
qed simp

lemma ancestors_depend:
  assumes "snap_contains s k" and "a \<in> set (ancestors s k)"
  shows "(depends s all_kinds skip)\<^sup>+\<^sup>+ a k"
proof -
  have "parent_chain s k (ancestors s k) \<and> distinct (k # ancestors s k) \<and> (\<forall>p \<in> set (ancestors s k). snap_contains s p)"
    unfolding ancestors_def by (rule ancestors_loop_chain) simp_all
  then show ?thesis using chain_depends[OF _ assms(1) _ assms(2)] by blast
qed

lemma parent_above:
  assumes "snap_contains s k" and "snap_contains s p" and "parent_of s k = Some p"
    and "\<not> (depends s all_kinds skip)\<^sup>+\<^sup>+ k k"
  shows "p \<noteq> k \<and> length (ancestors s p) < length (ancestors s k)"
proof -
  have pk: "depends s all_kinds skip p k" using assms by (simp add: depends_def)
  then have "p \<noteq> k" using assms(4) by blast
  moreover have "k \<notin> set (ancestors s p)"
    using ancestors_depend[OF assms(2), of k all_kinds skip] pk assms(4) by (meson tranclp.trancl_into_trancl)
  ultimately show ?thesis using ancestors_parent[OF assms(3,2)] by simp
qed

lemma sort_key_order:
  assumes "distinct ks" and "\<And>a b. a \<in> set ks \<Longrightarrow> b \<in> set ks \<Longrightarrow> P a = Some b \<Longrightarrow> d b < (d a :: nat)"
  shows "sorted_wrt (\<lambda>a b. a \<noteq> b \<and> P a \<noteq> Some b) (sort_key d ks)"
proof -
  have "sorted_wrt (\<lambda>a b. d a \<le> d b) (sort_key d ks)" using sorted_sort_key[of d ks] unfolding sorted_map .
  moreover have "distinct (sort_key d ks)" using assms(1) by simp
  ultimately have "sorted_wrt (\<lambda>a b. d a \<le> d b \<and> a \<noteq> b) (sort_key d ks)"
    by (auto simp: sorted_wrt_iff_nth_less nth_eq_iff_index_eq)
  then show ?thesis by (rule sorted_wrt_mono_rel[rotated]) (use assms(2) in \<open>force\<close>)
qed

section \<open>Approval holds\<close>

lemma approve_loop_closed:
  assumes "\<forall>h \<in> set held. set (pushed_holds work fresh h) \<subseteq> set held \<union> set queue"
  shows "set held \<union> set queue \<subseteq> set (approve_loop work fresh queue held)
    \<and> (\<forall>h \<in> set (approve_loop work fresh queue held).
         set (pushed_holds work fresh h) \<subseteq> set (approve_loop work fresh queue held))"
  using assms
proof (induction work fresh queue held rule: approve_loop.induct)
  case (2 work fresh h queue held)
  show ?case
  proof (cases "h \<in> set held")
    case True
    then have "\<forall>x \<in> set held. set (pushed_holds work fresh x) \<subseteq> set held \<union> set queue" using "2.prems" by auto
    from "2.IH"(1)[OF True this] show ?thesis using True by (simp add: subset_iff)
  next
    case False
    have "\<forall>x \<in> set (held @ [h]). set (pushed_holds work fresh x)
        \<subseteq> set (held @ [h]) \<union> set (rev (pushed_holds work fresh h) @ queue)"
      using "2.prems" by auto
    from "2.IH"(2)[OF False this] show ?thesis using False by simp
  qed
qed simp

lemma approve_loop_sound:
  assumes "set queue \<subseteq> R" and "set held \<subseteq> R" and "\<And>h k. h \<in> R \<Longrightarrow> k \<in> set (pushed_holds work fresh h) \<Longrightarrow> k \<in> R"
  shows "set (approve_loop work fresh queue held) \<subseteq> R"
  using assms
proof (induction work fresh queue held rule: approve_loop.induct)
  case (2 work fresh h queue held)
  show ?case
  proof (cases "h \<in> set held")
    case False
    have "set (rev (pushed_holds work fresh h) @ queue) \<subseteq> R" "set (held @ [h]) \<subseteq> R" using "2.prems" by auto
    then show ?thesis using "2.IH"(2)[OF False _ _ "2.prems"(3)] False by simp
  qed (use 2 in auto)
qed simp

lemma approve_loop_reach:
  "set (approve_loop work fresh seeds [])
     = {k. \<exists>x \<in> set seeds. (\<lambda>h k. k \<in> set (pushed_holds work fresh h))\<^sup>*\<^sup>* x k}" (is "_ = ?R")
proof
  show "set (approve_loop work fresh seeds []) \<subseteq> ?R"
    by (rule approve_loop_sound) (auto intro: rtranclp.rtrancl_into_rtrancl)
  have closed: "set seeds \<subseteq> set (approve_loop work fresh seeds [])"
    "\<And>h. h \<in> set (approve_loop work fresh seeds []) \<Longrightarrow> set (pushed_holds work fresh h) \<subseteq> set (approve_loop work fresh seeds [])"
    using approve_loop_closed[of "[]" work fresh seeds] by auto
  show "?R \<subseteq> set (approve_loop work fresh seeds [])"
  proof
    fix k assume "k \<in> ?R"
    then obtain x where "x \<in> set seeds" "(\<lambda>h k. k \<in> set (pushed_holds work fresh h))\<^sup>*\<^sup>* x k" by auto
    from this(2,1) show "k \<in> set (approve_loop work fresh seeds [])"
      by induction (use closed in blast)+
  qed
qed

text \<open>The leaves whose own writes need approval.\<close>

definition triggering :: "Snapshot \<Rightarrow> ApprovalPolicy \<Rightarrow> work_item_id list \<Rightarrow> work_item_id set" where
  "triggering work policy ids =
     {k \<in> set ids. \<not> has_children work k
        \<and> (\<exists>item. snap_item work k = Some item \<and> leaf_triggers policy work item \<noteq> [])}"

lemma approve_held:
  assumes "wf_snap work"
  shows "set (fst (approve work ids fresh ctx)) =
    (if whole_triggers ctx ids \<noteq> [] then set ids
     else {k \<in> set ids. \<exists>x \<in> triggering work (fc_approval ctx) ids.
             (\<lambda>h k. k \<in> set (pushed_holds work fresh h))\<^sup>*\<^sup>* x k})"
proof -
  let ?leaves = "List.map_filter (snap_item work) (filter (\<lambda>k. \<not> has_children work k) ids)"
  let ?seed = "\<lambda>seeds item. if leaf_triggers (fc_approval ctx) work item = [] then seeds else push_unique seeds (wi_id item)"
  have "set (foldl ?seed seeds items) = set seeds \<union> {wi_id item | item. item \<in> set items \<and> leaf_triggers (fc_approval ctx) work item \<noteq> []}" for seeds items
    by (induction items arbitrary: seeds) auto
  then have "set (foldl ?seed [] ?leaves) = {wi_id item | item. item \<in> set ?leaves \<and> leaf_triggers (fc_approval ctx) work item \<noteq> []}"
    by simp
  also have "\<dots> = triggering work (fc_approval ctx) ids"
    by (auto simp: triggering_def map_filter_iff snap_item_id[OF assms]) (metis snap_item_id[OF assms])
  finally show ?thesis by (auto simp: approve_def Let_def approve_loop_reach)
qed

end
