(* ===== verification/FilingExample.thy ===== *)
theory FilingExample
  imports Validate
begin

text \<open>
  One filing evaluated step by step, for the concrete instances of the acceptance theorems: under an open root
  \<open>r\<close> that expires at 9 and has a child \<open>b\<close> writing the resource \<open>w\<close>, a planner files one draft \<open>u\<close> that
  reads \<open>b\<close>, is blocked by it, and writes \<open>w\<close>, which the policy says needs consent.
\<close>

definition demo_filing :: WorkPlan where
  "demo_filing = \<lparr>wp_root = IrId ''r'', wp_items = [WorkItemDraft_default\<lparr>dr_title := ''t'', dr_objective := ''o'',
     dr_done_when := ''d'', dr_writable_resources := [''w''], dr_inputs_from := [IrId ''b''],
     dr_edges := [\<lparr>de_kind = EkBlocks, de_depends_on = IrId ''b''\<rparr>]\<rparr>], wp_edges = [], wp_rationale = []\<rparr>"

definition demo_id :: "nat \<Rightarrow> string" where
  "demo_id n = replicate (Suc n) CHR ''u''"

definition demo_filer :: FilingContext where
  "demo_filer = (FilingContext_new FsPlanner 5)\<lparr>fc_approval := ApprovalPolicy_default\<lparr>ap_consent_resources := [''w'']\<rparr>\<rparr>"

definition demo_b :: WorkItem where
  "demo_b = (blank_item ''b'' (Some ''r'') Queued)\<lparr>wi_writable_resources := [''w'']\<rparr>"

definition demo_rows :: "WorkItem list" where
  "demo_rows = [(blank_item ''r'' None Queued)\<lparr>wi_expires_at := Some 9\<rparr>, demo_b]"

definition demo_filed :: Snapshot where
  "demo_filed = Snapshot_new demo_rows []"

definition demo_new :: "timestamp option \<Rightarrow> WorkItem" where
  "demo_new expires = (blank_item ''u'' (Some ''r'') Queued)\<lparr>wi_title := ''t'', wi_objective := ''o'', wi_done_when := ''d'',
     wi_writable_resources := [''w''], wi_inputs_from := [''b''], wi_expires_at := expires, wi_plan_id := Some ''uu'',
     wi_created_at := 5, wi_updated_at := 5\<rparr>"

definition demo_edge :: Edge where
  "demo_edge = \<lparr>e_item = ''u'', e_depends_on = ''b'', e_kind = EkBlocks\<rparr>"

definition demo_graph :: "timestamp option \<Rightarrow> Snapshot" where
  "demo_graph expires = Snapshot_new (demo_rows @ [demo_new expires]) [demo_edge]"

definition demo_run :: Run where
  "demo_run = \<lparr>rn_snap = demo_filed, rn_plan = demo_filing, rn_ctx = demo_filer, rn_ids = [''u''],
     rn_labels = [(''u'', IrTmp ''#0'')], rn_by_tmp = [], rn_fresh = [''u''], rn_failed = []\<rparr>"

definition demo_refs :: References where
  "demo_refs = \<lparr>rf_root = Some ''r'', rf_parents = [Some ''r''], rf_inputs = [[''b'']], rf_edges = [demo_edge],
     rf_run = demo_run\<rparr>"

definition demo_examined :: Examined where
  "demo_examined = \<lparr>ex_plan_id = ''uu'', ex_root = Some ''r'', ex_effects = Effects_default, ex_hit = {''u''},
     ex_valid_pairs = [], ex_graph = demo_graph None, ex_work = demo_graph (Some 9), ex_held = [''u''],
     ex_triggers = [AtNamedSideEffect ''u'' ''w''], ex_warnings = [], ex_run = demo_run\<rparr>"

text \<open>Every step of \<open>examine\<close> on it.\<close>

lemma demo_steps:
  shows "references demo_id demo_filed demo_filing demo_filer = demo_refs"
    and "resolve_kinds demo_run = [WkTask]"
    and "check_drafts [WkTask] demo_run = demo_run"
    and "filing_scope demo_filed demo_filer (Some ''r'') = Some ''r''"
    and "check_scope (Some ''r'') [Some ''r''] (Some ''r'') demo_run = demo_run"
    and "supersede_pairs [demo_edge] = []"
    and "check_supersedes [] (Some ''r'') demo_run = ([], demo_run)"
    and "filed_rows demo_run demo_refs [WkTask] ''uu'' demo_filed = demo_graph None"
    and "supersede_in [] {''u''} {demo_edge} 5 (demo_graph None, Effects_default) = (demo_graph None, Effects_default)"
  by code_simp+

lemma demo_graph_steps:
  shows "check_cycles (demo_graph None) {''u''} demo_run = demo_run"
    and "check_depth (demo_graph None) demo_run = demo_run"
    and "check_count (demo_graph None) (Some ''r'') demo_run = demo_run"
    and "check_plan_b (demo_graph None) {''u''} demo_run = demo_run"
    and "check_onto_active [demo_edge] [Some ''r''] demo_run = ([], demo_run)"
    and "default_inputs demo_run (demo_graph None) = demo_graph None"
    and "check_inputs (demo_graph None) demo_run = demo_run"
    and "cap_expiry (demo_graph None) demo_run = (([], demo_graph (Some 9)), demo_run)"
  by code_simp+

lemma demo_work_steps:
  shows "check_dead (demo_graph (Some 9)) {''u''} [] demo_run = demo_run"
    and "check_writers (demo_graph (Some 9)) (Some ''r'') demo_run = demo_run"
    and "check_rates [] (Some ''r'') demo_run = demo_run"
    and "approve (demo_graph (Some 9)) [''u''] [''u''] demo_filer = ([''u''], [AtNamedSideEffect ''u'' ''w''])"
    and "check_split (demo_graph (Some 9)) [''u''] demo_run = ([], demo_run)"
  by code_simp+

lemma demo_fields:
  "rf_root demo_refs = Some ''r''" "rf_parents demo_refs = [Some ''r'']" "rf_edges demo_refs = [demo_edge]"
  "rf_run demo_refs = demo_run" "rn_fresh demo_run = [''u'']" "rn_ids demo_run = [''u'']" "rn_failed demo_run = []"
  "fc_now demo_filer = 5" "length (wp_items demo_filing) = 1" "demo_id 1 = ''uu''"
  "ef_repoints Effects_default = []" "{''u''} \<union> e_item ` {demo_edge} \<union> rp_item ` {} = {''u''}"
  by (simp_all add: demo_refs_def demo_run_def demo_filer_def FilingContext_new_def demo_filing_def demo_id_def
      Effects_default_def demo_edge_def)

lemma demo_examine: "examine demo_id demo_filed demo_filing demo_filer = demo_examined"
  unfolding examine_def demo_examined_def
  by (simp only: Let_def demo_steps demo_graph_steps demo_work_steps demo_fields case_prod_conv append_Nil
      list.set(1) set_simps)

definition demo_accepted :: Accepted where
  "demo_accepted = accept demo_id demo_filed demo_filing demo_filer demo_examined ''r''"

lemma demo_validate: "validate demo_id demo_filed demo_filing demo_filer = VAccepted demo_accepted"
  by (simp add: validate_def Let_def demo_examine demo_accepted_def demo_examined_def demo_run_def)

lemma demo_answer:
  shows "ac_root demo_accepted = ''r''" and "ac_held demo_accepted = [''u'']" and "ac_question demo_accepted = Some ''uuu''"
    and "ac_items demo_accepted
      = [(demo_new (Some 9))\<lparr>wi_status := Blocked NeedsConsent, wi_held_by := Some ''uuu''\<rparr>]"
  by code_simp+

lemma demo_facts:
  shows "has_children (demo_graph (Some 9)) ''u'' = False"
    and "writers_of (demo_graph (Some 9)) (writer_pool (demo_graph (Some 9)) (Some ''r'') [''u''])
      = [demo_b, demo_new (Some 9)]"
    and "names_side_effect (fc_approval demo_filer) ''w'' = Some ''w''"
    and "shared_resources [''w''] [''w''] False = [''w'']"
    and "whole_triggers demo_filer [''u''] = []"
    and "Option.bind (snap_item (demo_graph (Some 9)) ''r'') wi_expires_at = Some 9"
  by code_simp+

lemma demo_wf: "wf_snap demo_filed"
  unfolding demo_filed_def by (rule wf_Snapshot_new)

text \<open>A filing under a root that does not exist is rejected.\<close>

definition demo_lost :: WorkPlan where
  "demo_lost = \<lparr>wp_root = IrId ''x'', wp_items = [], wp_edges = [], wp_rationale = []\<rparr>"

definition demo_rejection :: Rejection where
  "demo_rejection = \<lparr>rj_failed = rn_failed (ex_run (examine demo_id (Snapshot_new [] []) demo_lost demo_filer))\<rparr>"

lemma demo_rejected: "validate demo_id (Snapshot_new [] []) demo_lost demo_filer = VRejected demo_rejection"
proof -
  have "ex_root (examine demo_id (Snapshot_new [] []) demo_lost demo_filer) = None" by code_simp
  then show ?thesis by (simp add: validate_def Let_def demo_rejection_def)
qed

end
