(* ===== verification/Acceptance.thy ===== *)
theory Acceptance
  imports ValidateOutcomes FilingExample
begin

text \<open>
  The promises of \<open>validate\<close>, stated on the graph it examined (\<open>ex_graph\<close>, \<open>ex_work\<close>: the snapshot with
  the filing's rows and edges added and its supersedes applied) and on the rows it returns.
\<close>

section \<open>The rows an accepted filing returns\<close>

definition held_row :: "string option \<Rightarrow> WorkItem \<Rightarrow> WorkItem" where
  "held_row question row = row\<lparr>wi_status := Blocked NeedsConsent, wi_held_by := question\<rparr>"

lemma hold_rows:
  assumes "wf_snap work"
  shows "wf_snap (foldl (hold_row q) work ks)
    \<and> snap_item (foldl (hold_row q) work ks) k
        = (if k \<in> set ks then map_option (held_row q) (snap_item work k) else snap_item work k)"
  using assms
proof (induction ks arbitrary: work)
  case (Cons x ks)
  have wf: "wf_snap (hold_row q work x)" unfolding hold_row_def using Cons.prems by (rule wf_update_item) simp_all
  have "snap_item (hold_row q work x) k = (if k = x then map_option (held_row q) (snap_item work k) else snap_item work k)"
    using snap_item_update[OF Cons.prems] by (simp add: hold_row_def held_row_def[abs_def])
  then show ?case using Cons.IH[OF wf] by (cases "snap_item work k") (auto simp: held_row_def)
qed simp

lemma gained_rows:
  assumes "wf_snap (fst st)" and "k \<notin> set ks"
  shows "wf_snap (fst (foldl (gained_edge now) st ks)) \<and> snap_item (fst (foldl (gained_edge now) st ks)) k = snap_item (fst st) k"
  using assms
proof (induction ks arbitrary: st)
  case (Cons x ks)
  have "wf_snap (fst (gained_edge now st x))" "snap_item (fst (gained_edge now st x)) k = snap_item (fst st) k"
    using Cons.prems by (auto simp: gained_edge_def wf_set_status snap_item_set_status split: prod.splits)
  then show ?case using Cons by simp
qed simp

lemma accepted_row:
  assumes wf: "wf_snap (ex_work ex)" and fresh: "set (rn_ids (ex_run ex)) \<subseteq> set (rn_fresh (ex_run ex))"
    and row: "row \<in> set (ac_items (accept uuid snap plan ctx ex root))"
  shows "wi_id row \<in> set (rn_ids (ex_run ex)) \<and> (\<exists>row0. snap_item (ex_work ex) (wi_id row) = Some row0
    \<and> row = (if wi_id row \<in> set (ex_held ex) then held_row (ac_question (accept uuid snap plan ctx ex root)) row0 else row0))"
proof -
  define q where "q = (if ex_held ex = [] then None else Some (uuid (length (wp_items plan) + 1)))"
  let ?work1 = "foldl (hold_row q) (ex_work ex) (ex_held ex)"
  define gained where "gained = map wi_id (filter (\<lambda>i. wi_id i \<notin> set (rn_fresh (ex_run ex)) \<and> wi_id i \<in> ex_hit ex) (sn_items ?work1))"
  let ?work2 = "fst (foldl (gained_edge (fc_now ctx)) (?work1, ex_effects ex) gained)"
  have q: "ac_question (accept uuid snap plan ctx ex root) = q"
    by (simp add: accept_def Let_def case_prod_unfold q_def)
  obtain k where k: "k \<in> set (rn_ids (ex_run ex))" "snap_item ?work2 k = Some row"
    using row by (auto simp: accept_def Let_def case_prod_unfold map_filter_iff simp flip: q_def gained_def)
  have "k \<notin> set gained" using k(1) fresh by (auto simp: gained_def)
  note g = gained_rows[of "(?work1, ex_effects ex)" k gained "fc_now ctx", unfolded fst_conv, OF _ this]
  have h: "wf_snap ?work1" "snap_item ?work1 k = (if k \<in> set (ex_held ex) then map_option (held_row q) (snap_item (ex_work ex) k) else snap_item (ex_work ex) k)"
    using hold_rows[OF wf] by auto
  then have "snap_item ?work1 k = Some row" using g k(2) by simp
  moreover have "wi_id row = k" using snap_item_id[OF h(1) calculation] .
  ultimately show ?thesis using k(1) h(2) q by (auto split: if_splits)
qed

lemma wf_default_inputs: "wf_snap work \<Longrightarrow> wf_snap (default_inputs rn work)"
  unfolding default_inputs_def by (rule foldl_keeps) (auto simp: default_input_def Let_def wf_update_item split: prod.splits)

lemma agree_default_inputs:
  assumes "wf_snap work" and "\<And>row xs. g (row\<lparr>wi_inputs_from := xs\<rparr>) = g row"
  shows "agree g work (default_inputs rn work)"
  unfolding default_inputs_def using assms(1)
proof (rule agree_foldl)
  fix s x assume "wf_snap s"
  then show "agree g s (default_input s x)"
    using assms(2) by (auto simp: default_input_def Let_def agree_refl intro!: agree_update split: prod.splits)
qed

text \<open>What is known of the examination of an accepted filing.\<close>

lemma accepted_examination:
  fixes uuid snap plan ctx
  defines "ex \<equiv> examine uuid snap plan ctx"
  assumes wf: "wf_snap snap" and acc: "validate uuid snap plan ctx = VAccepted a"
  shows "rn_failed (ex_run ex) = []" and "wf_snap (ex_graph ex)"
    and "ex_work ex = foldl cap_row (default_inputs (ex_run ex) (ex_graph ex))
           (sort_key (\<lambda>k. length (ancestors (default_inputs (ex_run ex) (ex_graph ex)) k)) (rn_ids (ex_run ex)))"
    and "wf_snap (ex_work ex)"
    and "ex_run ex = rf_run (references uuid snap plan ctx)"
    and "set (rn_fresh (ex_run ex)) = set (rn_ids (ex_run ex))" and "rn_ctx (ex_run ex) = ctx"
    and "set (rn_ids (ex_run ex)) \<subseteq> ex_hit ex"
proof -
  note v = validate_accepted[OF acc, folded ex_def]
  show clean: "rn_failed (ex_run ex) = []" by (rule v(1))
  note ec = examine_clean[OF clean[unfolded ex_def], folded ex_def]
  show wg: "wf_snap (ex_graph ex)" using kept_ex_graph[OF wf clean[unfolded ex_def]] by (simp add: ex_def kept_def)
  show run: "ex_run ex = rf_run (references uuid snap plan ctx)" by (rule ec(1))
  show "set (rn_fresh (ex_run ex)) = set (rn_ids (ex_run ex))" "rn_ctx (ex_run ex) = ctx"
    unfolding run by (rule run_fields)+
  then show "set (rn_ids (ex_run ex)) \<subseteq> ex_hit ex" using ec(13) run by auto
  obtain dead where cap: "cap_expiry (default_inputs (ex_run ex) (ex_graph ex)) (ex_run ex) = ((dead, ex_work ex), ex_run ex)"
    using ec(10) run by auto
  let ?w = "default_inputs (ex_run ex) (ex_graph ex)"
  have "snd (fst (foldl cap_item (([], ?w), ex_run ex) ks)) = foldl cap_row ?w ks"
    if "rn_failed (snd (foldl cap_item (([], ?w), ex_run ex) ks)) = []" for ks
    using cap_items_rows[OF wf_default_inputs[OF wg] that] .
  then show work: "ex_work ex = foldl cap_row ?w (sort_key (\<lambda>k. length (ancestors ?w k)) (rn_ids (ex_run ex)))"
    using cap clean unfolding cap_expiry_def by (metis fst_conv snd_conv)
  show "wf_snap (ex_work ex)" unfolding work using wf_default_inputs[OF wg] by (rule foldl_keeps) (rule wf_cap_row)
qed

lemma agree_ex_work:
  assumes "wf_snap snap" and "validate uuid snap plan ctx = VAccepted a"
    and "\<And>row xs. g (row\<lparr>wi_inputs_from := xs\<rparr>) = g row" and "\<And>row t. g (row\<lparr>wi_expires_at := t\<rparr>) = g row"
  shows "agree g (ex_graph (examine uuid snap plan ctx)) (ex_work (examine uuid snap plan ctx))"
proof -
  note ac = accepted_examination[OF assms(1,2)]
  have "agree g (ex_graph (examine uuid snap plan ctx)) (default_inputs (ex_run (examine uuid snap plan ctx)) (ex_graph (examine uuid snap plan ctx)))"
    using ac(2) assms(3) by (rule agree_default_inputs)
  then show ?thesis unfolding ac(3) using wf_default_inputs[OF ac(2)] assms(4)
    by (blast intro: agree_trans agree_foldl agree_cap_row)
qed

lemma agree_capped:
  assumes "wf_snap snap" and "validate uuid snap plan ctx = VAccepted a"
    and "\<And>row t. g (row\<lparr>wi_expires_at := t\<rparr>) = g row"
  shows "agree g (default_inputs (ex_run (examine uuid snap plan ctx)) (ex_graph (examine uuid snap plan ctx)))
    (ex_work (examine uuid snap plan ctx))"
  unfolding accepted_examination(3)[OF assms(1,2)]
  using wf_default_inputs[OF accepted_examination(2)[OF assms(1,2)]] assms(3)
  by (blast intro: agree_foldl agree_cap_row)

lemma new_row:
  assumes "wf_snap snap" and "validate uuid snap plan ctx = VAccepted a" and "row \<in> set (ac_items a)"
  shows "wi_id row \<in> set (rn_ids (ex_run (examine uuid snap plan ctx)))"
    and "\<exists>row0. snap_item (ex_work (examine uuid snap plan ctx)) (wi_id row) = Some row0
      \<and> row = (if wi_id row \<in> set (ex_held (examine uuid snap plan ctx)) then held_row (ac_question a) row0 else row0)"
proof -
  note ac = accepted_examination[OF assms(1,2)]
  obtain root where a: "a = accept uuid snap plan ctx (examine uuid snap plan ctx) root"
    using validate_accepted(2)[OF assms(2)] by blast
  from accepted_row[OF ac(4) _ assms(3)[unfolded a]] ac(6)
  show "wi_id row \<in> set (rn_ids (ex_run (examine uuid snap plan ctx)))"
    "\<exists>row0. snap_item (ex_work (examine uuid snap plan ctx)) (wi_id row) = Some row0
      \<and> row = (if wi_id row \<in> set (ex_held (examine uuid snap plan ctx)) then held_row (ac_question a) row0 else row0)"
    unfolding a by auto
qed

section \<open>The example filing\<close>

definition demo_row :: WorkItem where
  "demo_row = (demo_new (Some 9))\<lparr>wi_status := Blocked NeedsConsent, wi_held_by := Some ''uuu''\<rparr>"

lemma demo_row_in: "demo_row \<in> set (ac_items demo_accepted)"
  by (simp add: demo_answer demo_row_def)

lemma demo_row_fields:
  "wi_id demo_row = ''u''" "wi_inputs_from demo_row = [''b'']" "wi_parent demo_row = Some ''r''"
  "wi_expires_at demo_row = Some 9" "wi_writable_resources demo_row = [''w'']"
  by (simp_all add: demo_row_def demo_new_def blank_item_def)

lemma demo_examined_fields:
  "ex_graph demo_examined = demo_graph None" "ex_work demo_examined = demo_graph (Some 9)" "ex_hit demo_examined = {''u''}"
  by (simp_all add: demo_examined_def)

lemma demo_edge_in: "demo_edge \<in> set (sn_edges (demo_graph None))" "is_ordering (e_kind demo_edge)" "e_item demo_edge = ''u''"
  by code_simp+

lemma demo_caps: "unat (gc_max_depth (fc_caps demo_filer)) = 3" "unat (gc_max_items (fc_caps demo_filer)) = 12"
  by code_simp+

lemma demo_ids: "map demo_id [0..<length (wp_items demo_filing)] = [''u'']" "demo_id ` {..<length (wp_items demo_filing)} = {''u''}"
  "fc_source demo_filer \<noteq> FsDeliveryImport" "fc_isolated_repo_writes demo_filer = False"
  by (simp_all add: demo_filing_def demo_id_def lessThan_Suc demo_filer_def FilingContext_new_def)

lemma demo_inj: "inj demo_id"
  by (auto simp: inj_on_def demo_id_def replicate_eq_replicate)


section \<open>Properties\<close>

text \<open>A filing is never rejected in silence: a rejection names at least one failed check.\<close>

theorem rejection_names_a_failure:
  assumes "validate uuid snap plan ctx = VRejected r"
  shows "rj_failed r \<noteq> []"
proof
  assume none: "rj_failed r = []"
  let ?ex = "examine uuid snap plan ctx"
  have failed: "rn_failed (ex_run ?ex) = []" and root: "ex_root ?ex = None"
    using assms none by (auto simp: validate_def Let_def split: option.splits list.splits)
  note ec = examine_clean[OF failed]
  have "rf_root (references uuid snap plan ctx) = None" using root ec(3) by simp
  then have "fst (Run_resolve (wp_root plan) ''the root'' (Run_new uuid snap plan ctx)) = None"
    by (simp add: references_def Let_def case_prod_unfold)
  then have "rn_failed (snd (Run_resolve (wp_root plan) ''the root'' (Run_new uuid snap plan ctx))) \<noteq> []"
    by (auto simp: Run_resolve_def split: ItemRef.splits option.splits if_splits)
  moreover have "noted (snd (Run_resolve (wp_root plan) ''the root'' (Run_new uuid snap plan ctx)))
      (rf_run (references uuid snap plan ctx))"
    by (rule noted_after_root)
  ultimately show False using ec(2) noted_failed by blast
qed

lemma rejection_witness: "rj_failed demo_rejection \<noteq> []"
  by (rule rejection_names_a_failure[OF demo_rejected])

text \<open>C19: An accepted filing puts no new item on a dependency cycle, over every edge kind, the parent links
  and the ordering edges inherited from ancestors; no ordering edge of a touched item joins an item
  with its own ancestor or descendant.\<close>

theorem accepted_items_are_acyclic:
  assumes "wf_snap snap" and "validate uuid snap plan ctx = VAccepted a" and "row \<in> set (ac_items a)"
  shows "\<not> (depends (ex_graph (examine uuid snap plan ctx)) True {})\<^sup>+\<^sup>+ (wi_id row) (wi_id row)
    \<and> (\<forall>e \<in> set (sn_edges (ex_graph (examine uuid snap plan ctx))).
         is_ordering (e_kind e) \<and> e_item e \<in> ex_hit (examine uuid snap plan ctx)
           \<longrightarrow> \<not> ancestral (ex_graph (examine uuid snap plan ctx)) e)"
proof -
  note ac = accepted_examination[OF assms(1,2)]
  note ec = examine_clean[OF ac(1)]
  have "wi_id row \<in> ex_hit (examine uuid snap plan ctx)" using new_row(1)[OF assms] ac(8) by blast
  note cc = clean_cycles[OF ac(2) ec(5) ec(2) this]
  show ?thesis using cc by blast
qed

lemma acyclic_witness: "\<not> (depends (demo_graph None) True {})\<^sup>+\<^sup>+ ''u'' ''u'' \<and> \<not> ancestral (demo_graph None) demo_edge"
  using accepted_items_are_acyclic[OF demo_wf demo_validate demo_row_in, unfolded demo_examine]
  by (auto simp: demo_examined_fields demo_row_fields demo_edge_in)

text \<open>
  The tree as the rows state it: \<open>row_above s c p\<close> says that the row \<open>c\<close> names the row \<open>p\<close> as its parent, and
  \<open>row_open s k\<close> that \<open>k\<close> has a row that is not closed. Neither mentions the indexes the validator walks.
\<close>

definition row_above :: "Snapshot \<Rightarrow> work_item_id \<Rightarrow> work_item_id \<Rightarrow> bool" where
  "row_above s c p \<longleftrightarrow>
     (\<exists>i \<in> set (sn_items s). \<exists>j \<in> set (sn_items s). wi_id i = c \<and> wi_parent i = Some p \<and> wi_id j = p)"

definition row_open :: "Snapshot \<Rightarrow> work_item_id \<Rightarrow> bool" where
  "row_open s k \<longleftrightarrow> (\<exists>i \<in> set (sn_items s). wi_id i = k \<and> \<not> is_closed (wi_status i))"

lemma row_above_parent:
  assumes "wf_snap s"
  shows "row_above s c p \<longleftrightarrow> parent_of s c = Some p \<and> snap_contains s p"
proof -
  have "snap_contains s p \<longleftrightarrow> (\<exists>j. snap_item s p = Some j)"
    using snap_contains_iff[OF assms, of p] by auto
  then show ?thesis
    unfolding row_above_def parent_of_def bind_eq_Some_conv snap.lookup_Some_iff[OF assms] by auto
qed

lemma parent_chain_next:
  "parent_chain s k ps \<Longrightarrow> k # ps = xs @ q # y # zs \<Longrightarrow> parent_of s q = Some y"
proof (induction xs arbitrary: k ps)
  case (Cons x xs)
  then obtain p ps' where "ps = p # ps'" by (cases ps) auto
  with Cons show ?case by auto
qed auto

lemma rows_above_ancestors:
  assumes "wf_snap s" "(row_above s)\<^sup>*\<^sup>* k p"
  shows "p = k \<or> p \<in> set (ancestors s k)"
  using assms(2)
proof (induction rule: rtranclp_induct)
  case (step q p)
  let ?as = "ancestors s k"
  have chain: "parent_chain s k ?as" using ancestors_spec[of s k] by blast
  have p: "parent_of s q = Some p" "snap_contains s p"
    using step.hyps(2) row_above_parent[OF assms(1)] by auto
  from step.IH have "q \<in> set (k # ?as)" by auto
  then obtain xs ys where split: "k # ?as = xs @ q # ys" by (meson split_list)
  show ?case
  proof (cases ys)
    case Nil
    then have "last (k # ?as) = q" by (simp add: split)
    with p ancestors_loop_stops[of s k "[]" "parent_of s k"] show ?thesis
      by (simp add: ancestors_def)
  next
    case (Cons y zs)
    have "parent_of s q = Some y" using chain split Cons by (auto intro: parent_chain_next)
    with p have "p = y" by simp
    with split Cons show ?thesis by (cases xs) auto
  qed
qed simp

lemma rows_below_descendants:
  assumes "wf_snap s" "(row_above s)\<^sup>*\<^sup>* k r"
  shows "k \<in> insert r (set (descendants s r))"
proof -
  have "row_above s c p \<Longrightarrow> kid_of s p c" for c p
    using row_above_parent[OF assms(1)] kid_of_parent[OF assms(1)] by simp
  with assms(2) have "(kid_of s)\<^sup>*\<^sup>* r k"
    by (induction rule: rtranclp_induct) (auto intro: converse_rtranclp_into_rtranclp)
  then show ?thesis using descendants_reach by blast
qed

lemma row_open_item:
  assumes "wf_snap s"
  shows "row_open s k \<longleftrightarrow> open_item s k"
proof -
  have "row_open s k \<longleftrightarrow> (\<exists>i. snap_item s k = Some i \<and> \<not> is_closed (wi_status i))"
    unfolding snap.lookup_Some_iff[OF assms] row_open_def by blast
  then show ?thesis by (cases "snap_item s k") (auto simp: open_item_def snap_status_def)
qed

lemma tree_size_counted:
  assumes "wf_snap s"
  shows "card {k. row_open s k \<and> ((row_above s)\<^sup>*\<^sup>* k r \<or> k \<in> set ids)} \<le> open_count s (Some r) ids"
proof -
  let ?root = "if open_item s r then [r] else []"
  let ?under = "filter (open_item s) (descendants s r)"
  let ?rest = "filter (\<lambda>k. k \<notin> set (descendants s r) \<and> Some k \<noteq> Some r) ids"
  have "{k. row_open s k \<and> ((row_above s)\<^sup>*\<^sup>* k r \<or> k \<in> set ids)} \<subseteq> set (?root @ ?under @ ?rest)"
    using rows_below_descendants[OF assms] row_open_item[OF assms] by auto
  then have "card {k. row_open s k \<and> ((row_above s)\<^sup>*\<^sup>* k r \<or> k \<in> set ids)} \<le> card (set (?root @ ?under @ ?rest))"
    by (rule card_mono[rotated]) simp
  also have "\<dots> \<le> length (?root @ ?under @ ?rest)" by (rule card_length)
  finally show ?thesis by (simp add: open_count_def Let_def split: if_split_asm)
qed

lemma rows_above_counted:
  assumes "wf_snap s"
  shows "card {p. p \<noteq> k \<and> (row_above s)\<^sup>*\<^sup>* k p} \<le> length (ancestors s k)"
proof -
  have "{p. p \<noteq> k \<and> (row_above s)\<^sup>*\<^sup>* k p} \<subseteq> set (ancestors s k)"
    using rows_above_ancestors[OF assms] by blast
  then have "card {p. p \<noteq> k \<and> (row_above s)\<^sup>*\<^sup>* k p} \<le> card (set (ancestors s k))"
    by (rule card_mono[rotated]) simp
  then show ?thesis using card_length order_trans by blast
qed

text \<open>C23: The graph caps hold after an accepted filing: a new item has fewer other rows above it than the depth
  cap, and the open rows of the root's tree (the root included) together with the new items elsewhere are
  within the item cap. Depth and tree are read off the rows' parent columns.\<close>

theorem accepted_within_caps:
  assumes "wf_snap snap" and "validate uuid snap plan ctx = VAccepted a"
  shows "(\<forall>row \<in> set (ac_items a).
      card {p. p \<noteq> wi_id row \<and> (row_above (ex_graph (examine uuid snap plan ctx)))\<^sup>*\<^sup>* (wi_id row) p}
        < unat (gc_max_depth (fc_caps ctx)))
    \<and> card {k. row_open (ex_graph (examine uuid snap plan ctx)) k
             \<and> ((row_above (ex_graph (examine uuid snap plan ctx)))\<^sup>*\<^sup>* k (ac_root a) \<or> k \<in> uuid ` {..<length (wp_items plan)})}
        \<le> unat (gc_max_items (fc_caps ctx))"
proof -
  note ac = accepted_examination[OF assms(1,2)]
  note ec = examine_clean[OF ac(1)]
  have root: "ex_root (examine uuid snap plan ctx) = Some (ac_root a)"
    using validate_accepted(2)[OF assms(2)] by (auto simp: accept_def Let_def case_prod_unfold)
  have ids: "set (map uuid [0..<length (wp_items plan)]) = uuid ` {..<length (wp_items plan)}"
    by (simp add: atLeast0LessThan)
  have "open_count (ex_graph (examine uuid snap plan ctx)) (Some (ac_root a)) (map uuid [0..<length (wp_items plan)])
      \<le> unat (gc_max_items (fc_caps ctx))"
    using clean_count[OF ec(7) ec(2)] ec(1,3) root run_fields(1,3)[of uuid snap plan ctx] by simp
  moreover have "length (ancestors (ex_graph (examine uuid snap plan ctx)) (wi_id row)) < unat (gc_max_depth (fc_caps ctx))"
    if "row \<in> set (ac_items a)" for row
    using clean_depth[OF ec(6) ec(2)] new_row(1)[OF assms that] ec(1,3) run_fields(1,3)[of uuid snap plan ctx] by simp
  ultimately show ?thesis
    using tree_size_counted[OF ac(2), of "ac_root a" "map uuid [0..<length (wp_items plan)]"]
      rows_above_counted[OF ac(2)] unfolding ids by (meson order_trans order_le_less_trans)
qed

lemma caps_witness:
  "card {p. p \<noteq> ''u'' \<and> (row_above (demo_graph None))\<^sup>*\<^sup>* ''u'' p} < 3
   \<and> card {k. row_open (demo_graph None) k \<and> ((row_above (demo_graph None))\<^sup>*\<^sup>* k ''r'' \<or> k \<in> {''u''})} \<le> 12"
proof -
  note caps = accepted_within_caps[OF demo_wf demo_validate]
  note depth = bspec[OF conjunct1[OF caps] demo_row_in, unfolded demo_examine demo_examined_fields demo_row_fields(1) demo_caps]
  note count = conjunct2[OF caps, unfolded demo_examine demo_examined_fields demo_answer demo_caps demo_ids(2)]
  show ?thesis using depth count by blast
qed

text \<open>Every input a new item reads is another item it is ordered after, in the graph the filing leaves.\<close>

theorem accepted_inputs_are_ordered:
  assumes "wf_snap snap" and "validate uuid snap plan ctx = VAccepted a" and "row \<in> set (ac_items a)"
    and "input \<in> set (wi_inputs_from row)"
  shows "input \<noteq> wi_id row \<and> (depends (ex_work (examine uuid snap plan ctx)) False {})\<^sup>+\<^sup>+ (wi_id row) input"
proof -
  note ac = accepted_examination[OF assms(1,2)]
  note ec = examine_clean[OF ac(1)]
  let ?w = "default_inputs (ex_run (examine uuid snap plan ctx)) (ex_graph (examine uuid snap plan ctx))"
  have ag: "agree wi_inputs_from ?w (ex_work (examine uuid snap plan ctx))" by (rule agree_capped[OF assms(1,2)]) simp
  obtain row0 where r0: "snap_item (ex_work (examine uuid snap plan ctx)) (wi_id row) = Some row0"
    "wi_inputs_from row0 = wi_inputs_from row"
    using new_row(2)[OF assms(1-3)] by (auto simp: held_row_def split: if_splits)
  then obtain row1 where "snap_item ?w (wi_id row) = Some row1" "wi_inputs_from row1 = wi_inputs_from row"
    using ag by (auto simp: agree_def) (metis (no_types, lifting) map_option_eq_Some option.simps(9))
  then have "input \<noteq> wi_id row \<and> (depends ?w False {})\<^sup>+\<^sup>+ (wi_id row) input"
    using clean_inputs[OF wf_default_inputs[OF ac(2)] ec(9)[folded ec(1)] ac(1)] new_row(1)[OF assms(1-3)] ec(1) assms(4) by simp
  then show ?thesis by (simp add: agree_depends[OF ag])
qed

lemma inputs_witness: "''b'' \<noteq> ''u'' \<and> (depends (demo_graph (Some 9)) False {})\<^sup>+\<^sup>+ ''u'' ''b''"
  using accepted_inputs_are_ordered[OF demo_wf demo_validate demo_row_in, unfolded demo_examine, of "''b''"]
  by (simp add: demo_examined_fields demo_row_fields)



text \<open>Nothing is filed that has expired already, and no new item outlives its parent: if the parent expires,
  the item expires no later, for parents filed by the same call too (the ids drawn being distinct).\<close>

theorem accepted_items_expire_in_time:
  assumes "inj uuid" and "wf_snap snap" and "validate uuid snap plan ctx = VAccepted a" and "row \<in> set (ac_items a)"
  shows "(\<forall>e. wi_expires_at row = Some e \<longrightarrow> fc_now ctx < e)
    \<and> (\<forall>p c. wi_parent row = Some p \<longrightarrow> expiry_of (ex_work (examine uuid snap plan ctx)) p = Some c
         \<longrightarrow> (\<exists>e. wi_expires_at row = Some e \<and> e \<le> c))"
proof -
  let ?ex = "examine uuid snap plan ctx"
  let ?w = "default_inputs (ex_run ?ex) (ex_graph ?ex)" and ?k = "wi_id row"
  let ?ks = "sort_key (\<lambda>k. length (ancestors ?w k)) (rn_ids (ex_run ?ex))"
  note ac = accepted_examination[OF assms(2,3)]
  note ec = examine_clean[OF ac(1), folded ac(5)]
  have ag: "agree (\<lambda>_. ()) (ex_graph ?ex) ?w" using ac(2) by (rule agree_default_inputs) simp
  have wf: "wf_snap ?w" using ag by (simp add: agree_def)
  have there: "snap_contains ?w k" if "k \<in> set (rn_ids (ex_run ?ex))" for k
    using kept_ex_graph[OF assms(2) ac(1)] ag that by (simp add: kept_def agree_def)
  have acyclic: "\<not> (depends ?w True {})\<^sup>+\<^sup>+ k k" if "k \<in> set (rn_ids (ex_run ?ex))" for k
    using clean_cycles(1)[OF ac(2) ec(5) ac(1)] ac(8) that agree_depends[OF ag] by auto
  have ids: "rn_ids (ex_run ?ex) = map uuid [0..<length (wp_items plan)]" unfolding ac(5) by (rule run_fields)
  have "distinct (rn_ids (ex_run ?ex))" unfolding ids by (simp add: distinct_map inj_on_subset[OF assms(1)])
  then have order: "sorted_wrt (\<lambda>a b. a \<noteq> b \<and> parent_of ?w a \<noteq> Some b) ?ks"
  proof (rule sort_key_order)
    show "length (ancestors ?w b) < length (ancestors ?w a)"
      if "a \<in> set (rn_ids (ex_run ?ex))" "b \<in> set (rn_ids (ex_run ?ex))" "parent_of ?w a = Some b" for a b
      using parent_above[OF there[OF that(1)] there[OF that(2)] that(3) acyclic[OF that(1)]] by simp
  qed
  have clean: "rn_failed (snd (foldl cap_item (([], ?w), ex_run ?ex) ?ks)) = []"
    using ec(10) ac(1) unfolding cap_expiry_def by (metis snd_conv)
  have cap: "within_parent (ex_work ?ex) k \<and> (\<forall>e. expiry_of (ex_work ?ex) k = Some e \<longrightarrow> fc_now ctx < e)"
    if k: "k \<in> set (rn_ids (ex_run ?ex))" for k
  proof -
    have "snap_contains ?w x \<and> parent_of ?w x \<noteq> Some x" if "x \<in> set ?ks" for x
      using that there[of x] parent_above[OF there[of x] there[of x] _ acyclic[of x]] by auto
    from cap_items_expiry[OF wf clean order this, of k] k show ?thesis unfolding ac(3) ac(7) by simp
  qed
  obtain row0 where "snap_item (ex_work ?ex) ?k = Some row0" "wi_expires_at row0 = wi_expires_at row" "wi_parent row0 = wi_parent row"
    using new_row(2)[OF assms(2-4)] by (auto simp: held_row_def split: if_splits)
  then have "expiry_of (ex_work ?ex) ?k = wi_expires_at row" "parent_of (ex_work ?ex) ?k = wi_parent row"
    by (simp_all add: expiry_of_def parent_of_def)
  then show ?thesis using cap[OF new_row(1)[OF assms(2-4)]] by (auto simp: within_parent_def split: option.splits)
qed

lemma expiry_witness: "(5::timestamp) < 9 \<and> (\<exists>e. Some (9::timestamp) = Some e \<and> e \<le> 9)"
  using accepted_items_expire_in_time[OF demo_inj demo_wf demo_validate demo_row_in, unfolded demo_examine]
  by (simp add: demo_examined_fields demo_row_fields demo_facts demo_fields expiry_of_def)

text \<open>C20: A side effect the policy names never starts unasked: a new leaf that writes a resource needing consent
  is filed blocked on consent, held by the approval question, which exists.\<close>

theorem side_effects_wait_for_consent:
  assumes "wf_snap snap" and "validate uuid snap plan ctx = VAccepted a" and "row \<in> set (ac_items a)"
    and "\<not> has_children (ex_work (examine uuid snap plan ctx)) (wi_id row)"
    and "resource \<in> set (wi_writable_resources row)" and "names_side_effect (fc_approval ctx) resource \<noteq> None"
  shows "wi_status row = Blocked NeedsConsent \<and> wi_id row \<in> set (ac_held a)
    \<and> wi_held_by row = ac_question a \<and> ac_question a \<noteq> None"
proof -
  let ?ex = "examine uuid snap plan ctx"
  note ac = accepted_examination[OF assms(1,2)]
  note ec = examine_clean[OF ac(1), folded ac(5)]
  obtain root where a: "a = accept uuid snap plan ctx ?ex root" using validate_accepted(2)[OF assms(2)] by blast
  obtain row0 where r0: "snap_item (ex_work ?ex) (wi_id row) = Some row0"
    "row = (if wi_id row \<in> set (ex_held ?ex) then held_row (ac_question a) row0 else row0)"
    using new_row(2)[OF assms(1-3)] by blast
  have id0: "wi_id row0 = wi_id row" using snap_item_id[OF ac(4) r0(1)] .
  have res: "wi_writable_resources row0 = wi_writable_resources row" by (subst r0(2)) (simp add: held_row_def)
  have "leaf_triggers (fc_approval ctx) (ex_work ?ex) row0 \<noteq> []"
    using assms(5,6) res by (auto simp: leaf_triggers_def filter_empty_conv)
  then have "wi_id row \<in> triggering (ex_work ?ex) (fc_approval ctx) (rn_ids (ex_run ?ex))"
    using r0(1) assms(4) new_row(1)[OF assms(1-3)] by (auto simp: triggering_def)
  then have "wi_id row \<in> set (ex_held ?ex)"
    unfolding ec(12) approve_held[OF ac(4)] using new_row(1)[OF assms(1-3)] by auto
  then show ?thesis using r0(2) by (auto simp: a accept_def Let_def case_prod_unfold held_row_def)
qed

lemma consent_witness: "wi_status demo_row = Blocked NeedsConsent \<and> wi_id demo_row \<in> set (ac_held demo_accepted)
    \<and> wi_held_by demo_row = ac_question demo_accepted \<and> ac_question demo_accepted \<noteq> None"
  by (rule side_effects_wait_for_consent[OF demo_wf demo_validate demo_row_in, unfolded demo_examine, of "''w''"])
    (simp_all add: demo_examined_fields demo_row_fields demo_facts)

text \<open>C28: Which new items wait for approval. When no trigger fires for the whole graph, exactly the leaves whose own
  writes need it and every new item behind one of them: through ordering edges, or below it in the tree.
  When one fires, all of them.\<close>

theorem approval_holds_exactly:
  assumes "wf_snap snap" and "validate uuid snap plan ctx = VAccepted a"
  shows "set (ac_held a) =
    (if whole_triggers ctx (map uuid [0..<length (wp_items plan)]) \<noteq> [] then uuid ` {..<length (wp_items plan)}
     else {k \<in> uuid ` {..<length (wp_items plan)}.
             \<exists>x \<in> triggering (ex_work (examine uuid snap plan ctx)) (fc_approval ctx) (map uuid [0..<length (wp_items plan)]).
               (\<lambda>h k. k \<in> uuid ` {..<length (wp_items plan)}
                  \<and> ((\<exists>e \<in> set (sn_edges (ex_work (examine uuid snap plan ctx))).
                        is_ordering (e_kind e) \<and> e_item e = k \<and> e_depends_on e = h)
                     \<or> k \<in> set (descendants (ex_work (examine uuid snap plan ctx)) h)))\<^sup>*\<^sup>* x k})"
proof -
  let ?ex = "examine uuid snap plan ctx"
  note ac = accepted_examination[OF assms]
  note ec = examine_clean[OF ac(1), folded ac(5)]
  have ids: "rn_ids (ex_run ?ex) = map uuid [0..<length (wp_items plan)]" unfolding ac(5) by (rule run_fields)
  have new: "set (map uuid [0..<length (wp_items plan)]) = uuid ` {..<length (wp_items plan)}" by (simp add: atLeast0LessThan)
  have pushed: "(\<lambda>h k. k \<in> set (pushed_holds (ex_work ?ex) (rn_fresh (ex_run ?ex)) h)) = (\<lambda>h k. k \<in> uuid ` {..<length (wp_items plan)}
      \<and> ((\<exists>e \<in> set (sn_edges (ex_work ?ex)). is_ordering (e_kind e) \<and> e_item e = k \<and> e_depends_on e = h)
         \<or> k \<in> set (descendants (ex_work ?ex) h)))"
    by (intro ext) (auto simp: pushed_holds_def ac(6) ids atLeast0LessThan snap.naming_iff[OF ac(4)] simp del: image_iff intro: rev_image_eqI)
  have "ac_held a = ex_held ?ex"
    using validate_accepted(2)[OF assms(2)] by (auto simp: accept_def Let_def case_prod_unfold)
  then show ?thesis unfolding ec(12) using approve_held[OF ac(4)] by (simp only: ids new pushed)
qed

lemma approval_witness: "\<exists>x. x \<in> triggering (demo_graph (Some 9)) (fc_approval demo_filer) [''u'']"
proof -
  note held = approval_holds_exactly[OF demo_wf demo_validate, unfolded demo_examine demo_examined_fields demo_answer
      demo_ids demo_facts]
  have "''u'' \<in> set [''u'']" by simp
  then show ?thesis unfolding held by (simp only: not_not if_False simp_thms) blast
qed


end
