(* ===== verification/Insertion.thy ===== *)
theory Insertion
  imports FilingExample
begin

text \<open>
  Inserting an accepted filing into a snapshot, \<^verbatim>\<open>Snapshot::insert\<close> of
  \<^verbatim>\<open>rustykrab-control/src/graph/snapshot.rs\<close>: its rows, its edges, then its effects on existing items,
  and a filing whose insertion loses an edge the validator had accepted.
\<close>

definition Snapshot_insert :: "Snapshot \<Rightarrow> Accepted \<Rightarrow> timestamp \<Rightarrow> Snapshot" where
  "Snapshot_insert s accepted now =
     snap_apply (foldl add_edge (foldl add_item s (ac_items accepted)) (ac_edges accepted)) (ac_effects accepted) now"

text \<open>
  Under the root \<open>r\<close> wait \<open>t\<close> and \<open>x\<close>. One filing replaces \<open>t\<close> by a new item \<open>u\<close> and adds the plan edge
  \<open>x\<close> blocks on \<open>t\<close>.
\<close>

definition lost_plan :: WorkPlan where
  "lost_plan = \<lparr>wp_root = IrId ''r'', wp_items = [WorkItemDraft_default\<lparr>dr_title := ''t'', dr_objective := ''o'',
     dr_done_when := ''d'', dr_supersedes := Some ''t''\<rparr>],
     wp_edges = [\<lparr>pe_item = IrId ''x'', pe_kind = EkBlocks, pe_depends_on = IrId ''t''\<rparr>], wp_rationale = []\<rparr>"

definition lost_filer :: FilingContext where
  "lost_filer = FilingContext_new FsPlanner 5"

definition lost_rows :: "WorkItem \<Rightarrow> WorkItem list" where
  "lost_rows t = [blank_item ''r'' None Queued, t, blank_item ''x'' (Some ''r'') Queued]"

definition lost_target :: WorkItem where
  "lost_target = blank_item ''t'' (Some ''r'') Queued"

definition lost_snap :: Snapshot where
  "lost_snap = Snapshot_new (lost_rows lost_target) []"

definition lost_new :: WorkItem where
  "lost_new = (blank_item ''u'' (Some ''r'') Queued)\<lparr>wi_title := ''t'', wi_objective := ''o'', wi_done_when := ''d'',
     wi_plan_id := Some ''uu'', wi_created_at := 5, wi_updated_at := 5\<rparr>"

definition lost_replaces :: Edge where
  "lost_replaces = \<lparr>e_item = ''u'', e_depends_on = ''t'', e_kind = EkSupersedes\<rparr>"

definition lost_blocks :: "work_item_id \<Rightarrow> Edge" where
  "lost_blocks upstream = \<lparr>e_item = ''x'', e_depends_on = upstream, e_kind = EkBlocks\<rparr>"

definition lost_run :: Run where
  "lost_run = \<lparr>rn_snap = lost_snap, rn_plan = lost_plan, rn_ctx = lost_filer, rn_ids = [''u''],
     rn_labels = [(''u'', IrTmp ''#0'')], rn_by_tmp = [], rn_fresh = [''u''], rn_failed = []\<rparr>"

definition lost_refs :: References where
  "lost_refs = \<lparr>rf_root = Some ''r'', rf_parents = [Some ''r''], rf_inputs = [[]],
     rf_edges = [lost_replaces, lost_blocks ''t''], rf_run = lost_run\<rparr>"

definition lost_filed :: Snapshot where
  "lost_filed = Snapshot_new (lost_rows lost_target @ [lost_new]) [lost_replaces, lost_blocks ''t'']"

definition lost_graph :: Snapshot where
  "lost_graph = Snapshot_new
     (lost_rows (lost_target\<lparr>wi_status := Cancelled CrSuperseded, wi_status_origin := Some ''u'', wi_updated_at := 5,
        wi_closed_at := Some 5\<rparr>) @ [lost_new]) [lost_replaces, lost_blocks ''u'']"

definition lost_effects :: Effects where
  "lost_effects = Effects_default\<lparr>
     ef_transitions := [Transition_caused ''t'' Queued (Cancelled CrSuperseded) ''superseded'' ''u'' ''u''],
     ef_repoints := [\<lparr>rp_item = ''x'', rp_link = LkEdge EkBlocks, rp_old_upstream = ''t'', rp_new_upstream = ''u'',
       rp_origin = ''u''\<rparr>]\<rparr>"

lemma lost_steps:
  shows "references demo_id lost_snap lost_plan lost_filer = lost_refs"
    and "resolve_kinds lost_run = [WkTask]"
    and "check_drafts [WkTask] lost_run = lost_run"
    and "filing_scope lost_snap lost_filer (Some ''r'') = Some ''r''"
    and "check_scope (Some ''r'') [Some ''r''] (Some ''r'') lost_run = lost_run"
    and "supersede_pairs [lost_replaces, lost_blocks ''t''] = [(''u'', ''t'')]"
    and "check_supersedes [(''u'', ''t'')] (Some ''r'') lost_run = ([(''u'', ''t'')], lost_run)"
    and "filed_rows lost_run lost_refs [WkTask] ''uu'' lost_snap = lost_filed"
    and "supersede_in [(''u'', ''t'')] {''u''} {lost_replaces, lost_blocks ''t''} 5 (lost_filed, Effects_default)
      = (lost_graph, lost_effects)"
  by code_simp+

lemma lost_graph_steps:
  shows "check_cycles lost_graph {''u'', ''x''} lost_run = lost_run"
    and "check_depth lost_graph lost_run = lost_run"
    and "check_count lost_graph (Some ''r'') lost_run = lost_run"
    and "check_plan_b lost_graph {''u'', ''x''} lost_run = lost_run"
    and "check_onto_active [lost_replaces, lost_blocks ''t''] [Some ''r''] lost_run = ([], lost_run)"
    and "default_inputs lost_run lost_graph = lost_graph"
    and "check_inputs lost_graph lost_run = lost_run"
    and "cap_expiry lost_graph lost_run = (([], lost_graph), lost_run)"
  by code_simp+

lemma lost_work_steps:
  shows "check_dead lost_graph {''u'', ''x''} [] lost_run = lost_run"
    and "check_writers lost_graph (Some ''r'') lost_run = lost_run"
    and "check_rates [(''u'', ''t'')] (Some ''r'') lost_run = lost_run"
    and "approve lost_graph [''u''] [''u''] lost_filer = ([], [])"
    and "check_split lost_graph [] lost_run = ([], lost_run)"
  by code_simp+

lemma lost_fields:
  "rf_root lost_refs = Some ''r''" "rf_parents lost_refs = [Some ''r'']"
  "rf_edges lost_refs = [lost_replaces, lost_blocks ''t'']"
  "rf_run lost_refs = lost_run" "rn_fresh lost_run = [''u'']" "rn_ids lost_run = [''u'']" "rn_failed lost_run = []"
  "fc_now lost_filer = 5" "length (wp_items lost_plan) = 1" "demo_id 1 = ''uu''"
  by (simp_all add: lost_refs_def lost_run_def lost_filer_def FilingContext_new_def lost_plan_def demo_id_def)

lemma lost_hit: "{''u''} \<union> e_item ` {lost_replaces, lost_blocks ''t''} \<union> rp_item ` set (ef_repoints lost_effects) = {''u'', ''x''}"
  by (auto simp: lost_replaces_def lost_blocks_def lost_effects_def)

definition lost_examined :: Examined where
  "lost_examined = \<lparr>ex_plan_id = ''uu'', ex_root = Some ''r'', ex_effects = lost_effects, ex_hit = {''u'', ''x''},
     ex_valid_pairs = [(''u'', ''t'')], ex_graph = lost_graph, ex_work = lost_graph, ex_held = [],
     ex_triggers = [], ex_warnings = [], ex_run = lost_run\<rparr>"

lemma lost_examine: "examine demo_id lost_snap lost_plan lost_filer = lost_examined"
  unfolding examine_def lost_examined_def
  by (simp only: Let_def lost_steps lost_graph_steps lost_work_steps lost_fields lost_hit case_prod_conv append_Nil
      list.set(1) set_simps)

definition lost_accepted :: Accepted where
  "lost_accepted = accept demo_id lost_snap lost_plan lost_filer lost_examined ''r''"

lemma lost_validate: "validate demo_id lost_snap lost_plan lost_filer = VAccepted lost_accepted"
  by (simp add: validate_def Let_def lost_examine lost_accepted_def lost_examined_def lost_run_def)

lemma lost_inserted:
  shows "lost_blocks ''u'' \<in> set (sn_edges (ex_work lost_examined))"
    and "list_all (\<lambda>e. e_item e \<noteq> ''x'') (sn_edges (Snapshot_insert lost_snap lost_accepted 5))"
  by code_simp+

section \<open>Properties\<close>

text \<open>C29: an accepted filing can lose an edge. The validator accepts a filing that replaces \<open>t\<close> by \<open>u\<close> and makes the
  existing \<open>x\<close> block on \<open>t\<close>; on the graph it examined \<open>x\<close> blocks on \<open>u\<close>; but the accepted filing carries a
  re-point of an edge that was never stored and leaves the edge itself out, so after inserting it \<open>x\<close> waits for
  nothing (and in the store the re-point of a missing row fails).\<close>

theorem superseded_plan_edge_is_lost:
  "\<exists>a. validate demo_id lost_snap lost_plan lost_filer = VAccepted a
    \<and> \<lparr>e_item = ''x'', e_depends_on = ''u'', e_kind = EkBlocks\<rparr>
        \<in> set (sn_edges (ex_work (examine demo_id lost_snap lost_plan lost_filer)))
    \<and> \<not> (\<exists>e \<in> set (sn_edges (Snapshot_insert lost_snap a 5)). e_item e = ''x'')"
  using lost_validate lost_inserted by (auto simp: lost_examine lost_blocks_def list_all_iff)

end
