(* ===== verification/Liveness.thy ===== *)
theory Liveness
  imports CascadeLaws DepOrder
begin

text \<open>
  No deadlock: readiness (\<open>is_ready\<close>), the dependencies between items (\<open>depends\<close>) and the settling pass of
  a step are composed. On an acyclic graph whose open items nothing obstructs, some leaf can run.
\<close>

definition open_row :: "Snapshot \<Rightarrow> work_item_id \<Rightarrow> bool" where
  "open_row s k = (case snap_status s k of None \<Rightarrow> False | Some st \<Rightarrow> \<not> is_closed st)"

text \<open>
  What may keep one open item from moving, other than the order of the graph: a block, a question that
  holds it, a trigger still to fire, its expiry, an upstream that ended against it, a reference to a row the
  snapshot does not have, a closed parent, or a subtree that is all closed (the roll-up's business).
\<close>

definition unobstructed :: "Snapshot \<Rightarrow> timestamp \<Rightarrow> WorkItem \<Rightarrow> bool" where
  "unobstructed s now i =
     (wi_status i \<in> {Queued, Status.Ready, Leased, Running, Verifying} \<and> wi_held_by i = None
      \<and> trigger_fired s (wi_id i) now
      \<and> (case wi_expires_at i of None \<Rightarrow> True | Some t \<Rightarrow> now < t)
      \<and> es_hold (edge_summary s (wi_id i)) = None \<and> es_cancel (edge_summary s (wi_id i)) = None
      \<and> (\<forall>e \<in> set (edges_held_by s (wi_id i)). snap_contains s (e_depends_on e))
      \<and> (case wi_parent i of None \<Rightarrow> True | Some p \<Rightarrow> open_row s p)
      \<and> (has_children s (wi_id i) \<longrightarrow> list_ex (open_row s) (children s (wi_id i))))"

definition clear_graph :: "Snapshot \<Rightarrow> timestamp \<Rightarrow> bool" where
  "clear_graph s now = list_all (\<lambda>i. is_closed (wi_status i) \<or> unobstructed s now i) (sn_items s)"

lemma open_row_iff: "open_row s k \<longleftrightarrow> (\<exists>i. snap_item s k = Some i \<and> \<not> is_closed (wi_status i))"
  by (auto simp: open_row_def snap_status_def split: option.splits)

lemma clear_unobstructed:
  assumes "wf_snap s" and "clear_graph s now" and "open_row s k"
  shows "\<exists>i. snap_item s k = Some i \<and> wi_id i = k \<and> \<not> is_closed (wi_status i) \<and> unobstructed s now i"
  using assms snap.lookup_Some_iff[OF assms(1)] by (auto simp: open_row_iff clear_graph_def list_all_iff)

lemma open_ancestors:
  assumes "wf_snap s" and "clear_graph s now"
  shows "parent_chain s k ps \<Longrightarrow> open_row s k \<Longrightarrow> a \<in> set ps \<Longrightarrow> open_row s a"
proof (induction ps arbitrary: k)
  case (Cons p ps)
  from clear_unobstructed[OF assms Cons.prems(2)] Cons.prems(1) have "open_row s p"
    by (auto simp: unobstructed_def parent_of_def split: option.splits)
  then show ?case using Cons by auto
qed simp

text \<open>A settled edge: its upstream is closed and neither holds nor cancels the item behind it.\<close>

lemma verdict_closed:
  assumes "snap_item s (e_depends_on e) = Some up" and "is_closed (wi_status up)"
  shows "verdict s e \<noteq> VWaiting"
  using assms by (cases "e_kind e"; cases "wi_status up") (auto simp: verdict_def)

lemma unheld_edge: "es_hold (edge_summary s k) = None \<Longrightarrow> e \<in> set (edges_held_by s k) \<Longrightarrow> verdict s e \<noteq> VHold h"
  by (auto simp: edge_summary_def foldl_summary find_None_iff find_Some_iff split: option.splits Verdict.splits)

lemma uncancelled_edge: "es_cancel (edge_summary s k) = None \<Longrightarrow> e \<in> set (edges_held_by s k) \<Longrightarrow> verdict s e \<noteq> VCancel c"
  by (auto simp: edge_summary_def foldl_summary find_None_iff find_Some_iff split: option.splits Verdict.splits)

lemma unobstructed_edges:
  assumes "wf_snap s" and "unobstructed s now i" and "e \<in> set (sn_edges s)" and "e_item e = wi_id i"
  shows "snap_contains s (e_depends_on e)" and "\<And>h. verdict s e \<noteq> VHold h" and "\<And>c. verdict s e \<noteq> VCancel c"
proof -
  have e: "e \<in> set (edges_held_by s (wi_id i))" using snap.held_iff[OF assms(1)] assms(3,4) by blast
  then show "snap_contains s (e_depends_on e)" using assms(2) by (simp add: unobstructed_def)
  show "verdict s e \<noteq> VHold h" "verdict s e \<noteq> VCancel c" for h c
    using assms(2) e unheld_edge uncancelled_edge by (auto simp: unobstructed_def)
qed

text \<open>An open item that depends on no open item runs, or could.\<close>

lemma minimal_moves:
  assumes wf: "wf_snap s" and clear: "clear_graph s now" and k: "open_row s k"
    and least: "\<And>y. depends s False {} k y \<Longrightarrow> \<not> open_row s y"
  shows "\<not> has_children s k \<and> (is_ready s k now \<or> (\<exists>st \<in> {Leased, Running, Verifying}. snap_status s k = Some st))"
proof -
  obtain i where i: "snap_item s k = Some i" "wi_id i = k" "\<not> is_closed (wi_status i)" "unobstructed s now i"
    using clear_unobstructed[OF wf clear k] by blast
  have here: "snap_contains s k" using i(1) snap_contains_iff[OF wf] by simp
  have chain: "parent_chain s k (ancestors s k)" using ancestors_spec[of s k] by blast
  have anc: "\<exists>p. snap_item s a = Some p \<and> gate_open s p now" if a: "a \<in> set (k # ancestors s k)" for a
  proof -
    have "open_row s a" using a k open_ancestors[OF wf clear chain k] by auto
    then obtain p where p: "snap_item s a = Some p" "wi_id p = a" "\<not> is_closed (wi_status p)" "unobstructed s now p"
      using clear_unobstructed[OF wf clear] by blast
    have "verdict s e = VSatisfied" if e: "e \<in> set (sn_edges s)" "e_item e = a" for e
    proof (cases "is_ordering (e_kind e)")
      case True
      have e': "e_item e = wi_id p" using e(2) p(2) by simp
      note ue = unobstructed_edges[OF wf p(4) e(1) e']
      have "depends s False {} k (e_depends_on e)"
        using here ue(1) a e True by (auto simp: depends_def)
      then have "\<not> open_row s (e_depends_on e)" by (rule least)
      then have "verdict s e \<noteq> VWaiting"
        using ue(1) verdict_closed[of s e] snap_contains_iff[OF wf] by (auto simp: open_row_iff)
      then show ?thesis using ue(2,3) by (cases "verdict s e") auto
    qed (simp add: verdict_def)
    then have "gate_open s p now"
      using p by (simp add: gate_open_def unobstructed_def satisfied_iff[OF wf])
    then show ?thesis using p(1) by blast
  qed
  have leaf: "\<not> has_children s k"
  proof
    assume "has_children s k"
    then obtain c where c: "c \<in> set (children s k)" "open_row s c"
      using i by (auto simp: unobstructed_def list_ex_iff)
    have "parent_of s c = Some k" using c(1) kid_of_parent[OF wf] by (simp add: kid_of_def)
    then have "depends s False {} k c"
      using here c(2) snap_contains_iff[OF wf] by (auto simp: depends_def open_row_iff)
    then show False using least c(2) by blast
  qed
  note leaf
  moreover have "gate_open s i now" using anc[of k] i(1) by simp
  moreover have "case snap_item s a of None \<Rightarrow> False | Some p \<Rightarrow> gate_open s p now" if "a \<in> set (ancestors s k)" for a
    using anc[of a] that by auto
  ultimately have "wi_status i \<in> {Queued, Status.Ready} \<Longrightarrow> is_ready s k now"
    using i(1) by (simp add: is_ready_def list_all_iff)
  then show ?thesis using leaf i(1,4) by (auto simp: unobstructed_def snap_status_def)
qed

lemma finite_open: "wf_snap s \<Longrightarrow> finite {k. open_row s k}"
  by (rule finite_subset[of _ "wi_id ` set (sn_items s)"]) (auto simp: open_row_iff snap.lookup_Some_iff)

lemma clear_graph_moves:
  assumes wf: "wf_snap s" and clear: "clear_graph s now" and k: "open_row s k"
    and acyclic: "\<And>x. \<not> (depends s False {})\<^sup>+\<^sup>+ x x"
  shows "\<exists>m. \<not> has_children s m \<and> (is_ready s m now \<or> (\<exists>st \<in> {Leased, Running, Verifying}. snap_status s m = Some st))"
proof -
  let ?R = "{(y, x). open_row s x \<and> open_row s y \<and> depends s False {} x y}"
  have "finite ?R"
    by (rule finite_subset[of _ "{k. open_row s k} \<times> {k. open_row s k}"]) (auto simp: finite_open[OF wf])
  moreover have "acyclic ?R"
  proof -
    have "(depends s False {})\<^sup>+\<^sup>+ x y" if "(y, x) \<in> ?R\<^sup>+" for x y
      using that by (induction rule: trancl_induct) (auto intro: tranclp_into_tranclp2)
    then show ?thesis using acyclic by (auto simp: acyclic_def)
  qed
  ultimately have "wf ?R" by (rule finite_acyclic_wf)
  moreover have "k \<in> {k. open_row s k}" using k by simp
  ultimately obtain m where m: "m \<in> {k. open_row s k}" "\<And>y. (y, m) \<in> ?R \<Longrightarrow> y \<notin> {k. open_row s k}"
    by (rule wfE_min) blast
  then have "\<not> open_row s y" if "depends s False {} m y" for y
    using that by (cases "open_row s y") auto
  from minimal_moves[OF wf clear _ this] m(1) show ?thesis by blast
qed

lemma no_children_iff:
  assumes "wf_snap s"
  shows "\<not> has_children s m \<longleftrightarrow> (\<forall>i \<in> set (sn_items s). wi_parent i \<noteq> Some m)"
proof -
  have kid: "c \<in> set (children s m) \<longleftrightarrow> (\<exists>i. snap_item s c = Some i \<and> wi_parent i = Some m)" for c
    using kid_of_parent[OF assms, of m c] by (auto simp: kid_of_def parent_of_def bind_eq_Some_conv)
  have "(\<exists>c. c \<in> set (children s m)) \<longleftrightarrow> (\<exists>i \<in> set (sn_items s). wi_parent i = Some m)"
    unfolding kid snap.lookup_Some_iff[OF assms] by blast
  then show ?thesis by (cases "children s m") (auto simp: has_children_def)
qed

text \<open>C24: no deadlock. After a step has settled, if nothing outside the order of the graph obstructs an open
  item and no item waits for itself, then as long as any item is open some leaf (an item that no row names as
  its parent) is ready to be leased, or is already leased, running or verifying.\<close>

theorem open_work_moves:
  assumes "wf_snap s" "snap_status s item = Some old" "\<not> is_closed old"
    and "t = snap_apply s (step s item to now) now"
    and "clear_graph t now" "\<forall>x. \<not> (depends t False {})\<^sup>+\<^sup>+ x x" "open_row t k"
  shows "\<exists>m. (\<exists>st \<in> {Status.Ready, Leased, Running, Verifying}. snap_status t m = Some st)
    \<and> (\<forall>i \<in> set (sn_items t). wi_parent i \<noteq> Some m)"
proof -
  have wf: "wf_snap t" unfolding assms(4) using assms(1) by (rule wf_snap_apply)
  have settled: "readiness t now = []" unfolding assms(4) using step_settled[OF assms(1-3)] by blast
  obtain m where m: "\<not> has_children t m"
      "is_ready t m now \<or> (\<exists>st \<in> {Leased, Running, Verifying}. snap_status t m = Some st)"
    using clear_graph_moves[OF wf assms(5,7)] assms(6) by blast
  have "snap_status t m = Some Status.Ready" if "is_ready t m now"
  proof -
    obtain i where i: "snap_item t m = Some i" "wi_status i \<in> {Queued, Status.Ready}"
      using \<open>is_ready t m now\<close> by (auto simp: is_ready_def split: option.splits)
    moreover have "i \<in> set (sn_items t)" "wi_id i = m" using snap.lookup_Some_iff[OF wf] i(1) by blast+
    ultimately have "wi_status i = Queued \<Longrightarrow> m \<in> set (readiness t now)" using that by (auto simp: readiness_def)
    then show ?thesis using i settled by (auto simp: snap_status_def)
  qed
  moreover have "wi_parent i \<noteq> Some m" if "i \<in> set (sn_items t)" for i
    using that m(1) no_children_iff[OF wf, of m] by blast
  ultimately show ?thesis using m(2) by blast
qed

lemma open_work_moves_witness:
  "\<exists>m. (\<exists>st \<in> {Status.Ready, Leased, Running, Verifying}.
       snap_status (snap_apply demo (step demo ''a'' Done 7) 7) m = Some st)
     \<and> (\<forall>i \<in> set (sn_items (snap_apply demo (step demo ''a'' Done 7) 7)). wi_parent i \<noteq> Some m)"
proof -
  let ?t = "snap_apply demo (step demo ''a'' Done 7) 7"
  have wf: "wf_snap ?t" using wf_demo by (rule wf_snap_apply)
  have facts: "snap_status demo ''a'' = Some Running" "clear_graph ?t 7" "open_row ?t ''b''"
    by code_simp+
  have "list_all (\<lambda>i. wi_id i \<notin> set (reach (Arcs_build ?t False {}) (wi_id i))) (sn_items ?t)" by code_simp
  then have "\<not> (depends ?t False {})\<^sup>+\<^sup>+ x x" for x
    using depends_closure_rows(1)[OF wf, of False "{}" x x] by (auto simp: reach_closure[OF wf] list_all_length)
  then have "\<forall>x. \<not> (depends ?t False {})\<^sup>+\<^sup>+ x x" by blast
  from open_work_moves[OF wf_demo facts(1) _ refl facts(2) this facts(3)] show ?thesis by simp
qed

end
