(* ===== verification/Fingerprint.thy ===== *)
theory Fingerprint
  imports Gaps Judgment
begin

text \<open>
  Fingerprints and recurrence, \<^verbatim>\<open>rustykrab-control/src/errors/fingerprint.rs\<close>: the normal form of a message
  (\<open>normalise\<close>: quoted strings, URLs, paths, revision ranges, UUIDs, ids and numbers become
  placeholders), the fingerprint over it, and the counts that promote a failure. Characters are those below
  256; SHA-256 (printed in hexadecimal) is the parameter \<open>sha\<close>. Byte tests of the source on ASCII bytes are
  the same tests on characters, \<open>utf8_len\<close> where it asks for a length in bytes.

  The properties: no digit survives normalising, so the fingerprint does not depend on how numbers and ids are
  written, and the counts are the occurrences, capped.
\<close>

section \<open>Characters\<close>

definition is_ascii_alpha :: "char \<Rightarrow> bool" where
  "is_ascii_alpha c = (let n = (of_char c :: int) in (65 \<le> n \<and> n \<le> 90) \<or> (97 \<le> n \<and> n \<le> 122))"

definition is_ascii_hexdigit :: "char \<Rightarrow> bool" where
  "is_ascii_hexdigit c =
     (let n = (of_char c :: int) in (48 \<le> n \<and> n \<le> 57) \<or> (65 \<le> n \<and> n \<le> 70) \<or> (97 \<le> n \<and> n \<le> 102))"

definition is_ascii_alnum :: "char \<Rightarrow> bool" where
  "is_ascii_alnum c = (is_digit c \<or> is_ascii_alpha c)"

definition utf8_len :: "string \<Rightarrow> nat" where
  "utf8_len s = sum_list (map (\<lambda>c. if (of_char c :: int) < 128 then 1 else 2) s)"

text \<open>\<^verbatim>\<open>str::contains\<close> on a string.\<close>

fun contains_str :: "string \<Rightarrow> string \<Rightarrow> bool" where
  "contains_str [] pat = (pat = [])"
| "contains_str (c # cs) pat = (starts_with pat (c # cs) \<or> contains_str cs pat)"

definition trim_start_set :: "char list \<Rightarrow> string \<Rightarrow> string" where
  "trim_start_set cs s = dropWhile (\<lambda>c. c \<in> set cs) s"

definition trim_end_set :: "char list \<Rightarrow> string \<Rightarrow> string" where
  "trim_end_set cs s = rev (dropWhile (\<lambda>c. c \<in> set cs) (rev s))"

definition DQUOTE :: char where "DQUOTE = CHR 0x22"

definition BACKTICK :: char where "BACKTICK = CHR 0x60"

section \<open>Quoted strings\<close>

text \<open>The text after the quote that closes one opened with \<open>c\<close>, if it is closed.\<close>

fun close_quote :: "char \<Rightarrow> string \<Rightarrow> string option" where
  "close_quote c [] = None"
| "close_quote c (x # xs) =
     (if x = c \<and> (c \<noteq> APOSTROPHE \<or> (case xs of [] \<Rightarrow> True | n # _ \<Rightarrow> \<not> is_alphanumeric n))
      then Some xs else close_quote c xs)"

definition opens_quote :: "char option \<Rightarrow> char \<Rightarrow> bool" where
  \<comment> \<open>whether \<open>c\<close> opens a quote after the character \<open>prev\<close>\<close>
  "opens_quote prev c =
     (if c = DQUOTE \<or> c = BACKTICK then True
      else if c = APOSTROPHE then (case prev of None \<Rightarrow> True | Some p \<Rightarrow> \<not> is_alphanumeric p)
      else False)"

lemma close_quote_shorter: "close_quote c s = Some rest \<Longrightarrow> length rest < length s"
  by (induction s) (auto split: if_splits dest: less_SucI)

function replace_quoted_from :: "char option \<Rightarrow> string \<Rightarrow> string" where
  "replace_quoted_from prev [] = []"
| "replace_quoted_from prev (c # cs) =
     (case (if opens_quote prev c then close_quote c cs else None) of
        Some rest \<Rightarrow> ''<str>'' @ replace_quoted_from (Some c) rest
      | None \<Rightarrow> c # replace_quoted_from (Some c) cs)"
  by pat_completeness auto
termination
  by (relation "measure (length \<circ> snd)") (auto dest: close_quote_shorter less_SucI split: if_splits)

definition replace_quoted :: "string \<Rightarrow> string" where
  "replace_quoted s = replace_quoted_from None s"

section \<open>Words\<close>

definition LEADING_PUNCT :: "char list" where
  "LEADING_PUNCT = [CHR ''('', CHR ''['', CHR ''{'', CHR ''<'', DQUOTE, APOSTROPHE]"

definition TRAILING_PUNCT :: "char list" where
  "TRAILING_PUNCT = [CHR ''.'', CHR '','', CHR '';'', CHR '':'', CHR ''!'', CHR ''?'', CHR '')'', CHR '']'',
     CHR ''}'', CHR ''>'', DQUOTE, APOSTROPHE]"

definition is_short_revision :: "string \<Rightarrow> bool" where
  "is_short_revision rev1 = (length rev1 = 12 \<and> list_all is_ascii_hexdigit rev1)"

definition is_short_git_revision_range :: "string \<Rightarrow> bool" where
  "is_short_git_revision_range w =
     (case split_once ''..'' w of None \<Rightarrow> False | Some (base, head) \<Rightarrow> is_short_revision base \<and> is_short_revision head)"

definition is_path :: "string \<Rightarrow> bool" where
  "is_path w =
     (if utf8_len w < 2 then False
      else if starts_with ''/'' w \<or> starts_with ''~/'' w \<or> starts_with ''./'' w \<or> starts_with ''../'' w
              \<or> CHR 0x5C \<in> set w
              \<or> (case w of a # b # c # _ \<Rightarrow> is_ascii_alpha a \<and> b = CHR '':'' \<and> c = CHR ''/'' | _ \<Rightarrow> False)
      then True
      else
        let slashes = length (filter (\<lambda>c. c = CHR ''/'') w)
        in slashes \<ge> 2 \<or> (slashes = 1 \<and> CHR ''.'' \<in> set (last (split_on (\<lambda>c. c = CHR ''/'') w))))"

definition is_uuid_prefix :: "string \<Rightarrow> bool" where
  "is_uuid_prefix s =
     (36 \<le> length s
      \<and> list_all (\<lambda>i. if i \<in> {8, 13, 18, 23} then s ! i = CHR ''-'' else is_ascii_hexdigit (s ! i)) [0..<36]
      \<and> (case drop 36 s of [] \<Rightarrow> True | c # _ \<Rightarrow> \<not> is_ascii_alnum c))"

text \<open>The digits of a run as \<open><n>\<close>, one per stretch of digits.\<close>

fun replace_digits :: "bool \<Rightarrow> string \<Rightarrow> string" where
  "replace_digits in_number [] = []"
| "replace_digits in_number (c # cs) =
     (if is_digit c then (if in_number then [] else ''<n>'') @ replace_digits True cs
      else c # replace_digits False cs)"

definition replace_run :: "string \<Rightarrow> string" where
  "replace_run r =
     (let has_digit = list_ex is_digit r; has_alpha = list_ex is_ascii_alpha r; all_hex = list_all is_ascii_hexdigit r;
          hex_after_0x = (case strip_prefix ''0x'' r of None \<Rightarrow> False | Some h \<Rightarrow> h \<noteq> [] \<and> list_all is_ascii_hexdigit h)
      in if hex_after_0x \<or> (has_digit \<and> has_alpha \<and> ((all_hex \<and> 6 \<le> length r) \<or> 8 \<le> length r)) then ''<id>''
         else if \<not> has_digit then r
         else replace_digits False r)"

function replace_ids :: "string \<Rightarrow> string" where
  "replace_ids s =
     (case s of
        [] \<Rightarrow> []
      | c # cs \<Rightarrow>
          if is_uuid_prefix s then ''<uuid>'' @ replace_ids (drop 36 s)
          else
            let r = takeWhile is_ascii_alnum s
            in if r = [] then c # replace_ids cs else replace_run r @ replace_ids (drop (length r) s))"
  by pat_completeness auto
termination
  by (relation "measure length") (auto simp: Let_def)

declare replace_ids.simps [simp del]

definition normalise_word :: "string \<Rightarrow> string" where
  "normalise_word w =
     (if contains_str w ''<str>''
         \<and> rev (dropWhile (\<lambda>c. \<not> is_alphanumeric c) (rev (dropWhile (\<lambda>c. \<not> is_alphanumeric c) w))) = ''str''
      then w
      else
        let unled = trim_start_set LEADING_PUNCT w; lead = take (length w - length unled) w;
            core = trim_end_set TRAILING_PUNCT unled; trail = drop (length core) unled;
            replaced =
              (if contains_str core ''://'' then ''<url>''
               else if is_path core then ''<path>''
               else if is_short_git_revision_range core then ''<id>..<id>''
               else replace_ids core)
        in lead @ replaced @ trail)"

definition normalise :: "string \<Rightarrow> string" where
  "normalise message = join '' '' (map normalise_word (split_whitespace (replace_quoted (to_lowercase message))))"

section \<open>The fingerprint\<close>

definition FINGERPRINT_LEN :: nat where
  "FINGERPRINT_LEN = 16"

definition hashed_parts :: "ErrorClass \<Rightarrow> ErrorSubclass \<Rightarrow> string option \<Rightarrow> WorkerKind option \<Rightarrow> string \<Rightarrow> string" where
  \<comment> \<open>what the hasher is fed: the parts, each followed by the separator\<close>
  "hashed_parts class subclass tool worker_kind message =
     concat (map (\<lambda>part. part @ [CHR 0x1F])
       [ErrorClass_as_str class, ErrorSubclass_as_str subclass, (case tool of None \<Rightarrow> [] | Some t \<Rightarrow> t),
        (case worker_kind of None \<Rightarrow> [] | Some w \<Rightarrow> WorkerKind_as_str w), normalise message])"

definition fingerprint ::
  "(string \<Rightarrow> string) \<Rightarrow> ErrorClass \<Rightarrow> ErrorSubclass \<Rightarrow> string option \<Rightarrow> WorkerKind option \<Rightarrow> string \<Rightarrow> string" where
  "fingerprint sha class subclass tool worker_kind message =
     take FINGERPRINT_LEN (sha (hashed_parts class subclass tool worker_kind message))"

section \<open>Recurrence\<close>

record Recurrence =
  rc_counts :: "(string \<times> u32) list"
  rc_promote_threshold :: u32

definition saturating_add :: "u32 \<Rightarrow> u32 \<Rightarrow> u32" where
  "saturating_add a b = u32_of_usize (unat a + unat b)"

definition with_threshold :: "u32 \<Rightarrow> Recurrence" where
  "with_threshold t = \<lparr>rc_counts = [], rc_promote_threshold = t\<rparr>"

definition Recurrence_new :: Recurrence where
  "Recurrence_new = with_threshold DEFAULT_PROMOTE_THRESHOLD"

definition recurrence_count :: "Recurrence \<Rightarrow> string \<Rightarrow> u32" where
  "recurrence_count r fp = (case map_of (rc_counts r) fp of None \<Rightarrow> 0 | Some n \<Rightarrow> n)"

definition observe :: "Recurrence \<Rightarrow> string \<Rightarrow> u32 \<times> Recurrence" where
  "observe r fp =
     (let n = saturating_add (recurrence_count r fp) 1
      in (n, r\<lparr>rc_counts := AList.update fp n (rc_counts r)\<rparr>))"

definition promotes :: "Recurrence \<Rightarrow> string \<Rightarrow> bool" where
  "promotes r fp = (recurrence_count r fp \<ge> max (rc_promote_threshold r) 1)"

section \<open>No digit survives\<close>

text \<open>A character a normal form may keep: neither an ASCII digit nor an ASCII capital.\<close>

definition settled :: "char \<Rightarrow> bool" where
  "settled c = (\<not> is_digit c \<and> \<not> (let n = (of_char c :: int) in 65 \<le> n \<and> n \<le> 90))"

definition lowered :: "char \<Rightarrow> bool" where
  "lowered c = (\<not> (let n = (of_char c :: int) in 65 \<le> n \<and> n \<le> 90))"

lemma settled_lowered: "settled c \<longleftrightarrow> \<not> is_digit c \<and> lowered c"
  by (simp add: settled_def lowered_def)

lemma settled_placeholders:
  "list_all settled ''<str>''" "list_all settled ''<n>''" "list_all settled ''<id>''" "list_all settled ''<uuid>''"
  "list_all settled ''<url>''" "list_all settled ''<path>''" "list_all settled ''<id>..<id>''" "settled CHR '' ''"
  by code_simp+

lemma of_char_char_of: "n < 256 \<Longrightarrow> (of_char (char_of n :: char) :: int) = int n"
  by (simp add: of_char_int code_of_def)

lemma code_of_less: "code_of c < 256"
  by (simp add: code_of_def)

lemma lowered_lower: "lowered (lower c)"
proof -
  have "n + 32 < 256" if "n \<le> 90 \<or> n \<le> 222" for n :: nat using that by linarith
  then show ?thesis
    by (auto simp: lowered_def lower_def Let_def of_char_char_of of_char_int[of c])
qed

lemma lowered_message: "list_all lowered (to_lowercase s)"
  by (simp add: to_lowercase_def list_all_iff lowered_lower)

lemma close_quote_suffix: "close_quote c s = Some rest \<Longrightarrow> set rest \<subseteq> set s"
  by (induction s) (auto split: if_splits)

lemma replace_quoted_chars: "set (replace_quoted_from prev s) \<subseteq> set s \<union> set ''<str>''"
proof (induction prev s rule: replace_quoted_from.induct)
  case (2 prev c cs)
  show ?case
  proof (cases "if opens_quote prev c then close_quote c cs else None")
    case None
    then have "replace_quoted_from prev (c # cs) = c # replace_quoted_from (Some c) cs" by simp
    then show ?thesis using "2.IH"(1)[OF None] by auto
  next
    case (Some rest)
    then have "set rest \<subseteq> set cs" by (auto split: if_splits dest: close_quote_suffix)
    then show ?thesis using Some "2.IH"(2)[OF Some] by auto
  qed
qed simp

lemma split_on_chars: "w \<in> set (split_on p s) \<Longrightarrow> set w \<subseteq> set s"
proof (induction s arbitrary: w)
  case (Cons c cs)
  then show ?case by (cases "split_on p cs") (fastforce split: if_splits)+
qed simp

lemma join_chars: "set (join sep ws) \<subseteq> set sep \<union> (\<Union>w \<in> set ws. set w)"
  by (induction sep ws rule: join.induct) auto

lemma replace_digits_settled: "list_all lowered s \<Longrightarrow> list_all settled (replace_digits b s)"
  using settled_placeholders(2) by (induction b s rule: replace_digits.induct) (auto simp: settled_lowered)

lemma replace_run_settled: "list_all lowered r \<Longrightarrow> list_all settled (replace_run r)"
  using settled_placeholders(3) replace_digits_settled[of r]
  by (auto simp: replace_run_def Let_def list_all_iff list_ex_iff settled_lowered)

lemma list_all_drop: "list_all P s \<Longrightarrow> list_all P (drop n s)"
  by (auto simp: list_all_iff dest: in_set_dropD)

lemma replace_ids_settled: "list_all lowered s \<Longrightarrow> list_all settled (replace_ids s)"
proof (induction s rule: replace_ids.induct)
  case (1 s)
  show ?case
  proof (cases s)
    case Nil
    then show ?thesis by (simp add: replace_ids.simps)
  next
    case (Cons c cs)
    let ?r = "takeWhile is_ascii_alnum s"
    consider (uuid) "is_uuid_prefix s" | (single) "\<not> is_uuid_prefix s" "?r = []" | (run) "\<not> is_uuid_prefix s" "?r \<noteq> []"
      by blast
    then show ?thesis
    proof cases
      case uuid
      then have "list_all settled (replace_ids (drop 36 s))" using 1 Cons by (blast intro: list_all_drop)
      then show ?thesis using uuid Cons settled_placeholders(4) by (simp add: replace_ids.simps[of "c # cs"])
    next
      case single
      then have "\<not> is_ascii_alnum c" using Cons by (auto split: if_splits)
      then have "settled c" using "1.prems" Cons by (simp add: settled_lowered is_ascii_alnum_def)
      moreover have "list_all settled (replace_ids cs)" using "1.IH"(2)[OF Cons single(1) refl single(2)] "1.prems" Cons by simp
      ultimately show ?thesis using single Cons by (simp add: replace_ids.simps[of "c # cs"])
    next
      case run
      then have "list_all settled (replace_ids (drop (length ?r) s))"
        using "1.IH"(3)[OF Cons run(1) refl run(2)] "1.prems" by (blast intro: list_all_drop)
      moreover have "list_all settled (replace_run ?r)"
        using "1.prems" by (intro replace_run_settled) (auto simp: list_all_iff dest: set_takeWhileD)
      ultimately show ?thesis using run Cons by (simp add: replace_ids.simps[of "c # cs"] Let_def)
    qed
  qed
qed

lemma punctuation_settled: "c \<in> set LEADING_PUNCT \<union> set TRAILING_PUNCT \<Longrightarrow> settled c"
proof -
  have "list_all settled (LEADING_PUNCT @ TRAILING_PUNCT)" by code_simp
  then show "c \<in> set LEADING_PUNCT \<union> set TRAILING_PUNCT \<Longrightarrow> settled c" by (auto simp: list_all_iff)
qed

lemma take_dropWhile: "take (length s - length (dropWhile P s)) s = takeWhile P s"
  by (metis append_eq_conv_conj length_append takeWhile_dropWhile_id add_diff_cancel_right')

lemma trimmed_end:
  "s = trim_end_set cs s @ drop (length (trim_end_set cs s)) s" "set (drop (length (trim_end_set cs s)) s) \<subseteq> set cs"
proof -
  have "s = rev (dropWhile (\<lambda>c. c \<in> set cs) (rev s)) @ rev (takeWhile (\<lambda>c. c \<in> set cs) (rev s))"
    by (metis rev_append rev_rev_ident takeWhile_dropWhile_id)
  then have s: "s = trim_end_set cs s @ rev (takeWhile (\<lambda>c. c \<in> set cs) (rev s))" by (simp add: trim_end_set_def)
  then have "drop (length (trim_end_set cs s)) s = rev (takeWhile (\<lambda>c. c \<in> set cs) (rev s))"
    by (metis append_eq_conv_conj)
  then show "s = trim_end_set cs s @ drop (length (trim_end_set cs s)) s" "set (drop (length (trim_end_set cs s)) s) \<subseteq> set cs"
    using s by (auto dest: set_takeWhileD)
qed

lemma normalise_word_settled:
  assumes "list_all lowered w"
  shows "list_all settled (normalise_word w)"
proof (cases "contains_str w ''<str>''
    \<and> rev (dropWhile (\<lambda>c. \<not> is_alphanumeric c) (rev (dropWhile (\<lambda>c. \<not> is_alphanumeric c) w))) = ''str''")
  case True
  let ?P = "\<lambda>c. \<not> is_alphanumeric c"
  have sub: "set s \<subseteq> {c. ?P c} \<union> set (dropWhile ?P s)" for s
    by (metis Un_iff mem_Collect_eq set_append set_takeWhileD subsetI takeWhile_dropWhile_id)
  have "set w \<subseteq> {c. ?P c} \<union> set ''str''"
    using sub[of w] sub[of "rev (dropWhile ?P w)"] True by auto
  moreover have "is_digit c \<Longrightarrow> is_alphanumeric c" for c by (simp add: is_digit_def is_alphanumeric_def Let_def)
  ultimately have "\<not> is_digit c" if "c \<in> set w" for c
    using that settled_placeholders(1) by (auto simp: settled_lowered)
  then show ?thesis using True assms by (auto simp: normalise_word_def list_all_iff settled_lowered)
next
  case False
  define unled where "unled = trim_start_set LEADING_PUNCT w"
  define core where "core = trim_end_set TRAILING_PUNCT unled"
  let ?lead = "take (length w - length unled) w" and ?trail = "drop (length core) unled"
  define replaced where "replaced = (if contains_str core ''://'' then ''<url>'' else if is_path core then ''<path>''
     else if is_short_git_revision_range core then ''<id>..<id>'' else replace_ids core)"
  have w: "normalise_word w = ?lead @ replaced @ ?trail"
    unfolding normalise_word_def Let_def unled_def core_def replaced_def if_not_P[OF False] ..
  have lead: "?lead = takeWhile (\<lambda>c. c \<in> set LEADING_PUNCT) w"
    unfolding unled_def trim_start_set_def by (rule take_dropWhile)
  have "list_all settled ?lead"
    unfolding lead list_all_iff using punctuation_settled by (blast dest: set_takeWhileD)
  moreover have "list_all settled ?trail"
    using trimmed_end(2)[of TRAILING_PUNCT unled, folded core_def] punctuation_settled by (auto simp: list_all_iff)
  moreover have "set core \<subseteq> set w"
  proof -
    have "set core \<subseteq> set unled" using trimmed_end(1)[of unled TRAILING_PUNCT, folded core_def] by (metis Un_upper1 set_append)
    then show ?thesis by (auto simp: unled_def trim_start_set_def dest: set_dropWhileD)
  qed
  then have "list_all lowered core" using assms by (auto simp: list_all_iff)
  then have "list_all settled replaced"
    using settled_placeholders(5-7) replace_ids_settled by (simp add: replaced_def)
  ultimately show ?thesis unfolding w by simp
qed

lemma normalise_settled: "list_all settled (normalise message)"
proof -
  have chars: "list_all lowered w" if "w \<in> set (split_whitespace (replace_quoted (to_lowercase message)))" for w
  proof -
    have "set w \<subseteq> set (to_lowercase message) \<union> set ''<str>''"
      using that split_on_chars[of w] replace_quoted_chars[of None "to_lowercase message"]
      unfolding split_whitespace_def replace_quoted_def by fastforce
    then show ?thesis using lowered_message[of message] settled_placeholders(1)
      by (auto simp: list_all_iff settled_lowered)
  qed
  have "set (normalise message) \<subseteq> set '' '' \<union> (\<Union>w \<in> set (map normalise_word (split_whitespace (replace_quoted (to_lowercase message)))). set w)"
    unfolding normalise_def by (rule join_chars)
  moreover have "list_all settled (normalise_word w)" if "w \<in> set (split_whitespace (replace_quoted (to_lowercase message)))" for w
    using normalise_word_settled chars[OF that] by blast
  ultimately show ?thesis using settled_placeholders(8) by (fastforce simp: list_all_iff)
qed

section \<open>The spelling of a word that varies\<close>

definition plain :: "string \<Rightarrow> bool" where
  "plain s = (DQUOTE \<notin> set s \<and> BACKTICK \<notin> set s \<and> APOSTROPHE \<notin> set s)"

definition one_word :: "string \<Rightarrow> bool" where
  \<comment> \<open>one word without quotes, placeholders or punctuation around it\<close>
  "one_word w = (w \<noteq> [] \<and> plain w \<and> list_all (\<lambda>c. \<not> is_whitespace c) w \<and> CHR ''<'' \<notin> set w
     \<and> hd w \<notin> set LEADING_PUNCT \<and> last w \<notin> set TRAILING_PUNCT)"

definition number_word :: "string \<Rightarrow> bool" where
  "number_word w = (w \<noteq> [] \<and> list_all is_digit w)"

definition url_word :: "string \<Rightarrow> bool" where
  "url_word w = (one_word w \<and> contains_str w ''://'')"

definition path_word :: "string \<Rightarrow> bool" where
  "path_word w = (one_word w \<and> starts_with ''/'' w \<and> 2 \<le> length w \<and> \<not> contains_str w ''://'')"

lemma code_of_inj: "code_of c = code_of d \<longleftrightarrow> c = d"
  by (simp add: code_of_def)

lemma lower_cases:
  "lower c = c \<or> (97 \<le> code_of (lower c) \<and> code_of (lower c) \<le> 122) \<or> 224 \<le> code_of (lower c)"
  by (auto simp: lower_def Let_def code_of_def)

text \<open>Characters that are no letter: lowercasing makes and takes none of them.\<close>

definition uncased :: "char \<Rightarrow> bool" where
  "uncased d = (let n = (of_char d :: int) in n < 192 \<and> \<not> (97 \<le> n \<and> n \<le> 122) \<and> \<not> (65 \<le> n \<and> n \<le> 90))"

lemma lower_eq:
  assumes "uncased d"
  shows "lower c = d \<longleftrightarrow> c = d"
proof
  assume "lower c = d" then show "c = d" using lower_cases[of c] assms by (auto simp: uncased_def Let_def of_char_int)
next
  assume "c = d" then show "lower c = d" using assms by (auto simp: lower_def Let_def uncased_def of_char_int)
qed

lemma lower_image: "uncased d \<Longrightarrow> d \<in> lower ` S \<longleftrightarrow> d \<in> S"
  using lower_eq by (metis image_iff)

lemma uncased_signs: "uncased DQUOTE" "uncased BACKTICK" "uncased APOSTROPHE" "uncased CHR ''<''" "uncased CHR ''/''" "uncased CHR '':''"
  by code_simp+

lemmas lower_signs = uncased_signs[THEN lower_eq] uncased_signs[THEN lower_image]

lemma lower_member:
  assumes "list_all uncased P"
  shows "lower c \<in> set P \<longleftrightarrow> c \<in> set P"
proof
  assume l: "lower c \<in> set P"
  then have "uncased (lower c)" using assms by (simp only: list_all_iff)
  from lower_eq[OF this, of c] have "c = lower c" by simp
  then show "c \<in> set P" using l by metis
next
  assume c: "c \<in> set P"
  then have "uncased c" using assms by (simp only: list_all_iff)
  from lower_eq[OF this, of c] show "lower c \<in> set P" using c by simp
qed

lemma lower_punctuation:
  "lower c \<in> set LEADING_PUNCT \<longleftrightarrow> c \<in> set LEADING_PUNCT" "lower c \<in> set TRAILING_PUNCT \<longleftrightarrow> c \<in> set TRAILING_PUNCT"
proof -
  have "list_all uncased LEADING_PUNCT" "list_all uncased TRAILING_PUNCT" by code_simp+
  then show "lower c \<in> set LEADING_PUNCT \<longleftrightarrow> c \<in> set LEADING_PUNCT" "lower c \<in> set TRAILING_PUNCT \<longleftrightarrow> c \<in> set TRAILING_PUNCT"
    by (simp_all only: lower_member)
qed

lemma lower_whitespace: "is_whitespace (lower c) \<longleftrightarrow> is_whitespace c"
proof -
  have "is_whitespace d \<Longrightarrow> uncased d" for d
    by (auto simp: is_whitespace_def uncased_def of_char_int Let_def)
  then have unc: "is_whitespace d \<Longrightarrow> lower x = d \<Longrightarrow> x = d" "is_whitespace d \<Longrightarrow> lower d = d" for d x
    using lower_eq by blast+
  show ?thesis
  proof
    assume "is_whitespace (lower c)"
    then have "c = lower c" using unc(1) by blast
    with \<open>is_whitespace (lower c)\<close> show "is_whitespace c" by metis
  next
    assume "is_whitespace c" then show "is_whitespace (lower c)" by (simp only: unc(2))
  qed
qed

lemma lower_digit: "is_digit c \<Longrightarrow> lower c = c"
  by (auto simp: is_digit_def lower_def Let_def of_char_int)

lemma plain_unquoted: "plain s \<Longrightarrow> replace_quoted_from prev s = s"
  by (induction s arbitrary: prev) (auto simp: plain_def opens_quote_def)

lemma plain_lower: "plain (to_lowercase s) = plain s"
  by (auto simp: plain_def to_lowercase_def lower_signs)

lemma split_on_append: "p c \<Longrightarrow> split_on p (a @ c # b) = split_on p a @ split_on p b"
proof (induction a)
  case Nil
  have "split_on p b \<noteq> []" by (cases b) (auto split: list.splits)
  then show ?case using Nil by (auto split: list.splits)
next
  case (Cons x a)
  have "split_on p a \<noteq> []" by (cases a) (auto split: list.splits)
  then show ?case using Cons by (auto split: list.splits)
qed

lemma split_on_none: "list_all (\<lambda>c. \<not> p c) s \<Longrightarrow> split_on p s = [s]"
  by (induction s) auto

lemma split_word:
  assumes "w \<noteq> []" and "list_all (\<lambda>c. \<not> is_whitespace c) w"
  shows "split_whitespace (pre @ '' '' @ w @ '' '' @ post) = split_whitespace pre @ w # split_whitespace post"
proof -
  have "is_whitespace CHR '' ''" by code_simp
  then show ?thesis
    using assms split_on_append[of is_whitespace "CHR '' ''" pre "w @ '' '' @ post"] split_on_append[of is_whitespace "CHR '' ''" w post]
    by (simp add: split_whitespace_def split_on_none)
qed

lemma contains_chars: "contains_str s pat \<Longrightarrow> set pat \<subseteq> set s"
proof (induction s)
  case (Cons c cs)
  have "set pat \<subseteq> set (c # cs)" if "starts_with pat (c # cs)"
    using that set_take_subset[of "length pat" "c # cs"] by (simp add: starts_with_def)
  then show ?case using Cons by auto
qed simp

lemma starts_lower: "map lower pat = pat \<Longrightarrow> starts_with pat s \<Longrightarrow> starts_with pat (to_lowercase s)"
  by (simp add: starts_with_def to_lowercase_def take_map)

lemma contains_lower: "map lower pat = pat \<Longrightarrow> contains_str s pat \<Longrightarrow> contains_str (to_lowercase s) pat"
  using starts_lower by (induction s) (fastforce simp: to_lowercase_def)+

lemma starts_lower_url: "starts_with ''://'' (to_lowercase s) \<Longrightarrow> starts_with ''://'' s"
  by (cases s; cases "tl s"; cases "tl (tl s)") (auto simp: starts_with_def to_lowercase_def lower_signs)

lemma contains_lower_url: "contains_str (to_lowercase s) ''://'' \<Longrightarrow> contains_str s ''://''"
proof (induction s)
  case (Cons c cs)
  then show ?case using starts_lower_url[of "c # cs"] by (auto simp: to_lowercase_def)
qed (simp add: to_lowercase_def)

text \<open>A word with nothing to trim is its own core.\<close>

lemma untrimmed:
  assumes "w \<noteq> []" and "hd w \<notin> set LEADING_PUNCT" and "last w \<notin> set TRAILING_PUNCT" and "CHR ''<'' \<notin> set w"
  shows "normalise_word w = (if contains_str w ''://'' then ''<url>'' else if is_path w then ''<path>''
    else if is_short_git_revision_range w then ''<id>..<id>'' else replace_ids w)"
proof -
  have "\<not> contains_str w ''<str>''" using assms(4) contains_chars[of w "''<str>''"] by auto
  moreover have "trim_start_set LEADING_PUNCT w = w"
    using assms(1,2) by (cases w) (simp_all add: trim_start_set_def)
  moreover have "trim_end_set TRAILING_PUNCT w = w"
    using assms(1,3) by (cases w rule: rev_cases) (simp_all add: trim_end_set_def)
  ultimately show ?thesis by (simp add: normalise_word_def Let_def)
qed

lemma one_word_lower: "one_word w \<Longrightarrow> one_word (to_lowercase w)"
  by (simp add: one_word_def plain_lower) (simp add: to_lowercase_def list_all_iff hd_map last_map lower_whitespace lower_signs
      lower_punctuation)

lemma url_word_form: "url_word w \<Longrightarrow> normalise_word (to_lowercase w) = ''<url>''"
  using one_word_lower[of w] contains_lower[of "''://''" w]
  by (simp add: url_word_def one_word_def untrimmed lower_signs)

lemma path_word_form:
  assumes "path_word w"
  shows "normalise_word (to_lowercase w) = ''<path>''"
proof -
  have w: "one_word (to_lowercase w)" "starts_with ''/'' (to_lowercase w)" "\<not> contains_str (to_lowercase w) ''://''"
    using assms one_word_lower starts_lower[of "''/''" w] contains_lower_url[of w] by (auto simp: path_word_def lower_signs)
  have "length s \<le> utf8_len s" for s by (induction s) (auto simp: utf8_len_def)
  from this[of "to_lowercase w"] have "is_path (to_lowercase w)"
    using assms w(2) by (simp add: is_path_def path_word_def to_lowercase_def)
  then show ?thesis using w by (simp add: one_word_def untrimmed)
qed

lemma digit_alnum: "is_digit c \<Longrightarrow> is_ascii_alnum c" "is_digit c \<Longrightarrow> \<not> is_ascii_alpha c"
  by (auto simp: is_ascii_alnum_def is_ascii_alpha_def is_digit_def Let_def)

lemma replace_digits_number: "list_all is_digit w \<Longrightarrow> replace_digits True w = []"
  by (induction w) simp_all

lemma digit_codes: "is_digit c \<Longrightarrow> c \<in> set ''0123456789''"
proof -
  assume "is_digit c"
  then have "code_of c \<in> {48..57}" by (auto simp: is_digit_def of_char_int Let_def)
  then have "code_of c \<in> set [48..<58]" by (simp only: set_upt) auto
  moreover have "map char_of [48..<58] = ''0123456789''" by code_simp
  moreover have "c = char_of (code_of c)" by (simp add: code_of_def)
  ultimately show ?thesis by (metis image_eqI list.set_map)
qed

lemma replace_ids_run:
  assumes "s \<noteq> []" and "\<not> is_uuid_prefix s" and "takeWhile is_ascii_alnum s = s"
  shows "replace_ids s = replace_run s"
proof -
  obtain c cs where s: "s = c # cs" using assms(1) by (cases s) auto
  show ?thesis
    by (subst replace_ids.simps) (simp only: assms list.case s[symmetric] Let_def if_False,
      simp add: s replace_ids.simps[of "[]"])
qed

lemma number_word_form:
  assumes "number_word w"
  shows "normalise_word (to_lowercase w) = ''<n>''"
proof -
  have w: "w \<noteq> []" "list_all is_digit w" using assms by (simp_all add: number_word_def)
  have digits: "set w \<subseteq> set ''0123456789''" using w(2) digit_codes by (auto simp: list_all_iff)
  have low: "to_lowercase w = w" using w(2) lower_digit by (simp add: to_lowercase_def list_all_iff map_idI)
  have punct: "list_all (\<lambda>c. c \<notin> set LEADING_PUNCT \<and> c \<notin> set TRAILING_PUNCT \<and> c \<noteq> CHR ''<'') ''0123456789''" by code_simp
  have each: "c \<notin> set LEADING_PUNCT \<and> c \<notin> set TRAILING_PUNCT \<and> c \<noteq> CHR ''<''" if "c \<in> set w" for c
    by (rule bspec[OF punct[unfolded list_all_iff] subsetD[OF digits that]])
  then have "hd w \<notin> set LEADING_PUNCT" "last w \<notin> set TRAILING_PUNCT" "CHR ''<'' \<notin> set w"
    using hd_in_set[OF w(1)] last_in_set[OF w(1)] by blast+
  note core = untrimmed[OF w(1) this]
  have other: "CHR '':'' \<notin> set w" "CHR ''/'' \<notin> set w" "CHR ''~'' \<notin> set w" "CHR ''.'' \<notin> set w" "CHR 0x5C \<notin> set w" "CHR ''-'' \<notin> set w"
    using digits by auto
  have "\<not> contains_str w ''://''" using other contains_chars[of w "''://''"] by auto
  moreover have "\<not> is_path w"
  proof -
    have "filter (\<lambda>c. c = CHR ''/'') w = []" using other by (auto simp: filter_empty_conv)
    then show ?thesis using w other
      by (cases w) (auto simp: is_path_def starts_with_def digit_alnum split: list.splits)
  qed
  moreover have "\<not> is_short_git_revision_range w"
    using other split_once_sound[of "''..''" w] by (auto simp: is_short_git_revision_range_def split: option.splits)
  moreover have "replace_ids w = ''<n>''"
  proof -
    have "w ! 8 = CHR ''-'' \<and> 8 < length w" if "is_uuid_prefix w"
      using that by (auto simp: is_uuid_prefix_def list_all_iff dest: bspec[of _ _ 8])
    then have "\<not> is_uuid_prefix w" using other(6) nth_mem[of 8 w] by metis
    moreover have "takeWhile is_ascii_alnum w = w" using w(2) digit_alnum(1) by (auto simp: list_all_iff takeWhile_eq_all_conv)
    moreover have "replace_run w = ''<n>''"
    proof -
      have "strip_prefix ''0x'' w = None" using digits by (cases w; cases "tl w") (auto simp: strip_prefix_def starts_with_def)
      moreover have "\<not> list_ex is_ascii_alpha w" "list_ex is_digit w"
        using w digit_alnum(2) by (cases w; auto simp: list_all_iff list_ex_iff)+
      ultimately show ?thesis using w by (cases w) (simp_all add: replace_run_def Let_def replace_digits_number)
    qed
    ultimately show ?thesis using replace_ids_run[OF w(1)] by simp
  qed
  ultimately show ?thesis by (simp add: low core)
qed

lemma normalise_word_at:
  assumes "plain pre" "plain w" "plain post" "w \<noteq> []" "list_all (\<lambda>c. \<not> is_whitespace c) w"
  shows "normalise (pre @ '' '' @ w @ '' '' @ post)
    = join '' '' (map normalise_word (split_whitespace (to_lowercase pre)) @ normalise_word (to_lowercase w)
        # map normalise_word (split_whitespace (to_lowercase post)))"
proof -
  have space: "to_lowercase '' '' = '' ''" by code_simp
  have "plain (pre @ '' '' @ w @ '' '' @ post)"
    using assms by (auto simp: plain_def DQUOTE_def BACKTICK_def APOSTROPHE_def)
  then have quoted: "replace_quoted (to_lowercase (pre @ '' '' @ w @ '' '' @ post)) = to_lowercase (pre @ '' '' @ w @ '' '' @ post)"
    by (simp only: replace_quoted_def plain_unquoted plain_lower)
  also have "\<dots> = to_lowercase pre @ '' '' @ to_lowercase w @ '' '' @ to_lowercase post"
    using space by (simp add: to_lowercase_def)
  finally have "split_whitespace (replace_quoted (to_lowercase (pre @ '' '' @ w @ '' '' @ post)))
      = split_whitespace (to_lowercase pre) @ to_lowercase w # split_whitespace (to_lowercase post)"
    using assms split_word[of "to_lowercase w"] by (simp add: to_lowercase_def list_all_iff lower_whitespace)
  then show ?thesis by (simp add: normalise_def)
qed

lemma variable_word_plain: "number_word w \<or> url_word w \<or> path_word w \<Longrightarrow> plain w \<and> w \<noteq> [] \<and> list_all (\<lambda>c. \<not> is_whitespace c) w"
proof -
  have "list_all (\<lambda>c. c \<noteq> DQUOTE \<and> c \<noteq> BACKTICK \<and> c \<noteq> APOSTROPHE \<and> \<not> is_whitespace c) ''0123456789''" by code_simp
  then have "is_digit c \<Longrightarrow> c \<noteq> DQUOTE \<and> c \<noteq> BACKTICK \<and> c \<noteq> APOSTROPHE \<and> \<not> is_whitespace c" for c
    using digit_codes[of c] by (auto simp: list_all_iff simp del: set_simps)
  then show "number_word w \<or> url_word w \<or> path_word w \<Longrightarrow> plain w \<and> w \<noteq> [] \<and> list_all (\<lambda>c. \<not> is_whitespace c) w"
    by (auto simp: number_word_def url_word_def path_word_def one_word_def plain_def list_all_iff)
qed

section \<open>Counting\<close>

lemma observe_count: "recurrence_count (snd (observe r f)) g
    = (if g = f then saturating_add (recurrence_count r f) 1 else recurrence_count r g)"
  by (simp add: observe_def recurrence_count_def Let_def update_conv)

lemma unat_saturating_add: "unat (saturating_add a b) = min (unat a + unat b) u32_max"
  by (simp add: saturating_add_def unat_u32_of_usize)

lemma unat_at_most: "unat (w :: u32) \<le> u32_max"
  using unsigned_less[of w, where 'a = nat] by (simp add: u32_max_def)

lemma observed_counts: "unat (recurrence_count (foldl (\<lambda>r f. snd (observe r f)) r fps) f)
    = min (unat (recurrence_count r f) + count_list fps f) u32_max"
proof (induction fps arbitrary: r)
  case Nil
  then show ?case using unat_at_most[of "recurrence_count r f"] by simp
next
  case (Cons g fps)
  then show ?case by (auto simp: observe_count unat_saturating_add)
qed

section \<open>Properties\<close>

text \<open>The normal form of a message holds no ASCII digit and no ASCII capital, whatever the message is: line numbers,
  counts, timestamps and ids never reach the fingerprint.\<close>

theorem normal_form_has_no_digits:
  "list_all (\<lambda>c. \<not> is_digit c \<and> c \<notin> set ''ABCDEFGHIJKLMNOPQRSTUVWXYZ'') (normalise message)"
proof -
  have "list_all (\<lambda>c. \<not> settled c) ''ABCDEFGHIJKLMNOPQRSTUVWXYZ''" by code_simp
  then have "settled c \<Longrightarrow> \<not> is_digit c \<and> c \<notin> set ''ABCDEFGHIJKLMNOPQRSTUVWXYZ''" for c
    by (auto simp: list_all_iff settled_lowered simp del: set_simps)
  then show ?thesis using normalise_settled[of message] by (simp add: list_all_iff)
qed

text \<open>The fingerprint of a failure does not depend on how its variable parts are written: in a message without
  quotes, a number may be replaced by any number, a URL by any URL and an absolute path by any path.\<close>

theorem fingerprint_ignores_variable_words:
  assumes "plain pre" and "plain post"
    and "number_word u \<and> number_word v \<or> url_word u \<and> url_word v \<or> path_word u \<and> path_word v"
  shows "fingerprint sha class subclass tool worker (pre @ '' '' @ u @ '' '' @ post)
    = fingerprint sha class subclass tool worker (pre @ '' '' @ v @ '' '' @ post)"
proof -
  have "normalise_word (to_lowercase u) = normalise_word (to_lowercase v)"
    using assms(3) number_word_form url_word_form path_word_form by metis
  then have "normalise (pre @ '' '' @ u @ '' '' @ post) = normalise (pre @ '' '' @ v @ '' '' @ post)"
    using assms normalise_word_at[OF assms(1) _ assms(2), of u] normalise_word_at[OF assms(1) _ assms(2), of v]
      variable_word_plain[of u] variable_word_plain[of v] by argo
  then show ?thesis by (simp add: fingerprint_def hashed_parts_def)
qed

lemma fingerprint_ignores_variable_words_witness:
  "fingerprint id EcTool EsNotFound None None ''open /tmp/a17.log failed''
    = fingerprint id EcTool EsNotFound None None ''open /var/x failed''"
proof -
  have "plain ''open''" "plain ''failed''" "path_word ''/tmp/a17.log''" "path_word ''/var/x''" by code_simp+
  from fingerprint_ignores_variable_words[OF this(1,2), of "''/tmp/a17.log''" "''/var/x''"] this(3,4) show ?thesis by simp
qed

text \<open>the recurrence counts refine the number of occurrences: after any sequence of observed fingerprints the count
  of one is how often it occurred, capped at the largest 32-bit number, and it is promoted exactly when it
  occurred at least the threshold's number of times, and at least once.\<close>

theorem recurrence_counts_occurrences:
  defines "after t fps \<equiv> foldl (\<lambda>r f. snd (observe r f)) (with_threshold t) fps"
  shows "unat (recurrence_count (after t fps) f) = min (count_list fps f) u32_max
    \<and> (promotes (after t fps) f \<longleftrightarrow> max 1 (unat t) \<le> count_list fps f)"
proof -
  have c: "unat (recurrence_count (after t fps) f) = min (count_list fps f) u32_max"
    by (simp add: after_def observed_counts) (simp add: recurrence_count_def with_threshold_def)
  have "rc_promote_threshold (foldl (\<lambda>r f. snd (observe r f)) r fps) = rc_promote_threshold r" for r
    by (induction fps arbitrary: r) (simp_all add: observe_def Let_def)
  then have t: "rc_promote_threshold (after t fps) = t" by (simp add: after_def with_threshold_def)
  have "unat (max t 1) = max 1 (unat t)" by (simp add: max_def word_le_nat_alt)
  moreover have "unat t \<le> u32_max" by (rule unat_at_most)
  ultimately show ?thesis using c t by (auto simp: promotes_def word_le_nat_alt u32_max_def)
qed

end
