(* ===== verification/Classify.thy ===== *)
theory Classify
  imports Fingerprint
begin

text \<open>
  The deterministic classifier: the core error (\<^verbatim>\<open>rustykrab-core/src/error.rs\<close>), the message rule table
  (\<^verbatim>\<open>rustykrab-control/src/errors/rules.rs\<close>), the inputs (\<open>FailureInput\<close>, \<^verbatim>\<open>errors/mod.rs\<close>), the
  classifier over them (\<^verbatim>\<open>errors/classify.rs\<close>) and the rules \<open>internal\<close> items land at run time
  (\<^verbatim>\<open>errors/learned.rs\<close>). The text of a JSON error is the argument of its constructor.
\<close>

section \<open>Core errors\<close>

datatype ToolErrorKind =
    TkInvalidInput | TkNotFound | TkPermissionDenied | TkTimeout | TkRateLimited | TkTransient | TkInternal

fun ToolErrorKind_as_str :: "ToolErrorKind \<Rightarrow> string" where
  "ToolErrorKind_as_str TkInvalidInput = ''invalid_input''"
| "ToolErrorKind_as_str TkNotFound = ''not_found''"
| "ToolErrorKind_as_str TkPermissionDenied = ''permission_denied''"
| "ToolErrorKind_as_str TkTimeout = ''timeout''"
| "ToolErrorKind_as_str TkRateLimited = ''rate_limited''"
| "ToolErrorKind_as_str TkTransient = ''transient''"
| "ToolErrorKind_as_str TkInternal = ''internal''"

definition retryable :: "ToolErrorKind \<Rightarrow> bool" where
  "retryable kind = (kind = TkRateLimited \<or> kind = TkTransient)"

record ToolError =
  te_kind :: ToolErrorKind
  te_message :: string

datatype Error =
    ErModelProvider string | ErModelEmptyResponse string | ErModelRateLimit string | ErModelAuthError string
  | ErModelBadRequest string | ErModelMalformedOutput string | ErContextBudgetExceeded nat nat
  | ErModelOverloaded string | ErContentPolicy | ErToolExecution ToolError | ErConfig string | ErStorage string
  | ErSerialization string | ErChannel string | ErAuth string | ErNotFound string | ErAlreadyExists string
  | ErPendingApproval string string | ErLockWaiting string | ErInternal string

fun Error_to_string :: "Error \<Rightarrow> string" where
  "Error_to_string (ErModelProvider m) = ''model provider error: '' @ m"
| "Error_to_string (ErModelEmptyResponse m) = ''model provider error: '' @ m"
| "Error_to_string (ErModelRateLimit m) = ''model provider rate limited: '' @ m"
| "Error_to_string (ErModelAuthError m) = ''model provider authentication failed: '' @ m"
| "Error_to_string (ErModelBadRequest m) = ''model provider bad request: '' @ m"
| "Error_to_string (ErModelMalformedOutput m) = ''model reply could not be parsed: '' @ m"
| "Error_to_string (ErContextBudgetExceeded needed available) =
     ''model input requires approximately '' @ nat_digits needed @ '' tokens but only '' @ nat_digits available
       @ '' are available; compact history or reduce the active tool schemas''"
| "Error_to_string (ErModelOverloaded m) = ''model provider overloaded: '' @ m"
| "Error_to_string ErContentPolicy = ''model refused to respond due to content policy''"
| "Error_to_string (ErToolExecution te) = ''tool execution error: '' @ te_message te"
| "Error_to_string (ErConfig m) = ''configuration error: '' @ m"
| "Error_to_string (ErStorage m) = ''storage error: '' @ m"
| "Error_to_string (ErSerialization m) = ''serialization error: '' @ m"
| "Error_to_string (ErChannel m) = ''channel error: '' @ m"
| "Error_to_string (ErAuth m) = ''authentication error: '' @ m"
| "Error_to_string (ErNotFound m) = ''not found: '' @ m"
| "Error_to_string (ErAlreadyExists m) = ''already exists: '' @ m"
| "Error_to_string (ErPendingApproval request_id name) =
     ''change to '' @ [APOSTROPHE] @ name @ [APOSTROPHE] @ '' needs your approval (request '' @ request_id @ '')''"
| "Error_to_string (ErLockWaiting m) = ''lock waiting: '' @ m"
| "Error_to_string (ErInternal m) = m"

fun Error_kind :: "Error \<Rightarrow> ToolErrorKind" where
  "Error_kind (ErToolExecution te) = te_kind te"
| "Error_kind (ErModelRateLimit _) = TkRateLimited"
| "Error_kind (ErModelOverloaded _) = TkRateLimited"
| "Error_kind (ErModelAuthError _) = TkPermissionDenied"
| "Error_kind (ErAuth _) = TkPermissionDenied"
| "Error_kind (ErModelBadRequest _) = TkInvalidInput"
| "Error_kind (ErModelMalformedOutput _) = TkInvalidInput"
| "Error_kind (ErContextBudgetExceeded _ _) = TkInvalidInput"
| "Error_kind (ErNotFound _) = TkNotFound"
| "Error_kind (ErAlreadyExists _) = TkInvalidInput"
| "Error_kind (ErPendingApproval _ _) = TkPermissionDenied"
| "Error_kind (ErModelProvider _) = TkTransient"
| "Error_kind (ErModelEmptyResponse _) = TkTransient"
| "Error_kind (ErChannel _) = TkTransient"
| "Error_kind (ErLockWaiting _) = TkTransient"
| "Error_kind (ErConfig _) = TkInternal"
| "Error_kind (ErStorage _) = TkInternal"
| "Error_kind (ErSerialization _) = TkInternal"
| "Error_kind ErContentPolicy = TkInternal"
| "Error_kind (ErInternal _) = TkInternal"

section \<open>Message rules\<close>

record MessageRule =
  mr_name :: string
  mr_subclass :: ErrorSubclass
  mr_gap :: "GapKind option"
  mr_patterns :: "string list"

definition STATUS_CONTEXT :: "string list" where
  "STATUS_CONTEXT = [''http'', ''status'', ''response'']"

text \<open>A match of \<open>number\<close> that no letter or digit touches. Matches do not overlap: the search goes on after one.\<close>

function number_at :: "char option \<Rightarrow> string \<Rightarrow> string \<Rightarrow> bool" where
  "number_at prev hay number =
     (case hay of
        [] \<Rightarrow> False
      | c # cs \<Rightarrow>
          if number \<noteq> [] \<and> starts_with number hay
          then (let rest = drop (length number) hay in
                (\<not> (case prev of None \<Rightarrow> False | Some b \<Rightarrow> is_ascii_alnum b)
                 \<and> \<not> (case rest of [] \<Rightarrow> False | d # _ \<Rightarrow> is_ascii_alnum d))
                \<or> number_at (Some (last number)) rest number)
          else number_at (Some c) cs number)"
  by pat_completeness auto
termination
  by (relation "measure (\<lambda>(prev, hay, number). length hay)") (auto simp: starts_with_def)

declare number_at.simps [simp del]

definition contains_number :: "string \<Rightarrow> string \<Rightarrow> bool" where
  "contains_number hay number = number_at None hay number"

definition pattern_matches :: "string \<Rightarrow> string \<Rightarrow> bool" where
  "pattern_matches hay pat =
     (if pat \<noteq> [] \<and> list_all is_digit pat
      then list_ex (contains_str hay) STATUS_CONTEXT \<and> contains_number hay pat
      else contains_str hay pat)"

definition rule_matches :: "MessageRule \<Rightarrow> string \<Rightarrow> bool" where
  "rule_matches r text1 = list_ex (pattern_matches text1) (mr_patterns r)"

definition mk_rule :: "string \<Rightarrow> ErrorSubclass \<Rightarrow> GapKind option \<Rightarrow> string list \<Rightarrow> MessageRule" where
  "mk_rule name subclass gap patterns =
     \<lparr>mr_name = name, mr_subclass = subclass, mr_gap = gap, mr_patterns = patterns\<rparr>"

definition MESSAGE_RULES :: "MessageRule list" where
  "MESSAGE_RULES =
    [mk_rule ''hallucinated_tool'' EsHallucinatedTool None
       [''unknown tool'', ''no such tool'', ''tool not found'', ''not a registered tool'', ''no tool named''],
     mk_rule ''consent'' EsConsent (Some GkConsent)
       [''needs your approval'', ''requires approval'', ''pending approval'', ''awaiting approval'',
        ''consent required'', ''requires consent''],
     mk_rule ''credential'' EsCredential (Some GkCredential)
       [''401'', ''unauthorized'', ''unauthenticated'', ''not authenticated'', ''authentication failed'',
        ''authentication required'', ''invalid api key'', ''missing api key'', ''no api key'', ''api key not'',
        ''invalid token'', ''token expired'', ''expired token'', ''token has expired'', ''missing credential'',
        ''no credential'', ''credential not found'', ''invalid credentials'', ''login required'', ''not logged in''],
     mk_rule ''tool_unavailable'' EsToolGap (Some GkTool)
       [''not configured'', ''tool is not loaded'', ''tool not loaded'', ''server is not connected'',
        ''mcp server unavailable''],
     mk_rule ''capacity'' EsCompute (Some GkCapacity)
       [''context length'', ''context window'', ''maximum context'', ''too many tokens'', ''prompt is too long'',
        ''out of memory'', ''cannot allocate memory'', ''enomem''],
     mk_rule ''disk'' EsDisk None
       [''no space left'', ''enospc'', ''disk full'', ''disk quota'', ''edquot'', ''read-only file system'', ''erofs''],
     mk_rule ''dependency'' EsDependency (Some GkInstall)
       [''command not found'', ''not installed'', ''no module named'', ''cannot find module'', ''module not found'',
        ''modulenotfounderror'', ''library not loaded'', ''cannot open shared object'', ''executable file not found'',
        ''missing dependency''],
     mk_rule ''rate_limit'' EsUpstreamError None
       [''429'', ''529'', ''rate limit'', ''rate-limit'', ''ratelimit'', ''too many requests'', ''quota exceeded'',
        ''overloaded''],
     mk_rule ''upstream_5xx'' EsUpstreamError None
       [''500'', ''502'', ''503'', ''504'', ''internal server error'', ''bad gateway'', ''service unavailable'',
        ''gateway timeout'', ''temporarily unavailable''],
     mk_rule ''timeout'' EsTimeout None
       [''timed out'', ''timeout'', ''deadline exceeded'', ''etimedout''],
     mk_rule ''network'' EsNetwork None
       [''connection refused'', ''econnrefused'', ''connection reset'', ''econnreset'', ''connection aborted'',
        ''connection closed'', ''broken pipe'', ''network is unreachable'', ''enetunreach'', ''no route to host'',
        ''ehostunreach'', ''name resolution'', ''could not resolve host'', ''failed to lookup address'',
        ''getaddrinfo'', ''dns error'', ''tls handshake'', ''network error''],
     mk_rule ''permission'' EsPermission None
       [''403'', ''permission denied'', ''eacces'', ''eperm'', ''operation not permitted'', ''forbidden'',
        ''access denied'', ''access is denied''],
     mk_rule ''invalid_args'' EsInvalidArgs None
       [''400'', ''invalid json'', ''json parse'', ''expected value at line'', ''eof while parsing'',
        ''unexpected end of json'', ''failed to parse'', ''missing field'', ''unknown field'', ''invalid type:'',
        ''invalid argument'', ''invalid input'', ''bad request'', ''einval''],
     mk_rule ''not_found'' EsNotFound None
       [''404'', ''enoent'', ''no such file'', ''not found'', ''does not exist''],
     mk_rule ''refusal'' EsRefusal None
       [''content policy'', ''refused to respond'', ''i can'' @ [APOSTROPHE] @ ''t help with'',
        ''i cannot help with'', ''i can'' @ [APOSTROPHE] @ ''t assist'', ''i cannot assist''],
     mk_rule ''loop'' EsLoop None
       [''loop detected'', ''stuck in a loop'', ''repeated the same tool call''],
     mk_rule ''empty'' EsEmpty None
       [''empty response'', ''empty completion'', ''no content returned''],
     mk_rule ''process'' EsProcess None
       [''segmentation fault'', ''sigsegv'', ''panicked at'', ''core dumped'', ''killed by signal'', ''abort trap'',
        ''exit status'', ''exited with'', ''non-zero exit'']]"

definition first_match :: "MessageRule list \<Rightarrow> string \<Rightarrow> (ErrorSubclass \<Rightarrow> bool) \<Rightarrow> MessageRule option" where
  "first_match rules message allowed =
     (let text1 = to_lowercase message in find (\<lambda>r. allowed (mr_subclass r) \<and> rule_matches r text1) rules)"

section \<open>Inputs\<close>

definition UNCLASSIFIED :: string where
  "UNCLASSIFIED = ''unclassified''"

datatype FailureInput =
    FiToolResult string ToolErrorKind string
  | FiProvider ProviderProblem string
  | FiProcessExit "int option" string
  | FiVerifier VerifierVerdict string
  | FiPolicy PolicyStop string
  | FiBudgetExhausted BudgetKind string
  | FiCapabilityGap GapKind string
  | FiRaw string

fun from_core_error :: "string option \<Rightarrow> Error \<Rightarrow> FailureInput" where
  "from_core_error tool (ErToolExecution te) =
     FiToolResult (case tool of None \<Rightarrow> [] | Some t \<Rightarrow> t) (te_kind te) (te_message te)"
| "from_core_error tool (ErModelEmptyResponse m) = FiProvider PpEmpty m"
| "from_core_error tool (ErModelMalformedOutput m) = FiProvider PpFormat m"
| "from_core_error tool ErContentPolicy = FiProvider PpRefusal (Error_to_string ErContentPolicy)"
| "from_core_error tool (ErModelRateLimit m) = FiProvider PpUnavailable m"
| "from_core_error tool (ErModelOverloaded m) = FiProvider PpUnavailable m"
| "from_core_error tool (ErContextBudgetExceeded needed available) =
     FiCapabilityGap GkCapacity (''context window: '' @ nat_digits needed @ '' tokens needed, ''
       @ nat_digits available @ '' available'')"
| "from_core_error tool (ErPendingApproval request_id name) = FiCapabilityGap GkConsent name"
| "from_core_error tool err =
     FiToolResult (case tool of None \<Rightarrow> [] | Some t \<Rightarrow> t) (Error_kind err) (Error_to_string err)"

record Context =
  cx_tool :: "string option"
  cx_worker_kind :: "WorkerKind option"

definition Context_default :: Context where
  "Context_default = \<lparr>cx_tool = None, cx_worker_kind = None\<rparr>"

section \<open>The classifier\<close>

definition DETAIL_MAX_CHARS :: nat where
  "DETAIL_MAX_CHARS = 500"

definition clip :: "string \<Rightarrow> string" where
  "clip s = (if DETAIL_MAX_CHARS < length s then take DETAIL_MAX_CHARS s @ ''...'' else s)"

definition labelled :: "string \<Rightarrow> string \<Rightarrow> string" where
  "labelled label txt = (let t = trim txt in if t = [] then label else label @ '': '' @ t)"

record Found =
  fo_subclass :: ErrorSubclass
  fo_gap :: "GapKind option"
  fo_observed_by :: string
  fo_detail :: string
  fo_message :: string
  fo_tool :: "string option"

type_synonym found_verdict = "ErrorSubclass \<times> GapKind option \<times> string"

definition by_rule :: "MessageRule list \<Rightarrow> string \<Rightarrow> (ErrorSubclass \<Rightarrow> bool) \<Rightarrow> found_verdict option" where
  "by_rule rules message allowed =
     map_option (\<lambda>r. (mr_subclass r, mr_gap r, ''rule:'' @ mr_name r)) (first_match rules message allowed)"

text \<open>The subclasses a message may refine a typed tool error to.\<close>

fun refines :: "ToolErrorKind \<Rightarrow> ErrorSubclass \<Rightarrow> bool" where
  "refines TkInvalidInput s = (s = EsHallucinatedTool \<or> s = EsCompute)"
| "refines TkNotFound s = (s = EsHallucinatedTool \<or> s = EsDependency \<or> s = EsToolGap)"
| "refines TkPermissionDenied s = (s = EsCredential \<or> s = EsConsent \<or> s = EsDisk)"
| "refines TkTransient s = (s = EsNetwork \<or> s = EsDisk \<or> s = EsTimeout \<or> s = EsUpstreamError)"
| "refines TkInternal s = True"
| "refines TkTimeout s = False"
| "refines TkRateLimited s = False"

definition unclassified :: found_verdict where
  "unclassified = (EsUnclassified, None, UNCLASSIFIED)"

fun tool_result :: "MessageRule list \<Rightarrow> ToolErrorKind \<Rightarrow> string \<Rightarrow> found_verdict" where
  "tool_result rules TkTimeout message = (EsTimeout, None, ''tool_result:'' @ ToolErrorKind_as_str TkTimeout)"
| "tool_result rules TkRateLimited message =
     (EsUpstreamError, None, ''tool_result:'' @ ToolErrorKind_as_str TkRateLimited)"
| "tool_result rules TkInvalidInput message =
     (case by_rule rules message (refines TkInvalidInput) of Some v \<Rightarrow> v
      | None \<Rightarrow> (EsInvalidArgs, None, ''tool_result:'' @ ToolErrorKind_as_str TkInvalidInput))"
| "tool_result rules TkNotFound message =
     (case by_rule rules message (refines TkNotFound) of Some v \<Rightarrow> v
      | None \<Rightarrow> (EsNotFound, None, ''tool_result:'' @ ToolErrorKind_as_str TkNotFound))"
| "tool_result rules TkPermissionDenied message =
     (case by_rule rules message (refines TkPermissionDenied) of Some v \<Rightarrow> v
      | None \<Rightarrow> (EsPermission, None, ''tool_result:'' @ ToolErrorKind_as_str TkPermissionDenied))"
| "tool_result rules TkTransient message =
     (case by_rule rules message (refines TkTransient) of Some v \<Rightarrow> v
      | None \<Rightarrow> (EsUpstreamError, None, ''tool_result:'' @ ToolErrorKind_as_str TkTransient))"
| "tool_result rules TkInternal message =
     (case by_rule rules message (refines TkInternal) of Some v \<Rightarrow> v | None \<Rightarrow> unclassified)"

definition int_digits :: "int \<Rightarrow> string" where
  "int_digits n = (if n < 0 then ''-'' @ nat_digits (nat (- n)) else nat_digits (nat n))"

definition process_exit :: "MessageRule list \<Rightarrow> int option \<Rightarrow> string \<Rightarrow> found_verdict" where
  "process_exit rules code stderr =
     (if code = Some 127 then (EsDependency, Some GkInstall, ''exit_code:'' @ int_digits 127)
      else if code = Some 126 then (EsPermission, None, ''exit_code:'' @ int_digits 126)
      else if code = Some 124 then (EsTimeout, None, ''exit_code:'' @ int_digits 124)
      else case by_rule rules stderr (\<lambda>_. True) of
        Some v \<Rightarrow> v
      | None \<Rightarrow> if code = Some 0 then unclassified else (EsProcess, None, ''exit_code''))"

definition mk_found :: "found_verdict \<Rightarrow> string \<Rightarrow> string \<Rightarrow> string option \<Rightarrow> Found" where
  "mk_found v detail message tool =
     \<lparr>fo_subclass = fst v, fo_gap = fst (snd v), fo_observed_by = snd (snd v), fo_detail = detail,
      fo_message = message, fo_tool = tool\<rparr>"

definition provider_label :: "ProviderProblem \<Rightarrow> string" where
  "provider_label problem =
     (if problem = PpUnavailable then ''unavailable'' else ErrorSubclass_as_str (ProviderProblem_subclass problem))"

fun classify_observe :: "MessageRule list \<Rightarrow> FailureInput \<Rightarrow> Context \<Rightarrow> Found" where
  "classify_observe rules (FiToolResult tool kind message) ctx =
     (let t = (if tool \<noteq> [] then Some tool else cx_tool ctx)
      in mk_found (tool_result rules kind message)
           (case t of Some x \<Rightarrow> labelled x message | None \<Rightarrow> message) message t)"
| "classify_observe rules (FiProvider problem detail) ctx =
     mk_found (ProviderProblem_subclass problem, None, ''provider'')
       (labelled (''provider '' @ provider_label problem) detail) detail (cx_tool ctx)"
| "classify_observe rules (FiProcessExit code stderr_tail) ctx =
     mk_found (process_exit rules code stderr_tail)
       (case code of Some c \<Rightarrow> labelled (''exit '' @ int_digits c) stderr_tail
        | None \<Rightarrow> labelled ''killed by signal'' stderr_tail) stderr_tail (cx_tool ctx)"
| "classify_observe rules (FiVerifier verdict detail) ctx =
     mk_found (VerifierVerdict_subclass verdict, None, ''verifier'')
       (labelled (ErrorSubclass_as_str (VerifierVerdict_subclass verdict)) detail) detail (cx_tool ctx)"
| "classify_observe rules (FiPolicy stop detail) ctx =
     mk_found (PolicyStop_subclass stop, None, ''policy'')
       (labelled (''policy '' @ ErrorSubclass_as_str (PolicyStop_subclass stop)) detail) detail (cx_tool ctx)"
| "classify_observe rules (FiBudgetExhausted budget detail) ctx =
     mk_found (BudgetKind_subclass budget, None, ''budget'')
       (labelled (ErrorSubclass_as_str (BudgetKind_subclass budget) @ '' budget spent'') detail) detail (cx_tool ctx)"
| "classify_observe rules (FiCapabilityGap gap name) ctx =
     mk_found (GapKind_subclass gap, Some gap, ''capability_check'') name (gap_detail gap name) (cx_tool ctx)"
| "classify_observe rules (FiRaw message) ctx =
     mk_found (case by_rule rules message (\<lambda>_. True) of Some v \<Rightarrow> v | None \<Rightarrow> unclassified)
       message message (cx_tool ctx)"

definition classify_with :: "(string \<Rightarrow> string) \<Rightarrow> MessageRule list \<Rightarrow> FailureInput \<Rightarrow> Context \<Rightarrow> WorkError" where
  "classify_with sha rules input ctx =
     (let found = classify_observe rules input ctx;
          subclass = fo_subclass found;
          class = ErrorSubclass_class subclass;
          observed_by = (if subclass = EsUnclassified then UNCLASSIFIED else fo_observed_by found);
          detail = (case fo_gap found of Some gap \<Rightarrow> gap_detail gap (fo_detail found) | None \<Rightarrow> fo_detail found)
      in \<lparr>er_class = class, er_subclass = subclass,
          er_fingerprint = fingerprint sha class subclass (fo_tool found) (cx_worker_kind ctx) (fo_message found),
          er_detail = clip detail, er_artifact_refs = [], er_observed_by = observed_by\<rparr>)"

definition classify :: "(string \<Rightarrow> string) \<Rightarrow> FailureInput \<Rightarrow> Context \<Rightarrow> WorkError" where
  "classify sha input ctx = classify_with sha MESSAGE_RULES input ctx"

section \<open>Learned rules\<close>

record LearnedRule =
  lr_item :: work_item_id
  lr_subclass :: ErrorSubclass
  lr_pattern :: string

definition LearnedRule_parse :: "string \<Rightarrow> string \<Rightarrow> string + LearnedRule" where
  "LearnedRule_parse item raw =
     (case split_once '':'' raw of
        None \<Rightarrow> Inl (''`'' @ raw @ ''` is not `<subclass>: <pattern>`'')
      | Some (n, p) \<Rightarrow>
          let name1 = trim n in
          (case ErrorSubclass_parse name1 of
             None \<Rightarrow> Inl (''`'' @ name1 @ ''` is not an error subclass'')
           | Some subclass \<Rightarrow>
               if subclass = EsUnclassified
               then Inl ''a rule must classify: `unclassified` is what it replaces''
               else let pat = to_lowercase (trim p) in
                 if length pat < 3 then Inl (''the pattern `'' @ pat @ ''` is too short to be specific'')
                 else Inr \<lparr>lr_item = item, lr_subclass = subclass, lr_pattern = pat\<rparr>))"

definition learned_matches :: "LearnedRule \<Rightarrow> string \<Rightarrow> bool" where
  "learned_matches r message = contains_str (to_lowercase message) (lr_pattern r)"

definition learned_observed_by :: "LearnedRule \<Rightarrow> string" where
  "learned_observed_by r = ''rule:learned:'' @ take 8 (lr_item r)"

definition apply_learned :: "(string \<Rightarrow> string) \<Rightarrow> WorkError \<Rightarrow> LearnedRule list \<Rightarrow> Context \<Rightarrow> WorkError" where
  "apply_learned sha err rules ctx =
     (if er_class err \<noteq> EcUnknown then err
      else case find (\<lambda>r. learned_matches r (er_detail err)) rules of
        None \<Rightarrow> err
      | Some rule \<Rightarrow>
          let class = ErrorSubclass_class (lr_subclass rule)
          in \<lparr>er_class = class, er_subclass = lr_subclass rule,
              er_fingerprint = fingerprint sha class (lr_subclass rule) None (cx_worker_kind ctx) (er_detail err),
              er_detail = er_detail err, er_artifact_refs = er_artifact_refs err,
              er_observed_by = learned_observed_by rule\<rparr>)"

section \<open>What the table says\<close>

definition gap_row :: "ErrorSubclass \<Rightarrow> GapKind option \<Rightarrow> bool" where
  \<comment> \<open>the gap of a verdict is one of its subclass, and missing only where the subclass is of no gap\<close>
  "gap_row subclass gap =
     (case gap of None \<Rightarrow> from_subclass subclass = None | Some g \<Rightarrow> GapKind_subclass g = subclass)"

lemma table_rows:
  "list_all (\<lambda>r. mr_subclass r \<noteq> EsUnclassified \<and> gap_row (mr_subclass r) (mr_gap r)) MESSAGE_RULES"
  by code_simp

lemma first_match_in:
  "first_match rules m allowed = Some r
     \<Longrightarrow> r \<in> set rules \<and> allowed (mr_subclass r) \<and> rule_matches r (to_lowercase m)"
  by (auto simp: first_match_def find_Some_iff Let_def)

lemma first_match_none:
  "first_match rules m allowed = None
     \<longleftrightarrow> (\<forall>r \<in> set rules. allowed (mr_subclass r) \<longrightarrow> \<not> rule_matches r (to_lowercase m))"
  by (auto simp: first_match_def find_None_iff Let_def)

lemma by_rule_none:
  "by_rule rules m allowed = None
     \<longleftrightarrow> (\<forall>r \<in> set rules. allowed (mr_subclass r) \<longrightarrow> \<not> rule_matches r (to_lowercase m))"
  by (simp add: by_rule_def first_match_none)

lemma by_rule_some:
  "by_rule rules m allowed = Some v
     \<Longrightarrow> \<exists>r \<in> set rules. v = (mr_subclass r, mr_gap r, ''rule:'' @ mr_name r) \<and> allowed (mr_subclass r)"
  by (auto simp: by_rule_def dest!: first_match_in)

lemma by_table:
  assumes "by_rule MESSAGE_RULES m allowed = Some v"
  shows "fst v \<noteq> EsUnclassified \<and> gap_row (fst v) (fst (snd v))"
  using by_rule_some[OF assms] table_rows by (auto simp: list_all_iff)

lemma structured_subclasses:
  "ProviderProblem_subclass p \<noteq> EsUnclassified" "from_subclass (ProviderProblem_subclass p) = None"
  "VerifierVerdict_subclass v \<noteq> EsUnclassified" "from_subclass (VerifierVerdict_subclass v) = None"
  "PolicyStop_subclass q \<noteq> EsUnclassified" "from_subclass (PolicyStop_subclass q) = None"
  "BudgetKind_subclass b \<noteq> EsUnclassified" "from_subclass (BudgetKind_subclass b) = None"
  "GapKind_subclass g \<noteq> EsUnclassified"
  by ((cases p; simp)+, (cases v; simp)+, (cases q; simp)+, (cases b; simp)+, (cases g; simp)+)

text \<open>When no rule of the table matches a message.\<close>

definition no_rule :: "string \<Rightarrow> bool" where
  "no_rule m = (\<forall>r \<in> set MESSAGE_RULES. \<not> rule_matches r (to_lowercase m))"

lemma unruled: "by_rule MESSAGE_RULES m (\<lambda>_. True) = None \<longleftrightarrow> no_rule m"
  by (simp add: by_rule_none no_rule_def)

lemma refines_internal: "refines TkInternal = (\<lambda>_. True)"
  by auto

lemma tool_result_row:
  "gap_row (fst (tool_result MESSAGE_RULES kind m)) (fst (snd (tool_result MESSAGE_RULES kind m)))"
  by (cases kind) (auto simp: gap_row_def unclassified_def split: option.splits
      dest!: by_table[unfolded gap_row_def])

lemma tool_result_unknown:
  "fst (tool_result MESSAGE_RULES kind m) = EsUnclassified \<longleftrightarrow> kind = TkInternal \<and> no_rule m"
  by (cases kind) (auto simp: unclassified_def refines_internal unruled[symmetric] simp del: refines.simps
      split: option.splits dest!: by_table)

lemma process_exit_row:
  "gap_row (fst (process_exit MESSAGE_RULES code m)) (fst (snd (process_exit MESSAGE_RULES code m)))"
  by (auto simp: process_exit_def gap_row_def unclassified_def split: option.splits
      dest!: by_table[unfolded gap_row_def])

lemma process_exit_unknown:
  "fst (process_exit MESSAGE_RULES code m) = EsUnclassified \<longleftrightarrow> code = Some 0 \<and> no_rule m"
  by (auto simp: process_exit_def unclassified_def unruled[symmetric] split: option.splits dest!: by_table)

lemmas verdict_parts = mk_found_def fst_conv snd_conv Found.simps

lemma observed_row: "gap_row (fo_subclass (classify_observe MESSAGE_RULES input ctx)) (fo_gap (classify_observe MESSAGE_RULES input ctx))"
proof (cases input)
  case (FiToolResult tool kind m)
  then show ?thesis using tool_result_row[of kind m] by (simp add: mk_found_def Let_def)
next
  case (FiProcessExit code m)
  then show ?thesis using process_exit_row[of code m] by (simp add: mk_found_def)
next
  case (FiRaw m)
  then show ?thesis
    by (auto simp: mk_found_def gap_row_def unclassified_def split: option.splits dest!: by_table[unfolded gap_row_def])
qed (simp_all add: mk_found_def gap_row_def structured_subclasses)

text \<open>The detail is clipped after its prefix, so the gap still reads back.\<close>

definition clipped_subject :: "GapKind \<Rightarrow> string \<Rightarrow> string" where
  "clipped_subject gap subject =
     (let room = DETAIL_MAX_CHARS - length (gap_detail gap [])
      in if room < length subject then take room subject @ ''...'' else subject)"

lemma clip_gap_detail: "clip (gap_detail gap subject) = gap_detail gap (clipped_subject gap subject)"
proof -
  let ?p = "gap_detail gap []"
  have p: "gap_detail gap s = ?p @ s" for s by (simp add: gap_detail_def)
  have "length ?p \<le> DETAIL_MAX_CHARS" by (cases gap) (simp_all add: gap_detail_def DETAIL_MAX_CHARS_def)
  then have "clip (?p @ subject) = ?p @ clipped_subject gap subject"
    by (auto simp: clipped_subject_def clip_def Let_def)
  then show ?thesis by (simp only: p[symmetric])
qed

lemma clip_length: "length (clip s) \<le> DETAIL_MAX_CHARS + 3"
  by (simp add: clip_def)

lemma classify_fields:
  "er_subclass (classify_with sha rules input ctx) = fo_subclass (classify_observe rules input ctx)"
  "er_class (classify_with sha rules input ctx) = ErrorSubclass_class (fo_subclass (classify_observe rules input ctx))"
  "er_detail (classify_with sha rules input ctx) =
     (case fo_gap (classify_observe rules input ctx) of
        Some gap \<Rightarrow> gap_detail gap (clipped_subject gap (fo_detail (classify_observe rules input ctx)))
      | None \<Rightarrow> clip (fo_detail (classify_observe rules input ctx)))"
  by (simp_all add: classify_with_def Let_def clip_gap_detail split: option.splits)

lemma unknown_class: "ErrorSubclass_class s = EcUnknown \<longleftrightarrow> s = EsUnclassified"
  by (cases s) simp_all

lemma observed_unknown:
  "fo_subclass (classify_observe MESSAGE_RULES input ctx) = EsUnclassified \<longleftrightarrow>
     (case input of
        FiRaw m \<Rightarrow> no_rule m
      | FiToolResult tool kind m \<Rightarrow> kind = TkInternal \<and> no_rule m
      | FiProcessExit code m \<Rightarrow> code = Some 0 \<and> no_rule m
      | _ \<Rightarrow> False)"
proof (cases input)
  case (FiToolResult tool kind m)
  then show ?thesis using tool_result_unknown[of kind m] by (simp add: mk_found_def Let_def)
next
  case (FiProcessExit code m)
  then show ?thesis using process_exit_unknown[of code m] by (simp add: mk_found_def)
next
  case (FiRaw m)
  then show ?thesis
    by (auto simp: mk_found_def unclassified_def unruled[symmetric] split: option.splits dest!: by_table)
qed (simp_all add: mk_found_def structured_subclasses)

lemma core_error_unknown:
  assumes "from_core_error tool err = FiToolResult t TkInternal m"
  shows "Error_kind err = TkInternal"
  using assms by (cases err) auto

lemma core_error_input: "from_core_error tool err \<noteq> FiRaw m" "from_core_error tool err \<noteq> FiProcessExit code m"
  by (cases err; simp)+

lemma observed_by_names:
  "fo_subclass (classify_observe MESSAGE_RULES input ctx) \<noteq> EsUnclassified
     \<Longrightarrow> fo_observed_by (classify_observe MESSAGE_RULES input ctx) \<noteq> UNCLASSIFIED"
proof -
  have tool: "fst v \<noteq> EsUnclassified \<Longrightarrow> snd (snd v) \<noteq> UNCLASSIFIED" if "v = tool_result MESSAGE_RULES kind m" for v kind m
    using that by (cases kind) (auto simp: unclassified_def UNCLASSIFIED_def split: option.splits dest!: by_rule_some)
  have exit: "fst v \<noteq> EsUnclassified \<Longrightarrow> snd (snd v) \<noteq> UNCLASSIFIED" if "v = process_exit MESSAGE_RULES code m" for v code m
    using that by (auto simp: process_exit_def unclassified_def UNCLASSIFIED_def split: option.splits if_splits dest!: by_rule_some)
  have raw: "snd (snd v) \<noteq> UNCLASSIFIED" if "by_rule MESSAGE_RULES m allowed = Some v" for v m allowed
    using by_rule_some[OF that] by (auto simp: UNCLASSIFIED_def)
  show "fo_subclass (classify_observe MESSAGE_RULES input ctx) \<noteq> EsUnclassified
      \<Longrightarrow> fo_observed_by (classify_observe MESSAGE_RULES input ctx) \<noteq> UNCLASSIFIED"
    using tool exit raw
    by (cases input) (auto simp: mk_found_def Let_def unclassified_def split: option.splits, simp_all add: UNCLASSIFIED_def)
qed

lemma parsed_rule:
  assumes "LearnedRule_parse item raw = Inr r"
  shows "lr_subclass r \<noteq> EsUnclassified \<and> 3 \<le> length (lr_pattern r)"
  using assms by (auto simp: LearnedRule_parse_def Let_def split: option.splits if_splits prod.splits)

lemma contains_length: "contains_str s pat \<Longrightarrow> length pat \<le> length s"
proof (induction s)
  case (Cons c cs)
  have "length pat \<le> length (c # cs)" if "starts_with pat (c # cs)"
  proof -
    have "take (length pat) (c # cs) = pat" using that unfolding starts_with_def .
    then have "length (take (length pat) (c # cs)) = length pat" by (rule arg_cong)
    then show ?thesis by simp
  qed
  then show ?case using Cons by auto
qed simp

lemma applied_rule:
  "find (\<lambda>r. learned_matches r (er_detail err)) rules = Some r \<Longrightarrow> er_class err = EcUnknown
     \<Longrightarrow> er_class (apply_learned sha err rules ctx) = ErrorSubclass_class (lr_subclass r)
       \<and> er_subclass (apply_learned sha err rules ctx) = lr_subclass r"
  by (simp add: apply_learned_def Let_def)

section \<open>Properties\<close>

text \<open>a failure is recorded as unknown exactly when nothing classifies it: it is a bare message, an untyped
  tool error or the failure of a process that exited cleanly, and no rule of the table matches its message.
  \<open>observed_by\<close> says unclassified for the unknown and for no other failure, and the core's own errors end
  unknown only when their kind is the internal one.\<close>

theorem unknown_means_no_rule:
  "(er_class (classify sha input ctx) = EcUnknown \<longleftrightarrow>
      (case input of
         FiRaw m \<Rightarrow> \<forall>r \<in> set MESSAGE_RULES. \<not> rule_matches r (to_lowercase m)
       | FiToolResult tool kind m \<Rightarrow> kind = TkInternal \<and> (\<forall>r \<in> set MESSAGE_RULES. \<not> rule_matches r (to_lowercase m))
       | FiProcessExit code m \<Rightarrow> code = Some 0 \<and> (\<forall>r \<in> set MESSAGE_RULES. \<not> rule_matches r (to_lowercase m))
       | _ \<Rightarrow> False))
   \<and> (er_observed_by (classify sha input ctx) = UNCLASSIFIED \<longleftrightarrow> er_class (classify sha input ctx) = EcUnknown)
   \<and> (er_class (classify sha (from_core_error tool err) ctx) = EcUnknown \<longrightarrow> Error_kind err = TkInternal)"
proof (intro conjI impI)
  show "er_class (classify sha input ctx) = EcUnknown \<longleftrightarrow>
      (case input of
         FiRaw m \<Rightarrow> \<forall>r \<in> set MESSAGE_RULES. \<not> rule_matches r (to_lowercase m)
       | FiToolResult tool kind m \<Rightarrow> kind = TkInternal \<and> (\<forall>r \<in> set MESSAGE_RULES. \<not> rule_matches r (to_lowercase m))
       | FiProcessExit code m \<Rightarrow> code = Some 0 \<and> (\<forall>r \<in> set MESSAGE_RULES. \<not> rule_matches r (to_lowercase m))
       | _ \<Rightarrow> False)"
    using observed_unknown[of input ctx]
    by (simp only: classify_def classify_fields unknown_class no_rule_def)
  show "er_observed_by (classify sha input ctx) = UNCLASSIFIED \<longleftrightarrow> er_class (classify sha input ctx) = EcUnknown"
    using observed_by_names[of input ctx] by (auto simp: classify_def classify_with_def Let_def unknown_class)
next
  assume "er_class (classify sha (from_core_error tool err) ctx) = EcUnknown"
  then have "fo_subclass (classify_observe MESSAGE_RULES (from_core_error tool err) ctx) = EsUnclassified"
    by (simp only: classify_def classify_fields unknown_class)
  then show "Error_kind err = TkInternal"
    using observed_unknown[of "from_core_error tool err" ctx] core_error_unknown[of tool err] core_error_input[of tool err]
    by (auto split: FailureInput.splits)
qed

lemma unruled_demo: "\<forall>r \<in> set MESSAGE_RULES. \<not> rule_matches r (to_lowercase ''gremlins'')"
proof -
  have "list_all (\<lambda>r. \<not> rule_matches r (to_lowercase ''gremlins'')) MESSAGE_RULES" by code_simp
  then show ?thesis by (simp only: list_all_iff)
qed

lemma unknown_means_no_rule_witness:
  "er_class (classify id (FiRaw ''gremlins'') Context_default) = EcUnknown \<and> Error_kind (ErInternal ''gremlins'') = TkInternal"
  using unruled_demo
    unknown_means_no_rule[of id "FiRaw ''gremlins''" Context_default None "ErInternal ''gremlins''"]
    unknown_means_no_rule[of id "from_core_error None (ErInternal ''gremlins'')" Context_default None "ErInternal ''gremlins''"]
  by simp

text \<open>the gap the classifier found is the gap the rest of the system reads back from the error: \<open>gap_of\<close> of
  a classified failure is the gap kind found, with the subject as it was clipped, and nothing where none was
  found; so a capability gap survives classifying with its kind (capacity and compute stay apart) and its name.\<close>

theorem classified_gap_reads_back:
  "gap_of (classify sha input ctx) =
     (case fo_gap (classify_observe MESSAGE_RULES input ctx) of
        Some gap \<Rightarrow> Some \<lparr>gp_kind = gap, gp_subject = clipped_subject gap (fo_detail (classify_observe MESSAGE_RULES input ctx))\<rparr>
      | None \<Rightarrow> None)
   \<and> gap_of (classify sha (FiCapabilityGap gap name) ctx) = Some \<lparr>gp_kind = gap, gp_subject = clipped_subject gap name\<rparr>
   \<and> length (er_detail (classify sha input ctx)) \<le> DETAIL_MAX_CHARS + 3"
proof -
  have main: "gap_of (classify sha input ctx) =
     (case fo_gap (classify_observe MESSAGE_RULES input ctx) of
        Some gap \<Rightarrow> Some \<lparr>gp_kind = gap, gp_subject = clipped_subject gap (fo_detail (classify_observe MESSAGE_RULES input ctx))\<rparr>
      | None \<Rightarrow> None)" for input
  proof (cases "fo_gap (classify_observe MESSAGE_RULES input ctx)")
    case None
    then have "from_subclass (er_subclass (classify sha input ctx)) = None"
      using observed_row[of input ctx] by (simp add: gap_row_def classify_def classify_fields)
    then show ?thesis using None by (simp add: gap_of_def)
  next
    case (Some gap)
    let ?err = "classify sha input ctx" and ?subject = "clipped_subject gap (fo_detail (classify_observe MESSAGE_RULES input ctx))"
    have sub: "er_subclass ?err = GapKind_subclass gap"
      using observed_row[of input ctx] Some by (simp add: gap_row_def classify_def classify_fields)
    have "er_detail ?err = gap_detail gap ?subject" using Some by (simp add: classify_def classify_fields)
    from named_gap_detail[OF sub this] from_subclass_of_gap[of gap] sub Some show ?thesis
      by (auto simp: gap_of_def)
  qed
  have "length (er_detail (classify sha input ctx)) \<le> DETAIL_MAX_CHARS + 3"
    by (simp add: classify_def classify_with_def Let_def clip_length)
  then show ?thesis using main[of input] main[of "FiCapabilityGap gap name"] by (simp add: mk_found_def)
qed

text \<open>a typed tool error bounds what its message may say: whatever the rule table, its subclass is the one
  of its kind or one of those a message may refine that kind to; a timeout and a rate limit are never refined,
  and only the untyped internal kind is left to the table.\<close>

theorem typed_errors_are_bounded:
  "er_subclass (classify_with sha rules (FiToolResult tool kind message) ctx) \<in>
     (case kind of
        TkInvalidInput \<Rightarrow> {EsInvalidArgs, EsHallucinatedTool, EsCompute}
      | TkNotFound \<Rightarrow> {EsNotFound, EsHallucinatedTool, EsDependency, EsToolGap}
      | TkPermissionDenied \<Rightarrow> {EsPermission, EsCredential, EsConsent, EsDisk}
      | TkTimeout \<Rightarrow> {EsTimeout}
      | TkRateLimited \<Rightarrow> {EsUpstreamError}
      | TkTransient \<Rightarrow> {EsUpstreamError, EsNetwork, EsDisk, EsTimeout}
      | TkInternal \<Rightarrow> insert EsUnclassified (mr_subclass ` set rules))"
  by (cases kind) (auto simp: classify_fields mk_found_def Let_def unclassified_def split: option.splits dest!: by_rule_some)

text \<open>learned rules only fill what the built-in classifiers left open: an error with a class stays as it is, an
  unknown one is reclassified exactly when one of the parsed rules matches its detail, then to a known class, with
  the detail and the references untouched; and no rule swallows a message shorter than three characters.\<close>

theorem learned_rules_only_fill_gaps:
  assumes "\<forall>r \<in> set rules. \<exists>item raw. LearnedRule_parse item raw = Inr r"
  shows "(er_class err \<noteq> EcUnknown \<or> length (er_detail err) < 3 \<longrightarrow> apply_learned sha err rules ctx = err)
    \<and> (er_class err = EcUnknown \<longrightarrow>
        (er_class (apply_learned sha err rules ctx) \<noteq> EcUnknown) = (\<exists>r \<in> set rules. learned_matches r (er_detail err)))
    \<and> er_detail (apply_learned sha err rules ctx) = er_detail err
    \<and> er_artifact_refs (apply_learned sha err rules ctx) = er_artifact_refs err"
proof (intro conjI impI)
  have short: "\<not> learned_matches r (er_detail err)" if "r \<in> set rules" "length (er_detail err) < 3" for r
    using that assms parsed_rule[of _ _ r] contains_length[of "to_lowercase (er_detail err)" "lr_pattern r"]
    by (fastforce simp: learned_matches_def to_lowercase_def)
  assume "er_class err \<noteq> EcUnknown \<or> length (er_detail err) < 3"
  then show "apply_learned sha err rules ctx = err"
  proof
    assume "length (er_detail err) < 3"
    then have "find (\<lambda>r. learned_matches r (er_detail err)) rules = None" using short by (simp add: find_None_iff)
    then show ?thesis by (simp add: apply_learned_def)
  qed (simp add: apply_learned_def)
next
  assume u: "er_class err = EcUnknown"
  show "(er_class (apply_learned sha err rules ctx) \<noteq> EcUnknown) = (\<exists>r \<in> set rules. learned_matches r (er_detail err))"
  proof (cases "find (\<lambda>r. learned_matches r (er_detail err)) rules")
    case None
    then have "apply_learned sha err rules ctx = err" by (simp add: apply_learned_def)
    then show ?thesis using u None by (simp add: find_None_iff)
  next
    case (Some r)
    then have r: "r \<in> set rules" "learned_matches r (er_detail err)" by (auto simp: find_Some_iff)
    then have "lr_subclass r \<noteq> EsUnclassified" using assms parsed_rule by blast
    then show ?thesis using r applied_rule[OF Some u] unknown_class by auto
  qed
qed (simp_all add: apply_learned_def Let_def split: option.splits)

definition demo_rule :: LearnedRule where
  "demo_rule = \<lparr>lr_item = ''i1'', lr_subclass = EsNetwork, lr_pattern = ''gremlins''\<rparr>"

lemma learned_rules_only_fill_gaps_witness:
  "er_class (apply_learned id (classify id (FiRaw ''gremlins'') Context_default) [demo_rule] Context_default) \<noteq> EcUnknown"
proof -
  have "LearnedRule_parse ''i1'' ''network: Gremlins'' = Inr demo_rule" by code_simp
  then have rules: "\<forall>r \<in> set [demo_rule]. \<exists>item raw. LearnedRule_parse item raw = Inr r" by fastforce
  let ?err = "classify id (FiRaw ''gremlins'') Context_default"
  have u: "er_class ?err = EcUnknown" using unruled_demo observed_unknown[of "FiRaw ''gremlins''" Context_default]
    by (simp add: classify_def classify_fields unknown_class no_rule_def del: classify_observe.simps)
  have "fo_gap (classify_observe MESSAGE_RULES (FiRaw ''gremlins'') Context_default) = None"
    using unruled_demo unruled[of "''gremlins''"] by (simp add: mk_found_def unclassified_def no_rule_def)
  then have "er_detail ?err = ''gremlins''" by (simp add: classify_def classify_fields) (simp add: clip_def DETAIL_MAX_CHARS_def mk_found_def)
  moreover have "learned_matches demo_rule ''gremlins''" by code_simp
  ultimately show ?thesis using learned_rules_only_fill_gaps[OF rules, of ?err id Context_default] u by simp
qed

end
