(* ===== verification/Redact.thy ===== *)
theory Redact
  imports Fingerprint
begin

text \<open>
  Redaction, \<^verbatim>\<open>rustykrab-control/src/investigate/redact.rs\<close>: the four ordered passes that take secrets out
  of text before a worker reads it. The source writes each pass as a loop over an index; here one loop (\<open>scan\<close>)
  walks the rest of the text with the characters before it (nearest first), and each pass is the test it makes at a
  position: how many characters stay and how many are replaced. Bytes are characters below 256, and a length in
  bytes is \<open>utf8_len\<close>.

  The locale \<open>secret_scan\<close> is the contract of such a test. It gives that a pass leaves nothing of its own kind and
  that a later pass brings nothing back, so redacted text holds no secret any pass knows and redacting is idempotent.
\<close>

section \<open>Characters\<close>

definition REDACTED :: string where
  "REDACTED = ''<redacted>''"

record Redacted =
  rd_text :: string
  rd_count :: nat

definition token_char :: "char \<Rightarrow> bool" where
  "token_char c = (is_ascii_alnum c \<or> c = CHR ''_'' \<or> c = CHR ''-'')"

definition credential_char :: "char \<Rightarrow> bool" where
  "credential_char c = (token_char c \<or> c \<in> {CHR ''.'', CHR ''~'', CHR ''+'', CHR ''/'', CHR ''='', CHR '':''})"

definition word_char :: "char \<Rightarrow> bool" where
  "word_char c = (is_ascii_alnum c \<or> c = CHR ''_'')"

definition char_run :: "(char \<Rightarrow> bool) \<Rightarrow> string \<Rightarrow> nat" where
  "char_run keep s = length (takeWhile keep s)"

definition eq_ignore_ascii_case :: "string \<Rightarrow> string \<Rightarrow> bool" where
  "eq_ignore_ascii_case a b = (to_ascii_lowercase a = to_ascii_lowercase b)"

section \<open>The passes\<close>

type_synonym hit = "string \<Rightarrow> string \<Rightarrow> (nat \<times> nat) option"

definition bot_token_at :: "string \<Rightarrow> nat option" where
  "bot_token_at s =
     (let digits = char_run is_digit s in
      case drop digits s of
        [] \<Rightarrow> None
      | c # cs \<Rightarrow>
          if digits < 6 \<or> c \<noteq> CHR '':'' then None
          else let secret = char_run token_char cs in if 30 \<le> secret then Some (digits + 1 + secret) else None)"

definition starts_word :: "string \<Rightarrow> bool" where
  "starts_word prior = (case prior of [] \<Rightarrow> True | b # _ \<Rightarrow> \<not> word_char b)"

definition after_bot :: "string \<Rightarrow> bool" where
  "after_bot prior = (3 \<le> length prior \<and> eq_ignore_ascii_case (rev (take 3 prior)) ''bot'')"

definition bot_hit :: hit where
  "bot_hit prior rest =
     (case rest of
        [] \<Rightarrow> None
      | c # _ \<Rightarrow>
          if is_digit c \<and> (after_bot prior \<or> starts_word prior) then map_option (\<lambda>l. (0, l)) (bot_token_at rest) else None)"

definition AUTH_SCHEMES :: "string list" where
  "AUTH_SCHEMES = [''bearer'', ''basic'']"

text \<open>A text that starts with a name, in any case.\<close>

definition heads :: "string \<Rightarrow> string \<Rightarrow> bool" where
  "heads n r = (length n \<le> length r \<and> eq_ignore_ascii_case (take (length n) r) n)"

definition auth_value :: "string \<Rightarrow> (nat \<times> nat) option" where
  "auth_value s =
     (let spaces = char_run (\<lambda>c. c = CHR '' '') s; len = char_run credential_char (drop spaces s)
      in if 1 \<le> spaces \<and> 8 \<le> len then Some (spaces, len) else None)"

definition auth_hit :: hit where
  "auth_hit prior rest =
     (case find (\<lambda>n. heads n rest \<and> starts_word prior) AUTH_SCHEMES of
        None \<Rightarrow> None
      | Some n \<Rightarrow> map_option (\<lambda>(k, l). (length n + k, l)) (auth_value (drop (length n) rest)))"

definition KEY_PREFIXES :: "(string \<times> nat) list" where
  "KEY_PREFIXES =
     [(''sk-'', 16), (''sk_live_'', 12), (''sk_test_'', 12), (''rk_live_'', 12), (''ghp_'', 20), (''gho_'', 20),
      (''ghs_'', 20), (''ghu_'', 20), (''github_pat_'', 20), (''xoxb-'', 16), (''xoxp-'', 16), (''xoxa-'', 16),
      (''xapp-'', 16), (''AKIA'', 16)]"

definition at_boundary :: "string \<Rightarrow> bool" where
  "at_boundary prior = (case prior of [] \<Rightarrow> True | b # _ \<Rightarrow> \<not> (word_char b \<or> b = CHR ''-''))"

definition key_at :: "string \<Rightarrow> string \<times> nat \<Rightarrow> bool" where
  "key_at rest pm = (starts_with (fst pm) rest \<and> snd pm \<le> char_run token_char (drop (length (fst pm)) rest))"

definition key_hit :: hit where
  "key_hit prior rest =
     (if at_boundary prior then
        (case find (key_at rest) KEY_PREFIXES of
           None \<Rightarrow> None
         | Some (prefix, least) \<Rightarrow> Some (length prefix, char_run token_char (drop (length prefix) rest)))
      else None)"

definition SECRET_NAMES :: "string list" where
  "SECRET_NAMES =
     [''access_token'', ''refresh_token'', ''auth_token'', ''bot_token'', ''id_token'', ''token'', ''api_key'', ''api-key'',
      ''apikey'', ''x-api-key'', ''client_secret'', ''secret'', ''password'', ''passwd'', ''authorization'', ''cookie'']"

definition is_quote :: "char \<Rightarrow> bool" where
  "is_quote c = (c = DQUOTE \<or> c = APOSTROPHE)"

definition skip_quote :: "string \<Rightarrow> string \<times> char option" where
  "skip_quote s = (case s of [] \<Rightarrow> ([], None) | c # cs \<Rightarrow> if is_quote c then (cs, Some c) else (s, None))"

definition is_separator :: "char \<Rightarrow> bool" where
  "is_separator c = (c = CHR ''='' \<or> c = CHR '':'')"

definition secret_value :: "string \<Rightarrow> bool" where
  \<comment> \<open>long enough, not a scheme word and not redacted already\<close>
  "secret_value v =
     (6 \<le> utf8_len v \<and> \<not> (eq_ignore_ascii_case v ''bearer'' \<or> eq_ignore_ascii_case v ''basic'') \<and> \<not> contains_str v REDACTED)"

definition value_of :: "char option \<Rightarrow> string \<Rightarrow> string" where
  "value_of q s = (case q of Some d \<Rightarrow> takeWhile (\<lambda>x. x \<noteq> d) s | None \<Rightarrow> takeWhile credential_char s)"

text \<open>What follows a name: an optional closing quote, \<open>=\<close> or \<open>:\<close>, spaces, an optional opening quote, then the value.
  The answer counts what stands before the value, and the value.\<close>

definition value_at :: "string \<Rightarrow> (nat \<times> nat) option" where
  "value_at s =
     (case fst (skip_quote s) of
        [] \<Rightarrow> None
      | c # cs \<Rightarrow>
          if is_separator c then
            let (s3, q) = skip_quote (dropWhile (\<lambda>c. c = CHR '' '') cs); v = value_of q s3
            in if secret_value v then Some (length s - length s3, length v) else None
          else None)"

definition named_hit :: hit where
  "named_hit prior rest =
     (if at_boundary prior then
        (case find (\<lambda>n. length n < length rest \<and> heads n rest) SECRET_NAMES of
           None \<Rightarrow> None
         | Some name \<Rightarrow> map_option (\<lambda>(k, l). (length name + k, l)) (value_at (drop (length name) rest)))
      else None)"

text \<open>The loop. Every hit takes a character at least, so \<open>drop (k + l) (c # cs)\<close> is \<open>drop (k + l - 1) cs\<close>.\<close>

function scan :: "hit \<Rightarrow> string \<Rightarrow> string \<Rightarrow> string \<times> nat" where
  "scan hit prior [] = ([], 0)"
| "scan hit prior (c # cs) =
     (case hit prior (c # cs) of
        None \<Rightarrow> (let (out, n) = scan hit (c # prior) cs in (c # out, n))
      | Some (k, l) \<Rightarrow>
          (let (out, n) = scan hit (rev (take (k + l) (c # cs)) @ prior) (drop (k + l - 1) cs)
           in (take k (c # cs) @ REDACTED @ out, Suc n)))"
  by pat_completeness auto
termination
  by (relation "measure (\<lambda>(hit, prior, rest). length rest)") auto

definition bot_tokens :: "string \<Rightarrow> string \<times> nat" where "bot_tokens s = scan bot_hit [] s"
definition auth_schemes :: "string \<Rightarrow> string \<times> nat" where "auth_schemes s = scan auth_hit [] s"
definition prefixed_keys :: "string \<Rightarrow> string \<times> nat" where "prefixed_keys s = scan key_hit [] s"
definition named_values :: "string \<Rightarrow> string \<times> nat" where "named_values s = scan named_hit [] s"

definition redact :: "string \<Rightarrow> Redacted" where
  "redact s =
     (let (out, n) = foldl (\<lambda>(out, n) pass. let (out', m) = pass out in (out', n + m)) (s, 0)
        [bot_tokens, auth_schemes, prefixed_keys, named_values]
      in \<lparr>rd_text = out, rd_count = n\<rparr>)"

section \<open>What a pass promises\<close>

locale secret_scan =
  fixes hit :: hit
  assumes hit_starts: "hit p r \<noteq> None \<Longrightarrow> r \<noteq> [] \<and> token_char (hd r)"
    and hit_right: "b \<noteq> [] \<Longrightarrow> hit p (b @ REDACTED @ x) \<noteq> None \<Longrightarrow> hit p (b @ z) \<noteq> None"
    and hit_left: "a \<noteq> [] \<Longrightarrow> hit (a @ CHR ''>'' # q) r \<noteq> None \<Longrightarrow> hit (a @ p) r \<noteq> None"
    and hit_placeholder: "REDACTED = x @ y \<Longrightarrow> x \<noteq> [] \<Longrightarrow> y \<noteq> [] \<Longrightarrow> hit (rev x @ q) (y @ z) = None"
    and hit_bounds: "hit p r = Some (k, l) \<Longrightarrow> 0 < l \<and> k + l \<le> length r"
    and hit_stops: "hit p r = Some (k, l) \<Longrightarrow> drop (k + l) r = [] \<or> \<not> token_char (hd (drop (k + l) r))"
    and hit_spent: "hit p r = Some (k, l) \<Longrightarrow> 0 < k \<Longrightarrow> hit q (take k r @ REDACTED @ x) = None"
    and hit_inner: "hit p r = Some (k, l) \<Longrightarrow> 0 < j \<Longrightarrow> j < k
      \<Longrightarrow> hit (rev (take j r) @ q) (drop j (take k r) @ REDACTED @ x) = None"

text \<open>No position of a text is a hit, after the characters \<open>p\<close>.\<close>

fun clean :: "hit \<Rightarrow> string \<Rightarrow> string \<Rightarrow> bool" where
  "clean hit p [] = (hit p [] = None)"
| "clean hit p (c # s) = (hit p (c # s) = None \<and> clean hit (c # p) s)"

text \<open>A text rewritten by a pass: blocks replaced, each followed by no token character.\<close>

inductive redacts :: "string \<Rightarrow> string \<Rightarrow> bool" where
  rw_nil: "redacts [] []"
| rw_keep: "redacts s t \<Longrightarrow> redacts (c # s) (c # t)"
| rw_block: "redacts s t \<Longrightarrow> s = [] \<or> \<not> token_char (hd s) \<Longrightarrow> redacts (v @ s) (REDACTED @ t)"

text \<open>What may stand before a rewritten text: the same characters, at least back to the last placeholder.\<close>

definition same_before :: "string \<Rightarrow> string \<Rightarrow> string \<Rightarrow> bool" where
  "same_before p q t \<longleftrightarrow>
     p = q \<or> (\<exists>a p' q'. p = a @ p' \<and> q = a @ CHR ''>'' # q' \<and> (a = [] \<longrightarrow> t = [] \<or> \<not> token_char (hd t)))"

lemma redacts_refl: "redacts s s"
  by (induction s) (auto intro: redacts.intros)

lemma redacts_prefix: "redacts s t \<Longrightarrow> redacts (a @ s) (a @ t)"
  by (induction a) (auto intro: redacts.intros)

lemma redacts_common: "redacts s t \<Longrightarrow> s = t \<or> (\<exists>b z x. s = b @ z \<and> t = b @ REDACTED @ x)"
proof (induction rule: redacts.induct)
  case (rw_keep s t c)
  then show ?case by (metis append_Cons)
next
  case (rw_block s t v)
  then show ?case by (metis append_Nil)
qed simp

lemma redacts_start: "redacts s t \<Longrightarrow> s = [] \<or> \<not> token_char (hd s) \<Longrightarrow> t = [] \<or> \<not> token_char (hd t)"
  by (induction rule: redacts.induct) (auto simp: REDACTED_def token_char_def is_ascii_alnum_def is_ascii_alpha_def is_digit_def)

lemma same_before_step: "same_before p q (c # t) \<Longrightarrow> same_before (c # p) (c # q) t'"
  unfolding same_before_def by (metis append_Cons list.distinct(1))

lemma clean_append:
  "clean hit p (a @ s) \<longleftrightarrow> (\<forall>i < length a. hit (rev (take i a) @ p) (drop i a @ s) = None) \<and> clean hit (rev a @ p) s"
proof (induction a arbitrary: p)
  case (Cons c a)
  have "(\<forall>i < length (c # a). hit (rev (take i (c # a)) @ p) (drop i (c # a) @ s) = None)
      \<longleftrightarrow> hit p (c # a @ s) = None \<and> (\<forall>i < length a. hit (rev (take i a) @ c # p) (drop i a @ s) = None)"
    by (auto simp: All_less_Suc2)
  then show ?case using Cons by simp
qed simp

lemma clean_positions: "clean hit [] s \<longleftrightarrow> (\<forall>i \<le> length s. hit (rev (take i s)) (drop i s) = None)"
  using clean_append[of hit "[]" s "[]"] by (auto simp: le_less)

context secret_scan
begin

lemma hit_kept:
  assumes "redacts s t" and "same_before p q (c # t)" and "hit p (c # s) = None"
  shows "hit q (c # t) = None"
proof (rule ccontr)
  assume h: "hit q (c # t) \<noteq> None"
  have q: "hit q (c # s) \<noteq> None"
    using redacts_common[OF assms(1)]
  proof
    assume "\<exists>b z x. s = b @ z \<and> t = b @ REDACTED @ x"
    then obtain b z x where "s = b @ z" "t = b @ REDACTED @ x" by blast
    then show ?thesis using h hit_right[of "c # b" q x z] by simp
  qed (use h in simp)
  show False
    using assms(2) unfolding same_before_def
  proof
    assume "\<exists>a p' q'. p = a @ p' \<and> q = a @ CHR ''>'' # q' \<and> (a = [] \<longrightarrow> c # t = [] \<or> \<not> token_char (hd (c # t)))"
    then obtain a p' q' where a: "p = a @ p'" "q = a @ CHR ''>'' # q'" "a = [] \<longrightarrow> \<not> token_char c" by auto
    then have "a \<noteq> []" using hit_starts[OF q] by auto
    then show False using hit_left[of a q' "c # s" p'] a q assms(3) by simp
  qed (use q assms(3) in simp)
qed

lemma clean_placeholder: "clean hit (rev REDACTED @ q) t \<Longrightarrow> clean hit q (REDACTED @ t)"
proof -
  assume t: "clean hit (rev REDACTED @ q) t"
  have "hit (rev (take i REDACTED) @ q) (drop i REDACTED @ t) = None" if i: "i < length REDACTED" for i
  proof (cases "i = 0")
    case True
    have "\<not> token_char CHR ''<''" by code_simp
    then have "hit q (REDACTED @ t) = None"
      using hit_starts[of q "REDACTED @ t"] by (cases "hit q (REDACTED @ t)") (simp_all add: REDACTED_def)
    then show ?thesis using True by simp
  next
    case False
    show ?thesis
    proof (rule hit_placeholder)
      show "REDACTED = take i REDACTED @ drop i REDACTED" by simp
    qed (use False i in \<open>simp_all add: REDACTED_def\<close>)
  qed
  then show "clean hit q (REDACTED @ t)" using t by (simp add: clean_append)
qed

lemma redacts_clean: "redacts s t \<Longrightarrow> same_before p q t \<Longrightarrow> clean hit p s \<Longrightarrow> clean hit q t"
proof (induction arbitrary: p q rule: redacts.induct)
  case rw_nil
  have "hit q [] = None" using hit_starts[of q "[]"] by blast
  then show ?case by simp
next
  case (rw_keep s t c)
  then have "hit q (c # t) = None" using hit_kept[of s t p q c] by simp
  moreover have "clean hit (c # q) t" using rw_keep.IH[OF same_before_step[OF rw_keep.prems(1)]] rw_keep.prems(2) by simp
  ultimately show ?case by simp
next
  case (rw_block s t v)
  have "same_before (rev v @ p) (rev REDACTED @ q) t"
    using redacts_start[OF rw_block.hyps] unfolding same_before_def
    by (intro disjI2 exI[of _ "[]"] exI[of _ "rev v @ p"] exI[of _ "rev ''<redacted'' @ q"]) (simp add: REDACTED_def)
  then have "clean hit (rev REDACTED @ q) t" using rw_block by (simp add: clean_append)
  then show ?case by (rule clean_placeholder)
qed

lemma scan_redacts: "redacts s (fst (scan hit p s))"
proof (induction s arbitrary: p rule: length_induct)
  case (1 s)
  show ?case
  proof (cases s)
    case Nil
    then show ?thesis by (simp add: rw_nil)
  next
    case (Cons c cs)
    show ?thesis
    proof (cases "hit p s")
      case None
      have "redacts cs (fst (scan hit (c # p) cs))" using 1 Cons by simp
      then have "redacts (c # cs) (c # fst (scan hit (c # p) cs))" by (rule rw_keep)
      then show ?thesis using None Cons by (simp add: case_prod_beta)
    next
      case (Some kl)
      obtain k l where kl: "kl = (k, l)" by (cases kl) auto
      let ?rest = "drop (k + l) s" and ?p = "rev (take (k + l) s) @ p"
      have b: "0 < l" "k + l \<le> length s" using hit_bounds Some kl by blast+
      then have rest: "drop (k + l - 1) cs = ?rest" using Cons by (cases "k + l") auto
      have "length ?rest < length s" using b by simp
      then have "redacts ?rest (fst (scan hit ?p ?rest))" using 1 by blast
      moreover have "?rest = [] \<or> \<not> token_char (hd ?rest)" using hit_stops Some kl by blast
      ultimately have "redacts (take l (drop k s) @ ?rest) (REDACTED @ fst (scan hit ?p ?rest))" by (rule rw_block)
      then have "redacts (take k s @ take l (drop k s) @ ?rest) (take k s @ REDACTED @ fst (scan hit ?p ?rest))"
        by (rule redacts_prefix)
      moreover have "take k s @ take l (drop k s) @ ?rest = s"
        by (metis append_assoc append_take_drop_id take_add)
      moreover have "fst (scan hit p s) = take k s @ REDACTED @ fst (scan hit ?p ?rest)"
        using Some kl Cons rest by (simp split: prod.splits)
      ultimately show ?thesis by simp
    qed
  qed
qed

lemma scan_clean: "same_before p q (fst (scan hit p s)) \<Longrightarrow> clean hit q (fst (scan hit p s))"
proof (induction s arbitrary: p q rule: length_induct)
  case (1 s)
  show ?case
  proof (cases s)
    case Nil
    have "hit q [] = None" using hit_starts[of q "[]"] by blast
    then show ?thesis using Nil by simp
  next
    case (Cons c cs)
    show ?thesis
    proof (cases "hit p s")
      case None
      then have t: "fst (scan hit p s) = c # fst (scan hit (c # p) cs)" using Cons by (simp split: prod.splits)
      then have "hit q (c # fst (scan hit (c # p) cs)) = None"
        using hit_kept[OF scan_redacts[of cs "c # p"]] "1.prems" None Cons by simp
      moreover have "clean hit (c # q) (fst (scan hit (c # p) cs))"
        using "1.IH" "1.prems" same_before_step t Cons by simp
      ultimately show ?thesis by (simp add: t)
    next
      case (Some kl)
      obtain k l where kl: "kl = (k, l)" by (cases kl) auto
      let ?rest = "drop (k + l) s" and ?p = "rev (take (k + l) s) @ p"
      let ?t = "fst (scan hit ?p ?rest)"
      have b: "0 < l" "k + l \<le> length s" using hit_bounds Some kl by blast+
      then have rest: "drop (k + l - 1) cs = ?rest" using Cons by (cases "k + l") auto
      have t: "fst (scan hit p s) = take k s @ REDACTED @ ?t" using Some kl Cons rest by (simp split: prod.splits)
      have "?rest = [] \<or> \<not> token_char (hd ?rest)" using hit_stops Some kl by blast
      then have "?t = [] \<or> \<not> token_char (hd ?t)" using redacts_start[OF scan_redacts] by blast
      then have "same_before ?p (rev REDACTED @ rev (take k s) @ q) ?t"
        unfolding same_before_def
        by (intro disjI2 exI[of _ "[]"] exI[of _ "?p"] exI[of _ "rev ''<redacted'' @ rev (take k s) @ q"]) (simp add: REDACTED_def)
      moreover have "length ?rest < length s" using b by simp
      ultimately have "clean hit (rev REDACTED @ rev (take k s) @ q) ?t" using "1.IH" by blast
      then have c: "clean hit (rev (take k s) @ q) (REDACTED @ ?t)" by (rule clean_placeholder)
      have "hit (rev (take i (take k s)) @ q) (drop i (take k s) @ REDACTED @ ?t) = None" if i: "i < length (take k s)" for i
      proof (cases "i = 0")
        case True
        then have "0 < k" using i by simp
        then show ?thesis using hit_spent[of p s k l q ?t] Some kl True by simp
      next
        case False
        then have "hit (rev (take i s) @ q) (drop i (take k s) @ REDACTED @ ?t) = None"
          using hit_inner[of p s k l i q ?t] Some kl i by simp
        moreover have "take i (take k s) = take i s" using i by (simp add: min_absorb1)
        ultimately show ?thesis by simp
      qed
      then show ?thesis unfolding t using c by (simp add: clean_append)
    qed
  qed
qed

lemma pass_clean: "clean hit [] (fst (scan hit [] s))"
  by (rule scan_clean) (simp add: same_before_def)

lemma later_clean: "redacts s t \<Longrightarrow> clean hit [] s \<Longrightarrow> clean hit [] t"
  by (rule redacts_clean) (auto simp: same_before_def)

lemma scan_nothing: "clean hit p s \<Longrightarrow> scan hit p s = (s, 0)"
  by (induction s arbitrary: p) simp_all

lemma scan_none: "snd (scan hit p s) = 0 \<Longrightarrow> fst (scan hit p s) = s"
  by (induction s arbitrary: p) (auto split: option.splits prod.splits, metis fst_conv snd_conv)

end

section \<open>The passes keep the promise\<close>

lemma char_run_append: "char_run P (b @ s) = (if list_all P b then length b + char_run P s else char_run P b)"
  by (induction b) (auto simp: char_run_def)

lemma char_run_le: "char_run P b \<le> length b"
  by (simp add: char_run_def length_takeWhile_le)

lemma char_run_less: "\<not> list_all P b \<Longrightarrow> char_run P b < length b"
  by (induction b) (auto simp: char_run_def)

lemma char_run_stops: "drop (char_run P s) s = [] \<or> \<not> P (hd (drop (char_run P s) s))"
  unfolding char_run_def by (metis dropWhile_eq_drop hd_dropWhile)

lemma angle_signs:
  "\<not> token_char CHR ''<''" "\<not> credential_char CHR ''<''" "\<not> is_digit CHR ''<''" "\<not> is_quote CHR ''<''"
  "\<not> word_char CHR ''>''" "\<not> token_char CHR ''>''" "\<not> is_digit CHR ''>''"
  by code_simp+

lemma char_run_REDACTED: "\<not> P CHR ''<'' \<Longrightarrow> char_run P (REDACTED @ x) = 0"
  by (simp add: char_run_def REDACTED_def)

lemma digit_token: "is_digit c \<Longrightarrow> token_char c"
  by (simp add: token_char_def is_ascii_alnum_def)

lemma placeholder_parts:
  assumes "REDACTED = x @ y" and "x \<noteq> []" and "y \<noteq> []"
  obtains i where "i \<in> {1..<10}" and "x = take i REDACTED" and "y = drop i REDACTED"
proof -
  have "length REDACTED = 10" by (simp add: REDACTED_def)
  then have "length x + length y = 10" using assms(1) by (metis length_append)
  moreover have "0 < length x" "0 < length y" using assms(2,3) by simp_all
  ultimately have "length x \<in> {1..<10}" unfolding atLeastLessThan_iff by linarith
  moreover have "x = take (length x) REDACTED" "y = drop (length x) REDACTED" unfolding assms(1) by simp_all
  ultimately show thesis using that by blast
qed

text \<open>Right of a placeholder's start a run is no longer than before the replacement.\<close>

lemma char_run_right: "\<not> P CHR ''<'' \<Longrightarrow> char_run P (b @ REDACTED @ x) \<le> char_run P (b @ z)"
  using char_run_append[of P b "REDACTED @ x"] char_run_append[of P b z] char_run_REDACTED[of P x] by simp

lemma drop_right: "drop n (b @ s) = (if n < length b then drop n b @ s else drop (n - length b) s)"
  by simp

lemma bot_token_right:
  assumes "bot_token_at (b @ REDACTED @ x) \<noteq> None"
  shows "bot_token_at (b @ z) \<noteq> None"
proof (cases "list_all is_digit b")
  case True
  then have "char_run is_digit (b @ REDACTED @ x) = length b"
    using char_run_append[of is_digit b "REDACTED @ x"] char_run_REDACTED[of is_digit x] angle_signs(3) by simp
  then show ?thesis using assms by (simp add: bot_token_at_def REDACTED_def Let_def split: if_splits)
next
  case False
  let ?d = "char_run is_digit b"
  have d: "char_run is_digit (b @ s) = ?d" for s using False by (simp add: char_run_append)
  have lt: "?d < length b"
    using False by (rule char_run_less)
  then obtain c cs where c: "drop ?d b = c # cs" by (cases "drop ?d b") auto
  then have "drop ?d (b @ s) = c # cs @ s" for s using lt by simp
  then have "bot_token_at (b @ s) = (if ?d < 6 \<or> c \<noteq> CHR '':'' then None
      else let secret = char_run token_char (cs @ s) in if 30 \<le> secret then Some (?d + 1 + secret) else None)" for s
    unfolding bot_token_at_def d Let_def by (simp del: drop_append)
  then show ?thesis
    using assms char_run_right[of token_char cs x z] angle_signs(1) by (simp split: if_splits add: Let_def)
qed

lemma after_bot_left: "a \<noteq> [] \<Longrightarrow> after_bot (a @ CHR ''>'' # q) \<Longrightarrow> after_bot (a @ p)"
proof -
  assume a: "a \<noteq> []" "after_bot (a @ CHR ''>'' # q)"
  have "3 \<le> length a"
  proof (rule ccontr)
    assume "\<not> 3 \<le> length a"
    then have "CHR ''>'' \<in> set (take 3 (a @ CHR ''>'' # q))" by (cases "3 - length a") auto
    then have "ascii_lower CHR ''>'' \<in> set (to_ascii_lowercase (rev (take 3 (a @ CHR ''>'' # q))))"
      unfolding to_ascii_lowercase_def by (simp only: set_map set_rev image_eqI)
    then have "ascii_lower CHR ''>'' \<in> set (to_ascii_lowercase ''bot'')"
      using a(2) by (simp only: after_bot_def eq_ignore_ascii_case_def)
    moreover have "ascii_lower CHR ''>'' \<notin> set (to_ascii_lowercase ''bot'')" by code_simp
    ultimately show False by blast
  qed
  then show "after_bot (a @ p)" using a(2) by (simp add: after_bot_def)
qed

lemma starts_word_left: "a \<noteq> [] \<Longrightarrow> starts_word (a @ p) = starts_word (a @ q)"
  "a \<noteq> [] \<Longrightarrow> at_boundary (a @ p) = at_boundary (a @ q)"
  by (cases a; simp add: starts_word_def at_boundary_def)+

lemma bot_token_length: "bot_token_at r = Some l \<Longrightarrow> 0 < l \<and> l \<le> length r
    \<and> (drop l r = [] \<or> \<not> token_char (hd (drop l r)))"
proof -
  assume l: "bot_token_at r = Some l"
  let ?d = "char_run is_digit r"
  obtain c cs where c: "drop ?d r = c # cs" using l by (auto simp: bot_token_at_def Let_def split: list.splits)
  have len: "l = ?d + 1 + char_run token_char cs" using l c by (auto simp: bot_token_at_def Let_def split: if_splits)
  have "length r = ?d + Suc (length cs)" 
    using arg_cong[OF c, of length] char_run_le[of is_digit r] by (simp only: length_drop list.size(4))
  moreover have "drop l r = drop (char_run token_char cs) cs"
    using c unfolding len by (metis One_nat_def add.commute drop_Suc_Cons drop_drop plus_1_eq_Suc add.assoc)
  ultimately show ?thesis using len char_run_le[of token_char cs] char_run_stops[of token_char cs] by simp
qed

interpretation bot: secret_scan bot_hit
proof
  show "bot_hit p r \<noteq> None \<Longrightarrow> r \<noteq> [] \<and> token_char (hd r)" for p r
    by (cases r) (auto simp: bot_hit_def digit_token split: if_splits)
  show "b \<noteq> [] \<Longrightarrow> bot_hit p (b @ REDACTED @ x) \<noteq> None \<Longrightarrow> bot_hit p (b @ z) \<noteq> None" for b p x z
    using bot_token_right[of b x z] by (cases b) (auto simp: bot_hit_def split: if_splits)
  show "a \<noteq> [] \<Longrightarrow> bot_hit (a @ CHR ''>'' # q) r \<noteq> None \<Longrightarrow> bot_hit (a @ p) r \<noteq> None" for a q r p
    using after_bot_left[of a q p] starts_word_left(1)[of a p "CHR ''>'' # q"]
    by (cases r) (auto simp: bot_hit_def split: if_splits)
  show "bot_hit (rev x @ q) (y @ z) = None" if xy: "REDACTED = x @ y" "x \<noteq> []" "y \<noteq> []" for x y q z
  proof -
    have "set y \<subseteq> set REDACTED" using xy(1) by (metis Un_upper2 set_append)
    moreover have "list_all (\<lambda>c. \<not> is_digit c) REDACTED" by code_simp
    ultimately have "\<not> is_digit (hd y)" using hd_in_set[OF xy(3)] unfolding list_all_iff by blast
    then show ?thesis using xy(3) by (cases y) (simp_all add: bot_hit_def)
  qed
  fix p r k l assume h: "bot_hit p r = Some (k, l)"
  then have k: "k = 0" and l: "bot_token_at r = Some l" by (cases r; auto simp: bot_hit_def split: if_splits)+
  show "0 < l \<and> k + l \<le> length r" using k bot_token_length[OF l] by simp
  show "drop (k + l) r = [] \<or> \<not> token_char (hd (drop (k + l) r))" using k bot_token_length[OF l] by simp
  show "0 < k \<Longrightarrow> bot_hit q (take k r @ REDACTED @ x) = None" for q x using k by simp
  show "0 < j \<Longrightarrow> j < k \<Longrightarrow> bot_hit (rev (take j r) @ q) (drop j (take k r) @ REDACTED @ x) = None" for j q x
    using k by simp
qed

lemma ascii_lower_token: "token_char (ascii_lower c) = token_char c" "word_char (ascii_lower c) = word_char c"
  by (auto simp: token_char_def word_char_def is_ascii_alnum_def is_ascii_alpha_def is_digit_def ascii_lower_def
      Let_def of_char_int code_of_def)

lemma heads_nth: "heads n r \<Longrightarrow> i < length n \<Longrightarrow> ascii_lower (r ! i) = ascii_lower (n ! i)"
proof -
  assume h: "heads n r" and i: "i < length n"
  then have "to_ascii_lowercase (take (length n) r) ! i = to_ascii_lowercase n ! i"
    by (simp only: heads_def eq_ignore_ascii_case_def)
  then show "ascii_lower (r ! i) = ascii_lower (n ! i)" using h i by (simp add: to_ascii_lowercase_def heads_def)
qed

lemma heads_right:
  assumes "heads n (b @ REDACTED @ x)" and "list_all token_char n"
  shows "length n \<le> length b \<and> heads n (b @ z)"
proof -
  have "length n \<le> length b"
  proof (rule ccontr)
    assume "\<not> length n \<le> length b"
    then have lt: "length b < length n" by simp
    then have "token_char (n ! length b)" using assms(2) by (simp add: list_all_length)
    then have "token_char ((b @ REDACTED @ x) ! length b)"
      using heads_nth[OF assms(1) lt] ascii_lower_token(1) by metis
    then show False using angle_signs(1) by (simp add: nth_append REDACTED_def)
  qed
  then show ?thesis using assms(1) by (simp add: heads_def)
qed

lemma heads_hd:
  assumes "heads n r" and "list_all token_char n" and "n \<noteq> []"
  shows "r \<noteq> [] \<and> token_char (hd r)"
proof -
  have "0 < length n" "length n \<le> length r" using assms(1,3) by (simp_all add: heads_def)
  then have "r \<noteq> []" by auto
  moreover have "token_char (n ! 0)" using assms(2,3) by (cases n) simp_all
  then have "token_char (r ! 0)" using heads_nth[OF assms(1) \<open>0 < length n\<close>] ascii_lower_token(1) by metis
  ultimately show ?thesis by (simp add: hd_conv_nth)
qed

text \<open>Inside a name there is no boundary.\<close>

lemma rev_take_hd: "0 < j \<Longrightarrow> j \<le> length r \<Longrightarrow> \<exists>t. rev (take j r) @ q = (r ! (j - 1)) # t"
proof -
  assume "0 < j" "j \<le> length r"
  then have "take j r = take (j - 1) r @ [r ! (j - 1)]"
    using take_Suc_conv_app_nth[of "j - 1" r] by simp
  then show ?thesis by simp
qed

lemma token_no_boundary: "at_boundary (c # q) \<longleftrightarrow> \<not> token_char c"
  by (simp add: at_boundary_def token_char_def word_char_def)

lemma inside_token:
  assumes "0 < j" and "j \<le> length r" and "token_char (r ! (j - 1))"
  shows "\<not> at_boundary (rev (take j r) @ q)"
  using rev_take_hd[OF assms(1,2), of q] assms(3) token_no_boundary by auto

lemma boundary_in_placeholder:
  assumes "REDACTED = x @ y" and "x \<noteq> []" and "y \<noteq> []" and "at_boundary (rev x @ q)"
  shows "y = ''redacted>''"
proof -
  obtain i where i: "i \<in> {1..<10}" "x = take i REDACTED" "y = drop i REDACTED" using placeholder_parts[OF assms(1-3)] .
  have len: "length REDACTED = 10" by (simp add: REDACTED_def)
  have "list_all (\<lambda>i. token_char (REDACTED ! (i - 1))) [2..<10]" by code_simp
  moreover have "\<not> token_char (REDACTED ! (i - 1))"
    using assms(4) i inside_token[of i REDACTED q] len by auto
  ultimately have "i \<notin> set [2..<10]" unfolding list_all_iff by blast
  then have "i = 1" using i(1) by simp
  then show ?thesis using i(3) by (simp add: REDACTED_def)
qed

section \<open>Header credentials\<close>

lemma find_unique:
  assumes "\<And>a b. a \<in> set xs \<Longrightarrow> b \<in> set xs \<Longrightarrow> P a \<Longrightarrow> P b \<Longrightarrow> a = b"
  shows "find P xs = Some n \<longleftrightarrow> n \<in> set xs \<and> P n"
  using assms by (induction xs) auto

text \<open>No name is the start of another, so at most one of them starts a text.\<close>

definition prefix_free :: "string list \<Rightarrow> bool" where
  "prefix_free ns = list_all (\<lambda>n. list_all (\<lambda>m. to_ascii_lowercase (take (length n) m) = to_ascii_lowercase n \<longrightarrow> n = m) ns) ns"

lemma heads_unique:
  assumes "prefix_free ns" and "n \<in> set ns" and "m \<in> set ns" and "heads n r" and "heads m r"
  shows "n = m"
proof -
  have one: "n = m" if "length n \<le> length m" "n \<in> set ns" "m \<in> set ns" "heads n r" "heads m r" for n m
  proof -
    have "to_ascii_lowercase (take (length n) m) = take (length n) (to_ascii_lowercase m)"
      by (simp add: to_ascii_lowercase_def take_map)
    also have "\<dots> = take (length n) (to_ascii_lowercase (take (length m) r))"
      using that(5) by (simp add: heads_def eq_ignore_ascii_case_def)
    also have "\<dots> = to_ascii_lowercase (take (length n) r)"
      using that(1) by (simp add: to_ascii_lowercase_def take_map min_absorb1)
    also have "\<dots> = to_ascii_lowercase n" using that(4) by (simp add: heads_def eq_ignore_ascii_case_def)
    finally show ?thesis using assms(1) that(2,3) unfolding prefix_free_def list_all_iff by blast
  qed
  show ?thesis using one[of n m] one[of m n] assms(2-5) by (cases "length n \<le> length m") simp_all
qed

lemma auth_schemes_names: "prefix_free AUTH_SCHEMES" "list_all (\<lambda>n. list_all word_char n \<and> n \<noteq> []) AUTH_SCHEMES"
  "list_all (\<lambda>n. ascii_lower (n ! 0) \<notin> set REDACTED) AUTH_SCHEMES"
  by code_simp+

lemma auth_hit_iff: "auth_hit p r = Some (k, l) \<longleftrightarrow> starts_word p
    \<and> (\<exists>n m. n \<in> set AUTH_SCHEMES \<and> heads n r \<and> auth_value (drop (length n) r) = Some (m, l) \<and> k = length n + m)"
proof -
  have f: "find (\<lambda>n. heads n r \<and> starts_word p) AUTH_SCHEMES = Some n \<longleftrightarrow> n \<in> set AUTH_SCHEMES \<and> heads n r \<and> starts_word p" for n
    by (rule find_unique) (use heads_unique[OF auth_schemes_names(1)] in blast)
  show ?thesis
  proof
    assume h: "auth_hit p r = Some (k, l)"
    then obtain n where n: "find (\<lambda>n. heads n r \<and> starts_word p) AUTH_SCHEMES = Some n"
      by (auto simp: auth_hit_def split: option.split_asm)
    then have "map_option (\<lambda>(k, l). (length n + k, l)) (auth_value (drop (length n) r)) = Some (k, l)"
      using h by (simp add: auth_hit_def)
    then show "starts_word p \<and> (\<exists>n m. n \<in> set AUTH_SCHEMES \<and> heads n r \<and> auth_value (drop (length n) r) = Some (m, l) \<and> k = length n + m)"
      using n unfolding f by auto
  next
    assume "starts_word p \<and> (\<exists>n m. n \<in> set AUTH_SCHEMES \<and> heads n r \<and> auth_value (drop (length n) r) = Some (m, l) \<and> k = length n + m)"
    then obtain n m where n: "find (\<lambda>n. heads n r \<and> starts_word p) AUTH_SCHEMES = Some n"
      "auth_value (drop (length n) r) = Some (m, l)" "k = length n + m" unfolding f by blast
    then show "auth_hit p r = Some (k, l)" unfolding auth_hit_def by simp
  qed
qed

lemma run_split: "\<not> list_all P b \<Longrightarrow> \<exists>b1 c b2. b = b1 @ c # b2 \<and> list_all P b1 \<and> \<not> P c"
proof (induction b)
  case (Cons a b)
  show ?case
  proof (cases "P a")
    case True
    then obtain b1 c b2 where "b = b1 @ c # b2" "list_all P b1" "\<not> P c" using Cons by auto
    then have "a # b = (a # b1) @ c # b2 \<and> list_all P (a # b1) \<and> \<not> P c" using True by simp
    then show ?thesis by blast
  next
    case False
    then have "a # b = [] @ a # b \<and> list_all P [] \<and> \<not> P a" by simp
    then show ?thesis by blast
  qed
qed simp

lemma token_credential: "token_char c \<Longrightarrow> credential_char c"
  by (simp add: credential_char_def)

lemma char_run_split: "list_all P b1 \<Longrightarrow> \<not> P c \<Longrightarrow> char_run P (b1 @ c # s) = length b1"
  by (induction b1) (auto simp: char_run_def)

lemma auth_value_right: "auth_value (b @ REDACTED @ x) \<noteq> None \<Longrightarrow> auth_value (b @ z) \<noteq> None"
proof (cases "list_all (\<lambda>c. c = CHR '' '') b")
  case True
  then have "char_run (\<lambda>c. c = CHR '' '') (b @ REDACTED @ x) = length b"
    using char_run_append[of "\<lambda>c. c = CHR '' ''" b "REDACTED @ x"] char_run_REDACTED[of "\<lambda>c. c = CHR '' ''" x] by simp
  then show "auth_value (b @ REDACTED @ x) \<noteq> None \<Longrightarrow> ?thesis"
    using char_run_REDACTED[of credential_char x] angle_signs(2) by (simp add: auth_value_def Let_def)
next
  case False
  then obtain b1 c b2 where b: "b = b1 @ c # b2" "list_all (\<lambda>c. c = CHR '' '') b1" "c \<noteq> CHR '' ''"
    using run_split[OF False] by blast
  have run: "char_run (\<lambda>c. c = CHR '' '') (b1 @ c # s) = length b1" for s using b(2,3) by (rule char_run_split)
  have "auth_value (b @ s) = (if 1 \<le> length b1 \<and> 8 \<le> char_run credential_char ((c # b2) @ s)
      then Some (length b1, char_run credential_char ((c # b2) @ s)) else None)" for s
    using run[of "b2 @ s"] by (simp add: auth_value_def Let_def b(1))
  then show "auth_value (b @ REDACTED @ x) \<noteq> None \<Longrightarrow> ?thesis"
    using char_run_right[of credential_char "c # b2" x z] angle_signs(2) by (auto split: if_splits)
qed

interpretation auth: secret_scan auth_hit
proof
  have tok: "list_all token_char n \<and> n \<noteq> []" if "n \<in> set AUTH_SCHEMES" for n
    using that auth_schemes_names(2) by (auto simp: list_all_iff token_char_def word_char_def)
  show "auth_hit p r \<noteq> None \<Longrightarrow> r \<noteq> [] \<and> token_char (hd r)" for p r
    using heads_hd tok by (auto simp: auth_hit_iff)
  show "b \<noteq> [] \<Longrightarrow> auth_hit p (b @ REDACTED @ x) \<noteq> None \<Longrightarrow> auth_hit p (b @ z) \<noteq> None" for b p x z
  proof -
    assume "auth_hit p (b @ REDACTED @ x) \<noteq> None"
    then obtain n m l where n: "starts_word p" "n \<in> set AUTH_SCHEMES" "heads n (b @ REDACTED @ x)"
      "auth_value (drop (length n) (b @ REDACTED @ x)) = Some (m, l)" by (auto simp: auth_hit_iff)
    have le: "length n \<le> length b" "heads n (b @ z)" using heads_right[OF n(3)] tok[OF n(2)] by blast+
    then have "auth_value (drop (length n) b @ z) \<noteq> None"
      using n(4) auth_value_right[of "drop (length n) b" x z] by simp
    then obtain m l where "auth_value (drop (length n) (b @ z)) = Some (m, l)" using le by auto
    then have "auth_hit p (b @ z) = Some (length n + m, l)" using n(1,2) le by (auto simp: auth_hit_iff)
    then show ?thesis by simp
  qed
  show "a \<noteq> [] \<Longrightarrow> auth_hit (a @ CHR ''>'' # q) r \<noteq> None \<Longrightarrow> auth_hit (a @ p) r \<noteq> None" for a q r p
    using starts_word_left(1)[of a p "CHR ''>'' # q"] by (simp add: auth_hit_def)
  show "auth_hit (rev x @ q) (y @ z) = None" if xy: "REDACTED = x @ y" "x \<noteq> []" "y \<noteq> []" for x y q z
  proof (rule ccontr)
    assume "auth_hit (rev x @ q) (y @ z) \<noteq> None"
    then obtain n where n: "n \<in> set AUTH_SCHEMES" "heads n (y @ z)" by (auto simp: auth_hit_iff)
    then have "ascii_lower ((y @ z) ! 0) = ascii_lower (n ! 0)" using tok by (auto intro: heads_nth)
    moreover have "(y @ z) ! 0 \<in> set REDACTED" using xy(3) unfolding xy(1) by (cases y) simp_all
    moreover have "list_all (\<lambda>c. ascii_lower c = c) REDACTED" by code_simp
    ultimately have "ascii_lower (n ! 0) \<in> set REDACTED" unfolding list_all_iff by metis
    then show False using n(1) auth_schemes_names(3) unfolding list_all_iff by blast
  qed
  fix p r k l assume h: "auth_hit p r = Some (k, l)"
  then obtain n m where n: "n \<in> set AUTH_SCHEMES" "heads n r" "auth_value (drop (length n) r) = Some (m, l)" "k = length n + m"
    by (auto simp: auth_hit_iff)
  let ?s = "drop (length n) r"
  have m: "m = char_run (\<lambda>c. c = CHR '' '') ?s" "l = char_run credential_char (drop m ?s)" "1 \<le> m" "8 \<le> l"
    using n(3) by (auto simp: auth_value_def Let_def split: if_splits)
  have r: "drop (k + l) r = drop l (drop m ?s)" by (simp add: n(4) add.commute add.left_commute)
  have lr: "length n \<le> length r" using n(2) by (simp add: heads_def)
  show "0 < l \<and> k + l \<le> length r"
    using m(1,2,4) char_run_le[of "\<lambda>c. c = CHR '' ''" ?s] char_run_le[of credential_char "drop m ?s"] n(4) lr by simp
  show "drop (k + l) r = [] \<or> \<not> token_char (hd (drop (k + l) r))"
  proof -
    have "drop l (drop m ?s) = [] \<or> \<not> credential_char (hd (drop l (drop m ?s)))"
      unfolding m(2) by (rule char_run_stops)
    then show ?thesis unfolding r using token_credential by blast
  qed
  have spaces: "takeWhile (\<lambda>c. c = CHR '' '') ?s = take m ?s" unfolding m(1) char_run_def by (rule takeWhile_eq_take)
  have pre: "take k r = take (length n) r @ take m ?s" by (simp add: n(4) take_add)
  have all: "list_all (\<lambda>c. c = CHR '' '') (take m ?s)" unfolding spaces[symmetric] by (auto simp: list_all_iff dest: set_takeWhileD)
  have len: "length (take m ?s) = m" using m(1) char_run_le[of "\<lambda>c. c = CHR '' ''" ?s] by simp
  have none: "auth_value (take m ?s @ REDACTED @ x) = None" for x
    using char_run_append[of "\<lambda>c. c = CHR '' ''" "take m ?s" "REDACTED @ x"] all len
      char_run_REDACTED[of "\<lambda>c. c = CHR '' ''" x] char_run_REDACTED[of credential_char x] angle_signs(2)
    by (simp add: auth_value_def Let_def)
  show "auth_hit q (take k r @ REDACTED @ x) = None" if "0 < k" for q x
  proof (rule ccontr)
    assume "auth_hit q (take k r @ REDACTED @ x) \<noteq> None"
    then obtain n' m' l' where n': "n' \<in> set AUTH_SCHEMES" "heads n' (take k r @ REDACTED @ x)"
      "auth_value (drop (length n') (take k r @ REDACTED @ x)) = Some (m', l')" by (auto simp: auth_hit_iff)
    have "heads n (take k r @ REDACTED @ x)" using n(2) lr by (simp add: heads_def pre)
    then have "n' = n" using heads_unique[OF auth_schemes_names(1)] n(1) n' by blast
    then have "drop (length n') (take k r @ REDACTED @ x) = take m ?s @ REDACTED @ x" using lr by (simp add: pre)
    then show False using n'(3) none by simp
  qed
  show "auth_hit (rev (take j r) @ q) (drop j (take k r) @ REDACTED @ x) = None" if j: "0 < j" "j < k" for j q x
  proof (rule ccontr)
    assume a: "auth_hit (rev (take j r) @ q) (drop j (take k r) @ REDACTED @ x) \<noteq> None"
    then obtain n' where n': "starts_word (rev (take j r) @ q)" "n' \<in> set AUTH_SCHEMES" "heads n' (drop j (take k r) @ REDACTED @ x)"
      by (auto simp: auth_hit_iff)
    show False
    proof (cases "j \<le> length n")
      case True
      then have "word_char (n ! (j - 1))" using auth_schemes_names(2) n(1) j by (simp add: list_all_iff)
      then have "word_char (r ! (j - 1))" using heads_nth[OF n(2), of "j - 1"] True j ascii_lower_token(2) by (metis diff_less less_le_trans less_one)
      moreover obtain t where "rev (take j r) @ q = (r ! (j - 1)) # t" using rev_take_hd[of j r q] True j lr by auto
      ultimately show False using n'(1) by (simp add: starts_word_def)
    next
      case False
      then have d: "drop j (take k r) = drop (j - length n) (take m ?s)" using lr by (simp add: pre)
      moreover have "drop (j - length n) (take m ?s) \<noteq> []" using False j(2) n(4) len by simp
      ultimately obtain c t where c: "drop j (take k r) = c # t" "c \<in> set (take m ?s)"
        by (metis in_set_dropD list.exhaust list.set_intros(1))
      then have "c = CHR '' ''" using all by (simp add: list_all_iff)
      moreover have "token_char c" using heads_hd[OF n'(3)] tok[OF n'(2)] c(1) by simp
      moreover have "\<not> token_char CHR '' ''" by code_simp
      ultimately show False by simp
    qed
  qed
qed

section \<open>Keys with a prefix\<close>

lemma key_prefixes_ok:
  "list_all (\<lambda>(p, m). list_all token_char p \<and> p \<noteq> [] \<and> 0 < m \<and> \<not> starts_with p ''redacted>'') KEY_PREFIXES"
  "list_all (\<lambda>(p, m). list_all (\<lambda>(p', m'). starts_with p' p \<longrightarrow> p' = p) KEY_PREFIXES) KEY_PREFIXES"
  "list_all (\<lambda>(p, m). length p \<le> 9 \<or> hd p \<noteq> CHR ''r'') KEY_PREFIXES"
  by code_simp+

lemma starts_with_right:
  assumes "starts_with n (b @ REDACTED @ x)" and "list_all token_char n"
  shows "length n \<le> length b \<and> starts_with n b"
proof -
  have n: "take (length n) (b @ REDACTED @ x) = n" using assms(1) unfolding starts_with_def .
  have "length n \<le> length b"
  proof (rule ccontr)
    assume "\<not> length n \<le> length b"
    then have lt: "length b < length n" by simp
    then have "n ! length b = (b @ REDACTED @ x) ! length b" using n nth_take[of "length b" "length n" "b @ REDACTED @ x"] by simp
    moreover have "token_char (n ! length b)" using assms(2) lt by (simp add: list_all_length)
    ultimately show False using angle_signs(1) by (simp add: nth_append REDACTED_def)
  qed
  then show ?thesis using n by (simp add: starts_with_def)
qed

lemma key_hit_some: "key_hit p r \<noteq> None \<longleftrightarrow> at_boundary p \<and> (\<exists>pm \<in> set KEY_PREFIXES. key_at r pm)"
  by (auto simp: key_hit_def find_None_iff split: option.splits prod.splits) (metis find_None_iff option.distinct(1) surj_pair)

lemma key_hit_parts:
  assumes "key_hit p r = Some (k, l)"
  obtains n m where "at_boundary p" "(n, m) \<in> set KEY_PREFIXES" "starts_with n r" "m \<le> l" "k = length n"
    "l = char_run token_char (drop k r)" "list_all token_char n" "n \<noteq> []" "0 < m"
proof -
  obtain n m where f: "find (key_at r) KEY_PREFIXES = Some (n, m)" "at_boundary p" "k = length n" "l = char_run token_char (drop k r)"
    using assms by (auto simp: key_hit_def split: if_splits option.splits)
  then have "(n, m) \<in> set KEY_PREFIXES \<and> key_at r (n, m)" using find_Some_mem by metis
  then show thesis using that[of n m] f key_prefixes_ok(1) by (auto simp: key_at_def list_all_iff)
qed

lemma key_at_starts: "key_at r (n, m) \<Longrightarrow> (n, m) \<in> set KEY_PREFIXES \<Longrightarrow> r \<noteq> [] \<and> token_char (hd r)"
proof -
  assume k: "key_at r (n, m)" "(n, m) \<in> set KEY_PREFIXES"
  then have n: "n \<noteq> []" "list_all token_char n" using key_prefixes_ok(1) by (auto simp: list_all_iff)
  have "take (length n) r = n" using k(1) by (simp add: key_at_def starts_with_def)
  then show ?thesis using n by (cases n; cases r) auto
qed

interpretation key: secret_scan key_hit
proof
  show "key_hit p r \<noteq> None \<Longrightarrow> r \<noteq> [] \<and> token_char (hd r)" for p r
    unfolding key_hit_some using key_at_starts by force
  show "b \<noteq> [] \<Longrightarrow> key_hit p (b @ REDACTED @ x) \<noteq> None \<Longrightarrow> key_hit p (b @ z) \<noteq> None" for b p x z
  proof -
    assume "key_hit p (b @ REDACTED @ x) \<noteq> None"
    then obtain n m where n: "at_boundary p" "(n, m) \<in> set KEY_PREFIXES" "key_at (b @ REDACTED @ x) (n, m)"
      unfolding key_hit_some by auto
    then have "list_all token_char n" using key_prefixes_ok(1) by (auto simp: list_all_iff)
    then have le: "length n \<le> length b" "starts_with n b" using starts_with_right n(3) by (auto simp: key_at_def)
    then have "key_at (b @ z) (n, m)"
      using n(3) char_run_right[of token_char "drop (length n) b" x z] angle_signs(1) by (simp add: key_at_def starts_with_def)
    then show ?thesis using n unfolding key_hit_some by blast
  qed
  show "a \<noteq> [] \<Longrightarrow> key_hit (a @ CHR ''>'' # q) r \<noteq> None \<Longrightarrow> key_hit (a @ p) r \<noteq> None" for a q r p
    using starts_word_left(2)[of a p "CHR ''>'' # q"] by (simp add: key_hit_def)
  show "key_hit (rev x @ q) (y @ z) = None" if xy: "REDACTED = x @ y" "x \<noteq> []" "y \<noteq> []" for x y q z
  proof (rule ccontr)
    assume "key_hit (rev x @ q) (y @ z) \<noteq> None"
    then obtain n m where n: "at_boundary (rev x @ q)" "(n, m) \<in> set KEY_PREFIXES" "key_at (y @ z) (n, m)"
      unfolding key_hit_some by auto
    have y: "y = ''redacted>''" using boundary_in_placeholder[OF xy n(1)] .
    have ok: "\<not> starts_with n ''redacted>''" "length n \<le> 9 \<or> hd n \<noteq> CHR ''r''" "n \<noteq> []"
      using n(2) key_prefixes_ok(1,3) by (auto simp: list_all_iff)
    have "take (length n) (''redacted>'' @ z) = n" using n(3) by (simp add: key_at_def starts_with_def y)
    moreover from this have "hd n = CHR ''r''" using ok(3) by (cases n) auto
    ultimately have "take (length n) ''redacted>'' = n" using ok(2) take_append[of "length n" "''redacted>''" z] by simp
    then show False using ok(1) by (simp add: starts_with_def)
  qed
  fix p r k l assume h: "key_hit p r = Some (k, l)"
  obtain n m where n: "at_boundary p" "(n, m) \<in> set KEY_PREFIXES" "starts_with n r" "m \<le> l" "k = length n"
    "l = char_run token_char (drop k r)" "list_all token_char n" "n \<noteq> []" "0 < m" using key_hit_parts[OF h] .
  have take: "take k r = n" using n(3,5) by (simp add: starts_with_def)
  then have le: "k \<le> length r" using n(5) by (metis length_take min_def nat_le_linear)
  show "0 < l \<and> k + l \<le> length r" using n(4,6,9) char_run_le[of token_char "drop k r"] le by simp
  show "drop (k + l) r = [] \<or> \<not> token_char (hd (drop (k + l) r))"
    using char_run_stops[of token_char "drop k r"] unfolding n(6)[symmetric] by (simp add: add.commute)
  show "key_hit q (take k r @ REDACTED @ x) = None" for q x
  proof (rule ccontr)
    assume "key_hit q (take k r @ REDACTED @ x) \<noteq> None"
    then obtain n' m' where n': "(n', m') \<in> set KEY_PREFIXES" "key_at (n @ REDACTED @ x) (n', m')"
      unfolding key_hit_some take by auto
    then have ok: "list_all token_char n'" "0 < m'" using key_prefixes_ok(1) by (auto simp: list_all_iff)
    have "starts_with n' n" using starts_with_right[of n' n x] n'(2) ok(1) by (simp add: key_at_def)
    then have "n' = n" using n' n(2) key_prefixes_ok(2) by (fastforce simp: list_all_iff)
    then show False using n'(2) ok(2) char_run_REDACTED[of token_char x] angle_signs(1) by (simp add: key_at_def)
  qed
  show "key_hit (rev (take j r) @ q) (drop j (take k r) @ REDACTED @ x) = None" if j: "0 < j" "j < k" for j q x
  proof -
    have "r ! (j - 1) = n ! (j - 1)" using take j nth_take[of "j - 1" k r] by simp
    moreover have "token_char (n ! (j - 1))" using n(5,7) j by (simp add: list_all_length)
    ultimately have "\<not> at_boundary (rev (take j r) @ q)" using inside_token[of j r q] j le by simp
    then show ?thesis by (simp add: key_hit_def)
  qed
qed

section \<open>Named values\<close>

lemma secret_names_ok: "prefix_free SECRET_NAMES" "list_all (\<lambda>n. list_all token_char n \<and> n \<noteq> []) SECRET_NAMES"
  "list_all (\<lambda>n. list_ex (\<lambda>i. i < length n \<and> ascii_lower (n ! i) \<noteq> ascii_lower (''redacted>'' ! i)) [0..<9]) SECRET_NAMES"
  by code_simp+

lemma named_hit_iff: "named_hit p r = Some (k, l) \<longleftrightarrow> at_boundary p
    \<and> (\<exists>n m. n \<in> set SECRET_NAMES \<and> length n < length r \<and> heads n r
         \<and> value_at (drop (length n) r) = Some (m, l) \<and> k = length n + m)"
proof -
  have f: "find (\<lambda>n. length n < length r \<and> heads n r) SECRET_NAMES = Some n
      \<longleftrightarrow> n \<in> set SECRET_NAMES \<and> length n < length r \<and> heads n r" for n
    by (rule find_unique) (use heads_unique[OF secret_names_ok(1)] in blast)
  show ?thesis
  proof
    assume h: "named_hit p r = Some (k, l)"
    then obtain n where n: "at_boundary p" "find (\<lambda>n. length n < length r \<and> heads n r) SECRET_NAMES = Some n"
      by (auto simp: named_hit_def split: option.split_asm if_splits)
    then have "map_option (\<lambda>(k, l). (length n + k, l)) (value_at (drop (length n) r)) = Some (k, l)"
      using h by (simp add: named_hit_def)
    then show "at_boundary p \<and> (\<exists>n m. n \<in> set SECRET_NAMES \<and> length n < length r \<and> heads n r
         \<and> value_at (drop (length n) r) = Some (m, l) \<and> k = length n + m)"
      using n unfolding f by auto
  next
    assume "at_boundary p \<and> (\<exists>n m. n \<in> set SECRET_NAMES \<and> length n < length r \<and> heads n r
         \<and> value_at (drop (length n) r) = Some (m, l) \<and> k = length n + m)"
    then obtain n m where n: "at_boundary p" "find (\<lambda>n. length n < length r \<and> heads n r) SECRET_NAMES = Some n"
      "value_at (drop (length n) r) = Some (m, l)" "k = length n + m" unfolding f by blast
    then show "named_hit p r = Some (k, l)" unfolding named_hit_def by simp
  qed
qed

lemma value_signs: "\<not> is_separator CHR ''<''" "is_quote c \<Longrightarrow> \<not> is_separator c" "is_quote c \<Longrightarrow> c \<noteq> CHR '' ''"
    "is_quote c \<Longrightarrow> \<not> token_char c" "is_separator c \<Longrightarrow> \<not> token_char c" "\<not> is_quote CHR '' ''"
  by (auto simp: is_separator_def is_quote_def DQUOTE_def APOSTROPHE_def token_char_def is_ascii_alnum_def
      is_ascii_alpha_def is_digit_def)

lemma no_value: "\<not> secret_value []" "contains_str v REDACTED \<Longrightarrow> \<not> secret_value v"
  by (simp_all add: secret_value_def utf8_len_def)

lemma contains_mid: "contains_str (a @ REDACTED @ b) REDACTED"
proof (induction a)
  case Nil
  show ?case by (simp add: REDACTED_def starts_with_def)
qed simp

text \<open>A quoted value cut by a placeholder holds it, and an unquoted one only grows without it.\<close>

lemma quoted_value_right:
  assumes "is_quote d" and "secret_value (takeWhile (\<lambda>x. x \<noteq> d) (b @ REDACTED @ x))"
  shows "\<exists>b1 b2. b = b1 @ d # b2 \<and> list_all (\<lambda>x. x \<noteq> d) b1"
proof (rule ccontr)
  assume "\<not> ?thesis"
  then have all: "list_all (\<lambda>x. x \<noteq> d) b" using run_split[of "\<lambda>x. x \<noteq> d" b] by blast
  have "list_all (\<lambda>c. \<not> is_quote c) REDACTED" by code_simp
  then have "\<forall>c \<in> set REDACTED. c \<noteq> d" using assms(1) by (auto simp: list_all_iff)
  then have "takeWhile (\<lambda>x. x \<noteq> d) (b @ REDACTED @ x) = b @ REDACTED @ takeWhile (\<lambda>x. x \<noteq> d) x"
    using all by (simp add: list_all_iff)
  then show False using assms(2) no_value(2) contains_mid by metis
qed

lemma utf8_len_append: "utf8_len (a @ b) = utf8_len a + utf8_len b"
  by (simp add: utf8_len_def)

lemma credential_ascii: "list_all credential_char v \<Longrightarrow> utf8_len v = length v"
proof (induction v)
  case (Cons c v)
  have "(of_char c :: int) < 128"
    using Cons.prems by (auto simp: credential_char_def token_char_def is_ascii_alnum_def is_ascii_alpha_def is_digit_def Let_def)
  then show ?case using Cons by (simp add: utf8_len_def)
qed (simp add: utf8_len_def)

lemma free_value_right:
  assumes "secret_value (takeWhile credential_char (b @ REDACTED @ x))"
  shows "secret_value (takeWhile credential_char (b @ z))"
proof (cases "list_all credential_char b")
  case False
  then obtain b1 c b2 where "b = b1 @ c # b2" "list_all credential_char b1" "\<not> credential_char c" using run_split by blast
  then have "takeWhile credential_char (b @ s) = b1" for s by (simp add: list_all_iff)
  then show ?thesis using assms by simp
next
  case True
  have "takeWhile credential_char (REDACTED @ x) = []" using angle_signs(2) by (simp add: REDACTED_def)
  then have v: "secret_value b" using assms True by (simp add: list_all_iff)
  let ?w = "takeWhile credential_char z"
  have w: "takeWhile credential_char (b @ z) = b @ ?w" using True by (simp add: list_all_iff)
  have all: "list_all credential_char (b @ ?w)" using True by (auto simp: list_all_iff dest: set_takeWhileD)
  have len: "6 \<le> length b" using v True credential_ascii[of b] by (simp add: secret_value_def)
  have scheme: "?w = []" if "eq_ignore_ascii_case (b @ ?w) n" "length n \<le> 6" for n
  proof -
    have "length (b @ ?w) = length n" using that(1) by (metis eq_ignore_ascii_case_def length_map to_ascii_lowercase_def)
    then have "length ?w = 0" using that(2) len by (simp only: length_append)
    then show ?thesis by simp
  qed
  have "\<not> contains_str (b @ ?w) REDACTED"
    using contains_chars[of "b @ ?w" REDACTED] all angle_signs(2) by (auto simp: list_all_iff REDACTED_def)
  moreover have "\<not> eq_ignore_ascii_case (b @ ?w) ''bearer''" "\<not> eq_ignore_ascii_case (b @ ?w) ''basic''"
    using scheme[of "''bearer''"] scheme[of "''basic''"] v by (auto simp: secret_value_def)
  moreover have "6 \<le> utf8_len (b @ ?w)" using v by (simp add: secret_value_def utf8_len_append)
  ultimately show ?thesis unfolding w secret_value_def by blast
qed

lemma skip_quote_right:
  "b \<noteq> [] \<Longrightarrow> skip_quote (b @ s) = (fst (skip_quote b) @ s, snd (skip_quote b))"
  by (cases b) (simp_all add: skip_quote_def)

lemma skip_quote_REDACTED: "skip_quote (REDACTED @ x) = (REDACTED @ x, None)"
  using angle_signs(4) by (simp add: skip_quote_def REDACTED_def)

definition holds_value :: "string \<Rightarrow> bool" where
  \<comment> \<open>what follows the separator, spaces dropped\<close>
  "holds_value s = (case skip_quote s of (s3, q) \<Rightarrow> secret_value (value_of q s3))"

lemma value_at_some: "value_at s \<noteq> None \<longleftrightarrow>
    (\<exists>c cs. fst (skip_quote s) = c # cs \<and> is_separator c \<and> holds_value (dropWhile (\<lambda>c. c = CHR '' '') cs))"
  by (auto simp: value_at_def holds_value_def Let_def split: list.splits prod.splits if_splits)

lemma value_at_right:
  assumes "value_at (b @ REDACTED @ x) \<noteq> None"
  shows "value_at (b @ z) \<noteq> None"
proof -
  obtain c cs where c: "fst (skip_quote (b @ REDACTED @ x)) = c # cs" "is_separator c"
    "holds_value (dropWhile (\<lambda>c. c = CHR '' '') cs)"
    using assms unfolding value_at_some by blast
  have "b \<noteq> []" using c(1,2) value_signs(1) skip_quote_REDACTED by (auto simp: REDACTED_def)
  note skip = skip_quote_right[OF this]
  have "fst (skip_quote b) \<noteq> []" using c(1,2) value_signs(1) skip[of "REDACTED @ x"] by (auto simp: REDACTED_def)
  then obtain b3 where b3: "fst (skip_quote b) = c # b3" "cs = b3 @ REDACTED @ x"
    using c(1) skip[of "REDACTED @ x"] by (cases "fst (skip_quote b)") auto
  let ?sp = "\<lambda>c. c = CHR '' ''"
  have "\<not> list_all ?sp b3"
  proof
    assume "list_all ?sp b3"
    then have "dropWhile ?sp cs = REDACTED @ x" using b3(2) by (simp add: list_all_iff REDACTED_def dropWhile_append)
    then show False using c(3) skip_quote_REDACTED no_value(1) angle_signs(2) by (simp add: holds_value_def value_of_def REDACTED_def)
  qed
  then obtain s1 f b4 where b4: "b3 = s1 @ f # b4" "list_all ?sp s1" "f \<noteq> CHR '' ''" using run_split by blast
  then have drop: "dropWhile ?sp (b3 @ s) = f # b4 @ s" for s by (simp add: list_all_iff)
  have "holds_value (f # b4 @ z)"
  proof (cases "is_quote f")
    case True
    then have v: "secret_value (takeWhile (\<lambda>x. x \<noteq> f) (b4 @ REDACTED @ x))"
      using c(3) unfolding b3(2) drop by (simp add: holds_value_def skip_quote_def value_of_def)
    from quoted_value_right[OF True this] obtain v1 v2 where "b4 = v1 @ f # v2" "list_all (\<lambda>x. x \<noteq> f) v1" by blast
    then show ?thesis using v True by (simp add: holds_value_def skip_quote_def value_of_def list_all_iff)
  next
    case False
    then have "secret_value (takeWhile credential_char ((f # b4) @ REDACTED @ x))"
      using c(3) unfolding b3(2) drop by (simp add: holds_value_def skip_quote_def value_of_def)
    from free_value_right[OF this, of z] show ?thesis using False by (simp add: holds_value_def skip_quote_def value_of_def)
  qed
  then show ?thesis unfolding value_at_some using skip[of z] b3(1) c(2) drop[of z] by simp
qed

text \<open>What \<open>value_at\<close> found, in pieces: a quote or none, the separator, spaces, a quote or none, and the value.\<close>

lemma skip_quote_split:
  assumes "skip_quote s = (s', q)"
  shows "\<exists>w. s = w @ s' \<and> (q = None \<and> w = [] \<or> (\<exists>d. q = Some d \<and> w = [d] \<and> is_quote d))"
  using assms by (cases s) (auto simp: skip_quote_def split: if_splits)

lemma value_at_shape:
  assumes "value_at s = Some (m, l)"
  obtains oq c sp w q where "take m s = oq @ c # sp @ w" "m \<le> length s" "oq = [] \<or> (\<exists>d. oq = [d] \<and> is_quote d)"
    "is_separator c" "list_all (\<lambda>c. c = CHR '' '') sp" "q = None \<and> w = [] \<or> (\<exists>d. q = Some d \<and> w = [d] \<and> is_quote d)"
    "l = length (value_of q (drop m s))" "secret_value (value_of q (drop m s))"
proof -
  obtain c cs q0 where c: "skip_quote s = (c # cs, q0)" "is_separator c"
    using assms by (auto simp: value_at_def split: list.splits prod.splits if_splits) (metis prod.collapse)
  obtain s3 q where s3: "skip_quote (dropWhile (\<lambda>c. c = CHR '' '') cs) = (s3, q)" by (cases "skip_quote (dropWhile (\<lambda>c. c = CHR '' '') cs)")
  have v: "secret_value (value_of q s3)" "m = length s - length s3" "l = length (value_of q s3)"
    using assms c s3 by (auto simp: value_at_def Let_def split: if_splits)
  obtain oq where oq: "s = oq @ c # cs" "oq = [] \<or> (\<exists>d. oq = [d] \<and> is_quote d)" using skip_quote_split[OF c(1)] by blast
  obtain w where w: "dropWhile (\<lambda>c. c = CHR '' '') cs = w @ s3" "q = None \<and> w = [] \<or> (\<exists>d. q = Some d \<and> w = [d] \<and> is_quote d)"
    using skip_quote_split[OF s3] by blast
  let ?sp = "takeWhile (\<lambda>c. c = CHR '' '') cs"
  have s: "s = (oq @ c # ?sp @ w) @ s3" using oq(1) w(1) takeWhile_dropWhile_id[of "\<lambda>c. c = CHR '' ''" cs] by simp
  have "m = length (oq @ c # ?sp @ w)" using v(2) arg_cong[OF s, of length] by (simp only: length_append)
  then have "take m s = oq @ c # ?sp @ w" "drop m s = s3" "m \<le> length s" using s by (metis append_eq_conv_conj, metis append_eq_conv_conj,
      metis length_append le_add1)
  moreover have "list_all (\<lambda>c. c = CHR '' '') ?sp" by (auto simp: list_all_iff dest: set_takeWhileD)
  ultimately show thesis using that oq(2) c(2) w(2) v by blast
qed

lemma value_spent: assumes "value_at s = Some (m, l)" shows "value_at (take m s @ REDACTED @ x) = None"
proof -
  obtain oq c sp w q where v: "take m s = oq @ c # sp @ w" "m \<le> length s" "oq = [] \<or> (\<exists>d. oq = [d] \<and> is_quote d)"
    "is_separator c" "list_all (\<lambda>c. c = CHR '' '') sp" "q = None \<and> w = [] \<or> (\<exists>d. q = Some d \<and> w = [d] \<and> is_quote d)"
    "l = length (value_of q (drop m s))" "secret_value (value_of q (drop m s))" by (rule value_at_shape[OF assms])
  have "fst (skip_quote (oq @ c # sp @ w @ REDACTED @ x)) = c # sp @ w @ REDACTED @ x"
    using v(3,4) value_signs(2) by (auto simp: skip_quote_def)
  moreover have "dropWhile (\<lambda>c. c = CHR '' '') (sp @ w @ REDACTED @ x) = w @ REDACTED @ x"
  proof -
    have "dropWhile (\<lambda>c. c = CHR '' '') (sp @ t) = dropWhile (\<lambda>c. c = CHR '' '') t" for t using v(5) by (induction sp) simp_all
    moreover have "dropWhile (\<lambda>c. c = CHR '' '') (w @ REDACTED @ x) = w @ REDACTED @ x"
      using v(6) value_signs(3) by (auto simp: REDACTED_def)
    ultimately show ?thesis by simp
  qed
  moreover have "\<not> holds_value (w @ REDACTED @ x)"
  proof (cases "w = []")
    case True
    then show ?thesis using skip_quote_REDACTED[of x] no_value(1) angle_signs(2)
      by (simp add: holds_value_def value_of_def REDACTED_def)
  next
    case False
    then obtain d where d: "w = [d]" "is_quote d" using v(6) by blast
    then show ?thesis using quoted_value_right[OF d(2), of "[]" x] by (auto simp: holds_value_def skip_quote_def value_of_def)
  qed
  ultimately have "\<not> (value_at (oq @ c # sp @ w @ REDACTED @ x) \<noteq> None)" unfolding value_at_some by simp
  then have "value_at (oq @ c # sp @ w @ REDACTED @ x) = None" by blast
  then show ?thesis unfolding v(1) by simp
qed

lemma value_signs_only: assumes "value_at s = Some (m, l)" shows "list_all (\<lambda>c. \<not> token_char c) (take m s)"
proof -
  obtain oq c sp w q where v: "take m s = oq @ c # sp @ w" "m \<le> length s" "oq = [] \<or> (\<exists>d. oq = [d] \<and> is_quote d)"
    "is_separator c" "list_all (\<lambda>c. c = CHR '' '') sp" "q = None \<and> w = [] \<or> (\<exists>d. q = Some d \<and> w = [d] \<and> is_quote d)"
    "l = length (value_of q (drop m s))" "secret_value (value_of q (drop m s))" by (rule value_at_shape[OF assms])
  have sp: "\<not> token_char CHR '' ''" by code_simp
  have "list_all (\<lambda>c. \<not> token_char c) sp" using v(5) sp by (induction sp) auto
  moreover have "list_all (\<lambda>c. \<not> token_char c) oq" "list_all (\<lambda>c. \<not> token_char c) w" using v(3,6) value_signs(4) by auto
  ultimately show ?thesis unfolding v(1) using v(4) value_signs(5) by simp
qed

lemma value_stops:
  assumes "value_at s = Some (m, l)"
  shows "0 < l \<and> m + l \<le> length s \<and> (drop (m + l) s = [] \<or> \<not> token_char (hd (drop (m + l) s)))"
proof -
  obtain oq c sp w q where u: "take m s = oq @ c # sp @ w" "m \<le> length s" "oq = [] \<or> (\<exists>d. oq = [d] \<and> is_quote d)"
    "is_separator c" "list_all (\<lambda>c. c = CHR '' '') sp" "q = None \<and> w = [] \<or> (\<exists>d. q = Some d \<and> w = [d] \<and> is_quote d)"
    "l = length (value_of q (drop m s))" "secret_value (value_of q (drop m s))" by (rule value_at_shape[OF assms])
  note v = u(2,7,8)
  have d: "is_quote d" if "q = Some d" for d using u(6) that by auto
  have pre: "length (value_of q t) \<le> length t" for t by (cases q) (simp_all add: value_of_def length_takeWhile_le)
  have "value_of q (drop m s) \<noteq> []" using v(3) no_value(1) by auto
  then have pos: "0 < l" using v(2) by simp
  have "drop l (drop m s) = [] \<or> \<not> token_char (hd (drop l (drop m s)))"
  proof (cases q)
    case None
    then have l: "l = char_run credential_char (drop m s)" using v(2) by (simp add: value_of_def char_run_def)
    show ?thesis using char_run_stops[of credential_char "drop m s"] token_credential unfolding l by blast
  next
    case (Some d)
    then have l: "l = char_run (\<lambda>x. x \<noteq> d) (drop m s)" using v(2) by (simp add: value_of_def char_run_def)
    have "\<not> token_char d" using d[OF Some] value_signs(4) by blast
    then show ?thesis using char_run_stops[of "\<lambda>x. x \<noteq> d" "drop m s"] unfolding l by auto
  qed
  then show ?thesis using pos v(1,2) pre[of "drop m s"] by (simp add: add.commute)
qed

interpretation named: secret_scan named_hit
proof
  have tok: "list_all token_char n \<and> n \<noteq> []" if "n \<in> set SECRET_NAMES" for n
    using that secret_names_ok(2) unfolding list_all_iff by blast
  show "named_hit p r \<noteq> None \<Longrightarrow> r \<noteq> [] \<and> token_char (hd r)" for p r
    using heads_hd tok by (auto simp: named_hit_iff)
  show "b \<noteq> [] \<Longrightarrow> named_hit p (b @ REDACTED @ x) \<noteq> None \<Longrightarrow> named_hit p (b @ z) \<noteq> None" for b p x z
  proof -
    assume "named_hit p (b @ REDACTED @ x) \<noteq> None"
    then obtain n m l where n: "at_boundary p" "n \<in> set SECRET_NAMES" "heads n (b @ REDACTED @ x)"
      "value_at (drop (length n) (b @ REDACTED @ x)) = Some (m, l)" by (auto simp: named_hit_iff)
    have le: "length n \<le> length b" "heads n (b @ z)" using heads_right[OF n(3)] tok[OF n(2)] by blast+
    then have "value_at (drop (length n) (b @ z)) \<noteq> None"
      using n(4) value_at_right[of "drop (length n) b" x z] by simp
    then obtain m l where v: "value_at (drop (length n) (b @ z)) = Some (m, l)" by auto
    then have "0 < length (drop (length n) (b @ z))" using value_stops[OF v] by linarith
    then have "named_hit p (b @ z) = Some (length n + m, l)" using n(1,2) le v by (auto simp: named_hit_iff)
    then show ?thesis by simp
  qed
  show "a \<noteq> [] \<Longrightarrow> named_hit (a @ CHR ''>'' # q) r \<noteq> None \<Longrightarrow> named_hit (a @ p) r \<noteq> None" for a q r p
    using starts_word_left(2)[of a p "CHR ''>'' # q"] by (simp add: named_hit_def)
  show "named_hit (rev x @ q) (y @ z) = None" if xy: "REDACTED = x @ y" "x \<noteq> []" "y \<noteq> []" for x y q z
  proof (rule ccontr)
    assume "named_hit (rev x @ q) (y @ z) \<noteq> None"
    then obtain n where n: "at_boundary (rev x @ q)" "n \<in> set SECRET_NAMES" "heads n (y @ z)" by (auto simp: named_hit_iff)
    have y: "y = ''redacted>''" using boundary_in_placeholder[OF xy n(1)] .
    obtain i where i: "i < 9" "i < length n" "ascii_lower (n ! i) \<noteq> ascii_lower (''redacted>'' ! i)"
      using secret_names_ok(3) n(2) by (auto simp: list_all_iff list_ex_iff)
    have "(y @ z) ! i = ''redacted>'' ! i" using i(1) nth_append[of "''redacted>''" z i] by (simp add: y)
    then show False using heads_nth[OF n(3) i(2)] i(3) by metis
  qed
  fix p r k l assume h: "named_hit p r = Some (k, l)"
  then obtain n m where n: "n \<in> set SECRET_NAMES" "heads n r" "value_at (drop (length n) r) = Some (m, l)" "k = length n + m"
    "length n < length r" by (auto simp: named_hit_iff)
  let ?s = "drop (length n) r"
  note stops = value_stops[OF n(3)]
  show "0 < l \<and> k + l \<le> length r" using stops n(4,5) by auto
  have "drop (k + l) r = drop (m + l) ?s" by (simp add: n(4) add.commute add.left_commute)
  then show "drop (k + l) r = [] \<or> \<not> token_char (hd (drop (k + l) r))" using stops by simp
  have lr: "length n \<le> length r" using n(5) by simp
  have pre: "take k r = take (length n) r @ take m ?s" by (simp add: n(4) take_add)
  have kr: "k \<le> length r" using \<open>0 < l \<and> k + l \<le> length r\<close> by simp
  show "named_hit q (take k r @ REDACTED @ x) = None" if "0 < k" for q x
  proof (rule ccontr)
    assume "named_hit q (take k r @ REDACTED @ x) \<noteq> None"
    then obtain n' m' l' where n': "n' \<in> set SECRET_NAMES" "heads n' (take k r @ REDACTED @ x)"
      "value_at (drop (length n') (take k r @ REDACTED @ x)) = Some (m', l')" by (auto simp: named_hit_iff)
    have "heads n (take k r @ REDACTED @ x)" using n(2) lr by (simp add: heads_def pre)
    then have "n' = n" using heads_unique[OF secret_names_ok(1)] n(1) n' by blast
    then have "drop (length n') (take k r @ REDACTED @ x) = take m ?s @ REDACTED @ x" using lr by (simp add: pre)
    then show False using n'(3) value_spent[OF n(3)] by simp
  qed
  show "named_hit (rev (take j r) @ q) (drop j (take k r) @ REDACTED @ x) = None" if j: "0 < j" "j < k" for j q x
  proof (rule ccontr)
    assume a: "named_hit (rev (take j r) @ q) (drop j (take k r) @ REDACTED @ x) \<noteq> None"
    then obtain n' where n': "at_boundary (rev (take j r) @ q)" "n' \<in> set SECRET_NAMES" "heads n' (drop j (take k r) @ REDACTED @ x)"
      by (auto simp: named_hit_iff)
    show False
    proof (cases "j \<le> length n")
      case True
      then have "token_char (n ! (j - 1))" using tok[OF n(1)] j by (simp add: list_all_length)
      then have "token_char (r ! (j - 1))"
        using heads_nth[OF n(2), of "j - 1"] True j ascii_lower_token(1) by (metis diff_less less_le_trans less_one)
      then show False using inside_token[of j r q] n'(1) True j lr by simp
    next
      case False
      then have d: "drop j (take k r) = drop (j - length n) (take m ?s)" using lr by (simp add: pre)
      moreover have "drop (j - length n) (take m ?s) \<noteq> []" using False j(2) n(4) kr by simp
      ultimately obtain c t where c: "drop j (take k r) = c # t" "c \<in> set (take m ?s)"
        by (metis in_set_dropD list.exhaust list.set_intros(1))
      then have "\<not> token_char c" using value_signs_only[OF n(3)] by (simp add: list_all_iff)
      then show False using heads_hd[OF n'(3)] tok[OF n'(2)] c(1) by simp
    qed
  qed
qed

section \<open>Redacting\<close>

definition hit_free :: "string \<Rightarrow> bool" where
  "hit_free t = list_all (\<lambda>hit. clean hit [] t) [bot_hit, auth_hit, key_hit, named_hit]"

lemma redact_passes:
  "rd_text (redact s) = fst (named_values (fst (prefixed_keys (fst (auth_schemes (fst (bot_tokens s)))))))"
  "rd_count (redact s) = snd (bot_tokens s) + snd (auth_schemes (fst (bot_tokens s)))
     + snd (prefixed_keys (fst (auth_schemes (fst (bot_tokens s)))))
     + snd (named_values (fst (prefixed_keys (fst (auth_schemes (fst (bot_tokens s)))))))"
  by (simp_all add: redact_def Let_def case_prod_beta)

lemmas pass_defs = bot_tokens_def auth_schemes_def prefixed_keys_def named_values_def

lemma redacted_hit_free: "hit_free (rd_text (redact s))"
proof -
  let ?a = "fst (bot_tokens s)" let ?b = "fst (auth_schemes ?a)" let ?c = "fst (prefixed_keys ?b)" let ?d = "fst (named_values ?c)"
  have r: "redacts ?a ?b" "redacts ?b ?c" "redacts ?c ?d"
    unfolding pass_defs by (rule auth.scan_redacts key.scan_redacts named.scan_redacts)+
  have c: "clean bot_hit [] ?a" "clean auth_hit [] ?b" "clean key_hit [] ?c" "clean named_hit [] ?d"
    unfolding pass_defs by (rule bot.pass_clean auth.pass_clean key.pass_clean named.pass_clean)+
  have "clean bot_hit [] ?d" using c(1) r bot.later_clean by blast
  moreover have "clean auth_hit [] ?d" using c(2) r auth.later_clean by blast
  moreover have "clean key_hit [] ?d" using c(3) r key.later_clean by blast
  ultimately show ?thesis using c(4) by (simp add: hit_free_def redact_passes)
qed

lemma redact_hit_free: "hit_free t \<Longrightarrow> redact t = \<lparr>rd_text = t, rd_count = 0\<rparr>"
proof -
  assume "hit_free t"
  then have "bot_tokens t = (t, 0)" "auth_schemes t = (t, 0)" "prefixed_keys t = (t, 0)" "named_values t = (t, 0)"
    unfolding pass_defs hit_free_def by (simp_all add: bot.scan_nothing auth.scan_nothing key.scan_nothing named.scan_nothing)
  then show ?thesis by (simp add: redact_def)
qed

lemma bot_token_hit:
  assumes "list_all is_digit d" and "6 \<le> length d" and "list_all token_char k" and "30 \<le> length k"
  shows "bot_hit (rev (u @ ''/bot'')) (d @ '':'' @ k @ v) \<noteq> None"
proof -
  have "\<not> is_digit CHR '':''" by code_simp
  then have "char_run is_digit (d @ CHR '':'' # k @ v) = length d" using assms(1) by (intro char_run_split)
  moreover have "length k \<le> char_run token_char (k @ v)" using assms(3) by (simp add: char_run_append)
  ultimately have "bot_token_at (d @ '':'' @ k @ v) \<noteq> None"
    using assms(2,4) by (simp add: bot_token_at_def Let_def)
  moreover have "after_bot (rev (u @ ''/bot''))" by (simp add: after_bot_def eq_ignore_ascii_case_def)
  moreover obtain c cs where "d = c # cs" "is_digit c" using assms(1,2) by (cases d) auto
  ultimately show ?thesis by (simp add: bot_hit_def)
qed

section \<open>Properties\<close>

text \<open>C22: redacted text holds no secret that any of the four passes recognises, at any position, so redacting it again
  changes nothing; in particular no Telegram bot URL keeps its token. And where nothing was redacted the text is the
  one given.\<close>

theorem redacted_text_holds_no_secret:
  fixes s :: string
  defines "t \<equiv> rd_text (redact s)"
  shows "(\<forall>i \<le> length t. bot_hit (rev (take i t)) (drop i t) = None \<and> auth_hit (rev (take i t)) (drop i t) = None
        \<and> key_hit (rev (take i t)) (drop i t) = None \<and> named_hit (rev (take i t)) (drop i t) = None)
    \<and> redact t = \<lparr>rd_text = t, rd_count = 0\<rparr>
    \<and> (\<forall>u d k v. list_all is_digit d \<and> 6 \<le> length d \<and> list_all token_char k \<and> 30 \<le> length k
        \<longrightarrow> t \<noteq> u @ ''/bot'' @ d @ '':'' @ k @ v)
    \<and> (rd_count (redact s) = 0 \<longrightarrow> t = s)"
proof (intro conjI allI impI notI)
  have t: "hit_free t" unfolding t_def by (rule redacted_hit_free)
  then have c: "clean bot_hit [] t" "clean auth_hit [] t" "clean key_hit [] t" "clean named_hit [] t"
    by (simp_all add: hit_free_def)
  show "redact t = \<lparr>rd_text = t, rd_count = 0\<rparr>" using t by (rule redact_hit_free)
  show "bot_hit (rev (take i t)) (drop i t) = None" "auth_hit (rev (take i t)) (drop i t) = None"
    "key_hit (rev (take i t)) (drop i t) = None" "named_hit (rev (take i t)) (drop i t) = None" if "i \<le> length t" for i
    using c that by (simp_all add: clean_positions)
  show False if a: "list_all is_digit d \<and> 6 \<le> length d \<and> list_all token_char k \<and> 30 \<le> length k"
    and b: "t = u @ ''/bot'' @ d @ '':'' @ k @ v" for u d k v
  proof -
    let ?i = "length (u @ ''/bot'')"
    have "take ?i t = u @ ''/bot''" "drop ?i t = d @ '':'' @ k @ v" "?i \<le> length t" unfolding b by simp_all
    then have "bot_hit (rev (u @ ''/bot'')) (d @ '':'' @ k @ v) = None" using c(1) unfolding clean_positions by metis
    then show False using bot_token_hit[of d k u v] a by blast
  qed
  show "t = s" if z: "rd_count (redact s) = 0"
  proof -
    have "fst (bot_tokens s) = s" "fst (auth_schemes s) = s" "fst (prefixed_keys s) = s" "fst (named_values s) = s"
      using z bot.scan_none[of "[]" s] auth.scan_none[of "[]" s] key.scan_none[of "[]" s] named.scan_none[of "[]" s]
      unfolding redact_passes pass_defs by auto
    then show ?thesis by (simp add: t_def redact_passes)
  qed
qed

definition demo_log :: string where
  "demo_log = ''/bot7000000001:AAFakeFakeFakeFakeFakeFakeFakeFake_0?token=abcdef1''"

lemma redacted_text_holds_no_secret_witness:
  "rd_text (redact demo_log) = ''/bot<redacted>?token=<redacted>''
    \<and> redact ''/bot<redacted>?token=<redacted>''
        = \<lparr>rd_text = ''/bot<redacted>?token=<redacted>'', rd_count = 0\<rparr>
    \<and> rd_text (redact ''plain'') = ''plain''"
proof -
  have t: "rd_text (redact demo_log) = ''/bot<redacted>?token=<redacted>''" by code_simp
  have "rd_count (redact ''plain'') = 0" by code_simp
  then show ?thesis
    using redacted_text_holds_no_secret[of demo_log] redacted_text_holds_no_secret[of "''plain''"] unfolding t by blast
qed

end
