(* ===== verification/Store.thy ===== *)
theory Store
  imports Judgment
begin

text \<open>
  The work-item store, \<^verbatim>\<open>rustykrab-store/src/work_items/{mod,ops}.rs\<close> with the question, judgment,
  notice and facet writes of \<^verbatim>\<open>questions.rs\<close> and \<^verbatim>\<open>proposals.rs\<close> that a batch can carry.

  A table is the list of its rows in row-id order; a row is kept decoded (theory \<open>Rows\<close> has the
  decoding). The constraints the schema declares (primary keys, the foreign keys of
  \<^verbatim>\<open>work_item_deps\<close>, \<^verbatim>\<open>leases\<close> and \<^verbatim>\<open>questions\<close>) are checked where a statement could break them;
  SQLite itself is taken not to fail otherwise. A function of the store returns the error it
  refuses with, or the new state with its result; a transaction that fails leaves the old state.
  The source of row ids \<^verbatim>\<open>Uuid::new_v4\<close> is a parameter: the n-th id drawn.
\<close>

section \<open>Errors\<close>

datatype WorkStoreError =
    WseNotFound string
  | WseAlreadyExists string
  | WsePriorityMismatch work_item_id int int
  | WseClosed work_item_id Status
  | WseStatusMismatch work_item_id Status Status
  | WseLeaseHeld work_item_id string
  | WseNotClosed work_item_id Status
  | WseEventCarriesStatus work_item_id EventKind
  | WseStorage string

type_synonym 'a checked = "WorkStoreError + 'a"

definition and_then :: "'a checked \<Rightarrow> ('a \<Rightarrow> 'b checked) \<Rightarrow> 'b checked" where
  \<comment> \<open>the operator \<open>?\<close>\<close>
  "and_then r f = (case r of Inl e \<Rightarrow> Inl e | Inr x \<Rightarrow> f x)"

definition ok_or :: "WorkStoreError \<Rightarrow> 'a option \<Rightarrow> 'a checked" where
  "ok_or e x = (case x of None \<Rightarrow> Inl e | Some a \<Rightarrow> Inr a)"

lemma and_then_simps [simp]: "and_then (Inl e) f = Inl e" "and_then (Inr x) f = f x"
  by (simp_all add: and_then_def)

lemma and_then_Inr_iff: "and_then r f = Inr y \<longleftrightarrow> (\<exists>x. r = Inr x \<and> f x = Inr y)"
  by (cases r) simp_all

lemma ok_or_Inr_iff [simp]: "ok_or e x = Inr a \<longleftrightarrow> x = Some a"
  by (cases x) (simp_all add: ok_or_def)

lemma ok_or_simps [simp]: "ok_or e None = Inl e" "ok_or e (Some a) = Inr a"
  by (simp_all add: ok_or_def)

text \<open>The message of a primary key or foreign key that a statement breaks, as SQLite words it.\<close>

definition unique_failed :: "string \<Rightarrow> WorkStoreError" where
  "unique_failed column = WseStorage (''UNIQUE constraint failed: '' @ column)"

section \<open>Rows\<close>

record InputRef =
  ir_item :: work_item_id
  ir_title :: string
  ir_status :: Status
  ir_edge :: "EdgeKind option"
  ir_evidence :: "ArtifactRef list"
  ir_artifacts :: "ArtifactRef list"
  ir_summary :: string
  ir_error :: "WorkError option"

record Lease =
  ls_item :: work_item_id
  ls_worker :: string
  ls_since :: timestamp
  ls_ttl_seconds :: u64
  ls_heartbeat_at :: timestamp
  ls_inputs :: "InputRef list"

record Evidence =
  ed_item :: work_item_id
  ed_kind :: string
  ed_reference :: string
  ed_hash :: "string option"
  ed_verified_by :: "string option"
  ed_at :: timestamp

record WorkFilter =
  fl_status :: "Status option"
  fl_kind :: "WorkKind option"
  fl_parent :: "work_item_id option"
  fl_include_closed :: bool

record TransitionSpec =
  ts_item :: work_item_id
  ts_expected_from :: "Status option"
  ts_to :: Status
  ts_kind :: EventKind
  ts_actor :: string
  ts_reason :: "string option"
  ts_upstream :: "work_item_id option"
  ts_origin :: "work_item_id option"
  ts_evidence_ref :: "string option"

fun default_event_kind :: "Status \<Rightarrow> EventKind" where
  "default_event_kind (Blocked r) = (if is_cascade r then EvCascade else EvTransition)"
| "default_event_kind (Cancelled CrCascade) = EvCascade"
| "default_event_kind _ = EvTransition"

definition TransitionSpec_new :: "work_item_id \<Rightarrow> Status \<Rightarrow> string \<Rightarrow> TransitionSpec" where
  "TransitionSpec_new item to actor =
     \<lparr>ts_item = item, ts_expected_from = None, ts_to = to, ts_kind = default_event_kind to,
      ts_actor = actor, ts_reason = None, ts_upstream = None, ts_origin = None, ts_evidence_ref = None\<rparr>"

record RepointSpec =
  rs_item :: work_item_id
  rs_kind :: "EdgeKind option"
  rs_old_upstream :: work_item_id
  rs_new_upstream :: work_item_id
  rs_origin :: "work_item_id option"
  rs_actor :: string

record WorkPlanRow =
  pr_id :: string
  pr_root :: work_item_id
  pr_filed_by :: "work_item_id option"
  pr_rationale :: string
  pr_approval_question :: "string option"
  pr_policy :: "string option"
  pr_created_at :: timestamp

record OutboxDraft =
  od_parent :: work_item_id
  od_origin :: "work_item_id option"
  od_channel :: string
  od_body :: string

record OutboxRow =
  ob_id :: string
  ob_parent :: work_item_id
  ob_origin :: "work_item_id option"
  ob_channel :: string
  ob_body :: string
  ob_created_at :: timestamp
  ob_delivered_at :: "timestamp option"
  ob_retired_at :: "timestamp option"
  ob_not_before :: "timestamp option"

record Spend =
  sp_runs :: u32
  sp_tokens :: u64
  sp_wall_ms :: u64
  sp_iterations :: u64

record RunSpend =
  ru_item :: work_item_id
  ru_run :: "string option"
  ru_worker :: string
  ru_tokens :: u64
  ru_wall_ms :: u64
  ru_iterations :: u32
  ru_at :: timestamp

record ArchivedItem =
  av_id :: work_item_id
  av_kind :: WorkKind
  av_title :: string
  av_parent :: "work_item_id option"
  av_status :: Status
  av_worker :: "string option"
  av_cost :: "Spend option"
  av_closed_at :: timestamp
  av_archived_at :: timestamp
  av_summary :: string
  av_edges :: "Edge list"

record LeaseRecord =
  lr_lease :: Lease
  lr_released_at :: "timestamp option"

datatype AnswerSubmissionStatus = AsPending | AsApplied | AsRejected

record AnswerSubmission =
  as_id :: string
  as_answer :: string
  as_actor :: string
  as_submitted_at :: timestamp
  as_status :: AnswerSubmissionStatus
  as_completed_at :: "timestamp option"
  as_error :: "string option"

record QuestionRow =
  qr_id :: string
  qr_item :: work_item_id
  qr_root :: work_item_id
  qr_kind :: QuestionKind
  qr_class :: QuestionClass
  qr_text :: string
  qr_options :: "string list"
  qr_default_answer :: "string option"
  qr_asked_class :: "string option"
  qr_rule :: string
  qr_asked_by :: string
  qr_status :: QuestionStatus
  qr_delivered_via :: "string option"
  qr_answer :: "string option"
  qr_answered_by :: "string option"
  qr_answered_at :: "timestamp option"
  qr_research_item :: "work_item_id option"
  qr_decision :: "DelegatedDecision option"
  qr_created_at :: timestamp
  qr_superseded_by :: "string option"
  qr_answer_submission :: "AnswerSubmission option"

datatype QuestionWrite =
    QwInsert QuestionRow
  | QwAnswerProcessed string string "string option" timestamp
  | QwSupersede string string timestamp
  | QwSettle string QuestionStatus "string option" "string option" "DelegatedDecision option" timestamp
  | QwResearch string work_item_id
  | QwDelivered string string

record QuestionFilter =
  qf_item :: "work_item_id option"
  qf_root :: "work_item_id option"
  qf_status :: "QuestionStatus option"
  qf_waiting :: bool

record NoticeDraft =
  nd_draft :: OutboxDraft
  nd_not_before :: "timestamp option"
  nd_replace :: "string option"

record WaitingNotice =
  wn_id :: string
  wn_parent :: work_item_id
  wn_channel :: string
  wn_body :: string
  wn_not_before :: timestamp

datatype WorkOp =
    OpInsert WorkItem
  | OpSetPriority work_item_id int int
  | OpPlan WorkPlanRow
  | OpAddEdge Edge
  | OpRemoveOrderingEdgesOf work_item_id
  | OpRemoveEdge Edge
  | OpRepoint RepointSpec
  | OpTransition TransitionSpec
  | OpNote WorkEvent
  | OpOutbox OutboxDraft
  | OpFacets work_item_id WorkFacets
  | OpReleaseHold work_item_id
  | OpAddArtifactRef work_item_id ArtifactRef
  | OpQuestion QuestionWrite
  | OpJudgment JudgmentRow
  | OpNotice NoticeDraft

record WorkApplied =
  wa_events :: "WorkEvent list"
  wa_outbox_ids :: "string list"

definition WorkApplied_default :: WorkApplied where
  "WorkApplied_default = \<lparr>wa_events = [], wa_outbox_ids = []\<rparr>"

section \<open>The database\<close>

record Store =
  st_items :: "WorkItem list"
  st_deps :: "Edge list"
  st_events :: "WorkEvent list"
  st_evidence :: "Evidence list"
  st_leases :: "Lease list"
  st_lease_history :: "(Lease \<times> timestamp) list"
  st_outbox :: "OutboxRow list"
  st_archive :: "ArchivedItem list"
  st_plans :: "WorkPlanRow list"
  st_spend :: "RunSpend list"
  st_questions :: "QuestionRow list"
  st_judgments :: "JudgmentRow list"
  st_facets :: "(work_item_id \<times> WorkFacets) list"

definition Store_empty :: Store where
  "Store_empty =
     \<lparr>st_items = [], st_deps = [], st_events = [], st_evidence = [], st_leases = [],
      st_lease_history = [], st_outbox = [], st_archive = [], st_plans = [], st_spend = [],
      st_questions = [], st_judgments = [], st_facets = []\<rparr>"

text \<open>\<^verbatim>\<open>UPDATE ... WHERE key = k\<close> on a table.\<close>

definition update_where :: "('r \<Rightarrow> bool) \<Rightarrow> ('r \<Rightarrow> 'r) \<Rightarrow> 'r list \<Rightarrow> 'r list" where
  "update_where p f rows = map (\<lambda>r. if p r then f r else r) rows"

definition i64_max :: nat where
  "i64_max = 2 ^ 63 - 1"

definition clamp_i64 :: "u64 \<Rightarrow> u64" where
  \<comment> \<open>\<^verbatim>\<open>i64::try_from(n).unwrap_or(i64::MAX)\<close>, as the column gives it back\<close>
  "clamp_i64 n = (if unat n \<le> i64_max then n else word_of_nat i64_max)"

section \<open>Items\<close>

definition get_item :: "Store \<Rightarrow> work_item_id \<Rightarrow> WorkItem option" where
  "get_item st k = find (\<lambda>i. wi_id i = k) (st_items st)"

definition require_item :: "Store \<Rightarrow> work_item_id \<Rightarrow> WorkItem checked" where
  "require_item st k = ok_or (WseNotFound (''work item '' @ k)) (get_item st k)"

definition item_exists :: "Store \<Rightarrow> work_item_id \<Rightarrow> bool" where
  "item_exists st k = (get_item st k \<noteq> None)"

definition update_row :: "work_item_id \<Rightarrow> (WorkItem \<Rightarrow> WorkItem) \<Rightarrow> Store \<Rightarrow> Store" where
  \<comment> \<open>\<^verbatim>\<open>UPDATE work_items SET ... WHERE id = k\<close>\<close>
  "update_row k f st = st\<lparr>st_items := update_where (\<lambda>i. wi_id i = k) f (st_items st)\<rparr>"

definition insert_item :: "WorkItem \<Rightarrow> Store \<Rightarrow> Store checked" where
  "insert_item item st =
     (if item_exists st (wi_id item) then Inl (WseAlreadyExists (''work item '' @ wi_id item))
      else Inr (st\<lparr>st_items := st_items st @ [item]\<rparr>))"

definition filter_matches :: "WorkFilter \<Rightarrow> WorkItem \<Rightarrow> bool" where
  \<comment> \<open>the \<^verbatim>\<open>WHERE\<close> clause of \<open>list_items\<close>\<close>
  "filter_matches f i =
     ((case fl_status f of
         Some s \<Rightarrow> Status_name (wi_status i) = Status_name s \<and> Status_reason (wi_status i) = Status_reason s
       | None \<Rightarrow> fl_include_closed f \<or> \<not> is_closed (wi_status i))
      \<and> (case fl_kind f of Some k \<Rightarrow> wi_kind i = k | None \<Rightarrow> True)
      \<and> (case fl_parent f of Some p \<Rightarrow> wi_parent i = Some p | None \<Rightarrow> True))"

definition list_items :: "WorkFilter \<Rightarrow> Store \<Rightarrow> WorkItem list" where
  "list_items f st =
     sort_key wi_created_at (sort_key wi_id (filter (filter_matches f) (st_items st)))"

definition WorkFilter_default :: WorkFilter where
  "WorkFilter_default = \<lparr>fl_status = None, fl_kind = None, fl_parent = None, fl_include_closed = False\<rparr>"

definition work_children :: "work_item_id \<Rightarrow> Store \<Rightarrow> WorkItem list" where
  "work_children parent st =
     list_items (WorkFilter_default\<lparr>fl_parent := Some parent, fl_include_closed := True\<rparr>) st"

definition work_open_items :: "Store \<Rightarrow> WorkItem list" where
  "work_open_items st = list_items WorkFilter_default st"

definition add_artifact_ref :: "work_item_id \<Rightarrow> ArtifactRef \<Rightarrow> timestamp \<Rightarrow> Store \<Rightarrow> Store checked" where
  "add_artifact_ref item artifact now st =
     (case get_item st item of
        None \<Rightarrow> Inl (WseNotFound (''work item '' @ item))
      | Some row \<Rightarrow>
          if artifact \<in> set (wi_artifact_refs row) then Inr st
          else Inr (update_row item
            (\<lambda>i. i\<lparr>wi_artifact_refs := wi_artifact_refs row @ [artifact], wi_updated_at := now\<rparr>) st))"

definition release_hold :: "work_item_id \<Rightarrow> timestamp \<Rightarrow> Store \<Rightarrow> Store checked" where
  "release_hold item now st =
     (if item_exists st item
      then Inr (update_row item (\<lambda>i. i\<lparr>wi_held_by := None, wi_updated_at := now\<rparr>) st)
      else Inl (WseNotFound (''work item '' @ item)))"

definition set_priority :: "work_item_id \<Rightarrow> int \<Rightarrow> int \<Rightarrow> Store \<Rightarrow> Store checked" where
  \<comment> \<open>the \<open>SetPriority\<close> arm of \<open>apply\<close>\<close>
  "set_priority item expected priority st =
     and_then (require_item st item) (\<lambda>row.
       if is_closed (wi_status row) then Inl (WseClosed item (wi_status row))
       else if wi_priority row \<noteq> expected then Inl (WsePriorityMismatch item expected (wi_priority row))
       else Inr (update_row item (\<lambda>i. i\<lparr>wi_priority := priority\<rparr>) st))"

section \<open>Plans\<close>

definition insert_plan :: "WorkPlanRow \<Rightarrow> Store \<Rightarrow> Store checked" where
  "insert_plan plan st =
     (if pr_id plan \<in> pr_id ` set (st_plans st)
      then Inl (WseAlreadyExists (''work plan '' @ pr_id plan))
      else Inr (st\<lparr>st_plans := st_plans st @ [plan]\<rparr>))"

definition plan_get :: "Store \<Rightarrow> string \<Rightarrow> WorkPlanRow option" where
  "plan_get st k = find (\<lambda>p. pr_id p = k) (st_plans st)"

section \<open>Edges\<close>

definition store_add_edge :: "Edge \<Rightarrow> Store \<Rightarrow> (Store \<times> bool) checked" where
  \<comment> \<open>\<open>ops::add_edge\<close>\<close>
  "store_add_edge edge st =
     (if \<not> item_exists st (e_item edge) then Inl (WseNotFound (''work item '' @ e_item edge))
      else if edge \<in> set (st_deps st) then Inr (st, False)
      else Inr (st\<lparr>st_deps := st_deps st @ [edge]\<rparr>, True))"

definition edges_of :: "Store \<Rightarrow> work_item_id \<Rightarrow> Edge list" where
  "edges_of st item =
     sort_key e_depends_on (sort_key (\<lambda>e. EdgeKind_as_str (e_kind e))
       (filter (\<lambda>e. e_item e = item) (st_deps st)))"

definition dependents_of :: "Store \<Rightarrow> work_item_id \<Rightarrow> Edge list" where
  "dependents_of st upstream =
     sort_key e_item (sort_key (\<lambda>e. EdgeKind_as_str (e_kind e))
       (filter (\<lambda>e. e_depends_on e = upstream) (st_deps st)))"

definition open_ids :: "Store \<Rightarrow> work_item_id set" where
  \<comment> \<open>\<^verbatim>\<open>SELECT id FROM work_items WHERE status NOT IN CLOSED\<close>\<close>
  "open_ids st = wi_id ` {i \<in> set (st_items st). \<not> is_closed (wi_status i)}"

definition edges_all_open :: "Store \<Rightarrow> Edge list" where
  "edges_all_open st =
     sort_key e_item (sort_key e_depends_on (sort_key (\<lambda>e. EdgeKind_as_str (e_kind e))
       (filter (\<lambda>e. e_item e \<in> open_ids st \<or> e_depends_on e \<in> open_ids st) (st_deps st))))"

definition remove_ordering_edges_of :: "work_item_id \<Rightarrow> Store \<Rightarrow> Store \<times> nat" where
  "remove_ordering_edges_of item st =
     (let drop = (\<lambda>e. e_item e = item \<and> e_kind e \<notin> {EkSupersedes, EkDiscoveredFrom})
      in (st\<lparr>st_deps := filter (\<lambda>e. \<not> drop e) (st_deps st)\<rparr>, length (filter drop (st_deps st))))"

definition store_remove_edge :: "Edge \<Rightarrow> Store \<Rightarrow> Store \<times> bool" where
  \<comment> \<open>\<open>ops::remove_edge\<close>\<close>
  "store_remove_edge edge st =
     (st\<lparr>st_deps := filter (\<lambda>e. e \<noteq> edge) (st_deps st)\<rparr>, edge \<in> set (st_deps st))"

section \<open>Events\<close>

definition insert_event :: "WorkEvent \<Rightarrow> Store \<Rightarrow> Store" where
  "insert_event event st = st\<lparr>st_events := st_events st @ [event]\<rparr>"

definition append_note :: "WorkEvent \<Rightarrow> Store \<Rightarrow> Store checked" where
  "append_note event st =
     (if we_to event \<noteq> None then Inl (WseEventCarriesStatus (we_item event) (we_kind event))
      else if \<not> item_exists st (we_item event) then Inl (WseNotFound (''work item '' @ we_item event))
      else Inr (insert_event event st))"

definition events_of :: "Store \<Rightarrow> work_item_id \<Rightarrow> WorkEvent list" where
  "events_of st item = sort_key we_at (filter (\<lambda>e. we_item e = item) (st_events st))"

definition events_after :: "Store \<Rightarrow> int \<Rightarrow> nat \<Rightarrow> (int \<times> WorkEvent) list" where
  "events_after st after limit =
     take (min limit i64_max) (filter (\<lambda>(k, e). after < k)
       (zip (map (\<lambda>k. int k + 1) [0..<length (st_events st)]) (st_events st)))"

definition events_last_id :: "Store \<Rightarrow> int" where
  "events_last_id st = int (length (st_events st))"

definition events_since :: "Store \<Rightarrow> timestamp \<Rightarrow> WorkEvent list" where
  "events_since st at = sort_key we_at (filter (\<lambda>e. at \<le> we_at e) (st_events st))"

section \<open>Leases\<close>

definition get_lease :: "Store \<Rightarrow> work_item_id \<Rightarrow> Lease option" where
  "get_lease st item = find (\<lambda>l. ls_item l = item) (st_leases st)"

definition end_lease :: "work_item_id \<Rightarrow> timestamp \<Rightarrow> Store \<Rightarrow> Store \<times> Lease option" where
  "end_lease item now st =
     (case get_lease st item of
        None \<Rightarrow> (st, None)
      | Some lease \<Rightarrow>
          (st\<lparr>st_lease_history := st_lease_history st @ [(lease, now)],
              st_leases := filter (\<lambda>l. ls_item l \<noteq> item) (st_leases st)\<rparr>,
           Some lease))"

definition lease_acquire ::
  "work_item_id \<Rightarrow> string \<Rightarrow> u64 \<Rightarrow> InputRef list \<Rightarrow> timestamp \<Rightarrow> Store \<Rightarrow> (Store \<times> Lease) checked" where
  "lease_acquire item_id worker ttl_seconds inputs now st =
     and_then (require_item st item_id) (\<lambda>item.
       if is_closed (wi_status item) then Inl (WseClosed (wi_id item) (wi_status item))
       else case get_lease st item_id of
         Some held \<Rightarrow> Inl (WseLeaseHeld (wi_id item) (ls_worker held))
       | None \<Rightarrow>
           if wi_status item \<noteq> Status.Ready
           then Inl (WseStatusMismatch (wi_id item) Status.Ready (wi_status item))
           else
             let lease = \<lparr>ls_item = wi_id item, ls_worker = worker, ls_since = now,
                          ls_ttl_seconds = ttl_seconds, ls_heartbeat_at = now, ls_inputs = inputs\<rparr>;
                 st1 = st\<lparr>st_leases := st_leases st @ [lease\<lparr>ls_ttl_seconds := clamp_i64 ttl_seconds\<rparr>]\<rparr>;
                 st2 = update_row (wi_id item)
                   (\<lambda>i. i\<lparr>wi_status := Leased, wi_status_origin := None, wi_updated_at := now\<rparr>) st1;
                 event = \<lparr>we_item = wi_id item, we_at = now, we_kind = EvLease,
                          we_from = Some Status.Ready, we_to = Some Leased,
                          we_actor = ''worker:'' @ worker,
                          we_reason = Some (''ttl '' @ nat_digits (unat ttl_seconds) @ ''s''),
                          we_upstream = None, we_origin = None, we_evidence_ref = None\<rparr>
             in Inr (insert_event event st2, lease))"

definition lease_heartbeat :: "work_item_id \<Rightarrow> timestamp \<Rightarrow> Store \<Rightarrow> (Store \<times> Lease) checked" where
  "lease_heartbeat item now st =
     (let st1 = st\<lparr>st_leases := update_where (\<lambda>l. ls_item l = item)
                    (\<lambda>l. l\<lparr>ls_heartbeat_at := now\<rparr>) (st_leases st)\<rparr>
      in case get_lease st item of
           None \<Rightarrow> Inl (WseNotFound (''lease on '' @ item))
         | Some _ \<Rightarrow>
             and_then (ok_or (WseNotFound (''lease on '' @ item)) (get_lease st1 item))
               (\<lambda>lease. Inr (st1, lease)))"

definition lease_release :: "work_item_id \<Rightarrow> timestamp \<Rightarrow> Store \<Rightarrow> Store \<times> Lease option" where
  "lease_release item now st = end_lease item now st"

definition lease_history :: "Store \<Rightarrow> work_item_id \<Rightarrow> LeaseRecord list" where
  "lease_history st item =
     map (\<lambda>(l, at). \<lparr>lr_lease = l, lr_released_at = Some at\<rparr>)
       (sort_key (\<lambda>(l, at). ls_since l) (filter (\<lambda>(l, at). ls_item l = item) (st_lease_history st)))
     @ (case get_lease st item of Some live \<Rightarrow> [\<lparr>lr_lease = live, lr_released_at = None\<rparr>] | None \<Rightarrow> [])"

definition lease_overdue :: "timestamp \<Rightarrow> Lease \<Rightarrow> bool" where
  \<comment> \<open>the filter of \<open>leases_expired\<close>: \<^verbatim>\<open>TimeDelta\<close> holds at most \<^verbatim>\<open>i64::MAX\<close> milliseconds\<close>
  "lease_overdue now lease =
     (let secs = min (unat (ls_ttl_seconds lease)) i64_max;
          micros = (if secs \<le> i64_max div 1000 then int secs * 1000000 else int i64_max * 1000)
      in ls_heartbeat_at lease + micros < now)"

definition leases_expired :: "timestamp \<Rightarrow> Store \<Rightarrow> Lease list" where
  "leases_expired now st =
     filter (lease_overdue now) (sort_key ls_heartbeat_at (sort_key ls_item (st_leases st)))"

section \<open>Transitions and re-points\<close>

definition transition :: "TransitionSpec \<Rightarrow> timestamp \<Rightarrow> Store \<Rightarrow> (Store \<times> WorkEvent) checked" where
  "transition spec now st =
     and_then (require_item st (ts_item spec)) (\<lambda>row.
       let current = wi_status row in
       if is_closed current then Inl (WseClosed (ts_item spec) current)
       else if (case ts_expected_from spec of Some e \<Rightarrow> e \<noteq> current | None \<Rightarrow> False)
       then Inl (WseStatusMismatch (ts_item spec) (the (ts_expected_from spec)) current)
       else
         let st1 = update_row (ts_item spec)
               (\<lambda>i. i\<lparr>wi_status := ts_to spec, wi_status_origin := ts_origin spec, wi_updated_at := now,
                      wi_closed_at := (if is_closed (ts_to spec) then Some now else None)\<rparr>) st;
             st2 = (if is_active (ts_to spec) then st1 else fst (end_lease (ts_item spec) now st1));
             event = \<lparr>we_item = ts_item spec, we_at = now, we_kind = ts_kind spec,
                      we_from = Some current, we_to = Some (ts_to spec), we_actor = ts_actor spec,
                      we_reason = ts_reason spec, we_upstream = ts_upstream spec,
                      we_origin = ts_origin spec, we_evidence_ref = ts_evidence_ref spec\<rparr>
         in Inr (insert_event event st2, event))"

definition rewritten_inputs :: "work_item_id \<Rightarrow> work_item_id \<Rightarrow> work_item_id list \<Rightarrow> work_item_id list" where
  \<comment> \<open>the loop of \<open>repoint\<close> over \<open>inputs_from\<close>\<close>
  "rewritten_inputs old new xs =
     foldl (\<lambda>acc x. let next = (if x = old then new else x)
                    in if next \<in> set acc then acc else acc @ [next]) [] xs"

definition repoint_edge_row ::
  "work_item_id \<Rightarrow> EdgeKind \<Rightarrow> work_item_id \<Rightarrow> work_item_id \<Rightarrow> Store \<Rightarrow> Store checked" where
  \<comment> \<open>the edge half of \<open>repoint\<close>: move the row, or drop it where the moved row is there already\<close>
  "repoint_edge_row item kind old new st =
     (let from = \<lparr>e_item = item, e_depends_on = old, e_kind = kind\<rparr>;
          to = \<lparr>e_item = item, e_depends_on = new, e_kind = kind\<rparr>
      in if from \<notin> set (st_deps st)
         then Inl (WseNotFound (EdgeKind_as_str kind @ '' edge from '' @ item @ '' to '' @ old))
         else if from = to \<or> to \<notin> set (st_deps st)
         then Inr (st\<lparr>st_deps := map (\<lambda>e. if e = from then to else e) (st_deps st)\<rparr>)
         else Inr (st\<lparr>st_deps := filter (\<lambda>e. e \<noteq> from) (st_deps st)\<rparr>))"

definition repoint :: "RepointSpec \<Rightarrow> timestamp \<Rightarrow> Store \<Rightarrow> (Store \<times> WorkEvent) checked" where
  "repoint spec now st =
     and_then (require_item st (rs_item spec)) (\<lambda>item.
       let old = rs_old_upstream spec;
           new = rs_new_upstream spec;
           names_old = (old \<in> set (wi_inputs_from item));
           inputs = rewritten_inputs old new (wi_inputs_from item);
           what = (case rs_kind spec of
               Some kind \<Rightarrow> if names_old then EdgeKind_as_str kind @ '' edge and input''
                            else EdgeKind_as_str kind @ '' edge''
             | None \<Rightarrow> ''input'');
           event = \<lparr>we_item = rs_item spec, we_at = now, we_kind = EvRepoint, we_from = None, we_to = None,
                    we_actor = rs_actor spec,
                    we_reason = Some (what @ '' re-pointed from '' @ old @ '' to '' @ new),
                    we_upstream = Some old, we_origin = rs_origin spec, we_evidence_ref = None\<rparr>
       in and_then (case rs_kind spec of
              Some kind \<Rightarrow> repoint_edge_row (rs_item spec) kind old new st
            | None \<Rightarrow> Inr st) (\<lambda>st1.
          if names_old
          then Inr (insert_event event (update_row (rs_item spec)
                 (\<lambda>i. i\<lparr>wi_inputs_from := inputs, wi_updated_at := now\<rparr>) st1), event)
          else if rs_kind spec = None
          then Inl (WseNotFound (''input '' @ old @ '' on work item '' @ rs_item spec))
          else Inr (insert_event event (update_row (rs_item spec) (\<lambda>i. i\<lparr>wi_updated_at := now\<rparr>) st1), event)))"

end
