(* ===== verification/Rows.thy ===== *)
theory Rows
  imports Store Snapshot
begin

text \<open>
  The row mappers of \<^verbatim>\<open>rustykrab-store/src/work_items/rows.rs\<close>. A raw row holds the columns as the
  database returns them; the two third-party parsers it goes through (\<^verbatim>\<open>serde_json\<close> for the JSON
  columns, \<^verbatim>\<open>chrono\<close> for the times) appear as their results: \<open>None\<close> where the text did not parse. A
  nullable column is an option around that.
\<close>

record RawItem =
  ri_id :: string
  ri_kind :: string
  ri_title :: string
  ri_objective :: string
  ri_done_when :: string
  ri_status :: string
  ri_status_reason :: "string option"
  ri_status_origin :: "string option"
  ri_priority :: int
  ri_parent :: "string option"
  ri_worker_kind :: string
  ri_origin_conversation_id :: "string option"
  ri_expires_at :: "timestamp option option"
  ri_plan_id :: "string option"
  ri_held_by :: "string option"
  ri_created_at :: "timestamp option"
  ri_updated_at :: "timestamp option"
  ri_closed_at :: "timestamp option option"
  ri_constraints :: "string list option"
  ri_decisions_made :: "string list option"
  ri_artifact_refs :: "ArtifactRef list option"
  ri_required_tools :: "string list option"
  ri_required_mcp_servers :: "string list option"
  ri_writable_resources :: "string list option"
  ri_inputs_from :: "string list option"
  ri_preconditions :: "Precondition list option"
  ri_budget :: "Budget option"
  ri_trigger :: "Trigger option"

definition unwrap_or :: "'a \<Rightarrow> 'a option \<Rightarrow> 'a" where
  "unwrap_or d x = (case x of Some a \<Rightarrow> a | None \<Rightarrow> d)"

definition flag :: "string \<Rightarrow> bool \<Rightarrow> string list" where
  \<comment> \<open>\<^verbatim>\<open>self.0.push(column)\<close> when the column does not read\<close>
  "flag column bad = (if bad then [column] else [])"

definition i32_range :: "int \<Rightarrow> bool" where
  "i32_range n = (- (2 ^ 31) \<le> n \<and> n < 2 ^ 31)"

definition bad_columns :: "RawItem \<Rightarrow> string list" where
  \<comment> \<open>\<open>Unreadable\<close> at the end of \<open>item_from_row\<close>, in the order of the reads\<close>
  "bad_columns r =
     flag ''kind'' (WorkKind_parse (ri_kind r) = None)
     @ flag ''worker_kind'' (WorkerKind_parse (ri_worker_kind r) = None)
     @ flag ''status'' (Status_parse (ri_status r) (ri_status_reason r) = Failed \<and> ri_status r \<noteq> ''failed'')
     @ flag ''priority'' (\<not> i32_range (ri_priority r))
     @ flag ''constraints'' (ri_constraints r = None)
     @ flag ''decisions_made'' (ri_decisions_made r = None)
     @ flag ''artifact_refs'' (ri_artifact_refs r = None)
     @ flag ''required_tools'' (ri_required_tools r = None)
     @ flag ''required_mcp_servers'' (ri_required_mcp_servers r = None)
     @ flag ''writable_resources'' (ri_writable_resources r = None)
     @ flag ''inputs_from'' (ri_inputs_from r = None)
     @ flag ''trigger'' (ri_trigger r = None)
     @ flag ''preconditions'' (ri_preconditions r = None)
     @ flag ''expires_at'' (ri_expires_at r = Some None)
     @ flag ''budget'' (ri_budget r = None)
     @ flag ''created_at'' (ri_created_at r = None)
     @ flag ''updated_at'' (ri_updated_at r = None)
     @ flag ''closed_at'' (ri_closed_at r = Some None)"

definition item_from_row :: "RawItem \<Rightarrow> WorkItem" where
  "item_from_row r =
     \<lparr>wi_id = ri_id r, wi_kind = unwrap_or WkInternal (WorkKind_parse (ri_kind r)),
      wi_title = ri_title r, wi_objective = ri_objective r, wi_done_when = ri_done_when r,
      wi_constraints = unwrap_or [] (ri_constraints r),
      wi_decisions_made = unwrap_or [] (ri_decisions_made r),
      wi_artifact_refs = unwrap_or [] (ri_artifact_refs r),
      wi_required_tools = unwrap_or [] (ri_required_tools r),
      wi_required_mcp_servers = unwrap_or [] (ri_required_mcp_servers r),
      wi_worker_kind = unwrap_or WrAny (WorkerKind_parse (ri_worker_kind r)),
      wi_writable_resources = unwrap_or [] (ri_writable_resources r),
      wi_parent = ri_parent r, wi_inputs_from = unwrap_or [] (ri_inputs_from r),
      wi_origin_conversation_id = ri_origin_conversation_id r,
      wi_trigger = unwrap_or TrNow (ri_trigger r),
      wi_preconditions = unwrap_or [] (ri_preconditions r),
      wi_expires_at = unwrap_or None (ri_expires_at r),
      wi_budget = unwrap_or Budget_default (ri_budget r),
      wi_priority = (if i32_range (ri_priority r) then ri_priority r else 0),
      wi_status = (if bad_columns r = [] then Status_parse (ri_status r) (ri_status_reason r) else Failed),
      wi_status_origin = ri_status_origin r, wi_plan_id = ri_plan_id r, wi_held_by = ri_held_by r,
      wi_created_at = unwrap_or 0 (ri_created_at r), wi_updated_at = unwrap_or 0 (ri_updated_at r),
      wi_closed_at = unwrap_or None (ri_closed_at r)\<rparr>"

definition item_to_row :: "WorkItem \<Rightarrow> RawItem" where
  \<comment> \<open>the columns \<open>insert_item\<close> binds, as they read back\<close>
  "item_to_row i =
     \<lparr>ri_id = wi_id i, ri_kind = WorkKind_as_str (wi_kind i), ri_title = wi_title i,
      ri_objective = wi_objective i, ri_done_when = wi_done_when i,
      ri_status = Status_name (wi_status i), ri_status_reason = Status_reason (wi_status i),
      ri_status_origin = wi_status_origin i, ri_priority = wi_priority i, ri_parent = wi_parent i,
      ri_worker_kind = WorkerKind_as_str (wi_worker_kind i),
      ri_origin_conversation_id = wi_origin_conversation_id i,
      ri_expires_at = map_option Some (wi_expires_at i), ri_plan_id = wi_plan_id i, ri_held_by = wi_held_by i,
      ri_created_at = Some (wi_created_at i), ri_updated_at = Some (wi_updated_at i),
      ri_closed_at = map_option Some (wi_closed_at i), ri_constraints = Some (wi_constraints i),
      ri_decisions_made = Some (wi_decisions_made i), ri_artifact_refs = Some (wi_artifact_refs i),
      ri_required_tools = Some (wi_required_tools i), ri_required_mcp_servers = Some (wi_required_mcp_servers i),
      ri_writable_resources = Some (wi_writable_resources i), ri_inputs_from = Some (wi_inputs_from i),
      ri_preconditions = Some (wi_preconditions i), ri_budget = Some (wi_budget i),
      ri_trigger = Some (wi_trigger i)\<rparr>"

section \<open>The other mappers\<close>

definition edge_from_row :: "string \<times> string \<times> string \<Rightarrow> Edge" where
  "edge_from_row r =
     (case r of (item, depends_on, kind) \<Rightarrow>
        \<lparr>e_item = item, e_depends_on = depends_on, e_kind = EdgeKind_parse kind\<rparr>)"

definition row_status_of :: "string option \<Rightarrow> string option \<Rightarrow> Status option" where
  \<comment> \<open>\<open>status_of\<close>\<close>
  "row_status_of name reason = map_option (\<lambda>n. Status_parse n reason) name"

record RawEvent =
  re_item :: string
  re_at :: "timestamp option"
  re_kind :: string
  re_from_status :: "string option"
  re_from_reason :: "string option"
  re_to_status :: "string option"
  re_to_reason :: "string option"
  re_actor :: string
  re_reason :: "string option"
  re_upstream :: "string option"
  re_origin :: "string option"
  re_evidence_ref :: "string option"

definition event_from_row :: "RawEvent \<Rightarrow> WorkEvent" where
  "event_from_row r =
     \<lparr>we_item = re_item r, we_at = unwrap_or 0 (re_at r),
      we_kind = unwrap_or EvWarning (EventKind_parse (re_kind r)),
      we_from = row_status_of (re_from_status r) (re_from_reason r),
      we_to = row_status_of (re_to_status r) (re_to_reason r), we_actor = re_actor r,
      we_reason = re_reason r, we_upstream = re_upstream r, we_origin = re_origin r,
      we_evidence_ref = re_evidence_ref r\<rparr>"

definition event_to_row :: "WorkEvent \<Rightarrow> RawEvent" where
  \<comment> \<open>the columns \<open>insert_event\<close> binds\<close>
  "event_to_row e =
     \<lparr>re_item = we_item e, re_at = Some (we_at e), re_kind = EventKind_as_str (we_kind e),
      re_from_status = map_option Status_name (we_from e),
      re_from_reason = Option.bind (we_from e) Status_reason,
      re_to_status = map_option Status_name (we_to e),
      re_to_reason = Option.bind (we_to e) Status_reason, re_actor = we_actor e,
      re_reason = we_reason e, re_upstream = we_upstream e, re_origin = we_origin e,
      re_evidence_ref = we_evidence_ref e\<rparr>"

record RawLease =
  rl_item :: string
  rl_worker :: string
  rl_since :: "timestamp option"
  rl_ttl_seconds :: int
  rl_heartbeat_at :: "timestamp option"
  rl_inputs :: "InputRef list option"

definition lease_from_row :: "timestamp \<Rightarrow> RawLease \<Rightarrow> Lease" where
  \<comment> \<open>an unreadable heartbeat reads as now\<close>
  "lease_from_row now r =
     (let heartbeat = unwrap_or now (rl_heartbeat_at r) in
      \<lparr>ls_item = rl_item r, ls_worker = rl_worker r, ls_since = unwrap_or heartbeat (rl_since r),
       ls_ttl_seconds = (if 0 \<le> rl_ttl_seconds r then word_of_int (rl_ttl_seconds r) else 0),
       ls_heartbeat_at = heartbeat, ls_inputs = unwrap_or [] (rl_inputs r)\<rparr>)"

record RawQuestion =
  rq_row :: QuestionRow  \<comment> \<open>the columns that are plain text\<close>
  rq_kind :: string
  rq_class :: string
  rq_status :: string
  rq_options :: "string list option"
  rq_answered_at :: "timestamp option option"
  rq_decision :: "DelegatedDecision option option"
  rq_created_at :: "timestamp option"
  rq_answer_submission :: "AnswerSubmission option option"

definition question_from_row :: "RawQuestion \<Rightarrow> QuestionRow checked" where
  "question_from_row r =
     (let submission = rq_answer_submission r in
      if submission = Some None then Inl (WseStorage ''answer_submission'')
      else Inr ((rq_row r)\<lparr>
        qr_kind := unwrap_or QkDecision (QuestionKind_parse (rq_kind r)),
        qr_class := unwrap_or QcBlockingNow (QuestionClass_parse (rq_class r)),
        qr_status := QuestionStatus_parse (rq_status r),
        qr_options := unwrap_or [] (rq_options r),
        qr_answered_at := unwrap_or None (rq_answered_at r),
        qr_decision := unwrap_or None (rq_decision r),
        qr_created_at := unwrap_or 0 (rq_created_at r),
        qr_answer_submission := unwrap_or None submission\<rparr>))"

section \<open>What reads back\<close>

lemma unwrap_or_simps [simp]: "unwrap_or d (Some a) = a" "unwrap_or d None = d"
  by (simp_all add: unwrap_or_def)

lemma flag_simps [simp]: "flag c True = [c]" "flag c False = []" "flag c b = [] \<longleftrightarrow> \<not> b"
  by (simp_all add: flag_def)

lemma unwrap_nullable [simp]: "unwrap_or None (map_option Some x) = x"
  by (cases x) simp_all

lemma nullable_readable [simp]: "map_option Some x \<noteq> Some None"
  by (cases x) simp_all

lemma status_column_readable: "\<not> (Status_parse (Status_name s) (Status_reason s) = Failed \<and> Status_name s \<noteq> ''failed'')"
  by (cases s) (simp_all add: Status_parse_def codec_simps)

lemma bad_columns_written: "i32_range (wi_priority i) \<Longrightarrow> bad_columns (item_to_row i) = []"
  using status_column_readable[of "wi_status i"]
  by (simp add: bad_columns_def item_to_row_def work_kind.parse_as_str worker_kind.parse_as_str)

text \<open>a written work item reads back unchanged (its priority is an \<^verbatim>\<open>i32\<close>).\<close>

theorem item_row_reads_back:
  assumes "i32_range (wi_priority i)"
  shows "item_from_row (item_to_row i) = i"
  using bad_columns_written[OF assms] assms status_columns_round_trip[of "wi_status i"]
  by (simp add: item_from_row_def) (simp add: item_to_row_def work_kind.parse_as_str worker_kind.parse_as_str)

lemma flag_Nil [simp]: "flag c bad = [] \<longleftrightarrow> \<not> bad"
  by (simp add: flag_def)





theorem event_row_reads_back: "event_from_row (event_to_row e) = e"
proof -
  have "row_status_of (map_option Status_name s) (Option.bind s Status_reason) = s" for s
    by (cases s) (simp_all add: row_status_of_def status_columns_round_trip)
  then show ?thesis by (simp add: event_from_row_def event_to_row_def event_kind.parse_as_str)
qed

lemma item_row_reads_back_witness:
  "item_from_row (item_to_row (blank_item ''a'' None (Blocked NeedsTool))) = blank_item ''a'' None (Blocked NeedsTool)"
  by (rule item_row_reads_back) (simp add: blank_item_def i32_range_def)


end
