(* ===== verification/StoreApply.thy ===== *)
theory StoreApply
  imports Store
begin

text \<open>
  The rest of the work-item store: evidence, spend, the outbox, the archive, questions and their
  answer receipts, grants and facets, and the batches that compose the writes
  (\<open>ops::apply\<close>, \<open>Store::work_apply\<close>).
\<close>

section \<open>Evidence\<close>

definition add_evidence :: "Evidence \<Rightarrow> Store \<Rightarrow> Store checked" where
  "add_evidence evidence st =
     (if item_exists st (ed_item evidence) then Inr (st\<lparr>st_evidence := st_evidence st @ [evidence]\<rparr>)
      else Inl (WseNotFound (''work item '' @ ed_item evidence)))"

definition evidence_of :: "Store \<Rightarrow> work_item_id \<Rightarrow> Evidence list" where
  "evidence_of st item = sort_key ed_at (filter (\<lambda>e. ed_item e = item) (st_evidence st))"

definition evidence_of_kind :: "Store \<Rightarrow> string \<Rightarrow> Evidence list" where
  "evidence_of_kind st kind = sort_key ed_at (filter (\<lambda>e. ed_kind e = kind) (st_evidence st))"

fun add_lease_evidence :: "work_item_id \<Rightarrow> Evidence list \<Rightarrow> Store \<Rightarrow> Store checked" where
  \<comment> \<open>the loop of \<open>work_lease_acquire_recorded\<close>\<close>
  "add_lease_evidence item [] st = Inr st"
| "add_lease_evidence item (ev # evs) st =
     (if ed_item ev \<noteq> item then Inl (WseStorage ''lease evidence belongs to another item'')
      else and_then (add_evidence ev st) (add_lease_evidence item evs))"

definition work_lease_acquire_recorded ::
  "work_item_id \<Rightarrow> string \<Rightarrow> u64 \<Rightarrow> InputRef list \<Rightarrow> Evidence list \<Rightarrow> timestamp \<Rightarrow> Store
     \<Rightarrow> (Store \<times> Lease) checked" where
  "work_lease_acquire_recorded item worker ttl_seconds inputs evidence now st =
     and_then (lease_acquire item worker ttl_seconds inputs now st) (\<lambda>(st1, lease).
       and_then (add_lease_evidence item evidence st1) (\<lambda>st2. Inr (st2, lease)))"

section \<open>Spend\<close>

definition saturating_u64 :: "nat \<Rightarrow> u64" where
  "saturating_u64 n = word_of_nat (min n (2 ^ 64 - 1))"

definition Spend_plus :: "Spend \<Rightarrow> Spend \<Rightarrow> Spend" where
  "Spend_plus a b =
     \<lparr>sp_runs = u32_of_usize (unat (sp_runs a) + unat (sp_runs b)),
      sp_tokens = saturating_u64 (unat (sp_tokens a) + unat (sp_tokens b)),
      sp_wall_ms = saturating_u64 (unat (sp_wall_ms a) + unat (sp_wall_ms b)),
      sp_iterations = saturating_u64 (unat (sp_iterations a) + unat (sp_iterations b))\<rparr>"

definition record_spend :: "RunSpend \<Rightarrow> Store \<Rightarrow> Store" where
  "record_spend spend st =
     st\<lparr>st_spend := st_spend st @
          [spend\<lparr>ru_tokens := clamp_i64 (ru_tokens spend), ru_wall_ms := clamp_i64 (ru_wall_ms spend)\<rparr>]\<rparr>"

definition sql_sum :: "nat list \<Rightarrow> nat checked" where
  \<comment> \<open>\<^verbatim>\<open>SUM\<close> of integers fails on overflow\<close>
  "sql_sum xs = (if sum_list xs \<le> i64_max then Inr (sum_list xs) else Inl (WseStorage ''integer overflow''))"

definition spend_of :: "Store \<Rightarrow> work_item_id \<Rightarrow> Spend checked" where
  "spend_of st item =
     (let rows = filter (\<lambda>r. ru_item r = item) (st_spend st) in
      and_then (sql_sum (map (\<lambda>r. unat (ru_tokens r)) rows)) (\<lambda>tokens.
      and_then (sql_sum (map (\<lambda>r. unat (ru_wall_ms r)) rows)) (\<lambda>wall.
      and_then (sql_sum (map (\<lambda>r. unat (ru_iterations r)) rows)) (\<lambda>iterations.
        Inr \<lparr>sp_runs = u32_of_usize (length rows), sp_tokens = word_of_nat tokens,
             sp_wall_ms = word_of_nat wall, sp_iterations = word_of_nat iterations\<rparr>))))"

fun spend_totals_of :: "work_item_id list \<Rightarrow> Store \<Rightarrow> (work_item_id \<times> Spend) list checked" where
  \<comment> \<open>one group of \<open>spend_totals\<close> after the other\<close>
  "spend_totals_of [] st = Inr []"
| "spend_totals_of (k # ks) st =
     and_then (spend_of st k) (\<lambda>s. and_then (spend_totals_of ks st) (\<lambda>rest. Inr ((k, s) # rest)))"

definition spend_totals :: "Store \<Rightarrow> (work_item_id \<times> Spend) list checked" where
  "spend_totals st = spend_totals_of (remdups (map ru_item (st_spend st))) st"

section \<open>The outbox\<close>

definition insert_outbox :: "OutboxRow \<Rightarrow> Store \<Rightarrow> Store checked" where
  "insert_outbox row st =
     (if ob_id row \<in> ob_id ` set (st_outbox st) then Inl (unique_failed ''work_outbox.id'')
      else Inr (st\<lparr>st_outbox := st_outbox st @ [row]\<rparr>))"

definition new_notice :: "(nat \<Rightarrow> string) \<Rightarrow> OutboxDraft \<Rightarrow> timestamp option \<Rightarrow> timestamp \<Rightarrow> Store \<Rightarrow> (Store \<times> string) checked" where
  \<comment> \<open>the insert of \<open>enqueue_outbox\<close> and of \<open>apply_notice\<close>\<close>
  "new_notice uuid draft not_before now st =
     (let k = uuid (length (st_outbox st));
          row = \<lparr>ob_id = k, ob_parent = od_parent draft, ob_origin = od_origin draft,
                 ob_channel = od_channel draft, ob_body = od_body draft, ob_created_at = now,
                 ob_delivered_at = None, ob_retired_at = None, ob_not_before = not_before\<rparr>
      in and_then (insert_outbox row st) (\<lambda>st1. Inr (st1, k)))"

definition enqueue_outbox :: "(nat \<Rightarrow> string) \<Rightarrow> OutboxDraft \<Rightarrow> timestamp \<Rightarrow> Store \<Rightarrow> (Store \<times> string) checked" where
  "enqueue_outbox uuid draft now st = new_notice uuid draft None now st"

definition undelivered :: "OutboxRow \<Rightarrow> bool" where
  "undelivered r = (ob_delivered_at r = None \<and> ob_retired_at r = None)"

definition outbox_pending :: "timestamp \<Rightarrow> Store \<Rightarrow> OutboxRow list" where
  "outbox_pending now st =
     sort_key ob_created_at (filter (\<lambda>r. undelivered r
       \<and> (case ob_not_before r of None \<Rightarrow> True | Some t \<Rightarrow> t \<le> now)) (st_outbox st))"

definition outbox_for_conversation :: "string \<Rightarrow> nat \<Rightarrow> timestamp \<Rightarrow> Store \<Rightarrow> OutboxRow list" where
  "outbox_for_conversation conversation limit now st =
     rev (take (min limit 100) (rev (sort_key ob_created_at (filter (\<lambda>r.
       (case get_item st (ob_parent r) of
          Some w \<Rightarrow> wi_origin_conversation_id w = Some conversation | None \<Rightarrow> False)
       \<and> ob_channel r = ''webchat''
       \<and> (case ob_not_before r of None \<Rightarrow> True | Some t \<Rightarrow> t \<le> now)) (st_outbox st)))))"

definition outbox_mark_delivered :: "string \<Rightarrow> timestamp \<Rightarrow> Store \<Rightarrow> (Store \<times> bool) checked" where
  "outbox_mark_delivered k now st =
     (if \<exists>r \<in> set (st_outbox st). ob_id r = k \<and> undelivered r
      then Inr (st\<lparr>st_outbox := update_where (\<lambda>r. ob_id r = k \<and> undelivered r)
                    (\<lambda>r. r\<lparr>ob_delivered_at := Some now\<rparr>) (st_outbox st)\<rparr>, True)
      else if k \<in> ob_id ` set (st_outbox st) then Inr (st, False)
      else Inl (WseNotFound (''outbox row '' @ k)))"

definition still_waits :: "timestamp \<Rightarrow> OutboxRow \<Rightarrow> bool" where
  "still_waits now r =
     (undelivered r \<and> (case ob_not_before r of None \<Rightarrow> False | Some t \<Rightarrow> now < t))"

definition apply_notice :: "(nat \<Rightarrow> string) \<Rightarrow> NoticeDraft \<Rightarrow> timestamp \<Rightarrow> Store \<Rightarrow> (Store \<times> string) checked" where
  "apply_notice uuid notice now st =
     (let draft = nd_draft notice;
          fresh = new_notice uuid draft (nd_not_before notice) now st
      in case nd_replace notice of
           None \<Rightarrow> fresh
         | Some k \<Rightarrow>
             if \<exists>r \<in> set (st_outbox st). ob_id r = k \<and> still_waits now r
             then Inr (st\<lparr>st_outbox := update_where (\<lambda>r. ob_id r = k \<and> still_waits now r)
                    (\<lambda>r. r\<lparr>ob_body := od_body draft,
                           ob_origin := (case od_origin draft of None \<Rightarrow> ob_origin r | Some _ \<Rightarrow> od_origin draft),
                           ob_not_before := Some (case nd_not_before notice of None \<Rightarrow> now | Some t \<Rightarrow> t)\<rparr>)
                    (st_outbox st)\<rparr>, k)
             else fresh)"

definition waiting_notice :: "work_item_id \<Rightarrow> string \<Rightarrow> timestamp \<Rightarrow> Store \<Rightarrow> WaitingNotice option" where
  "waiting_notice parent channel now st =
     (let rows = sort_key ob_created_at (filter (\<lambda>r. ob_parent r = parent \<and> ob_channel r = channel
                   \<and> still_waits now r) (st_outbox st))
      in if rows = [] then None
         else Some \<lparr>wn_id = ob_id (last rows), wn_parent = ob_parent (last rows),
                    wn_channel = ob_channel (last rows), wn_body = ob_body (last rows),
                    wn_not_before = (case ob_not_before (last rows) of Some t \<Rightarrow> t | None \<Rightarrow> 0)\<rparr>)"

definition work_outbox_latest :: "work_item_id \<Rightarrow> Store \<Rightarrow> timestamp option" where
  "work_outbox_latest parent st =
     (let times = map ob_created_at (filter (\<lambda>r. ob_parent r = parent) (st_outbox st))
      in if times = [] then None else Some (foldl max (hd times) times))"

section \<open>The archive\<close>

definition last_worker :: "Store \<Rightarrow> work_item_id \<Rightarrow> string option" where
  "last_worker st item =
     (let rows = sort_key we_at (filter (\<lambda>e. we_item e = item \<and> we_kind e = EvLease) (st_events st))
      in if rows = [] then None
         else let actor = we_actor (last rows)
              in Some (case strip_prefix ''worker:'' actor of Some w \<Rightarrow> w | None \<Rightarrow> actor))"

definition archive_summary :: "WorkItem \<Rightarrow> string option \<Rightarrow> string" where
  "archive_summary item worker =
     (let flat = join '' '' (split_whitespace (wi_title item));
          title = (if 120 < length flat then take 120 flat @ ''...'' else flat);
          line = title @ ''  '' @ WorkKind_as_str (wi_kind item) @ ''  '' @ Status_fmt (wi_status item);
          line = (case wi_status_origin item of Some origin \<Rightarrow> line @ '' <- '' @ origin | None \<Rightarrow> line)
      in case worker of Some w \<Rightarrow> line @ ''; worker '' @ w | None \<Rightarrow> line)"

definition archived :: "Store \<Rightarrow> work_item_id \<Rightarrow> bool" where
  "archived st k = (k \<in> av_id ` set (st_archive st))"

definition archive_one :: "work_item_id \<Rightarrow> timestamp \<Rightarrow> Store \<Rightarrow> (Store \<times> bool) checked" where
  "archive_one k now st =
     (case get_item st k of
        None \<Rightarrow> if archived st k then Inr (st, False) else Inl (WseNotFound (''work item '' @ k))
      | Some item \<Rightarrow>
          if \<not> is_closed (wi_status item) then Inl (WseNotClosed (wi_id item) (wi_status item))
          else
            let edges = edges_of st k;
                worker = last_worker st k;
                summary = archive_summary item worker
            in and_then (spend_of st k) (\<lambda>spent.
              let row = \<lparr>av_id = wi_id item, av_kind = wi_kind item, av_title = wi_title item,
                         av_parent = wi_parent item, av_status = wi_status item, av_worker = worker,
                         av_cost = (if 0 < sp_runs spent then Some spent else None),
                         av_closed_at = (case wi_closed_at item of Some t \<Rightarrow> t | None \<Rightarrow> wi_updated_at item),
                         av_archived_at = now, av_summary = summary, av_edges = edges\<rparr>
              in if archived st k then Inl (unique_failed ''work_item_archive.id'')
                 else
                   let st1 = st\<lparr>st_archive := st_archive st @ [row],
                                st_deps := filter (\<lambda>e. e_item e \<noteq> k) (st_deps st)\<rparr>;
                       st2 = fst (end_lease k now st1)
                   in Inr (st2\<lparr>st_items := filter (\<lambda>i. wi_id i \<noteq> k) (st_items st2)\<rparr>, True)))"

fun archive_all :: "work_item_id list \<Rightarrow> timestamp \<Rightarrow> nat \<Rightarrow> Store \<Rightarrow> (Store \<times> nat) checked" where
  \<comment> \<open>the loop of \<open>work_archive_compact\<close>\<close>
  "archive_all [] now compacted st = Inr (st, compacted)"
| "archive_all (k # ks) now compacted st =
     and_then (archive_one k now st) (\<lambda>(st1, new).
       archive_all ks now (if new then compacted + 1 else compacted) st1)"

definition work_archive_compact :: "work_item_id list \<Rightarrow> timestamp \<Rightarrow> Store \<Rightarrow> (Store \<times> nat) checked" where
  "work_archive_compact ids now st = archive_all ids now 0 st"

definition archive_get :: "Store \<Rightarrow> work_item_id \<Rightarrow> ArchivedItem option" where
  "archive_get st k = find (\<lambda>a. av_id a = k) (st_archive st)"

definition archive_list :: "WorkKind option \<Rightarrow> timestamp option \<Rightarrow> Store \<Rightarrow> ArchivedItem list" where
  "archive_list kind since st =
     sort_key (\<lambda>a. - av_closed_at a) (sort_key av_id (filter (\<lambda>a.
       (case kind of None \<Rightarrow> True | Some k \<Rightarrow> av_kind a = k)
       \<and> (case since of None \<Rightarrow> True | Some t \<Rightarrow> t \<le> av_closed_at a)) (st_archive st)))"

fun contains :: "string \<Rightarrow> string \<Rightarrow> bool" where
  "contains needle [] = (needle = [])"
| "contains needle (c # cs) = (starts_with needle (c # cs) \<or> contains needle cs)"

definition archive_search :: "string \<Rightarrow> Store \<Rightarrow> ArchivedItem list" where
  \<comment> \<open>\<^verbatim>\<open>LIKE '%text%'\<close> with the wildcards of \<open>text\<close> escaped: a substring, ASCII letters in either case\<close>
  "archive_search text st =
     (let like = (\<lambda>s. contains (to_ascii_lowercase text) (to_ascii_lowercase s)) in
      sort_key (\<lambda>a. - av_closed_at a) (sort_key av_id (filter (\<lambda>a.
        av_id a = text \<or> like (av_title a) \<or> like (av_summary a)) (st_archive st))))"

section \<open>Questions\<close>

definition get_question :: "Store \<Rightarrow> string \<Rightarrow> QuestionRow option" where
  "get_question st k = find (\<lambda>q. qr_id q = k) (st_questions st)"

definition require_question :: "Store \<Rightarrow> string \<Rightarrow> QuestionRow checked" where
  "require_question st k = ok_or (WseNotFound (''question '' @ k)) (get_question st k)"

definition update_question :: "string \<Rightarrow> (QuestionRow \<Rightarrow> QuestionRow) \<Rightarrow> Store \<Rightarrow> Store" where
  "update_question k f st = st\<lparr>st_questions := update_where (\<lambda>q. qr_id q = k) f (st_questions st)\<rparr>"

definition insert_question :: "QuestionRow \<Rightarrow> Store \<Rightarrow> Store checked" where
  "insert_question q st =
     (if get_question st (qr_id q) \<noteq> None then Inl (WseAlreadyExists (''question '' @ qr_id q))
      else case qr_superseded_by q of
        Some c \<Rightarrow>
          if c = qr_id q \<or> get_question st c \<noteq> None
          then Inr (st\<lparr>st_questions := st_questions st @ [q]\<rparr>)
          else Inl (WseStorage ''FOREIGN KEY constraint failed'')
      | None \<Rightarrow> Inr (st\<lparr>st_questions := st_questions st @ [q]\<rparr>))"

definition question_taken :: "string \<Rightarrow> QuestionStatus \<Rightarrow> WorkStoreError" where
  "question_taken k s = WseAlreadyExists (''question '' @ k @ '' is already '' @ QuestionStatus_as_str s)"

definition process_answer :: "string \<Rightarrow> string \<Rightarrow> string option \<Rightarrow> timestamp \<Rightarrow> Store \<Rightarrow> Store checked" where
  \<comment> \<open>the \<open>AnswerProcessed\<close> arm of \<open>apply_question\<close>\<close>
  "process_answer k submission error at st =
     and_then (require_question st k) (\<lambda>q.
     and_then (ok_or (WseAlreadyExists ''answer receipt has changed'')
         (case qr_answer_submission q of
            Some r \<Rightarrow> if as_id r = submission \<and> as_status r = AsPending then Some r else None
          | None \<Rightarrow> None)) (\<lambda>receipt.
       if error = None \<and> (qr_status q \<noteq> QsAnswered \<or> qr_answered_by q \<noteq> Some (as_actor receipt))
       then Inl (WseAlreadyExists ''answer has not been applied by its submitter'')
       else Inr (update_question k (\<lambda>q. q\<lparr>qr_answer_submission := Some (receipt\<lparr>
               as_status := (if error \<noteq> None then AsRejected else AsApplied),
               as_completed_at := Some at, as_error := error\<rparr>)\<rparr>) st)))"

definition supersede_question :: "string \<Rightarrow> string \<Rightarrow> timestamp \<Rightarrow> Store \<Rightarrow> Store checked" where
  \<comment> \<open>the \<open>Supersede\<close> arm\<close>
  "supersede_question k canonical at st =
     and_then (require_question st k) (\<lambda>q.
     and_then (require_question st canonical) (\<lambda>target.
       if \<not> QuestionStatus_is_waiting (qr_status q) \<or> k = canonical \<or> qr_item q \<noteq> qr_item target
          \<or> qr_superseded_by target \<noteq> None
       then Inl (WseAlreadyExists ''invalid question consolidation'')
       else Inr (update_question k (\<lambda>q. q\<lparr>qr_status := QsObsolete, qr_superseded_by := Some canonical,
               qr_answered_at := Some at\<rparr>) st)))"

definition receipt_pending :: "QuestionRow \<Rightarrow> bool" where
  "receipt_pending q = (case qr_answer_submission q of Some r \<Rightarrow> as_status r = AsPending | None \<Rightarrow> False)"

definition settle_question ::
  "string \<Rightarrow> QuestionStatus \<Rightarrow> string option \<Rightarrow> string option \<Rightarrow> DelegatedDecision option \<Rightarrow> timestamp
     \<Rightarrow> Store \<Rightarrow> Store checked" where
  \<comment> \<open>the \<open>Settle\<close> arm\<close>
  "settle_question k status answer actor decision at st =
     and_then (require_question st k) (\<lambda>current.
       if \<not> QuestionStatus_is_waiting (qr_status current) then Inl (question_taken k (qr_status current))
       else if status = QsObsolete \<and> actor = Some ''controller'' \<and> receipt_pending current
       then Inl (WseAlreadyExists ''a saved answer arrived before technical recovery committed'')
       else Inr (update_question k (\<lambda>q. q\<lparr>qr_status := status, qr_answer := answer, qr_answered_by := actor,
               qr_decision := decision, qr_answered_at := Some at\<rparr>) st))"

fun apply_question :: "QuestionWrite \<Rightarrow> Store \<Rightarrow> Store checked" where
  "apply_question (QwInsert q) st = insert_question q st"
| "apply_question (QwAnswerProcessed k submission error at) st = process_answer k submission error at st"
| "apply_question (QwSupersede k canonical at) st = supersede_question k canonical at st"
| "apply_question (QwSettle k status answer actor decision at) st =
     settle_question k status answer actor decision at st"
| "apply_question (QwResearch k item) st =
     (if get_question st k = None then Inl (WseNotFound (''question '' @ k))
      else Inr (update_question k (\<lambda>q. q\<lparr>qr_status := QsResearching, qr_research_item := Some item\<rparr>) st))"
| "apply_question (QwDelivered k via) st =
     Inr (update_question k (\<lambda>q. q\<lparr>qr_delivered_via := Some via\<rparr>) st)"

definition question_submit_answer :: "string \<Rightarrow> AnswerSubmission \<Rightarrow> Store \<Rightarrow> (Store \<times> QuestionRow) checked" where
  "question_submit_answer k submission st =
     and_then (require_question st k) (\<lambda>q.
       let settle_new =
             (if \<not> QuestionStatus_is_waiting (qr_status q) \<or> qr_superseded_by q \<noteq> None
              then Inl (question_taken k (qr_status q))
              else if as_status submission \<noteq> AsPending
              then Inl (WseAlreadyExists ''a new answer receipt must be pending'')
              else Inr (update_question k (\<lambda>q. q\<lparr>qr_answer_submission := Some submission\<rparr>) st,
                        q\<lparr>qr_answer_submission := Some submission\<rparr>))
       in case qr_answer_submission q of
            None \<Rightarrow> settle_new
          | Some existing \<Rightarrow>
              let same_payload = (as_answer existing = as_answer submission \<and> as_actor existing = as_actor submission)
              in if as_id existing = as_id submission
                 then if \<not> same_payload
                      then Inl (WseAlreadyExists ''this answer identity was already used for different words or a different sender'')
                      else Inr (st, q)
                 else if as_status existing = AsPending
                 then if same_payload then Inr (st, q)
                      else Inl (WseAlreadyExists ''a saved answer is already waiting to be applied to this question'')
                 else settle_new)"

definition questions_pending_answers :: "Store \<Rightarrow> QuestionRow list" where
  "questions_pending_answers st =
     sort_key (\<lambda>q. case qr_answer_submission q of Some s \<Rightarrow> as_submitted_at s | None \<Rightarrow> 0)
       (sort_key (\<lambda>q. case qr_answer_submission q of Some s \<Rightarrow> as_id s | None \<Rightarrow> [])
         (filter receipt_pending
           (sort_key qr_created_at (sort_key qr_id (filter (\<lambda>q. qr_answer_submission q \<noteq> None) (st_questions st))))))"

definition list_questions :: "QuestionFilter \<Rightarrow> Store \<Rightarrow> QuestionRow list" where
  "list_questions f st =
     rev (sort_key qr_created_at (filter (\<lambda>q.
       (case qf_item f of Some i \<Rightarrow> qr_item q = i | None \<Rightarrow> True)
       \<and> (case qf_root f of Some r \<Rightarrow> qr_root q = r | None \<Rightarrow> True)
       \<and> (case qf_status f of Some s \<Rightarrow> qr_status q = s | None \<Rightarrow> True)
       \<and> (qf_waiting f \<longrightarrow> qr_status q \<in> {QsOpen, QsRecorded, QsResearching})) (st_questions st)))"

definition question_answered :: "Store \<Rightarrow> string \<Rightarrow> bool" where
  \<comment> \<open>the loop body of \<open>questions_answered_among\<close>\<close>
  "question_answered st k =
     (case get_question st k of
        None \<Rightarrow> False
      | Some q \<Rightarrow> has_answer (qr_status q)
          \<or> (case qr_superseded_by q of
               Some c \<Rightarrow> (case get_question st c of Some q' \<Rightarrow> has_answer (qr_status q') | None \<Rightarrow> False)
             | None \<Rightarrow> False))"

definition questions_answered_among :: "string list \<Rightarrow> Store \<Rightarrow> string set" where
  "questions_answered_among ids st = set (filter (question_answered st) ids)"

section \<open>Grants and facets\<close>

definition apply_judgment :: "JudgmentRow \<Rightarrow> Store \<Rightarrow> Store checked" where
  "apply_judgment row st =
     (if jr_id row \<in> jr_id ` set (st_judgments st) then Inl (unique_failed ''judgment_policies.id'')
      else Inr (st\<lparr>st_judgments := st_judgments st @ [row]\<rparr>))"

definition judgment_list :: "bool \<Rightarrow> Store \<Rightarrow> JudgmentRow list" where
  "judgment_list include_revoked st =
     sort_key jr_granted_at (filter (\<lambda>g. include_revoked \<or> jr_revoked_at g = None) (st_judgments st))"

definition judgment_revoke :: "string \<Rightarrow> timestamp \<Rightarrow> Store \<Rightarrow> (Store \<times> bool) checked" where
  "judgment_revoke k at st =
     (if \<exists>g \<in> set (st_judgments st). jr_id g = k \<and> jr_revoked_at g = None
      then Inr (st\<lparr>st_judgments := update_where (\<lambda>g. jr_id g = k \<and> jr_revoked_at g = None)
                    (\<lambda>g. g\<lparr>jr_revoked_at := Some at\<rparr>) (st_judgments st)\<rparr>, True)
      else if k \<in> jr_id ` set (st_judgments st) then Inr (st, False)
      else Inl (WseNotFound (''judgment policy '' @ k)))"

definition put_facets :: "work_item_id \<Rightarrow> WorkFacets \<Rightarrow> Store \<Rightarrow> Store" where
  "put_facets item f st = st\<lparr>st_facets := AList.update item f (st_facets st)\<rparr>"

section \<open>Batches\<close>

definition log_event :: "(Store \<times> WorkEvent) \<Rightarrow> WorkApplied \<Rightarrow> Store \<times> WorkApplied" where
  "log_event r applied = (fst r, applied\<lparr>wa_events := wa_events applied @ [snd r]\<rparr>)"

definition log_outbox :: "(Store \<times> string) \<Rightarrow> WorkApplied \<Rightarrow> Store \<times> WorkApplied" where
  "log_outbox r applied = (fst r, applied\<lparr>wa_outbox_ids := wa_outbox_ids applied @ [snd r]\<rparr>)"

fun apply_op :: "(nat \<Rightarrow> string) \<Rightarrow> timestamp \<Rightarrow> WorkOp \<Rightarrow> Store \<times> WorkApplied \<Rightarrow> (Store \<times> WorkApplied) checked" where
  \<comment> \<open>\<open>ops::apply\<close>\<close>
  "apply_op uuid now (OpInsert item) (st, ap) = and_then (insert_item item st) (\<lambda>st. Inr (st, ap))"
| "apply_op uuid now (OpSetPriority item expected priority) (st, ap) =
     and_then (set_priority item expected priority st) (\<lambda>st. Inr (st, ap))"
| "apply_op uuid now (OpPlan plan) (st, ap) = and_then (insert_plan plan st) (\<lambda>st. Inr (st, ap))"
| "apply_op uuid now (OpAddEdge edge) (st, ap) = and_then (store_add_edge edge st) (\<lambda>r. Inr (fst r, ap))"
| "apply_op uuid now (OpRemoveOrderingEdgesOf item) (st, ap) = Inr (fst (remove_ordering_edges_of item st), ap)"
| "apply_op uuid now (OpRemoveEdge edge) (st, ap) = Inr (fst (store_remove_edge edge st), ap)"
| "apply_op uuid now (OpRepoint spec) (st, ap) = and_then (repoint spec now st) (\<lambda>r. Inr (log_event r ap))"
| "apply_op uuid now (OpTransition spec) (st, ap) = and_then (transition spec now st) (\<lambda>r. Inr (log_event r ap))"
| "apply_op uuid now (OpNote event) (st, ap) =
     and_then (append_note event st) (\<lambda>st. Inr (log_event (st, event) ap))"
| "apply_op uuid now (OpOutbox draft) (st, ap) =
     and_then (enqueue_outbox uuid draft now st) (\<lambda>r. Inr (log_outbox r ap))"
| "apply_op uuid now (OpFacets item facets) (st, ap) = Inr (put_facets item facets st, ap)"
| "apply_op uuid now (OpReleaseHold item) (st, ap) = and_then (release_hold item now st) (\<lambda>st. Inr (st, ap))"
| "apply_op uuid now (OpAddArtifactRef item artifact) (st, ap) =
     and_then (add_artifact_ref item artifact now st) (\<lambda>st. Inr (st, ap))"
| "apply_op uuid now (OpQuestion write) (st, ap) = and_then (apply_question write st) (\<lambda>st. Inr (st, ap))"
| "apply_op uuid now (OpJudgment row) (st, ap) = and_then (apply_judgment row st) (\<lambda>st. Inr (st, ap))"
| "apply_op uuid now (OpNotice notice) (st, ap) =
     and_then (apply_notice uuid notice now st) (\<lambda>r. Inr (log_outbox r ap))"

fun apply_ops :: "(nat \<Rightarrow> string) \<Rightarrow> timestamp \<Rightarrow> WorkOp list \<Rightarrow> Store \<times> WorkApplied \<Rightarrow> (Store \<times> WorkApplied) checked" where
  \<comment> \<open>the loop of \<open>work_apply\<close>\<close>
  "apply_ops uuid now [] sa = Inr sa"
| "apply_ops uuid now (op # ops) sa = and_then (apply_op uuid now op sa) (apply_ops uuid now ops)"

definition work_apply :: "(nat \<Rightarrow> string) \<Rightarrow> timestamp \<Rightarrow> WorkOp list \<Rightarrow> Store \<Rightarrow> (Store \<times> WorkApplied) checked" where
  "work_apply uuid now batch st = apply_ops uuid now batch (st, WorkApplied_default)"

definition work_insert_graph ::
  "(nat \<Rightarrow> string) \<Rightarrow> timestamp \<Rightarrow> WorkItem list \<Rightarrow> Edge list \<Rightarrow> WorkPlanRow option \<Rightarrow> Store \<Rightarrow> Store checked" where
  "work_insert_graph uuid now items edges plan st =
     and_then (work_apply uuid now
         (map OpInsert items @ (case plan of Some p \<Rightarrow> [OpPlan p] | None \<Rightarrow> []) @ map OpAddEdge edges) st)
       (\<lambda>r. Inr (fst r))"

definition work_transition_many ::
  "(nat \<Rightarrow> string) \<Rightarrow> timestamp \<Rightarrow> TransitionSpec list \<Rightarrow> Store \<Rightarrow> (Store \<times> WorkEvent list) checked" where
  "work_transition_many uuid now specs st =
     and_then (work_apply uuid now (map OpTransition specs) st) (\<lambda>r. Inr (fst r, wa_events (snd r)))"

fun add_edges_loop :: "Edge list \<Rightarrow> nat \<Rightarrow> Store \<Rightarrow> (Store \<times> nat) checked" where
  \<comment> \<open>the loop of \<open>work_add_edges\<close>\<close>
  "add_edges_loop [] added st = Inr (st, added)"
| "add_edges_loop (e # es) added st =
     and_then (store_add_edge e st) (\<lambda>(st1, new). add_edges_loop es (if new then added + 1 else added) st1)"

definition work_add_edges :: "Edge list \<Rightarrow> Store \<Rightarrow> (Store \<times> nat) checked" where
  "work_add_edges edges st = add_edges_loop edges 0 st"

end
