(* ===== verification/Routing.thy ===== *)
theory Routing
  imports Gaps Validate
begin

text \<open>
  Routing by record, \<^verbatim>\<open>rustykrab-control/src/routing.rs\<close> with the class records of
  \<^verbatim>\<open>rustykrab-store/src/workers.rs\<close>: the need a capability item answers, the routed class of an item,
  how a judged result changes a worker's record, and which worker qualifies for a class. The counters
  are \<^verbatim>\<open>u64\<close> words; \<^verbatim>\<open>+=\<close> wraps, as in a release build.
\<close>

section \<open>Capability references\<close>

record CapabilityRef =
  cr_gap :: GapKind
  cr_subject :: string

lemma trim_start_length: "length (trim_start s) \<le> length s"
  by (simp add: trim_start_def length_dropWhile_le)

lemma trim_length: "length (trim s) \<le> length s"
  using trim_start_length[of s] length_dropWhile_le[of is_whitespace "rev (trim_start s)"]
  by (simp add: trim_def trim_end_def)

function tool_subject :: "string \<Rightarrow> string" where
  "tool_subject name =
     (case strip_prefix ''capability:tool:'' name of
        None \<Rightarrow> name
      | Some subject \<Rightarrow> if trim subject = [] then name else tool_subject (trim subject))"
  by pat_completeness auto
termination
proof (relation "measure length", goal_cases)
  case (2 name subject)
  then have "name = ''capability:tool:'' @ subject" by (intro strip_prefix_sound)
  then show ?case using trim_length[of subject] by simp
qed simp

declare tool_subject.simps [simp del]

definition to_ref :: "CapabilityRef \<Rightarrow> ArtifactRef" where
  "to_ref c =
     \<lparr>ar_kind = CAPABILITY_REF,
      ar_value = GapKind_as_str (cr_gap c) @ '':''
        @ (if cr_gap c = GkTool then tool_subject (cr_subject c) else cr_subject c)\<rparr>"

definition CapabilityRef_parse :: "ArtifactRef \<Rightarrow> CapabilityRef option" where
  "CapabilityRef_parse r =
     (if ar_kind r \<noteq> CAPABILITY_REF then None
      else case split_once '':'' (ar_value r) of
        None \<Rightarrow> None
      | Some (gap, subject) \<Rightarrow>
          (case GapKind_parse (trim gap) of
             None \<Rightarrow> None
           | Some g \<Rightarrow>
               let s = (if g = GkTool then tool_subject (trim subject) else trim subject)
               in if s = [] then None else Some \<lparr>cr_gap = g, cr_subject = s\<rparr>))"

fun of_refs :: "ArtifactRef list \<Rightarrow> CapabilityRef option" where
  "of_refs [] = None"
| "of_refs (r # rs) = (case CapabilityRef_parse r of Some c \<Rightarrow> Some c | None \<Rightarrow> of_refs rs)"

definition built_tool :: "CapabilityMode option \<Rightarrow> ArtifactRef list \<Rightarrow> string option" where
  "built_tool mode refs =
     (if mode \<noteq> Some CmBuild then None
      else case of_refs refs of
        None \<Rightarrow> None
      | Some c \<Rightarrow> if cr_gap c = GkTool then Some (cr_subject c) else None)"

definition CODE :: string where "CODE = ''code''"

definition CAPABILITY_BUILD :: string where "CAPABILITY_BUILD = ''capability:build''"

definition work_class :: "WorkItem \<Rightarrow> CapabilityMode option \<Rightarrow> string option" where
  "work_class item mode =
     (if mode = Some CmBuild then Some CAPABILITY_BUILD
      else if repo_of (wi_writable_resources item) \<noteq> None then Some CODE
      else None)"

section \<open>Records\<close>

datatype JudgedVerdict = VdVerified | VdNotVerified | VdFailed

record RunUsage =
  us_tokens :: u64
  us_wall_ms :: u64
  us_iterations :: u32
  us_reminders :: u32

record Judged =
  jd_worker :: string
  jd_worker_kind :: WorkerKind
  jd_item :: work_item_id
  jd_class :: string
  jd_verdict :: JudgedVerdict
  jd_repairs :: u32
  jd_wall_seconds :: u64
  jd_usage :: "RunUsage option"
  jd_at :: timestamp

record ClassCost =
  cc_runs :: u64
  cc_wall_seconds :: u64
  cc_tokens :: u64

record ClassRecord =
  rc_verified_done :: u64
  rc_claimed_not_verified :: u64
  rc_failed :: u64
  rc_escaped_defects :: u64
  rc_repairs :: u64
  rc_cost :: ClassCost
  rc_probation :: bool
  rc_last_verified_at :: "timestamp option"
  rc_last_failed_at :: "timestamp option"
  rc_recent_items :: "string list"

definition ClassRecord_default :: ClassRecord where
  "ClassRecord_default =
     \<lparr>rc_verified_done = 0, rc_claimed_not_verified = 0, rc_failed = 0, rc_escaped_defects = 0, rc_repairs = 0,
      rc_cost = \<lparr>cc_runs = 0, cc_wall_seconds = 0, cc_tokens = 0\<rparr>, rc_probation = False,
      rc_last_verified_at = None, rc_last_failed_at = None, rc_recent_items = []\<rparr>"

definition RECENT_ITEMS :: nat where "RECENT_ITEMS = 10"

definition note_item :: "string \<Rightarrow> ClassRecord \<Rightarrow> ClassRecord" where
  "note_item item r =
     (let items = filter (\<lambda>i. i \<noteq> item) (rc_recent_items r) @ [item]
      in r\<lparr>rc_recent_items := drop (length items - RECENT_ITEMS) items\<rparr>)"

definition apply_judged :: "u64 \<Rightarrow> Judged \<Rightarrow> ClassRecord \<Rightarrow> ClassRecord" where
  \<comment> \<open>\<open>routing::apply\<close>\<close>
  "apply_judged earn_after j r =
     (let r1 = (case jd_verdict j of
            VdVerified \<Rightarrow> r\<lparr>rc_verified_done := rc_verified_done r + 1,
                            rc_repairs := rc_repairs r + ucast (jd_repairs j),
                            rc_last_verified_at := Some (jd_at j)\<rparr>
          | VdNotVerified \<Rightarrow> r\<lparr>rc_claimed_not_verified := rc_claimed_not_verified r + 1,
                               rc_last_failed_at := Some (jd_at j)\<rparr>
          | VdFailed \<Rightarrow> r\<lparr>rc_failed := rc_failed r + 1, rc_last_failed_at := Some (jd_at j)\<rparr>);
          r2 = note_item (jd_item j) r1;
          cost = rc_cost r2;
          cost1 = cost\<lparr>cc_runs := cc_runs cost + 1, cc_wall_seconds := cc_wall_seconds cost + jd_wall_seconds j\<rparr>;
          cost2 = (case jd_usage j of None \<Rightarrow> cost1 | Some u \<Rightarrow> cost1\<lparr>cc_tokens := cc_tokens cost1 + us_tokens u\<rparr>)
      in r2\<lparr>rc_cost := cost2,
            rc_probation := (jd_verdict j \<noteq> VdVerified \<or> rc_verified_done r2 < earn_after)\<rparr>)"

fun default_cost_tier :: "WorkerKind \<Rightarrow> u32" where
  "default_cost_tier WrAny = 0"
| "default_cost_tier WrLocal = 0"
| "default_cost_tier WrPeer = 1"
| "default_cost_tier WrCodex = 2"
| "default_cost_tier WrClaudeCode = 3"

record RoutingPolicy =
  rp_default_tiers :: "(string \<times> u32) list"
  rp_earn_after :: u64

definition RoutingPolicy_default :: RoutingPolicy where
  "RoutingPolicy_default =
     \<lparr>rp_default_tiers = [(CODE, 0), (CAPABILITY_BUILD, default_cost_tier WrCodex)], rp_earn_after = 3\<rparr>"

definition reload_tiers :: "RoutingPolicy \<Rightarrow> (string \<times> u32) list \<Rightarrow> (string \<times> u32) list" where
  \<comment> \<open>\<open>RecordRouting::reload\<close>: the stored tiers over the policy's\<close>
  "reload_tiers policy stored = foldl (\<lambda>m (c, t). AList.update c t m) (rp_default_tiers policy) stored"

definition qualifies :: "RoutingPolicy \<Rightarrow> (string \<times> u32) list \<Rightarrow> u32 \<Rightarrow> (string \<Rightarrow> ClassRecord option) \<Rightarrow> string option \<Rightarrow> bool" where
  \<comment> \<open>the worker is its cost tier and its records by class\<close>
  "qualifies policy tiers cost_tier record_of class =
     (case class of
        None \<Rightarrow> True
      | Some c \<Rightarrow>
          (case map_of tiers c of
             None \<Rightarrow> True
           | Some floor \<Rightarrow>
               if floor \<le> cost_tier then True
               else case record_of c of
                 None \<Rightarrow> False
               | Some r \<Rightarrow> rp_earn_after policy \<le> rc_verified_done r \<and> \<not> rc_probation r))"

section \<open>Earning a class\<close>

text \<open>The record a worker has on a class after a list of judged results, oldest first.\<close>

definition record_after :: "u64 \<Rightarrow> Judged list \<Rightarrow> ClassRecord" where
  "record_after earn_after js = foldl (\<lambda>r j. apply_judged earn_after j r) ClassRecord_default js"

definition verified_count :: "Judged list \<Rightarrow> nat" where
  "verified_count js = length (filter (\<lambda>j. jd_verdict j = VdVerified) js)"

lemma note_item_fields [simp]:
  "rc_verified_done (note_item i r) = rc_verified_done r" "rc_probation (note_item i r) = rc_probation r"
  "rc_cost (note_item i r) = rc_cost r"
  by (simp_all add: note_item_def Let_def)

lemma apply_judged_fields:
  "rc_verified_done (apply_judged n j r) = (if jd_verdict j = VdVerified then rc_verified_done r + 1 else rc_verified_done r)"
  "rc_probation (apply_judged n j r)
     = (jd_verdict j \<noteq> VdVerified \<or> rc_verified_done (apply_judged n j r) < n)"
  "rc_recent_items (apply_judged n j r) = rc_recent_items (note_item (jd_item j) r)"
  "cc_runs (rc_cost (apply_judged n j r)) = cc_runs (rc_cost r) + 1"
  by (simp_all add: apply_judged_def Let_def note_item_def split: JudgedVerdict.split option.split)

lemma record_after_snoc: "record_after n (js @ [j]) = apply_judged n j (record_after n js)"
  by (simp add: record_after_def)

lemma verified_done_after:
  "length js < 2 ^ 64 \<Longrightarrow> unat (rc_verified_done (record_after n js)) = verified_count js"
proof (induction js rule: rev_induct)
  case Nil
  then show ?case by (simp add: record_after_def ClassRecord_default_def verified_count_def)
next
  case (snoc j js)
  then have IH: "unat (rc_verified_done (record_after n js)) = verified_count js" by simp
  have "verified_count js \<le> length js" by (simp add: verified_count_def)
  with snoc.prems have "Suc (verified_count js) < 2 ^ 64" by simp
  then have "unat (rc_verified_done (record_after n js) + 1) = Suc (verified_count js)"
    using IH by (simp add: unat_word_ariths)
  with IH show ?case by (simp add: record_after_snoc apply_judged_fields verified_count_def)
qed

text \<open>C38: below a class's default tier, a worker qualifies exactly when its record has earned the
  class: at least one result, the last one verified, and as many verified results as the policy asks
  for; a worker at or above the tier, and any worker for a class that is not routed, always does.\<close>

theorem qualifies_iff_earned:
  assumes "length js < 2 ^ 64" "js \<noteq> []" "map_of tiers c = Some floor"
  shows "qualifies policy tiers tier (\<lambda>k. if k = c then Some (record_after (rp_earn_after policy) js) else None) (Some c)
    \<longleftrightarrow> floor \<le> tier \<or> jd_verdict (last js) = VdVerified \<and> unat (rp_earn_after policy) \<le> verified_count js"
proof -
  obtain js' j where js: "js = js' @ [j]" using assms(2) by (metis rev_exhaust)
  have enough: "rp_earn_after policy \<le> rc_verified_done (record_after (rp_earn_after policy) js)
      \<longleftrightarrow> unat (rp_earn_after policy) \<le> verified_count js"
    using verified_done_after[OF assms(1)] by (simp add: word_le_nat_alt)
  have "rc_probation (record_after (rp_earn_after policy) js)
      \<longleftrightarrow> jd_verdict j \<noteq> VdVerified \<or> rc_verified_done (record_after (rp_earn_after policy) js) < rp_earn_after policy"
    unfolding js record_after_snoc by (rule apply_judged_fields(2))
  then show ?thesis using assms(3) enough js by (auto simp: qualifies_def not_less)
qed

lemma note_item_distinct: "distinct (rc_recent_items r) \<Longrightarrow> distinct (rc_recent_items (note_item i r))"
  unfolding note_item_def Let_def by (simp del: drop_append add: distinct_drop)

lemma recent_items_bounded:
  "length (rc_recent_items (record_after n js)) \<le> RECENT_ITEMS \<and> distinct (rc_recent_items (record_after n js))"
proof (induction js rule: rev_induct)
  case Nil
  then show ?case by (simp add: record_after_def ClassRecord_default_def)
next
  case (snoc j js)
  have "length (rc_recent_items (note_item (jd_item j) (record_after n js))) \<le> RECENT_ITEMS"
    unfolding note_item_def Let_def by simp
  with snoc show ?case by (simp add: record_after_snoc apply_judged_fields note_item_distinct)
qed

section \<open>The need reads back\<close>

text \<open>A trimmed string neither starts nor ends with whitespace, and trimming leaves it alone.\<close>

definition trimmed :: "string \<Rightarrow> bool" where
  "trimmed s \<longleftrightarrow> s = [] \<or> \<not> is_whitespace (hd s) \<and> \<not> is_whitespace (last s)"

lemma dropWhile_hd: "xs \<noteq> [] \<Longrightarrow> \<not> P (hd xs) \<Longrightarrow> dropWhile P xs = xs"
  by (cases xs) simp_all

lemma trim_trimmed: "trimmed s \<Longrightarrow> trim s = s"
  by (cases "s = []") (simp_all add: trimmed_def trim_def trim_start_def trim_end_def dropWhile_hd hd_rev)

text \<open>A tool's subject is peeled of every \<open>capability:tool:\<close> it was wrapped in, so that peeling it
  again changes nothing; and a trimmed, nonempty subject stays so.\<close>

lemma tool_subject_fixed: "tool_subject (tool_subject s) = tool_subject s"
proof (induction s rule: tool_subject.induct)
  case (1 name)
  show ?case
  proof (cases "strip_prefix ''capability:tool:'' name")
    case None
    then show ?thesis by (simp add: tool_subject.simps[of name])
  next
    case (Some subject)
    show ?thesis
    proof (cases "trim subject = []")
      case True
      with Some have "tool_subject name = name" by (subst tool_subject.simps) simp
      then show ?thesis by simp
    next
      case False
      with Some have "tool_subject name = tool_subject (trim subject)" by (subst tool_subject.simps) simp
      with 1[OF Some False] show ?thesis by simp
    qed
  qed
qed

lemma dropWhile_hd_clean: "dropWhile P xs \<noteq> [] \<Longrightarrow> \<not> P (hd (dropWhile P xs))"
  by (rule hd_dropWhile) (metis dropWhile_eq_Nil_conv)

lemma trimmed_trim: "trimmed (trim s)"
proof (cases "trim s = []")
  case False
  define t where "t = trim_start s"
  have r: "trim s = rev (dropWhile is_whitespace (rev t))" by (simp add: trim_def trim_end_def t_def)
  with False have ne: "dropWhile is_whitespace (rev t) \<noteq> []" by simp
  have "\<not> is_whitespace (last (trim s))" using dropWhile_hd_clean[OF ne] r by (simp add: last_rev)
  moreover
  have "rev t = takeWhile is_whitespace (rev t) @ dropWhile is_whitespace (rev t)" by simp
  then have "t = trim s @ rev (takeWhile is_whitespace (rev t))" using r by (metis rev_append rev_rev_ident)
  then have "t \<noteq> [] \<and> hd t = hd (trim s)" using False by (metis Nil_is_append_conv hd_append2)
  then have "\<not> is_whitespace (hd (trim s))"
    using dropWhile_hd_clean[of is_whitespace s] by (simp add: t_def trim_start_def)
  ultimately show ?thesis by (simp add: trimmed_def)
qed (simp add: trimmed_def)

lemma tool_subject_trimmed: "s \<noteq> [] \<Longrightarrow> trimmed s \<Longrightarrow> tool_subject s \<noteq> [] \<and> trimmed (tool_subject s)"
proof (induction s rule: tool_subject.induct)
  case (1 name)
  show ?case
  proof (cases "strip_prefix ''capability:tool:'' name")
    case None
    with 1 show ?thesis by (simp add: tool_subject.simps[of name])
  next
    case (Some subject)
    with 1 show ?thesis
      by (cases "trim subject = []") (simp_all add: tool_subject.simps[of name] trimmed_trim)
  qed
qed

lemma GapKind_no_colon: "split_once '':'' (GapKind_as_str g @ '':'' @ s) = Some (GapKind_as_str g, s)"
  by (cases g) (simp_all add: starts_with_def)

lemma trim_GapKind: "trim (GapKind_as_str g) = GapKind_as_str g"
  by (rule trim_trimmed, cases g) (simp_all add: trimmed_def is_whitespace_def code_of_def)

text \<open>The need a capability item carries reads back from its reference: the same gap, and the
  subject as written (a tool's, peeled of its reference prefixes), for a subject that is not empty
  and has no whitespace around it.\<close>

theorem capability_ref_reads_back:
  assumes "cr_subject c \<noteq> []" "trimmed (cr_subject c)"
  shows "CapabilityRef_parse (to_ref c)
    = Some (c\<lparr>cr_subject := (if cr_gap c = GkTool then tool_subject (cr_subject c) else cr_subject c)\<rparr>)"
proof -
  let ?s = "if cr_gap c = GkTool then tool_subject (cr_subject c) else cr_subject c"
  have s: "?s \<noteq> []" "trim ?s = ?s" using tool_subject_trimmed[OF assms] assms by (auto simp: trim_trimmed)
  have "split_once '':'' (ar_value (to_ref c)) = Some (GapKind_as_str (cr_gap c), ?s)"
    unfolding to_ref_def using GapKind_no_colon by simp
  then have "CapabilityRef_parse (to_ref c)
      = (let s' = (if cr_gap c = GkTool then tool_subject (trim ?s) else trim ?s)
         in if s' = [] then None else Some \<lparr>cr_gap = cr_gap c, cr_subject = s'\<rparr>)"
    unfolding CapabilityRef_parse_def trim_GapKind gap_kind.parse_as_str by (simp add: to_ref_def trim_GapKind gap_kind.parse_as_str)
  also have "\<dots> = Some \<lparr>cr_gap = cr_gap c, cr_subject = ?s\<rparr>" unfolding s(2) using s(1) by (simp add: tool_subject_fixed Let_def split: if_splits)
  also have "\<dots> = Some (c\<lparr>cr_subject := ?s\<rparr>)" by simp
  finally show ?thesis .
qed

lemma capability_ref_reads_back_witness:
  "CapabilityRef_parse (to_ref \<lparr>cr_gap = GkCredential, cr_subject = ''smtp''\<rparr>)
     = Some \<lparr>cr_gap = GkCredential, cr_subject = ''smtp''\<rparr>"
  using capability_ref_reads_back[of "\<lparr>cr_gap = GkCredential, cr_subject = ''smtp''\<rparr>"]
  by (simp add: trimmed_def is_whitespace_def code_of_def)

text \<open>A worker below the class's default tier, after three verified results.\<close>

definition verified_run :: Judged where
  "verified_run =
     \<lparr>jd_worker = ''local'', jd_worker_kind = WrLocal, jd_item = ''wi-1'', jd_class = ''capability:build'',
      jd_verdict = VdVerified, jd_repairs = 0, jd_wall_seconds = 60, jd_usage = None, jd_at = 1\<rparr>"

lemma earn_after_default: "rp_earn_after RoutingPolicy_default = 3"
  by (simp add: RoutingPolicy_default_def)

lemma verified_run_verdict: "jd_verdict verified_run = VdVerified"
  by (simp add: verified_run_def)

lemma qualifies_iff_earned_witness:
  "qualifies RoutingPolicy_default [(''capability:build'', 2)] 0
     (\<lambda>k. if k = ''capability:build'' then Some (record_after 3 [verified_run, verified_run, verified_run]) else None)
     (Some ''capability:build'')
   \<and> \<not> qualifies RoutingPolicy_default [(''capability:build'', 2)] 0
     (\<lambda>k. if k = ''capability:build'' then Some (record_after 3 [verified_run, verified_run]) else None)
     (Some ''capability:build'')"
  using qualifies_iff_earned[of "[verified_run, verified_run, verified_run]"
      "[(''capability:build'', 2)]" "''capability:build''" 2 RoutingPolicy_default 0]
    qualifies_iff_earned[of "[verified_run, verified_run]"
      "[(''capability:build'', 2)]" "''capability:build''" 2 RoutingPolicy_default 0]
  by (simp add: verified_run_verdict verified_count_def earn_after_default cong: if_cong)

end
