(* ===== verification/Batch.thy ===== *)
theory Batch
  imports Cascade Ladder Questions Classify Insertion StoreApply Routing
begin

text \<open>
  One store transaction built over a working snapshot: \<^verbatim>\<open>rustykrab-control/src/controller/batch.rs\<close>,
  with the causes and labels of \<^verbatim>\<open>controller/notice.rs\<close> it records. Every write the controller decides
  on is queued as a \<open>WorkOp\<close> and applied to the working snapshot. A method that mutates the batch is a
  function from the old batch to the new one, paired with what it returns; the JSON codec of rung
  events is a parameter.
\<close>

section \<open>Causes and labels (notice.rs)\<close>

datatype Cause =
    CaClosed work_item_id
  | CaExpired work_item_id
  | CaAsked work_item_id string
  | CaApproval "work_item_id list" "string list" string "string option"
  | CaQuestion work_item_id string QuestionKind string "string list"
  | CaDigest

fun Cause_item :: "Cause \<Rightarrow> work_item_id option" where
  "Cause_item (CaClosed k) = Some k"
| "Cause_item (CaExpired k) = Some k"
| "Cause_item (CaAsked k _) = Some k"
| "Cause_item (CaQuestion k _ _ _ _) = Some k"
| "Cause_item (CaApproval held _ _ _) = (case held of [] \<Rightarrow> None | k # _ \<Rightarrow> Some k)"
| "Cause_item CaDigest = None"

fun Cause_urgent :: "Cause \<Rightarrow> bool" where
  "Cause_urgent (CaAsked _ _) = True"
| "Cause_urgent (CaQuestion _ _ _ _ _) = True"
| "Cause_urgent (CaApproval _ _ _ _) = True"
| "Cause_urgent _ = False"

definition short :: "work_item_id \<Rightarrow> string" where
  "short k = ''#'' @ take 8 k"

definition item_label :: "WorkItem \<Rightarrow> string" where
  "item_label item = ''\"'' @ trim (wi_title item) @ ''\" ('' @ short (wi_id item) @ '')''"

section \<open>The batch\<close>

record Batch =
  bt_snap :: Snapshot
  bt_now :: timestamp
  bt_stamp :: timestamp
  bt_ops :: "WorkOp list"
  bt_evidence :: "Evidence list"
  bt_revoke :: "work_item_id list"
  bt_ladders :: "(work_item_id \<times> LadderState) list"
  bt_causes :: "(work_item_id \<times> Cause) list"
  bt_observe :: "string list"
  bt_approved :: "work_item_id list"
  bt_superseded_under :: "work_item_id list"
  bt_planned :: "work_item_id list"
  bt_learned :: "LearnedRule list"
  bt_judged :: "Judged list"
  bt_moved_inputs :: "(work_item_id \<times> work_item_id \<times> work_item_id) set"

definition Batch_new :: "Snapshot \<Rightarrow> timestamp \<Rightarrow> timestamp \<Rightarrow> Batch" where
  "Batch_new snap now stamp =
     \<lparr>bt_snap = snap, bt_now = now, bt_stamp = stamp, bt_ops = [], bt_evidence = [], bt_revoke = [],
      bt_ladders = [], bt_causes = [], bt_observe = [], bt_approved = [], bt_superseded_under = [],
      bt_planned = [], bt_learned = [], bt_judged = [], bt_moved_inputs = {}\<rparr>"

abbreviation queue_op :: "WorkOp \<Rightarrow> Batch \<Rightarrow> Batch" where
  "queue_op op b \<equiv> b\<lparr>bt_ops := bt_ops b @ [op]\<rparr>"

definition batch_status :: "Batch \<Rightarrow> work_item_id \<Rightarrow> Status option" where
  "batch_status b k = snap_status (bt_snap b) k"

definition root_of :: "Batch \<Rightarrow> work_item_id \<Rightarrow> work_item_id" where
  "root_of b k = (case rev (ancestors (bt_snap b) k) of [] \<Rightarrow> k | root # _ \<Rightarrow> root)"

definition own ::
  "Batch \<Rightarrow> work_item_id \<Rightarrow> Status \<Rightarrow> string \<Rightarrow> string \<Rightarrow> EventKind option \<Rightarrow> Batch \<times> bool" where
  "own b item to actor reason kind =
     (case batch_status b item of
        None \<Rightarrow> (b, False)
      | Some from \<Rightarrow>
          if is_closed from then (b, False)
          else
            let new = TransitionSpec_new item to actor;
                spec = new\<lparr>ts_expected_from := Some from, ts_reason := Some reason,
                           ts_kind := (case kind of Some k \<Rightarrow> k | None \<Rightarrow> ts_kind new)\<rparr>;
                t = \<lparr>tr_item = item, tr_from = from, tr_to = to, tr_kind = ts_kind spec,
                     tr_reason = ts_reason spec, tr_upstream = None, tr_origin = None\<rparr>;
                b1 = queue_op (OpTransition spec) b;
                b2 = (if is_active from \<and> \<not> is_active to
                      then b1\<lparr>bt_revoke := push_unique (bt_revoke b1) item\<rparr> else b1)
            in (b2\<lparr>bt_snap := snap_apply (bt_snap b2) (Effects_default\<lparr>ef_transitions := [t]\<rparr>) (bt_now b2)\<rparr>, True))"

definition move_to ::
  "Batch \<Rightarrow> work_item_id \<Rightarrow> Status \<Rightarrow> string \<Rightarrow> string \<Rightarrow> Batch \<times> work_item_id list" where
  "move_to b item to actor reason =
     (let (b1, moved) = own b item to actor reason None in (b1, if moved then [item] else []))"

definition resume_to :: "Batch \<Rightarrow> work_item_id \<Rightarrow> Status \<Rightarrow> string \<Rightarrow> Batch \<times> work_item_id list" where
  "resume_to b item to reason =
     (let (b1, moved) = own b item to ''controller'' reason (Some EvResume) in (b1, if moved then [item] else []))"

definition reassert :: "Batch \<Rightarrow> work_item_id \<Rightarrow> string \<Rightarrow> string \<Rightarrow> Batch" where
  "reassert b item actor reason =
     (case snap_item (bt_snap b) item of
        None \<Rightarrow> b
      | Some row \<Rightarrow>
          queue_op (OpTransition ((TransitionSpec_new item (wi_status row) actor)
            \<lparr>ts_expected_from := Some (wi_status row), ts_reason := Some reason,
             ts_upstream := wi_status_origin row, ts_origin := wi_status_origin row\<rparr>)) b)"

section \<open>Writing effects\<close>

definition transition_op :: "string \<Rightarrow> EventKind option \<Rightarrow> Transition \<Rightarrow> WorkOp" where
  "transition_op actor kind t =
     OpTransition \<lparr>ts_item = tr_item t, ts_expected_from = Some (tr_from t), ts_to = tr_to t,
       ts_kind = (case kind of Some k \<Rightarrow> k | None \<Rightarrow> tr_kind t), ts_actor = actor, ts_reason = tr_reason t,
       ts_upstream = tr_upstream t, ts_origin = tr_origin t, ts_evidence_ref = None\<rparr>"

definition repoint_op :: "string \<Rightarrow> EdgeKind option \<Rightarrow> Repoint \<Rightarrow> WorkOp" where
  "repoint_op actor kind r =
     OpRepoint \<lparr>rs_item = rp_item r, rs_kind = kind, rs_old_upstream = rp_old_upstream r,
       rs_new_upstream = rp_new_upstream r, rs_origin = Some (rp_origin r), rs_actor = actor\<rparr>"

definition push_repoint_op :: "string \<Rightarrow> Batch \<Rightarrow> Repoint \<Rightarrow> Batch" where
  \<comment> \<open>the loop over \<open>repoints\<close>: an input the store moved with its edge is not moved again\<close>
  "push_repoint_op actor b r =
     (let key = (rp_item r, rp_old_upstream r, rp_new_upstream r) in
      case rp_link r of
        LkEdge k \<Rightarrow> queue_op (repoint_op actor (Some k) r) (b\<lparr>bt_moved_inputs := insert key (bt_moved_inputs b)\<rparr>)
      | LkInput \<Rightarrow> if key \<in> bt_moved_inputs b then b else queue_op (repoint_op actor None r) b)"

definition push_effects :: "Batch \<Rightarrow> Effects \<Rightarrow> string \<Rightarrow> EventKind option \<Rightarrow> Batch" where
  "push_effects b fx actor kind =
     (let b1 = b\<lparr>bt_ops := bt_ops b @ map (transition_op actor kind) (ef_transitions fx)\<rparr>;
          b2 = foldl (push_repoint_op actor) b1 (ef_repoints fx);
          dropped = foldl push_unique [] (map e_item (ef_dropped_edges fx));
          b3 = b2\<lparr>bt_ops := bt_ops b2 @ map OpRemoveOrderingEdgesOf dropped\<rparr>
      in b3\<lparr>bt_revoke := foldl push_unique (bt_revoke b3) (ef_revoke fx)\<rparr>)"

definition batch_effects :: "Batch \<Rightarrow> Effects \<Rightarrow> string \<Rightarrow> Batch" where
  "batch_effects b fx actor =
     (let b1 = push_effects b fx actor None in b1\<lparr>bt_snap := snap_apply (bt_snap b1) fx (bt_now b1)\<rparr>)"

definition corrections :: "Batch \<Rightarrow> Effects \<Rightarrow> Batch" where
  "corrections b fx =
     (let b1 = push_effects b fx ''controller'' (Some EvResume)
      in b1\<lparr>bt_snap := snap_apply (bt_snap b1) fx (bt_now b1)\<rparr>)"

section \<open>Closing and cancelling\<close>

definition batch_close ::
  "Batch \<Rightarrow> work_item_id \<Rightarrow> Status \<Rightarrow> string \<Rightarrow> string \<Rightarrow> Batch \<times> work_item_id list" where
  "batch_close b item to actor reason =
     (let (b1, moved) = own b item to actor reason None in
      if \<not> moved then (b1, [])
      else if is_closed to
      then let fx = cascade (bt_snap b1) item to (bt_now b1)
           in (batch_effects b1 fx ''controller'', foldl push_unique [item] (touched fx))
      else (b1, [item]))"

definition cancel_unneeded :: "Batch \<Rightarrow> work_item_id \<Rightarrow> work_item_id \<Rightarrow> Batch \<times> work_item_id list" where
  "cancel_unneeded b item origin =
     (case batch_status b item of
        None \<Rightarrow> (b, [])
      | Some from \<Rightarrow>
          if is_closed from then (b, [])
          else
            let to = Cancelled CrCascade;
                t = \<lparr>tr_item = item, tr_from = from, tr_to = to, tr_kind = EvCascade,
                     tr_reason = Some ''no open item needs this capability any more'',
                     tr_upstream = Some origin, tr_origin = Some origin\<rparr>;
                b1 = batch_effects b (Effects_default\<lparr>ef_transitions := [t]\<rparr>) ''controller'';
                fx = cascade (bt_snap b1) item to (bt_now b1)
            in (batch_effects b1 fx ''controller'', foldl push_unique [item] (touched fx)))"

definition cancelled_ids :: "Effects \<Rightarrow> work_item_id list" where
  "cancelled_ids fx =
     map tr_item (filter (\<lambda>t. case tr_to t of Cancelled _ \<Rightarrow> True | _ \<Rightarrow> False) (ef_transitions fx))"

definition split_own :: "work_item_id \<Rightarrow> string option \<Rightarrow> Effects \<Rightarrow> Effects \<times> Effects" where
  \<comment> \<open>\<open>own\<close> and \<open>rest\<close> in \<open>cancel_tree\<close>\<close>
  "split_own item reason fx =
     (case ef_transitions fx of
        t # ts \<Rightarrow>
          if tr_item t = item
          then (Effects_default\<lparr>ef_transitions :=
                  [case reason of Some r \<Rightarrow> t\<lparr>tr_reason := Some r\<rparr> | None \<Rightarrow> t]\<rparr>,
                fx\<lparr>ef_transitions := ts\<rparr>)
          else (Effects_default, fx)
      | [] \<Rightarrow> (Effects_default, fx))"

definition cancel_tree ::
  "Batch \<Rightarrow> work_item_id \<Rightarrow> string \<Rightarrow> string option \<Rightarrow> Batch \<times> work_item_id list \<times> work_item_id list" where
  "cancel_tree b item actor reason =
     (let fx = cancel_subtree (bt_snap b) item CrRequested item (bt_now b);
          (ours, rest) = split_own item reason fx;
          b1 = push_effects b ours actor None;
          b2 = push_effects b1 rest ''controller'' None
      in (b2\<lparr>bt_snap := snap_apply (bt_snap b2) fx (bt_now b2)\<rparr>, touched fx, cancelled_ids fx))"

section \<open>Verifying parents\<close>

definition has_open_plan_b :: "Snapshot \<Rightarrow> work_item_id \<Rightarrow> bool" where
  "has_open_plan_b s k =
     list_ex (\<lambda>e. e_kind e = EkConditionalOnFailure
                  \<and> (case snap_status s (e_item e) of Some st \<Rightarrow> is_waiting st | None \<Rightarrow> False))
       (edges_naming s k)"

primrec covered_levels :: "nat \<Rightarrow> Snapshot \<Rightarrow> work_item_id \<Rightarrow> bool" where
  \<comment> \<open>\<open>covered_by_plan_b\<close> with as many levels left\<close>
  "covered_levels 0 s k = False"
| "covered_levels (Suc n) s k =
     list_ex (\<lambda>e. e_kind e = EkConditionalOnFailure
                  \<and> (case snap_status s (e_item e) of
                       Some Done \<Rightarrow> True
                     | Some Failed \<Rightarrow> covered_levels n s (e_item e)
                     | _ \<Rightarrow> False))
       (edges_naming s k)"

definition covered_by_plan_b :: "Snapshot \<Rightarrow> work_item_id \<Rightarrow> nat \<Rightarrow> bool" where
  "covered_by_plan_b s k depth = covered_levels (8 - depth) s k"

definition kid_verdict :: "Snapshot \<Rightarrow> string + (nat \<times> string list) \<Rightarrow> work_item_id \<Rightarrow> string + (nat \<times> string list)" where
  \<comment> \<open>the loop of \<open>parent_verdict\<close>: the count of done children and the covered ones\<close>
  "kid_verdict s acc kid =
     (case acc of
        Inl why \<Rightarrow> Inl why
      | Inr (finished, covered) \<Rightarrow>
          (case snap_item s kid of
             None \<Rightarrow> Inr (finished, covered)
           | Some row \<Rightarrow>
               (case wi_status row of
                  Done \<Rightarrow> Inr (finished + 1, covered)
                | Cancelled _ \<Rightarrow> Inr (finished, covered)
                | st \<Rightarrow>
                    if st = Failed \<and> covered_by_plan_b s kid 0 then Inr (finished, covered @ [item_label row])
                    else if \<not> is_closed st then Inl (item_label row @ '' is still '' @ Status_fmt st)
                    else Inl (item_label row @ '' ended '' @ Status_fmt st))))"

definition parent_verdict :: "Snapshot \<Rightarrow> work_item_id \<Rightarrow> string + string" where
  "parent_verdict s parent =
     (let kids = children s parent in
      case foldl (kid_verdict s) (Inr (0, [])) kids of
        Inl why \<Rightarrow> Inl why
      | Inr (finished, covered) \<Rightarrow>
          if finished = 0 then Inl ''no child is done''
          else Inr (''verified from its children: '' @ nat_digits finished @ '' of '' @ nat_digits (length kids) @ '' done''
                 @ (if covered = [] then [] else ''; covered by their plan B: '' @ join '', '' covered)))"

definition notify :: "Batch \<Rightarrow> work_item_id \<Rightarrow> Cause \<Rightarrow> Batch" where
  "notify b item cause = b\<lparr>bt_causes := bt_causes b @ [(item, cause)]\<rparr>"

definition verify_parent :: "Batch \<times> work_item_id list \<Rightarrow> work_item_id \<Rightarrow> Batch \<times> work_item_id list" where
  \<comment> \<open>the loop over \<open>verifying\<close> in \<open>settle\<close>\<close>
  "verify_parent bc parent =
     (let (b, changed) = bc in
      case parent_verdict (bt_snap b) parent of
        Inr proof_text \<Rightarrow>
          let (b1, touched) = batch_close b parent Done ''controller'' proof_text in (b1, changed @ touched)
      | Inl why \<Rightarrow>
          let (b1, touched) = move_to b parent (Blocked VerificationFailed) ''controller'' why
          in (notify b1 parent (CaAsked parent (''its done_when did not verify: '' @ why)), changed @ touched))"

definition verifying_parents :: "Snapshot \<Rightarrow> work_item_id list" where
  "verifying_parents s = map wi_id (filter (\<lambda>i. wi_status i = Verifying \<and> has_children s (wi_id i)) (sn_items s))"

definition SETTLE_ROUNDS :: nat where "SETTLE_ROUNDS = 64"

primrec settle_rounds :: "nat \<Rightarrow> Batch \<Rightarrow> work_item_id list \<Rightarrow> Batch" where
  "settle_rounds 0 b changed = b"
| "settle_rounds (Suc n) b changed =
     (let b1 = batch_effects b (settle (bt_snap b) changed (bt_now b)) ''controller'';
          verifying = verifying_parents (bt_snap b1)
      in if verifying = [] then b1
         else let (b2, moved) = foldl verify_parent (b1, []) verifying in settle_rounds n b2 moved)"

definition batch_settle :: "Batch \<Rightarrow> work_item_id list \<Rightarrow> Batch" where
  "batch_settle b changed = settle_rounds SETTLE_ROUNDS b changed"

section \<open>Notes, filings, notices and evidence\<close>

definition batch_note :: "Batch \<Rightarrow> work_item_id \<Rightarrow> EventKind \<Rightarrow> string \<Rightarrow> string \<Rightarrow> Batch" where
  "batch_note b item kind actor reason =
     queue_op (OpNote \<lparr>we_item = item, we_at = bt_stamp b, we_kind = kind, we_from = None, we_to = None,
       we_actor = actor, we_reason = Some reason, we_upstream = None, we_origin = None,
       we_evidence_ref = None\<rparr>) b"

definition batch_rung ::
  "(RungEvent \<Rightarrow> string option) \<Rightarrow> Batch \<Rightarrow> work_item_id \<Rightarrow> LadderState \<Rightarrow> RungEvent \<Rightarrow> Batch \<times> LadderState" where
  "batch_rung to_json b item state event =
     (let b1 = batch_note b item EvRung ''controller'' (encode_rung_event to_json event);
          state1 = state\<lparr>ls_history := ls_history state @ [event]\<rparr>
      in (b1\<lparr>bt_ladders := AList.update item state1 (bt_ladders b1)\<rparr>, state1))"

definition batch_file :: "Batch \<Rightarrow> Accepted \<Rightarrow> WorkPlanRow \<Rightarrow> string \<Rightarrow> Batch" where
  "batch_file b accepted row actor =
     (let b1 = b\<lparr>bt_ops := bt_ops b @ map OpInsert (ac_items accepted) @ [OpPlan row]
                   @ map OpAddEdge (ac_edges accepted)\<rparr>;
          b2 = push_effects b1 (ac_effects accepted) actor None;
          b3 = b2\<lparr>bt_snap := Snapshot_insert (bt_snap b2) accepted (bt_now b2)\<rparr>
      in foldl (\<lambda>b w. batch_note b (ac_root accepted) EvWarning ''controller''
                   (''sequential_split: '' @ join '' -> '' (map short (pw_items w)) @ '' could be one item on one worker''))
           b3 (ac_warnings accepted))"

definition RESEARCH_MARK :: string where "RESEARCH_MARK = ''Filed by the question router''"

definition close_is_news :: "Snapshot \<Rightarrow> work_item_id \<Rightarrow> Status \<Rightarrow> bool" where
  "close_is_news s item to =
     (case snap_item s item of
        None \<Rightarrow> False
      | Some row \<Rightarrow>
          if to = Done \<and> (wi_kind row = WkInternal \<or> wi_kind row = WkCapability) then False
          else if to = Cancelled CrCascade \<and> wi_kind row = WkCapability then False
          else if to = Done \<and> list_ex (starts_with RESEARCH_MARK) (wi_constraints row) then False
          else \<not> (to = Failed \<and> has_open_plan_b s item))"

definition owe :: "(work_item_id \<times> Cause list) list \<Rightarrow> work_item_id \<times> Cause \<Rightarrow> (work_item_id \<times> Cause list) list" where
  \<comment> \<open>\<open>add\<close> in \<open>notice_roots\<close>\<close>
  "owe out rc =
     (let (root, cause) = rc in
      case map_of out root of
        Some causes \<Rightarrow> AList.update root (push_unique causes cause) out
      | None \<Rightarrow> out @ [(root, [cause])])"

fun op_causes :: "Batch \<Rightarrow> WorkOp \<Rightarrow> (work_item_id \<times> Cause) list" where
  "op_causes b (OpTransition t) =
     (let k = ts_item t;
          is_root = (case snap_item (bt_snap b) k of Some i \<Rightarrow> wi_parent i = None | None \<Rightarrow> False)
      in (if ts_to t = Expired then [(root_of b k, CaExpired k)] else [])
       @ (if is_closed (ts_to t) \<and> is_root \<and> close_is_news (bt_snap b) k (ts_to t) then [(k, CaClosed k)] else []))"
| "op_causes b _ = []"

definition notice_roots :: "Batch \<Rightarrow> (work_item_id \<times> Cause list) list" where
  "notice_roots b =
     foldl owe [] (concat (map (op_causes b) (bt_ops b)) @ map (\<lambda>(item, cause). (root_of b item, cause)) (bt_causes b))"

definition batch_evidence :: "Batch \<Rightarrow> work_item_id \<Rightarrow> string \<Rightarrow> string \<Rightarrow> string option \<Rightarrow> Batch" where
  "batch_evidence b item kind reference verified_by =
     b\<lparr>bt_evidence := bt_evidence b @
       [\<lparr>ed_item = item, ed_kind = kind, ed_reference = reference, ed_hash = None,
         ed_verified_by = verified_by, ed_at = bt_now b\<rparr>]\<rparr>"

end
