(* ===== verification/Load.thy ===== *)
theory Load
  imports Judgment Snapshot Ladder Classify StoreApply
begin

text \<open>
  Reading the store back: \<^verbatim>\<open>rustykrab-control/src/controller/load.rs\<close>. The snapshot every decision computes
  over, an item's ladder from its events, what its events say about its next run, fingerprint
  recurrence and the landed classifier rules. The controller's in-memory cache of released holds is
  passed and returned; the host's catalog is two predicates, the JSON parser of rung events the
  parameter \<open>of_json\<close>. Sets of the source are sets. Times are unbounded integers, so the clamp of the
  recurrence window at chrono's earliest instant has no counterpart.
\<close>

definition REPLAYED :: string where "REPLAYED = ''replay''"

definition SWITCHED :: string where "SWITCHED = ''switched from ''"

definition ESCALATING_ABOVE :: string where "ESCALATING_ABOVE = ''; escalating above tier ''"

definition ROUTED_FOR :: string where
  "ROUTED_FOR = ''; routed to a worker whose tool ceiling has ''"

definition approval_marker :: "string \<Rightarrow> string" where
  "approval_marker question = ''approved '' @ question"

section \<open>An item's ladder\<close>

definition owner_cycle_error :: "RungEvent \<Rightarrow> bool" where
  \<comment> \<open>the surfaced failure a fresh cycle may follow\<close>
  "owner_cycle_error r =
     (re_rung r = RgSurface
      \<and> (case re_error r of
           None \<Rightarrow> False
         | Some e \<Rightarrow> er_class e = EcModel \<or> er_class e = EcVerification \<or> er_subclass e = EsTimeout))"

definition authorized_answer :: "WorkEvent \<Rightarrow> bool" where
  \<comment> \<open>an answer of the owner or of a policy that put a blocked item back in the queue\<close>
  "authorized_answer event =
     ((we_actor event = ''user'' \<or> starts_with ''user:'' (we_actor event) \<or> starts_with ''policy:'' (we_actor event))
      \<and> we_kind event = EvTransition
      \<and> we_to event = Some Queued
      \<and> (we_from event = Some (Blocked NeedsDecision) \<or> we_from event = Some (Blocked VerificationFailed))
      \<and> (case we_reason event of Some r \<Rightarrow> starts_with ''answered question '' r | None \<Rightarrow> False))"

definition restarts_at :: "(string \<Rightarrow> RungEvent option) \<Rightarrow> WorkEvent list \<Rightarrow> nat \<Rightarrow> bool" where
  \<comment> \<open>the closure of \<open>ladder_from\<close> at one index\<close>
  "restarts_at of_json events index =
     (authorized_answer (events ! index)
      \<and> (case List.map_filter (rung_event of_json) (rev (take index events)) of
           [] \<Rightarrow> False
         | r # _ \<Rightarrow> owner_cycle_error r))"

definition cycle_start :: "(string \<Rightarrow> RungEvent option) \<Rightarrow> WorkEvent list \<Rightarrow> nat" where
  "cycle_start of_json events =
     (case find (restarts_at of_json events) (rev [0..<length events]) of
        Some index \<Rightarrow> index + 1
      | None \<Rightarrow> 0)"

definition ladder_from :: "(string \<Rightarrow> RungEvent option) \<Rightarrow> WorkEvent list \<Rightarrow> WorkItem \<Rightarrow> LadderState" where
  "ladder_from of_json events item =
     \<lparr>ls_history = List.map_filter (rung_event of_json) (drop (cycle_start of_json events) events),
      ls_budgets = bg_rungs (wi_budget item)\<rparr>"

section \<open>What an item's events say about its next run\<close>

record History =
  hs_excluded :: "string set"
  hs_repair :: "string option"
  hs_activate :: "string list"
  hs_floor :: "u32 option"
  hs_looped :: "string set"
  hs_failed :: "string set"
  hs_requires :: "string list"

definition History_default :: History where
  "History_default =
     \<lparr>hs_excluded = {}, hs_repair = None, hs_activate = [], hs_floor = None, hs_looped = {}, hs_failed = {},
      hs_requires = []\<rparr>"

definition parse_u32 :: "string \<Rightarrow> u32 option" where
  \<comment> \<open>\<^verbatim>\<open>str::parse::<u32>\<close>: decimal digits with an optional plus sign, in range\<close>
  "parse_u32 s =
     (let ds = (case strip_prefix ''+'' s of Some t \<Rightarrow> t | None \<Rightarrow> s)
      in if ds \<noteq> [] \<and> list_all is_digit ds \<and> digits_value ds < 2 ^ 32
         then Some (word_of_int (digits_value ds)) else None)"

definition trim_matches :: "char \<Rightarrow> string \<Rightarrow> string" where
  "trim_matches c s = trim_end_char c (dropWhile (\<lambda>d. d = c) s)"

text \<open>The loop of \<open>history\<close> carries the history, the last worker and the executors that failed so far.\<close>

type_synonym history_state = "History \<times> string option \<times> string set"

definition note_loop :: "RungEvent \<Rightarrow> string option \<Rightarrow> string set \<Rightarrow> History \<Rightarrow> History" where
  "note_loop r holder failed out =
     (if (re_rung r = RgSurface \<or> re_rung r = RgSwitchWorker \<and> starts_with SWITCHED (re_outcome r))
         \<and> (case re_error r of Some e \<Rightarrow> er_subclass e = EsLoop | None \<Rightarrow> False)
      then let out1 = (case holder of
                 Some w \<Rightarrow> out\<lparr>hs_looped := insert w (hs_looped out), hs_excluded := insert w (hs_excluded out)\<rparr>
               | None \<Rightarrow> out)
           in out1\<lparr>hs_failed := hs_failed out1 \<union> failed\<rparr>
      else out)"

definition note_route :: "string \<Rightarrow> History \<Rightarrow> History" where
  "note_route outcome out =
     (case split_once ROUTED_FOR outcome of
        None \<Rightarrow> out
      | Some (_, rest) \<Rightarrow>
          let tool = trim_matches (CHR ''`'') (trim rest)
          in if tool = [] then out
             else out\<lparr>hs_requires := push_unique (hs_requires out) tool,
                      hs_activate := push_unique (hs_activate out) tool\<rparr>)"

definition note_switch :: "RungEvent \<Rightarrow> string option \<Rightarrow> History \<Rightarrow> History" where
  "note_switch r holder out =
     (if re_rung r = RgSwitchWorker \<and> starts_with SWITCHED (re_outcome r)
      then let out1 = (case holder of
                 Some w \<Rightarrow> out\<lparr>hs_excluded := insert w (hs_excluded out)\<rparr> | None \<Rightarrow> out);
               tier = (case split_once ESCALATING_ABOVE (re_outcome r) of
                 Some (_, n) \<Rightarrow> parse_u32 (trim n) | None \<Rightarrow> None);
               out2 = (case tier of
                 Some t \<Rightarrow> out1\<lparr>hs_floor := Some (case hs_floor out1 of Some f \<Rightarrow> max f t | None \<Rightarrow> t)\<rparr>
               | None \<Rightarrow> out1)
           in note_route (re_outcome r) out2
      else out)"

definition note_capability :: "RungEvent \<Rightarrow> History \<Rightarrow> History" where
  "note_capability r out =
     (if re_rung r = RgAcquire \<or> re_rung r = RgBuild
      then (case Option.bind (re_error r) gap_of of
              None \<Rightarrow> out
            | Some gap \<Rightarrow>
                if gp_kind gap = GkTool then out\<lparr>hs_activate := push_unique (hs_activate out) (gp_subject gap)\<rparr>
                else out)
      else out)"

definition rung_repair :: "RungEvent \<Rightarrow> string option" where
  "rung_repair r =
     (case re_rung r of
        RgRetry \<Rightarrow> None
      | _ \<Rightarrow> Some (case re_error r of
            Some e \<Rightarrow> ErrorClass_as_str (er_class e) @ ''/'' @ ErrorSubclass_as_str (er_subclass e) @ '': '' @ er_detail e
          | None \<Rightarrow> re_outcome r))"

definition counts_as_failed :: "RungEvent \<Rightarrow> bool" where
  "counts_as_failed r =
     (case re_error r of
        None \<Rightarrow> False
      | Some e \<Rightarrow> er_class e = EcModel \<or> er_class e = EcVerification \<or> er_subclass e = EsTimeout)"

definition history_step :: "(string \<Rightarrow> RungEvent option) \<Rightarrow> history_state \<Rightarrow> WorkEvent \<Rightarrow> history_state" where
  "history_step of_json hs event =
     (let (out, holder, failed) = hs in
      case we_kind event of
        EvLease \<Rightarrow>
          (out, Some (case strip_prefix ''worker:'' (we_actor event) of Some w \<Rightarrow> w | None \<Rightarrow> we_actor event), failed)
      | EvRung \<Rightarrow>
          (case rung_event of_json event of
             None \<Rightarrow> (out, holder, failed)
           | Some r \<Rightarrow>
               let failed1 = (if counts_as_failed r
                     then (case holder of Some w \<Rightarrow> insert w failed | None \<Rightarrow> failed) else failed);
                   out1 = note_capability r (note_switch r holder (note_loop r holder failed1 out))
               in (out1\<lparr>hs_repair := rung_repair r\<rparr>, holder, failed1))
      | EvResume \<Rightarrow>
          (if we_to event = Some Status.Ready then (out\<lparr>hs_repair := we_reason event\<rparr>, holder, failed)
           else (out, holder, failed))
      | _ \<Rightarrow> (out, holder, failed))"

definition history :: "(string \<Rightarrow> RungEvent option) \<Rightarrow> WorkEvent list \<Rightarrow> History" where
  "history of_json events =
     (let (out, _, _) = foldl (history_step of_json) (History_default, None, {}) events
      in if hs_looped out = {} then out else out\<lparr>hs_excluded := hs_excluded out \<union> hs_failed out\<rparr>)"

section \<open>Loading the graph\<close>

type_synonym approvals = "(work_item_id \<times> bool) list"

definition approved :: "Store \<Rightarrow> approvals \<Rightarrow> work_item_id \<Rightarrow> string \<Rightarrow> bool \<times> approvals" where
  "approved st known item question =
     (case map_of known item of
        Some b \<Rightarrow> (b, known)
      | None \<Rightarrow>
          let found = list_ex (\<lambda>e. we_reason e = Some (approval_marker question)) (events_of st item)
          in (found, AList.update item found known))"

definition released_row :: "Store \<Rightarrow> WorkItem list \<times> approvals \<Rightarrow> WorkItem \<Rightarrow> WorkItem list \<times> approvals" where
  \<comment> \<open>the loop of \<open>load\<close>: clear the hold of an item whose approval was given\<close>
  "released_row st acc item =
     (let (rows, known) = acc in
      case wi_held_by item of
        None \<Rightarrow> (rows @ [item], known)
      | Some question \<Rightarrow>
          if wi_status item = Blocked NeedsConsent \<or> is_closed (wi_status item) then (rows @ [item], known)
          else let (ok, known1) = approved st known (wi_id item) question
               in (rows @ [if ok then item\<lparr>wi_held_by := None\<rparr> else item], known1))"

definition host_trigger_fired :: "(string \<Rightarrow> bool) \<Rightarrow> (string \<Rightarrow> bool) \<Rightarrow> string set \<Rightarrow> Trigger \<Rightarrow> bool" where
  \<comment> \<open>\<open>Controller::trigger_fired\<close>: the configured servers and available credentials are the host's\<close>
  "host_trigger_fired mcp credential answered trigger =
     (case trigger of
        TrOnMcp server \<Rightarrow> mcp server
      | TrOnCredential name \<Rightarrow> credential name
      | TrOnAnswer q \<Rightarrow> q \<in> answered
      | _ \<Rightarrow> False)"

definition load :: "(string \<Rightarrow> bool) \<Rightarrow> (string \<Rightarrow> bool) \<Rightarrow> Store \<Rightarrow> approvals \<Rightarrow> Snapshot \<times> approvals" where
  "load mcp credential st known =
     (let listed = list_items (WorkFilter_default\<lparr>fl_include_closed := True\<rparr>) st;
          edges = edges_all_open st;
          (items, known1) = foldl (released_row st) ([], known) listed;
          asked = List.map_filter (\<lambda>i. case wi_trigger i of TrOnAnswer q \<Rightarrow> Some q | _ \<Rightarrow> None)
                    (filter (\<lambda>i. \<not> is_closed (wi_status i)) items);
          answered = (if asked = [] then {} else questions_answered_among asked st);
          fired = map wi_id (filter (\<lambda>i. host_trigger_fired mcp credential answered (wi_trigger i)) items)
      in (with_fired (Snapshot_new items edges) (set fired), known1))"

definition ladder_of :: "(string \<Rightarrow> RungEvent option) \<Rightarrow> Store \<Rightarrow> WorkItem \<Rightarrow> LadderState" where
  "ladder_of of_json st item = ladder_from of_json (events_of st (wi_id item)) item"

section \<open>Recurrence and learned rules\<close>

definition observe_event ::
  "(string \<Rightarrow> RungEvent option) \<Rightarrow> (string \<times> string) set \<times> Recurrence \<Rightarrow> WorkEvent \<Rightarrow> (string \<times> string) set \<times> Recurrence" where
  "observe_event of_json acc event =
     (let (seen, counts) = acc in
      case Option.bind (rung_event of_json event) re_error of
        None \<Rightarrow> acc
      | Some e \<Rightarrow>
          let key = (we_item event, er_fingerprint e)
          in if key \<in> seen then acc else (insert key seen, snd (observe counts (er_fingerprint e))))"

definition load_recurrence ::
  "(string \<Rightarrow> RungEvent option) \<Rightarrow> int \<Rightarrow> u32 \<Rightarrow> timestamp \<Rightarrow> Store \<Rightarrow> Recurrence" where
  "load_recurrence of_json window threshold now st =
     snd (foldl (observe_event of_json) ({}, with_threshold threshold) (events_since st (now - window)))"

definition load_learned :: "Store \<Rightarrow> LearnedRule list" where
  "load_learned st =
     List.map_filter (\<lambda>e. case LearnedRule_parse (ed_item e) (ed_reference e) of Inl _ \<Rightarrow> None | Inr r \<Rightarrow> Some r)
       (filter (\<lambda>e. ed_verified_by e = Some REPLAYED) (evidence_of_kind st CLASSIFIER_RULE))"

definition worker_of :: "(work_item_id \<Rightarrow> string option) \<Rightarrow> Store \<Rightarrow> work_item_id \<Rightarrow> string option" where
  \<comment> \<open>the first argument are the runs the controller holds\<close>
  "worker_of runs st item =
     (case runs item of Some w \<Rightarrow> Some w | None \<Rightarrow> map_option ls_worker (get_lease st item))"

end
