(* ===== verification/StoreLaws.thy ===== *)
theory StoreLaws
  imports StoreApply "HOL-Library.Transitive_Closure_Table"
begin

text \<open>
  What the store guarantees whatever its callers do. The relation \<open>moves\<close> is the abstract machine:
  the few ways the rows of items, edges, events, leases and archive can change. Every public write
  is a run of it (\<open>store_write_moves\<close>), so a guarantee is proved for the moves alone.
\<close>

section \<open>The abstract machine\<close>

definition core :: "Store \<Rightarrow> WorkItem list \<times> Edge list \<times> WorkEvent list \<times> Lease list
    \<times> (Lease \<times> timestamp) list \<times> ArchivedItem list" where
  "core st = (st_items st, st_deps st, st_events st, st_leases st, st_lease_history st, st_archive st)"

definition same_lease :: "Lease \<Rightarrow> Lease \<Rightarrow> bool" where
  \<comment> \<open>the same lease, but for its heartbeat\<close>
  "same_lease l l' = (l'\<lparr>ls_heartbeat_at := 0\<rparr> = l\<lparr>ls_heartbeat_at := 0\<rparr>)"

definition status_of :: "Store \<Rightarrow> work_item_id \<Rightarrow> Status option" where
  "status_of st k = map_option wi_status (get_item st k)"

text \<open>The primary keys of the other tables.\<close>

definition keys_ok :: "Store \<Rightarrow> bool" where
  "keys_ok st \<longleftrightarrow> distinct (map pr_id (st_plans st)) \<and> distinct (map ob_id (st_outbox st))
     \<and> distinct (map qr_id (st_questions st)) \<and> distinct (map jr_id (st_judgments st))
     \<and> distinct (map fst (st_facets st))"

inductive moves :: "Store \<Rightarrow> Store \<Rightarrow> bool" where
  mv_rest: "core st' = core st \<Longrightarrow> (keys_ok st \<Longrightarrow> keys_ok st') \<Longrightarrow> moves st st'"
| mv_insert: "\<not> item_exists st (wi_id i) \<Longrightarrow> moves st (st\<lparr>st_items := st_items st @ [i]\<rparr>)"
| mv_touch: "(\<And>i. wi_id (f i) = wi_id i \<and> wi_status (f i) = wi_status i) \<Longrightarrow> moves st (update_row k f st)"
| mv_deps: "(distinct (st_deps st) \<Longrightarrow> distinct es)
    \<Longrightarrow> (\<And>e. e \<in> set es \<Longrightarrow> item_exists st (e_item e) \<or> e_item e \<in> e_item ` set (st_deps st))
    \<Longrightarrow> moves st (st\<lparr>st_deps := es\<rparr>)"
| mv_status: "status_of st k = Some from \<Longrightarrow> \<not> is_closed from
    \<Longrightarrow> (\<And>i. wi_id (f i) = wi_id i \<and> wi_status (f i) = to)
    \<Longrightarrow> we_item e = k \<and> we_from e = Some from \<and> we_to e = Some to
    \<Longrightarrow> moves st (insert_event e (if is_active to then update_row k f st
                                 else fst (end_lease k now (update_row k f st))))"
| mv_note: "item_exists st (we_item e) \<Longrightarrow> we_to e = None \<Longrightarrow> moves st (insert_event e st)"
| mv_lease: "status_of st (ls_item l) = Some Status.Ready \<Longrightarrow> get_lease st (ls_item l) = None
    \<Longrightarrow> (\<And>i. wi_id (f i) = wi_id i \<and> wi_status (f i) = Leased)
    \<Longrightarrow> we_item e = ls_item l \<and> we_from e = Some Status.Ready \<and> we_to e = Some Leased
    \<Longrightarrow> moves st (insert_event e (update_row (ls_item l) f (st\<lparr>st_leases := st_leases st @ [l]\<rparr>)))"
| mv_beat: "(\<And>l. same_lease l (f l)) \<Longrightarrow> moves st (st\<lparr>st_leases := map f (st_leases st)\<rparr>)"
| mv_end: "moves st (fst (end_lease k now st))"
| mv_archive: "get_item st k = Some i \<Longrightarrow> is_closed (wi_status i) \<Longrightarrow> \<not> archived st k
    \<Longrightarrow> av_id a = k \<and> av_status a = wi_status i
    \<Longrightarrow> st1 = fst (end_lease k now (st\<lparr>st_archive := st_archive st @ [a],
                                      st_deps := filter (\<lambda>e. e_item e \<noteq> k) (st_deps st)\<rparr>))
    \<Longrightarrow> moves st (st1\<lparr>st_items := filter (\<lambda>i. wi_id i \<noteq> k) (st_items st1)\<rparr>)"

abbreviation runs :: "Store \<Rightarrow> Store \<Rightarrow> bool" where
  "runs \<equiv> moves\<^sup>*\<^sup>*"

lemma runs_move: "moves st st' \<Longrightarrow> runs st st'"
  by (rule r_into_rtranclp)

lemma runs_rest_fields:
  "st_items st' = st_items st \<Longrightarrow> st_deps st' = st_deps st \<Longrightarrow> st_events st' = st_events st
   \<Longrightarrow> st_leases st' = st_leases st \<Longrightarrow> st_lease_history st' = st_lease_history st
   \<Longrightarrow> st_archive st' = st_archive st \<Longrightarrow> (keys_ok st \<Longrightarrow> keys_ok st') \<Longrightarrow> runs st st'"
  by (rule runs_move[OF mv_rest]) (simp_all add: core_def)

lemma map_update_where [simp]: "(\<And>r. g (f r) = g r) \<Longrightarrow> map g (update_where p f rows) = map g rows"
  by (simp add: update_where_def)

lemma get_question_None: "get_question st k = None \<longleftrightarrow> k \<notin> qr_id ` set (st_questions st)"
  by (auto simp: get_question_def find_None_iff)

section \<open>Every write is a run of the machine\<close>

named_theorems write_runs
named_theorems plain_runs

lemma insert_item_runs [write_runs]: "insert_item i st = Inr st' \<Longrightarrow> runs st st'"
  by (auto simp: insert_item_def intro: runs_move mv_insert split: if_splits)

lemma touch_runs:
  "(\<And>i. wi_id (f i) = wi_id i \<and> wi_status (f i) = wi_status i) \<Longrightarrow> runs st (update_row k f st)"
  by (rule runs_move[OF mv_touch])

lemma set_priority_runs [write_runs]: "set_priority k a b st = Inr st' \<Longrightarrow> runs st st'"
  by (auto simp: set_priority_def and_then_Inr_iff intro!: touch_runs split: if_splits)

lemma release_hold_runs [write_runs]: "release_hold k now st = Inr st' \<Longrightarrow> runs st st'"
  by (auto simp: release_hold_def intro!: touch_runs split: if_splits)

lemma add_artifact_ref_runs [write_runs]: "add_artifact_ref k a now st = Inr st' \<Longrightarrow> runs st st'"
  by (auto simp: add_artifact_ref_def intro!: touch_runs split: if_splits option.splits)

lemma insert_plan_runs [write_runs]: "insert_plan p st = Inr st' \<Longrightarrow> runs st st'"
  by (auto simp: insert_plan_def simp: keys_ok_def intro!: runs_rest_fields split: if_splits)

lemma deps_runs:
  "(distinct (st_deps st) \<Longrightarrow> distinct es)
   \<Longrightarrow> (\<And>e. e \<in> set es \<Longrightarrow> item_exists st (e_item e) \<or> e_item e \<in> e_item ` set (st_deps st))
   \<Longrightarrow> runs st (st\<lparr>st_deps := es\<rparr>)"
  by (rule runs_move[OF mv_deps])

lemma store_add_edge_runs [write_runs]: "store_add_edge e st = Inr (st', b) \<Longrightarrow> runs st st'"
  by (auto simp: store_add_edge_def intro!: deps_runs split: if_splits)

lemma remove_ordering_edges_of_runs [plain_runs]: "runs st (fst (remove_ordering_edges_of k st))"
  by (auto simp: remove_ordering_edges_of_def Let_def intro!: deps_runs)

lemma store_remove_edge_runs [plain_runs]: "runs st (fst (store_remove_edge e st))"
  by (auto simp: store_remove_edge_def intro!: deps_runs)

lemma append_note_runs [write_runs]: "append_note e st = Inr st' \<Longrightarrow> runs st st'"
  by (auto simp: append_note_def intro!: runs_move mv_note split: if_splits)

lemma end_lease_runs [plain_runs]: "runs st (fst (end_lease k now st))"
  by (rule runs_move[OF mv_end])

lemma require_item_Inr [simp]: "require_item st k = Inr i \<longleftrightarrow> get_item st k = Some i"
  by (simp add: require_item_def)

lemma get_item_id: "get_item st k = Some i \<Longrightarrow> wi_id i = k"
  unfolding get_item_def by (drule find_Some_mem) simp

definition transition_row :: "TransitionSpec \<Rightarrow> timestamp \<Rightarrow> WorkItem \<Rightarrow> WorkItem" where
  "transition_row spec now i =
     i\<lparr>wi_status := ts_to spec, wi_status_origin := ts_origin spec, wi_updated_at := now,
       wi_closed_at := (if is_closed (ts_to spec) then Some now else None)\<rparr>"

definition transition_event :: "TransitionSpec \<Rightarrow> timestamp \<Rightarrow> Status \<Rightarrow> WorkEvent" where
  "transition_event spec now from =
     \<lparr>we_item = ts_item spec, we_at = now, we_kind = ts_kind spec,
      we_from = Some from, we_to = Some (ts_to spec), we_actor = ts_actor spec,
      we_reason = ts_reason spec, we_upstream = ts_upstream spec,
      we_origin = ts_origin spec, we_evidence_ref = ts_evidence_ref spec\<rparr>"

lemma transition_Inr_iff:
  "transition spec now st = Inr r \<longleftrightarrow>
     (\<exists>from. status_of st (ts_item spec) = Some from \<and> \<not> is_closed from
        \<and> (\<forall>e. ts_expected_from spec = Some e \<longrightarrow> e = from)
        \<and> r = (insert_event (transition_event spec now from)
                (if is_active (ts_to spec) then update_row (ts_item spec) (transition_row spec now) st
                 else fst (end_lease (ts_item spec) now (update_row (ts_item spec) (transition_row spec now) st))),
               transition_event spec now from))"
  unfolding transition_def and_then_Inr_iff Let_def status_of_def transition_event_def[symmetric]
    transition_row_def[symmetric, abs_def]
  by (auto split: if_splits option.splits)

lemma transition_runs [write_runs]: "transition spec now st = Inr r \<Longrightarrow> runs st (fst r)"
  unfolding transition_Inr_iff
  by (elim exE conjE, hypsubst, simp only: fst_conv, rule runs_move, rule mv_status)
    (simp_all add: transition_row_def transition_event_def)

lemma map_swap_distinct:
  assumes "distinct es" "to \<notin> set es"
  shows "distinct (map (\<lambda>e. if e = from then to else e) es)"
  using assms by (auto simp: distinct_map inj_on_def)

lemma repoint_edge_row_Inr:
  assumes "repoint_edge_row k kind old new st = Inr st'"
  shows "\<exists>es. st' = st\<lparr>st_deps := es\<rparr> \<and> (distinct (st_deps st) \<longrightarrow> distinct es)
    \<and> e_item ` set es \<subseteq> e_item ` set (st_deps st)"
proof -
  let ?from = "\<lparr>e_item = k, e_depends_on = old, e_kind = kind\<rparr>"
  let ?to = "\<lparr>e_item = k, e_depends_on = new, e_kind = kind\<rparr>"
  let ?moved = "map (\<lambda>e. if e = ?from then ?to else e) (st_deps st)"
  have mem: "?from \<in> set (st_deps st)"
    and outcome: "st' = st\<lparr>st_deps := ?moved\<rparr> \<and> (?from = ?to \<or> ?to \<notin> set (st_deps st))
      \<or> st' = st\<lparr>st_deps := filter (\<lambda>e. e \<noteq> ?from) (st_deps st)\<rparr>"
    using assms by (auto simp: repoint_edge_row_def Let_def split: if_splits)
  have moved: "distinct (st_deps st) \<longrightarrow> distinct ?moved" if "?from = ?to \<or> ?to \<notin> set (st_deps st)"
    using that map_swap_distinct[of "st_deps st" ?to ?from] by (auto simp: if_distrib cong: if_cong)
  have sub: "e_item ` set ?moved \<subseteq> e_item ` set (st_deps st)"
    using mem by (auto simp: image_iff intro!: bexI[of _ ?from])
  from outcome show ?thesis
  proof (elim disjE conjE)
    assume "st' = st\<lparr>st_deps := ?moved\<rparr>" "?from = ?to"
    with moved sub show ?thesis by (intro exI[of _ ?moved]) simp
  next
    assume "st' = st\<lparr>st_deps := ?moved\<rparr>" "?to \<notin> set (st_deps st)"
    with moved sub show ?thesis by (intro exI[of _ ?moved]) simp
  next
    assume "st' = st\<lparr>st_deps := filter (\<lambda>e. e \<noteq> ?from) (st_deps st)\<rparr>"
    then show ?thesis by (intro exI[of _ "filter (\<lambda>e. e \<noteq> ?from) (st_deps st)"]) auto
  qed
qed

definition repoint_row_update :: "RepointSpec \<Rightarrow> timestamp \<Rightarrow> WorkItem \<Rightarrow> WorkItem \<Rightarrow> WorkItem" where
  "repoint_row_update spec now row i =
     (if rs_old_upstream spec \<in> set (wi_inputs_from row)
      then i\<lparr>wi_inputs_from := rewritten_inputs (rs_old_upstream spec) (rs_new_upstream spec) (wi_inputs_from row),
             wi_updated_at := now\<rparr>
      else i\<lparr>wi_updated_at := now\<rparr>)"

lemma repoint_Inr:
  assumes "repoint spec now st = Inr (st', e)"
  shows "\<exists>row st1. get_item st (rs_item spec) = Some row
    \<and> (case rs_kind spec of
         Some kind \<Rightarrow> repoint_edge_row (rs_item spec) kind (rs_old_upstream spec) (rs_new_upstream spec) st = Inr st1
       | None \<Rightarrow> st1 = st \<and> rs_old_upstream spec \<in> set (wi_inputs_from row))
    \<and> st' = insert_event e (update_row (rs_item spec) (repoint_row_update spec now row) st1)
    \<and> we_item e = rs_item spec \<and> we_to e = None"
  using assms unfolding repoint_def and_then_Inr_iff Let_def repoint_row_update_def
  by (auto split: if_splits option.splits)

lemma item_exists_deps [simp]: "item_exists (st\<lparr>st_deps := es\<rparr>) k = item_exists st k"
  by (simp add: item_exists_def get_item_def)

lemma repoint_runs [write_runs]:
  assumes "repoint spec now st = Inr r"
  shows "runs st (fst r)"
proof -
  obtain st' e where r: "r = (st', e)" by (cases r)
  obtain row st1 where row: "get_item st (rs_item spec) = Some row"
    and edge: "case rs_kind spec of
         Some kind \<Rightarrow> repoint_edge_row (rs_item spec) kind (rs_old_upstream spec) (rs_new_upstream spec) st = Inr st1
       | None \<Rightarrow> st1 = st \<and> rs_old_upstream spec \<in> set (wi_inputs_from row)"
    and st': "st' = insert_event e (update_row (rs_item spec) (repoint_row_update spec now row) st1)"
    and e: "we_item e = rs_item spec" "we_to e = None"
    using repoint_Inr[OF assms[unfolded r]] by (elim exE conjE)
  have "runs st st1 \<and> item_exists st1 (rs_item spec)"
  proof (cases "rs_kind spec")
    case None
    with edge row show ?thesis by (simp add: item_exists_def)
  next
    case (Some kind)
    with edge obtain es where es: "st1 = st\<lparr>st_deps := es\<rparr>" "distinct (st_deps st) \<longrightarrow> distinct es"
      "e_item ` set es \<subseteq> e_item ` set (st_deps st)"
      using repoint_edge_row_Inr[of "rs_item spec" kind "rs_old_upstream spec" "rs_new_upstream spec" st st1] by auto
    then show ?thesis using row by (auto simp: item_exists_def get_item_def intro!: deps_runs)
  qed
  then have st1: "runs st st1" "item_exists st1 (rs_item spec)" by simp_all
  let ?st2 = "update_row (rs_item spec) (repoint_row_update spec now row) st1"
  have st2: "runs st1 ?st2" by (rule touch_runs) (simp add: repoint_row_update_def)
  have "item_exists ?st2 (we_item e)"
    using st1(2) e(1)
    by (auto simp: item_exists_def get_item_def update_row_def update_where_def find_None_iff repoint_row_update_def)
  then have "runs ?st2 st'" unfolding st' using e(2) by (intro runs_move mv_note)
  with st1(1) st2 show ?thesis unfolding r fst_conv by (meson rtranclp_trans)
qed

lemma status_of_get: "get_item st k = Some i \<Longrightarrow> status_of st k = Some (wi_status i)"
  by (simp add: status_of_def)

lemma lease_acquire_runs [write_runs]:
  assumes "lease_acquire k worker ttl inputs now st = Inr r"
  shows "runs st (fst r)"
proof -
  obtain item where item: "get_item st k = Some item" "get_lease st k = None" "wi_status item = Status.Ready"
    using assms by (auto simp: lease_acquire_def and_then_Inr_iff split: if_splits option.splits)
  then have k: "wi_id item = k" by (simp add: get_item_id)
  let ?l = "\<lparr>ls_item = k, ls_worker = worker, ls_since = now, ls_ttl_seconds = clamp_i64 ttl,
             ls_heartbeat_at = now, ls_inputs = inputs\<rparr>"
  let ?f = "\<lambda>i. i\<lparr>wi_status := Leased, wi_status_origin := None, wi_updated_at := now\<rparr>"
  obtain e where "fst r = insert_event e (update_row (ls_item ?l) ?f (st\<lparr>st_leases := st_leases st @ [?l]\<rparr>))"
    "we_item e = k" "we_from e = Some Status.Ready" "we_to e = Some Leased"
    using assms item k by (auto simp: lease_acquire_def require_item_def Let_def)
  moreover have "moves st (insert_event e (update_row (ls_item ?l) ?f (st\<lparr>st_leases := st_leases st @ [?l]\<rparr>)))"
    if "we_item e = k" "we_from e = Some Status.Ready" "we_to e = Some Leased" for e
    using item that by (intro mv_lease) (simp_all add: status_of_get)
  ultimately show ?thesis by (metis runs_move)
qed

lemma get_lease_beat:
  "lease_heartbeat k now st = Inr r
     \<Longrightarrow> fst r = st\<lparr>st_leases := map (\<lambda>l. if ls_item l = k then l\<lparr>ls_heartbeat_at := now\<rparr> else l) (st_leases st)\<rparr>"
  by (auto simp: lease_heartbeat_def and_then_Inr_iff update_where_def Let_def split: option.splits)

lemma lease_heartbeat_runs [write_runs]: "lease_heartbeat k now st = Inr r \<Longrightarrow> runs st (fst r)"
  unfolding get_lease_beat by (intro runs_move mv_beat) (simp add: same_lease_def)

lemma lease_release_runs [plain_runs]: "runs st (fst (lease_release k now st))"
  unfolding lease_release_def by (rule end_lease_runs)

lemma add_evidence_runs [write_runs]: "add_evidence e st = Inr st' \<Longrightarrow> runs st st'"
  by (auto simp: add_evidence_def simp: keys_ok_def intro!: runs_rest_fields split: if_splits)

lemma add_lease_evidence_runs [write_runs]: "add_lease_evidence k evs st = Inr st' \<Longrightarrow> runs st st'"
proof (induction evs arbitrary: st)
  case (Cons ev evs)
  then show ?case
    by (auto simp: and_then_Inr_iff dest!: add_evidence_runs split: if_splits intro: rtranclp_trans)
qed simp

lemma work_lease_acquire_recorded_runs [write_runs]:
  "work_lease_acquire_recorded k worker ttl inputs evs now st = Inr r \<Longrightarrow> runs st (fst r)"
  by (auto simp: work_lease_acquire_recorded_def and_then_Inr_iff
      dest!: lease_acquire_runs add_lease_evidence_runs intro: rtranclp_trans)

lemma record_spend_runs [plain_runs]: "runs st (record_spend s st)"
  by (rule runs_rest_fields) (simp_all add: record_spend_def keys_ok_def)

lemma new_notice_runs [write_runs]: "new_notice uuid d t now st = Inr r \<Longrightarrow> runs st (fst r)"
  by (auto simp: new_notice_def insert_outbox_def Let_def simp: keys_ok_def intro!: runs_rest_fields split: if_splits)

lemma enqueue_outbox_runs [write_runs]: "enqueue_outbox uuid d now st = Inr r \<Longrightarrow> runs st (fst r)"
  unfolding enqueue_outbox_def by (rule new_notice_runs)

lemma apply_notice_runs [write_runs]: "apply_notice uuid n now st = Inr r \<Longrightarrow> runs st (fst r)"
  by (auto simp: apply_notice_def Let_def dest!: new_notice_runs simp: keys_ok_def get_question_None intro: runs_rest_fields
      split: option.splits if_split_asm)

lemma outbox_mark_delivered_runs [write_runs]: "outbox_mark_delivered k now st = Inr r \<Longrightarrow> runs st (fst r)"
  by (auto simp: outbox_mark_delivered_def simp: keys_ok_def intro!: runs_rest_fields split: if_splits)

lemma update_question_runs: "(\<And>q. qr_id (f q) = qr_id q) \<Longrightarrow> runs st (update_question k f st)"
  by (rule runs_rest_fields) (simp_all add: update_question_def keys_ok_def)

lemma apply_question_runs [write_runs]: "apply_question w st = Inr st' \<Longrightarrow> runs st st'"
  by (cases w)
    (auto simp: insert_question_def process_answer_def supersede_question_def settle_question_def
      and_then_Inr_iff intro!: update_question_runs simp: keys_ok_def get_question_None intro: runs_rest_fields split: if_splits option.splits)

lemma question_submit_answer_runs [write_runs]: "question_submit_answer k s st = Inr r \<Longrightarrow> runs st (fst r)"
  by (auto simp: question_submit_answer_def and_then_Inr_iff Let_def intro!: update_question_runs
      split: if_splits option.splits)

lemma apply_judgment_runs [write_runs]: "apply_judgment g st = Inr st' \<Longrightarrow> runs st st'"
  by (auto simp: apply_judgment_def simp: keys_ok_def intro!: runs_rest_fields split: if_splits)

lemma judgment_revoke_runs [write_runs]: "judgment_revoke k at st = Inr r \<Longrightarrow> runs st (fst r)"
  by (auto simp: judgment_revoke_def simp: keys_ok_def intro!: runs_rest_fields split: if_splits)

lemma put_facets_runs [plain_runs]: "runs st (put_facets k f st)"
  by (rule runs_rest_fields) (simp_all add: put_facets_def keys_ok_def distinct_update)

lemma apply_op_runs: "apply_op uuid now op sa = Inr r \<Longrightarrow> runs (fst sa) (fst r)"
  by (cases op; cases sa; cases r)
    (auto simp: and_then_Inr_iff log_event_def log_outbox_def intro: plain_runs dest: write_runs)

lemma apply_ops_runs: "apply_ops uuid now ops sa = Inr r \<Longrightarrow> runs (fst sa) (fst r)"
proof (induction ops arbitrary: sa)
  case (Cons op ops)
  then show ?case by (auto simp: and_then_Inr_iff dest!: apply_op_runs intro: rtranclp_trans)
qed simp

lemma work_apply_runs [write_runs]: "work_apply uuid now ops st = Inr r \<Longrightarrow> runs st (fst r)"
  unfolding work_apply_def by (drule apply_ops_runs) simp

definition remove_archived :: "work_item_id \<Rightarrow> ArchivedItem \<Rightarrow> timestamp \<Rightarrow> Store \<Rightarrow> Store" where
  "remove_archived k a now st =
     (let st1 = fst (end_lease k now (st\<lparr>st_archive := st_archive st @ [a],
                                       st_deps := filter (\<lambda>e. e_item e \<noteq> k) (st_deps st)\<rparr>))
      in st1\<lparr>st_items := filter (\<lambda>i. wi_id i \<noteq> k) (st_items st1)\<rparr>)"

lemma archive_one_Inr:
  assumes "archive_one k now st = Inr r"
  shows "archived st k \<and> get_item st k = None \<and> r = (st, False)
    \<or> (\<exists>item a. get_item st k = Some item \<and> is_closed (wi_status item) \<and> \<not> archived st k
         \<and> r = (remove_archived k a now st, True) \<and> av_id a = k \<and> av_status a = wi_status item
         \<and> av_title a = wi_title item \<and> av_edges a = edges_of st k)"
proof (cases "get_item st k")
  case None
  with assms show ?thesis by (simp add: archive_one_def split: if_splits)
next
  case (Some item)
  show ?thesis
    using assms get_item_id[OF Some] Some
    unfolding archive_one_def Let_def remove_archived_def[unfolded Let_def, symmetric]
    by (auto simp: and_then_Inr_iff split: if_split_asm)
qed

lemma archive_one_runs [write_runs]:
  assumes "archive_one k now st = Inr r"
  shows "runs st (fst r)"
  using archive_one_Inr[OF assms]
proof (elim disjE exE conjE)
  fix item a
  assume "get_item st k = Some item" "is_closed (wi_status item)" "\<not> archived st k" "av_id a = k"
    "av_status a = wi_status item" and r: "r = (remove_archived k a now st, True)"
  then show ?thesis unfolding r fst_conv remove_archived_def Let_def by (intro runs_move mv_archive) auto
qed simp

lemma archive_all_runs: "archive_all ks now n st = Inr r \<Longrightarrow> runs st (fst r)"
proof (induction ks arbitrary: n st)
  case (Cons k ks)
  then show ?case by (fastforce simp: and_then_Inr_iff dest!: archive_one_runs intro: rtranclp_trans)
qed auto

lemma work_archive_compact_runs [write_runs]: "work_archive_compact ks now st = Inr r \<Longrightarrow> runs st (fst r)"
  unfolding work_archive_compact_def by (rule archive_all_runs)

lemma add_edges_loop_runs: "add_edges_loop es n st = Inr r \<Longrightarrow> runs st (fst r)"
proof (induction es arbitrary: n st)
  case (Cons e es)
  then show ?case by (fastforce simp: and_then_Inr_iff dest!: store_add_edge_runs intro: rtranclp_trans)
qed auto

lemma work_add_edges_runs [write_runs]: "work_add_edges es st = Inr r \<Longrightarrow> runs st (fst r)"
  unfolding work_add_edges_def by (rule add_edges_loop_runs)

end
