(* ===== verification/StoreFacts.thy ===== *)
theory StoreFacts
  imports StoreLaws Snapshot
begin

text \<open>
  The guarantees of the work-item store over every sequence of public writes: well-formed tables,
  statuses that only the event log changes, closed statuses that are final, leases that stay on
  record, answers that stand.
\<close>

section \<open>Public writes\<close>

inductive store_write :: "(nat \<Rightarrow> string) \<Rightarrow> Store \<Rightarrow> Store \<Rightarrow> bool" for uuid where
  "work_apply uuid now batch st = Inr r \<Longrightarrow> store_write uuid st (fst r)"
| "transition spec now st = Inr r \<Longrightarrow> store_write uuid st (fst r)"
| "work_add_edges edges st = Inr r \<Longrightarrow> store_write uuid st (fst r)"
| "repoint rspec now st = Inr r \<Longrightarrow> store_write uuid st (fst r)"
| "store_write uuid st (fst (remove_ordering_edges_of k st))"
| "append_note event st = Inr st' \<Longrightarrow> store_write uuid st st'"
| "work_lease_acquire_recorded k worker ttl inputs evs now st = Inr r \<Longrightarrow> store_write uuid st (fst r)"
| "lease_heartbeat k now st = Inr r \<Longrightarrow> store_write uuid st (fst r)"
| "store_write uuid st (fst (lease_release k now st))"
| "release_hold k now st = Inr st' \<Longrightarrow> store_write uuid st st'"
| "store_write uuid st (record_spend spend st)"
| "add_evidence ev st = Inr st' \<Longrightarrow> store_write uuid st st'"
| "enqueue_outbox uuid draft now st = Inr r \<Longrightarrow> store_write uuid st (fst r)"
| "outbox_mark_delivered k now st = Inr r \<Longrightarrow> store_write uuid st (fst r)"
| "work_archive_compact ids now st = Inr r \<Longrightarrow> store_write uuid st (fst r)"
| "question_submit_answer k submission st = Inr r \<Longrightarrow> store_write uuid st (fst r)"
| "apply_question qw st = Inr st' \<Longrightarrow> store_write uuid st st'"
| "apply_judgment g st = Inr st' \<Longrightarrow> store_write uuid st st'"
| "judgment_revoke k at st = Inr r \<Longrightarrow> store_write uuid st (fst r)"

theorem store_write_moves: "store_write uuid st st' \<Longrightarrow> runs st st'"
  by (induction rule: store_write.induct) (auto intro: plain_runs write_runs)

lemma store_writes_move: "(store_write uuid)\<^sup>*\<^sup>* st st' \<Longrightarrow> runs st st'"
  by (induction rule: rtranclp_induct) (auto dest!: store_write_moves intro: rtranclp_trans)

section \<open>Lookups after the moves\<close>

lemma find_update_where:
  "(\<And>i. wi_id (f i) = wi_id i)
   \<Longrightarrow> find (\<lambda>i. wi_id i = j) (update_where (\<lambda>i. wi_id i = k) f xs)
      = (if j = k then map_option f (find (\<lambda>i. wi_id i = j) xs) else find (\<lambda>i. wi_id i = j) xs)"
  by (induction xs) (auto simp: update_where_def)

lemma get_item_update_row:
  "(\<And>i. wi_id (f i) = wi_id i)
   \<Longrightarrow> get_item (update_row k f st) j = (if j = k then map_option f (get_item st j) else get_item st j)"
  unfolding get_item_def update_row_def by (simp add: find_update_where)

lemma update_row_fields [simp]:
  "st_deps (update_row k f st) = st_deps st" "st_events (update_row k f st) = st_events st"
  "st_leases (update_row k f st) = st_leases st" "st_lease_history (update_row k f st) = st_lease_history st"
  "st_archive (update_row k f st) = st_archive st" "keys_ok (update_row k f st) = keys_ok st"
  "(\<And>i. wi_id (f i) = wi_id i) \<Longrightarrow> map wi_id (st_items (update_row k f st)) = map wi_id (st_items st)"
  by (simp_all add: update_row_def keys_ok_def)

lemma insert_event_fields [simp]:
  "st_items (insert_event e st) = st_items st" "st_deps (insert_event e st) = st_deps st"
  "st_events (insert_event e st) = st_events st @ [e]" "st_leases (insert_event e st) = st_leases st"
  "st_lease_history (insert_event e st) = st_lease_history st" "st_archive (insert_event e st) = st_archive st"
  "keys_ok (insert_event e st) = keys_ok st"
  "get_item (insert_event e st) k = get_item st k"
  by (simp_all add: insert_event_def keys_ok_def get_item_def)

lemma end_lease_fields [simp]:
  "st_items (fst (end_lease k now st)) = st_items st" "st_deps (fst (end_lease k now st)) = st_deps st"
  "st_events (fst (end_lease k now st)) = st_events st" "st_archive (fst (end_lease k now st)) = st_archive st"
  "keys_ok (fst (end_lease k now st)) = keys_ok st"
  "get_item (fst (end_lease k now st)) j = get_item st j"
  by (simp_all add: end_lease_def keys_ok_def get_item_def split: option.split)

lemma end_lease_leases:
  "st_leases (fst (end_lease k now st)) = filter (\<lambda>l. ls_item l \<noteq> k) (st_leases st)"
proof (cases "get_lease st k")
  case None
  then have "filter (\<lambda>l. ls_item l \<noteq> k) (st_leases st) = st_leases st"
    unfolding get_lease_def find_None_iff by (auto intro: filter_True)
  with None show ?thesis by (simp add: end_lease_def)
next
  case (Some l)
  then show ?thesis by (simp add: end_lease_def)
qed

lemma item_exists_alt: "item_exists st k \<longleftrightarrow> k \<in> wi_id ` set (st_items st)"
  by (auto simp: item_exists_def get_item_def find_None_iff)

lemma item_exists_map: "item_exists st k \<longleftrightarrow> k \<in> set (map wi_id (st_items st))"
  by (simp add: item_exists_alt)

lemma status_of_None: "status_of st k = None \<longleftrightarrow> \<not> item_exists st k"
  by (simp add: status_of_def item_exists_def)

lemma status_of_update_row:
  "(\<And>i. wi_id (f i) = wi_id i)
   \<Longrightarrow> status_of (update_row k f st) j
      = (if j = k then map_option (\<lambda>i. wi_status (f i)) (get_item st j) else status_of st j)"
  by (simp add: status_of_def get_item_update_row option.map_comp o_def)

lemma status_of_write:
  assumes "\<And>i. wi_id (f i) = wi_id i \<and> wi_status (f i) = to" "status_of st k = Some from"
  shows "status_of (update_row k f st) j = (if j = k then Some to else status_of st j)"
  using assms by (auto simp: status_of_def get_item_update_row)

lemma status_of_touch:
  assumes "\<And>i. wi_id (f i) = wi_id i \<and> wi_status (f i) = wi_status i"
  shows "status_of (update_row k f st) j = status_of st j"
  using assms by (simp add: status_of_update_row) (simp add: status_of_def)

lemma status_of_cong [simp]:
  "status_of (insert_event e st) j = status_of st j"
  "status_of (fst (end_lease k now st)) j = status_of st j"
  "status_of (st\<lparr>st_deps := es\<rparr>) j = status_of st j"
  "status_of (st\<lparr>st_leases := ls\<rparr>) j = status_of st j"
  by (simp_all add: status_of_def get_item_def)

lemma find_append: "find p (xs @ ys) = (case find p xs of Some x \<Rightarrow> Some x | None \<Rightarrow> find p ys)"
  by (induction xs) auto

lemma status_of_insert:
  "\<not> item_exists st (wi_id i)
   \<Longrightarrow> status_of (st\<lparr>st_items := st_items st @ [i]\<rparr>) j = (if j = wi_id i then Some (wi_status i) else status_of st j)"
  by (auto simp: status_of_def get_item_def find_append item_exists_def split: option.splits)

lemma find_filter_other: "find (\<lambda>i. wi_id i = j) (filter (\<lambda>i. wi_id i \<noteq> k) xs)
    = (if j = k then None else find (\<lambda>i. wi_id i = j) xs)"
  by (induction xs) auto

lemma status_of_remove:
  "status_of (st\<lparr>st_items := filter (\<lambda>i. wi_id i \<noteq> k) (st_items st)\<rparr>) j = (if j = k then None else status_of st j)"
  by (simp add: status_of_def get_item_def find_filter_other)

section \<open>Well-formed tables\<close>

definition wf_store :: "Store \<Rightarrow> bool" where
  "wf_store st \<longleftrightarrow>
     distinct (map wi_id (st_items st)) \<and> distinct (st_deps st)
     \<and> (\<forall>e \<in> set (st_deps st). item_exists st (e_item e))
     \<and> distinct (map ls_item (st_leases st))
     \<and> (\<forall>l \<in> set (st_leases st). \<exists>s. status_of st (ls_item l) = Some s \<and> is_active s)
     \<and> distinct (map av_id (st_archive st)) \<and> keys_ok st"

lemma wf_store_empty: "wf_store Store_empty"
  by (simp add: wf_store_def Store_empty_def keys_ok_def)

lemma get_lease_None: "get_lease st k = None \<longleftrightarrow> k \<notin> ls_item ` set (st_leases st)"
  by (auto simp: get_lease_def find_None_iff)

lemma wf_storeD:
  assumes "wf_store st"
  shows "distinct (map wi_id (st_items st))" "distinct (st_deps st)"
    "e \<in> set (st_deps st) \<Longrightarrow> item_exists st (e_item e)" "distinct (map ls_item (st_leases st))"
    "l \<in> set (st_leases st) \<Longrightarrow> \<exists>s. status_of st (ls_item l) = Some s \<and> is_active s"
    "distinct (map av_id (st_archive st))" "keys_ok st"
  using assms by (simp_all add: wf_store_def)

lemma distinct_map_filter_keep: "distinct (map f xs) \<Longrightarrow> distinct (map f (filter p xs))"
  by (simp add: distinct_map inj_on_def)

lemma wf_rest:
  assumes "core st' = core st" "keys_ok st'" "wf_store st"
  shows "wf_store st'"
  using assms by (simp add: core_def wf_store_def item_exists_def status_of_def get_item_def)

lemma wf_insert:
  assumes "wf_store st" "\<not> item_exists st (wi_id i)"
  shows "wf_store (st\<lparr>st_items := st_items st @ [i]\<rparr>)"
proof -
  note wf = wf_storeD[OF assms(1)]
  have "\<exists>s. status_of (st\<lparr>st_items := st_items st @ [i]\<rparr>) (ls_item l) = Some s \<and> is_active s"
    if "l \<in> set (st_leases st)" for l
  proof -
    from wf(5)[OF that] have "item_exists st (ls_item l)" by (metis option.distinct(1) status_of_None)
    then show ?thesis using wf(5)[OF that] assms(2) by (auto simp: status_of_insert)
  qed
  moreover have "item_exists (st\<lparr>st_items := st_items st @ [i]\<rparr>) (e_item e)" if "e \<in> set (st_deps st)" for e
    using wf(3)[OF that] by (simp add: item_exists_alt)
  ultimately show ?thesis using wf assms(2) by (simp add: wf_store_def keys_ok_def item_exists_alt)
qed

lemma wf_status_change:
  assumes "wf_store st" "status_of st k = Some from" "\<And>i. wi_id (f i) = wi_id i \<and> wi_status (f i) = to"
    and "is_active to \<or> get_lease st k = None"
  shows "wf_store (update_row k f st)"
proof -
  note wf = wf_storeD[OF assms(1)]
  have st: "status_of (update_row k f st) j = (if j = k then Some to else status_of st j)" for j
    using assms(2,3) by (intro status_of_write)
  have "\<exists>s. status_of (update_row k f st) (ls_item l) = Some s \<and> is_active s" if "l \<in> set (st_leases st)" for l
    using that wf(5)[OF that] assms(4) by (auto simp: st get_lease_None)
  then show ?thesis using wf assms(3) by (simp add: wf_store_def item_exists_map)
qed

lemma wf_touch:
  assumes "wf_store st" "\<And>i. wi_id (f i) = wi_id i \<and> wi_status (f i) = wi_status i"
  shows "wf_store (update_row k f st)"
  using wf_storeD[OF assms(1)] assms(2) by (simp add: wf_store_def item_exists_map status_of_touch)

lemma wf_event: "wf_store (insert_event e st) = wf_store st"
  by (simp add: wf_store_def item_exists_map)

lemma wf_end_lease: "wf_store st \<Longrightarrow> wf_store (fst (end_lease k now st))"
  by (simp add: wf_store_def item_exists_map end_lease_leases distinct_map_filter_keep)

lemma get_lease_end: "get_lease (fst (end_lease k now st)) k = None"
  by (auto simp: get_lease_None end_lease_leases)

lemma end_lease_update_row:
  "fst (end_lease k now (update_row k f st)) = update_row k f (fst (end_lease k now st))"
  by (simp add: end_lease_def get_lease_def update_row_def split: option.split)

lemma wf_deps:
  assumes "wf_store st" "distinct es"
    "\<And>e. e \<in> set es \<Longrightarrow> item_exists st (e_item e) \<or> e_item e \<in> e_item ` set (st_deps st)"
  shows "wf_store (st\<lparr>st_deps := es\<rparr>)"
proof -
  have "item_exists st (e_item e)" if "e \<in> set es" for e
    using assms(3)[OF that] wf_storeD(3)[OF assms(1)] by auto
  then show ?thesis using wf_storeD[OF assms(1)] assms(2) by (simp add: wf_store_def keys_ok_def)
qed

lemma wf_lease:
  assumes "wf_store st" "status_of st (ls_item l) = Some s" "is_active s" "get_lease st (ls_item l) = None"
  shows "wf_store (st\<lparr>st_leases := st_leases st @ [l]\<rparr>)"
  using wf_storeD[OF assms(1)] assms(2-4)
  by (auto simp: wf_store_def get_lease_None keys_ok_def item_exists_map)

lemma wf_archived:
  assumes "wf_store st" "get_lease st k = None" "\<not> archived st k" "av_id a = k"
    "k \<notin> e_item ` set (st_deps st)"
  shows "wf_store (st\<lparr>st_archive := st_archive st @ [a], st_items := filter (\<lambda>i. wi_id i \<noteq> k) (st_items st)\<rparr>)"
proof -
  note wf = wf_storeD[OF assms(1)]
  have st: "status_of (st\<lparr>st_archive := st_archive st @ [a], st_items := filter (\<lambda>i. wi_id i \<noteq> k) (st_items st)\<rparr>) j
      = (if j = k then None else status_of st j)" for j
    by (simp add: status_of_def get_item_def find_filter_other)
  have "\<forall>l \<in> set (st_leases st). ls_item l \<noteq> k" using assms(2) by (auto simp: get_lease_None)
  moreover have "\<forall>e \<in> set (st_deps st). e_item e \<noteq> k" using assms(5) by auto
  moreover have "\<exists>x. x \<in> set (st_items st) \<and> wi_id x \<noteq> k \<and> e_item e = wi_id x" if "e \<in> set (st_deps st)" for e
    using wf(3)[OF that] assms(5) that unfolding item_exists_alt by (metis image_iff)
  ultimately show ?thesis
    using wf assms(3,4)
    by (simp add: wf_store_def st item_exists_alt distinct_map_filter_keep keys_ok_def archived_def image_iff)
qed

lemma wf_store_move: "moves st st' \<Longrightarrow> wf_store st \<Longrightarrow> wf_store st'"
proof (induction rule: moves.induct)
  case (mv_rest st' st)
  have "keys_ok st'" using mv_rest by (simp add: wf_storeD)
  then show ?case using mv_rest by (simp add: wf_rest)
next
  case (mv_insert st i)
  then show ?case by (simp add: wf_insert)
next
  case (mv_touch f st k)
  then show ?case by (simp add: wf_touch)
next
  case (mv_deps st es)
  then show ?case using wf_storeD(2)[OF mv_deps(3)] by (auto intro!: wf_deps)
next
  case (mv_status st k "from" f "to" e now)
  show ?case
  proof (cases "is_active to")
    case True
    have "wf_store (update_row k f st)"
      by (rule wf_status_change[OF _ mv_status(1,3)]) (use mv_status True in simp_all)
    with True show ?thesis by (simp add: wf_event)
  next
    case False
    have "wf_store (update_row k f (fst (end_lease k now st)))"
      by (rule wf_status_change) (use mv_status in \<open>simp_all add: get_lease_end wf_end_lease\<close>)
    with False show ?thesis by (simp add: wf_event end_lease_update_row)
  qed
next
  case (mv_note st e)
  then show ?case by (simp add: wf_event)
next
  case (mv_lease st l f e)
  have "update_row (ls_item l) f (st\<lparr>st_leases := st_leases st @ [l]\<rparr>)
      = (update_row (ls_item l) f st)\<lparr>st_leases := st_leases (update_row (ls_item l) f st) @ [l]\<rparr>"
    by (simp add: update_row_def)
  moreover have "wf_store (update_row (ls_item l) f st)" 
    by (rule wf_status_change[OF _ mv_lease(1,3)]) (use mv_lease in simp_all)
  moreover have "status_of (update_row (ls_item l) f st) (ls_item l) = Some Leased"
    using mv_lease(1,3) by (subst status_of_write) auto
  moreover have "get_lease (update_row (ls_item l) f st) (ls_item l) = None"
    using mv_lease(2) by (simp add: get_lease_def)
  ultimately have "wf_store (update_row (ls_item l) f (st\<lparr>st_leases := st_leases st @ [l]\<rparr>))"
    by (metis wf_lease is_active.simps(1))
  then show ?case by (simp add: wf_event)
next
  case (mv_beat f st)
  have "ls_item (f l) = ls_item l" for l using mv_beat(1)[of l] by (cases l, cases "f l") (simp add: same_lease_def)
  then show ?case using wf_storeD[OF mv_beat(2)]
    by (simp add: wf_store_def keys_ok_def item_exists_map o_def)
next
  case (mv_end st k now)
  then show ?case by (rule wf_end_lease)
next
  case (mv_archive st k i a st1 now)
  let ?st0 = "fst (end_lease k now (st\<lparr>st_deps := filter (\<lambda>e. e_item e \<noteq> k) (st_deps st)\<rparr>))"
  have "st1\<lparr>st_items := filter (\<lambda>i. wi_id i \<noteq> k) (st_items st1)\<rparr>
      = ?st0\<lparr>st_archive := st_archive ?st0 @ [a], st_items := filter (\<lambda>i. wi_id i \<noteq> k) (st_items ?st0)\<rparr>"
    unfolding mv_archive(5) by (simp add: end_lease_def get_lease_def split: option.split)
  moreover have "wf_store ?st0"
    by (rule wf_end_lease, rule wf_deps) (use mv_archive(6) wf_storeD[OF mv_archive(6)] in auto)
  then have "wf_store (?st0\<lparr>st_archive := st_archive ?st0 @ [a], st_items := filter (\<lambda>i. wi_id i \<noteq> k) (st_items ?st0)\<rparr>)"
    by (rule wf_archived) (use mv_archive(3,4) in \<open>auto simp: get_lease_end archived_def\<close>)
  ultimately show ?case by (simp only:)
qed

lemma wf_store_runs: "runs st st' \<Longrightarrow> wf_store st \<Longrightarrow> wf_store st'"
  by (induction rule: rtranclp_induct) (auto intro: wf_store_move)

text \<open>C9: from the empty database, every sequence of public writes leaves well-formed tables: live
  ids, edges, archive ids and the keys of plans, notices, questions, grants and facets are unique, no
  edge is held by an item that is not live, and an item has at most one lease, and has it only while
  it is live and active.\<close>

theorem reachable_store_wf:
  assumes "(store_write uuid)\<^sup>*\<^sup>* Store_empty st"
  shows "distinct (map wi_id (st_items st)) \<and> distinct (st_deps st)
    \<and> (\<forall>e \<in> set (st_deps st). item_exists st (e_item e))
    \<and> distinct (map ls_item (st_leases st))
    \<and> (\<forall>l \<in> set (st_leases st). \<exists>s. status_of st (ls_item l) = Some s \<and> is_active s)
    \<and> distinct (map av_id (st_archive st))
    \<and> distinct (map pr_id (st_plans st)) \<and> distinct (map ob_id (st_outbox st))
    \<and> distinct (map qr_id (st_questions st)) \<and> distinct (map jr_id (st_judgments st))
    \<and> distinct (map fst (st_facets st))"
  using wf_store_runs[OF store_writes_move[OF assms] wf_store_empty] by (simp add: wf_store_def keys_ok_def)

section \<open>The log and the rows\<close>

text \<open>Replaying the status events of one item from a status; a note moves nothing.\<close>

fun event_run :: "Status \<Rightarrow> WorkEvent list \<Rightarrow> Status option" where
  "event_run s [] = Some s"
| "event_run s (e # es) =
     (case we_to e of
        None \<Rightarrow> event_run s es
      | Some to \<Rightarrow> if we_from e = Some s \<and> \<not> is_closed s then event_run to es else None)"

lemma event_run_append: "event_run s (xs @ ys) = Option.bind (event_run s xs) (\<lambda>s'. event_run s' ys)"
  by (induction xs arbitrary: s) (auto split: option.split)

lemma event_run_closed: "event_run s es = Some s' \<Longrightarrow> is_closed s \<Longrightarrow> s' = s"
  by (induction es arbitrary: s) (auto split: option.splits if_splits)

definition own_events :: "work_item_id \<Rightarrow> WorkEvent list \<Rightarrow> WorkEvent list" where
  "own_events k es = filter (\<lambda>e. we_item e = k) es"

lemma own_events_simps [simp]:
  "own_events k [] = []" "own_events k (xs @ ys) = own_events k xs @ own_events k ys"
  "own_events k [e] = (if we_item e = k then [e] else [])"
  by (simp_all add: own_events_def)

definition explains :: "work_item_id \<Rightarrow> Store \<Rightarrow> Store \<Rightarrow> bool" where
  "explains k st st' \<longleftrightarrow> set (st_archive st) \<subseteq> set (st_archive st')
     \<and> (\<exists>new. st_events st' = st_events st @ new
        \<and> (\<forall>s. status_of st k = Some s \<longrightarrow>
             (\<exists>a \<in> set (st_archive st'). av_id a = k)
             \<or> (\<exists>s'. status_of st' k = Some s' \<and> event_run s (own_events k new) = Some s')))"

lemma explains_refl: "explains k st st"
  by (simp add: explains_def)

lemma explains_same:
  "st_archive st' = st_archive st \<Longrightarrow> st_events st' = st_events st \<Longrightarrow> status_of st' k \<in> {status_of st k}
     \<union> (if status_of st k = None then UNIV else {}) \<Longrightarrow> explains k st st'"
  by (auto simp: explains_def split: if_splits)

lemma explains_event:
  assumes "st_archive st' = st_archive st" "st_events st' = st_events st @ [e]"
    and "\<And>s. status_of st k = Some s \<Longrightarrow> \<exists>s'. status_of st' k = Some s' \<and> event_run s (own_events k [e]) = Some s'"
  shows "explains k st st'"
  unfolding explains_def by (intro conjI exI[of _ "[e]"]) (use assms in auto)

lemma explains_move: "moves st st' \<Longrightarrow> explains k st st'"
proof (induction rule: moves.induct)
  case (mv_rest st' st)
  then show ?case by (intro explains_same) (simp_all add: core_def status_of_def get_item_def)
next
  case (mv_insert st i)
  then show ?case by (intro explains_same) (auto simp: status_of_insert status_of_None)
next
  case (mv_touch f st j)
  then show ?case by (intro explains_same) (simp_all add: status_of_touch)
next
  case (mv_deps st es)
  then show ?case by (intro explains_same) simp_all
next
  case (mv_status st j "from" f "to" e now)
  have "status_of (update_row j f st) k = (if k = j then Some to else status_of st k)"
    using mv_status by (intro status_of_write) auto
  then show ?case using mv_status by (intro explains_event[where e = e]) auto
next
  case (mv_note st e)
  then show ?case by (intro explains_event[where e = e]) auto
next
  case (mv_lease st l f e)
  have "status_of (update_row (ls_item l) f (st\<lparr>st_leases := st_leases st @ [l]\<rparr>)) k
      = (if k = ls_item l then Some Leased else status_of st k)"
    using mv_lease by (subst status_of_write) auto
  then show ?case using mv_lease by (intro explains_event[where e = e]) auto
next
  case (mv_beat f st)
  then show ?case by (intro explains_same) simp_all
next
  case (mv_end st j now)
  then show ?case by (intro explains_same) simp_all
next
  case (mv_archive st j i a st1 now)
  have "st_archive st1 = st_archive st @ [a]" "st_events st1 = st_events st" "status_of st1 k = status_of st k"
    unfolding mv_archive(5) by (simp_all add: status_of_def get_item_def)
  then show ?case using mv_archive(4) by (auto simp: explains_def status_of_remove simp del: status_of_cong)
qed

lemma explains_trans:
  assumes "explains k a b" "explains k b c"
  shows "explains k a c"
proof -
  obtain n1 where n1: "st_events b = st_events a @ n1" "set (st_archive a) \<subseteq> set (st_archive b)"
    "\<And>s. status_of a k = Some s \<Longrightarrow> (\<exists>x \<in> set (st_archive b). av_id x = k)
       \<or> (\<exists>s'. status_of b k = Some s' \<and> event_run s (own_events k n1) = Some s')"
    using assms(1) unfolding explains_def by blast
  obtain n2 where n2: "st_events c = st_events b @ n2" "set (st_archive b) \<subseteq> set (st_archive c)"
    "\<And>s. status_of b k = Some s \<Longrightarrow> (\<exists>x \<in> set (st_archive c). av_id x = k)
       \<or> (\<exists>s'. status_of c k = Some s' \<and> event_run s (own_events k n2) = Some s')"
    using assms(2) unfolding explains_def by blast
  have "(\<exists>x \<in> set (st_archive c). av_id x = k)
      \<or> (\<exists>s'. status_of c k = Some s' \<and> event_run s (own_events k (n1 @ n2)) = Some s')"
    if "status_of a k = Some s" for s
    using n1(3)[OF that] n2(2,3) by (fastforce simp: event_run_append)
  then show ?thesis unfolding explains_def using n1(1,2) n2(1,2) by (intro conjI exI[of _ "n1 @ n2"]) auto
qed

lemma explains_runs: "runs st st' \<Longrightarrow> explains k st st'"
  by (induction rule: rtranclp_induct) (auto intro: explains_refl explains_trans explains_move)

text \<open>C6: the log never disagrees with the rows. Over any sequence of public writes the event log
  only grows, and an item that was live and has not been archived since is still live, with exactly
  the status that replaying its new events from its old status gives; in the replay every event
  starts from the status its item has, and none leaves a closed status.\<close>

theorem log_explains_status:
  assumes "(store_write uuid)\<^sup>*\<^sup>* st st'" "status_of st k = Some s" "\<not> archived st' k"
  shows "\<exists>new s'. st_events st' = st_events st @ new \<and> status_of st' k = Some s'
    \<and> event_run s (own_events k new) = Some s'"
  using explains_runs[OF store_writes_move[OF assms(1)], of k] assms(2,3)
  by (auto simp: explains_def archived_def image_iff)

section \<open>Closed is final\<close>

definition ended_as :: "Store \<Rightarrow> work_item_id \<Rightarrow> Status \<Rightarrow> bool" where
  "ended_as st k s \<longleftrightarrow> (\<exists>a \<in> set (st_archive st). av_id a = k \<and> av_status a = s)
     \<or> status_of st k = Some s \<and> \<not> archived st k"

lemma ended_as_move:
  assumes "moves st st'" "is_closed s" "ended_as st k s"
  shows "ended_as st' k s"
proof (cases "\<exists>a \<in> set (st_archive st). av_id a = k \<and> av_status a = s")
  case True
  then show ?thesis using explains_move[OF assms(1), of k] by (auto simp: ended_as_def explains_def)
next
  case False
  with assms(3) have live: "status_of st k = Some s" "\<not> archived st k" by (auto simp: ended_as_def)
  show ?thesis
  proof (cases "archived st' k")
    case False
    then obtain new s' where "status_of st' k = Some s'" "event_run s (own_events k new) = Some s'"
      using explains_move[OF assms(1), of k] live by (auto simp: explains_def archived_def image_iff)
    then show ?thesis using event_run_closed assms(2) False by (auto simp: ended_as_def)
  next
    case True
    from assms(1) show ?thesis
    proof cases
      case (mv_archive j i a st1 now)
      have "st_archive st1 = st_archive st @ [a]" unfolding mv_archive(6) by simp
      with mv_archive live True show ?thesis by (auto simp: ended_as_def archived_def status_of_def)
    qed (use live True in \<open>auto simp: core_def archived_def split: if_splits\<close>)
  qed
qed

lemma ended_as_runs: "runs st st' \<Longrightarrow> is_closed s \<Longrightarrow> ended_as st k s \<Longrightarrow> ended_as st' k s"
  by (induction rule: rtranclp_induct) (auto intro: ended_as_move)

text \<open>C7: closed is final. Once an item is live and closed, no sequence of public writes changes its
  status: it stays live with that status, or its archive row has it.\<close>

theorem closed_rows_are_final:
  assumes "(store_write uuid)\<^sup>*\<^sup>* st st'" "status_of st k = Some s" "is_closed s" "\<not> archived st k"
  shows "status_of st' k = Some s \<or> (\<exists>a \<in> set (st_archive st'). av_id a = k \<and> av_status a = s)"
  using ended_as_runs[OF store_writes_move[OF assms(1)] assms(3), of k] assms(2,4)
  by (auto simp: ended_as_def)

section \<open>Leases stay on record\<close>

definition on_record :: "Lease \<Rightarrow> Store \<Rightarrow> bool" where
  "on_record l st \<longleftrightarrow> (\<exists>l'. same_lease l l' \<and> (l' \<in> set (st_leases st) \<or> l' \<in> fst ` set (st_lease_history st)))"

lemma same_lease_refl: "same_lease l l"
  by (simp add: same_lease_def)

lemma same_lease_trans: "same_lease a b \<Longrightarrow> same_lease b c \<Longrightarrow> same_lease a c"
  by (simp add: same_lease_def)

lemma get_lease_Some: "get_lease st k = Some l \<Longrightarrow> l \<in> set (st_leases st) \<and> ls_item l = k"
  unfolding get_lease_def by (drule find_Some_mem) simp

lemma on_record_end:
  assumes "distinct (map ls_item (st_leases st))" "on_record l st"
  shows "on_record l (fst (end_lease k now st))"
proof (cases "get_lease st k")
  case None
  with assms show ?thesis by (simp add: end_lease_def)
next
  case (Some h)
  have "l' \<in> set (st_leases (fst (end_lease k now st))) \<or> l' \<in> fst ` set (st_lease_history (fst (end_lease k now st)))"
    if "l' \<in> set (st_leases st)" for l'
  proof (cases "ls_item l' = k")
    case True
    then have "l' = h" using get_lease_Some[OF Some] that assms(1) by (metis distinct_map inj_onD)
    with Some show ?thesis by (simp add: end_lease_def)
  next
    case False
    with Some that show ?thesis by (simp add: end_lease_def)
  qed
  moreover have "fst ` set (st_lease_history st) \<subseteq> fst ` set (st_lease_history (fst (end_lease k now st)))"
    using Some by (auto simp: end_lease_def)
  ultimately show ?thesis using assms(2) unfolding on_record_def by blast
qed

lemma on_record_simps [simp]:
  "on_record l (insert_event e st) = on_record l st" "on_record l (update_row k f st) = on_record l st"
  "on_record l (st\<lparr>st_items := xs\<rparr>) = on_record l st" "on_record l (st\<lparr>st_deps := es\<rparr>) = on_record l st"
  "on_record l (st\<lparr>st_archive := as\<rparr>) = on_record l st"
  by (simp_all add: on_record_def)

lemma on_record_move: "moves st st' \<Longrightarrow> wf_store st \<Longrightarrow> on_record l st \<Longrightarrow> on_record l st'"
proof (induction rule: moves.induct)
  case (mv_rest st' st)
  then show ?case by (simp add: core_def on_record_def)
next
  case (mv_status st k "from" f "to" e now)
  have "on_record l (fst (end_lease k now (update_row k f st)))"
    by (rule on_record_end) (use mv_status(6) wf_storeD(4)[OF mv_status(5)] in simp_all)
  then show ?case using mv_status(6) by simp
next
  case (mv_lease st l f e)
  then show ?case by (auto simp: on_record_def)
next
  case (mv_beat f st)
  then show ?case by (auto simp: on_record_def intro: same_lease_trans)
next
  case (mv_end st k now)
  then show ?case by (intro on_record_end) (simp_all add: wf_storeD)
next
  case (mv_archive st k i a st1 now)
  have "on_record l st1" unfolding mv_archive(5)
    by (rule on_record_end) (use mv_archive(7) wf_storeD(4)[OF mv_archive(6)] in simp_all)
  then show ?case by simp
qed simp_all

lemma on_record_runs: "runs st st' \<Longrightarrow> wf_store st \<Longrightarrow> on_record l st \<Longrightarrow> on_record l st'"
proof (induction rule: rtranclp_induct)
  case (step b c)
  then show ?case using on_record_move wf_store_runs by blast
qed

text \<open>C8: no lease leaves the record. A lease some run held stays in the database, live or in the
  history, with the worker, the time it was taken, its length and the inputs it was given; and while it
  is live nobody else can lease the item.\<close>

theorem leases_stay_on_record:
  assumes "(store_write uuid)\<^sup>*\<^sup>* Store_empty st" "get_lease st k = Some l" "(store_write uuid)\<^sup>*\<^sup>* st st'"
  shows "on_record l st' \<and> (\<forall>worker ttl inputs evs now r. work_lease_acquire_recorded k worker ttl inputs evs now st \<noteq> Inr r)"
proof -
  have wf: "wf_store st" using wf_store_runs[OF store_writes_move[OF assms(1)] wf_store_empty] .
  have "on_record l st" using get_lease_Some[OF assms(2)] same_lease_refl by (auto simp: on_record_def)
  then have "on_record l st'" using on_record_runs[OF store_writes_move[OF assms(3)] wf] by blast
  moreover have "\<forall>worker ttl inputs evs now r. work_lease_acquire_recorded k worker ttl inputs evs now st \<noteq> Inr r"
    using assms(2) by (auto simp: work_lease_acquire_recorded_def lease_acquire_def and_then_Inr_iff)
  ultimately show ?thesis by blast
qed

section \<open>Answers\<close>

definition answer_of :: "QuestionRow \<Rightarrow> QuestionStatus \<times> string option \<times> string option
    \<times> DelegatedDecision option \<times> timestamp option" where
  "answer_of q = (qr_status q, qr_answer q, qr_answered_by q, qr_decision q, qr_answered_at q)"

lemma find_question_update:
  "(\<And>q. qr_id (f q) = qr_id q)
   \<Longrightarrow> find (\<lambda>q. qr_id q = j) (update_where (\<lambda>q. qr_id q = k) f xs)
      = (if j = k then map_option f (find (\<lambda>q. qr_id q = j) xs) else find (\<lambda>q. qr_id q = j) xs)"
  by (induction xs) (auto simp: update_where_def)

lemma get_question_update:
  "(\<And>q. qr_id (f q) = qr_id q)
   \<Longrightarrow> get_question (update_question k f st) j = (if j = k then map_option f (get_question st j) else get_question st j)"
  unfolding get_question_def update_question_def by (simp add: find_question_update)

lemma get_question_append:
  "get_question st k = Some q \<Longrightarrow> get_question (st\<lparr>st_questions := st_questions st @ xs\<rparr>) k = Some q"
  by (simp add: get_question_def find_append)

lemma require_question_Inr [simp]: "require_question st k = Inr q \<longleftrightarrow> get_question st k = Some q"
  by (simp add: require_question_def)

text \<open>C36: an answer stands. A write that succeeds changes the status, the answer, who gave it, the
  decision and the time only of a question that still waits, unless it is the write that sends the
  question to research.\<close>

theorem answers_stand:
  assumes "apply_question w st = Inr st'" "get_question st k = Some q"
    and "\<not> QuestionStatus_is_waiting (qr_status q)" "\<forall>item. w \<noteq> QwResearch k item"
  shows "\<exists>q'. get_question st' k = Some q' \<and> answer_of q' = answer_of q"
  using assms
proof (cases w)
  case (QwInsert q0)
  with assms(1,2) show ?thesis
    by (auto simp: insert_question_def get_question_append split: if_splits option.splits)
next
  case (QwAnswerProcessed j submission error at)
  with assms(1,2) show ?thesis
    by (auto simp: process_answer_def and_then_Inr_iff get_question_update answer_of_def split: if_splits)
next
  case (QwSupersede j canonical at)
  with assms(1-3) show ?thesis
    by (auto simp: supersede_question_def and_then_Inr_iff get_question_update answer_of_def split: if_splits)
next
  case (QwSettle j status answer actor decision at)
  with assms(1-3) show ?thesis
    by (auto simp: settle_question_def and_then_Inr_iff get_question_update answer_of_def split: if_splits)
next
  case (QwResearch j item)
  with assms(1,2,4) show ?thesis by (auto simp: get_question_update split: if_splits)
next
  case (QwDelivered j via)
  with assms(1,2) show ?thesis by (auto simp: get_question_update answer_of_def)
qed

text \<open>The research write does not look at the status. An answered question that it sends to
  research waits again, keeps the old answer on its row, and can be settled a second time with another
  answer, although an answer is meant to be given once.\<close>

theorem research_reopens_an_answer:
  fixes st k q item
  assumes "get_question st k = Some q" "qr_status q = QsAnswered" "qr_answer_submission q = None"
  shows "\<exists>st1 st2 q1 q2. apply_question (QwResearch k item) st = Inr st1 \<and> get_question st1 k = Some q1
    \<and> QuestionStatus_is_waiting (qr_status q1) \<and> qr_answer q1 = qr_answer q
    \<and> apply_question (QwSettle k QsAnswered (Some new) (Some who) None at) st1 = Inr st2
    \<and> get_question st2 k = Some q2 \<and> qr_answer q2 = Some new \<and> qr_answered_by q2 = Some who"
  using assms
  by (simp add: get_question_update settle_question_def QuestionStatus_is_waiting_def require_question_def)

section \<open>Examples\<close>

definition demo_uuid :: "nat \<Rightarrow> string" where
  "demo_uuid n = replicate n CHR ''u''"

definition demo_lease :: Lease where
  "demo_lease = \<lparr>ls_item = ''a'', ls_worker = ''w'', ls_since = 2, ls_ttl_seconds = 60, ls_heartbeat_at = 2, ls_inputs = []\<rparr>"

definition demo_event :: WorkEvent where
  "demo_event = \<lparr>we_item = ''a'', we_at = 2, we_kind = EvLease, we_from = Some Status.Ready, we_to = Some Leased,
     we_actor = ''worker:w'', we_reason = Some (''ttl '' @ nat_digits 60 @ ''s''), we_upstream = None,
     we_origin = None, we_evidence_ref = None\<rparr>"

definition demo_filed :: Store where
  "demo_filed = Store_empty\<lparr>st_items := [blank_item ''a'' None Status.Ready]\<rparr>"

definition demo_leased :: Store where
  "demo_leased = Store_empty\<lparr>st_items := [(blank_item ''a'' None Leased)\<lparr>wi_updated_at := 2\<rparr>],
     st_events := [demo_event], st_leases := [demo_lease]\<rparr>"

definition demo_closing :: TransitionSpec where
  "demo_closing = TransitionSpec_new ''a'' Done ''w''"

definition demo_done :: Store where
  "demo_done = Store_empty\<lparr>st_items := [transition_row demo_closing 3 (blank_item ''a'' None Leased)],
     st_events := [demo_event, transition_event demo_closing 3 Leased],
     st_lease_history := [(demo_lease, 3)]\<rparr>"

lemmas demo_defs = demo_filed_def demo_leased_def demo_done_def demo_closing_def demo_lease_def demo_event_def
  blank_item_def Store_empty_def TransitionSpec_new_def

lemma demo_filing: "work_apply demo_uuid 1 [OpInsert (blank_item ''a'' None Status.Ready)] Store_empty
    = Inr (demo_filed, WorkApplied_default)"
  by (simp add: work_apply_def insert_item_def item_exists_def get_item_def demo_defs)

lemma demo_leasing: "work_lease_acquire_recorded ''a'' ''w'' 60 [] [] 2 demo_filed = Inr (demo_leased, demo_lease)"
  by (simp add: work_lease_acquire_recorded_def lease_acquire_def require_item_def get_item_def get_lease_def
      demo_defs insert_event_def update_row_def update_where_def clamp_i64_def i64_max_def Let_def)

lemma demo_closed: "transition demo_closing 3 demo_leased = Inr (demo_done, transition_event demo_closing 3 Leased)"
  by (simp add: transition_Inr_iff status_of_def get_item_def demo_defs)
    (simp add: insert_event_def update_row_def update_where_def end_lease_def get_lease_def transition_row_def)

lemma demo_writes:
  "store_write demo_uuid Store_empty demo_filed" "store_write demo_uuid demo_filed demo_leased"
  "store_write demo_uuid demo_leased demo_done"
  using store_write.intros(1)[OF demo_filing] store_write.intros(7)[OF demo_leasing]
    store_write.intros(2)[OF demo_closed] by simp_all

lemma demo_reach:
  "(store_write demo_uuid)\<^sup>*\<^sup>* Store_empty demo_leased" "(store_write demo_uuid)\<^sup>*\<^sup>* demo_filed demo_done"
  "(store_write demo_uuid)\<^sup>*\<^sup>* demo_leased demo_done"
  "(store_write demo_uuid)\<^sup>*\<^sup>* demo_done (fst (lease_release ''a'' 9 demo_done))"
  using demo_writes store_write.intros(9)[of demo_uuid demo_done "''a''" 9]
  by (meson converse_rtranclp_into_rtranclp rtranclp.rtrancl_refl)+

lemma reachable_store_wf_witness:
  "distinct (map wi_id (st_items demo_leased)) \<and> length (st_leases demo_leased) = 1"
proof -
  have "length (st_leases demo_leased) = 1" by (simp add: demo_leased_def)
  then show ?thesis using reachable_store_wf[OF demo_reach(1)] by blast
qed

lemma log_explains_status_witness:
  "\<exists>new s'. st_events demo_done = st_events demo_filed @ new \<and> status_of demo_done ''a'' = Some s'
     \<and> event_run Status.Ready (own_events ''a'' new) = Some s'"
  by (rule log_explains_status[OF demo_reach(2)])
    (simp_all add: status_of_def get_item_def archived_def demo_defs)

lemma closed_rows_are_final_witness:
  "status_of (fst (lease_release ''a'' 9 demo_done)) ''a'' = Some Done
   \<or> (\<exists>a \<in> set (st_archive (fst (lease_release ''a'' 9 demo_done))). av_id a = ''a'' \<and> av_status a = Done)"
  by (rule closed_rows_are_final[OF demo_reach(4)])
    (simp_all add: status_of_def get_item_def archived_def demo_defs transition_row_def)

lemma leases_stay_on_record_witness:
  "on_record demo_lease demo_done
   \<and> (\<forall>worker ttl inputs evs now r. work_lease_acquire_recorded ''a'' worker ttl inputs evs now demo_leased \<noteq> Inr r)"
  by (rule leases_stay_on_record[OF demo_reach(1) _ demo_reach(3)]) (simp add: get_lease_def demo_defs)

definition demo_question :: QuestionRow where
  "demo_question =
     \<lparr>qr_id = ''q'', qr_item = ''a'', qr_root = ''a'', qr_kind = QkDecision, qr_class = QcBlockingNow, qr_text = ''?'',
      qr_options = [], qr_default_answer = None, qr_asked_class = None, qr_rule = [], qr_asked_by = ''w'',
      qr_status = QsAnswered, qr_delivered_via = None, qr_answer = Some ''yes'', qr_answered_by = Some ''user'',
      qr_answered_at = Some 1, qr_research_item = None, qr_decision = None, qr_created_at = 0,
      qr_superseded_by = None, qr_answer_submission = None\<rparr>"

definition demo_asked :: Store where
  "demo_asked = Store_empty\<lparr>st_questions := [demo_question]\<rparr>"

lemma demo_asked_question: "get_question demo_asked ''q'' = Some demo_question"
  by (simp add: get_question_def demo_asked_def demo_question_def)

lemma answers_stand_witness:
  "\<exists>q'. get_question (projr (apply_question (QwDelivered ''q'' ''mail'') demo_asked)) ''q'' = Some q'
     \<and> answer_of q' = answer_of demo_question"
  by (rule answers_stand[where w = "QwDelivered ''q'' ''mail''", OF _ demo_asked_question])
    (simp_all add: demo_question_def QuestionStatus_is_waiting_def)

lemma research_reopens_an_answer_witness:
  "\<exists>st1 st2 q1 q2. apply_question (QwResearch ''q'' ''r'') demo_asked = Inr st1 \<and> get_question st1 ''q'' = Some q1
    \<and> QuestionStatus_is_waiting (qr_status q1) \<and> qr_answer q1 = Some ''yes''
    \<and> apply_question (QwSettle ''q'' QsAnswered (Some ''no'') (Some ''user'') None 2) st1 = Inr st2
    \<and> get_question st2 ''q'' = Some q2 \<and> qr_answer q2 = Some ''no'' \<and> qr_answered_by q2 = Some ''user''"
  using research_reopens_an_answer[OF demo_asked_question, of "''r''" "''no''" "''user''" 2]
  by (simp add: demo_question_def)

end
