(* ===== verification/BatchLaws.thy ===== *)
theory BatchLaws
  imports Batch Load StoreFacts CascadeLaws
begin

text \<open>
  The transaction a batch queues and the snapshot its decisions read agree: every operation is accepted
  by the store the snapshot was loaded from, and the store it leaves is mirrored by the batch's
  snapshot. First what the engine's effects look like (which re-points there can be), then the relation
  \<open>mirrors\<close> between a store and a snapshot, one lemma per queued operation, and the decisions of a batch
  as a step relation.
\<close>

section \<open>What a cascade re-points\<close>

text \<open>Without a failed item nothing is re-pointed, and no edge is ever dropped.\<close>

definition unmoved :: "cstate \<Rightarrow> bool" where
  "unmoved st \<longleftrightarrow> ef_repoints (snd st) = [] \<and> ef_dropped_edges (snd st) = []"

interpretation still: cascade_writes unmoved now origin
  for now :: timestamp and origin :: work_item_id
  by unfold_locales (simp_all add: unmoved_def)

interpretation settled: settle_keeps unmoved now
  for now :: timestamp
  by unfold_locales (simp_all add: unmoved_def)

interpretation undropped: effect_keeps "\<lambda>st. ef_dropped_edges (snd st) = []" now origin
  for now :: timestamp and origin :: work_item_id
  by unfold_locales simp_all

text \<open>The cascade fails no item.\<close>

definition unfailed :: "(work_item_id \<Rightarrow> Status option) \<Rightarrow> cstate \<Rightarrow> bool" where
  "unfailed f st \<longleftrightarrow> wf_snap (fst st) \<and> (\<forall>k. snap_status (fst st) k = Some Failed \<longleftrightarrow> f k = Some Failed)"

lemma open_unfailed:
  assumes "unfailed f (work, out)" "snap_status work k = Some st" "\<not> is_closed st"
  shows "f k \<noteq> Some Failed"
proof -
  have "snap_status work k \<noteq> Some Failed" using assms(2,3) by auto
  with assms(1) show ?thesis by (simp add: unfailed_def)
qed

lemma unfailed_status:
  assumes "unfailed f (work, out)" "snap_status work k = Some from" "\<not> is_closed from" "to \<noteq> Failed"
  shows "unfailed f (set_status work k to o1 now, out')"
  using assms open_unfailed[OF assms(1-3)] by (simp add: unfailed_def wf_set_status snap_status_set_status)

interpretation fails: cascade_writes "unfailed f" now origin
  for f :: "work_item_id \<Rightarrow> Status option" and now :: timestamp and origin :: work_item_id
  by unfold_locales (auto intro: unfailed_status simp: holdable_open, simp_all add: unfailed_def)

definition calm :: "(work_item_id \<Rightarrow> Status option) \<Rightarrow> cstate \<times> work_item_id list \<Rightarrow> bool" where
  "calm f stq \<longleftrightarrow> unfailed f (fst stq) \<and> (\<forall>k \<in> set (snd stq). f k \<noteq> Some Failed)"

lemma cancel_descendant_calm:
  assumes "calm f stq"
  shows "calm f (cancel_descendant parent reason origin now stq d)"
proof -
  obtain work out queue where stq: "stq = ((work, out), queue)" by (metis surj_pair)
  have "unfailed f (fst (cancel_descendant parent reason origin now stq d))"
    using assms by (intro fails.cancel_descendant_keeps) (simp add: calm_def)
  moreover have "\<forall>k \<in> set (snd (cancel_descendant parent reason origin now stq d)). f k \<noteq> Some Failed"
    using assms open_unfailed[of f work out d]
    by (auto simp: calm_def stq cancel_descendant_def Let_def snap_status_def split: option.splits)
  ultimately show ?thesis by (simp add: calm_def)
qed

lemma waiting_open: "is_waiting st \<Longrightarrow> \<not> is_closed st"
  by (cases st) simp_all

lemma run_edge_calm:
  assumes "calm f stq" "status \<noteq> Failed"
  shows "calm f (run_edge closed status plan_b origin now stq e)"
proof -
  obtain work out queue where stq: "stq = ((work, out), queue)" by (metis surj_pair)
  have "unfailed f (fst (run_edge closed status plan_b origin now stq e))"
    using assms by (intro fails.run_edge_keeps_unfailed) (simp_all add: calm_def)
  moreover have "\<forall>k \<in> set (snd (run_edge closed status plan_b origin now stq e)). f k \<noteq> Some Failed"
    using assms open_unfailed[of f work out "e_item e"]
    by (auto simp: calm_def stq run_edge_def dest: waiting_open split: option.splits EdgeKind.splits Status.splits)
  ultimately show ?thesis by (simp add: calm_def)
qed

lemma foldl_calm: "calm f stq \<Longrightarrow> (\<And>stq x. calm f stq \<Longrightarrow> calm f (g stq x)) \<Longrightarrow> calm f (foldl g stq xs)"
  by (induction xs arbitrary: stq) simp_all

lemma run_closed_calm:
  assumes "calm f stq" "status \<noteq> Failed"
  shows "calm f (run_closed closed status origin now stq)"
proof -
  have 1: "calm f (cancel_open_descendants closed status origin now stq)"
    unfolding cancel_open_descendants_def Let_def using assms(1) by (intro foldl_calm cancel_descendant_calm)
  have 2: "calm f stq' \<Longrightarrow> calm f (foldl (run_edge closed status None origin now) stq' es)" for stq' es
    by (intro foldl_calm run_edge_calm assms(2))
  show ?thesis using assms 1 2 by (auto simp: run_closed_def run_dependents_def Let_def)
qed

lemma run_loop_unmoved:
  "calm f (st, queue) \<Longrightarrow> unmoved st \<Longrightarrow> unmoved (run_loop origin now queue finished st)"
proof (induction queue finished st rule: run_loop_induct[where origin = origin and now = now])
  case (Nil finished st)
  then show ?case by simp
next
  case (skip k queue finished st)
  then show ?case by (simp add: run_loop_skip calm_def)
next
  case (close k queue finished st status)
  have status: "status \<noteq> Failed" using close.hyps(3) close.prems(1) by (auto simp: calm_def unfailed_def)
  have q: "calm f (st, queue)" using close.prems(1) by (simp add: calm_def)
  have "calm f (run_closed k status origin now (st, queue))" by (rule run_closed_calm[OF q status])
  moreover have "unmoved (fst (run_closed k status origin now (st, queue)))"
    using close.prems(2) status by (intro still.run_closed_keeps_unfailed) simp_all
  ultimately show ?case using close by (simp add: run_loop_close)
qed

lemma run_unmoved:
  assumes "wf_snap work" "snap_status work item \<noteq> Some Failed" "unmoved (work, out)"
  shows "unmoved (run item origin now (work, out))"
  unfolding run_def using assms
  by (intro run_loop_unmoved[where f = "snap_status work"]) (simp_all add: calm_def unfailed_def)

text \<open>A failed item: edges onto it move to its plan B, then the inputs that name it.\<close>

definition edge_move :: "work_item_id \<Rightarrow> work_item_id \<Rightarrow> Edge \<Rightarrow> Repoint" where
  "edge_move start p e =
     \<lparr>rp_item = e_item e, rp_link = LkEdge (e_kind e), rp_old_upstream = e_depends_on e,
      rp_new_upstream = p, rp_origin = start\<rparr>"

definition input_move :: "work_item_id \<Rightarrow> work_item_id \<Rightarrow> work_item_id \<Rightarrow> Repoint" where
  "input_move start p k =
     \<lparr>rp_item = k, rp_link = LkInput, rp_old_upstream = start, rp_new_upstream = p, rp_origin = start\<rparr>"

definition same_inputs :: "Snapshot \<Rightarrow> cstate \<Rightarrow> bool" where
  "same_inputs base st \<longleftrightarrow> wf_snap (fst st) \<and>
     (\<forall>k. map_option wi_inputs_from (snap_item (fst st) k) = map_option wi_inputs_from (snap_item base k))"

lemma same_inputs_status:
  "same_inputs base (work, out) \<Longrightarrow> same_inputs base (set_status work k to o1 now, out')"
  by (auto simp: same_inputs_def wf_set_status snap_item_set_status option.map_comp o_def)

interpretation inputs: cascade_writes "same_inputs base" now origin
  for base :: Snapshot and now :: timestamp and origin :: work_item_id
  by unfold_locales (rule same_inputs_status, assumption, rule same_inputs_status, assumption, simp_all add: same_inputs_def)

text \<open>How far a failed item's loop over its dependents has come: the edges it moved so far.\<close>

definition moving :: "Snapshot \<Rightarrow> work_item_id \<Rightarrow> work_item_id \<Rightarrow> Edge set \<Rightarrow> cstate \<times> work_item_id list \<Rightarrow> bool" where
  "moving base start p past stq \<longleftrightarrow>
     same_inputs base (fst stq) \<and> snd stq = []
     \<and> (\<exists>es. ef_repoints (snd (fst stq)) = map (edge_move start p) es \<and> distinct es \<and> set es \<subseteq> past
          \<and> (\<forall>e \<in> set es. snap_item base (e_item e) \<noteq> None))"

interpretation reps: cascade_writes "\<lambda>st. ef_repoints (snd st) = rs" now origin
  for rs :: "Repoint list" and now :: timestamp and origin :: work_item_id
  by unfold_locales simp_all

lemma moving_hold:
  "moving base start p past (st, []) \<Longrightarrow> moving base start p past (cascade_hold_item c k origin up now st, [])"
  using reps.hold_keeps[of st "ef_repoints (snd st)" c k origin up now]
  by (simp add: moving_def inputs.hold_keeps)

lemma moving_more: "moving base start p past stq \<Longrightarrow> past \<subseteq> past' \<Longrightarrow> moving base start p past' stq"
  by (auto simp: moving_def)

lemma moving_edge:
  assumes "moving base start p past (st, [])" "e \<notin> past" "snap_item base (e_item e) \<noteq> None"
  shows "moving base start p (insert e past) (repoint_edge e p start st, [])"
proof -
  obtain work out where st: "st = (work, out)" by (cases st)
  from assms obtain es where es: "ef_repoints out = map (edge_move start p) es" "distinct es" "set es \<subseteq> past"
      "\<forall>e \<in> set es. snap_item base (e_item e) \<noteq> None"
    and same: "same_inputs base (work, out)"
    by (auto simp: moving_def st)
  have "same_inputs base (repoint_edge e p start (work, out))"
    using same by (simp add: repoint_edge_def same_inputs_def wf_repoint_row snap_item_repoint_row)
  moreover have "ef_repoints (snd (repoint_edge e p start (work, out))) = map (edge_move start p) (es @ [e])"
    using es(1) by (simp add: repoint_edge_def edge_move_def)
  moreover have "distinct (es @ [e])" "set (es @ [e]) \<subseteq> insert e past"
    "\<forall>e \<in> set (es @ [e]). snap_item base (e_item e) \<noteq> None" using es assms(2,3) by auto
  ultimately show ?thesis unfolding moving_def st by (metis fst_conv snd_conv)
qed

lemma moving_run_edge:
  assumes "moving base start p past stq" "e \<notin> past"
  shows "moving base start p (insert e past) (run_edge start Failed (Some p) origin now stq e)"
proof -
  obtain work out where stq: "stq = ((work, out), [])" using assms(1) by (cases stq) (auto simp: moving_def)
  have m: "moving base start p past ((work, out), [])" using assms(1) stq by simp
  have "moving base start p (insert e past) ((work, out), [])" by (rule moving_more[OF m]) auto
  moreover have "moving base start p (insert e past) (cascade_hold_item c k origin start now (work, out), [])" for c k
    by (rule moving_more[OF moving_hold[OF m]]) auto
  moreover have "snap_status work (e_item e) = Some dep \<Longrightarrow> snap_item base (e_item e) \<noteq> None" for dep
    using m by (cases "snap_item base (e_item e)")
      (auto simp: moving_def same_inputs_def snap_status_def dest: spec[of _ "e_item e"])
  moreover note moving_edge[OF m assms(2)]
  ultimately show ?thesis unfolding stq run_edge_def by (auto split: option.split EdgeKind.split)
qed

lemma moving_run_edges:
  assumes "moving base start p past stq" "distinct es" "set es \<inter> past = {}"
  shows "moving base start p (past \<union> set es) (foldl (run_edge start Failed (Some p) origin now) stq es)"
  using assms
proof (induction es arbitrary: past stq)
  case (Cons e es)
  have "moving base start p (insert e past) (run_edge start Failed (Some p) origin now stq e)"
    using Cons.prems by (intro moving_run_edge) auto
  from Cons.IH[OF this] Cons.prems show ?case by simp
qed simp

lemma unmoved_run_edges: "unmoved (fst stq) \<Longrightarrow> snd stq = []
  \<Longrightarrow> unmoved (fst (foldl (run_edge start Failed None origin now) stq es))
    \<and> snd (foldl (run_edge start Failed None origin now) stq es) = []"
proof (induction es arbitrary: stq)
  case (Cons e es)
  obtain work out where stq: "stq = ((work, out), [])" using Cons.prems by (cases stq) auto
  have "unmoved (fst (run_edge start Failed None origin now stq e)) \<and> snd (run_edge start Failed None origin now stq e) = []"
    using Cons.prems still.hold_keeps by (auto simp: stq run_edge_def split: option.split EdgeKind.split)
  with Cons.IH show ?case by simp
qed simp

lemma repoint_inputs_reps:
  "ef_repoints (snd (foldl (repoint_input start p) st ks)) = ef_repoints (snd st) @ map (input_move start p) ks"
  by (induction ks arbitrary: st) (auto simp: repoint_input_def input_move_def split: prod.splits)

lemma input_movers_props:
  assumes "wf_snap work"
  shows "distinct (input_movers work start)"
    "k \<in> set (input_movers work start) \<Longrightarrow> \<exists>i. snap_item work k = Some i \<and> start \<in> set (wi_inputs_from i)"
  using snap.ids_distinct[OF assms]
  by (auto simp: input_movers_def Let_def distinct_map snap.lookup_Some_iff[OF assms] intro: inj_on_subset)

text \<open>What the re-points of an effects list can be.\<close>

definition plan_b_moves :: "Snapshot \<Rightarrow> work_item_id \<Rightarrow> Repoint list \<Rightarrow> bool" where
  "plan_b_moves s start rs \<longleftrightarrow> rs = [] \<or>
     (\<exists>p es ks. rs = map (edge_move start p) es @ map (input_move start p) ks \<and> p \<noteq> start
        \<and> distinct es \<and> set es \<subseteq> set (edges_naming s start) \<and> (\<forall>e \<in> set es. snap_item s (e_item e) \<noteq> None)
        \<and> distinct ks \<and> (\<forall>k \<in> set ks. \<exists>i. snap_item s k = Some i \<and> start \<in> set (wi_inputs_from i)))"

lemma open_plan_b_waiting: "open_plan_b work k = Some p \<Longrightarrow> \<exists>st. snap_status work p = Some st \<and> is_waiting st"
  unfolding open_plan_b_def by (auto dest!: find_Some_mem split: option.splits)

lemma failed_moves:
  assumes wf: "wf_snap s" and failed: "snap_status s start = Some Failed" and out: "unmoved (s, out)"
  shows "plan_b_moves s start (ef_repoints (snd (run start origin now (s, out))))"
proof -
  let ?stq = "run_closed start Failed origin now ((s, out), [])"
  let ?es = "filter (\<lambda>e. is_ordering (e_kind e)) (edges_naming s start)"
  have deps: "?stq = run_dependents start Failed origin now ((s, out), [])"
    by (simp add: run_closed_def ends_subtree_def)
  have run: "snd ?stq = [] \<Longrightarrow> run start origin now (s, out) = fst ?stq"
    using run_loop_close[of start "{}" "(s, out)" Failed origin now "[]"] failed
    by (simp add: run_def skips_def)
  show ?thesis
  proof (cases "open_plan_b s start")
    case None
    then have "?stq = foldl (run_edge start Failed None origin now) ((s, out), []) ?es"
      by (simp add: deps run_dependents_def)
    with unmoved_run_edges[of "((s, out), [])"] out run show ?thesis by (simp add: unmoved_def plan_b_moves_def)
  next
    case (Some p)
    define stq2 where "stq2 = foldl (run_edge start Failed (Some p) origin now) ((s, out), []) ?es"
    have "moving s start p ({} \<union> set ?es) stq2" unfolding stq2_def
      using wf out snap.naming_filter[OF wf, of start] snap.edges_distinct[OF wf]
      by (intro moving_run_edges) (auto simp: moving_def unmoved_def same_inputs_def)
    then obtain es where es: "ef_repoints (snd (fst stq2)) = map (edge_move start p) es" "distinct es" "set es \<subseteq> set ?es"
      "\<forall>e \<in> set es. snap_item s (e_item e) \<noteq> None"
      and same: "same_inputs s (fst stq2)" and q: "snd stq2 = []"
      by (auto simp: moving_def)
    have st: "?stq = (repoint_inputs start p (fst stq2), snd stq2)"
      using Some by (simp add: deps run_dependents_def stq2_def Let_def)
    have "\<exists>i. snap_item s k = Some i \<and> start \<in> set (wi_inputs_from i)"
      if "k \<in> set (input_movers (fst (fst stq2)) start)" for k
      using input_movers_props(2)[OF _ that] same
      by (cases "snap_item s k") (auto simp: same_inputs_def dest!: spec[of _ k])
    moreover have "p \<noteq> start" using open_plan_b_waiting[OF Some] failed by auto
    moreover have "distinct (input_movers (fst (fst stq2)) start)"
      using same by (intro input_movers_props) (simp add: same_inputs_def)
    moreover have "ef_repoints (snd (run start origin now (s, out)))
        = map (edge_move start p) es @ map (input_move start p) (input_movers (fst (fst stq2)) start)"
      using run st q es(1) by (simp add: repoint_inputs_def repoint_inputs_reps)
    ultimately show ?thesis using es(2-4) unfolding plan_b_moves_def
      by (intro disjI2 exI[of _ p] exI[of _ es] exI[of _ "input_movers (fst (fst stq2)) start"] conjI) auto
  qed
qed

text \<open>The effects of a closing item's cascade, of a cancelled subtree and of settling.\<close>

lemma edges_naming_set_status [simp]: "edges_naming (set_status s k to o1 now) j = edges_naming s j"
  by (simp add: edges_naming_def frame_simps)

lemma cascade_unmoved:
  assumes wf: "wf_snap s" and item: "snap_status s item = Some to" and to: "to \<noteq> Failed"
  shows "ef_repoints (cascade s item to now) = []"
proof -
  let ?work = "set_status s item to None now"
  have "snap_status ?work = snap_status s" using wf item by (auto simp: fun_eq_iff snap_status_set_status)
  then have "snap_status ?work item \<noteq> Some Failed" using item to by simp
  then have "unmoved (run item item now (?work, Effects_default))"
    by (intro run_unmoved wf_set_status[OF wf]) (simp_all add: unmoved_def Effects_default_def)
  then show ?thesis by (simp add: cascade_def cascade_from_def cascade_from_run_def other_than_def unmoved_def)
qed

lemma cascade_shape:
  assumes wf: "wf_snap s" and item: "snap_status s item = Some to"
  shows "ef_dropped_edges (cascade s item to now) = []"
    and "valid_log (snap_status s) (ef_transitions (cascade s item to now))"
    and "plan_b_moves s item (ef_repoints (cascade s item to now))"
proof -
  let ?work = "set_status s item to None now"
  have wf': "wf_snap ?work" using wf by (rule wf_set_status)
  have st: "snap_status ?work = snap_status s"
    using wf item by (auto simp: fun_eq_iff snap_status_set_status)
  have fx: "cascade s item to now = snd (run item item now (?work, Effects_default))"
    by (simp add: cascade_def cascade_from_def cascade_from_run_def other_than_def)
  show "ef_dropped_edges (cascade s item to now) = []"
    unfolding fx by (rule undropped.run_keeps) (simp add: Effects_default_def)
  have "logged s (run item item now (?work, Effects_default))"
    by (rule log.run_keeps) (simp add: logged_def wf' st Effects_default_def)
  then show "valid_log (snap_status s) (ef_transitions (cascade s item to now))" by (simp add: fx logged_def)
  have none: "unmoved (?work, Effects_default)" by (simp add: unmoved_def Effects_default_def)
  show "plan_b_moves s item (ef_repoints (cascade s item to now))"
  proof (cases "to = Failed")
    case True
    have "snap_status ?work item = Some Failed" using item True unfolding st by simp
    from failed_moves[OF wf' this none, of item now]
    have "plan_b_moves ?work item (ef_repoints (cascade s item to now))" by (simp add: fx)
    moreover have "\<And>k i. snap_item ?work k = Some i \<Longrightarrow> \<exists>i'. snap_item s k = Some i' \<and> wi_inputs_from i' = wi_inputs_from i"
      using wf by (auto simp: snap_item_set_status split: if_splits)
    ultimately show ?thesis unfolding plan_b_moves_def by simp metis
  next
    case False
    then show ?thesis using cascade_unmoved[OF wf item False] by (simp add: plan_b_moves_def)
  qed
qed

end
