(* ===== verification/Mirror.thy ===== *)
theory Mirror
  imports BatchLaws CascadeOutcomes
begin

text \<open>
  The relation between the store and a working snapshot, and what each operation a batch queues does to
  it. \<open>mirrors\<close> says: the same rows up to the stamps the two clocks write, the released holds and the
  inputs; every edge of the snapshot is a stored row and every stored edge with an open end is in the
  snapshot; and an input the snapshot names is named by the stored row unless it has closed.
\<close>

section \<open>The relation\<close>

definition bare :: "WorkItem \<Rightarrow> WorkItem" where
  "bare i = i\<lparr>wi_updated_at := 0, wi_closed_at := None, wi_held_by := None, wi_inputs_from := []\<rparr>"

definition live :: "Snapshot \<Rightarrow> work_item_id \<Rightarrow> bool" where
  "live s k \<longleftrightarrow> (\<exists>st. snap_status s k = Some st \<and> \<not> is_closed st)"

definition gone :: "Snapshot \<Rightarrow> work_item_id \<Rightarrow> bool" where
  "gone s k \<longleftrightarrow> (\<exists>st. snap_status s k = Some st \<and> is_closed st)"

definition same_rows :: "Store \<Rightarrow> Snapshot \<Rightarrow> bool" where
  "same_rows st s \<longleftrightarrow> (\<forall>k. map_option bare (get_item st k) = map_option bare (snap_item s k))"

definition same_edges :: "Store \<Rightarrow> Snapshot \<Rightarrow> bool" where
  "same_edges st s \<longleftrightarrow> set (sn_edges s) \<subseteq> set (st_deps st)
     \<and> (\<forall>e \<in> set (st_deps st). live s (e_item e) \<or> live s (e_depends_on e) \<longrightarrow> e \<in> set (sn_edges s))"

text \<open>The inputs a row names, in the store and in the snapshot.\<close>

definition st_names :: "Store \<Rightarrow> work_item_id \<Rightarrow> work_item_id set" where
  "st_names st k = (case get_item st k of Some r \<Rightarrow> set (wi_inputs_from r) | None \<Rightarrow> {})"

definition sn_names :: "Snapshot \<Rightarrow> work_item_id \<Rightarrow> work_item_id set" where
  "sn_names s k = (case snap_item s k of Some i \<Rightarrow> set (wi_inputs_from i) | None \<Rightarrow> {})"

definition same_names :: "Store \<Rightarrow> Snapshot \<Rightarrow> bool" where
  "same_names st s \<longleftrightarrow> (\<forall>k. \<forall>x \<in> sn_names s k. x \<in> st_names st k \<or> gone s x)"

definition mirrors :: "Store \<Rightarrow> Snapshot \<Rightarrow> bool" where
  "mirrors st s \<longleftrightarrow> wf_snap s \<and> same_rows st s \<and> same_edges st s \<and> same_names st s"

lemma bare_status [simp]: "wi_status (bare i) = wi_status i" "wi_status_origin (bare i) = wi_status_origin i"
  by (simp_all add: bare_def)

lemma same_rows_status:
  assumes "same_rows st s"
  shows "status_of st k = snap_status s k"
proof -
  have "map_option wi_status (map_option bare (get_item st k)) = map_option wi_status (map_option bare (snap_item s k))"
    using assms by (simp add: same_rows_def)
  then show ?thesis by (simp add: status_of_def snap_status_def option.map_comp o_def)
qed

lemma same_rows_item: "same_rows st s \<Longrightarrow> snap_item s k = Some i \<Longrightarrow> \<exists>r. get_item st k = Some r \<and> bare r = bare i"
  unfolding same_rows_def by (drule spec[of _ k]) (cases "get_item st k"; simp)

section \<open>A status write\<close>

lemma snap_status_write:
  assumes "wf_snap s" "snap_status s k = Some from"
  shows "snap_status (set_status s k to o1 now) = (snap_status s)(k \<mapsto> to)"
proof -
  have "snap_contains s k" using assms by (auto simp: snap_contains_iff snap_status_def)
  then show ?thesis using assms by (auto simp: fun_eq_iff snap_status_set_status)
qed

lemma status_write_mirrors:
  assumes m: "mirrors st s" and k: "snap_status s k = Some from" "\<not> is_closed from"
    and rows: "\<And>j. get_item st' j = (if j = k then map_option f (get_item st j) else get_item st j)"
    and deps: "st_deps st' = st_deps st"
    and f: "\<And>i. bare (f i) = (bare i)\<lparr>wi_status := to, wi_status_origin := o1\<rparr>"
      "\<And>i. wi_inputs_from (f i) = wi_inputs_from i"
  shows "mirrors st' (set_status s k to o1 now)"
proof -
  let ?s' = "set_status s k to o1 now"
  have wf: "wf_snap s" and r: "same_rows st s" and e: "same_edges st s" and n: "same_names st s"
    using m by (simp_all add: mirrors_def)
  have item: "snap_item ?s' j = (if j = k then map_option (with_status to o1 now) (snap_item s j) else snap_item s j)" for j
    using wf by (simp add: snap_item_set_status)
  have st: "snap_status ?s' j = (if j = k then Some to else snap_status s j)" for j
    using snap_status_write[OF wf k(1)] by simp
  have "bare (with_status to o1 now i) = (bare i)\<lparr>wi_status := to, wi_status_origin := o1\<rparr>" for i
    by (simp add: bare_def with_status_def)
  moreover have "map_option bare (get_item st j) = map_option bare (snap_item s j)" for j
    using r by (simp add: same_rows_def)
  ultimately have "same_rows st' ?s'"
    unfolding same_rows_def rows item using f(1)
    by (auto simp: option.map_comp o_def) (metis (no_types, lifting) option.map_comp o_apply option.map_cong0)
  moreover have live: "live ?s' j \<Longrightarrow> live s j" for j using k st by (auto simp: live_def split: if_splits)
  have "same_edges st' ?s'"
    using e live by (auto simp: same_edges_def deps frame_simps)
  moreover have "gone s j \<Longrightarrow> gone ?s' j" for j using k st by (auto simp: gone_def split: if_splits)
  moreover have "sn_names ?s' j = sn_names s j" "st_names st' j = st_names st j" for j
    using f(2) by (auto simp: sn_names_def st_names_def item rows with_status_def split: option.splits)
  ultimately show ?thesis using n wf unfolding mirrors_def same_names_def by (metis wf_set_status)
qed

section \<open>Sequences of operations the store takes\<close>

definition takes :: "(nat \<Rightarrow> string) \<Rightarrow> timestamp \<Rightarrow> Store \<Rightarrow> WorkOp list \<Rightarrow> Store \<Rightarrow> bool" where
  "takes uuid now st ops st' \<longleftrightarrow> (\<forall>ap. \<exists>ap'. apply_ops uuid now ops (st, ap) = Inr (st', ap'))"

lemma apply_ops_append: "apply_ops uuid now (xs @ ys) sa = and_then (apply_ops uuid now xs sa) (apply_ops uuid now ys)"
proof (induction xs arbitrary: sa)
  case (Cons op xs)
  then show ?case by (cases "apply_op uuid now op sa") simp_all
qed simp

lemma takes_Nil [simp]: "takes uuid now st [] st' \<longleftrightarrow> st' = st"
  by (auto simp: takes_def)

lemma takes_append: "takes uuid now st xs st1 \<Longrightarrow> takes uuid now st1 ys st2 \<Longrightarrow> takes uuid now st (xs @ ys) st2"
  unfolding takes_def apply_ops_append by (metis and_then_simps(2))

lemma takes_Cons: "takes uuid now st [x] st1 \<Longrightarrow> takes uuid now st1 xs st2 \<Longrightarrow> takes uuid now st (x # xs) st2"
  using takes_append[of uuid now st "[x]" st1 xs st2] by simp

lemma takes_one:
  "(\<And>ap. \<exists>ap'. apply_op uuid now op (st, ap) = Inr (st', ap')) \<Longrightarrow> takes uuid now st [op] st'"
  unfolding takes_def apply_ops.simps by (metis and_then_simps(2))

section \<open>Transitions\<close>

text \<open>An operation that writes the given transition: its reason, actor and kind may differ.\<close>

definition writes :: "Transition \<Rightarrow> WorkOp \<Rightarrow> bool" where
  "writes t op \<longleftrightarrow> (\<exists>spec. op = OpTransition spec \<and> ts_item spec = tr_item t
     \<and> ts_expected_from spec = Some (tr_from t) \<and> ts_to spec = tr_to t \<and> ts_origin spec = tr_origin t)"

lemma writes_transition_op [simp]: "writes t (transition_op actor kind t)"
  by (simp add: writes_def transition_op_def)

lemma transition_takes:
  assumes "status_of st (ts_item spec) = Some from" "\<not> is_closed from" "ts_expected_from spec = Some from"
  obtains st' where "takes uuid now st [OpTransition spec] st'"
    "\<And>j. get_item st' j = (if j = ts_item spec then map_option (transition_row spec now) (get_item st j) else get_item st j)"
    "st_deps st' = st_deps st"
proof -
  define e where "e = transition_event spec now from"
  define st1 where "st1 = update_row (ts_item spec) (transition_row spec now) st"
  define st' where "st' = insert_event e (if is_active (ts_to spec) then st1 else fst (end_lease (ts_item spec) now st1))"
  have "transition spec now st = Inr (st', e)"
    unfolding transition_Inr_iff st'_def st1_def e_def using assms by auto
  then have "takes uuid now st [OpTransition spec] st'" by (intro takes_one) (simp add: log_event_def)
  moreover have "get_item st1 j = (if j = ts_item spec then map_option (transition_row spec now) (get_item st j) else get_item st j)" for j
    unfolding st1_def by (rule get_item_update_row) (simp add: transition_row_def)
  then have "get_item st' j = (if j = ts_item spec then map_option (transition_row spec now) (get_item st j) else get_item st j)" for j
    by (simp add: st'_def)
  moreover have "st_deps st' = st_deps st" by (simp add: st'_def st1_def)
  ultimately show ?thesis using that by blast
qed

abbreviation snap_write :: "timestamp \<Rightarrow> Snapshot \<Rightarrow> Transition \<Rightarrow> Snapshot" where
  "snap_write now s t \<equiv> set_status s (tr_item t) (tr_to t) (tr_origin t) now"

lemma transition_mirrors:
  assumes m: "mirrors st s" and t: "snap_status s (tr_item t) = Some (tr_from t)" "\<not> is_closed (tr_from t)"
    and op: "writes t op"
  obtains st' where "takes uuid now' st [op] st'" "mirrors st' (snap_write now s t)" "st_names st' = st_names st"
proof -
  obtain spec where spec: "op = OpTransition spec" "ts_item spec = tr_item t" "ts_expected_from spec = Some (tr_from t)"
    "ts_to spec = tr_to t" "ts_origin spec = tr_origin t"
    using op by (auto simp: writes_def)
  have "status_of st (ts_item spec) = Some (tr_from t)"
    using m t(1) spec(2) same_rows_status[of st s "tr_item t"] by (simp add: mirrors_def)
  from transition_takes[OF this t(2) spec(3), of uuid now'] obtain st' where st':
    "takes uuid now' st [OpTransition spec] st'"
    "\<And>j. get_item st' j = (if j = ts_item spec then map_option (transition_row spec now') (get_item st j) else get_item st j)"
    "st_deps st' = st_deps st" by blast
  have "mirrors st' (snap_write now s t)"
    by (rule status_write_mirrors[OF m t st'(2)[unfolded spec(2)] st'(3)])
      (simp_all add: transition_row_def bare_def spec)
  moreover have "st_names st' = st_names st"
    by (auto simp: fun_eq_iff st_names_def st'(2) transition_row_def split: option.split)
  ultimately show ?thesis using st'(1) spec(1) that by blast
qed

lemma sn_names_write [simp]: "wf_snap s \<Longrightarrow> sn_names (snap_write now s t) = sn_names s"
  by (auto simp: fun_eq_iff sn_names_def snap_item_set_status with_status_def split: option.split)

lemma transitions_mirror:
  assumes "mirrors st s" "valid_log (snap_status s) ts" "list_all2 writes ts ops"
  shows "\<exists>st'. takes uuid now' st ops st' \<and> mirrors st' (foldl (snap_write now) s ts) \<and> st_names st' = st_names st"
  using assms
proof (induction ts arbitrary: st s ops)
  case Nil
  then show ?case by simp
next
  case (Cons t ts)
  obtain op ops' where ops: "ops = op # ops'" "writes t op" "list_all2 writes ts ops'"
    using Cons.prems(3) by (auto simp: list_all2_Cons1)
  have t: "snap_status s (tr_item t) = Some (tr_from t)" "\<not> is_closed (tr_from t)" using Cons.prems(2) by simp_all
  obtain st1 where st1: "takes uuid now' st [op] st1" "mirrors st1 (snap_write now s t)" "st_names st1 = st_names st"
    using transition_mirrors[OF Cons.prems(1) t ops(2)] by blast
  have "wf_snap s" using Cons.prems(1) by (simp add: mirrors_def)
  then have "snap_status (snap_write now s t) = (snap_status s)(tr_item t \<mapsto> tr_to t)"
    using t by (intro snap_status_write)
  then have "valid_log (snap_status (snap_write now s t)) ts" using Cons.prems(2) by simp
  from Cons.IH[OF st1(2) this ops(3)] obtain st2 where st2: "takes uuid now' st1 ops' st2"
    "mirrors st2 (foldl (snap_write now) (snap_write now s t) ts)" "st_names st2 = st_names st1" by blast
  with st1 ops(1) show ?case using takes_Cons by fastforce
qed

section \<open>Re-points\<close>

text \<open>One re-pointed edge: the same move in the store and in the snapshot.\<close>

lemma repointed_edges:
  assumes "wf_snap s" "e \<in> set (sn_edges s)" "p \<noteq> e_depends_on e"
  shows "set (sn_edges (repoint_row s (e_item e) (LkEdge (e_kind e)) (e_depends_on e) p))
    = insert (moved_to p e) (set (sn_edges s) - {e})"
  using repoint_edge_set[OF assms] by (simp add: repoint_edge_def)

lemma rewritten_names: "set (rewritten_inputs old new xs) = (\<lambda>x. if x = old then new else x) ` set xs"
proof -
  have "set (foldl (\<lambda>acc x. let next = (if x = old then new else x) in if next \<in> set acc then acc else acc @ [next]) acc xs)
      = set acc \<union> (\<lambda>x. if x = old then new else x) ` set xs" for acc
    by (induction xs arbitrary: acc) (auto simp: Let_def)
  then show ?thesis by (simp add: rewritten_inputs_def)
qed

lemma moved_names: "set (moved_inputs old new xs) = (\<lambda>x. if x = old then new else x) ` set xs"
proof -
  have "set (foldl (\<lambda>acc x. push_unique acc (if x = old then new else x)) acc xs)
      = set acc \<union> (\<lambda>x. if x = old then new else x) ` set xs" for acc
    by (induction xs arbitrary: acc) (auto simp: set_push_unique)
  then show ?thesis by (simp add: moved_inputs_def)
qed

lemma repoint_edge_row_takes:
  assumes "e \<in> set (st_deps st)" "p \<noteq> e_depends_on e"
  obtains st1 where "repoint_edge_row (e_item e) (e_kind e) (e_depends_on e) p st = Inr st1"
    "set (st_deps st1) = insert (moved_to p e) (set (st_deps st) - {e})" "\<And>j. get_item st1 j = get_item st j"
proof -
  have e: "moved_to (e_depends_on e) e = e" by (simp add: moved_to_def)
  have ne: "moved_to p e \<noteq> e" using assms(2) by (metis Edge.select_convs(2) moved_to_def)
  have row: "repoint_edge_row (e_item e) (e_kind e) (e_depends_on e) p st
      = (if moved_to p e \<notin> set (st_deps st)
         then Inr (st\<lparr>st_deps := map (\<lambda>d. if d = e then moved_to p e else d) (st_deps st)\<rparr>)
         else Inr (st\<lparr>st_deps := filter (\<lambda>d. d \<noteq> e) (st_deps st)\<rparr>))"
    using assms(1) ne e by (simp add: repoint_edge_row_def Let_def moved_to_def[symmetric] eq_commute[of e])
  show ?thesis
  proof (cases "moved_to p e \<in> set (st_deps st)")
    case True
    then show ?thesis using row ne by (intro that[of "st\<lparr>st_deps := filter (\<lambda>d. d \<noteq> e) (st_deps st)\<rparr>"]) (auto simp: get_item_def)
  next
    case False
    then show ?thesis using row ne assms(1)
      by (intro that[of "st\<lparr>st_deps := map (\<lambda>d. if d = e then moved_to p e else d) (st_deps st)\<rparr>"]) (auto simp: get_item_def)
  qed
qed

lemma repoint_op_takes:
  assumes row: "get_item st k = Some r"
    and link: "case kind of Some knd \<Rightarrow> repoint_edge_row k knd old new st = Inr st1
        | None \<Rightarrow> st1 = st \<and> old \<in> set (wi_inputs_from r)"
    and items: "\<And>j. get_item st1 j = get_item st j"
    and spec: "rs_item spec = k" "rs_kind spec = kind" "rs_old_upstream spec = old" "rs_new_upstream spec = new"
  obtains st' where "takes uuid now st [OpRepoint spec] st'" "st_deps st' = st_deps st1"
    "\<And>j. get_item st' j = (if j = k then map_option (repoint_row_update spec now r) (get_item st j) else get_item st j)"
proof -
  let ?st2 = "update_row k (repoint_row_update spec now r) st1"
  have "\<exists>e. repoint spec now st = Inr (insert_event e ?st2, e)"
  proof (cases kind)
    case None
    then show ?thesis using assms
      by (auto simp: repoint_def require_item_def ok_or_def Let_def repoint_row_update_def[abs_def])
  next
    case (Some knd)
    then show ?thesis using assms
      by (auto simp: repoint_def require_item_def ok_or_def Let_def repoint_row_update_def[abs_def])
  qed
  then obtain e where e: "repoint spec now st = Inr (insert_event e ?st2, e)" by blast
  have "takes uuid now st [OpRepoint spec] (insert_event e ?st2)"
    by (rule takes_one) (simp add: e log_event_def)
  moreover have "get_item (insert_event e ?st2) j
      = (if j = k then map_option (repoint_row_update spec now r) (get_item st j) else get_item st j)" for j
    using get_item_update_row[of "repoint_row_update spec now r" k st1 j] items by (simp add: repoint_row_update_def)
  ultimately show ?thesis using that[of "insert_event e ?st2"] by simp
qed

text \<open>
  While the moves of one cascade are written the store runs ahead of the snapshot's inputs, since it
  renames a row's inputs with its edge. \<open>renamed\<close> follows the rows of \<open>ks\<close>: what they named before,
  with the failed item replaced by its plan B, they name now; the other rows name what they did.
\<close>

definition rename :: "work_item_id \<Rightarrow> work_item_id \<Rightarrow> work_item_id \<Rightarrow> work_item_id" where
  "rename old new x = (if x = old then new else x)"

definition renamed :: "work_item_id \<Rightarrow> work_item_id \<Rightarrow> work_item_id set \<Rightarrow> Store \<Rightarrow> Store \<Rightarrow> bool" where
  "renamed old new ks st0 st \<longleftrightarrow>
     (\<forall>k. if k \<in> ks then rename old new ` st_names st0 k \<subseteq> st_names st k else st_names st k = st_names st0 k)"

lemma renamed_refl: "renamed old new {} st st"
  by (simp add: renamed_def)

text \<open>A re-point of a row that exists: the row keeps everything but its inputs and its stamp.\<close>

lemma repoint_row_effect:
  assumes row: "get_item st k = Some r"
    and rows: "\<And>j. get_item st' j = (if j = k then map_option (repoint_row_update spec now r) (get_item st j) else get_item st j)"
    and spec: "rs_old_upstream spec = old" "rs_new_upstream spec = new"
  shows "same_rows st s \<Longrightarrow> same_rows st' s"
    and "old \<noteq> new \<Longrightarrow> renamed old new ks st0 st \<Longrightarrow> renamed old new (insert k ks) st0 st'"
proof -
  have bare: "bare (repoint_row_update spec now r i) = bare i" for i
    by (simp add: bare_def repoint_row_update_def)
  show "same_rows st s \<Longrightarrow> same_rows st' s"
    by (auto simp: same_rows_def rows option.map_comp o_def bare)
  have names: "st_names st' j = (if j = k then rename old new ` st_names st j else st_names st j)" for j
  proof (cases "j = k")
    case True
    have "rename old new ` set (wi_inputs_from r) = set (wi_inputs_from r)" if "old \<notin> set (wi_inputs_from r)"
      using that by (force simp: rename_def)
    with True row spec show ?thesis
      by (simp add: st_names_def rows repoint_row_update_def rewritten_names rename_def[abs_def])
  qed (simp add: st_names_def rows)
  assume ne: "old \<noteq> new" and ren: "renamed old new ks st0 st"
  have idem: "rename old new (rename old new x) = rename old new x" for x using ne by (simp add: rename_def)
  show "renamed old new (insert k ks) st0 st'"
    unfolding renamed_def
  proof
    fix j
    have "rename old new ` st_names st0 j \<subseteq> rename old new ` st_names st j"
    proof (cases "j \<in> ks")
      case True
      then have "rename old new ` st_names st0 j \<subseteq> st_names st j" using ren by (simp add: renamed_def)
      then have "rename old new ` rename old new ` st_names st0 j \<subseteq> rename old new ` st_names st j" by (rule image_mono)
      then show ?thesis by (simp add: image_image idem)
    next
      case False
      then show ?thesis using ren by (simp add: renamed_def)
    qed
    moreover have "if j \<in> ks then rename old new ` st_names st0 j \<subseteq> st_names st j else st_names st j = st_names st0 j"
      using ren by (simp add: renamed_def)
    ultimately show "if j \<in> insert k ks then rename old new ` st_names st0 j \<subseteq> st_names st' j else st_names st' j = st_names st0 j"
      unfolding names by auto
  qed
qed

lemma live_repoint [simp]: "wf_snap s \<Longrightarrow> live (repoint_row s k l old new) = live s"
  "wf_snap s \<Longrightarrow> gone (repoint_row s k l old new) = gone s"
  by (simp_all add: live_def gone_def fun_eq_iff)

lemma same_rows_repoint_row:
  assumes "wf_snap s"
  shows "same_rows st (repoint_row s k l old new) = same_rows st s"
proof -
  have "map_option bare (snap_item (repoint_row s k l old new) j) = map_option bare (snap_item s j)" for j
    using assms by (cases "snap_item s j") (auto simp: snap_item_repoint_row bare_def)
  then show ?thesis by (simp add: same_rows_def)
qed

lemma edge_takes:
  assumes wf: "wf_snap s" and rows: "same_rows st s" and edges: "same_edges st s"
    and e: "e \<in> set (sn_edges s)" "e_depends_on e = old" and ne: "old \<noteq> new"
    and item: "snap_item s (e_item e) \<noteq> None" and ren: "renamed old new ks st0 st"
  obtains st' where "takes uuid now st [repoint_op actor (Some (e_kind e)) (edge_move old new e)] st'"
    "same_rows st' s" "same_edges st' (repoint_row s (e_item e) (LkEdge (e_kind e)) old new)"
    "renamed old new (insert (e_item e) ks) st0 st'"
proof -
  obtain r where r: "get_item st (e_item e) = Some r" using item rows same_rows_item by blast
  have dep: "e \<in> set (st_deps st)" using e(1) edges by (auto simp: same_edges_def)
  have ne': "new \<noteq> e_depends_on e" using ne e(2) by simp
  obtain st1 where st1: "repoint_edge_row (e_item e) (e_kind e) old new st = Inr st1"
    "set (st_deps st1) = insert (moved_to new e) (set (st_deps st) - {e})" "\<And>j. get_item st1 j = get_item st j"
    using repoint_edge_row_takes[OF dep ne'] e(2) by metis
  let ?spec = "\<lparr>rs_item = e_item e, rs_kind = Some (e_kind e), rs_old_upstream = old, rs_new_upstream = new,
       rs_origin = Some old, rs_actor = actor\<rparr>"
  have op: "repoint_op actor (Some (e_kind e)) (edge_move old new e) = OpRepoint ?spec"
    using e(2) by (simp add: repoint_op_def edge_move_def)
  obtain st' where st': "takes uuid now st [OpRepoint ?spec] st'" "st_deps st' = st_deps st1"
    "\<And>j. get_item st' j = (if j = e_item e then map_option (repoint_row_update ?spec now r) (get_item st j) else get_item st j)"
    using repoint_op_takes[where kind = "Some (e_kind e)" and spec = ?spec and uuid = uuid and now = now, OF r _ st1(3)] st1(1) by auto
  have set': "set (sn_edges (repoint_row s (e_item e) (LkEdge (e_kind e)) old new))
      = insert (moved_to new e) (set (sn_edges s) - {e})"
    using repointed_edges[OF wf e(1) ne'] e(2) by simp
  have "same_edges st' (repoint_row s (e_item e) (LkEdge (e_kind e)) old new)"
    using edges wf unfolding same_edges_def st'(2) st1(2) set' by auto
  moreover note repoint_row_effect[OF r st'(3)]
  ultimately show ?thesis using that st'(1) op rows ren ne by simp
qed

lemma input_takes:
  assumes rows: "same_rows st s" and edges: "same_edges st s" and ne: "old \<noteq> new"
    and k: "old \<in> st_names st k" and ren: "renamed old new ks st0 st"
  obtains st' where "takes uuid now st [repoint_op actor None (input_move old new k)] st'"
    "same_rows st' s" "same_edges st' s" "renamed old new (insert k ks) st0 st'"
proof -
  obtain r where r: "get_item st k = Some r" "old \<in> set (wi_inputs_from r)"
    using k by (auto simp: st_names_def split: option.splits)
  let ?spec = "\<lparr>rs_item = k, rs_kind = None, rs_old_upstream = old, rs_new_upstream = new,
       rs_origin = Some old, rs_actor = actor\<rparr>"
  have op: "repoint_op actor None (input_move old new k) = OpRepoint ?spec"
    by (simp add: repoint_op_def input_move_def)
  obtain st' where st': "takes uuid now st [OpRepoint ?spec] st'" "st_deps st' = st_deps st"
    "\<And>j. get_item st' j = (if j = k then map_option (repoint_row_update ?spec now r) (get_item st j) else get_item st j)"
    using repoint_op_takes[where kind = None and spec = ?spec and uuid = uuid and now = now, OF r(1) _ refl] r(2) by auto
  have "same_edges st' s" using edges st'(2) by (simp add: same_edges_def)
  moreover note repoint_row_effect[OF r(1) st'(3)]
  ultimately show ?thesis using that st'(1) op rows ren ne by simp
qed

abbreviation snap_move :: "Snapshot \<Rightarrow> Repoint \<Rightarrow> Snapshot" where
  "snap_move s r \<equiv> repoint_row s (rp_item r) (rp_link r) (rp_old_upstream r) (rp_new_upstream r)"

lemma edge_move_fields [simp]:
  "rp_item (edge_move old new e) = e_item e" "rp_link (edge_move old new e) = LkEdge (e_kind e)"
  "rp_old_upstream (edge_move old new e) = e_depends_on e" "rp_new_upstream (edge_move old new e) = new"
  by (simp_all add: edge_move_def)

lemma input_move_fields [simp]:
  "rp_item (input_move old new k) = k" "rp_link (input_move old new k) = LkInput"
  "rp_old_upstream (input_move old new k) = old" "rp_new_upstream (input_move old new k) = new"
  by (simp_all add: input_move_def)

lemma edges_take:
  assumes "wf_snap s" "same_rows st s" "same_edges st s" "renamed old new ks st0 st" "old \<noteq> new" "distinct es"
    "\<forall>e \<in> set es. e \<in> set (sn_edges s) \<and> e_depends_on e = old \<and> snap_item s (e_item e) \<noteq> None"
  shows "\<exists>st'. takes uuid now st (map (\<lambda>e. repoint_op actor (Some (e_kind e)) (edge_move old new e)) es) st'
    \<and> same_rows st' (foldl snap_move s (map (edge_move old new) es))
    \<and> same_edges st' (foldl snap_move s (map (edge_move old new) es))
    \<and> renamed old new (ks \<union> e_item ` set es) st0 st'"
  using assms
proof (induction es arbitrary: st s ks)
  case Nil
  then show ?case by simp
next
  case (Cons e es)
  have e: "e \<in> set (sn_edges s)" "e_depends_on e = old" "snap_item s (e_item e) \<noteq> None" using Cons.prems(7) by simp_all
  let ?s = "repoint_row s (e_item e) (LkEdge (e_kind e)) old new"
  obtain st1 where st1: "takes uuid now st [repoint_op actor (Some (e_kind e)) (edge_move old new e)] st1"
    "same_rows st1 s" "same_edges st1 ?s" "renamed old new (insert (e_item e) ks) st0 st1"
    using edge_takes[OF Cons.prems(1-3) e(1,2) Cons.prems(5) e(3) Cons.prems(4)] by blast
  have wf: "wf_snap ?s" by (rule wf_repoint_row[OF Cons.prems(1)])
  have rows: "same_rows st1 ?s" using st1(2) Cons.prems(1) by (simp add: same_rows_repoint_row)
  have edges: "set (sn_edges ?s) = insert (moved_to new e) (set (sn_edges s) - {e})"
    using repointed_edges[OF Cons.prems(1) e(1), of new] Cons.prems(5) e(2) by simp
  have rest: "\<forall>d \<in> set es. d \<in> set (sn_edges ?s) \<and> e_depends_on d = old \<and> snap_item ?s (e_item d) \<noteq> None"
    using Cons.prems(1,6,7) by (auto simp: edges snap_item_repoint_row)
  have "distinct es" using Cons.prems(6) by simp
  from Cons.IH[OF wf rows st1(3,4) Cons.prems(5) this rest]
  obtain st2 where "takes uuid now st1 (map (\<lambda>e. repoint_op actor (Some (e_kind e)) (edge_move old new e)) es) st2"
    "same_rows st2 (foldl snap_move ?s (map (edge_move old new) es))"
    "same_edges st2 (foldl snap_move ?s (map (edge_move old new) es))"
    "renamed old new (insert (e_item e) ks \<union> e_item ` set es) st0 st2" by blast
  with st1(1) e(2) show ?case using takes_Cons by fastforce
qed

lemma inputs_take:
  assumes "same_rows st s" "same_edges st s" "renamed old new ks st0 st" "old \<noteq> new" "distinct js"
    "\<forall>k \<in> set js. k \<notin> ks \<and> old \<in> st_names st0 k"
  shows "\<exists>st'. takes uuid now st (map (\<lambda>k. repoint_op actor None (input_move old new k)) js) st'
    \<and> same_rows st' s \<and> same_edges st' s \<and> renamed old new (ks \<union> set js) st0 st'"
  using assms
proof (induction js arbitrary: st ks)
  case Nil
  then show ?case by simp
next
  case (Cons k js)
  have "old \<in> st_names st k" using Cons.prems(3,6) by (simp add: renamed_def)
  from input_takes[OF Cons.prems(1,2,4) this Cons.prems(3)]
  obtain st1 where st1: "takes uuid now st [repoint_op actor None (input_move old new k)] st1"
    "same_rows st1 s" "same_edges st1 s" "renamed old new (insert k ks) st0 st1" by blast
  have "distinct js" "\<forall>j \<in> set js. j \<notin> insert k ks \<and> old \<in> st_names st0 j" using Cons.prems(5,6) by auto
  from Cons.IH[OF st1(2-4) Cons.prems(4) this]
  obtain st2 where "takes uuid now st1 (map (\<lambda>k. repoint_op actor None (input_move old new k)) js) st2"
    "same_rows st2 s" "same_edges st2 s" "renamed old new (insert k ks \<union> set js) st0 st2" by blast
  with st1(1) show ?case using takes_Cons by fastforce
qed

lemma sn_names_moves:
  assumes "wf_snap s" "distinct js"
  shows "wf_snap (foldl snap_move s (map (input_move old new) js))"
    "sn_edges (foldl snap_move s (map (input_move old new) js)) = sn_edges s"
    "snap_status (foldl snap_move s (map (input_move old new) js)) = snap_status s"
    "same_rows st (foldl snap_move s (map (input_move old new) js)) = same_rows st s"
    "sn_names (foldl snap_move s (map (input_move old new) js)) k
       = (if k \<in> set js then rename old new ` sn_names s k else sn_names s k)"
proof -
  have edges: "sn_edges (repoint_row s k LkInput old new) = sn_edges s" for s k
    by (simp add: repoint_row_def frame_simps)
  have names: "sn_names (repoint_row s j LkInput old new) k = (if k = j then rename old new ` sn_names s k else sn_names s k)"
    if "wf_snap s" for s j k
    using that by (auto simp: sn_names_def snap_item_repoint_row moved_names rename_def[abs_def] split: option.split)
  show "wf_snap (foldl snap_move s (map (input_move old new) js))"
    "sn_edges (foldl snap_move s (map (input_move old new) js)) = sn_edges s"
    "snap_status (foldl snap_move s (map (input_move old new) js)) = snap_status s"
    "same_rows st (foldl snap_move s (map (input_move old new) js)) = same_rows st s"
    "sn_names (foldl snap_move s (map (input_move old new) js)) k
       = (if k \<in> set js then rename old new ` sn_names s k else sn_names s k)"
    using assms
    by (induction js arbitrary: s)
      (simp_all add: wf_repoint_row edges names fun_eq_iff same_rows_repoint_row)
qed

section \<open>The effects of one engine call\<close>

text \<open>What writing a run of transitions does to the snapshot.\<close>

lemma snap_writes_facts:
  assumes "wf_snap s" "valid_log (snap_status s) ts"
  shows "wf_snap (foldl (snap_write now) s ts)"
    "snap_status (foldl (snap_write now) s ts) = log_end (snap_status s) ts"
    "sn_edges (foldl (snap_write now) s ts) = sn_edges s"
    "sn_names (foldl (snap_write now) s ts) = sn_names s"
    "snap_item (foldl (snap_write now) s ts) k = None \<longleftrightarrow> snap_item s k = None"
proof -
  have "wf_snap (foldl (snap_write now) s ts) \<and> snap_status (foldl (snap_write now) s ts) = log_end (snap_status s) ts
    \<and> sn_edges (foldl (snap_write now) s ts) = sn_edges s \<and> sn_names (foldl (snap_write now) s ts) = sn_names s
    \<and> (snap_item (foldl (snap_write now) s ts) k = None \<longleftrightarrow> snap_item s k = None)"
    using assms
  proof (induction ts arbitrary: s)
    case (Cons t ts)
    have t: "snap_status (snap_write now s t) = (snap_status s)(tr_item t \<mapsto> tr_to t)"
      using Cons.prems by (intro snap_status_write) auto
    with Cons.prems have "valid_log (snap_status (snap_write now s t)) ts" by simp
    from Cons.IH[OF wf_set_status[OF Cons.prems(1)] this] show ?case
      using Cons.prems(1) by (simp add: t log_end_Cons frame_simps snap_item_set_status fun_upd_def)
  qed simp
  then show "wf_snap (foldl (snap_write now) s ts)"
    "snap_status (foldl (snap_write now) s ts) = log_end (snap_status s) ts"
    "sn_edges (foldl (snap_write now) s ts) = sn_edges s"
    "sn_names (foldl (snap_write now) s ts) = sn_names s"
    "snap_item (foldl (snap_write now) s ts) k = None \<longleftrightarrow> snap_item s k = None" by blast+
qed

lemma gone_run:
  assumes "valid_log (snap_status s) ts" "snap_status s' = log_end (snap_status s) ts" "gone s k"
  shows "gone s' k"
  using assms valid_log_closed[OF assms(1)] by (auto simp: gone_def)

lemma snap_apply_parts:
  "ef_dropped_edges fx = [] \<Longrightarrow> snap_apply s fx now = foldl snap_move (foldl (snap_write now) s (ef_transitions fx)) (ef_repoints fx)"
  by (simp add: snap_apply_def)

text \<open>The moves to a plan B, written after the transitions.\<close>

definition move_ops :: "string \<Rightarrow> work_item_id \<Rightarrow> work_item_id \<Rightarrow> Edge list \<Rightarrow> work_item_id list \<Rightarrow> WorkOp list" where
  "move_ops actor start p es ks =
     map (\<lambda>e. repoint_op actor (Some (e_kind e)) (edge_move start p e)) es
     @ map (\<lambda>k. repoint_op actor None (input_move start p k)) (filter (\<lambda>k. k \<notin> e_item ` set es) ks)"

lemma edge_moves_snapshot:
  "wf_snap s \<Longrightarrow> wf_snap (foldl snap_move s (map (edge_move old new) es))
    \<and> snap_status (foldl snap_move s (map (edge_move old new) es)) = snap_status s
    \<and> sn_names (foldl snap_move s (map (edge_move old new) es)) = sn_names s"
proof (induction es arbitrary: s)
  case (Cons e es)
  have "sn_names (repoint_row s k (LkEdge kd) a b) = sn_names s" for k kd a b
    using Cons.prems by (simp add: sn_names_def fun_eq_iff snap_item_repoint_row)
  with Cons.IH[OF wf_repoint_row[OF Cons.prems]] Cons.prems show ?case by (simp add: fun_eq_iff)
qed simp

lemma moves_mirror:
  assumes m: "mirrors st s" and start: "gone s start" "\<forall>k. start \<in> sn_names s k \<longrightarrow> start \<in> st_names st k"
    and es: "distinct es" "set es \<subseteq> set (edges_naming s start)" "\<forall>e \<in> set es. snap_item s (e_item e) \<noteq> None"
    and ks: "distinct ks" "\<forall>k \<in> set ks. start \<in> sn_names s k" and p: "p \<noteq> start"
  shows "\<exists>st'. takes uuid now st (move_ops actor start p es ks) st'
    \<and> mirrors st' (foldl snap_move s (map (edge_move start p) es @ map (input_move start p) ks))"
proof -
  have wf: "wf_snap s" and rows: "same_rows st s" and edges: "same_edges st s" and names: "same_names st s"
    using m by (simp_all add: mirrors_def)
  let ?s1 = "foldl snap_move s (map (edge_move start p) es)"
  let ?s2 = "foldl snap_move ?s1 (map (input_move start p) ks)"
  let ?js = "filter (\<lambda>k. k \<notin> e_item ` set es) ks"
  have pre: "\<forall>e \<in> set es. e \<in> set (sn_edges s) \<and> e_depends_on e = start \<and> snap_item s (e_item e) \<noteq> None"
    using es(2,3) by (auto simp: snap.naming_iff[OF wf])
  obtain st1 where st1: "takes uuid now st (map (\<lambda>e. repoint_op actor (Some (e_kind e)) (edge_move start p e)) es) st1"
    "same_rows st1 ?s1" "same_edges st1 ?s1" "renamed start p (e_item ` set es) st st1"
    using edges_take[OF wf rows edges renamed_refl p[symmetric] es(1) pre, where uuid = uuid and now = now and actor = actor]
    unfolding Un_empty_left by blast
  have "\<forall>k \<in> set ?js. k \<notin> e_item ` set es \<and> start \<in> st_names st k" using ks(2) start(2) by auto
  from inputs_take[OF st1(2-4) p[symmetric] distinct_filter[OF ks(1)] this]
  obtain st2 where st2: "takes uuid now st1 (map (\<lambda>k. repoint_op actor None (input_move start p k)) ?js) st2"
    "same_rows st2 ?s1" "same_edges st2 ?s1" "renamed start p (e_item ` set es \<union> set ?js) st st2" by blast
  have s1: "wf_snap ?s1" "snap_status ?s1 = snap_status s" "sn_names ?s1 = sn_names s"
    using edge_moves_snapshot[OF wf] by blast+
  note s2 = sn_names_moves[OF s1(1) ks(1), where old = start and new = p]
  have status: "snap_status ?s2 = snap_status s" using s2(3) s1(2) by simp
  have live: "live ?s2 = live s" "gone ?s2 = gone s" "live ?s1 = live s"
    using status s1(2) by (simp_all add: live_def gone_def fun_eq_iff)
  have "same_edges st2 ?s2" using st2(3) by (simp add: same_edges_def s2(2) live)
  moreover have "same_rows st2 ?s2" using st2(2) s2(4) by simp
  moreover have "same_names st2 ?s2"
    unfolding same_names_def
  proof (intro allI ballI)
    fix k x assume x: "x \<in> sn_names ?s2 k"
    have k: "sn_names ?s2 k = (if k \<in> set ks then rename start p ` sn_names s k else sn_names s k)"
      using s2(5) s1(3) by simp
    define T where "T = e_item ` set es \<union> set ?js"
    have at_k: "if k \<in> T then rename start p ` st_names st k \<subseteq> st_names st2 k else st_names st2 k = st_names st k"
      using st2(4) unfolding renamed_def T_def by (rule spec)
    have ren: "y \<in> st_names st k \<Longrightarrow> rename start p y \<in> st_names st2 k \<or> k \<notin> T \<and> y \<in> st_names st2 k" for y
      using at_k by (cases "k \<in> T") (simp_all add: image_subset_iff)
    have kept: "y \<in> sn_names s k \<Longrightarrow> y \<in> st_names st k \<or> gone s y" for y using names by (simp add: same_names_def)
    show "x \<in> st_names st2 k \<or> gone ?s2 x"
    proof (cases "k \<in> set ks")
      case True
      then obtain y where y: "y \<in> sn_names s k" "x = rename start p y" using x k by auto
      have "k \<in> T" using True by (auto simp: T_def)
      then show ?thesis using y ren[of y] kept[OF y(1)] start live by (cases "y = start") (auto simp: rename_def)
    next
      case False
      then have y: "x \<in> sn_names s k" using x k by simp
      then show ?thesis using ren[of x] kept[OF y] start(1) live by (cases "x = start") (auto simp: rename_def)
    qed
  qed
  ultimately have "mirrors st2 ?s2" by (simp add: mirrors_def s2(1))
  then show ?thesis using takes_append[OF st1(1) st2(1)] by (auto simp: move_ops_def)
qed

lemma push_edge_moves:
  "\<forall>e \<in> set es. e_depends_on e = start \<Longrightarrow>
   foldl (push_repoint_op actor) b (map (edge_move start p) es)
     = b\<lparr>bt_ops := bt_ops b @ map (\<lambda>e. repoint_op actor (Some (e_kind e)) (edge_move start p e)) es,
         bt_moved_inputs := (\<lambda>e. (e_item e, start, p)) ` set es \<union> bt_moved_inputs b\<rparr>"
  by (induction es arbitrary: b) (simp_all add: push_repoint_op_def insert_commute)

lemma push_input_moves:
  "foldl (push_repoint_op actor) b (map (input_move start p) ks)
     = b\<lparr>bt_ops := bt_ops b @ map (\<lambda>k. repoint_op actor None (input_move start p k))
           (filter (\<lambda>k. (k, start, p) \<notin> bt_moved_inputs b) ks)\<rparr>"
  by (induction ks arbitrary: b) (simp_all add: push_repoint_op_def)

section \<open>What a batch carries\<close>

text \<open>
  The store takes the queued operations and ends up mirrored by the batch's snapshot; and the edges
  that took their inputs along led to items that have closed.
\<close>

definition carried :: "(nat \<Rightarrow> string) \<Rightarrow> timestamp \<Rightarrow> Store \<Rightarrow> Batch \<Rightarrow> bool" where
  "carried uuid now st0 b \<longleftrightarrow>
     (\<exists>st. takes uuid now st0 (bt_ops b) st \<and> mirrors st (bt_snap b))
     \<and> (\<forall>(k, old, new) \<in> bt_moved_inputs b. gone (bt_snap b) old)"

lemma carriedE:
  assumes "carried uuid now st0 b"
  obtains st where "takes uuid now st0 (bt_ops b) st" "mirrors st (bt_snap b)"
    "\<And>k old new. (k, old, new) \<in> bt_moved_inputs b \<Longrightarrow> gone (bt_snap b) old"
  using assms by (fastforce simp: carried_def)

lemma carriedI:
  "takes uuid now st0 (bt_ops b) st \<Longrightarrow> mirrors st (bt_snap b)
   \<Longrightarrow> (\<And>k old new. (k, old, new) \<in> bt_moved_inputs b \<Longrightarrow> gone (bt_snap b) old) \<Longrightarrow> carried uuid now st0 b"
  by (fastforce simp: carried_def)

lemma carried_cong:
  "carried uuid now st0 b \<Longrightarrow> bt_ops b' = bt_ops b \<Longrightarrow> bt_snap b' = bt_snap b \<Longrightarrow> bt_moved_inputs b' = bt_moved_inputs b
   \<Longrightarrow> carried uuid now st0 b'"
  by (simp add: carried_def)

lemma carried_wf: "carried uuid now st0 b \<Longrightarrow> wf_snap (bt_snap b)"
  by (auto simp: carried_def mirrors_def)

lemma push_effects_simps [simp]:
  "bt_snap (push_effects b fx actor kind) = bt_snap b" "bt_now (push_effects b fx actor kind) = bt_now b"
proof -
  have "bt_snap (foldl (push_repoint_op actor) b rs) = bt_snap b \<and> bt_now (foldl (push_repoint_op actor) b rs) = bt_now b" for b rs
    by (induction rs arbitrary: b) (simp_all add: push_repoint_op_def Let_def split: Link.split)
  then show "bt_snap (push_effects b fx actor kind) = bt_snap b" "bt_now (push_effects b fx actor kind) = bt_now b"
    by (simp_all add: push_effects_def Let_def)
qed

lemma push_effects_plain:
  assumes "ef_repoints fx = []" "ef_dropped_edges fx = []"
  shows "bt_ops (push_effects b fx actor kind) = bt_ops b @ map (transition_op actor kind) (ef_transitions fx)"
    "bt_moved_inputs (push_effects b fx actor kind) = bt_moved_inputs b"
  using assms by (simp_all add: push_effects_def Let_def)

lemma push_effects_moves:
  assumes "ef_repoints fx = map (edge_move start p) es @ map (input_move start p) ks" "ef_dropped_edges fx = []"
    "\<forall>e \<in> set es. e_depends_on e = start" "\<forall>k p. (k, start, p) \<notin> bt_moved_inputs b"
  shows "bt_ops (push_effects b fx actor kind)
      = bt_ops b @ map (transition_op actor kind) (ef_transitions fx) @ move_ops actor start p es ks"
    "bt_moved_inputs (push_effects b fx actor kind) = (\<lambda>e. (e_item e, start, p)) ` set es \<union> bt_moved_inputs b"
proof -
  have "filter (\<lambda>k. (k, start, p) \<notin> (\<lambda>e. (e_item e, start, p)) ` set es \<union> bt_moved_inputs b) ks
      = filter (\<lambda>k. k \<notin> e_item ` set es) ks"
    using assms(4) by (intro filter_cong) auto
  then show "bt_ops (push_effects b fx actor kind)
      = bt_ops b @ map (transition_op actor kind) (ef_transitions fx) @ move_ops actor start p es ks"
    "bt_moved_inputs (push_effects b fx actor kind) = (\<lambda>e. (e_item e, start, p)) ` set es \<union> bt_moved_inputs b"
    using assms(1,2)
    by (simp_all add: push_effects_def Let_def push_edge_moves[OF assms(3)] push_input_moves move_ops_def)
qed

lemma list_all2_writes: "list_all2 writes ts (map (transition_op actor kind) ts)"
  by (induction ts) simp_all

text \<open>Writing and applying the effects of one engine call.\<close>

lemma effects_carried:
  assumes taken: "takes uuid now st0 (bt_ops b) st" and m: "mirrors st (bt_snap b)"
    and keys: "\<And>k old new. (k, old, new) \<in> bt_moved_inputs b \<Longrightarrow> gone (bt_snap b) old"
    and log: "valid_log (snap_status (bt_snap b)) (ef_transitions fx)" and dropped: "ef_dropped_edges fx = []"
    and moves: "plan_b_moves (bt_snap b) start (ef_repoints fx)"
    and start: "ef_repoints fx \<noteq> [] \<Longrightarrow> gone (bt_snap b) start"
      "\<And>k. ef_repoints fx \<noteq> [] \<Longrightarrow> start \<in> sn_names (bt_snap b) k \<Longrightarrow> start \<in> st_names st k"
      "\<And>k new. ef_repoints fx \<noteq> [] \<Longrightarrow> (k, start, new) \<notin> bt_moved_inputs b"
  shows "carried uuid now st0 ((push_effects b fx actor kind)\<lparr>bt_snap := snap_apply (bt_snap b) fx (bt_now b)\<rparr>)"
proof -
  let ?s = "bt_snap b" and ?ts = "ef_transitions fx" and ?b = "push_effects b fx actor kind"
  let ?s1 = "foldl (snap_write (bt_now b)) ?s ?ts"
  have wf: "wf_snap ?s" using m by (simp add: mirrors_def)
  obtain st1 where st1: "takes uuid now st (map (transition_op actor kind) ?ts) st1" "mirrors st1 ?s1" "st_names st1 = st_names st"
    using transitions_mirror[OF m log list_all2_writes] by blast
  note s1 = snap_writes_facts[OF wf log, of "bt_now b"]
  have gone1: "gone ?s k \<Longrightarrow> gone ?s1 k" for k using gone_run[OF log s1(2)] .
  show ?thesis
  proof (cases "ef_repoints fx = []")
    case True
    then have "snap_apply ?s fx (bt_now b) = ?s1" by (simp add: snap_apply_parts dropped)
    with st1 taken keys gone1 show ?thesis
      by (intro carriedI[of uuid now st0 _ st1]) (auto simp: push_effects_plain[OF True dropped] intro: takes_append)
  next
    case False
    obtain p es ks where rs: "ef_repoints fx = map (edge_move start p) es @ map (input_move start p) ks" and p: "p \<noteq> start"
      and es: "distinct es" "set es \<subseteq> set (edges_naming ?s start)" "\<forall>e \<in> set es. snap_item ?s (e_item e) \<noteq> None"
      and ks: "distinct ks" "\<forall>k \<in> set ks. \<exists>i. snap_item ?s k = Some i \<and> start \<in> set (wi_inputs_from i)"
      using moves False unfolding plan_b_moves_def by blast
    have es1: "set es \<subseteq> set (edges_naming ?s1 start)" "\<forall>e \<in> set es. snap_item ?s1 (e_item e) \<noteq> None"
      using es s1(3,5) wf s1(1) by (auto simp: snap.naming_iff)
    have "\<forall>k \<in> set ks. start \<in> sn_names ?s k" using ks(2) by (fastforce simp: sn_names_def)
    then have ks1: "\<forall>k \<in> set ks. start \<in> sn_names ?s1 k" by (simp add: s1(4))
    have kept: "\<forall>k. start \<in> sn_names ?s1 k \<longrightarrow> start \<in> st_names st1 k"
      using start(2)[OF False] by (simp add: s1(4) st1(3))
    obtain st2 where st2: "takes uuid now st1 (move_ops actor start p es ks) st2"
      "mirrors st2 (foldl snap_move ?s1 (map (edge_move start p) es @ map (input_move start p) ks))"
      using moves_mirror[OF st1(2) gone1[OF start(1)[OF False]] kept es(1) es1 ks(1) ks1 p] by blast
    have deps: "\<forall>e \<in> set es. e_depends_on e = start" using es(2) wf by (auto simp: snap.naming_iff)
    have fresh: "\<forall>k p. (k, start, p) \<notin> bt_moved_inputs b" using start(3)[OF False] by blast
    note pushed = push_effects_moves[OF rs dropped deps fresh, of actor kind]
    have app: "snap_apply ?s fx (bt_now b) = foldl snap_move ?s1 (map (edge_move start p) es @ map (input_move start p) ks)"
      by (simp add: snap_apply_parts dropped rs)
    have moved: "snap_status (foldl snap_move s' rs') = snap_status s'" if "wf_snap s'" for s' rs'
      using that by (induction rs' arbitrary: s') (simp_all add: fun_eq_iff wf_repoint_row)
    have gone2: "gone (snap_apply ?s fx (bt_now b)) = gone ?s1"
      unfolding app by (simp add: gone_def[abs_def] moved[OF s1(1)] del: foldl_append)
    show ?thesis
    proof (rule carriedI[of uuid now st0 _ st2])
      show "takes uuid now st0 (bt_ops (?b\<lparr>bt_snap := snap_apply ?s fx (bt_now b)\<rparr>)) st2"
        using takes_append[OF taken takes_append[OF st1(1) st2(1)]] by (simp add: pushed)
      show "mirrors st2 (bt_snap (?b\<lparr>bt_snap := snap_apply ?s fx (bt_now b)\<rparr>))" using st2(2) app by simp
      show "gone (bt_snap (?b\<lparr>bt_snap := snap_apply ?s fx (bt_now b)\<rparr>)) old"
        if "(k, old, new) \<in> bt_moved_inputs (?b\<lparr>bt_snap := snap_apply ?s fx (bt_now b)\<rparr>)" for k old new
        using that gone1 keys start(1)[OF False] by (auto simp: pushed gone2)
    qed
  qed
qed

end
