(* ===== verification/Commit.thy ===== *)
theory Commit
  imports Mirror "HOL-Library.Multiset"
begin

text \<open>
  The decisions of a batch as a step relation, and the theorem that joins the controller's graph engine
  to its store: whatever sequence of decisions a batch makes on a loaded snapshot, the transaction it
  queued is taken by the store it was loaded cur, in full, and the store that leaves is the one the
  last decision was made on.
\<close>

section \<open>The other engine calls\<close>

lemma settle_shape:
  assumes "wf_snap s"
  shows "valid_log (snap_status s) (ef_transitions (settle s changed now))"
    "ef_repoints (settle s changed now) = []" "ef_dropped_edges (settle s changed now) = []"
proof -
  have "logged s (settle_run s changed now)" unfolding settle_run_def
    by (rule log.settle_into_keeps) (simp_all add: assms logged_start)
  then show "valid_log (snap_status s) (ef_transitions (settle s changed now))"
    by (simp add: settle_def logged_def)
  have "unmoved (settle_run s changed now)" unfolding settle_run_def
    by (rule settled.settle_into_keeps) (simp_all add: assms unmoved_def Effects_default_def)
  then show "ef_repoints (settle s changed now) = []" "ef_dropped_edges (settle s changed now) = []"
    by (simp_all add: settle_def unmoved_def)
qed

lemma cancel_subtree_shape:
  assumes wf: "wf_snap s"
  shows "valid_log (snap_status s) (ef_transitions (cancel_subtree s parent reason origin now))"
    "ef_repoints (cancel_subtree s parent reason origin now) = []"
    "ef_dropped_edges (cancel_subtree s parent reason origin now) = []"
proof -
  have "logged s (cancel_subtree_run s parent reason origin now) \<and> unmoved (cancel_subtree_run s parent reason origin now)"
  proof (cases "\<exists>cur. snap_status s parent = Some cur \<and> \<not> is_closed cur \<and> cur \<noteq> Verifying")
    case False
    then show ?thesis using logged_start[OF wf]
      by (auto simp: cancel_subtree_run_def unmoved_def Effects_default_def logged_def Let_def split: option.split)
  next
    case True
    then obtain cur where cur: "snap_status s parent = Some cur" "\<not> is_closed cur" "cur \<noteq> Verifying" by blast
    let ?o = "other_than origin parent"
    let ?work = "set_status s parent (Cancelled reason) ?o now"
    define t where "t = \<lparr>tr_item = parent, tr_from = cur, tr_to = Cancelled reason,
      tr_kind = (if ?o \<noteq> None then EvCascade else EvTransition),
      tr_reason = Some (''cancelled ('' @ CancelReason_as_str reason @ '')''), tr_upstream = ?o, tr_origin = ?o\<rparr>"
    define out2 where "out2 = (let out1 = push_transition t Effects_default
      in if holds_lease s parent cur then out1\<lparr>ef_revoke := push_unique (ef_revoke out1) parent\<rparr> else out1)"
    have run: "cancel_subtree_run s parent reason origin now = run parent origin now (?work, out2)"
      using cur by (simp add: cancel_subtree_run_def out2_def t_def Let_def)
    have "logged s (?work, push_transition t Effects_default)"
      by (rule logged_first[OF wf cur(1,2), where t = t]) (simp_all add: t_def Effects_default_def)
    then have "logged s (?work, out2)" by (simp add: out2_def Let_def logged_def)
    moreover have "unmoved (?work, out2)" by (simp add: out2_def Let_def unmoved_def Effects_default_def)
    moreover have "snap_status ?work parent \<noteq> Some Failed" using snap_status_write[OF wf cur(1)] by simp
    ultimately show ?thesis unfolding run
      using log.run_keeps run_unmoved[OF wf_set_status[OF wf]] by blast
  qed
  then show "valid_log (snap_status s) (ef_transitions (cancel_subtree s parent reason origin now))"
    "ef_repoints (cancel_subtree s parent reason origin now) = []"
    "ef_dropped_edges (cancel_subtree s parent reason origin now) = []"
    by (simp_all add: cancel_subtree_def logged_def unmoved_def)
qed

section \<open>Each decision\<close>

lemma plain_carried:
  assumes "carried uuid now st0 b" "valid_log (snap_status (bt_snap b)) (ef_transitions fx)"
    "ef_repoints fx = []" "ef_dropped_edges fx = []"
  shows "carried uuid now st0 ((push_effects b fx actor kind)\<lparr>bt_snap := snap_apply (bt_snap b) fx (bt_now b)\<rparr>)"
proof -
  obtain st where st: "takes uuid now st0 (bt_ops b) st" "mirrors st (bt_snap b)"
    "\<And>k old new. (k, old, new) \<in> bt_moved_inputs b \<Longrightarrow> gone (bt_snap b) old"
    using assms(1) by (rule carriedE) (blast intro: that)
  show ?thesis
    using effects_carried[OF st assms(2,4), where start = "[]"] assms(3) by (simp add: plan_b_moves_def)
qed

text \<open>The item's own transition: what it leaves, and what is known of the item then.\<close>

lemma own_carried:
  assumes c: "carried uuid now st0 b"
  shows "carried uuid now st0 (fst (own b item to actor reason kind))"
    and "snd (own b item to actor reason kind) \<Longrightarrow> is_closed to \<Longrightarrow>
      \<exists>st. takes uuid now st0 (bt_ops (fst (own b item to actor reason kind))) st
        \<and> mirrors st (bt_snap (fst (own b item to actor reason kind)))
        \<and> snap_status (bt_snap (fst (own b item to actor reason kind))) item = Some to
        \<and> (\<forall>k. item \<in> sn_names (bt_snap (fst (own b item to actor reason kind))) k \<longrightarrow> item \<in> st_names st k)
        \<and> (\<forall>k new. (k, item, new) \<notin> bt_moved_inputs (fst (own b item to actor reason kind)))"
proof -
  obtain st where st: "takes uuid now st0 (bt_ops b) st" "mirrors st (bt_snap b)"
    "\<And>k old new. (k, old, new) \<in> bt_moved_inputs b \<Longrightarrow> gone (bt_snap b) old"
    using c by (rule carriedE) (blast intro: that)
  let ?b = "fst (own b item to actor reason kind)"
  have "carried uuid now st0 ?b \<and> (snd (own b item to actor reason kind) \<longrightarrow> is_closed to \<longrightarrow>
      (\<exists>st. takes uuid now st0 (bt_ops ?b) st \<and> mirrors st (bt_snap ?b) \<and> snap_status (bt_snap ?b) item = Some to
        \<and> (\<forall>k. item \<in> sn_names (bt_snap ?b) k \<longrightarrow> item \<in> st_names st k)
        \<and> (\<forall>k new. (k, item, new) \<notin> bt_moved_inputs ?b)))"
  proof (cases "\<exists>cur. snap_status (bt_snap b) item = Some cur \<and> \<not> is_closed cur")
    case False
    then have "own b item to actor reason kind = (b, False)"
      by (auto simp: own_def batch_status_def split: option.split)
    with c show ?thesis by simp
  next
    case True
    then obtain cur where cur: "snap_status (bt_snap b) item = Some cur" "\<not> is_closed cur" by blast
    define k0 where "k0 = (case kind of Some k \<Rightarrow> k | None \<Rightarrow> ts_kind (TransitionSpec_new item to actor))"
    define spec where "spec = (TransitionSpec_new item to actor)\<lparr>ts_expected_from := Some cur, ts_reason := Some reason, ts_kind := k0\<rparr>"
    define t where "t = \<lparr>tr_item = item, tr_from = cur, tr_to = to, tr_kind = k0, tr_reason = Some reason,
      tr_upstream = None, tr_origin = None\<rparr>"
    have wf: "wf_snap (bt_snap b)" using st(2) by (simp add: mirrors_def)
    have op: "writes t (OpTransition spec)"
      by (simp add: writes_def spec_def t_def TransitionSpec_new_def)
    have own: "bt_ops ?b = bt_ops b @ [OpTransition spec]" "bt_snap ?b = snap_write (bt_now b) (bt_snap b) t"
      "bt_moved_inputs ?b = bt_moved_inputs b" "snd (own b item to actor reason kind)"
      using cur by (simp_all add: own_def batch_status_def Let_def spec_def t_def k0_def snap_apply_def Effects_default_def)
    obtain st1 where st1: "takes uuid now st [OpTransition spec] st1" "mirrors st1 (bt_snap ?b)" "st_names st1 = st_names st"
      using transition_mirrors[OF st(2) _ _ op, of uuid now "bt_now b"] cur own(2) by (auto simp: t_def)
    have status: "snap_status (bt_snap ?b) = (snap_status (bt_snap b))(item \<mapsto> to)"
      using snap_status_write[OF wf cur(1)] by (simp add: own(2) t_def)
    have item: "\<not> gone (bt_snap b) item" using cur by (auto simp: gone_def)
    have taken: "takes uuid now st0 (bt_ops ?b) st1" using takes_append[OF st(1) st1(1)] own(1) by simp
    have keys: "gone (bt_snap ?b) old" if "(k, old, new) \<in> bt_moved_inputs ?b" for k old new
      using st(3)[of k old new] that item status by (auto simp: own(3) gone_def)
    have "item \<in> st_names st1 k" if "item \<in> sn_names (bt_snap ?b) k" for k
      using that st(2) item st1(3) wf by (auto simp: own(2) mirrors_def same_names_def)
    moreover have "(k, item, new) \<notin> bt_moved_inputs ?b" for k new
      using st(3)[of k item new] item own(3) by auto
    ultimately show ?thesis
      using carriedI[OF taken st1(2) keys] taken st1(2) status by auto
  qed
  then show "carried uuid now st0 ?b"
    and "snd (own b item to actor reason kind) \<Longrightarrow> is_closed to \<Longrightarrow>
      \<exists>st. takes uuid now st0 (bt_ops ?b) st \<and> mirrors st (bt_snap ?b) \<and> snap_status (bt_snap ?b) item = Some to
        \<and> (\<forall>k. item \<in> sn_names (bt_snap ?b) k \<longrightarrow> item \<in> st_names st k)
        \<and> (\<forall>k new. (k, item, new) \<notin> bt_moved_inputs ?b)" by blast+
qed

lemma own_now [simp]: "bt_now (fst (own b item to actor reason kind)) = bt_now b"
  by (simp add: own_def Let_def split: option.split)

lemma batch_effects_alt: "batch_effects b fx actor = (push_effects b fx actor None)\<lparr>bt_snap := snap_apply (bt_snap b) fx (bt_now b)\<rparr>"
  by (simp add: batch_effects_def)

lemma cascade_carried:
  assumes "takes uuid now st0 (bt_ops b) st" "mirrors st (bt_snap b)"
    "\<And>k old new. (k, old, new) \<in> bt_moved_inputs b \<Longrightarrow> gone (bt_snap b) old"
    and item: "snap_status (bt_snap b) item = Some to" "is_closed to"
    and kept: "\<And>k. item \<in> sn_names (bt_snap b) k \<Longrightarrow> item \<in> st_names st k"
    and fresh: "\<And>k new. (k, item, new) \<notin> bt_moved_inputs b"
  shows "carried uuid now st0 (batch_effects b (cascade (bt_snap b) item to (bt_now b)) actor)"
  unfolding batch_effects_alt
proof (rule effects_carried[OF assms(1-3)])
  have wf: "wf_snap (bt_snap b)" using assms(2) by (simp add: mirrors_def)
  note shape = cascade_shape[OF wf item(1), of "bt_now b"]
  show "valid_log (snap_status (bt_snap b)) (ef_transitions (cascade (bt_snap b) item to (bt_now b)))" by (rule shape)
  show "ef_dropped_edges (cascade (bt_snap b) item to (bt_now b)) = []" by (rule shape)
  show "plan_b_moves (bt_snap b) item (ef_repoints (cascade (bt_snap b) item to (bt_now b)))" by (rule shape)
  show "gone (bt_snap b) item" using item by (simp add: gone_def)
qed (use kept fresh in auto)

lemma close_carried:
  assumes c: "carried uuid now st0 b"
  shows "carried uuid now st0 (fst (batch_close b item to actor reason))"
proof -
  obtain b1 moved where b1: "own b item to actor reason None = (b1, moved)" by (cases "own b item to actor reason None")
  have c1: "carried uuid now st0 b1" using own_carried(1)[OF c, of item to actor reason None] b1 by simp
  show ?thesis
  proof (cases "moved \<and> is_closed to")
    case False
    with c1 b1 show ?thesis by (auto simp: batch_close_def)
  next
    case True
    then obtain st where st: "takes uuid now st0 (bt_ops b1) st" "mirrors st (bt_snap b1)"
      "snap_status (bt_snap b1) item = Some to" "\<forall>k. item \<in> sn_names (bt_snap b1) k \<longrightarrow> item \<in> st_names st k"
      "\<forall>k new. (k, item, new) \<notin> bt_moved_inputs b1"
      using own_carried(2)[OF c, of item to actor reason None] b1 by auto
    have "carried uuid now st0 (batch_effects b1 (cascade (bt_snap b1) item to (bt_now b1)) ''controller'')"
      using c1 True st(4,5) by (intro cascade_carried[OF st(1,2) _ st(3)]) (auto simp: carried_def)
    with True b1 show ?thesis by (simp add: batch_close_def Let_def)
  qed
qed

lemma cancel_unneeded_carried:
  assumes c: "carried uuid now st0 b"
  shows "carried uuid now st0 (fst (cancel_unneeded b item origin))"
proof (cases "\<exists>cur. snap_status (bt_snap b) item = Some cur \<and> \<not> is_closed cur")
  case False
  with c show ?thesis by (auto simp: cancel_unneeded_def batch_status_def split: option.split)
next
  case True
  then obtain cur where cur: "snap_status (bt_snap b) item = Some cur" "\<not> is_closed cur" by blast
  define t where "t = \<lparr>tr_item = item, tr_from = cur, tr_to = Cancelled CrCascade, tr_kind = EvCascade,
    tr_reason = Some ''no open item needs this capability any more'', tr_upstream = Some origin, tr_origin = Some origin\<rparr>"
  define b1 where "b1 = batch_effects b (Effects_default\<lparr>ef_transitions := [t]\<rparr>) ''controller''"
  have wf: "wf_snap (bt_snap b)" using c by (rule carried_wf)
  have c1: "carried uuid now st0 b1" unfolding b1_def batch_effects_alt
    using cur by (intro plain_carried[OF c]) (simp_all add: t_def Effects_default_def)
  have b1: "bt_snap b1 = snap_write (bt_now b) (bt_snap b) t" "bt_now b1 = bt_now b"
    by (simp_all add: b1_def batch_effects_alt snap_apply_def Effects_default_def)
  have wf1: "wf_snap (bt_snap b1)" using c1 by (rule carried_wf)
  have item: "snap_status (bt_snap b1) item = Some (Cancelled CrCascade)"
    using snap_status_write[OF wf cur(1)] by (simp add: b1 t_def)
  have "carried uuid now st0 (batch_effects b1 (cascade (bt_snap b1) item (Cancelled CrCascade) (bt_now b1)) ''controller'')"
    unfolding batch_effects_alt
    using cascade_shape[OF wf1 item] cascade_unmoved[OF wf1 item] by (intro plain_carried[OF c1]) simp_all
  then show ?thesis
    using cur by (simp add: cancel_unneeded_def batch_status_def Let_def b1_def t_def)
qed

lemma cancel_tree_carried:
  assumes c: "carried uuid now st0 b"
  shows "carried uuid now st0 (fst (cancel_tree b item actor reason))"
proof -
  obtain st where st: "takes uuid now st0 (bt_ops b) st" "mirrors st (bt_snap b)"
    "\<And>k old new. (k, old, new) \<in> bt_moved_inputs b \<Longrightarrow> gone (bt_snap b) old"
    using c by (rule carriedE) (blast intro: that)
  have wf: "wf_snap (bt_snap b)" using c by (rule carried_wf)
  let ?fx = "cancel_subtree (bt_snap b) item CrRequested item (bt_now b)"
  note shape = cancel_subtree_shape[OF wf, of item CrRequested item "bt_now b"]
  obtain ours rest where split: "split_own item reason ?fx = (ours, rest)" by (cases "split_own item reason ?fx")
  have plain: "ef_repoints ours = []" "ef_dropped_edges ours = []" "ef_repoints rest = []" "ef_dropped_edges rest = []"
    using split shape(2,3) by (auto simp: split_own_def Effects_default_def split: list.splits if_splits)
  let ?ops = "map (transition_op actor None) (ef_transitions ours) @ map (transition_op ''controller'' None) (ef_transitions rest)"
  have "writes t (transition_op a k (case r of None \<Rightarrow> t | Some x \<Rightarrow> t\<lparr>tr_reason := Some x\<rparr>))" for t a k r
    by (cases r) (simp_all add: writes_def transition_op_def)
  then have ops: "list_all2 writes (ef_transitions ?fx) ?ops"
    using split by (auto simp: split_own_def Effects_default_def list_all2_writes split: list.splits if_splits)
  obtain st1 where st1: "takes uuid now st ?ops st1"
    "mirrors st1 (foldl (snap_write (bt_now b)) (bt_snap b) (ef_transitions ?fx))"
    using transitions_mirror[OF st(2) shape(1) ops] by blast
  have tree: "bt_ops (fst (cancel_tree b item actor reason)) = bt_ops b @ ?ops"
    "bt_snap (fst (cancel_tree b item actor reason)) = foldl (snap_write (bt_now b)) (bt_snap b) (ef_transitions ?fx)"
    "bt_moved_inputs (fst (cancel_tree b item actor reason)) = bt_moved_inputs b"
    using split plain shape(2,3) by (simp_all add: cancel_tree_def Let_def push_effects_plain snap_apply_parts)
  show ?thesis
  proof (rule carriedI[of uuid now st0 _ st1])
    show "takes uuid now st0 (bt_ops (fst (cancel_tree b item actor reason))) st1"
      using takes_append[OF st(1) st1(1)] by (simp add: tree)
    show "mirrors st1 (bt_snap (fst (cancel_tree b item actor reason)))" using st1(2) by (simp add: tree)
    show "gone (bt_snap (fst (cancel_tree b item actor reason))) old"
      if "(k, old, new) \<in> bt_moved_inputs (fst (cancel_tree b item actor reason))" for k old new
      using gone_run[OF shape(1) snap_writes_facts(2)[OF wf shape(1)]] st(3)[of k old new] that by (simp add: tree)
  qed
qed

lemma move_carried:
  assumes "carried uuid now st0 b"
  shows "carried uuid now st0 (fst (move_to b item to actor reason))"
    and "carried uuid now st0 (fst (resume_to b item to reason))"
  using own_carried(1)[OF assms] by (simp_all add: move_to_def resume_to_def split: prod.split) (metis fst_conv)+

lemma notify_carried: "carried uuid now st0 b \<Longrightarrow> carried uuid now st0 (notify b item cause)"
  by (erule carried_cong) (simp_all add: notify_def)

lemma verify_parent_carried:
  assumes "carried uuid now st0 (fst bc)"
  shows "carried uuid now st0 (fst (verify_parent bc parent))"
proof -
  obtain b changed where bc: "bc = (b, changed)" by (cases bc)
  with assms have c: "carried uuid now st0 b" by simp
  show ?thesis
  proof (cases "parent_verdict (bt_snap b) parent")
    case (Inl why)
    then show ?thesis
      using notify_carried[OF move_carried(1)[OF c, of parent "Blocked VerificationFailed" "''controller''" why]]
      by (simp add: bc verify_parent_def split: prod.split) (metis fst_conv)
  next
    case (Inr report)
    then show ?thesis using close_carried[OF c, of parent Done "''controller''" report]
      by (simp add: bc verify_parent_def split: prod.split) (metis fst_conv)
  qed
qed

lemma settle_effects_carried:
  assumes c: "carried uuid now st0 b"
  shows "carried uuid now st0 (batch_effects b (settle (bt_snap b) changed (bt_now b)) actor)"
  unfolding batch_effects_alt by (rule plain_carried[OF c]) (rule settle_shape[OF carried_wf[OF c]])+

lemma settle_rounds_carried: "carried uuid now st0 b \<Longrightarrow> carried uuid now st0 (settle_rounds n b changed)"
proof (induction n arbitrary: b changed)
  case (Suc n)
  let ?b1 = "batch_effects b (settle (bt_snap b) changed (bt_now b)) ''controller''"
  have b1: "carried uuid now st0 ?b1" using Suc.prems by (rule settle_effects_carried)
  have "carried uuid now st0 (fst bc) \<Longrightarrow> carried uuid now st0 (fst (foldl verify_parent bc ps))" for bc ps
    by (induction ps arbitrary: bc) (simp_all add: verify_parent_carried)
  from this[of "(?b1, [])" "verifying_parents (bt_snap ?b1)"] b1
  have "carried uuid now st0 (fst (foldl verify_parent (?b1, []) (verifying_parents (bt_snap ?b1))))" by simp
  then show ?case using b1 Suc.IH by (auto simp: Let_def split: prod.split)
qed simp

text \<open>Notes, and statuses recorded again.\<close>

lemma mirrors_same:
  assumes "mirrors st s" "\<And>k. map_option bare (get_item st' k) = map_option bare (get_item st k)"
    "st_names st' = st_names st" "st_deps st' = st_deps st"
  shows "mirrors st' s"
  using assms by (simp add: mirrors_def same_rows_def same_edges_def same_names_def)

lemma write_carried:
  assumes c: "carried uuid now st0 b"
    and op: "\<And>st. mirrors st (bt_snap b) \<Longrightarrow> \<exists>st'. takes uuid now st [op] st' \<and> mirrors st' (bt_snap b)"
  shows "carried uuid now st0 (queue_op op b)"
proof -
  obtain st where st: "takes uuid now st0 (bt_ops b) st" "mirrors st (bt_snap b)" using c by (auto simp: carried_def)
  then obtain st' where "takes uuid now st [op] st'" "mirrors st' (bt_snap b)" using op by blast
  then show ?thesis using c takes_append[OF st(1)] by (fastforce simp: carried_def)
qed

lemma note_carried:
  assumes c: "carried uuid now st0 b" and item: "snap_item (bt_snap b) item \<noteq> None"
  shows "carried uuid now st0 (batch_note b item kind actor reason)"
  unfolding batch_note_def
proof (rule write_carried[OF c])
  fix st assume m: "mirrors st (bt_snap b)"
  define e where "e = \<lparr>we_item = item, we_at = bt_stamp b, we_kind = kind, we_from = None, we_to = None,
    we_actor = actor, we_reason = Some reason, we_upstream = None, we_origin = None, we_evidence_ref = None\<rparr>"
  obtain r where "get_item st item = Some r" using m item same_rows_item by (fastforce simp: mirrors_def)
  then have "takes uuid now st [OpNote e] (insert_event e st)"
    by (intro takes_one) (simp add: append_note_def e_def item_exists_def log_event_def)
  moreover have "mirrors (insert_event e st) (bt_snap b)"
    by (rule mirrors_same[OF m]) (simp_all add: st_names_def fun_eq_iff)
  ultimately show "\<exists>st'. takes uuid now st [OpNote \<lparr>we_item = item, we_at = bt_stamp b, we_kind = kind, we_from = None, we_to = None,
       we_actor = actor, we_reason = Some reason, we_upstream = None, we_origin = None,
       we_evidence_ref = None\<rparr>] st' \<and> mirrors st' (bt_snap b)" unfolding e_def by blast
qed

lemma rung_carried:
  assumes "carried uuid now st0 b" "snap_item (bt_snap b) item \<noteq> None"
  shows "carried uuid now st0 (fst (batch_rung to_json b item state event))"
  by (rule carried_cong[OF note_carried[OF assms]]) (simp_all add: batch_rung_def Let_def)

lemma reassert_carried:
  assumes c: "carried uuid now st0 b" and item: "live (bt_snap b) item"
  shows "carried uuid now st0 (reassert b item actor reason)"
proof -
  obtain row where row: "snap_item (bt_snap b) item = Some row" "\<not> is_closed (wi_status row)"
    using item by (auto simp: live_def snap_status_def)
  define spec where "spec = (TransitionSpec_new item (wi_status row) actor)
    \<lparr>ts_expected_from := Some (wi_status row), ts_reason := Some reason,
     ts_upstream := wi_status_origin row, ts_origin := wi_status_origin row\<rparr>"
  have spec: "ts_item spec = item" "ts_expected_from spec = Some (wi_status row)" "ts_to spec = wi_status row"
    "ts_origin spec = wi_status_origin row"
    by (simp_all add: spec_def TransitionSpec_new_def)
  have "carried uuid now st0 (queue_op (OpTransition spec) b)"
  proof (rule write_carried[OF c])
    fix st assume m: "mirrors st (bt_snap b)"
    then obtain r where r: "get_item st item = Some r" "bare r = bare row"
      using row(1) same_rows_item by (fastforce simp: mirrors_def)
    then have status: "wi_status r = wi_status row" "wi_status_origin r = wi_status_origin row" by (metis bare_status)+
    obtain st' where st': "takes uuid now st [OpTransition spec] st'"
      "\<And>j. get_item st' j = (if j = item then map_option (transition_row spec now) (get_item st j) else get_item st j)"
      "st_deps st' = st_deps st"
      using transition_takes[of st spec "wi_status row" uuid now] r(1) row(2) spec status(1) by (auto simp: status_of_def)
    have "bare (transition_row spec now r) = bare r"
      by (simp add: bare_def transition_row_def spec status[symmetric])
    then have "mirrors st' (bt_snap b)"
      using r(1) by (intro mirrors_same[OF m])
        (auto simp: st'(2,3) st_names_def fun_eq_iff transition_row_def)
    with st'(1) show "\<exists>st'. takes uuid now st [OpTransition spec] st' \<and> mirrors st' (bt_snap b)" by blast
  qed
  then show ?thesis by (simp add: reassert_def row(1) spec_def)
qed

section \<open>Loading\<close>

lemma released_rows:
  "\<exists>ys. fst (foldl (released_row st) (rows, known) xs) = rows @ ys
     \<and> list_all2 (\<lambda>x y. y = x \<or> y = x\<lparr>wi_held_by := None\<rparr>) xs ys"
proof (induction xs arbitrary: rows known)
  case (Cons x xs)
  have "\<exists>y known'. released_row st (rows, known) x = (rows @ [y], known') \<and> (y = x \<or> y = x\<lparr>wi_held_by := None\<rparr>)"
  proof (cases "wi_held_by x")
    case None
    then show ?thesis by (simp add: released_row_def)
  next
    case (Some question)
    obtain ok known1 where ok: "approved st known (wi_id x) question = (ok, known1)" by fastforce
    have "released_row st (rows, known) x
        = (if wi_status x = Blocked NeedsConsent \<or> is_closed (wi_status x) then (rows @ [x], known)
           else (rows @ [if ok then x\<lparr>wi_held_by := None\<rparr> else x], known1))"
      using Some ok by (simp add: released_row_def)
    then show ?thesis by (cases ok) auto
  qed
  then obtain y known' where step: "released_row st (rows, known) x = (rows @ [y], known')" "y = x \<or> y = x\<lparr>wi_held_by := None\<rparr>"
    by blast
  obtain ys where "fst (foldl (released_row st) (rows @ [y], known') xs) = (rows @ [y]) @ ys"
    "list_all2 (\<lambda>x y. y = x \<or> y = x\<lparr>wi_held_by := None\<rparr>) xs ys"
    using Cons.IH by blast
  with step show ?case by (intro exI[of _ "y # ys"]) simp
qed simp

lemma Snapshot_new_items:
  assumes "distinct (map wi_id items)"
  shows "sn_items (Snapshot_new items edges) = items"
proof -
  have "sn_items (foldl index_item s xs) = sn_items s @ xs"
    if "distinct (map wi_id (sn_items s) @ map wi_id xs)" "\<forall>k. map_of (sn_index s) k = position (\<lambda>i. wi_id i = k) (sn_items s)"
    for s :: Snapshot and xs
    using that
  proof (induction xs arbitrary: s)
    case (Cons x xs)
    have "wi_id x \<notin> wi_id ` set (sn_items s)" using Cons.prems(1) by auto
    then have none: "position (\<lambda>i. wi_id i = wi_id x) (sn_items s) = None" unfolding position_None by (metis imageI)
    then have one: "sn_items (index_item s x) = sn_items s @ [x]" using Cons.prems(2) by (simp add: index_item_def)
    have "\<forall>k. map_of (sn_index (index_item s x)) k = position (\<lambda>i. wi_id i = k) (sn_items (index_item s x))"
      using Cons.prems(2) none by (auto simp: index_item_def update_conv position_append split: option.split)
    with Cons.IH[of "index_item s x"] Cons.prems(1) one show ?case by simp
  qed simp
  from this[of Snapshot_default items] assms show ?thesis
    by (simp add: Snapshot_new_def Let_def Snapshot_default_def)
qed

lemma get_item_iff: "wf_store st \<Longrightarrow> get_item st k = Some r \<longleftrightarrow> r \<in> set (st_items st) \<and> wi_id r = k"
proof
  assume "get_item st k = Some r"
  then show "r \<in> set (st_items st) \<and> wi_id r = k" unfolding get_item_def by (drule_tac find_Some_mem) simp
next
  assume wf: "wf_store st" and r: "r \<in> set (st_items st) \<and> wi_id r = k"
  then have "inj_on wi_id (set (st_items st))" by (simp add: wf_store_def distinct_map)
  with r have "find (\<lambda>j. wi_id j = wi_id r) (st_items st) = Some r" by (intro find_inj) auto
  with r show "get_item st k = Some r" by (simp add: get_item_def)
qed

text \<open>The snapshot that \<open>load\<close> reads mirrors the store.\<close>

lemma load_mirrors:
  assumes wf: "wf_store st"
  shows "mirrors st (fst (load mcp credential st known))"
proof -
  let ?listed = "list_items (WorkFilter_default\<lparr>fl_include_closed := True\<rparr>) st"
  obtain items known1 where rel: "foldl (released_row st) ([], known) ?listed = (items, known1)" by fastforce
  then have items: "list_all2 (\<lambda>x y. y = x \<or> y = x\<lparr>wi_held_by := None\<rparr>) ?listed items"
    using released_rows[of st "[]" known ?listed] by auto
  have listed: "set ?listed = set (st_items st)" "distinct (map wi_id ?listed)"
  proof -
    have all: "filter (filter_matches (WorkFilter_default\<lparr>fl_include_closed := True\<rparr>)) (st_items st) = st_items st"
      by (simp add: filter_matches_def WorkFilter_default_def)
    show "set ?listed = set (st_items st)" by (simp add: list_items_def all)
    have "mset (map wi_id ?listed) = mset (map wi_id (st_items st))" by (simp add: list_items_def all)
    from mset_eq_imp_distinct_iff[OF this] wf show "distinct (map wi_id ?listed)" by (simp add: wf_store_def)
  qed
  obtain fired where load: "fst (load mcp credential st known) = with_fired (Snapshot_new items (edges_all_open st)) fired"
    using rel by (auto simp: load_def Let_def)
  let ?s = "Snapshot_new items (edges_all_open st)" and ?l = "fst (load mcp credential st known)"
  have ids: "map wi_id items = map wi_id ?listed"
    using items by (induction rule: list_all2_induct) auto
  have sn: "sn_items ?s = items" using listed(2) ids by (intro Snapshot_new_items) simp
  have wfl: "wf_snap ?l" unfolding load by (intro wf_with_fired wf_Snapshot_new)
  have lookup: "snap_item ?l k = Some i \<longleftrightarrow> i \<in> set items \<and> wi_id i = k" for k i
    using snap.lookup_Some_iff[OF wfl, of k i] by (simp add: load with_fired_def sn)
  have edges: "set (sn_edges ?l) = {e \<in> set (st_deps st). e_item e \<in> open_ids st \<or> e_depends_on e \<in> open_ids st}"
    by (simp add: load with_fired_def Snapshot_new_def Let_def edges_all_open_def set_foldl_push_unique)
  have row: "\<exists>i. snap_item ?l k = Some i \<and> (i = r \<or> i = r\<lparr>wi_held_by := None\<rparr>)" if r: "get_item st k = Some r" for k r
  proof -
    have "r \<in> set ?listed" "wi_id r = k" using r listed(1) by (simp_all add: get_item_iff[OF wf])
    then obtain n where n: "n < length ?listed" "?listed ! n = r" by (metis in_set_conv_nth)
    then have "items ! n \<in> set items" "items ! n = r \<or> items ! n = r\<lparr>wi_held_by := None\<rparr>"
      using list_all2_nthD[OF items n(1)] list_all2_lengthD[OF items] by simp_all
    then obtain i where "i \<in> set items" "i = r \<or> i = r\<lparr>wi_held_by := None\<rparr>" by blast
    with \<open>wi_id r = k\<close> show ?thesis unfolding lookup by auto
  qed
  have norow: "snap_item ?l k = None" if "get_item st k = None" for k
  proof (rule ccontr)
    assume "snap_item ?l k \<noteq> None"
    then have "k \<in> set (map wi_id items)" using lookup by force
    then have "k \<in> set (map wi_id ?listed)" unfolding ids .
    then obtain r where "r \<in> set (st_items st)" "wi_id r = k" using listed(1) by auto
    with that show False using get_item_iff[OF wf, of k r] by simp
  qed
  have rows: "same_rows st ?l"
    unfolding same_rows_def
  proof
    fix k show "map_option bare (get_item st k) = map_option bare (snap_item ?l k)"
      using row[of k] norow[of k] by (cases "get_item st k") (auto simp: bare_def)
  qed
  have "live ?l k \<longleftrightarrow> (\<exists>r. get_item st k = Some r \<and> \<not> is_closed (wi_status r))" for k
    using same_rows_status[OF rows, of k, symmetric] by (auto simp: live_def status_of_def)
  then have "live ?l k \<longleftrightarrow> k \<in> open_ids st" for k
    by (auto simp: open_ids_def get_item_iff[OF wf] image_iff)
  then have "same_edges st ?l" by (auto simp: same_edges_def edges)
  moreover have "sn_names ?l k = st_names st k" for k
    using row[of k] norow[of k] by (cases "get_item st k") (auto simp: sn_names_def st_names_def)
  then have "same_names st ?l" by (simp add: same_names_def)
  ultimately show ?thesis using rows wfl by (simp add: mirrors_def)
qed

section \<open>The decisions of one transaction\<close>

text \<open>
  What the controller does with a batch between loading it and writing it. A filing (\<open>batch_file\<close>) is
  not among the decisions: its accepted effects are the subject of the insertion theorems. A note and a
  rung are written on an item of the graph, a status is recorded again on an open one, and effects the
  controller puts together itself form a run of the status machine and re-point nothing.
\<close>

inductive decides :: "(RungEvent \<Rightarrow> string option) \<Rightarrow> Batch \<Rightarrow> Batch \<Rightarrow> bool" for to_json where
  dc_own: "decides to_json b (fst (own b item to actor reason kind))"
| dc_move: "decides to_json b (fst (move_to b item to actor reason))"
| dc_resume: "decides to_json b (fst (resume_to b item to reason))"
| dc_close: "decides to_json b (fst (batch_close b item to actor reason))"
| dc_unneeded: "decides to_json b (fst (cancel_unneeded b item origin))"
| dc_tree: "decides to_json b (fst (cancel_tree b item actor why))"
| dc_settle: "decides to_json b (batch_settle b changed)"
| dc_reassert: "live (bt_snap b) item \<Longrightarrow> decides to_json b (reassert b item actor reason)"
| dc_effects: "valid_log (snap_status (bt_snap b)) (ef_transitions fx) \<Longrightarrow> ef_repoints fx = [] \<Longrightarrow> ef_dropped_edges fx = []
    \<Longrightarrow> decides to_json b (batch_effects b fx actor)"
| dc_corrections: "valid_log (snap_status (bt_snap b)) (ef_transitions fx) \<Longrightarrow> ef_repoints fx = [] \<Longrightarrow> ef_dropped_edges fx = []
    \<Longrightarrow> decides to_json b (corrections b fx)"
| dc_note: "snap_item (bt_snap b) item \<noteq> None \<Longrightarrow> decides to_json b (batch_note b item evkind actor reason)"
| dc_rung: "snap_item (bt_snap b) item \<noteq> None \<Longrightarrow> decides to_json b (fst (batch_rung to_json b item state event))"
| dc_notify: "decides to_json b (notify b item cause)"
| dc_evidence: "decides to_json b (batch_evidence b item label_kind reference verified_by)"

lemma decides_carried:
  assumes "decides to_json b b'" "carried uuid now st0 b"
  shows "carried uuid now st0 b'"
  using assms
proof (induction rule: decides.induct)
  case (dc_own b item to actor reason kind)
  then show ?case by (rule own_carried)
next
  case (dc_move b item to actor reason)
  then show ?case by (rule move_carried)
next
  case (dc_resume b item to reason)
  then show ?case by (rule move_carried)
next
  case (dc_close b item to actor reason)
  then show ?case by (rule close_carried)
next
  case (dc_unneeded b item origin)
  then show ?case by (rule cancel_unneeded_carried)
next
  case (dc_tree b item actor why)
  then show ?case by (rule cancel_tree_carried)
next
  case (dc_settle b changed)
  then show ?case unfolding batch_settle_def by (rule settle_rounds_carried)
next
  case (dc_reassert b item actor reason)
  from dc_reassert(2,1) show ?case by (rule reassert_carried)
next
  case (dc_effects b fx actor)
  from dc_effects(4,1-3) show ?case unfolding batch_effects_alt by (rule plain_carried)
next
  case (dc_corrections b fx)
  from dc_corrections(4,1-3) show ?case unfolding corrections_def Let_def push_effects_simps by (rule plain_carried)
next
  case (dc_note b item evkind actor reason)
  from dc_note(2,1) show ?case by (rule note_carried)
next
  case (dc_rung b item state event)
  from dc_rung(2,1) show ?case by (rule rung_carried)
next
  case (dc_notify b item cause)
  then show ?case by (rule notify_carried)
next
  case (dc_evidence b item label_kind reference verified_by)
  then show ?case by (rule carried_cong) (simp_all add: batch_evidence_def)
qed

lemma decisions_carried:
  "(decides to_json)\<^sup>*\<^sup>* b b' \<Longrightarrow> carried uuid now st0 b \<Longrightarrow> carried uuid now st0 b'"
  by (induction rule: rtranclp_induct) (auto intro: decides_carried)

lemma batch_starts_carried: "wf_store st \<Longrightarrow> carried uuid now st (Batch_new (fst (load mcp credential st known)) clock stamp)"
  by (rule carriedI[of uuid now st _ st]) (simp_all add: Batch_new_def load_mirrors)

text \<open>C5: a batch of status decisions commits. Load the graph from a store whose tables are well formed and make
  any sequence of the decisions \<open>decides\<close> lists: own transitions, moves and resumptions, closes with their
  cascades and the re-points to a plan B those make, cancelled subtrees and capabilities, settling with the
  verification of parents, a reassertion of an open item, effects and corrections that only move statuses,
  notes and rungs on items of the graph, notices and evidence. Hand the queued operations to the store in
  one transaction: the store takes all of them, no operation is refused, and the tables it leaves are
  mirrored by the snapshot the last decision saw: the same rows (timestamps, question holds and inputs apart), the same edges on
  live items, and every input the snapshot names that is not closed. Filing (\<open>batch_file\<close>), effects put together
  outside the batch that re-point or drop edges, and operations the controller queues beside the batch's own
  methods are not among these decisions.\<close>

theorem batch_commits:
  assumes "wf_store st"
    and "(decides to_json)\<^sup>*\<^sup>* (Batch_new (fst (load mcp credential st known)) clock stamp) b"
  shows "\<exists>st' applied. work_apply uuid now (bt_ops b) st = Inr (st', applied) \<and> mirrors st' (bt_snap b)"
proof -
  have "carried uuid now st b" by (rule decisions_carried[OF assms(2) batch_starts_carried[OF assms(1)]])
  then obtain st' where "takes uuid now st (bt_ops b) st'" "mirrors st' (bt_snap b)" by (auto simp: carried_def)
  then show ?thesis unfolding work_apply_def takes_def by blast
qed

section \<open>A transaction\<close>

text \<open>
  A step fails: \<open>b\<close> blocks on it and reads its output, \<open>c\<close> is its plan B. The batch closes the step and
  settles; the edge and the input of \<open>b\<close> move to \<open>c\<close> with one re-point.
\<close>

definition demo_tables :: Store where
  "demo_tables = Store_empty\<lparr>
     st_items := [blank_item ''a'' None Running, (blank_item ''b'' None Queued)\<lparr>wi_inputs_from := [''a'']\<rparr>,
       blank_item ''c'' None Queued],
     st_deps := [\<lparr>e_item = ''b'', e_depends_on = ''a'', e_kind = EkBlocks\<rparr>,
       \<lparr>e_item = ''c'', e_depends_on = ''a'', e_kind = EkConditionalOnFailure\<rparr>]\<rparr>"

definition demo_batch :: Batch where
  "demo_batch =
     (let b = Batch_new (fst (load (\<lambda>_. False) (\<lambda>_. False) demo_tables [])) 5 5;
          (b1, changed) = batch_close b ''a'' Failed ''worker:w'' ''gave up''
      in batch_settle b1 changed)"

lemma demo_tables_wf: "wf_store demo_tables"
  by (simp add: wf_store_def demo_tables_def Store_empty_def item_exists_def get_item_def blank_item_def keys_ok_def)

lemma demo_decisions:
  "(decides to_json)\<^sup>*\<^sup>* (Batch_new (fst (load (\<lambda>_. False) (\<lambda>_. False) demo_tables [])) 5 5) demo_batch"
  unfolding demo_batch_def Let_def split_def
  by (meson dc_close dc_settle rtranclp.rtrancl_into_rtrancl rtranclp.rtrancl_refl)

lemma demo_ops:
  "length (bt_ops demo_batch) = 3"
  "bt_ops demo_batch ! 1 = OpRepoint \<lparr>rs_item = ''b'', rs_kind = Some EkBlocks, rs_old_upstream = ''a'',
     rs_new_upstream = ''c'', rs_origin = Some ''a'', rs_actor = ''controller''\<rparr>"
  by code_simp+

lemma batch_commits_witness:
  "(\<exists>st' applied. work_apply demo_uuid 9 (bt_ops demo_batch) demo_tables = Inr (st', applied) \<and> mirrors st' (bt_snap demo_batch))
   \<and> length (bt_ops demo_batch) = 3"
  using batch_commits[OF demo_tables_wf demo_decisions] demo_ops(1) by blast

end
