(* ===== verification/PlanModel.thy ===== *)
theory PlanModel
  imports Judgment "HOL-Library.Product_Lexorder"
begin

text \<open>
  The data of a project plan, crate \<^verbatim>\<open>rustykrab-projects\<close>: \<^verbatim>\<open>ids.rs\<close>, \<^verbatim>\<open>provenance.rs\<close>, \<^verbatim>\<open>model.rs\<close>,
  \<^verbatim>\<open>change_set.rs\<close>, \<^verbatim>\<open>error.rs\<close> and the commands and revisions of \<^verbatim>\<open>revision.rs\<close>.

  \<^item> A uuid is a 128-bit word: \<^verbatim>\<open>uuid::Uuid\<close> compares its bytes, most significant first, which is the order
    of the words. The identity of a revision is the text of a hash.
  \<^item> A \<^verbatim>\<open>BTreeMap\<close> is an association list whose keys ascend; \<open>bt_insert\<close>, \<open>bt_values\<close> and \<^const>\<open>map_of\<close> are
    its operations, and \<open>bt_ordered\<close> the representation invariant.
  \<^item> \<open>attempt\<close> is Rust's \<^verbatim>\<open>?\<close>, \<open>try_each\<close> a loop whose body ends in \<^verbatim>\<open>?\<close> and \<open>try_fold\<close> one that also
    carries state.
  \<^item> Where an error holds the printed form of an id or a time, the model holds the id or the time.
\<close>

section \<open>Control flow shared by the crate\<close>

definition attempt :: "'e + 'a \<Rightarrow> ('a \<Rightarrow> 'e + 'b) \<Rightarrow> 'e + 'b" where
  "attempt r f = (case r of Inl e \<Rightarrow> Inl e | Inr x \<Rightarrow> f x)"

definition some_or :: "'e \<Rightarrow> 'a option \<Rightarrow> 'e + 'a" where
  \<comment> \<open>\<^verbatim>\<open>Option::ok_or\<close>\<close>
  "some_or e x = (case x of None \<Rightarrow> Inl e | Some a \<Rightarrow> Inr a)"

fun try_each :: "('a \<Rightarrow> 'e + unit) \<Rightarrow> 'a list \<Rightarrow> 'e + unit" where
  "try_each f [] = Inr ()"
| "try_each f (x # xs) = attempt (f x) (\<lambda>_. try_each f xs)"

fun try_fold :: "('s \<Rightarrow> 'a \<Rightarrow> 'e + 's) \<Rightarrow> 's \<Rightarrow> 'a list \<Rightarrow> 'e + 's" where
  "try_fold f s [] = Inr s"
| "try_fold f s (x # xs) = attempt (f s x) (\<lambda>s1. try_fold f s1 xs)"

lemma attempt_simps [simp]: "attempt (Inl e) f = Inl e" "attempt (Inr x) f = f x"
  by (simp_all add: attempt_def)

lemma attempt_Inr_iff: "attempt r f = Inr y \<longleftrightarrow> (\<exists>x. r = Inr x \<and> f x = Inr y)"
  by (cases r) simp_all

lemma some_or_simps [simp]: "some_or e None = Inl e" "some_or e (Some a) = Inr a"
  by (simp_all add: some_or_def)

lemma some_or_Inr_iff [simp]: "some_or e x = Inr a \<longleftrightarrow> x = Some a"
  by (cases x) simp_all

lemma try_each_Inr_iff: "try_each f xs = Inr u \<longleftrightarrow> (\<forall>x \<in> set xs. f x = Inr ())"
  by (induction xs) (auto simp: attempt_Inr_iff)

lemma try_fold_append:
  "try_fold f s (xs @ ys) = attempt (try_fold f s xs) (\<lambda>s1. try_fold f s1 ys)"
proof (induction xs arbitrary: s)
  case (Cons x xs)
  then show ?case by (cases "f s x") simp_all
qed simp

lemma try_fold_keeps:
  assumes "try_fold f s xs = Inr t" "P s"
    and "\<And>s x t. f s x = Inr t \<Longrightarrow> x \<in> set xs \<Longrightarrow> P s \<Longrightarrow> P t"
  shows "P t"
  using assms
proof (induction xs arbitrary: s)
  case (Cons x xs)
  from Cons.prems(1) obtain s1 where s1: "f s x = Inr s1" "try_fold f s1 xs = Inr t"
    by (auto simp: attempt_Inr_iff)
  have "P s1" using Cons.prems(2,3) s1(1) by auto
  with s1(2) Cons.prems(3) show ?case by (intro Cons.IH) auto
qed simp

section \<open>Ordered maps\<close>

fun bt_insert :: "'k::linorder \<Rightarrow> 'v \<Rightarrow> ('k \<times> 'v) list \<Rightarrow> ('k \<times> 'v) list" where
  "bt_insert k v [] = [(k, v)]"
| "bt_insert k v ((l, w) # m) =
     (if k < l then (k, v) # (l, w) # m
      else if k = l then (k, v) # m
      else (l, w) # bt_insert k v m)"

definition bt_values :: "('k \<times> 'v) list \<Rightarrow> 'v list" where
  "bt_values m = map snd m"

definition bt_map :: "('v \<Rightarrow> 'v) \<Rightarrow> ('k \<times> 'v) list \<Rightarrow> ('k \<times> 'v) list" where
  \<comment> \<open>\<^verbatim>\<open>values_mut\<close>, every value rewritten in place\<close>
  "bt_map f m = map (\<lambda>(k, v). (k, f v)) m"

abbreviation bt_ordered :: "('k::linorder \<times> 'v) list \<Rightarrow> bool" where
  "bt_ordered m \<equiv> sorted_wrt (<) (map fst m)"

lemma map_of_bt_insert [simp]: "map_of (bt_insert k v m) = (map_of m)(k \<mapsto> v)"
  by (induction k v m rule: bt_insert.induct) (auto simp: fun_eq_iff)

lemma keys_bt_insert [simp]: "set (map fst (bt_insert k v m)) = insert k (set (map fst m))"
  by (induction k v m rule: bt_insert.induct) auto

lemma bt_ordered_insert [simp]: "bt_ordered m \<Longrightarrow> bt_ordered (bt_insert k v m)"
proof (induction k v m rule: bt_insert.induct)
  case (2 k v l w m)
  show ?case
  proof (cases "k < l \<or> k = l")
    case True
    with "2.prems" show ?thesis by force
  next
    case False
    then have "\<forall>x \<in> insert k (set (map fst m)). l < x" using "2.prems" by auto
    then have "\<forall>x \<in> set (map fst (bt_insert k v m)). l < x" unfolding keys_bt_insert .
    with 2 False show ?thesis by (simp del: keys_bt_insert)
  qed
qed simp

lemma map_of_bt_map [simp]: "map_of (bt_map f m) k = map_option f (map_of m k)"
  by (induction m) (auto simp: bt_map_def)

lemma keys_bt_map [simp]: "map fst (bt_map f m) = map fst m"
  by (induction m) (auto simp: bt_map_def)

lemma bt_ordered_distinct: "bt_ordered m \<Longrightarrow> distinct (map fst m)"
  using strict_sorted_iff by blast

lemma bt_values_iff: "bt_ordered m \<Longrightarrow> v \<in> set (bt_values m) \<longleftrightarrow> (\<exists>k. map_of m k = Some v)"
  using bt_ordered_distinct[of m] by (force simp: bt_values_def map_of_eq_Some_iff image_iff)

lemma bt_ordered_Nil: "bt_ordered []"
  by simp

section \<open>Identifiers\<close>

type_synonym uuid = "128 word"
type_synonym ProjectId = uuid
type_synonym NodeId = uuid
type_synonym EdgeId = uuid
type_synonym RevisionId = string

definition is_ascii_hex :: "char \<Rightarrow> bool" where
  "is_ascii_hex c =
     (let n = code_of c in (48 \<le> n \<and> n \<le> 57) \<or> (65 \<le> n \<and> n \<le> 70) \<or> (97 \<le> n \<and> n \<le> 102))"

definition RevisionId_from_str :: "string \<Rightarrow> RevisionId option" where
  "RevisionId_from_str value =
     (if length value \<noteq> 64 \<or> \<not> list_all is_ascii_hex value then None
      else Some (to_ascii_lowercase value))"

section \<open>Provenance\<close>

record MessageRef =
  msg_conversation_id :: string
  msg_message_id :: string

datatype ProvenanceClassification =
    PvUserStated | PvRepositoryObserved | PvExperimentObserved | PvResearchFinding | PvAgentInferred
  | PvAgentProposed | PvSystemObserved | PvCustom string

datatype ProvenanceSource =
    PsConversationMessage (src_conversation_id: string) (src_message_id: string)
  | PsRepository (src_repository: string) (src_revision: string) (src_paths: "string list")
      (src_evidence_hash: string)
  | PsExperiment (src_trace_id: string) (src_experiment_hash: "string option")
  | PsResearch (src_uri: string) (src_research_hash: "string option")
  | PsDeliveryEvidence (src_delivery_id: string) (src_evidence_id: string)
  | PsManual (src_reference: string)
  | PsCustom (src_source_type: string) (src_custom_reference: string)

type_synonym Confidence = "16 word"

record Freshness =
  fr_observed_at :: timestamp
  fr_valid_until :: "timestamp option"
  fr_policy :: "string option"

record Provenance =
  pv_classification :: ProvenanceClassification
  pv_source :: ProvenanceSource
  pv_recorded_at :: timestamp
  pv_confidence :: "Confidence option"
  pv_freshness :: "Freshness option"

section \<open>Nodes, their data and edges\<close>

datatype ProjectStatus = PjActive | PjPaused | PjCompleted | PjArchived | PjCustom string

record Project =
  pj_id :: ProjectId
  pj_repository_id :: "string option"
  pj_title :: string
  pj_status :: ProjectStatus
  pj_judgment_policy :: JudgmentPolicy
  pj_canonical_conversation_id :: "string option"
  pj_created_at :: timestamp
  pj_updated_at :: timestamp

datatype NodeKind =
    NkIntent | NkOutcome | NkRequirement | NkConstraint | NkNonGoal | NkDecision | NkOption
  | NkAssumption | NkQuestion | NkRisk | NkRepositoryObservation | NkResearchFinding | NkWorkstream
  | NkMilestone | NkAcceptanceBehavior | NkExecutionSlice | NkCustom string

fun NodeKind_as_str :: "NodeKind \<Rightarrow> string" where
  "NodeKind_as_str NkIntent = ''intent''"
| "NodeKind_as_str NkOutcome = ''outcome''"
| "NodeKind_as_str NkRequirement = ''requirement''"
| "NodeKind_as_str NkConstraint = ''constraint''"
| "NodeKind_as_str NkNonGoal = ''non_goal''"
| "NodeKind_as_str NkDecision = ''decision''"
| "NodeKind_as_str NkOption = ''option''"
| "NodeKind_as_str NkAssumption = ''assumption''"
| "NodeKind_as_str NkQuestion = ''question''"
| "NodeKind_as_str NkRisk = ''risk''"
| "NodeKind_as_str NkRepositoryObservation = ''repository_observation''"
| "NodeKind_as_str NkResearchFinding = ''research_finding''"
| "NodeKind_as_str NkWorkstream = ''workstream''"
| "NodeKind_as_str NkMilestone = ''milestone''"
| "NodeKind_as_str NkAcceptanceBehavior = ''acceptance_behavior''"
| "NodeKind_as_str NkExecutionSlice = ''execution_slice''"
| "NodeKind_as_str (NkCustom value) = value"

datatype DecisionStatus =
    DsProposed | DsAccepted | DsDelegated | DsRejected | DsDeferred | DsSuperseded | DsCustom string

datatype DecisionMaker = DmUser | DmAgent | DmSystem | DmCustom string

record DecisionState =
  dst_status :: DecisionStatus
  dst_selected_option :: "NodeId option"
  dst_rationale :: "string option"
  dst_authority_basis :: "string option"
  dst_reversible :: bool
  dst_decided_by :: "DecisionMaker option"

datatype QuestionStatus_proj =
    PqOpen | PqResolved | PqDeferred | PqDelegated | PqObsolete | PqCustom string

datatype DecisionOwner = DoUser | DoAgent | DoShared | DoExternal string

record QuestionState =
  qst_status :: QuestionStatus_proj
  qst_impact :: QuestionImpact
  qst_decision_owner :: DecisionOwner
  qst_blocking_scope :: "NodeId option"
  qst_default_action :: "string option"
  qst_due_milestone :: "NodeId option"
  qst_resolution :: "string option"

datatype AssumptionStatus =
    AsUnvalidated | AsValidated | AsChallenged | AsInvalidated | AsObsolete | AsCustom string

record AssumptionState =
  ast_status :: AssumptionStatus
  ast_impact :: string
  ast_validation_method :: "string option"

datatype RiskStatus = RsOpen | RsMitigated | RsAccepted | RsRealized | RsClosed | RsCustom string

datatype RiskLevel = RlLow | RlMedium | RlHigh | RlCritical | RlCustom string

record RiskState =
  rst_status :: RiskStatus
  rst_likelihood :: RiskLevel
  rst_impact :: RiskLevel
  rst_mitigation :: "string option"
  rst_trigger :: "string option"

datatype MilestoneStatus =
    MsProposed | MsPlanned | MsInProgress | MsAchieved | MsDeferred | MsCancelled | MsCustom string

record MilestoneState =
  mst_status :: MilestoneStatus
  mst_exit_conditions :: "string list"

datatype OutcomeStatus =
    OsDesired | OsInProgress | OsAchieved | OsChallenged | OsAbandoned | OsCustom string

record OutcomeState =
  ost_status :: OutcomeStatus
  ost_success_measures :: "string list"

datatype NodeData =
    NdGeneric string "(string \<times> json) list"
  | NdDecision DecisionState
  | NdQuestion QuestionState
  | NdAssumption AssumptionState
  | NdRisk RiskState
  | NdMilestone MilestoneState
  | NdOutcome OutcomeState

definition NodeData_generic :: "string \<Rightarrow> NodeData" where
  "NodeData_generic status = NdGeneric status []"

record PlanNodeDraft =
  pnd_id :: NodeId
  pnd_kind :: NodeKind
  pnd_title :: string
  pnd_body :: string
  pnd_data :: NodeData
  pnd_provenance :: "Provenance list"

record PlanNode =
  pn_id :: NodeId
  pn_kind :: NodeKind
  pn_title :: string
  pn_body :: string
  pn_data :: NodeData
  pn_provenance :: "Provenance list"
  pn_introduced_revision :: u64
  pn_updated_revision :: u64
  pn_superseded_revision :: "u64 option"
  pn_superseded_by :: "NodeId option"

definition node_is_current :: "PlanNode \<Rightarrow> bool" where
  "node_is_current node = (pn_superseded_revision node = None)"

datatype EdgeRelation =
    ErSupports | ErChallenges | ErResolves | ErSupersedes | ErAdvances | ErRealizes | ErVerifies
  | ErThreatens | ErDependsOn | ErPartOf | ErRelatedTo | ErCustom string

fun EdgeRelation_as_str :: "EdgeRelation \<Rightarrow> string" where
  "EdgeRelation_as_str ErSupports = ''supports''"
| "EdgeRelation_as_str ErChallenges = ''challenges''"
| "EdgeRelation_as_str ErResolves = ''resolves''"
| "EdgeRelation_as_str ErSupersedes = ''supersedes''"
| "EdgeRelation_as_str ErAdvances = ''advances''"
| "EdgeRelation_as_str ErRealizes = ''realizes''"
| "EdgeRelation_as_str ErVerifies = ''verifies''"
| "EdgeRelation_as_str ErThreatens = ''threatens''"
| "EdgeRelation_as_str ErDependsOn = ''depends_on''"
| "EdgeRelation_as_str ErPartOf = ''part_of''"
| "EdgeRelation_as_str ErRelatedTo = ''related_to''"
| "EdgeRelation_as_str (ErCustom value) = value"

record PlanEdgeDraft =
  ped_id :: EdgeId
  ped_from :: NodeId
  ped_relation :: EdgeRelation
  ped_to :: NodeId
  ped_provenance :: "Provenance list"

record PlanEdge_proj =
  pe_id :: EdgeId
  pe_from :: NodeId
  pe_relation :: EdgeRelation
  pe_to :: NodeId
  pe_provenance :: "Provenance list"
  pe_introduced_revision :: u64
  pe_superseded_revision :: "u64 option"

definition edge_is_current :: "PlanEdge_proj \<Rightarrow> bool" where
  "edge_is_current edge = (pe_superseded_revision edge = None)"

section \<open>Change sets, commands and revisions\<close>

record PlanNodePatch =
  np_title :: "string option"
  np_body :: "string option"
  np_data :: "NodeData option"

datatype PlanChange =
    AddNode PlanNodeDraft
  | UpdateNode NodeId PlanNodePatch "Provenance list"
  | SupersedeNode NodeId PlanNodeDraft
  | AddEdge PlanEdgeDraft
  | RemoveEdge EdgeId "Provenance list"

record ProjectPatch =
  pp_provenance :: "Provenance list"
  pp_title :: "string option"
  pp_status :: "ProjectStatus option"
  pp_repository_id :: "string option option"
  pp_canonical_conversation_id :: "string option option"
  pp_judgment_policy :: "JudgmentPolicy option"

datatype RevisionAuthor = RaUser | RaAgent | RaSystem | RaDelivery | RaCustom string

record PlanChangeSet =
  cs_request_id :: string
  cs_project_id :: ProjectId
  cs_parent_revision :: RevisionId
  cs_summary :: string
  cs_author :: RevisionAuthor
  cs_source_message :: "MessageRef option"
  cs_created_at :: timestamp
  cs_project_patch :: "ProjectPatch option"
  cs_changes :: "PlanChange list"

definition PlanChangeSet_new ::
  "string \<Rightarrow> ProjectId \<Rightarrow> RevisionId \<Rightarrow> string \<Rightarrow> RevisionAuthor \<Rightarrow> timestamp \<Rightarrow> PlanChange list
   \<Rightarrow> PlanChangeSet" where
  "PlanChangeSet_new request_id project_id parent_revision summary author created_at changes =
     \<lparr>cs_request_id = request_id, cs_project_id = project_id, cs_parent_revision = parent_revision,
      cs_summary = summary, cs_author = author, cs_source_message = None,
      cs_created_at = created_at, cs_project_patch = None, cs_changes = changes\<rparr>"

record CreateProject =
  cp_request_id :: string
  cp_project_id :: ProjectId
  cp_repository_id :: "string option"
  cp_title :: string
  cp_status :: ProjectStatus
  cp_judgment_policy :: JudgmentPolicy
  cp_canonical_conversation_id :: "string option"
  cp_summary :: string
  cp_author :: RevisionAuthor
  cp_source_message :: "MessageRef option"
  cp_project_provenance :: "Provenance list"
  cp_created_at :: timestamp
  cp_initial_changes :: "PlanChange list"

definition CreateProject_new ::
  "string \<Rightarrow> ProjectId \<Rightarrow> string \<Rightarrow> RevisionAuthor \<Rightarrow> timestamp \<Rightarrow> CreateProject" where
  "CreateProject_new request_id project_id title author created_at =
     \<lparr>cp_request_id = request_id, cp_project_id = project_id, cp_repository_id = None,
      cp_title = title, cp_status = PjActive,
      cp_judgment_policy = \<lparr>jp_statement = [], jp_delegated_scopes = [], jp_reserved_decisions = [],
        jp_extensions = []\<rparr>,
      cp_canonical_conversation_id = None, cp_summary = ''Create project'', cp_author = author,
      cp_source_message = None, cp_project_provenance = [], cp_created_at = created_at,
      cp_initial_changes = []\<rparr>"

type_synonym plan_nodes = "(NodeId \<times> PlanNode) list"
type_synonym plan_edges = "(EdgeId \<times> PlanEdge_proj) list"

record ProjectRevision =
  rv_id :: RevisionId
  rv_request_id :: string
  rv_project_id :: ProjectId
  rv_parent_revision :: "RevisionId option"
  rv_sequence :: u64
  rv_author :: RevisionAuthor
  rv_summary :: string
  rv_source_message :: "MessageRef option"
  rv_project_provenance :: "Provenance list"
  rv_created_at :: timestamp
  rv_nodes :: plan_nodes
  rv_edges :: plan_edges

record ProjectSnapshot =
  sn_project :: Project
  sn_revision :: ProjectRevision

section \<open>Errors\<close>

datatype ProjectError =
    PeEmptyField string
  | PeInvalidConfidence "16 word"
  | PeMissingProvenance nat
  | PeInvalidProvenance nat string
  | PeMissingProjectProvenance
  | PeDuplicateNode NodeId
  | PeNodeNotFound NodeId
  | PeNodeAlreadySuperseded NodeId
  | PeDuplicateEdge EdgeId
  | PeEdgeNotFound EdgeId
  | PeEdgeAlreadyRetired EdgeId
  | PeSelfReferentialEdge EdgeId NodeId
  | PeInvalidRelationship EdgeId string
  | PeIncompatibleNodeData NodeId string
  | PeMissingNodeReference NodeId NodeId string
  | PeInvalidNodeState NodeId string
  | PeSupersessionKindMismatch
  | PeProjectMismatch ProjectId ProjectId
  | PeParentRevisionMismatch RevisionId RevisionId
  | PeRevisionSequenceOverflow
  | PeRevisionTimeBeforeProject timestamp timestamp
  | PeInvalidRevisionComparison u64 u64
  | PeCanonicalSerialization string

type_synonym 'a planned = "ProjectError + 'a"

definition MessageRef_new :: "string \<Rightarrow> string \<Rightarrow> MessageRef planned" where
  "MessageRef_new conversation_id message_id =
     (if trim conversation_id = [] then Inl (PeEmptyField ''conversation_id'')
      else if trim message_id = [] then Inl (PeEmptyField ''message_id'')
      else Inr \<lparr>msg_conversation_id = conversation_id, msg_message_id = message_id\<rparr>)"

definition Confidence_new :: "16 word \<Rightarrow> Confidence planned" where
  "Confidence_new basis_points =
     (if 10000 < basis_points then Inl (PeInvalidConfidence basis_points) else Inr basis_points)"

definition Provenance_conversation ::
  "ProvenanceClassification \<Rightarrow> MessageRef \<Rightarrow> timestamp \<Rightarrow> Provenance" where
  "Provenance_conversation classification message recorded_at =
     \<lparr>pv_classification = classification,
      pv_source = PsConversationMessage (msg_conversation_id message) (msg_message_id message),
      pv_recorded_at = recorded_at, pv_confidence = None, pv_freshness = None\<rparr>"

lemma ascii_lower_lower: "ascii_lower (ascii_lower c) = ascii_lower c"
  by (auto simp: ascii_lower_def code_of_def Let_def of_char_of)

lemma is_ascii_hexdigit_lower: "is_ascii_hex c \<Longrightarrow> is_ascii_hex (ascii_lower c)"
  by (auto simp: is_ascii_hex_def ascii_lower_def code_of_def Let_def of_char_of)

lemma RevisionId_from_str_canonical:
  "RevisionId_from_str v = Some r \<Longrightarrow> RevisionId_from_str r = Some r"
  by (auto simp: RevisionId_from_str_def to_ascii_lowercase_def list_all_iff ascii_lower_lower
      is_ascii_hexdigit_lower split: if_splits)

end
