(* ===== verification/PlanRevision.thy ===== *)
theory PlanRevision
  imports PlanModel
begin

text \<open>
  Immutable plan revisions, \<^verbatim>\<open>rustykrab-projects/src/revision.rs\<close>: the checks a change passes, the edits of
  the graph (\<open>apply_changes\<close>), the checks of the whole graph (\<open>validate_graph\<close>) and the two
  constructors of a snapshot (\<open>ProjectSnapshot_create\<close>, \<open>ProjectSnapshot_apply\<close>).

  The identity of a revision is the hash of its canonical JSON. The serializer and SHA-256 are library code:
  the parameter \<open>digest\<close> takes the content of a revision to that text, or to the serializer's message.
  An edit works on copies of the maps, so an error drops them: the model returns the error alone.
\<close>

section \<open>Checks\<close>

definition validate_text :: "string \<Rightarrow> string \<Rightarrow> unit planned" where
  "validate_text field value = (if trim value = [] then Inl (PeEmptyField field) else Inr ())"

definition validate_message_ref :: "MessageRef \<Rightarrow> unit planned" where
  "validate_message_ref message =
     attempt (validate_text ''conversation_id'' (msg_conversation_id message)) (\<lambda>_.
       validate_text ''message_id'' (msg_message_id message))"

definition require_field :: "nat \<Rightarrow> string \<Rightarrow> string \<Rightarrow> unit planned" where
  "require_field change_index field value =
     (if trim value = []
      then Inl (PeInvalidProvenance change_index (field @ '' must not be empty''))
      else Inr ())"

fun require_source :: "nat \<Rightarrow> ProvenanceSource \<Rightarrow> unit planned" where
  "require_source i (PsConversationMessage conversation_id message_id) =
     attempt (require_field i ''conversation_id'' conversation_id) (\<lambda>_.
       require_field i ''message_id'' message_id)"
| "require_source i (PsRepository repository revision paths evidence_hash) =
     attempt (require_field i ''repository'' repository) (\<lambda>_.
     attempt (require_field i ''repository revision'' revision) (\<lambda>_.
       require_field i ''evidence_hash'' evidence_hash))"
| "require_source i (PsExperiment trace_id evidence_hash) = require_field i ''trace_id'' trace_id"
| "require_source i (PsResearch uri evidence_hash) = require_field i ''research uri'' uri"
| "require_source i (PsDeliveryEvidence delivery_id evidence_id) =
     attempt (require_field i ''delivery_id'' delivery_id) (\<lambda>_.
       require_field i ''evidence_id'' evidence_id)"
| "require_source i (PsManual reference) = require_field i ''manual reference'' reference"
| "require_source i (PsCustom source_type reference) =
     attempt (require_field i ''custom source_type'' source_type) (\<lambda>_.
       require_field i ''custom reference'' reference)"

definition require_entry :: "nat \<Rightarrow> Provenance \<Rightarrow> unit planned" where
  "require_entry i entry =
     attempt (require_source i (pv_source entry)) (\<lambda>_.
       case pv_freshness entry of
         None \<Rightarrow> Inr ()
       | Some freshness \<Rightarrow>
           (case fr_valid_until freshness of
              None \<Rightarrow> Inr ()
            | Some valid_until \<Rightarrow>
                if valid_until < fr_observed_at freshness
                then Inl (PeInvalidProvenance i ''freshness expires before it was observed'')
                else Inr ()))"

definition require_provenance :: "nat \<Rightarrow> Provenance list \<Rightarrow> unit planned" where
  "require_provenance i provenance =
     (if provenance = [] then Inl (PeMissingProvenance i)
      else try_each (require_entry i) provenance)"

fun data_compatible :: "NodeKind \<Rightarrow> NodeData \<Rightarrow> bool" where
  "data_compatible NkDecision d = (case d of NdDecision _ \<Rightarrow> True | _ \<Rightarrow> False)"
| "data_compatible NkQuestion d = (case d of NdQuestion _ \<Rightarrow> True | _ \<Rightarrow> False)"
| "data_compatible NkAssumption d = (case d of NdAssumption _ \<Rightarrow> True | _ \<Rightarrow> False)"
| "data_compatible NkRisk d = (case d of NdRisk _ \<Rightarrow> True | _ \<Rightarrow> False)"
| "data_compatible NkMilestone d = (case d of NdMilestone _ \<Rightarrow> True | _ \<Rightarrow> False)"
| "data_compatible NkOutcome d = (case d of NdOutcome _ \<Rightarrow> True | _ \<Rightarrow> False)"
| "data_compatible _ d = (case d of NdGeneric _ _ \<Rightarrow> True | _ \<Rightarrow> False)"

definition validate_node_data :: "NodeId \<Rightarrow> NodeKind \<Rightarrow> NodeData \<Rightarrow> unit planned" where
  "validate_node_data node_id kind d =
     (if \<not> data_compatible kind d
      then Inl (PeIncompatibleNodeData node_id (NodeKind_as_str kind))
      else case d of
        NdGeneric status _ \<Rightarrow> validate_text ''node status'' status
      | NdDecision state \<Rightarrow>
          if dst_status state \<in> {DsAccepted, DsDelegated} \<and> dst_decided_by state = None
          then Inl (PeInvalidNodeState node_id ''settled decision must identify who decided it'')
          else Inr ()
      | NdQuestion state \<Rightarrow>
          if qst_status state = PqResolved \<and> qst_resolution state = None
          then Inl (PeInvalidNodeState node_id ''resolved question must include a resolution'')
          else Inr ()
      | NdAssumption state \<Rightarrow> validate_text ''assumption impact'' (ast_impact state)
      | NdRisk _ \<Rightarrow> Inr ()
      | NdMilestone _ \<Rightarrow> Inr ()
      | NdOutcome _ \<Rightarrow> Inr ())"

definition current_at :: "plan_nodes \<Rightarrow> NodeId \<Rightarrow> PlanNode option" where
  \<comment> \<open>\<^verbatim>\<open>nodes.get(&id).filter(|node| node.is_current())\<close>\<close>
  "current_at nodes k =
     (case map_of nodes k of
        None \<Rightarrow> None
      | Some node \<Rightarrow> if node_is_current node then Some node else None)"

definition require_reference ::
  "plan_nodes \<Rightarrow> PlanNode \<Rightarrow> NodeId \<Rightarrow> string \<Rightarrow> NodeKind option \<Rightarrow> unit planned" where
  "require_reference nodes node referenced_id field expected =
     attempt (some_or (PeMissingNodeReference (pn_id node) referenced_id field)
                (current_at nodes referenced_id)) (\<lambda>referenced.
       case expected of
         None \<Rightarrow> Inr ()
       | Some kind \<Rightarrow>
           if pn_kind referenced \<noteq> kind
           then Inl (PeInvalidNodeState (pn_id node)
                       (field @ '' must reference a '' @ NodeKind_as_str kind @ '' node''))
           else Inr ())"

definition validate_node_references :: "PlanNode \<Rightarrow> plan_nodes \<Rightarrow> unit planned" where
  "validate_node_references node nodes =
     (case pn_data node of
        NdDecision state \<Rightarrow>
          (case dst_selected_option state of
             None \<Rightarrow> Inr ()
           | Some choice \<Rightarrow> require_reference nodes node choice ''selected_option'' (Some NkOption))
      | NdQuestion state \<Rightarrow>
          attempt (case qst_blocking_scope state of
                     None \<Rightarrow> Inr ()
                   | Some scope \<Rightarrow> require_reference nodes node scope ''blocking_scope'' None) (\<lambda>_.
            case qst_due_milestone state of
              None \<Rightarrow> Inr ()
            | Some milestone \<Rightarrow>
                require_reference nodes node milestone ''due_milestone'' (Some NkMilestone))
      | _ \<Rightarrow> Inr ())"

fun relation_allows :: "EdgeRelation \<Rightarrow> NodeKind \<Rightarrow> NodeKind \<Rightarrow> bool" where
  "relation_allows ErSupports s t =
     (s \<in> {NkRequirement, NkRepositoryObservation, NkResearchFinding, NkAcceptanceBehavior,
           NkDecision, NkMilestone}
      \<and> t \<in> {NkOutcome, NkRequirement, NkAssumption, NkDecision, NkMilestone, NkExecutionSlice})"
| "relation_allows ErChallenges s t =
     (s \<in> {NkRepositoryObservation, NkResearchFinding, NkRisk}
      \<and> t \<in> {NkAssumption, NkDecision, NkRequirement, NkOutcome})"
| "relation_allows ErResolves s t = (s = NkDecision \<and> t = NkQuestion)"
| "relation_allows ErSupersedes s t = (s = t)"
| "relation_allows ErAdvances s t = (s = NkMilestone \<and> t = NkOutcome)"
| "relation_allows ErRealizes s t = (s = NkExecutionSlice \<and> t = NkMilestone)"
| "relation_allows ErVerifies s t =
     (s = NkAcceptanceBehavior
      \<and> t \<in> {NkExecutionSlice, NkRequirement, NkOutcome, NkMilestone})"
| "relation_allows ErThreatens s t =
     (s = NkRisk \<and> t \<in> {NkOutcome, NkMilestone, NkExecutionSlice})"
| "relation_allows ErDependsOn s t = True"
| "relation_allows ErRelatedTo s t = True"
| "relation_allows (ErCustom _) s t = True"
| "relation_allows ErPartOf s t = (t \<in> {NkWorkstream, NkMilestone, NkExecutionSlice})"

definition validate_edge_parts ::
  "EdgeId \<Rightarrow> NodeId \<Rightarrow> EdgeRelation \<Rightarrow> NodeId \<Rightarrow> plan_nodes \<Rightarrow> unit planned" where
  "validate_edge_parts edge_id source_id relation target_id nodes =
     (if source_id = target_id then Inl (PeSelfReferentialEdge edge_id source_id)
      else
        attempt (some_or (PeNodeNotFound source_id) (current_at nodes source_id)) (\<lambda>source.
        attempt (some_or (PeNodeNotFound target_id) (current_at nodes target_id)) (\<lambda>target.
          if \<not> relation_allows relation (pn_kind source) (pn_kind target)
          then Inl (PeInvalidRelationship edge_id
                      (NodeKind_as_str (pn_kind source) @ '' '' @ EdgeRelation_as_str relation
                       @ '' '' @ NodeKind_as_str (pn_kind target)))
          else Inr ())))"

definition validate_edge_draft :: "PlanEdgeDraft \<Rightarrow> plan_nodes \<Rightarrow> unit planned" where
  "validate_edge_draft edge nodes =
     validate_edge_parts (ped_id edge) (ped_from edge) (ped_relation edge) (ped_to edge) nodes"

definition validate_edge :: "PlanEdge_proj \<Rightarrow> plan_nodes \<Rightarrow> unit planned" where
  "validate_edge edge nodes =
     validate_edge_parts (pe_id edge) (pe_from edge) (pe_relation edge) (pe_to edge) nodes"

definition validate_graph :: "plan_nodes \<Rightarrow> plan_edges \<Rightarrow> unit planned" where
  "validate_graph nodes edges =
     attempt (try_each (\<lambda>node.
                attempt (validate_node_data (pn_id node) (pn_kind node) (pn_data node)) (\<lambda>_.
                  validate_node_references node nodes))
              (filter node_is_current (bt_values nodes))) (\<lambda>_.
       try_each (\<lambda>edge. validate_edge edge nodes) (filter edge_is_current (bt_values edges)))"

section \<open>Edits\<close>

definition current_node :: "plan_nodes \<Rightarrow> NodeId \<Rightarrow> PlanNode planned" where
  "current_node nodes node_id =
     attempt (some_or (PeNodeNotFound node_id) (map_of nodes node_id)) (\<lambda>node.
       if \<not> node_is_current node then Inl (PeNodeAlreadySuperseded node_id) else Inr node)"

definition fresh_node :: "u64 \<Rightarrow> PlanNodeDraft \<Rightarrow> PlanNode" where
  "fresh_node sequence draft =
     \<lparr>pn_id = pnd_id draft, pn_kind = pnd_kind draft, pn_title = pnd_title draft,
      pn_body = pnd_body draft, pn_data = pnd_data draft, pn_provenance = pnd_provenance draft,
      pn_introduced_revision = sequence, pn_updated_revision = sequence,
      pn_superseded_revision = None, pn_superseded_by = None\<rparr>"

definition add_node :: "u64 \<Rightarrow> nat \<Rightarrow> PlanNodeDraft \<Rightarrow> plan_nodes \<Rightarrow> plan_nodes planned" where
  "add_node sequence i node nodes =
     attempt (require_provenance i (pnd_provenance node)) (\<lambda>_.
     if map_of nodes (pnd_id node) \<noteq> None then Inl (PeDuplicateNode (pnd_id node))
     else
     attempt (validate_text ''node title'' (pnd_title node)) (\<lambda>_.
     attempt (validate_node_data (pnd_id node) (pnd_kind node) (pnd_data node)) (\<lambda>_.
       Inr (bt_insert (pnd_id node) (fresh_node sequence node) nodes))))"

definition update_node ::
  "u64 \<Rightarrow> nat \<Rightarrow> NodeId \<Rightarrow> PlanNodePatch \<Rightarrow> Provenance list \<Rightarrow> plan_nodes \<Rightarrow> plan_nodes planned" where
  "update_node sequence i node_id patch provenance nodes =
     attempt (require_provenance i provenance) (\<lambda>_.
     attempt (current_node nodes node_id) (\<lambda>node.
     attempt (case np_title patch of None \<Rightarrow> Inr () | Some title \<Rightarrow> validate_text ''node title'' title) (\<lambda>_.
     attempt (case np_data patch of
                None \<Rightarrow> Inr () | Some d \<Rightarrow> validate_node_data node_id (pn_kind node) d) (\<lambda>_.
       Inr (bt_insert node_id
              (node\<lparr>pn_title := (case np_title patch of None \<Rightarrow> pn_title node | Some title \<Rightarrow> title),
                    pn_body := (case np_body patch of None \<Rightarrow> pn_body node | Some body \<Rightarrow> body),
                    pn_data := (case np_data patch of None \<Rightarrow> pn_data node | Some d \<Rightarrow> d),
                    pn_provenance := pn_provenance node @ provenance,
                    pn_updated_revision := sequence\<rparr>) nodes)))))"

definition touches_node :: "NodeId \<Rightarrow> PlanEdge_proj \<Rightarrow> bool" where
  "touches_node node_id edge =
     (edge_is_current edge \<and> (pe_from edge = node_id \<or> pe_to edge = node_id))"

definition retire_edge :: "u64 \<Rightarrow> PlanEdge_proj \<Rightarrow> PlanEdge_proj" where
  "retire_edge sequence edge = edge\<lparr>pe_superseded_revision := Some sequence\<rparr>"

definition supersede_node ::
  "u64 \<Rightarrow> nat \<Rightarrow> NodeId \<Rightarrow> PlanNodeDraft \<Rightarrow> plan_nodes \<Rightarrow> plan_edges
   \<Rightarrow> (plan_nodes \<times> plan_edges) planned" where
  "supersede_node sequence i node_id replacement nodes edges =
     attempt (require_provenance i (pnd_provenance replacement)) (\<lambda>_.
     if map_of nodes (pnd_id replacement) \<noteq> None then Inl (PeDuplicateNode (pnd_id replacement))
     else
     attempt (current_node nodes node_id) (\<lambda>old.
     if pn_kind old \<noteq> pnd_kind replacement then Inl PeSupersessionKindMismatch
     else
     attempt (validate_text ''node title'' (pnd_title replacement)) (\<lambda>_.
     attempt (validate_node_data (pnd_id replacement) (pnd_kind replacement) (pnd_data replacement)) (\<lambda>_.
       Inr (bt_insert (pnd_id replacement) (fresh_node sequence replacement)
              (bt_insert node_id
                 (old\<lparr>pn_superseded_revision := Some sequence,
                      pn_superseded_by := Some (pnd_id replacement),
                      pn_updated_revision := sequence\<rparr>) nodes),
            bt_map (\<lambda>edge. if touches_node node_id edge then retire_edge sequence edge else edge)
              edges)))))"

definition add_plan_edge ::
  "u64 \<Rightarrow> nat \<Rightarrow> PlanEdgeDraft \<Rightarrow> plan_nodes \<Rightarrow> plan_edges \<Rightarrow> plan_edges planned" where
  "add_plan_edge sequence i edge nodes edges =
     attempt (require_provenance i (ped_provenance edge)) (\<lambda>_.
     if map_of edges (ped_id edge) \<noteq> None then Inl (PeDuplicateEdge (ped_id edge))
     else
     attempt (validate_edge_draft edge nodes) (\<lambda>_.
       Inr (bt_insert (ped_id edge)
              \<lparr>pe_id = ped_id edge, pe_from = ped_from edge, pe_relation = ped_relation edge,
               pe_to = ped_to edge, pe_provenance = ped_provenance edge,
               pe_introduced_revision = sequence, pe_superseded_revision = None\<rparr> edges)))"

definition remove_plan_edge ::
  "u64 \<Rightarrow> nat \<Rightarrow> EdgeId \<Rightarrow> Provenance list \<Rightarrow> plan_edges \<Rightarrow> plan_edges planned" where
  "remove_plan_edge sequence i edge_id provenance edges =
     attempt (require_provenance i provenance) (\<lambda>_.
     attempt (some_or (PeEdgeNotFound edge_id) (map_of edges edge_id)) (\<lambda>edge.
     if \<not> edge_is_current edge then Inl (PeEdgeAlreadyRetired edge_id)
     else
       Inr (bt_insert edge_id
              (edge\<lparr>pe_provenance := pe_provenance edge @ provenance,
                    pe_superseded_revision := Some sequence\<rparr>) edges)))"

definition apply_change ::
  "u64 \<Rightarrow> plan_nodes \<times> plan_edges \<Rightarrow> nat \<times> PlanChange \<Rightarrow> (plan_nodes \<times> plan_edges) planned" where
  "apply_change sequence g step =
     (case (g, step) of ((nodes, edges), i, change) \<Rightarrow>
        (case change of
           AddNode node \<Rightarrow> attempt (add_node sequence i node nodes) (\<lambda>ns. Inr (ns, edges))
         | UpdateNode node_id patch provenance \<Rightarrow>
             attempt (update_node sequence i node_id patch provenance nodes) (\<lambda>ns. Inr (ns, edges))
         | SupersedeNode node_id replacement \<Rightarrow>
             supersede_node sequence i node_id replacement nodes edges
         | AddEdge edge \<Rightarrow> attempt (add_plan_edge sequence i edge nodes edges) (\<lambda>es. Inr (nodes, es))
         | RemoveEdge edge_id provenance \<Rightarrow>
             attempt (remove_plan_edge sequence i edge_id provenance edges) (\<lambda>es. Inr (nodes, es))))"

definition apply_changes ::
  "u64 \<Rightarrow> PlanChange list \<Rightarrow> plan_nodes \<times> plan_edges \<Rightarrow> (plan_nodes \<times> plan_edges) planned" where
  "apply_changes sequence changes g =
     try_fold (apply_change sequence) g (enumerate 0 changes)"

section \<open>Revisions and snapshots\<close>

definition current_nodes :: "ProjectRevision \<Rightarrow> PlanNode list" where
  "current_nodes revision = filter node_is_current (bt_values (rv_nodes revision))"

definition current_edges :: "ProjectRevision \<Rightarrow> PlanEdge_proj list" where
  "current_edges revision = filter edge_is_current (bt_values (rv_edges revision))"

record RevisionContent =
  rc_project :: Project
  rc_request_id :: string
  rc_parent_revision :: "RevisionId option"
  rc_sequence :: u64
  rc_author :: RevisionAuthor
  rc_summary :: string
  rc_source_message :: "MessageRef option"
  rc_project_provenance :: "Provenance list"
  rc_created_at :: timestamp
  rc_nodes :: plan_nodes
  rc_edges :: plan_edges

type_synonym content_digest = "RevisionContent \<Rightarrow> string + RevisionId"

definition canonical_revision_id ::
  "content_digest \<Rightarrow> Project \<Rightarrow> ProjectRevision \<Rightarrow> RevisionId planned" where
  "canonical_revision_id digest project revision =
     (case digest \<lparr>rc_project = project, rc_request_id = rv_request_id revision,
                   rc_parent_revision = rv_parent_revision revision,
                   rc_sequence = rv_sequence revision, rc_author = rv_author revision,
                   rc_summary = rv_summary revision,
                   rc_source_message = rv_source_message revision,
                   rc_project_provenance = rv_project_provenance revision,
                   rc_created_at = rv_created_at revision, rc_nodes = rv_nodes revision,
                   rc_edges = rv_edges revision\<rparr> of
        Inl message \<Rightarrow> Inl (PeCanonicalSerialization message)
      | Inr k \<Rightarrow> Inr k)"

definition with_canonical_id ::
  "content_digest \<Rightarrow> Project \<Rightarrow> ProjectRevision \<Rightarrow> ProjectRevision planned" where
  "with_canonical_id digest project revision =
     attempt (canonical_revision_id digest project revision) (\<lambda>k. Inr (revision\<lparr>rv_id := k\<rparr>))"

definition optional :: "('a \<Rightarrow> unit planned) \<Rightarrow> 'a option \<Rightarrow> unit planned" where
  \<comment> \<open>\<^verbatim>\<open>if let Some(value) = x { check(value)?; }\<close>\<close>
  "optional f x = (case x of None \<Rightarrow> Inr () | Some a \<Rightarrow> f a)"

definition ProjectRevision_apply ::
  "content_digest \<Rightarrow> ProjectRevision \<Rightarrow> Project \<Rightarrow> PlanChangeSet \<Rightarrow> ProjectRevision planned" where
  "ProjectRevision_apply digest self project change_set =
     (if rv_project_id self \<noteq> pj_id project
      then Inl (PeProjectMismatch (rv_project_id self) (pj_id project))
      else if cs_project_id change_set \<noteq> pj_id project
      then Inl (PeProjectMismatch (pj_id project) (cs_project_id change_set))
      else if cs_parent_revision change_set \<noteq> rv_id self
      then Inl (PeParentRevisionMismatch (rv_id self) (cs_parent_revision change_set))
      else
        attempt (validate_text ''request_id'' (cs_request_id change_set)) (\<lambda>_.
        attempt (validate_text ''summary'' (cs_summary change_set)) (\<lambda>_.
        attempt (optional validate_message_ref (cs_source_message change_set)) (\<lambda>_.
        if rv_sequence self = - 1 then Inl PeRevisionSequenceOverflow
        else
          let sequence = rv_sequence self + 1 in
          attempt (apply_changes sequence (cs_changes change_set) (rv_nodes self, rv_edges self))
            (\<lambda>(nodes, edges).
          attempt (validate_graph nodes edges) (\<lambda>_.
            with_canonical_id digest project
              \<lparr>rv_id = [], rv_request_id = cs_request_id change_set, rv_project_id = pj_id project,
               rv_parent_revision = Some (rv_id self), rv_sequence = sequence,
               rv_author = cs_author change_set, rv_summary = cs_summary change_set,
               rv_source_message = cs_source_message change_set,
               rv_project_provenance =
                 (case cs_project_patch change_set of None \<Rightarrow> [] | Some patch \<Rightarrow> pp_provenance patch),
               rv_created_at = cs_created_at change_set, rv_nodes = nodes, rv_edges = edges\<rparr>))))))"

definition ProjectSnapshot_create ::
  "content_digest \<Rightarrow> CreateProject \<Rightarrow> ProjectSnapshot planned" where
  "ProjectSnapshot_create digest command =
     attempt (validate_text ''request_id'' (cp_request_id command)) (\<lambda>_.
     attempt (validate_text ''project title'' (cp_title command)) (\<lambda>_.
     attempt (validate_text ''summary'' (cp_summary command)) (\<lambda>_.
     attempt (optional (validate_text ''repository_id'') (cp_repository_id command)) (\<lambda>_.
     attempt (optional (validate_text ''canonical_conversation_id'')
                (cp_canonical_conversation_id command)) (\<lambda>_.
     attempt (optional validate_message_ref (cp_source_message command)) (\<lambda>_.
     attempt (if cp_project_provenance command \<noteq> []
              then require_provenance (length (cp_initial_changes command))
                     (cp_project_provenance command)
              else Inr ()) (\<lambda>_.
       let project =
         \<lparr>pj_id = cp_project_id command, pj_repository_id = cp_repository_id command,
          pj_title = cp_title command, pj_status = cp_status command,
          pj_judgment_policy = cp_judgment_policy command,
          pj_canonical_conversation_id = cp_canonical_conversation_id command,
          pj_created_at = cp_created_at command, pj_updated_at = cp_created_at command\<rparr> in
       attempt (apply_changes 0 (cp_initial_changes command) ([], [])) (\<lambda>(nodes, edges).
       attempt (validate_graph nodes edges) (\<lambda>_.
       attempt (with_canonical_id digest project
                  \<lparr>rv_id = [], rv_request_id = cp_request_id command, rv_project_id = pj_id project,
                   rv_parent_revision = None, rv_sequence = 0, rv_author = cp_author command,
                   rv_summary = cp_summary command, rv_source_message = cp_source_message command,
                   rv_project_provenance = cp_project_provenance command,
                   rv_created_at = cp_created_at command, rv_nodes = nodes, rv_edges = edges\<rparr>)
         (\<lambda>revision. Inr \<lparr>sn_project = project, sn_revision = revision\<rparr>))))))))))"

definition patch_project :: "nat \<Rightarrow> ProjectPatch \<Rightarrow> Project \<Rightarrow> Project planned" where
  "patch_project change_count patch project =
     (if pp_provenance patch = [] then Inl PeMissingProjectProvenance
      else
        attempt (require_provenance change_count (pp_provenance patch)) (\<lambda>_.
        attempt (optional (validate_text ''project title'') (pp_title patch)) (\<lambda>_.
        attempt (case pp_repository_id patch of
                   None \<Rightarrow> Inr ()
                 | Some repository_id \<Rightarrow> optional (validate_text ''repository_id'') repository_id) (\<lambda>_.
        attempt (case pp_canonical_conversation_id patch of
                   None \<Rightarrow> Inr ()
                 | Some conversation_id \<Rightarrow>
                     optional (validate_text ''canonical_conversation_id'') conversation_id) (\<lambda>_.
          Inr (project
            \<lparr>pj_title := (case pp_title patch of None \<Rightarrow> pj_title project | Some v \<Rightarrow> v),
             pj_status := (case pp_status patch of None \<Rightarrow> pj_status project | Some v \<Rightarrow> v),
             pj_repository_id :=
               (case pp_repository_id patch of None \<Rightarrow> pj_repository_id project | Some v \<Rightarrow> v),
             pj_canonical_conversation_id :=
               (case pp_canonical_conversation_id patch of
                  None \<Rightarrow> pj_canonical_conversation_id project | Some v \<Rightarrow> v),
             pj_judgment_policy :=
               (case pp_judgment_policy patch of
                  None \<Rightarrow> pj_judgment_policy project | Some v \<Rightarrow> v)\<rparr>))))))"

definition ProjectSnapshot_apply ::
  "content_digest \<Rightarrow> ProjectSnapshot \<Rightarrow> PlanChangeSet \<Rightarrow> ProjectSnapshot planned" where
  "ProjectSnapshot_apply digest self change_set =
     (if cs_created_at change_set < pj_updated_at (sn_project self)
      then Inl (PeRevisionTimeBeforeProject (cs_created_at change_set)
                  (pj_updated_at (sn_project self)))
      else
        attempt (case cs_project_patch change_set of
                   None \<Rightarrow> Inr (sn_project self)
                 | Some patch \<Rightarrow>
                     patch_project (length (cs_changes change_set)) patch (sn_project self))
          (\<lambda>patched.
        let project = patched\<lparr>pj_updated_at := cs_created_at change_set\<rparr> in
        attempt (ProjectRevision_apply digest (sn_revision self) project change_set)
          (\<lambda>revision. Inr \<lparr>sn_project = project, sn_revision = revision\<rparr>)))"

end
