(* ===== verification/PlanLaws.thy ===== *)
theory PlanLaws
  imports PlanRevision "HOL-Library.Sublist"
begin

text \<open>
  Laws of the plan graph.

  \<^item> \<open>plan_wf\<close>, the invariant of the two maps: keys are ids and ascend, the revisions recorded on a node or an
    edge are in order, a superseded node names a successor of its kind introduced when it was superseded, a
    current edge joins two current nodes its relation allows, and node data agree with the kind.
  \<^item> \<open>plan_extends\<close>, the abstract history: nothing is removed, identities stay, provenance only grows at
    the end, and what is superseded or retired is frozen.
  \<^item> for each operation, what it writes when it succeeds.
\<close>

section \<open>The invariant\<close>

definition node_wf :: "u64 \<Rightarrow> plan_nodes \<Rightarrow> NodeId \<Rightarrow> PlanNode \<Rightarrow> bool" where
  "node_wf sequence nodes k node =
     (pn_id node = k \<and> trim (pn_title node) \<noteq> [] \<and> pn_provenance node \<noteq> []
      \<and> validate_node_data k (pn_kind node) (pn_data node) = Inr ()
      \<and> pn_introduced_revision node \<le> pn_updated_revision node
      \<and> pn_updated_revision node \<le> sequence
      \<and> (case pn_superseded_by node of
           None \<Rightarrow> pn_superseded_revision node = None
         | Some r \<Rightarrow>
             pn_superseded_revision node = Some (pn_updated_revision node)
             \<and> (case map_of nodes r of
                  None \<Rightarrow> False
                | Some next_node \<Rightarrow>
                    pn_kind next_node = pn_kind node
                    \<and> pn_introduced_revision next_node = pn_updated_revision node)))"

definition edge_wf :: "u64 \<Rightarrow> plan_nodes \<Rightarrow> EdgeId \<Rightarrow> PlanEdge_proj \<Rightarrow> bool" where
  "edge_wf sequence nodes k edge =
     (pe_id edge = k \<and> pe_provenance edge \<noteq> [] \<and> pe_from edge \<noteq> pe_to edge
      \<and> map_of nodes (pe_from edge) \<noteq> None \<and> map_of nodes (pe_to edge) \<noteq> None
      \<and> pe_introduced_revision edge \<le> sequence
      \<and> (case pe_superseded_revision edge of
           None \<Rightarrow> validate_edge edge nodes = Inr ()
         | Some s \<Rightarrow> pe_introduced_revision edge \<le> s \<and> s \<le> sequence))"

definition plan_wf :: "u64 \<Rightarrow> plan_nodes \<times> plan_edges \<Rightarrow> bool" where
  "plan_wf sequence g =
     (bt_ordered (fst g) \<and> bt_ordered (snd g)
      \<and> (\<forall>k node. map_of (fst g) k = Some node \<longrightarrow> node_wf sequence (fst g) k node)
      \<and> (\<forall>k edge. map_of (snd g) k = Some edge \<longrightarrow> edge_wf sequence (fst g) k edge))"

section \<open>The history\<close>

definition node_extends :: "PlanNode \<Rightarrow> PlanNode \<Rightarrow> bool" where
  "node_extends old new =
     (pn_id new = pn_id old \<and> pn_kind new = pn_kind old
      \<and> pn_introduced_revision new = pn_introduced_revision old
      \<and> prefix (pn_provenance old) (pn_provenance new)
      \<and> (\<not> node_is_current old \<longrightarrow> new = old))"

definition edge_extends :: "PlanEdge_proj \<Rightarrow> PlanEdge_proj \<Rightarrow> bool" where
  "edge_extends old new =
     (pe_id new = pe_id old \<and> pe_from new = pe_from old \<and> pe_relation new = pe_relation old
      \<and> pe_to new = pe_to old \<and> pe_introduced_revision new = pe_introduced_revision old
      \<and> prefix (pe_provenance old) (pe_provenance new)
      \<and> (\<not> edge_is_current old \<longrightarrow> new = old)
      \<and> (edge_is_current new \<longrightarrow> new = old))"

definition map_extends :: "('v \<Rightarrow> 'v \<Rightarrow> bool) \<Rightarrow> ('k \<times> 'v) list \<Rightarrow> ('k \<times> 'v) list \<Rightarrow> bool" where
  "map_extends r old new =
     (\<forall>k v. map_of old k = Some v \<longrightarrow> (\<exists>w. map_of new k = Some w \<and> r v w))"

definition plan_extends :: "plan_nodes \<times> plan_edges \<Rightarrow> plan_nodes \<times> plan_edges \<Rightarrow> bool" where
  "plan_extends g h =
     (map_extends node_extends (fst g) (fst h) \<and> map_extends edge_extends (snd g) (snd h))"

definition later_stamps :: "u64 \<Rightarrow> plan_nodes \<times> plan_edges \<Rightarrow> plan_nodes \<times> plan_edges \<Rightarrow> bool" where
  \<comment> \<open>what an edit at \<open>sequence\<close> writes carries that revision\<close>
  "later_stamps sequence g h =
     ((\<forall>k node. map_of (fst h) k = Some node \<and> map_of (fst g) k \<noteq> Some node
         \<longrightarrow> pn_updated_revision node = sequence)
      \<and> (\<forall>k node. map_of (fst h) k = Some node \<and> map_of (fst g) k = None
         \<longrightarrow> pn_introduced_revision node = sequence))"

lemma node_extends_refl [simp]: "node_extends n n"
  by (simp add: node_extends_def)

lemma edge_extends_refl [simp]: "edge_extends e e"
  by (simp add: edge_extends_def)

lemma node_extends_trans: "node_extends a b \<Longrightarrow> node_extends b c \<Longrightarrow> node_extends a c"
  by (auto simp: node_extends_def)

lemma edge_extends_trans: "edge_extends a b \<Longrightarrow> edge_extends b c \<Longrightarrow> edge_extends a c"
  unfolding edge_extends_def by (metis prefix_order.trans)

lemma map_extends_refl: "(\<And>v. r v v) \<Longrightarrow> map_extends r m m"
  by (simp add: map_extends_def)

lemma map_extends_trans:
  "(\<And>a b c. r a b \<Longrightarrow> r b c \<Longrightarrow> r a c) \<Longrightarrow> map_extends r x y \<Longrightarrow> map_extends r y z \<Longrightarrow> map_extends r x z"
  unfolding map_extends_def by blast

lemma map_extends_fresh: "(\<And>v. r v v) \<Longrightarrow> map_of m k = None \<Longrightarrow> map_extends r m (bt_insert k v m)"
  by (auto simp: map_extends_def)

lemma map_extends_update:
  "(\<And>v. r v v) \<Longrightarrow> map_of m k = Some v \<Longrightarrow> r v w \<Longrightarrow> map_extends r m (bt_insert k w m)"
  by (auto simp: map_extends_def)

lemma map_extends_map: "(\<And>v. r v (f v)) \<Longrightarrow> map_extends r m (bt_map f m)"
  by (auto simp: map_extends_def)

lemma map_extendsD:
  "map_extends r old new \<Longrightarrow> map_of old k = Some v \<Longrightarrow> map_of new k = Some w \<Longrightarrow> r v w"
  by (fastforce simp: map_extends_def)

lemma plan_extends_refl [simp]: "plan_extends g g"
  by (simp add: plan_extends_def map_extends_refl)

lemma plan_extends_trans: "plan_extends a b \<Longrightarrow> plan_extends b c \<Longrightarrow> plan_extends a c"
  unfolding plan_extends_def
  by (meson map_extends_trans node_extends_trans edge_extends_trans)

section \<open>The invariant and the history\<close>

lemma plan_wf_mono: "s \<le> s' \<Longrightarrow> plan_wf s g \<Longrightarrow> plan_wf s' g"
  unfolding plan_wf_def node_wf_def edge_wf_def
  by (fastforce split: option.splits intro: order_trans)

lemma node_wf_extends:
  assumes "map_extends node_extends nodes nodes'" "node_wf s nodes k n"
  shows "node_wf s nodes' k n"
proof (cases "pn_superseded_by n")
  case (Some r)
  with assms(2) obtain m where m: "map_of nodes r = Some m" "pn_kind m = pn_kind n"
      "pn_introduced_revision m = pn_updated_revision n"
    by (auto simp: node_wf_def split: option.splits)
  with assms(1) obtain m' where "map_of nodes' r = Some m'" "node_extends m m'"
    by (auto simp: map_extends_def)
  with m Some assms(2) show ?thesis by (auto simp: node_wf_def node_extends_def)
qed (use assms(2) in \<open>simp add: node_wf_def\<close>)

lemma validate_edge_Inr_iff:
  "validate_edge edge nodes = Inr () \<longleftrightarrow>
     pe_from edge \<noteq> pe_to edge
     \<and> (\<exists>s t. current_at nodes (pe_from edge) = Some s \<and> current_at nodes (pe_to edge) = Some t
          \<and> relation_allows (pe_relation edge) (pn_kind s) (pn_kind t))"
  by (auto simp: validate_edge_def validate_edge_parts_def attempt_Inr_iff)

lemma current_at_Some_iff: "current_at nodes k = Some n \<longleftrightarrow> map_of nodes k = Some n \<and> node_is_current n"
  by (auto simp: current_at_def split: option.splits)

lemma edge_wf_extends:
  assumes ext: "map_extends node_extends nodes nodes'" and wf: "edge_wf s nodes k e"
    and stay: "\<And>x n. edge_is_current e \<Longrightarrow> x \<in> {pe_from e, pe_to e} \<Longrightarrow> map_of nodes' x = Some n
       \<Longrightarrow> node_is_current n"
  shows "edge_wf s nodes' k e"
proof -
  have keep: "\<exists>n'. map_of nodes' x = Some n' \<and> node_extends n n'" if "map_of nodes x = Some n" for x n
    using ext that by (auto simp: map_extends_def)
  have defined: "map_of nodes' (pe_from e) \<noteq> None \<and> map_of nodes' (pe_to e) \<noteq> None"
    using wf keep by (fastforce simp: edge_wf_def)
  show ?thesis
  proof (cases "edge_is_current e")
    case True
    with wf have "validate_edge e nodes = Inr ()"
      by (simp add: edge_wf_def edge_is_current_def)
    then obtain a b where ab: "map_of nodes (pe_from e) = Some a" "map_of nodes (pe_to e) = Some b"
        "relation_allows (pe_relation e) (pn_kind a) (pn_kind b)" "pe_from e \<noteq> pe_to e"
      by (auto simp: validate_edge_Inr_iff current_at_Some_iff)
    obtain a' b' where "map_of nodes' (pe_from e) = Some a'" "node_extends a a'"
        "map_of nodes' (pe_to e) = Some b'" "node_extends b b'"
      using keep ab by blast
    moreover from this stay[OF True] have "node_is_current a'" "node_is_current b'" by auto
    ultimately have "validate_edge e nodes' = Inr ()"
      using ab by (simp add: validate_edge_Inr_iff current_at_Some_iff node_extends_def)
    with wf defined True show ?thesis by (simp add: edge_wf_def edge_is_current_def)
  next
    case False
    with wf defined show ?thesis by (auto simp: edge_wf_def edge_is_current_def split: option.splits)
  qed
qed

lemma plan_wf_node: "plan_wf s (ns, es) \<Longrightarrow> map_of ns k = Some n \<Longrightarrow> node_wf s ns k n"
  by (simp add: plan_wf_def)

lemma plan_wf_edge: "plan_wf s (ns, es) \<Longrightarrow> map_of es k = Some e \<Longrightarrow> edge_wf s ns k e"
  by (simp add: plan_wf_def)

lemma plan_wfI:
  assumes "bt_ordered ns" "bt_ordered es"
    and "\<And>k n. map_of ns k = Some n \<Longrightarrow> node_wf s ns k n"
    and "\<And>k e. map_of es k = Some e \<Longrightarrow> edge_wf s ns k e"
  shows "plan_wf s (ns, es)"
  using assms by (simp add: plan_wf_def)

lemma plan_wf_ordered: "plan_wf s (ns, es) \<Longrightarrow> bt_ordered ns \<and> bt_ordered es"
  by (simp add: plan_wf_def)

lemmas plan_wf_rules = plan_wf_node plan_wf_edge plan_wf_ordered[THEN conjunct1] plan_wf_ordered[THEN conjunct2]

section \<open>What each operation writes\<close>

lemma require_provenance_nonempty: "require_provenance i p = Inr u \<Longrightarrow> p \<noteq> []"
  by (simp add: require_provenance_def split: if_splits)

lemma validate_text_Inr: "validate_text f v = Inr u \<longleftrightarrow> trim v \<noteq> []"
  by (simp add: validate_text_def)

lemma current_node_Inr: "current_node ns k = Inr n \<longleftrightarrow> map_of ns k = Some n \<and> node_is_current n"
  by (auto simp: current_node_def attempt_Inr_iff)

lemma fresh_node_facts:
  "pn_id (fresh_node s d) = pnd_id d" "pn_kind (fresh_node s d) = pnd_kind d"
  "pn_introduced_revision (fresh_node s d) = s" "pn_updated_revision (fresh_node s d) = s"
  "node_is_current (fresh_node s d)" "pn_superseded_by (fresh_node s d) = None"
  by (simp_all add: fresh_node_def node_is_current_def)

lemma fresh_node_wf:
  assumes "require_provenance i (pnd_provenance d) = Inr u" "validate_text f (pnd_title d) = Inr u'"
    "validate_node_data (pnd_id d) (pnd_kind d) (pnd_data d) = Inr u''"
  shows "node_wf s ns (pnd_id d) (fresh_node s d)"
  using assms by (simp add: node_wf_def fresh_node_def validate_text_Inr require_provenance_nonempty)

lemma fresh_insert_extends:
  "map_of ns (pnd_id d) = None \<Longrightarrow> map_extends node_extends ns (bt_insert (pnd_id d) (fresh_node s d) ns)"
  by (intro map_extends_fresh) auto

lemma plan_wf_insert_fresh:
  assumes wf: "plan_wf s (ns, es)" and new: "map_of ns (pnd_id d) = None"
    and ok: "node_wf s (bt_insert (pnd_id d) (fresh_node s d) ns) (pnd_id d) (fresh_node s d)"
  shows "plan_wf s (bt_insert (pnd_id d) (fresh_node s d) ns, es)"
proof (rule plan_wfI)
  let ?ns = "bt_insert (pnd_id d) (fresh_node s d) ns"
  note ext = fresh_insert_extends[OF new, of s]
  show "node_wf s ?ns k n" if "map_of ?ns k = Some n" for k n
    using that ok wf node_wf_extends[OF ext] by (auto simp: plan_wf_def split: if_splits)
  fix k e assume e: "map_of es k = Some e"
  have before: "edge_wf s ns k e" using wf e by (rule plan_wf_edge)
  show "edge_wf s ?ns k e"
  proof (rule edge_wf_extends[OF ext before])
    fix x n assume c: "edge_is_current e" "x \<in> {pe_from e, pe_to e}" and n: "map_of ?ns x = Some n"
    from c before have "\<exists>m. map_of ns x = Some m \<and> node_is_current m"
      by (auto simp: edge_wf_def edge_is_current_def validate_edge_Inr_iff current_at_Some_iff)
    with n new show "node_is_current n" by (auto split: if_splits)
  qed
qed (use wf in \<open>auto simp: plan_wf_def\<close>)

lemma add_node_Inr:
  assumes "add_node s i d ns = Inr ns'"
  shows "map_of ns (pnd_id d) = None" "ns' = bt_insert (pnd_id d) (fresh_node s d) ns"
    "node_wf s ns' (pnd_id d) (fresh_node s d)"
proof -
  from assms obtain u where
      ok: "require_provenance i (pnd_provenance d) = Inr ()" "map_of ns (pnd_id d) = None"
      "validate_text ''node title'' (pnd_title d) = Inr ()"
      "validate_node_data (pnd_id d) (pnd_kind d) (pnd_data d) = Inr ()"
      "ns' = bt_insert (pnd_id d) (fresh_node s d) ns"
    by (auto simp: add_node_def attempt_Inr_iff split: if_splits)
  then show "map_of ns (pnd_id d) = None" "ns' = bt_insert (pnd_id d) (fresh_node s d) ns" by auto
  show "node_wf s ns' (pnd_id d) (fresh_node s d)" using ok(1,3,4) by (rule fresh_node_wf)
qed

lemma update_node_Inr:
  assumes "update_node s i k patch prov ns = Inr ns'"
  obtains node node' where "map_of ns k = Some node" "node_is_current node"
    "ns' = bt_insert k node' ns" "node_is_current node'"
    "pn_id node' = pn_id node" "pn_kind node' = pn_kind node"
    "pn_introduced_revision node' = pn_introduced_revision node" "pn_updated_revision node' = s"
    "pn_superseded_by node' = pn_superseded_by node"
    "pn_provenance node' = pn_provenance node @ prov"
    "trim (pn_title node) \<noteq> [] \<Longrightarrow> trim (pn_title node') \<noteq> []"
    "validate_node_data k (pn_kind node) (pn_data node) = Inr ()
       \<Longrightarrow> validate_node_data k (pn_kind node) (pn_data node') = Inr ()"
proof -
  from assms obtain node where node: "map_of ns k = Some node" "node_is_current node"
    and t: "(case np_title patch of None \<Rightarrow> Inr () | Some title \<Rightarrow> validate_text ''node title'' title) = Inr ()"
    and d: "(case np_data patch of None \<Rightarrow> Inr () | Some d \<Rightarrow> validate_node_data k (pn_kind node) d) = Inr ()"
    and ns': "ns' = bt_insert k (node\<lparr>pn_title := (case np_title patch of None \<Rightarrow> pn_title node | Some title \<Rightarrow> title),
                    pn_body := (case np_body patch of None \<Rightarrow> pn_body node | Some body \<Rightarrow> body),
                    pn_data := (case np_data patch of None \<Rightarrow> pn_data node | Some d \<Rightarrow> d),
                    pn_provenance := pn_provenance node @ prov,
                    pn_updated_revision := s\<rparr>) ns" (is "_ = bt_insert k ?n _")
    by (auto simp: update_node_def attempt_Inr_iff current_node_Inr)
  show thesis
    by (rule that[OF node ns'])
       (use node t d in \<open>auto simp: node_is_current_def validate_text_Inr split: option.splits\<close>)
qed

lemma supersede_node_Inr:
  assumes "supersede_node s i k d ns es = Inr (ns', es')"
  obtains old where "map_of ns k = Some old" "node_is_current old"
    "map_of ns (pnd_id d) = None" "pnd_kind d = pn_kind old"
    "ns' = bt_insert (pnd_id d) (fresh_node s d)
             (bt_insert k (old\<lparr>pn_superseded_revision := Some s, pn_superseded_by := Some (pnd_id d),
                              pn_updated_revision := s\<rparr>) ns)"
    "es' = bt_map (\<lambda>e. if touches_node k e then retire_edge s e else e) es"
    "node_wf s ns' (pnd_id d) (fresh_node s d)"
proof -
  from assms obtain old where ok: "require_provenance i (pnd_provenance d) = Inr ()"
      "map_of ns (pnd_id d) = None" "map_of ns k = Some old" "node_is_current old"
      "pnd_kind d = pn_kind old" "validate_text ''node title'' (pnd_title d) = Inr ()"
      "validate_node_data (pnd_id d) (pnd_kind d) (pnd_data d) = Inr ()"
      "ns' = bt_insert (pnd_id d) (fresh_node s d)
             (bt_insert k (old\<lparr>pn_superseded_revision := Some s, pn_superseded_by := Some (pnd_id d),
                              pn_updated_revision := s\<rparr>) ns)"
      "es' = bt_map (\<lambda>e. if touches_node k e then retire_edge s e else e) es"
    by (auto simp: supersede_node_def attempt_Inr_iff current_node_Inr split: if_splits)
  then show thesis by (intro that[OF ok(3,4,2,5,8,9)] fresh_node_wf)
qed

lemma add_edge_Inr:
  assumes "add_plan_edge s i d ns es = Inr es'"
  obtains edge where "map_of es (ped_id d) = None" "es' = bt_insert (ped_id d) edge es"
    "pe_id edge = ped_id d" "edge_is_current edge" "pe_introduced_revision edge = s"
    "pe_provenance edge \<noteq> []" "validate_edge edge ns = Inr ()"
proof -
  from assms have ok: "require_provenance i (ped_provenance d) = Inr ()"
      "map_of es (ped_id d) = None" "validate_edge_draft d ns = Inr ()"
      "es' = bt_insert (ped_id d)
              \<lparr>pe_id = ped_id d, pe_from = ped_from d, pe_relation = ped_relation d,
               pe_to = ped_to d, pe_provenance = ped_provenance d,
               pe_introduced_revision = s, pe_superseded_revision = None\<rparr> es"
    by (auto simp: add_plan_edge_def attempt_Inr_iff split: if_splits)
  show thesis
    by (rule that[OF ok(2,4)])
       (use ok(3) require_provenance_nonempty[OF ok(1)] in
        \<open>simp_all add: edge_is_current_def validate_edge_def validate_edge_draft_def\<close>)
qed

lemma remove_edge_Inr:
  assumes "remove_plan_edge s i k prov es = Inr es'"
  obtains edge where "map_of es k = Some edge" "edge_is_current edge"
    "es' = bt_insert k (edge\<lparr>pe_provenance := pe_provenance edge @ prov,
                             pe_superseded_revision := Some s\<rparr>) es"
  using assms by (auto simp: remove_plan_edge_def attempt_Inr_iff split: if_splits)

end
