(* ===== verification/PlanHistory.thy ===== *)
theory PlanHistory
  imports PlanLaws
begin

text \<open>
  Edits keep the plan's invariant and only add to its history. The locale \<open>plan_edit\<close> states what one edit
  promises and derives the same for a run of edits; it is interpreted on \<open>apply_change\<close>. Then revisions: the
  snapshots a project can reach, their invariant, and the chain of revisions behind a snapshot.
\<close>

section \<open>What one edit promises\<close>

locale plan_edit =
  fixes edit :: "u64 \<Rightarrow> plan_nodes \<times> plan_edges \<Rightarrow> 'c \<Rightarrow> (plan_nodes \<times> plan_edges) planned"
  assumes keeps_wf: "edit s g c = Inr h \<Longrightarrow> plan_wf s g \<Longrightarrow> plan_wf s h"
    and extends: "edit s g c = Inr h \<Longrightarrow> plan_extends g h"
begin

lemma run_keeps_wf: "try_fold (edit s) g cs = Inr h \<Longrightarrow> plan_wf s g \<Longrightarrow> plan_wf s h"
  by (erule try_fold_keeps) (auto intro: keeps_wf)

lemma run_extends: "try_fold (edit s) g cs = Inr h \<Longrightarrow> plan_extends g h"
  by (erule try_fold_keeps[where P = "plan_extends g"]) (auto intro: plan_extends_trans extends)

end

section \<open>Each operation\<close>

lemma add_node_extends: "add_node s i d ns = Inr ns' \<Longrightarrow> plan_extends (ns, es) (ns', es)"
  using add_node_Inr[of s i d ns ns'] fresh_insert_extends
  by (simp add: plan_extends_def map_extends_refl)

lemma add_node_wf: "add_node s i d ns = Inr ns' \<Longrightarrow> plan_wf s (ns, es) \<Longrightarrow> plan_wf s (ns', es)"
  using add_node_Inr[of s i d ns ns'] plan_wf_insert_fresh by metis

lemma update_node_extends:
  assumes "update_node s i k patch prov ns = Inr ns'"
  shows "plan_extends (ns, es) (ns', es)"
  using assms
proof (rule update_node_Inr)
  fix node node' assume *: "map_of ns k = Some node" "node_is_current node" "ns' = bt_insert k node' ns"
    "pn_id node' = pn_id node" "pn_kind node' = pn_kind node"
    "pn_introduced_revision node' = pn_introduced_revision node"
    "pn_provenance node' = pn_provenance node @ prov"
  have "map_extends node_extends ns (bt_insert k node' ns)"
    by (rule map_extends_update[OF _ *(1)]) (use * in \<open>simp_all add: node_extends_def\<close>)
  with * show ?thesis by (simp add: plan_extends_def map_extends_refl)
qed

lemma update_node_wf:
  assumes op: "update_node s i k patch prov ns = Inr ns'" and wf: "plan_wf s (ns, es)"
  shows "plan_wf s (ns', es)"
  using op
proof (rule update_node_Inr)
  fix node node' assume *: "map_of ns k = Some node" "node_is_current node" "ns' = bt_insert k node' ns"
    "node_is_current node'" "pn_id node' = pn_id node" "pn_kind node' = pn_kind node"
    "pn_introduced_revision node' = pn_introduced_revision node" "pn_updated_revision node' = s"
    "pn_superseded_by node' = pn_superseded_by node" "pn_provenance node' = pn_provenance node @ prov"
    "trim (pn_title node) \<noteq> [] \<Longrightarrow> trim (pn_title node') \<noteq> []"
    "validate_node_data k (pn_kind node) (pn_data node) = Inr ()
       \<Longrightarrow> validate_node_data k (pn_kind node) (pn_data node') = Inr ()"
  have ext: "map_extends node_extends ns ns'"
    using update_node_extends[OF op, of es] by (simp add: plan_extends_def)
  have old: "node_wf s ns k node" using wf *(1) by (rule plan_wf_node)
  then have new: "node_wf s ns' k node'"
    using * by (auto simp: node_wf_def node_is_current_def intro: order_trans split: option.splits)
  show ?thesis
  proof (rule plan_wfI)
    show "node_wf s ns' l n" if "map_of ns' l = Some n" for l n
      using that new node_wf_extends[OF ext plan_wf_node[OF wf]] *(3) by (auto split: if_splits)
    fix l e assume e: "map_of es l = Some e"
    have before: "edge_wf s ns l e" using wf e by (rule plan_wf_edge)
    show "edge_wf s ns' l e"
    proof (rule edge_wf_extends[OF ext before])
      fix x n assume c: "edge_is_current e" "x \<in> {pe_from e, pe_to e}" and n: "map_of ns' x = Some n"
      from c before have "\<exists>m. map_of ns x = Some m \<and> node_is_current m"
        by (auto simp: edge_wf_def edge_is_current_def validate_edge_Inr_iff current_at_Some_iff)
      with n *(3,4) show "node_is_current n" by (auto split: if_splits)
    qed
  qed (use wf *(3) in \<open>auto simp: plan_wf_def\<close>)
qed

lemma retire_edge_extends:
  "edge_extends e (if touches_node k e then retire_edge s e else e)"
  by (simp add: edge_extends_def touches_node_def retire_edge_def edge_is_current_def)

lemma supersede_node_extends:
  assumes "supersede_node s i k d ns es = Inr (ns', es')"
  shows "plan_extends (ns, es) (ns', es')"
  using assms
proof (rule supersede_node_Inr)
  fix old assume *: "map_of ns k = Some old" "node_is_current old" "map_of ns (pnd_id d) = None"
    "ns' = bt_insert (pnd_id d) (fresh_node s d)
             (bt_insert k (old\<lparr>pn_superseded_revision := Some s, pn_superseded_by := Some (pnd_id d),
                              pn_updated_revision := s\<rparr>) ns)"
    "es' = bt_map (\<lambda>e. if touches_node k e then retire_edge s e else e) es"
  let ?mid = "bt_insert k (old\<lparr>pn_superseded_revision := Some s, pn_superseded_by := Some (pnd_id d),
                              pn_updated_revision := s\<rparr>) ns"
  have "map_extends node_extends ns ?mid"
    by (rule map_extends_update[OF _ *(1)]) (use *(2) in \<open>simp_all add: node_extends_def\<close>)
  moreover have "map_extends node_extends ?mid ns'"
    unfolding *(4) by (rule fresh_insert_extends) (use *(1,3) in auto)
  ultimately have "map_extends node_extends ns ns'"
    using map_extends_trans[of node_extends] node_extends_trans by blast
  moreover have "map_extends edge_extends es es'"
    unfolding *(5) by (rule map_extends_map) (rule retire_edge_extends)
  ultimately show ?thesis by (simp add: plan_extends_def)
qed

lemma supersede_node_wf:
  assumes op: "supersede_node s i k d ns es = Inr (ns', es')" and wf: "plan_wf s (ns, es)"
  shows "plan_wf s (ns', es')"
  using op
proof (rule supersede_node_Inr)
  fix old assume *: "map_of ns k = Some old" "node_is_current old" "map_of ns (pnd_id d) = None"
    "pnd_kind d = pn_kind old"
    "ns' = bt_insert (pnd_id d) (fresh_node s d)
             (bt_insert k (old\<lparr>pn_superseded_revision := Some s, pn_superseded_by := Some (pnd_id d),
                              pn_updated_revision := s\<rparr>) ns)"
    "es' = bt_map (\<lambda>e. if touches_node k e then retire_edge s e else e) es"
    "node_wf s ns' (pnd_id d) (fresh_node s d)"
  have ext: "map_extends node_extends ns ns'"
    using supersede_node_extends[OF op] by (simp add: plan_extends_def)
  have diff: "k \<noteq> pnd_id d" using *(1,3) by auto
  have old: "node_wf s ns k old" using wf *(1) by (rule plan_wf_node)
  have new: "node_wf s ns' k (old\<lparr>pn_superseded_revision := Some s, pn_superseded_by := Some (pnd_id d),
                              pn_updated_revision := s\<rparr>)"
    using old diff *(4,5) by (auto simp: node_wf_def fresh_node_facts intro: order_trans)
  show ?thesis
  proof (rule plan_wfI)
    show "node_wf s ns' l n" if "map_of ns' l = Some n" for l n
      using that new *(5,7) node_wf_extends[OF ext plan_wf_node[OF wf]] by (auto split: if_splits)
    fix l e' assume "map_of es' l = Some e'"
    then obtain e where e: "map_of es l = Some e"
        "e' = (if touches_node k e then retire_edge s e else e)"
      by (auto simp: *(6))
    have before: "edge_wf s ns l e" using wf e(1) by (rule plan_wf_edge)
    show "edge_wf s ns' l e'"
    proof (rule edge_wf_extends[OF ext])
      show "edge_wf s ns l e'"
        using before e(2)
        by (auto simp: edge_wf_def retire_edge_def touches_node_def edge_is_current_def)
      fix x n assume c: "edge_is_current e'" "x \<in> {pe_from e', pe_to e'}" and n: "map_of ns' x = Some n"
      have keep: "e' = e" and notk: "x \<noteq> k"
        using c e(2) by (auto simp: touches_node_def retire_edge_def edge_is_current_def split: if_splits)
      from c before keep have "\<exists>m. map_of ns x = Some m \<and> node_is_current m"
        by (auto simp: edge_wf_def edge_is_current_def validate_edge_Inr_iff current_at_Some_iff)
      with n notk show "node_is_current n" by (auto simp: *(5) fresh_node_facts split: if_splits)
    qed
  qed (use wf *(5,6) in \<open>auto simp: plan_wf_def\<close>)
qed

lemma add_edge_extends: "add_plan_edge s i d ns es = Inr es' \<Longrightarrow> plan_extends (ns, es) (ns, es')"
  by (erule add_edge_Inr) (simp add: plan_extends_def map_extends_refl map_extends_fresh)

lemma add_edge_wf:
  assumes op: "add_plan_edge s i d ns es = Inr es'" and wf: "plan_wf s (ns, es)"
  shows "plan_wf s (ns, es')"
  using op
proof (rule add_edge_Inr)
  fix edge assume *: "es' = bt_insert (ped_id d) edge es" "pe_id edge = ped_id d" "edge_is_current edge"
    "pe_introduced_revision edge = s" "pe_provenance edge \<noteq> []" "validate_edge edge ns = Inr ()"
  then have "edge_wf s ns (ped_id d) edge"
    by (auto simp: edge_wf_def edge_is_current_def validate_edge_Inr_iff current_at_Some_iff)
  with wf *(1) show ?thesis by (auto simp: plan_wf_def)
qed

lemma remove_edge_extends: "remove_plan_edge s i k prov es = Inr es' \<Longrightarrow> plan_extends (ns, es) (ns, es')"
proof (erule remove_edge_Inr)
  fix edge assume *: "map_of es k = Some edge" "edge_is_current edge"
    "es' = bt_insert k (edge\<lparr>pe_provenance := pe_provenance edge @ prov, pe_superseded_revision := Some s\<rparr>) es"
  have "map_extends edge_extends es es'"
    unfolding *(3)
    by (rule map_extends_update[OF _ *(1)]) (use *(2) in \<open>simp_all add: edge_extends_def edge_is_current_def\<close>)
  then show ?thesis by (simp add: plan_extends_def map_extends_refl)
qed

lemma remove_edge_wf:
  assumes op: "remove_plan_edge s i k prov es = Inr es'" and wf: "plan_wf s (ns, es)"
  shows "plan_wf s (ns, es')"
  using op
proof (rule remove_edge_Inr)
  fix edge assume *: "map_of es k = Some edge"
    "es' = bt_insert k (edge\<lparr>pe_provenance := pe_provenance edge @ prov, pe_superseded_revision := Some s\<rparr>) es"
  have "edge_wf s ns k edge" using wf *(1) by (rule plan_wf_edge)
  then have "edge_wf s ns k (edge\<lparr>pe_provenance := pe_provenance edge @ prov, pe_superseded_revision := Some s\<rparr>)"
    by (auto simp: edge_wf_def)
  with wf *(2) show ?thesis by (auto simp: plan_wf_def)
qed

interpretation pe: plan_edit apply_change
proof unfold_locales
  fix s g c h assume op: "apply_change s g c = Inr h"
  obtain ns es i ch where shape: "g = (ns, es)" "c = (i, ch)" by (cases g, cases c)
  show "plan_extends g h"
    using op shape
    by (cases ch; cases h)
       (auto simp: apply_change_def attempt_Inr_iff
         intro: add_node_extends update_node_extends supersede_node_extends add_edge_extends
           remove_edge_extends)
  show "plan_wf s h" if "plan_wf s g"
    using op that shape
    by (cases ch; cases h)
       (auto simp: apply_change_def attempt_Inr_iff
         intro: add_node_wf update_node_wf supersede_node_wf add_edge_wf remove_edge_wf)
qed

lemma apply_changes_wf: "apply_changes s cs g = Inr h \<Longrightarrow> plan_wf s g \<Longrightarrow> plan_wf s h"
  unfolding apply_changes_def by (rule pe.run_keeps_wf)

lemma apply_changes_extends: "apply_changes s cs g = Inr h \<Longrightarrow> plan_extends g h"
  unfolding apply_changes_def by (rule pe.run_extends)

end
