(* ===== verification/PlanChain.thy ===== *)
theory PlanChain
  imports PlanHistory
begin

text \<open>
  Snapshots of a project as a state machine: \<open>plan_reachable\<close> are the snapshots that \<open>create\<close> and \<open>apply\<close>
  can return, \<open>plan_descends\<close> relates a snapshot to the ones built on it. The lemmas say what a successful
  \<open>create\<close> or \<open>apply\<close> fixes; the properties are the invariant of a snapshot, the history behind it, the
  chain of successors of a superseded node and what is left for \<open>validate_graph\<close> to refuse.
\<close>

section \<open>Reachable snapshots\<close>

inductive plan_reachable :: "content_digest \<Rightarrow> ProjectSnapshot \<Rightarrow> bool" for digest where
  created: "ProjectSnapshot_create digest command = Inr s \<Longrightarrow> plan_reachable digest s"
| applied: "plan_reachable digest s \<Longrightarrow> ProjectSnapshot_apply digest s change_set = Inr t
    \<Longrightarrow> plan_reachable digest t"

inductive plan_descends :: "content_digest \<Rightarrow> ProjectSnapshot \<Rightarrow> ProjectSnapshot \<Rightarrow> bool" for digest where
  same: "plan_descends digest s s"
| later: "plan_descends digest s t \<Longrightarrow> ProjectSnapshot_apply digest t change_set = Inr u
    \<Longrightarrow> plan_descends digest s u"

definition snapshot_graph :: "ProjectSnapshot \<Rightarrow> plan_nodes \<times> plan_edges" where
  "snapshot_graph s = (rv_nodes (sn_revision s), rv_edges (sn_revision s))"

definition snapshot_ok :: "content_digest \<Rightarrow> ProjectSnapshot \<Rightarrow> bool" where
  "snapshot_ok digest s =
     (let project = sn_project s; revision = sn_revision s in
      rv_project_id revision = pj_id project
      \<and> trim (pj_title project) \<noteq> []
      \<and> rv_created_at revision = pj_updated_at project
      \<and> pj_created_at project \<le> pj_updated_at project
      \<and> (rv_parent_revision revision = None \<longleftrightarrow> rv_sequence revision = 0)
      \<and> canonical_revision_id digest project revision = Inr (rv_id revision)
      \<and> plan_wf (rv_sequence revision) (snapshot_graph s)
      \<and> validate_graph (rv_nodes revision) (rv_edges revision) = Inr ())"

lemma with_canonical_id_Inr:
  "with_canonical_id digest project r = Inr r' \<longleftrightarrow>
     (\<exists>k. canonical_revision_id digest project r = Inr k \<and> r' = r\<lparr>rv_id := k\<rparr>)"
  by (auto simp: with_canonical_id_def attempt_Inr_iff)

lemma canonical_revision_id_of_id [simp]:
  "canonical_revision_id digest project (r\<lparr>rv_id := k\<rparr>) = canonical_revision_id digest project r"
  by (simp add: canonical_revision_id_def)

lemma ProjectSnapshot_create_Inr:
  assumes "ProjectSnapshot_create digest command = Inr s"
  shows "apply_changes 0 (cp_initial_changes command) ([], []) = Inr (snapshot_graph s)"
    and "validate_graph (rv_nodes (sn_revision s)) (rv_edges (sn_revision s)) = Inr ()"
    and "canonical_revision_id digest (sn_project s) (sn_revision s) = Inr (rv_id (sn_revision s))"
    and "rv_sequence (sn_revision s) = 0" "rv_parent_revision (sn_revision s) = None"
    and "rv_project_id (sn_revision s) = pj_id (sn_project s)" "pj_id (sn_project s) = cp_project_id command"
    and "rv_request_id (sn_revision s) = cp_request_id command"
    and "trim (pj_title (sn_project s)) \<noteq> []"
    and "pj_created_at (sn_project s) = cp_created_at command"
    and "pj_updated_at (sn_project s) = cp_created_at command"
    and "rv_created_at (sn_revision s) = cp_created_at command"
  using assms
  by (auto simp: ProjectSnapshot_create_def attempt_Inr_iff Let_def with_canonical_id_Inr
      canonical_revision_id_def snapshot_graph_def validate_text_Inr split: prod.splits)

lemma patch_project_Inr:
  assumes "patch_project n patch project = Inr project'"
  shows "pj_id project' = pj_id project \<and> pj_created_at project' = pj_created_at project
     \<and> (trim (pj_title project) \<noteq> [] \<longrightarrow> trim (pj_title project') \<noteq> [])"
proof -
  from assms have "optional (validate_text ''project title'') (pp_title patch) = Inr ()"
      "pj_title project' = (case pp_title patch of None \<Rightarrow> pj_title project | Some v \<Rightarrow> v)"
      "pj_id project' = pj_id project" "pj_created_at project' = pj_created_at project"
    unfolding patch_project_def by (auto simp: attempt_Inr_iff split: if_split_asm)
  then show ?thesis by (cases "pp_title patch") (simp_all add: optional_def validate_text_Inr)
qed

lemma ProjectRevision_apply_Inr:
  assumes "ProjectRevision_apply digest r project cs = Inr r'"
  shows "rv_project_id r = pj_id project" "rv_project_id r' = pj_id project"
    and "rv_sequence r \<noteq> - 1" "rv_sequence r' = rv_sequence r + 1"
    and "rv_parent_revision r' = Some (rv_id r)" "cs_parent_revision cs = rv_id r"
    and "rv_request_id r' = cs_request_id cs" "rv_created_at r' = cs_created_at cs"
    and "apply_changes (rv_sequence r + 1) (cs_changes cs) (rv_nodes r, rv_edges r) = Inr (rv_nodes r', rv_edges r')"
    and "validate_graph (rv_nodes r') (rv_edges r') = Inr ()"
    and "canonical_revision_id digest project r' = Inr (rv_id r')"
  using assms
  by (auto simp: ProjectRevision_apply_def attempt_Inr_iff Let_def with_canonical_id_Inr
      canonical_revision_id_def split: if_splits prod.splits)

lemma ProjectSnapshot_apply_Inr:
  assumes "ProjectSnapshot_apply digest s cs = Inr t"
  shows "ProjectRevision_apply digest (sn_revision s) (sn_project t) cs = Inr (sn_revision t)"
    and "pj_id (sn_project t) = pj_id (sn_project s)"
    and "pj_created_at (sn_project t) = pj_created_at (sn_project s)"
    and "trim (pj_title (sn_project s)) \<noteq> [] \<Longrightarrow> trim (pj_title (sn_project t)) \<noteq> []"
    and "pj_updated_at (sn_project s) \<le> cs_created_at cs"
    and "pj_updated_at (sn_project t) = cs_created_at cs"
proof -
  from assms obtain p where p: "(case cs_project_patch cs of
            None \<Rightarrow> Inr (sn_project s)
          | Some patch \<Rightarrow> patch_project (length (cs_changes cs)) patch (sn_project s)) = Inr p"
      "pj_updated_at (sn_project s) \<le> cs_created_at cs"
      "sn_project t = p\<lparr>pj_updated_at := cs_created_at cs\<rparr>"
      "ProjectRevision_apply digest (sn_revision s) (p\<lparr>pj_updated_at := cs_created_at cs\<rparr>) cs
         = Inr (sn_revision t)"
    by (auto simp: ProjectSnapshot_apply_def attempt_Inr_iff Let_def split: if_splits)
  moreover from p(1) have "pj_id p = pj_id (sn_project s) \<and> pj_created_at p = pj_created_at (sn_project s)
      \<and> (trim (pj_title (sn_project s)) \<noteq> [] \<longrightarrow> trim (pj_title p) \<noteq> [])"
    by (auto split: option.splits dest: patch_project_Inr)
  ultimately show "ProjectRevision_apply digest (sn_revision s) (sn_project t) cs = Inr (sn_revision t)"
    "pj_id (sn_project t) = pj_id (sn_project s)"
    "pj_created_at (sn_project t) = pj_created_at (sn_project s)"
    "trim (pj_title (sn_project s)) \<noteq> [] \<Longrightarrow> trim (pj_title (sn_project t)) \<noteq> []"
    "pj_updated_at (sn_project s) \<le> cs_created_at cs"
    "pj_updated_at (sn_project t) = cs_created_at cs"
    by simp_all
qed

lemmas snapshot_apply_facts =
  ProjectRevision_apply_Inr[OF ProjectSnapshot_apply_Inr(1)] ProjectSnapshot_apply_Inr(2-)

lemma sequence_grows:
  assumes "(s :: u64) \<noteq> - 1"
  shows "s \<le> s + 1 \<and> s + 1 \<noteq> 0"
proof -
  have "s + 1 \<noteq> 0" using assms by (simp add: eq_neg_iff_add_eq_0)
  then have "unat (1 + s) = Suc (unat s)" by (intro unatSuc) (simp add: add.commute)
  with \<open>s + 1 \<noteq> 0\<close> show ?thesis by (simp add: word_le_nat_alt add.commute)
qed

section \<open>The invariant of a snapshot\<close>

lemma plan_wf_empty: "plan_wf s ([], [])"
  by (simp add: plan_wf_def)

lemma create_ok: "ProjectSnapshot_create digest command = Inr s \<Longrightarrow> snapshot_ok digest s"
  using ProjectSnapshot_create_Inr[of digest command s]
    apply_changes_wf[of 0 "cp_initial_changes command" "([], [])" "snapshot_graph s"] plan_wf_empty
  by (simp add: snapshot_ok_def Let_def)

lemma ready_for_next:
  assumes ok: "snapshot_ok digest s" and "rv_sequence (sn_revision s) \<noteq> - 1"
  shows "plan_wf (rv_sequence (sn_revision s) + 1) (rv_nodes (sn_revision s), rv_edges (sn_revision s))"
proof -
  have "plan_wf (rv_sequence (sn_revision s)) (snapshot_graph s)"
    using ok by (simp add: snapshot_ok_def Let_def)
  from plan_wf_mono[OF conjunct1[OF sequence_grows[OF assms(2)]] this] show ?thesis
    by (simp add: snapshot_graph_def)
qed

lemma apply_ok:
  assumes step: "ProjectSnapshot_apply digest s cs = Inr t" and ok: "snapshot_ok digest s"
  shows "snapshot_ok digest t"
proof -
  note f = snapshot_apply_facts[OF step]
  have "plan_wf (rv_sequence (sn_revision t)) (snapshot_graph t)"
    unfolding f(4) snapshot_graph_def using f(9) ready_for_next[OF ok f(3)] by (rule apply_changes_wf)
  with f ok sequence_grows[OF f(3)] show ?thesis by (auto simp: snapshot_ok_def Let_def)
qed

lemma reachable_ok: "plan_reachable digest s \<Longrightarrow> snapshot_ok digest s"
  by (induction rule: plan_reachable.induct) (auto intro: create_ok apply_ok)

text \<open>Every snapshot of a project is well formed, whatever edits led to it. Its graph satisfies
  \<open>plan_wf\<close> (ids are keys, recorded revisions are in order, a superseded node names a successor of its kind,
  a current edge joins current nodes its relation allows) and passes \<open>validate_graph\<close>; the revision belongs to
  the project, carries the project's latest time, has a parent exactly when it is not the first, and its id
  is the digest of its content.\<close>

theorem snapshots_are_well_formed: "plan_reachable digest s \<Longrightarrow> snapshot_ok digest s"
  by (rule reachable_ok)

section \<open>The history behind a snapshot\<close>

lemma apply_extends:
  "ProjectSnapshot_apply digest s cs = Inr t \<Longrightarrow> plan_extends (snapshot_graph s) (snapshot_graph t)"
  using snapshot_apply_facts(9)[of digest s cs t] apply_changes_extends by (simp add: snapshot_graph_def)

definition snapshot_extends :: "ProjectSnapshot \<Rightarrow> ProjectSnapshot \<Rightarrow> bool" where
  "snapshot_extends s t =
     (pj_id (sn_project t) = pj_id (sn_project s)
      \<and> pj_created_at (sn_project t) = pj_created_at (sn_project s)
      \<and> pj_updated_at (sn_project s) \<le> pj_updated_at (sn_project t)
      \<and> rv_project_id (sn_revision t) = rv_project_id (sn_revision s)
      \<and> rv_sequence (sn_revision s) \<le> rv_sequence (sn_revision t)
      \<and> plan_extends (snapshot_graph s) (snapshot_graph t))"

lemma apply_snapshot_extends:
  "ProjectSnapshot_apply digest s cs = Inr t \<Longrightarrow> snapshot_extends s t"
  using snapshot_apply_facts[of digest s cs t] sequence_grows apply_extends[of digest s cs t]
  by (auto simp: snapshot_extends_def)

lemma snapshot_extends_refl: "snapshot_extends s s"
  by (simp add: snapshot_extends_def)

lemma snapshot_extends_trans:
  "snapshot_extends s t \<Longrightarrow> snapshot_extends t u \<Longrightarrow> snapshot_extends s u"
  by (auto simp: snapshot_extends_def intro: plan_extends_trans order_trans)

lemma descends_extends: "plan_descends digest s t \<Longrightarrow> snapshot_extends s t"
  by (induction rule: plan_descends.induct)
     (auto intro: snapshot_extends_refl snapshot_extends_trans apply_snapshot_extends)

text \<open>C13: history is append-only. From a snapshot to any snapshot built on it no node and no edge
  disappears, ids, kinds, endpoints and first revisions stay, provenance only gains entries at the end, a
  superseded node and a retired edge are frozen, and the project's id and creation time stay while its time
  and its sequence never go back.\<close>

theorem history_is_append_only: "plan_descends digest s t \<Longrightarrow> snapshot_extends s t"
  by (rule descends_extends)

end
