(* ===== verification/PlanLineage.thy ===== *)
theory PlanLineage
  imports PlanChain
begin

text \<open>
  The successors of a node. A replacement always has a new id, so the links \<open>superseded_by\<close> form chains: no
  node replaces two nodes, no chain returns to a node it left, and each chain ends in one current node of the
  same kind. The locale \<open>plan_lineage\<close> extends \<open>plan_edit\<close> by that promise. The last section shows what a
  graph check can still refuse once the edits have gone through.
\<close>

definition replaced_by :: "plan_nodes \<Rightarrow> (NodeId \<times> NodeId) set" where
  "replaced_by nodes = {(k, r). \<exists>n. map_of nodes k = Some n \<and> pn_superseded_by n = Some r}"

definition lineage_ok :: "plan_nodes \<Rightarrow> bool" where
  "lineage_ok nodes \<longleftrightarrow>
     acyclic (replaced_by nodes)
     \<and> (\<forall>k k' r. (k, r) \<in> replaced_by nodes \<and> (k', r) \<in> replaced_by nodes \<longrightarrow> k = k')"

locale plan_lineage = plan_edit +
  assumes keeps_lineage: "edit s g c = Inr h \<Longrightarrow> plan_wf s g \<Longrightarrow> lineage_ok (fst g) \<Longrightarrow> lineage_ok (fst h)"
begin

lemma run_keeps_lineage:
  assumes "try_fold (edit s) g cs = Inr h" "plan_wf s g" "lineage_ok (fst g)"
  shows "lineage_ok (fst h)"
proof -
  have "plan_wf s h \<and> lineage_ok (fst h)"
    using assms(1) by (rule try_fold_keeps) (use assms(2,3) in \<open>auto intro: keeps_wf keeps_lineage\<close>)
  then show ?thesis ..
qed

end

section \<open>Each operation\<close>

lemma replaced_by_fresh:
  "map_of ns k = None \<Longrightarrow> pn_superseded_by n = None \<Longrightarrow> replaced_by (bt_insert k n ns) = replaced_by ns"
  by (auto simp: replaced_by_def split: if_splits)

lemma replaced_by_update:
  "map_of ns k = Some n \<Longrightarrow> pn_superseded_by m = pn_superseded_by n
    \<Longrightarrow> replaced_by (bt_insert k m ns) = replaced_by ns"
  by (auto simp: replaced_by_def split: if_splits)

lemma replaced_by_supersede:
  "map_of ns k = Some n \<Longrightarrow> pn_superseded_by n = None \<Longrightarrow> pn_superseded_by m = Some r
    \<Longrightarrow> replaced_by (bt_insert k m ns) = insert (k, r) (replaced_by ns)"
  by (auto simp: replaced_by_def split: if_splits)

lemma current_has_no_successor:
  "node_wf s ns k n \<Longrightarrow> pn_superseded_by n = None \<longleftrightarrow> node_is_current n"
  by (auto simp: node_wf_def node_is_current_def split: option.splits)

lemma replaced_by_known:
  "plan_wf s (ns, es) \<Longrightarrow> (k, r) \<in> replaced_by ns \<Longrightarrow> map_of ns k \<noteq> None \<and> map_of ns r \<noteq> None"
  by (fastforce simp: replaced_by_def node_wf_def dest: plan_wf_node split: option.splits)

lemma supersede_node_lineage:
  assumes op: "supersede_node s i k d ns es = Inr (ns', es')" and wf: "plan_wf s (ns, es)"
    and ok: "lineage_ok ns"
  shows "lineage_ok ns'"
  using op
proof (rule supersede_node_Inr)
  let ?R = "replaced_by ns"
  fix old assume *: "map_of ns k = Some old" "node_is_current old" "map_of ns (pnd_id d) = None"
    "ns' = bt_insert (pnd_id d) (fresh_node s d)
             (bt_insert k (old\<lparr>pn_superseded_revision := Some s, pn_superseded_by := Some (pnd_id d),
                              pn_updated_revision := s\<rparr>) ns)"
  have none: "pn_superseded_by old = None"
    using current_has_no_successor plan_wf_node[OF wf *(1)] *(2) by auto
  have diff: "k \<noteq> pnd_id d" using *(1,3) by auto
  have R: "replaced_by ns' = insert (k, pnd_id d) ?R"
    using *(1,3) none diff
    by (simp add: *(4) replaced_by_fresh replaced_by_supersede fresh_node_facts)
  have out: "(pnd_id d, x) \<notin> ?R" and into: "(x, pnd_id d) \<notin> ?R" for x
    using replaced_by_known[OF wf] *(3) by blast+
  from out diff have "(pnd_id d, k) \<notin> ?R\<^sup>*" by (metis converse_rtranclE)
  then have "acyclic (replaced_by ns')" unfolding R using ok by (simp add: lineage_ok_def acyclic_insert)
  then show ?thesis using ok into unfolding lineage_ok_def R by blast
qed

lemma add_node_lineage:
  assumes "add_node s i d ns = Inr ns'" "lineage_ok ns"
  shows "lineage_ok ns'"
  using add_node_Inr[OF assms(1)] assms(2)
  by (simp add: lineage_ok_def replaced_by_fresh fresh_node_facts)

lemma update_node_lineage:
  assumes "update_node s i k patch prov ns = Inr ns'" "lineage_ok ns"
  shows "lineage_ok ns'"
  using assms(1) by (rule update_node_Inr) (use assms(2) in \<open>simp add: lineage_ok_def replaced_by_update\<close>)

interpretation pl: plan_lineage apply_change
proof unfold_locales
  fix s g c h assume op: "apply_change s g c = Inr h" and "plan_wf s g" "lineage_ok (fst g)"
  moreover obtain ns es i ch where "g = (ns, es)" "c = (i, ch)" by (cases g, cases c)
  ultimately show "lineage_ok (fst h)"
    by (cases ch; cases h)
       (auto simp: apply_change_def attempt_Inr_iff
         intro: add_node_lineage update_node_lineage supersede_node_lineage)
qed

section \<open>Chains end in a current node\<close>

lemma reachable_lineage: "plan_reachable digest s \<Longrightarrow> lineage_ok (fst (snapshot_graph s))"
proof (induction rule: plan_reachable.induct)
  case (created command s)
  have "lineage_ok []" by (simp add: lineage_ok_def replaced_by_def acyclic_def)
  moreover have "plan_wf 0 ([], [])" by (rule plan_wf_empty)
  ultimately show ?case
    using pl.run_keeps_lineage[OF ProjectSnapshot_create_Inr(1)[OF created, unfolded apply_changes_def]]
    by simp
next
  case (applied s cs t)
  note f = snapshot_apply_facts[OF applied.hyps(2)]
  have "snapshot_ok digest s" using applied.hyps(1) by (rule reachable_ok)
  from pl.run_keeps_lineage[OF f(9)[unfolded apply_changes_def] ready_for_next[OF this f(3)]] applied.IH
  show ?case by (simp add: snapshot_graph_def)
qed

lemma chain_end:
  assumes wf: "plan_wf s (ns, es)" and ok: "lineage_ok ns" and k: "map_of ns k = Some n"
  shows "\<exists>m e. (k, m) \<in> (replaced_by ns)\<^sup>* \<and> current_at ns m = Some e \<and> pn_kind e = pn_kind n"
proof -
  have "replaced_by ns \<subseteq> dom (map_of ns) \<times> dom (map_of ns)"
    using replaced_by_known[OF wf] by auto
  then have "finite (replaced_by ns)"
    by (rule finite_subset) (simp add: finite_dom_map_of)
  then have "wf ((replaced_by ns)\<inverse>)" using ok by (simp add: lineage_ok_def finite_acyclic_wf_converse)
  then show ?thesis using k
  proof (induction k arbitrary: n rule: wf_induct_rule)
    case (less k)
    have nwf: "node_wf s ns k n" using wf less.prems by (rule plan_wf_node)
    show ?case
    proof (cases "pn_superseded_by n")
      case None
      with nwf less.prems show ?thesis
        by (auto simp: current_at_Some_iff current_has_no_successor)
    next
      case (Some r)
      with nwf obtain m where m: "map_of ns r = Some m" "pn_kind m = pn_kind n"
        by (auto simp: node_wf_def split: option.splits)
      have step: "(k, r) \<in> replaced_by ns" using less.prems Some by (auto simp: replaced_by_def)
      then show ?thesis
        using less.IH[of r m] m by (auto intro: converse_rtrancl_into_rtrancl)
    qed
  qed
qed

lemma chain_end_unique:
  assumes wf: "plan_wf s (ns, es)"
    and "(k, m) \<in> (replaced_by ns)\<^sup>*" "(k, m') \<in> (replaced_by ns)\<^sup>*"
    and "current_at ns m \<noteq> None" "current_at ns m' \<noteq> None"
  shows "m = m'"
proof -
  have sv: "single_valued (replaced_by ns)" by (auto simp: single_valued_def replaced_by_def)
  have no_step: "current_at ns x \<noteq> None \<Longrightarrow> (x, z) \<notin> replaced_by ns" for x z
  proof
    assume "current_at ns x \<noteq> None" "(x, z) \<in> replaced_by ns"
    then obtain n where n: "map_of ns x = Some n" "node_is_current n" "pn_superseded_by n = Some z"
      by (auto simp: replaced_by_def current_at_def split: option.splits if_splits)
    from current_has_no_successor[OF plan_wf_node[OF wf n(1)]] n(2,3) show False by simp
  qed
  have stuck: "(x, y) \<in> (replaced_by ns)\<^sup>* \<Longrightarrow> current_at ns x \<noteq> None \<Longrightarrow> y = x" for x y
    using no_step by (metis converse_rtranclE)
  from single_valued_confluent[OF sv assms(2,3)] stuck assms(4,5) show ?thesis by blast
qed

text \<open>C14: following \<open>superseded_by\<close> always terminates. In every snapshot of a project the chain that starts at a
  node ends in exactly one current node, which has the same kind, and no node replaces two others.\<close>

theorem successors_end_in_a_current_node:
  assumes "plan_reachable digest s" "map_of (rv_nodes (sn_revision s)) k = Some n"
  shows "\<exists>!m. (k, m) \<in> (replaced_by (rv_nodes (sn_revision s)))\<^sup>*
           \<and> map_option pn_kind (current_at (rv_nodes (sn_revision s)) m) = Some (pn_kind n)"
proof -
  let ?ns = "rv_nodes (sn_revision s)"
  have wf: "plan_wf (rv_sequence (sn_revision s)) (?ns, rv_edges (sn_revision s))"
    using reachable_ok[OF assms(1)] by (simp add: snapshot_ok_def Let_def snapshot_graph_def)
  have "lineage_ok ?ns" using reachable_lineage[OF assms(1)] by (simp add: snapshot_graph_def)
  from chain_end[OF wf this assms(2)] obtain m e where
    m: "(k, m) \<in> (replaced_by ?ns)\<^sup>*" "current_at ?ns m = Some e" "pn_kind e = pn_kind n" by blast
  show ?thesis
  proof (rule ex1I[of _ m])
    show "(k, m) \<in> (replaced_by ?ns)\<^sup>* \<and> map_option pn_kind (current_at ?ns m) = Some (pn_kind n)"
      using m by simp
  qed (use m chain_end_unique[OF wf] in auto)
qed

section \<open>What a graph check can still refuse\<close>

definition reference_error :: "ProjectError \<Rightarrow> bool" where
  "reference_error e \<longleftrightarrow>
     (\<exists>node target field. e = PeMissingNodeReference node target field)
     \<or> (\<exists>node field kind. e = PeInvalidNodeState node
           (field @ '' must reference a '' @ NodeKind_as_str kind @ '' node''))"

lemma try_each_Inl: "try_each f xs = Inl e \<Longrightarrow> \<exists>x \<in> set xs. f x = Inl e"
proof (induction xs)
  case (Cons x xs)
  then show ?case by (cases "f x") auto
qed simp

lemma require_reference_Inl: "require_reference ns n r f k = Inl e \<Longrightarrow> reference_error e"
  unfolding require_reference_def reference_error_def
  by (cases "current_at ns r"; cases k) (force split: if_splits)+

lemma validate_node_references_Inl: "validate_node_references n ns = Inl e \<Longrightarrow> reference_error e"
  by (auto simp: validate_node_references_def attempt_def
      intro: require_reference_Inl split: NodeData.splits option.splits sum.splits)

text \<open>The checks an edit makes leave the graph check one thing to refuse. Once the edits of a change set on a
  well-formed plan have gone through, \<open>validate_graph\<close> can only fail because a current node refers to a node
  that is missing, superseded or of the wrong kind: the data of every node and both ends of every current
  edge are already in order.\<close>

theorem only_references_remain_to_check:
  assumes "plan_wf s g" "apply_changes s changes g = Inr (ns, es)" "validate_graph ns es = Inl e"
  shows "reference_error e"
proof -
  have wf: "plan_wf s (ns, es)" using assms(2,1) by (rule apply_changes_wf)
  have edges: "try_each (\<lambda>edge. validate_edge edge ns) (filter edge_is_current (bt_values es)) = Inr ()"
  proof -
    have "validate_edge e ns = Inr ()" if "e \<in> set (bt_values es)" "edge_is_current e" for e
    proof -
      from that(1) obtain k where "map_of es k = Some e"
        using bt_values_iff[OF plan_wf_rules(4)[OF wf]] by auto
      then have "edge_wf s ns k e" by (rule plan_wf_edge[OF wf])
      with that(2) show ?thesis by (simp add: edge_wf_def edge_is_current_def)
    qed
    then show ?thesis by (auto simp: try_each_Inr_iff)
  qed
  let ?check = "\<lambda>n. attempt (validate_node_data (pn_id n) (pn_kind n) (pn_data n))
      (\<lambda>_. validate_node_references n ns)"
  have checks: "try_each ?check (filter node_is_current (bt_values ns)) = Inl e"
    using assms(3) edges unfolding validate_graph_def
    by (cases "try_each ?check (filter node_is_current (bt_values ns))") simp_all
  then obtain n where n: "n \<in> set (bt_values ns)" "?check n = Inl e"
    using try_each_Inl[OF checks] by auto
  from n(1) obtain k where "map_of ns k = Some n"
    using bt_values_iff[OF plan_wf_rules(3)[OF wf]] by auto
  then have "node_wf s ns k n" using plan_wf_node[OF wf] by blast
  with n(2) have "validate_node_references n ns = Inl e" by (auto simp: node_wf_def)
  then show ?thesis by (rule validate_node_references_Inl)
qed

end
