(* ===== verification/PlanStore.thy ===== *)
theory PlanStore
  imports PlanLineage
begin

text \<open>
  Durable project plans, \<^verbatim>\<open>rustykrab-store/src/projects.rs\<close> with its tables in \<^verbatim>\<open>rustykrab-store/src/lib.rs\<close>.

  \<^item> A table is the list of its rows in insertion order. \<open>insert_*\<close> write out the primary keys, unique
    constraints and foreign keys of the schema; a project's reference to its current revision is deferred,
    and \<open>commit_ok\<close> checks it at the end of the transaction.
  \<^item> \<^verbatim>\<open>serde_json\<close> is library code: the parameter \<open>plan_json\<close> holds the encoders and decoders, and
    \<open>json_faithful\<close> is what the code relies on, that a decoder undoes its encoder.
  \<^item> Ids are kept as ids where the table holds their text, times as times; a column whose text is only
    written and never read back here (\<open>author\<close>, \<open>kind\<close>, ...) is kept as that text.
  \<^item> A transaction returns its result and the new tables, or an error; an error leaves the old tables.
\<close>

section \<open>Errors and JSON\<close>

datatype PlanStoreError =
    PsProjectNotFound ProjectId
  | PsRevisionConflict ProjectId RevisionId RevisionId
  | PsRequestReused string
  | PsInvalidRevision ProjectError
  | PsSequenceRange
  | PsChangedConcurrently ProjectId
  | PsUnique string
  | PsForeignKey
  | PsSerialization string

type_synonym 'a stored = "PlanStoreError + 'a"

record plan_json =
  js_create :: "CreateProject \<Rightarrow> string stored"
  js_change_set :: "PlanChangeSet \<Rightarrow> string stored"
  js_project :: "Project \<Rightarrow> string stored"
  js_revision :: "ProjectRevision \<Rightarrow> string stored"
  js_status :: "ProjectStatus \<Rightarrow> string stored"
  js_policy :: "JudgmentPolicy \<Rightarrow> string stored"
  js_author :: "RevisionAuthor \<Rightarrow> string stored"
  js_node :: "PlanNode \<Rightarrow> string stored"
  js_edge :: "PlanEdge_proj \<Rightarrow> string stored"
  js_to_create :: "string \<Rightarrow> CreateProject stored"
  js_to_change_set :: "string \<Rightarrow> PlanChangeSet stored"
  js_to_project :: "string \<Rightarrow> Project stored"
  js_to_revision :: "string \<Rightarrow> ProjectRevision stored"

definition json_faithful :: "plan_json \<Rightarrow> bool" where
  "json_faithful js \<longleftrightarrow>
     (\<forall>x y. js_create js x = Inr y \<longrightarrow> js_to_create js y = Inr x)
     \<and> (\<forall>x y. js_change_set js x = Inr y \<longrightarrow> js_to_change_set js y = Inr x)
     \<and> (\<forall>x y. js_project js x = Inr y \<longrightarrow> js_to_project js y = Inr x)
     \<and> (\<forall>x y. js_revision js x = Inr y \<longrightarrow> js_to_revision js y = Inr x)"

section \<open>Tables\<close>

record ProjectRow =
  prw_id :: ProjectId
  prw_create_request_id :: string
  prw_repository_id :: "string option"
  prw_canonical_conversation_id :: "string option"
  prw_title :: string
  prw_status :: string
  prw_judgment_policy :: string
  prw_current_revision :: "RevisionId option"
  prw_create_request :: string
  prw_data :: string
  prw_created_at :: timestamp
  prw_updated_at :: timestamp

record RevisionRow =
  rrw_id :: RevisionId
  rrw_project_id :: ProjectId
  rrw_parent_revision :: "RevisionId option"
  rrw_sequence :: int
  rrw_request_id :: string
  rrw_request_data :: string
  rrw_author :: string
  rrw_conversation_id :: "string option"
  rrw_source_message_id :: "string option"
  rrw_summary :: string
  rrw_project_data :: string
  rrw_data :: string
  rrw_created_at :: timestamp

record NodeRow =
  nrw_revision_id :: RevisionId
  nrw_project_id :: ProjectId
  nrw_id :: NodeId
  nrw_kind :: string
  nrw_data :: string

record EdgeRow =
  erw_revision_id :: RevisionId
  erw_project_id :: ProjectId
  erw_id :: EdgeId
  erw_from_node :: NodeId
  erw_relation :: string
  erw_to_node :: NodeId
  erw_data :: string

record PlanDb =
  pdb_projects :: "ProjectRow list"
  pdb_revisions :: "RevisionRow list"
  pdb_nodes :: "NodeRow list"
  pdb_edges :: "EdgeRow list"

definition empty_db :: PlanDb where
  "empty_db = \<lparr>pdb_projects = [], pdb_revisions = [], pdb_nodes = [], pdb_edges = []\<rparr>"

record ApplyRevisionResult =
  arr_snapshot :: ProjectSnapshot
  arr_replayed :: bool

definition project_exists :: "PlanDb \<Rightarrow> ProjectId \<Rightarrow> bool" where
  "project_exists db k = list_ex (\<lambda>p. prw_id p = k) (pdb_projects db)"

definition revision_exists :: "PlanDb \<Rightarrow> ProjectId \<Rightarrow> RevisionId \<Rightarrow> bool" where
  "revision_exists db k r =
     list_ex (\<lambda>v. rrw_project_id v = k \<and> rrw_id v = r) (pdb_revisions db)"

definition node_row_exists :: "PlanDb \<Rightarrow> RevisionId \<Rightarrow> NodeId \<Rightarrow> bool" where
  "node_row_exists db r k =
     list_ex (\<lambda>n. nrw_revision_id n = r \<and> nrw_id n = k) (pdb_nodes db)"

definition edge_row_exists :: "PlanDb \<Rightarrow> RevisionId \<Rightarrow> EdgeId \<Rightarrow> bool" where
  "edge_row_exists db r k =
     list_ex (\<lambda>e. erw_revision_id e = r \<and> erw_id e = k) (pdb_edges db)"

section \<open>Statements\<close>

definition insert_project ::
  "plan_json \<Rightarrow> ProjectSnapshot \<Rightarrow> string \<Rightarrow> PlanDb \<Rightarrow> PlanDb stored" where
  "insert_project js snapshot create_request db =
     (let project = sn_project snapshot in
      attempt (js_status js (pj_status project)) (\<lambda>status.
      attempt (js_policy js (pj_judgment_policy project)) (\<lambda>policy.
      attempt (js_project js project) (\<lambda>text.
      if project_exists db (pj_id project) then Inl (PsUnique ''projects.id'')
      else if list_ex (\<lambda>p. prw_create_request_id p = rv_request_id (sn_revision snapshot)) (pdb_projects db)
      then Inl (PsUnique ''projects.create_request_id'')
      else Inr (db\<lparr>pdb_projects := pdb_projects db @
        [\<lparr>prw_id = pj_id project, prw_create_request_id = rv_request_id (sn_revision snapshot),
          prw_repository_id = pj_repository_id project,
          prw_canonical_conversation_id = pj_canonical_conversation_id project,
          prw_title = pj_title project, prw_status = status, prw_judgment_policy = policy,
          prw_current_revision = None, prw_create_request = create_request, prw_data = text,
          prw_created_at = pj_created_at project, prw_updated_at = pj_updated_at project\<rparr>]\<rparr>)))))"

definition insert_revision_row :: "RevisionRow \<Rightarrow> PlanDb \<Rightarrow> PlanDb stored" where
  "insert_revision_row row db =
     (if list_ex (\<lambda>v. rrw_id v = rrw_id row) (pdb_revisions db)
      then Inl (PsUnique ''project_revisions.id'')
      else if list_ex (\<lambda>v. rrw_project_id v = rrw_project_id row \<and> rrw_sequence v = rrw_sequence row)
                (pdb_revisions db)
      then Inl (PsUnique ''project_revisions.project_id, project_revisions.sequence'')
      else if list_ex (\<lambda>v. rrw_project_id v = rrw_project_id row \<and> rrw_request_id v = rrw_request_id row)
                (pdb_revisions db)
      then Inl (PsUnique ''project_revisions.project_id, project_revisions.request_id'')
      else if \<not> project_exists db (rrw_project_id row)
           \<or> (case rrw_parent_revision row of
                None \<Rightarrow> False | Some r \<Rightarrow> \<not> revision_exists db (rrw_project_id row) r)
      then Inl PsForeignKey
      else Inr (db\<lparr>pdb_revisions := pdb_revisions db @ [row]\<rparr>))"

definition insert_node :: "plan_json \<Rightarrow> ProjectRevision \<Rightarrow> PlanDb \<Rightarrow> PlanNode \<Rightarrow> PlanDb stored" where
  "insert_node js revision db node =
     attempt (js_node js node) (\<lambda>text.
       if node_row_exists db (rv_id revision) (pn_id node)
       then Inl (PsUnique ''plan_nodes.revision_id, plan_nodes.id'')
       else if \<not> project_exists db (rv_project_id revision)
            \<or> \<not> revision_exists db (rv_project_id revision) (rv_id revision)
       then Inl PsForeignKey
       else Inr (db\<lparr>pdb_nodes := pdb_nodes db @
         [\<lparr>nrw_revision_id = rv_id revision, nrw_project_id = rv_project_id revision,
           nrw_id = pn_id node, nrw_kind = NodeKind_as_str (pn_kind node), nrw_data = text\<rparr>]\<rparr>))"

definition insert_edge :: "plan_json \<Rightarrow> ProjectRevision \<Rightarrow> PlanDb \<Rightarrow> PlanEdge_proj \<Rightarrow> PlanDb stored" where
  "insert_edge js revision db edge =
     attempt (js_edge js edge) (\<lambda>text.
       if edge_row_exists db (rv_id revision) (pe_id edge)
       then Inl (PsUnique ''plan_edges.revision_id, plan_edges.id'')
       else if \<not> project_exists db (rv_project_id revision)
            \<or> \<not> revision_exists db (rv_project_id revision) (rv_id revision)
            \<or> \<not> node_row_exists db (rv_id revision) (pe_from edge)
            \<or> \<not> node_row_exists db (rv_id revision) (pe_to edge)
       then Inl PsForeignKey
       else Inr (db\<lparr>pdb_edges := pdb_edges db @
         [\<lparr>erw_revision_id = rv_id revision, erw_project_id = rv_project_id revision,
           erw_id = pe_id edge, erw_from_node = pe_from edge,
           erw_relation = EdgeRelation_as_str (pe_relation edge), erw_to_node = pe_to edge,
           erw_data = text\<rparr>]\<rparr>))"

definition insert_revision ::
  "plan_json \<Rightarrow> ProjectSnapshot \<Rightarrow> string \<Rightarrow> PlanDb \<Rightarrow> PlanDb stored" where
  "insert_revision js snapshot request_data db =
     (let revision = sn_revision snapshot in
      if 2 ^ 63 \<le> uint (rv_sequence revision) then Inl PsSequenceRange
      else
      attempt (js_author js (rv_author revision)) (\<lambda>author.
      attempt (js_project js (sn_project snapshot)) (\<lambda>project_text.
      attempt (js_revision js revision) (\<lambda>revision_text.
      attempt (insert_revision_row
                 \<lparr>rrw_id = rv_id revision, rrw_project_id = rv_project_id revision,
                  rrw_parent_revision = rv_parent_revision revision,
                  rrw_sequence = uint (rv_sequence revision),
                  rrw_request_id = rv_request_id revision, rrw_request_data = request_data,
                  rrw_author = author,
                  rrw_conversation_id = map_option msg_conversation_id (rv_source_message revision),
                  rrw_source_message_id = map_option msg_message_id (rv_source_message revision),
                  rrw_summary = rv_summary revision, rrw_project_data = project_text,
                  rrw_data = revision_text, rrw_created_at = rv_created_at revision\<rparr> db) (\<lambda>db1.
      attempt (try_fold (insert_node js revision) db1 (bt_values (rv_nodes revision))) (\<lambda>db2.
        try_fold (insert_edge js revision) db2 (bt_values (rv_edges revision))))))))"

definition current_write ::
  "plan_json \<Rightarrow> ProjectSnapshot \<Rightarrow> RevisionId option \<Rightarrow> (ProjectRow \<Rightarrow> ProjectRow) stored" where
  \<comment> \<open>the \<^verbatim>\<open>SET\<close> clause of the update\<close>
  "current_write js snapshot expected_parent =
     (let project = sn_project snapshot; now_current = rv_id (sn_revision snapshot) in
      case expected_parent of
        Some parent \<Rightarrow>
          attempt (js_status js (pj_status project)) (\<lambda>status.
          attempt (js_policy js (pj_judgment_policy project)) (\<lambda>policy.
          attempt (js_project js project) (\<lambda>text.
            Inr (\<lambda>p. p\<lparr>prw_current_revision := Some now_current,
                       prw_repository_id := pj_repository_id project,
                       prw_canonical_conversation_id := pj_canonical_conversation_id project,
                       prw_title := pj_title project, prw_status := status,
                       prw_judgment_policy := policy, prw_data := text,
                       prw_updated_at := pj_updated_at project\<rparr>))))
      | None \<Rightarrow> Inr (\<lambda>p. p\<lparr>prw_current_revision := Some now_current\<rparr>))"

definition is_target :: "ProjectId \<Rightarrow> RevisionId option \<Rightarrow> ProjectRow \<Rightarrow> bool" where
  \<comment> \<open>the \<^verbatim>\<open>WHERE\<close> clause of the update\<close>
  "is_target k expected_parent p = (prw_id p = k \<and> prw_current_revision p = expected_parent)"

definition set_current_revision ::
  "plan_json \<Rightarrow> ProjectSnapshot \<Rightarrow> RevisionId option \<Rightarrow> PlanDb \<Rightarrow> PlanDb stored" where
  "set_current_revision js snapshot expected_parent db =
     (let project = sn_project snapshot; target = is_target (pj_id project) expected_parent in
      attempt (current_write js snapshot expected_parent) (\<lambda>write.
      if length (filter target (pdb_projects db)) \<noteq> 1
      then Inl (PsChangedConcurrently (pj_id project))
      else Inr (db\<lparr>pdb_projects :=
                  map (\<lambda>p. if target p then write p else p) (pdb_projects db)\<rparr>)))"

definition commit_ok :: "PlanDb \<Rightarrow> bool" where
  "commit_ok db =
     list_all (\<lambda>p. case prw_current_revision p of
                     None \<Rightarrow> True | Some r \<Rightarrow> revision_exists db (prw_id p) r) (pdb_projects db)"

section \<open>Queries\<close>

definition parse_snapshot :: "plan_json \<Rightarrow> string \<Rightarrow> string \<Rightarrow> ProjectSnapshot stored" where
  "parse_snapshot js project revision =
     attempt (js_to_project js project) (\<lambda>p.
     attempt (js_to_revision js revision) (\<lambda>r.
       Inr \<lparr>sn_project = p, sn_revision = r\<rparr>))"

definition transpose_with :: "('a \<Rightarrow> 'b stored) \<Rightarrow> 'a option \<Rightarrow> 'b option stored" where
  \<comment> \<open>\<^verbatim>\<open>row.map(f).transpose()\<close>\<close>
  "transpose_with f row =
     (case row of None \<Rightarrow> Inr None | Some a \<Rightarrow> attempt (f a) (\<lambda>b. Inr (Some b)))"

definition current_row :: "PlanDb \<Rightarrow> ProjectId \<Rightarrow> RevisionRow option" where
  "current_row db project_id =
     (case find (\<lambda>p. prw_id p = project_id) (pdb_projects db) of
        None \<Rightarrow> None
      | Some p \<Rightarrow>
          find (\<lambda>r. Some (rrw_id r) = prw_current_revision p) (pdb_revisions db))"

definition row_snapshot :: "plan_json \<Rightarrow> RevisionRow \<Rightarrow> ProjectSnapshot stored" where
  "row_snapshot js row = parse_snapshot js (rrw_project_data row) (rrw_data row)"

definition load_current :: "plan_json \<Rightarrow> PlanDb \<Rightarrow> ProjectId \<Rightarrow> ProjectSnapshot option stored" where
  "load_current js db project_id = transpose_with (row_snapshot js) (current_row db project_id)"

definition load_revision ::
  "plan_json \<Rightarrow> PlanDb \<Rightarrow> ProjectId \<Rightarrow> RevisionId \<Rightarrow> ProjectSnapshot option stored" where
  "load_revision js db project_id revision_id =
     transpose_with (row_snapshot js)
       (find (\<lambda>r. rrw_project_id r = project_id \<and> rrw_id r = revision_id) (pdb_revisions db))"

definition request_row :: "PlanDb \<Rightarrow> ProjectId \<Rightarrow> string \<Rightarrow> RevisionRow option" where
  "request_row db project_id request_id =
     find (\<lambda>r. rrw_project_id r = project_id \<and> rrw_request_id r = request_id) (pdb_revisions db)"

definition load_create_replay ::
  "plan_json \<Rightarrow> PlanDb \<Rightarrow> string \<Rightarrow> (string \<times> ProjectSnapshot) option stored" where
  "load_create_replay js db request_id =
     transpose_with (\<lambda>(request, row). attempt (row_snapshot js row) (\<lambda>s. Inr (request, s)))
       (case find (\<lambda>p. prw_create_request_id p = request_id) (pdb_projects db) of
          None \<Rightarrow> None
        | Some p \<Rightarrow> map_option (Pair (prw_create_request p)) (request_row db (prw_id p) request_id))"

definition load_revision_replay ::
  "plan_json \<Rightarrow> PlanDb \<Rightarrow> ProjectId \<Rightarrow> string \<Rightarrow> (string \<times> ProjectSnapshot) option stored" where
  "load_revision_replay js db project_id request_id =
     transpose_with (\<lambda>row. attempt (row_snapshot js row) (\<lambda>s. Inr (rrw_request_data row, s)))
       (request_row db project_id request_id)"

definition ensure_same_request :: "string \<Rightarrow> string \<Rightarrow> string \<Rightarrow> unit stored" where
  "ensure_same_request stored received request_id =
     (if stored = received then Inr () else Inl (PsRequestReused request_id))"

section \<open>The handle\<close>

definition domain :: "'a planned \<Rightarrow> 'a stored" where
  \<comment> \<open>\<^verbatim>\<open>map_err(project_error)\<close>\<close>
  "domain r = (case r of Inl e \<Rightarrow> Inl (PsInvalidRevision e) | Inr x \<Rightarrow> Inr x)"

definition finish_plan :: "ProjectSnapshot \<Rightarrow> PlanDb \<Rightarrow> (ApplyRevisionResult \<times> PlanDb) stored" where
  "finish_plan snapshot db =
     (if commit_ok db then Inr (\<lparr>arr_snapshot = snapshot, arr_replayed = False\<rparr>, db)
      else Inl PsForeignKey)"

definition ProjectStore_create ::
  "plan_json \<Rightarrow> content_digest \<Rightarrow> CreateProject \<Rightarrow> PlanDb \<Rightarrow> (ApplyRevisionResult \<times> PlanDb) stored" where
  "ProjectStore_create js digest request db =
     attempt (js_create js request) (\<lambda>request_data.
     attempt (load_create_replay js db (cp_request_id request)) (\<lambda>replay.
       case replay of
         Some (stored, snapshot) \<Rightarrow>
           attempt (ensure_same_request stored request_data (cp_request_id request)) (\<lambda>_.
             Inr (\<lparr>arr_snapshot = snapshot, arr_replayed = True\<rparr>, db))
       | None \<Rightarrow>
           attempt (domain (ProjectSnapshot_create digest request)) (\<lambda>snapshot.
           attempt (insert_project js snapshot request_data db) (\<lambda>db1.
           attempt (insert_revision js snapshot request_data db1) (\<lambda>db2.
           attempt (set_current_revision js snapshot None db2) (\<lambda>db3.
             finish_plan snapshot db3))))))"

definition ProjectStore_apply ::
  "plan_json \<Rightarrow> content_digest \<Rightarrow> ProjectId \<Rightarrow> RevisionId \<Rightarrow> PlanChangeSet \<Rightarrow> PlanDb
   \<Rightarrow> (ApplyRevisionResult \<times> PlanDb) stored" where
  "ProjectStore_apply js digest project_id expected_parent change_set db =
     attempt (js_change_set js change_set) (\<lambda>request_data.
     attempt (load_revision_replay js db project_id (cs_request_id change_set)) (\<lambda>replay.
       case replay of
         Some (stored, snapshot) \<Rightarrow>
           attempt (ensure_same_request stored request_data (cs_request_id change_set)) (\<lambda>_.
             Inr (\<lparr>arr_snapshot = snapshot, arr_replayed = True\<rparr>, db))
       | None \<Rightarrow>
           attempt (attempt (load_current js db project_id)
                      (some_or (PsProjectNotFound project_id))) (\<lambda>current.
           if rv_id (sn_revision current) \<noteq> expected_parent
           then Inl (PsRevisionConflict project_id expected_parent (rv_id (sn_revision current)))
           else
           attempt (domain (ProjectSnapshot_apply digest current change_set)) (\<lambda>next_snapshot.
           attempt (insert_revision js next_snapshot request_data db) (\<lambda>db1.
           attempt (set_current_revision js next_snapshot (Some expected_parent) db1) (\<lambda>db2.
             finish_plan next_snapshot db2))))))"

definition ProjectStore_get :: "plan_json \<Rightarrow> PlanDb \<Rightarrow> ProjectId \<Rightarrow> ProjectSnapshot option stored" where
  "ProjectStore_get js db project_id = load_current js db project_id"

definition get_create_request :: "plan_json \<Rightarrow> PlanDb \<Rightarrow> string \<Rightarrow> CreateProject option stored" where
  "get_create_request js db request_id =
     transpose_with (\<lambda>p. js_to_create js (prw_create_request p))
       (find (\<lambda>p. prw_create_request_id p = request_id) (pdb_projects db))"

definition get_revision_request ::
  "plan_json \<Rightarrow> PlanDb \<Rightarrow> ProjectId \<Rightarrow> string \<Rightarrow> PlanChangeSet option stored" where
  "get_revision_request js db project_id request_id =
     transpose_with (\<lambda>row. js_to_change_set js (rrw_request_data row)) (request_row db project_id request_id)"

definition get_revision ::
  "plan_json \<Rightarrow> PlanDb \<Rightarrow> ProjectId \<Rightarrow> RevisionId \<Rightarrow> ProjectSnapshot option stored" where
  "get_revision js db project_id revision_id = load_revision js db project_id revision_id"

definition ProjectStore_list :: "plan_json \<Rightarrow> PlanDb \<Rightarrow> Project list stored" where
  "ProjectStore_list js db =
     try_fold (\<lambda>acc p. attempt (js_to_project js (prw_data p)) (\<lambda>x. Inr (acc @ [x]))) []
       (sort_key (\<lambda>p. (- prw_updated_at p, prw_id p)) (pdb_projects db))"

definition list_revisions :: "plan_json \<Rightarrow> PlanDb \<Rightarrow> ProjectId \<Rightarrow> ProjectRevision list stored" where
  "list_revisions js db project_id =
     try_fold (\<lambda>acc r. attempt (js_to_revision js (rrw_data r)) (\<lambda>x. Inr (acc @ [x]))) []
       (sort_key rrw_sequence
          (filter (\<lambda>r. rrw_project_id r = project_id) (pdb_revisions db)))"

definition revision_count :: "PlanDb \<Rightarrow> ProjectId \<Rightarrow> nat" where
  "revision_count db project_id =
     length (filter (\<lambda>r. rrw_project_id r = project_id) (pdb_revisions db))"

end
