(* ===== verification/PlanLog.thy ===== *)
theory PlanLog
  imports PlanStore
begin

text \<open>
  What the project store promises, as an abstract machine and a refinement. The abstract state is, for each
  project, the log of its accepted requests with the snapshot each produced (\<open>plan_log\<close>): the first entry is a
  create, every other applies a change set with a new request id to the snapshot before it. \<open>db_holds\<close>
  relates the tables to such logs; a successful \<open>create\<close> or \<open>apply\<close> either replays an entry or appends one.
\<close>

section \<open>The abstract log\<close>

type_synonym plan_entry = "string \<times> ProjectSnapshot"

definition entry_request :: "plan_entry \<Rightarrow> string" where
  "entry_request e = rv_request_id (sn_revision (snd e))"

inductive plan_log :: "plan_json \<Rightarrow> content_digest \<Rightarrow> ProjectId \<Rightarrow> plan_entry list \<Rightarrow> bool"
  for js digest k where
  log_create: "js_create js c = Inr q \<Longrightarrow> ProjectSnapshot_create digest c = Inr s \<Longrightarrow> cp_project_id c = k
    \<Longrightarrow> plan_log js digest k [(q, s)]"
| log_apply: "plan_log js digest k L \<Longrightarrow> js_change_set js cs = Inr q
    \<Longrightarrow> ProjectSnapshot_apply digest (snd (last L)) cs = Inr t
    \<Longrightarrow> cs_request_id cs \<notin> entry_request ` set L \<Longrightarrow> plan_log js digest k (L @ [(q, t)])"

lemma plan_log_nonempty: "plan_log js digest k L \<Longrightarrow> L \<noteq> []"
  by (induction rule: plan_log.induct) auto

lemma plan_log_distinct: "plan_log js digest k L \<Longrightarrow> distinct (map entry_request L)"
proof (induction rule: plan_log.induct)
  case (log_apply L cs q t)
  then show ?case
    using snapshot_apply_facts(7)[OF log_apply.hyps(3)] by (auto simp: entry_request_def)
qed simp

lemma plan_log_entries:
  "plan_log js digest k L \<Longrightarrow>
     \<forall>e \<in> set L. plan_reachable digest (snd e) \<and> rv_project_id (sn_revision (snd e)) = k
        \<and> pj_id (sn_project (snd e)) = k"
proof (induction rule: plan_log.induct)
  case (log_create c q s)
  then show ?case
    using ProjectSnapshot_create_Inr(6,7)[OF log_create(2)] by (auto intro: plan_reachable.created)
next
  case (log_apply L cs q t)
  have last: "last L \<in> set L" using plan_log_nonempty[OF log_apply.hyps(1)] by simp
  then have "plan_reachable digest t"
    using log_apply.IH log_apply.hyps(3) by (blast intro: plan_reachable.applied)
  with log_apply.IH last show ?case
    using snapshot_apply_facts(2,12)[OF log_apply.hyps(3)] by auto
qed

section \<open>The tables hold a log\<close>

definition row_holds :: "plan_json \<Rightarrow> RevisionRow \<Rightarrow> plan_entry \<Rightarrow> bool" where
  "row_holds js r e =
     (rrw_id r = rv_id (sn_revision (snd e)) \<and> rrw_project_id r = rv_project_id (sn_revision (snd e))
      \<and> rrw_parent_revision r = rv_parent_revision (sn_revision (snd e))
      \<and> rrw_sequence r = uint (rv_sequence (sn_revision (snd e)))
      \<and> rrw_request_id r = entry_request e \<and> rrw_request_data r = fst e
      \<and> js_project js (sn_project (snd e)) = Inr (rrw_project_data r)
      \<and> js_revision js (sn_revision (snd e)) = Inr (rrw_data r))"

definition rows_of :: "PlanDb \<Rightarrow> ProjectId \<Rightarrow> RevisionRow list" where
  "rows_of db k = filter (\<lambda>r. rrw_project_id r = k) (pdb_revisions db)"

definition project_holds :: "plan_json \<Rightarrow> ProjectRow \<Rightarrow> plan_entry list \<Rightarrow> bool" where
  "project_holds js p L =
     (L \<noteq> [] \<and> prw_create_request p = fst (hd L) \<and> prw_create_request_id p = entry_request (hd L)
      \<and> prw_current_revision p = Some (rv_id (sn_revision (snd (last L))))
      \<and> js_project js (sn_project (snd (last L))) = Inr (prw_data p)
      \<and> prw_updated_at p = pj_updated_at (sn_project (snd (last L))))"

definition db_holds ::
  "plan_json \<Rightarrow> content_digest \<Rightarrow> (ProjectId \<Rightarrow> plan_entry list) \<Rightarrow> PlanDb \<Rightarrow> bool" where
  "db_holds js digest logs db \<longleftrightarrow>
     distinct (map prw_id (pdb_projects db))
     \<and> distinct (map prw_create_request_id (pdb_projects db))
     \<and> distinct (map rrw_id (pdb_revisions db))
     \<and> (\<forall>k. list_all2 (row_holds js) (rows_of db k) (logs k))
     \<and> (\<forall>k. logs k \<noteq> [] \<longleftrightarrow> project_exists db k)
     \<and> (\<forall>p \<in> set (pdb_projects db). project_holds js p (logs (prw_id p)))
     \<and> (\<forall>k. logs k \<noteq> [] \<longrightarrow> plan_log js digest k (logs k))"

lemma db_holds_empty: "db_holds js digest (\<lambda>_. []) empty_db"
  by (simp add: db_holds_def empty_db_def rows_of_def project_exists_def)

lemma db_holdsD:
  assumes "db_holds js digest logs db"
  shows "distinct (map prw_id (pdb_projects db))"
    "distinct (map prw_create_request_id (pdb_projects db))" "distinct (map rrw_id (pdb_revisions db))"
    "list_all2 (row_holds js) (rows_of db k) (logs k)" "logs k \<noteq> [] \<longleftrightarrow> project_exists db k"
    "p \<in> set (pdb_projects db) \<Longrightarrow> project_holds js p (logs (prw_id p))"
    "logs k \<noteq> [] \<Longrightarrow> plan_log js digest k (logs k)"
  using assms by (simp_all add: db_holds_def)

section \<open>Queries read the log\<close>

lemma find_and: "find (\<lambda>x. P x \<and> Q x) xs = find Q (filter P xs)"
  by (induction xs) auto

lemma find_rel:
  "list_all2 R xs ys \<Longrightarrow> (\<And>x y. R x y \<Longrightarrow> P x = Q y) \<Longrightarrow> rel_option R (find P xs) (find Q ys)"
  by (induction rule: list_all2_induct) auto

lemma find_distinct: "distinct (map f xs) \<Longrightarrow> x \<in> set xs \<Longrightarrow> find (\<lambda>y. f y = f x) xs = Some x"
  by (induction xs) auto

lemma find_last:
  "distinct (map f xs) \<Longrightarrow> x \<in> set xs \<Longrightarrow> a = f x \<Longrightarrow> find (\<lambda>y. f y = a) xs = Some x"
  by (simp add: find_distinct)

lemma row_snapshot_holds:
  assumes "json_faithful js" "row_holds js r e"
  shows "row_snapshot js r = Inr (snd e)"
proof -
  have "js_to_project js (rrw_project_data r) = Inr (sn_project (snd e))"
      "js_to_revision js (rrw_data r) = Inr (sn_revision (snd e))"
    using assms unfolding json_faithful_def row_holds_def by blast+
  then show ?thesis by (simp add: row_snapshot_def parse_snapshot_def)
qed

lemma request_row_rel:
  assumes "db_holds js digest logs db"
  shows "rel_option (row_holds js) (request_row db k rid) (find (\<lambda>e. entry_request e = rid) (logs k))"
  unfolding request_row_def find_and rows_of_def[symmetric]
  by (rule find_rel[OF db_holdsD(4)[OF assms]]) (simp add: row_holds_def)

lemma load_revision_replay_reads:
  assumes "json_faithful js" "db_holds js digest logs db"
  shows "load_revision_replay js db k rid = Inr (find (\<lambda>e. entry_request e = rid) (logs k))"
  using request_row_rel[OF assms(2), of k rid] row_snapshot_holds[OF assms(1)]
  by (cases "find (\<lambda>e. entry_request e = rid) (logs k)"; cases "request_row db k rid")
     (auto simp: load_revision_replay_def transpose_with_def row_holds_def)

lemma current_row_holds:
  assumes "db_holds js digest logs db"
  shows "rel_option (row_holds js) (current_row db k) (if logs k = [] then None else Some (last (logs k)))"
proof (cases "logs k = []")
  case True
  with db_holdsD(5)[OF assms, of k] have "find (\<lambda>p. prw_id p = k) (pdb_projects db) = None"
    by (simp add: project_exists_def find_None_iff list_ex_iff)
  with True show ?thesis by (simp add: current_row_def)
next
  case False
  with db_holdsD(5)[OF assms, of k] obtain p where p: "p \<in> set (pdb_projects db)" "prw_id p = k"
    by (auto simp: project_exists_def list_ex_iff)
  have found: "find (\<lambda>p. prw_id p = k) (pdb_projects db) = Some p"
    by (rule find_last[OF db_holdsD(1)[OF assms] p(1)]) (use p in simp)
  note rel = db_holdsD(4)[OF assms, of k]
  from rel False have ne: "rows_of db k \<noteq> []" by auto
  have hold: "row_holds js (last (rows_of db k)) (last (logs k))"
    using rel ne False by (metis last_conv_nth list_all2_conv_all_nth diff_less length_greater_0_conv less_one)
  have "last (rows_of db k) \<in> set (pdb_revisions db)"
    using last_in_set[OF ne] by (simp add: rows_of_def)
  moreover have "prw_current_revision p = Some (rrw_id (last (rows_of db k)))"
    using db_holdsD(6)[OF assms p(1)] hold p(2) by (simp add: project_holds_def row_holds_def)
  ultimately have "current_row db k = Some (last (rows_of db k))"
    using find_distinct[OF db_holdsD(3)[OF assms]] by (simp add: current_row_def found)
  with hold False show ?thesis by simp
qed

lemma load_current_reads:
  assumes "json_faithful js" "db_holds js digest logs db"
  shows "load_current js db k = Inr (if logs k = [] then None else Some (snd (last (logs k))))"
  using current_row_holds[OF assms(2), of k] row_snapshot_holds[OF assms(1)]
  by (cases "current_row db k") (auto simp: load_current_def transpose_with_def split: if_splits)

lemma load_create_replay_reads:
  assumes "json_faithful js" "db_holds js digest logs db"
    and "load_create_replay js db rid = Inr replay"
  shows "case replay of
      None \<Rightarrow> rid \<notin> prw_create_request_id ` set (pdb_projects db)
    | Some e \<Rightarrow> \<exists>k. logs k \<noteq> [] \<and> hd (logs k) = e \<and> entry_request e = rid"
proof (cases "find (\<lambda>p. prw_create_request_id p = rid) (pdb_projects db)")
  case None
  with assms(3) show ?thesis
    by (auto simp: load_create_replay_def transpose_with_def find_None_iff)
next
  case (Some p)
  then have p: "p \<in> set (pdb_projects db)" "prw_create_request_id p = rid"
    by (auto simp: find_Some_iff)
  let ?L = "logs (prw_id p)"
  note h = db_holdsD(6)[OF assms(2) p(1)]
  then have ne: "?L \<noteq> []" "entry_request (hd ?L) = rid" "prw_create_request p = fst (hd ?L)"
    using p(2) by (auto simp: project_holds_def)
  then have "find (\<lambda>e. entry_request e = rid) ?L = Some (hd ?L)" by (cases ?L) auto
  with request_row_rel[OF assms(2), of "prw_id p" rid] obtain r where
    r: "request_row db (prw_id p) rid = Some r" "row_holds js r (hd ?L)"
    by (cases "request_row db (prw_id p) rid") auto
  have "replay = Some (hd ?L)"
    using assms(3) r row_snapshot_holds[OF assms(1) r(2)] ne(3) Some
    by (simp add: load_create_replay_def transpose_with_def)
  with ne show ?thesis by auto
qed

end
