(* ===== verification/PlanSteps.thy ===== *)
theory PlanSteps
  imports PlanLog
begin

text \<open>
  The project store refines its log: each successful \<open>create\<close> or \<open>apply\<close> replays an entry and changes
  nothing, or appends one entry to one project's log. From that follow exactly-once requests, durable
  history and optimistic concurrency.
\<close>

section \<open>What the statements write\<close>

lemma insert_nodes_frame:
  assumes "try_fold (insert_node js r) db ns = Inr db'"
  shows "pdb_projects db' = pdb_projects db \<and> pdb_revisions db' = pdb_revisions db"
  by (rule try_fold_keeps[OF assms, where P = "\<lambda>d. pdb_projects d = pdb_projects db \<and> pdb_revisions d = pdb_revisions db"])
     (auto simp: insert_node_def attempt_Inr_iff split: if_split_asm)

lemma insert_edges_frame:
  assumes "try_fold (insert_edge js r) db es = Inr db'"
  shows "pdb_projects db' = pdb_projects db \<and> pdb_revisions db' = pdb_revisions db"
  by (rule try_fold_keeps[OF assms, where P = "\<lambda>d. pdb_projects d = pdb_projects db \<and> pdb_revisions d = pdb_revisions db"])
     (auto simp: insert_edge_def attempt_Inr_iff split: if_split_asm)

lemma insert_revision_row_Inr:
  assumes "insert_revision_row row db = Inr db'"
  shows "pdb_projects db' = pdb_projects db" "pdb_revisions db' = pdb_revisions db @ [row]"
    "rrw_id row \<notin> rrw_id ` set (pdb_revisions db)" "project_exists db (rrw_project_id row)"
  using assms by (auto simp: insert_revision_row_def list_ex_iff split: if_split_asm)

lemma insert_revision_Inr:
  assumes "insert_revision js s q db = Inr db'"
  obtains row where "pdb_projects db' = pdb_projects db" "pdb_revisions db' = pdb_revisions db @ [row]"
    "rrw_id row \<notin> rrw_id ` set (pdb_revisions db)" "row_holds js row (q, s)"
proof -
  from assms obtain row db1 db2 where *: "insert_revision_row row db = Inr db1" "row_holds js row (q, s)"
      "try_fold (insert_node js (sn_revision s)) db1 (bt_values (rv_nodes (sn_revision s))) = Inr db2"
      "try_fold (insert_edge js (sn_revision s)) db2 (bt_values (rv_edges (sn_revision s))) = Inr db'"
    by (auto simp: insert_revision_def attempt_Inr_iff Let_def row_holds_def entry_request_def
        split: if_split_asm)
  show thesis
    by (rule that)
       (use insert_revision_row_Inr[OF *(1)] *(2) insert_nodes_frame[OF *(3)] insert_edges_frame[OF *(4)]
        in auto)
qed

lemma finish_Inr: "finish_plan s db = Inr (res, db') \<longleftrightarrow>
    commit_ok db \<and> res = \<lparr>arr_snapshot = s, arr_replayed = False\<rparr> \<and> db' = db"
  by (auto simp: finish_plan_def)

lemma domain_Inr [simp]: "domain r = Inr x \<longleftrightarrow> r = Inr x"
  by (cases r) (simp_all add: domain_def)

lemma current_write_Inr:
  assumes "current_write js s parent = Inr f"
  shows "prw_id (f p) = prw_id p \<and> prw_create_request_id (f p) = prw_create_request_id p
         \<and> prw_create_request (f p) = prw_create_request p
         \<and> prw_current_revision (f p) = Some (rv_id (sn_revision s))"
    and "parent = None \<Longrightarrow> prw_data (f p) = prw_data p \<and> prw_updated_at (f p) = prw_updated_at p"
    and "parent = Some par \<Longrightarrow> js_project js (sn_project s) = Inr (prw_data (f p))
         \<and> prw_updated_at (f p) = pj_updated_at (sn_project s)"
  using assms by (auto simp: current_write_def Let_def attempt_Inr_iff split: option.splits)

lemma set_current_revision_Inr:
  assumes "set_current_revision js s parent db = Inr db'"
  obtains f where "current_write js s parent = Inr f" "pdb_revisions db' = pdb_revisions db"
    "pdb_projects db' = map (\<lambda>p. if is_target (pj_id (sn_project s)) parent p then f p else p) (pdb_projects db)"
  using assms by (auto simp: set_current_revision_def Let_def attempt_Inr_iff split: if_split_asm)

section \<open>Appending to a log\<close>

lemma rows_of_append:
  "pdb_revisions db' = pdb_revisions db @ [row] \<Longrightarrow>
     rows_of db' k = rows_of db k @ (if rrw_project_id row = k then [row] else [])"
  by (simp add: rows_of_def)

lemma db_holds_rows_append:
  assumes "db_holds js digest logs db" "pdb_revisions db' = pdb_revisions db @ [row]"
    "row_holds js row e" "rv_project_id (sn_revision (snd e)) = k"
  shows "list_all2 (row_holds js) (rows_of db' j) ((logs(k := logs k @ [e])) j)"
proof -
  have "rrw_project_id row = k" using assms(3,4) by (simp add: row_holds_def)
  with db_holdsD(4)[OF assms(1), of j] assms(3) show ?thesis
    by (auto simp: rows_of_append[OF assms(2)] intro: list_all2_appendI)
qed

lemma apply_new_entry:
  assumes faithful: "json_faithful js" and holds: "db_holds js digest logs db"
    and ne: "logs k \<noteq> []" and enc: "js_change_set js cs = Inr q"
    and new: "cs_request_id cs \<notin> entry_request ` set (logs k)"
    and step: "ProjectSnapshot_apply digest (snd (last (logs k))) cs = Inr t"
    and ins: "insert_revision js t q db = Inr db1"
    and cur: "set_current_revision js t (Some (rv_id (sn_revision (snd (last (logs k)))))) db1 = Inr db2"
  shows "db_holds js digest (logs(k := logs k @ [(q, t)])) db2"
proof -
  let ?old = "snd (last (logs k))" and ?logs = "logs(k := logs k @ [(q, t)])"
  note log = db_holdsD(7)[OF holds ne]
  have old: "rv_project_id (sn_revision ?old) = k" "pj_id (sn_project ?old) = k"
    using plan_log_entries[OF log] last_in_set[OF ne] by auto
  note f = snapshot_apply_facts[OF step]
  have tk: "rv_project_id (sn_revision t) = k" "pj_id (sn_project t) = k" using f(2,12) old by auto
  obtain row where row: "pdb_projects db1 = pdb_projects db" "pdb_revisions db1 = pdb_revisions db @ [row]"
      "rrw_id row \<notin> rrw_id ` set (pdb_revisions db)" "row_holds js row (q, t)"
    using ins by (rule insert_revision_Inr)
  show ?thesis
    using cur
  proof (rule set_current_revision_Inr)
    fix g assume w: "current_write js t (Some (rv_id (sn_revision ?old))) = Inr g"
      and rev: "pdb_revisions db2 = pdb_revisions db1"
      and upd: "pdb_projects db2 = map (\<lambda>p. if is_target (pj_id (sn_project t)) (Some (rv_id (sn_revision ?old))) p
           then g p else p) (pdb_projects db1)"
    note g = rev upd current_write_Inr(1)[OF w] current_write_Inr(3)[OF w refl]
    have cur_iff: "prw_current_revision p = Some (rv_id (sn_revision ?old))"
      if "p \<in> set (pdb_projects db)" "prw_id p = k" for p
      using db_holdsD(6)[OF holds that(1)] that(2) by (simp add: project_holds_def)
    then have projects: "pdb_projects db2 = map (\<lambda>p. if prw_id p = k then g p else p) (pdb_projects db)"
      by (auto simp: g(2) row(1) tk is_target_def)
    have ids: "map prw_id (pdb_projects db2) = map prw_id (pdb_projects db)"
        "map prw_create_request_id (pdb_projects db2) = map prw_create_request_id (pdb_projects db)"
      by (auto simp: projects g(3))
    have hold_p: "project_holds js p' (?logs (prw_id p'))" if "p' \<in> set (pdb_projects db2)" for p'
    proof -
      from that obtain p where p: "p \<in> set (pdb_projects db)" "p' = (if prw_id p = k then g p else p)"
        by (auto simp: projects)
      with db_holdsD(6)[OF holds p(1)] g(3)[of p] g(4)[of p] ne show ?thesis
        by (auto simp: project_holds_def hd_append)
    qed
    have exists: "project_exists db2 j = project_exists db j" for j
    proof -
      have "project_exists d j \<longleftrightarrow> j \<in> set (map prw_id (pdb_projects d))" for d
        by (auto simp: project_exists_def list_ex_iff)
      then show ?thesis by (simp only: ids)
    qed
    have "plan_log js digest k (logs k @ [(q, t)])"
      using log enc step new by (rule plan_log.log_apply)
    moreover have "list_all2 (row_holds js) (rows_of db2 j) (?logs j)" for j
      using db_holds_rows_append[OF holds _ row(4), of db2 k j] row(2) g(1) tk(1) by simp
    moreover have "distinct (map rrw_id (pdb_revisions db2))"
      using db_holdsD(3)[OF holds] row(2,3) g(1) by auto
    ultimately show ?thesis
      using db_holdsD(1,2,5,7)[OF holds] ids hold_p ne exists
      unfolding db_holds_def by (auto simp: fun_upd_def)
  qed
qed

lemma insert_project_Inr:
  assumes "insert_project js s q db = Inr db'"
  obtains p where "pdb_projects db' = pdb_projects db @ [p]" "pdb_revisions db' = pdb_revisions db"
    "prw_id p = pj_id (sn_project s)" "prw_current_revision p = None" "prw_create_request p = q"
    "prw_create_request_id p = rv_request_id (sn_revision s)"
    "js_project js (sn_project s) = Inr (prw_data p)" "prw_updated_at p = pj_updated_at (sn_project s)"
    "\<not> project_exists db (pj_id (sn_project s))"
    "rv_request_id (sn_revision s) \<notin> prw_create_request_id ` set (pdb_projects db)"
proof -
  from assms obtain status policy body where *: "js_project js (sn_project s) = Inr body"
      "\<not> project_exists db (pj_id (sn_project s))"
      "\<not> list_ex (\<lambda>p. prw_create_request_id p = rv_request_id (sn_revision s)) (pdb_projects db)"
      "db' = db\<lparr>pdb_projects := pdb_projects db @
        [\<lparr>prw_id = pj_id (sn_project s), prw_create_request_id = rv_request_id (sn_revision s),
          prw_repository_id = pj_repository_id (sn_project s),
          prw_canonical_conversation_id = pj_canonical_conversation_id (sn_project s),
          prw_title = pj_title (sn_project s), prw_status = status, prw_judgment_policy = policy,
          prw_current_revision = None, prw_create_request = q, prw_data = body,
          prw_created_at = pj_created_at (sn_project s),
          prw_updated_at = pj_updated_at (sn_project s)\<rparr>]\<rparr>" (is "_ = db\<lparr>pdb_projects := _ @ [?p]\<rparr>")
    by (auto simp: insert_project_def Let_def attempt_Inr_iff split: if_split_asm)
  show thesis by (rule that[of ?p]) (use * in \<open>auto simp: list_ex_iff\<close>)
qed

lemma create_new_entry:
  assumes holds: "db_holds js digest logs db" and enc: "js_create js c = Inr q"
    and step: "ProjectSnapshot_create digest c = Inr s"
    and insp: "insert_project js s q db = Inr db1" and insr: "insert_revision js s q db1 = Inr db2"
    and cur: "set_current_revision js s None db2 = Inr db3"
  shows "logs (cp_project_id c) = [] \<and> db_holds js digest (logs(cp_project_id c := [(q, s)])) db3"
proof -
  let ?k = "cp_project_id c" let ?logs = "logs(?k := [(q, s)])"
  note f = ProjectSnapshot_create_Inr[OF step]
  obtain p where p: "pdb_projects db1 = pdb_projects db @ [p]" "pdb_revisions db1 = pdb_revisions db"
    "prw_id p = ?k" "prw_current_revision p = None" "prw_create_request p = q"
    "prw_create_request_id p = rv_request_id (sn_revision s)"
    "js_project js (sn_project s) = Inr (prw_data p)" "prw_updated_at p = pj_updated_at (sn_project s)"
    "\<not> project_exists db ?k"
    "rv_request_id (sn_revision s) \<notin> prw_create_request_id ` set (pdb_projects db)"
    using insert_project_Inr[OF insp] unfolding f(7) by metis
  obtain row where row: "pdb_projects db2 = pdb_projects db1" "pdb_revisions db2 = pdb_revisions db1 @ [row]"
      "rrw_id row \<notin> rrw_id ` set (pdb_revisions db1)" "row_holds js row (q, s)"
    using insr by (rule insert_revision_Inr)
  obtain g where w: "current_write js s None = Inr g" and rev: "pdb_revisions db3 = pdb_revisions db2"
      and upd: "pdb_projects db3 = map (\<lambda>p. if is_target (pj_id (sn_project s)) None p then g p else p) (pdb_projects db2)"
    using cur by (rule set_current_revision_Inr)
  note g = current_write_Inr(1,2)[OF w]
  have fresh: "?k \<notin> prw_id ` set (pdb_projects db)"
    using p(9) by (auto simp: project_exists_def list_ex_iff)
  have empty: "logs ?k = []" using db_holdsD(5)[OF holds, of ?k] p(9) by auto
  have "map (\<lambda>p. if is_target ?k None p then g p else p) (pdb_projects db) = pdb_projects db"
    using fresh by (intro map_idI) (force simp: is_target_def)
  then have projects: "pdb_projects db3 = pdb_projects db @ [g p]"
    by (simp add: upd row(1) p(1,3,4) f(7) is_target_def)
  have gp: "prw_id (g p) = ?k" "project_holds js (g p) [(q, s)]"
    using g[of p] p f(6,7) by (simp_all add: project_holds_def entry_request_def)
  have "plan_log js digest ?k [(q, s)]" using enc step refl by (rule plan_log.log_create)
  moreover have "list_all2 (row_holds js) (rows_of db3 j) (?logs j)" for j
    using db_holds_rows_append[OF holds _ row(4), of db3 ?k j] row(2) p(2) rev f(6,7) empty by simp
  moreover have "distinct (map rrw_id (pdb_revisions db3))"
    using db_holdsD(3)[OF holds] row(2,3) p(2) rev by auto
  moreover have "project_exists db3 j \<longleftrightarrow> project_exists db j \<or> j = ?k" for j
    using gp(1) by (auto simp: project_exists_def projects)
  moreover have "project_holds js r (?logs (prw_id r))" if "r \<in> set (pdb_projects db3)" for r
    using that gp fresh db_holdsD(6)[OF holds, of r] by (cases "r = g p") (force simp: projects)+
  moreover have "distinct (map prw_id (pdb_projects db3))"
      "distinct (map prw_create_request_id (pdb_projects db3))"
    using db_holdsD(1,2)[OF holds] fresh gp(1) g(1)[of p] p(6,10) by (auto simp: projects)
  ultimately show ?thesis
    using db_holdsD(5,7)[OF holds] empty unfolding db_holds_def by (auto simp: fun_upd_def)
qed

section \<open>The refinement\<close>

definition log_step ::
  "plan_json \<Rightarrow> (ProjectId \<Rightarrow> plan_entry list) \<Rightarrow> ProjectId \<Rightarrow> string \<Rightarrow> string \<Rightarrow> ApplyRevisionResult
   \<Rightarrow> (ProjectId \<Rightarrow> plan_entry list) \<Rightarrow> bool" where
  \<comment> \<open>a request of project \<open>k\<close>, with its id and its text, answered by \<open>res\<close>\<close>
  "log_step js logs k rid q res logs' \<longleftrightarrow>
     (if arr_replayed res
      then logs' = logs \<and> (q, arr_snapshot res) \<in> set (logs k)
      else rid \<notin> entry_request ` set (logs k) \<and> logs' = logs(k := logs k @ [(q, arr_snapshot res)]))
     \<and> entry_request (q, arr_snapshot res) = rid"

lemma apply_refines:
  assumes faithful: "json_faithful js" and holds: "db_holds js digest logs db"
    and call: "ProjectStore_apply js digest k parent cs db = Inr (res, db')"
  obtains q logs' where "js_change_set js cs = Inr q" "db_holds js digest logs' db'"
    "log_step js logs k (cs_request_id cs) q res logs'"
    "arr_replayed res \<Longrightarrow> db' = db"
    "\<not> arr_replayed res \<Longrightarrow> logs k \<noteq> [] \<and> rv_id (sn_revision (snd (last (logs k)))) = parent
       \<and> ProjectSnapshot_apply digest (snd (last (logs k))) cs = Inr (arr_snapshot res)"
proof -
  note replay = load_revision_replay_reads[OF faithful holds, of k "cs_request_id cs"]
  note current = load_current_reads[OF faithful holds, of k]
  obtain q where q: "js_change_set js cs = Inr q"
    using call by (auto simp: ProjectStore_apply_def attempt_Inr_iff)
  show thesis
  proof (cases "find (\<lambda>e. entry_request e = cs_request_id cs) (logs k)")
    case (Some e)
    then have e: "e \<in> set (logs k)" "entry_request e = cs_request_id cs" by (auto simp: find_Some_iff)
    from call q replay Some have "fst e = q" "res = \<lparr>arr_snapshot = snd e, arr_replayed = True\<rparr>" "db' = db"
      by (auto simp: ProjectStore_apply_def attempt_Inr_iff ensure_same_request_def split: prod.splits if_splits)
    with e holds show thesis
      by (intro that[OF q, of logs]) (auto simp: log_step_def entry_request_def)
  next
    case None
    then have new: "cs_request_id cs \<notin> entry_request ` set (logs k)"
      by (force simp: find_None_iff simp del: split_paired_All)
    have ne: "logs k \<noteq> []"
      using call q replay None current by (auto simp: ProjectStore_apply_def)
    with call q replay None current obtain t db1 where t: "rv_id (sn_revision (snd (last (logs k)))) = parent"
      "ProjectSnapshot_apply digest (snd (last (logs k))) cs = Inr t" "insert_revision js t q db = Inr db1"
      "set_current_revision js t (Some parent) db1 = Inr db'"
      "res = \<lparr>arr_snapshot = t, arr_replayed = False\<rparr>"
      by (auto simp: ProjectStore_apply_def attempt_Inr_iff finish_Inr split: if_split_asm)
    have "db_holds js digest (logs(k := logs k @ [(q, t)])) db'"
      using apply_new_entry[OF faithful holds ne q new t(2,3)] t(1,4) by simp
    with new t ne snapshot_apply_facts(7)[OF t(2)] show thesis
      by (intro that[OF q, of "logs(k := logs k @ [(q, t)])"]) (auto simp: log_step_def entry_request_def)
  qed
qed

lemma create_refines:
  assumes faithful: "json_faithful js" and holds: "db_holds js digest logs db"
    and call: "ProjectStore_create js digest c db = Inr (res, db')"
  obtains q k logs' where "js_create js c = Inr q" "db_holds js digest logs' db'"
    "log_step js logs k (cp_request_id c) q res logs'"
    "arr_replayed res \<Longrightarrow> db' = db"
    "\<not> arr_replayed res \<Longrightarrow> k = cp_project_id c \<and> logs k = []
       \<and> ProjectSnapshot_create digest c = Inr (arr_snapshot res)"
proof -
  obtain q replay where q: "js_create js c = Inr q"
      "load_create_replay js db (cp_request_id c) = Inr replay"
    using call by (auto simp: ProjectStore_create_def attempt_Inr_iff)
  note reads = load_create_replay_reads[OF faithful holds q(2)]
  show thesis
  proof (cases replay)
    case (Some e)
    with reads obtain k where k: "logs k \<noteq> []" "hd (logs k) = e" "entry_request e = cp_request_id c" by auto
    then have "e \<in> set (logs k)" by auto
    moreover from call q Some have "fst e = q" "res = \<lparr>arr_snapshot = snd e, arr_replayed = True\<rparr>" "db' = db"
      by (auto simp: ProjectStore_create_def attempt_Inr_iff ensure_same_request_def split: prod.splits if_splits)
    ultimately show thesis
      using k holds by (intro that[OF q(1), of logs k]) (auto simp: log_step_def entry_request_def)
  next
    case None
    with call q obtain s db1 db2 where s: "ProjectSnapshot_create digest c = Inr s"
        "insert_project js s q db = Inr db1" "insert_revision js s q db1 = Inr db2"
        "set_current_revision js s None db2 = Inr db'" "res = \<lparr>arr_snapshot = s, arr_replayed = False\<rparr>"
      by (auto simp: ProjectStore_create_def attempt_Inr_iff finish_Inr)
    from create_new_entry[OF holds q(1) s(1-4)] s(1,5) ProjectSnapshot_create_Inr(8)[OF s(1)] show thesis
      by (intro that[OF q(1), of "logs(cp_project_id c := [(q, s)])" "cp_project_id c"])
         (auto simp: log_step_def entry_request_def)
  qed
qed

end
