(* ===== verification/PlanDurable.thy ===== *)
theory PlanDurable
  imports PlanSteps
begin

text \<open>
  What callers of the project store can rely on: the refinement as a statement, then, over any run of
  successful requests from the empty database, requests that happen once, revisions that stay readable and
  unchanged, edits refused when their parent is no longer current, and the order of the revisions.
\<close>

text \<open>Applying a change set refines the log of the project. It either replays the entry its request id
  names, changing nothing and returning the snapshot recorded then, or its parent is the current revision,
  the plan accepts the edit, and the log of that one project grows by that entry.\<close>

theorem apply_refines_the_log:
  assumes "json_faithful js" "db_holds js digest logs db"
    and "ProjectStore_apply js digest k parent cs db = Inr (res, db')"
  shows "\<exists>q logs'. js_change_set js cs = Inr q \<and> db_holds js digest logs' db'
    \<and> log_step js logs k (cs_request_id cs) q res logs'
    \<and> (if arr_replayed res then db' = db
       else logs k \<noteq> [] \<and> rv_id (sn_revision (snd (last (logs k)))) = parent
         \<and> ProjectSnapshot_apply digest (snd (last (logs k))) cs = Inr (arr_snapshot res))"
  by (rule apply_refines[OF assms]) auto

section \<open>Runs\<close>

inductive plan_run :: "plan_json \<Rightarrow> content_digest \<Rightarrow> PlanDb \<Rightarrow> PlanDb \<Rightarrow> bool" for js digest where
  run_none: "plan_run js digest db db"
| run_create: "plan_run js digest db db1 \<Longrightarrow> ProjectStore_create js digest c db1 = Inr (res, db2)
    \<Longrightarrow> plan_run js digest db db2"
| run_apply: "plan_run js digest db db1 \<Longrightarrow> ProjectStore_apply js digest k parent cs db1 = Inr (res, db2)
    \<Longrightarrow> plan_run js digest db db2"

lemma log_step_prefix: "log_step js logs k rid q res logs' \<Longrightarrow> prefix (logs j) (logs' j)"
  by (auto simp: log_step_def split: if_split_asm)

lemma run_extends_logs:
  assumes "plan_run js digest db db'" "json_faithful js" "db_holds js digest logs db"
  shows "\<exists>logs'. db_holds js digest logs' db' \<and> (\<forall>k. prefix (logs k) (logs' k))"
  using assms
proof (induction rule: plan_run.induct)
  case (run_none db)
  then show ?case by auto
next
  case (run_create db db1 c res db2)
  then obtain logs1 where l: "db_holds js digest logs1 db1" "\<forall>k. prefix (logs k) (logs1 k)" by blast
  from create_refines[OF run_create.prems(1) l(1) run_create.hyps(2)] obtain q k logs2
    where "db_holds js digest logs2 db2" "log_step js logs1 k (cp_request_id c) q res logs2" by blast
  with l(2) log_step_prefix show ?case by (meson prefix_order.trans)
next
  case (run_apply db db1 k parent cs res db2)
  then obtain logs1 where l: "db_holds js digest logs1 db1" "\<forall>k. prefix (logs k) (logs1 k)" by blast
  from apply_refines[OF run_apply.prems(1) l(1) run_apply.hyps(2)] obtain q logs2
    where "db_holds js digest logs2 db2" "log_step js logs1 k (cs_request_id cs) q res logs2" by blast
  with l(2) log_step_prefix show ?case by (meson prefix_order.trans)
qed

lemma log_step_entry:
  "log_step js logs k rid q res logs' \<Longrightarrow> (q, arr_snapshot res) \<in> set (logs' k) \<and> entry_request (q, arr_snapshot res) = rid"
  by (auto simp: log_step_def split: if_split_asm)

lemma apply_recorded:
  assumes "json_faithful js" "plan_run js digest empty_db db"
    and "ProjectStore_apply js digest k parent cs db = Inr (res, db1)" "plan_run js digest db1 db2"
  obtains logs q where "db_holds js digest logs db2" "js_change_set js cs = Inr q"
    "(q, arr_snapshot res) \<in> set (logs k)" "entry_request (q, arr_snapshot res) = cs_request_id cs"
proof -
  obtain logs where l: "db_holds js digest logs db"
    using run_extends_logs[OF assms(2,1) db_holds_empty] by blast
  from apply_refines[OF assms(1) l assms(3)] obtain q logs1
    where q: "js_change_set js cs = Inr q" "db_holds js digest logs1 db1"
      "log_step js logs k (cs_request_id cs) q res logs1" by blast
  from run_extends_logs[OF assms(4,1) q(2)] obtain logs2
    where l2: "db_holds js digest logs2 db2" "\<forall>k. prefix (logs1 k) (logs2 k)" by blast
  from log_step_entry[OF q(3)] l2(2) have "(q, arr_snapshot res) \<in> set (logs2 k)"
    by (meson set_mono_prefix subsetD)
  with l2(1) q(1) log_step_entry[OF q(3)] show thesis by (intro that) auto
qed



section \<open>Revisions stay\<close>

lemma entry_row:
  assumes "db_holds js digest logs db" "e \<in> set (logs k)"
  obtains r where "r \<in> set (pdb_revisions db)" "rrw_project_id r = k" "row_holds js r e"
proof -
  from db_holdsD(4)[OF assms(1), of k] assms(2) obtain r where "r \<in> set (rows_of db k)" "row_holds js r e"
    by (metis in_set_conv_nth list_all2_conv_all_nth)
  then show thesis by (intro that[of r]) (auto simp: rows_of_def)
qed

text \<open>An acknowledged revision is durable. Once \<open>apply\<close> has returned a snapshot, reading that revision
  gives back exactly that snapshot after any later run of requests.\<close>

theorem acknowledged_revisions_are_durable:
  assumes "json_faithful js" "plan_run js digest empty_db db"
    and "ProjectStore_apply js digest k parent cs db = Inr (res, db1)" "plan_run js digest db1 db2"
  shows "get_revision js db2 k (rv_id (sn_revision (arr_snapshot res))) = Inr (Some (arr_snapshot res))"
proof -
  obtain logs q where l: "db_holds js digest logs db2" "(q, arr_snapshot res) \<in> set (logs k)"
    using apply_recorded[OF assms] by metis
  obtain r where r: "r \<in> set (pdb_revisions db2)" "rrw_project_id r = k" "row_holds js r (q, arr_snapshot res)"
    using entry_row[OF l] .
  have d: "distinct (map rrw_id (filter (\<lambda>r. rrw_project_id r = k) (pdb_revisions db2)))"
    using db_holdsD(3)[OF l(1)] by (rule distinct_map_filter)
  have "find (\<lambda>x. rrw_id x = rv_id (sn_revision (arr_snapshot res)))
      (filter (\<lambda>r. rrw_project_id r = k) (pdb_revisions db2)) = Some r"
    by (rule find_last[OF d]) (use r in \<open>auto simp: row_holds_def\<close>)
  then show ?thesis
    using row_snapshot_holds[OF assms(1) r(3)]
    by (simp add: get_revision_def load_revision_def transpose_with_def find_and)
qed

section \<open>Stale parents\<close>



section \<open>The order of the revisions\<close>










end
