(* ===== verification/Projections.thy ===== *)
theory Projections
  imports PlanChain
begin

text \<open>
  The views of a revision, \<^verbatim>\<open>rustykrab-projects/src/projection.rs\<close>: the projections shown to people and
  agents and the comparison of two revisions of a project.

  \<^verbatim>\<open>sort_by\<close> with \<open>summary_order\<close> is stable and orders by the lower-cased title and then the id; it is
  \<^const>\<open>sort_key\<close> by that pair. The source builds \<open>compare\<close>'s lists in one pass over a map; the model
  filters the map once for each list.
\<close>

section \<open>Summaries\<close>

datatype ProjectionKind =
    PkBrief | PkRoadmap | PkDecisions | PkQuestions | PkRisks | PkArchitecture | PkBehaviorCatalog
  | PkCurrentUnderstanding

record NodeSummary =
  ns_id :: NodeId
  ns_kind :: NodeKind
  ns_title :: string
  ns_body :: string

record EdgeSummary_proj =
  es_id :: EdgeId
  es_from :: NodeId
  es_relation :: EdgeRelation
  es_to :: NodeId

definition node_summary :: "PlanNode \<Rightarrow> NodeSummary" where
  "node_summary node =
     \<lparr>ns_id = pn_id node, ns_kind = pn_kind node, ns_title = pn_title node, ns_body = pn_body node\<rparr>"

definition edge_summary_proj :: "PlanEdge_proj \<Rightarrow> EdgeSummary_proj" where
  "edge_summary_proj edge =
     \<lparr>es_id = pe_id edge, es_from = pe_from edge, es_relation = pe_relation edge, es_to = pe_to edge\<rparr>"

definition summary_order :: "NodeSummary \<Rightarrow> string \<times> NodeId" where
  "summary_order s = (to_lowercase (ns_title s), ns_id s)"

definition summaries :: "ProjectRevision \<Rightarrow> NodeKind \<Rightarrow> NodeSummary list" where
  "summaries revision kind =
     sort_key summary_order
       (map node_summary (filter (\<lambda>node. pn_kind node = kind) (current_nodes revision)))"

definition current_edge_summaries ::
  "ProjectRevision \<Rightarrow> (EdgeRelation \<Rightarrow> bool) \<Rightarrow> EdgeSummary_proj list" where
  "current_edge_summaries revision include =
     sort_key es_id
       (map edge_summary_proj (filter (\<lambda>edge. include (pe_relation edge)) (current_edges revision)))"

fun question_rank :: "QuestionImpact \<Rightarrow> nat" where
  "question_rank QiBlockingNow = 0"
| "question_rank QiResearchable = 1"
| "question_rank QiDefaultable = 2"
| "question_rank QiDelegated = 3"
| "question_rank QiBlockingLater = 4"
| "question_rank QiObsolete = 5"
| "question_rank (QiCustom _) = 6"

section \<open>Projections\<close>

record BriefProjection =
  br_revision_id :: RevisionId
  br_intents :: "NodeSummary list"
  br_outcomes :: "NodeSummary list"
  br_requirements :: "NodeSummary list"
  br_constraints :: "NodeSummary list"
  br_non_goals :: "NodeSummary list"

definition brief_projection :: "ProjectRevision \<Rightarrow> BriefProjection" where
  "brief_projection self =
     \<lparr>br_revision_id = rv_id self, br_intents = summaries self NkIntent,
      br_outcomes = summaries self NkOutcome, br_requirements = summaries self NkRequirement,
      br_constraints = summaries self NkConstraint, br_non_goals = summaries self NkNonGoal\<rparr>"

record MilestoneEntry =
  me_node :: NodeSummary
  me_state :: MilestoneState

record RoadmapProjection =
  rm_revision_id :: RevisionId
  rm_workstreams :: "NodeSummary list"
  rm_milestones :: "MilestoneEntry list"
  rm_dependencies :: "EdgeSummary_proj list"

definition milestone_entry :: "PlanNode \<Rightarrow> MilestoneEntry option" where
  "milestone_entry node =
     (case pn_data node of
        NdMilestone state \<Rightarrow> Some \<lparr>me_node = node_summary node, me_state = state\<rparr>
      | _ \<Rightarrow> None)"

definition roadmap_projection :: "ProjectRevision \<Rightarrow> RoadmapProjection" where
  "roadmap_projection self =
     \<lparr>rm_revision_id = rv_id self, rm_workstreams = summaries self NkWorkstream,
      rm_milestones =
        sort_key (summary_order \<circ> me_node) (List.map_filter milestone_entry (current_nodes self)),
      rm_dependencies =
        sort_key es_id
          (map edge_summary_proj (filter (\<lambda>edge. pe_relation edge = ErDependsOn) (current_edges self)))\<rparr>"

record DecisionEntry =
  de_node :: NodeSummary
  de_state :: DecisionState
  de_current :: bool
  de_introduced_revision :: u64
  de_superseded_revision :: "u64 option"
  de_superseded_by :: "NodeId option"

record DecisionLogProjection =
  dl_revision_id :: RevisionId
  dl_decisions :: "DecisionEntry list"

definition decision_entry :: "PlanNode \<Rightarrow> DecisionEntry option" where
  "decision_entry node =
     (case pn_data node of
        NdDecision state \<Rightarrow>
          Some \<lparr>de_node = node_summary node, de_state = state, de_current = node_is_current node,
                de_introduced_revision = pn_introduced_revision node,
                de_superseded_revision = pn_superseded_revision node,
                de_superseded_by = pn_superseded_by node\<rparr>
      | _ \<Rightarrow> None)"

definition decision_log_projection :: "ProjectRevision \<Rightarrow> DecisionLogProjection" where
  "decision_log_projection self =
     \<lparr>dl_revision_id = rv_id self,
      dl_decisions =
        sort_key (\<lambda>d. (de_introduced_revision d, summary_order (de_node d)))
          (List.map_filter decision_entry (bt_values (rv_nodes self)))\<rparr>"

record QuestionEntry =
  qe_node :: NodeSummary
  qe_state :: QuestionState
  qe_current :: bool
  qe_introduced_revision :: u64
  qe_superseded_revision :: "u64 option"
  qe_superseded_by :: "NodeId option"

record QuestionProjection =
  qp_revision_id :: RevisionId
  qp_questions :: "QuestionEntry list"

definition question_entry :: "PlanNode \<Rightarrow> QuestionEntry option" where
  "question_entry node =
     (case pn_data node of
        NdQuestion state \<Rightarrow>
          Some \<lparr>qe_node = node_summary node, qe_state = state, qe_current = node_is_current node,
                qe_introduced_revision = pn_introduced_revision node,
                qe_superseded_revision = pn_superseded_revision node,
                qe_superseded_by = pn_superseded_by node\<rparr>
      | _ \<Rightarrow> None)"

definition question_projection :: "ProjectRevision \<Rightarrow> QuestionProjection" where
  "question_projection self =
     \<lparr>qp_revision_id = rv_id self,
      qp_questions =
        sort_key (\<lambda>q. (question_rank (qst_impact (qe_state q)), summary_order (qe_node q)))
          (List.map_filter question_entry (bt_values (rv_nodes self)))\<rparr>"

record RiskEntry =
  re_node :: NodeSummary
  re_state :: RiskState

record RiskProjection =
  rp_revision_id :: RevisionId
  rp_risks :: "RiskEntry list"

definition risk_entry :: "PlanNode \<Rightarrow> RiskEntry option" where
  "risk_entry node =
     (case pn_data node of
        NdRisk state \<Rightarrow> Some \<lparr>re_node = node_summary node, re_state = state\<rparr>
      | _ \<Rightarrow> None)"

definition risk_projection :: "ProjectRevision \<Rightarrow> RiskProjection" where
  "risk_projection self =
     \<lparr>rp_revision_id = rv_id self,
      rp_risks =
        sort_key (summary_order \<circ> re_node) (List.map_filter risk_entry (current_nodes self))\<rparr>"

record ArchitectureProjection =
  ap_revision_id :: RevisionId
  ap_decisions :: "NodeSummary list"
  ap_constraints :: "NodeSummary list"
  ap_repository_observations :: "NodeSummary list"
  ap_relationships :: "EdgeSummary_proj list"

fun architectural :: "EdgeRelation \<Rightarrow> bool" where
  "architectural ErSupports = True"
| "architectural ErChallenges = True"
| "architectural ErDependsOn = True"
| "architectural ErPartOf = True"
| "architectural ErRelatedTo = True"
| "architectural (ErCustom _) = True"
| "architectural _ = False"

definition architecture_projection :: "ProjectRevision \<Rightarrow> ArchitectureProjection" where
  "architecture_projection self =
     \<lparr>ap_revision_id = rv_id self, ap_decisions = summaries self NkDecision,
      ap_constraints = summaries self NkConstraint,
      ap_repository_observations = summaries self NkRepositoryObservation,
      ap_relationships = current_edge_summaries self architectural\<rparr>"

record BehaviorCatalogProjection =
  bc_revision_id :: RevisionId
  bc_behaviors :: "NodeSummary list"
  bc_verification_relationships :: "EdgeSummary_proj list"

definition behavior_catalog_projection :: "ProjectRevision \<Rightarrow> BehaviorCatalogProjection" where
  "behavior_catalog_projection self =
     \<lparr>bc_revision_id = rv_id self, bc_behaviors = summaries self NkAcceptanceBehavior,
      bc_verification_relationships =
        current_edge_summaries self (\<lambda>relation. relation = ErVerifies)\<rparr>"

record CurrentUnderstandingProjection =
  cu_revision_id :: RevisionId
  cu_nodes :: "NodeSummary list"
  cu_relationships :: "EdgeSummary_proj list"

definition current_understanding_projection ::
  "ProjectRevision \<Rightarrow> CurrentUnderstandingProjection" where
  "current_understanding_projection self =
     \<lparr>cu_revision_id = rv_id self,
      cu_nodes = sort_key summary_order (map node_summary (current_nodes self)),
      cu_relationships = current_edge_summaries self (\<lambda>_. True)\<rparr>"

record ProjectProjections =
  ps_revision_id :: RevisionId
  ps_brief :: BriefProjection
  ps_roadmap :: RoadmapProjection
  ps_decisions :: DecisionLogProjection
  ps_questions :: QuestionProjection
  ps_risks :: RiskProjection
  ps_architecture :: ArchitectureProjection
  ps_behavior_catalog :: BehaviorCatalogProjection
  ps_current_understanding :: CurrentUnderstandingProjection

definition projections :: "ProjectRevision \<Rightarrow> ProjectProjections" where
  "projections self =
     \<lparr>ps_revision_id = rv_id self, ps_brief = brief_projection self,
      ps_roadmap = roadmap_projection self, ps_decisions = decision_log_projection self,
      ps_questions = question_projection self, ps_risks = risk_projection self,
      ps_architecture = architecture_projection self,
      ps_behavior_catalog = behavior_catalog_projection self,
      ps_current_understanding = current_understanding_projection self\<rparr>"

datatype Projection =
    PrBrief BriefProjection
  | PrRoadmap RoadmapProjection
  | PrDecisions DecisionLogProjection
  | PrQuestions QuestionProjection
  | PrRisks RiskProjection
  | PrArchitecture ArchitectureProjection
  | PrBehaviorCatalog BehaviorCatalogProjection
  | PrCurrentUnderstanding CurrentUnderstandingProjection

fun Projection_revision_id :: "Projection \<Rightarrow> RevisionId" where
  "Projection_revision_id (PrBrief v) = br_revision_id v"
| "Projection_revision_id (PrRoadmap v) = rm_revision_id v"
| "Projection_revision_id (PrDecisions v) = dl_revision_id v"
| "Projection_revision_id (PrQuestions v) = qp_revision_id v"
| "Projection_revision_id (PrRisks v) = rp_revision_id v"
| "Projection_revision_id (PrArchitecture v) = ap_revision_id v"
| "Projection_revision_id (PrBehaviorCatalog v) = bc_revision_id v"
| "Projection_revision_id (PrCurrentUnderstanding v) = cu_revision_id v"

fun projection :: "ProjectRevision \<Rightarrow> ProjectionKind \<Rightarrow> Projection" where
  "projection self PkBrief = PrBrief (brief_projection self)"
| "projection self PkRoadmap = PrRoadmap (roadmap_projection self)"
| "projection self PkDecisions = PrDecisions (decision_log_projection self)"
| "projection self PkQuestions = PrQuestions (question_projection self)"
| "projection self PkRisks = PrRisks (risk_projection self)"
| "projection self PkArchitecture = PrArchitecture (architecture_projection self)"
| "projection self PkBehaviorCatalog = PrBehaviorCatalog (behavior_catalog_projection self)"
| "projection self PkCurrentUnderstanding =
     PrCurrentUnderstanding (current_understanding_projection self)"

section \<open>Comparing two revisions\<close>

record RevisionComparison =
  rcm_from_revision :: RevisionId
  rcm_to_revision :: RevisionId
  rcm_added_nodes :: "NodeSummary list"
  rcm_updated_nodes :: "NodeSummary list"
  rcm_superseded_nodes :: "NodeSummary list"
  rcm_added_edges :: "EdgeSummary_proj list"
  rcm_retired_edges :: "EdgeSummary_proj list"

definition node_added :: "PlanNode option \<Rightarrow> PlanNode \<Rightarrow> bool" where
  "node_added old node = (old = None)"

definition node_superseded :: "PlanNode option \<Rightarrow> PlanNode \<Rightarrow> bool" where
  "node_superseded old node =
     (case old of
        None \<Rightarrow> \<not> node_is_current node
      | Some prev \<Rightarrow> node_is_current prev \<and> \<not> node_is_current node)"

definition node_updated :: "PlanNode option \<Rightarrow> PlanNode \<Rightarrow> bool" where
  "node_updated old node =
     (case old of
        None \<Rightarrow> False
      | Some prev \<Rightarrow> \<not> (node_is_current prev \<and> \<not> node_is_current node) \<and> prev \<noteq> node \<and> node_is_current node)"

definition edge_added :: "PlanEdge_proj option \<Rightarrow> PlanEdge_proj \<Rightarrow> bool" where
  "edge_added old edge = (old = None)"

definition edge_retired :: "PlanEdge_proj option \<Rightarrow> PlanEdge_proj \<Rightarrow> bool" where
  "edge_retired old edge =
     (case old of
        None \<Rightarrow> \<not> edge_is_current edge
      | Some prev \<Rightarrow> edge_is_current prev \<and> \<not> edge_is_current edge)"

definition picked :: "('k \<times> 'v) list \<Rightarrow> ('v option \<Rightarrow> 'v \<Rightarrow> bool) \<Rightarrow> ('k \<times> 'v) list \<Rightarrow> 'v list" where
  \<comment> \<open>the values of the newer map that the match on the older entry selects\<close>
  "picked old sel new = map snd (filter (\<lambda>(k, v). sel (map_of old k) v) new)"

definition compare_revisions :: "ProjectRevision \<Rightarrow> ProjectRevision \<Rightarrow> RevisionComparison planned" where
  "compare_revisions self newer =
     (if rv_project_id self \<noteq> rv_project_id newer
      then Inl (PeProjectMismatch (rv_project_id self) (rv_project_id newer))
      else if rv_sequence newer < rv_sequence self
      then Inl (PeInvalidRevisionComparison (rv_sequence self) (rv_sequence newer))
      else
        let nodes = (\<lambda>sel. sort_key summary_order
                       (map node_summary (picked (rv_nodes self) sel (rv_nodes newer))));
            edges = (\<lambda>sel. sort_key es_id
                       (map edge_summary_proj (picked (rv_edges self) sel (rv_edges newer))))
        in Inr \<lparr>rcm_from_revision = rv_id self, rcm_to_revision = rv_id newer,
                rcm_added_nodes = nodes node_added, rcm_updated_nodes = nodes node_updated,
                rcm_superseded_nodes = nodes node_superseded,
                rcm_added_edges = edges edge_added, rcm_retired_edges = edges edge_retired\<rparr>)"

section \<open>A comparison accounts for every difference\<close>

lemma picked_ids:
  assumes "bt_ordered new" "\<And>k v. map_of new k = Some v \<Longrightarrow> f v = k"
  shows "k \<in> f ` set (picked old sel new) \<longleftrightarrow> (\<exists>v. map_of new k = Some v \<and> sel (map_of old k) v)"
proof -
  have mem: "(l, v) \<in> set new \<longleftrightarrow> map_of new l = Some v" for l v
    by (simp add: map_of_eq_Some_iff[OF bt_ordered_distinct[OF assms(1)]])
  have "v \<in> set (picked old sel new) \<longleftrightarrow> (\<exists>l. map_of new l = Some v \<and> sel (map_of old l) v)" for v
    unfolding mem[symmetric] by (force simp: picked_def)
  then have "k \<in> f ` set (picked old sel new)
      \<longleftrightarrow> (\<exists>v l. map_of new l = Some v \<and> sel (map_of old l) v \<and> f v = k)"
    by (simp add: image_iff Bex_def) blast
  then show ?thesis using assms(2) by metis
qed

lemma node_pick_ids:
  assumes "plan_wf s (ns, es)"
  shows "k \<in> ns_id ` set (sort_key summary_order (map node_summary (picked old sel ns)))
    \<longleftrightarrow> (\<exists>v. map_of ns k = Some v \<and> sel (map_of old k) v)"
proof -
  have "map_of ns l = Some v \<Longrightarrow> pn_id v = l" for l v
    using plan_wf_node[OF assms] by (simp add: node_wf_def)
  from picked_ids[OF plan_wf_rules(3)[OF assms] this, where k = k] show ?thesis
    by (simp add: image_image node_summary_def)
qed

lemma edge_pick_ids:
  assumes "plan_wf s (ns, es)"
  shows "k \<in> es_id ` set (sort_key es_id (map edge_summary_proj (picked old sel es)))
    \<longleftrightarrow> (\<exists>v. map_of es k = Some v \<and> sel (map_of old k) v)"
proof -
  have "map_of es l = Some v \<Longrightarrow> pe_id v = l" for l v
    using plan_wf_edge[OF assms] by (simp add: edge_wf_def)
  from picked_ids[OF plan_wf_rules(4)[OF assms] this, where k = k] show ?thesis
    by (simp add: image_image edge_summary_proj_def)
qed

definition listed_nodes :: "RevisionComparison \<Rightarrow> NodeId set" where
  "listed_nodes c =
     ns_id ` (set (rcm_added_nodes c) \<union> set (rcm_updated_nodes c) \<union> set (rcm_superseded_nodes c))"

definition listed_edges :: "RevisionComparison \<Rightarrow> EdgeId set" where
  "listed_edges c = es_id ` (set (rcm_added_edges c) \<union> set (rcm_retired_edges c))"

lemma node_listed_iff:
  assumes "map_extends node_extends old new" "map_of new k = Some n"
  shows "(node_added (map_of old k) n \<or> node_updated (map_of old k) n \<or> node_superseded (map_of old k) n)
    \<longleftrightarrow> map_of old k \<noteq> Some n"
proof (cases "map_of old k")
  case (Some m)
  with assms have "node_extends m n" by (blast intro: map_extendsD)
  with Some show ?thesis
    by (auto simp: node_extends_def node_added_def node_updated_def node_superseded_def)
qed (simp add: node_added_def)

lemma edge_listed_iff:
  assumes "map_extends edge_extends old new" "map_of new k = Some e"
  shows "(edge_added (map_of old k) e \<or> edge_retired (map_of old k) e) \<longleftrightarrow> map_of old k \<noteq> Some e"
proof (cases "map_of old k")
  case (Some m)
  with assms have "edge_extends m e" by (blast intro: map_extendsD)
  with Some show ?thesis
    by (auto simp: edge_extends_def edge_added_def edge_retired_def)
qed (simp add: edge_added_def)

lemma descends_reachable: "plan_descends digest s t \<Longrightarrow> plan_reachable digest s \<Longrightarrow> plan_reachable digest t"
  by (induction rule: plan_descends.induct) (auto intro: plan_reachable.applied)

text \<open>C15: comparing a snapshot with one built on it never fails and lists exactly what differs: a node of the
  newer revision is added, updated or superseded in the comparison if and only if the older revision does
  not hold the same node, and an edge is added or retired if and only if the older revision does not hold
  the same edge.\<close>

theorem comparison_lists_exactly_the_differences:
  assumes "plan_reachable digest s" "plan_descends digest s t"
  shows "\<exists>c. compare_revisions (sn_revision s) (sn_revision t) = Inr c
    \<and> (\<forall>k n. map_of (rv_nodes (sn_revision t)) k = Some n
         \<longrightarrow> (k \<in> listed_nodes c \<longleftrightarrow> map_of (rv_nodes (sn_revision s)) k \<noteq> Some n))
    \<and> (\<forall>k e. map_of (rv_edges (sn_revision t)) k = Some e
         \<longrightarrow> (k \<in> listed_edges c \<longleftrightarrow> map_of (rv_edges (sn_revision s)) k \<noteq> Some e))"
proof -
  have ext: "snapshot_extends s t" using assms(2) by (rule descends_extends)
  have ok: "snapshot_ok digest t" using descends_reachable[OF assms(2,1)] by (rule reachable_ok)
  have wf: "plan_wf (rv_sequence (sn_revision t)) (rv_nodes (sn_revision t), rv_edges (sn_revision t))"
    using ok by (simp add: snapshot_ok_def Let_def snapshot_graph_def)
  have maps: "map_extends node_extends (rv_nodes (sn_revision s)) (rv_nodes (sn_revision t))"
      "map_extends edge_extends (rv_edges (sn_revision s)) (rv_edges (sn_revision t))"
    using ext by (auto simp: snapshot_extends_def plan_extends_def snapshot_graph_def)
  let ?ni = "\<lambda>sel. ns_id ` set (sort_key summary_order (map node_summary
      (picked (rv_nodes (sn_revision s)) sel (rv_nodes (sn_revision t)))))"
  let ?ei = "\<lambda>sel. es_id ` set (sort_key es_id (map edge_summary_proj
      (picked (rv_edges (sn_revision s)) sel (rv_edges (sn_revision t)))))"
  obtain c where c: "compare_revisions (sn_revision s) (sn_revision t) = Inr c"
      "listed_nodes c = ?ni node_added \<union> ?ni node_updated \<union> ?ni node_superseded"
      "listed_edges c = ?ei edge_added \<union> ?ei edge_retired"
    using ext
    by (simp add: compare_revisions_def snapshot_extends_def Let_def not_less listed_nodes_def
        listed_edges_def image_Un)
  have nodes: "k \<in> listed_nodes c \<longleftrightarrow> map_of (rv_nodes (sn_revision s)) k \<noteq> Some n"
    if "map_of (rv_nodes (sn_revision t)) k = Some n" for k n
    using node_listed_iff[OF maps(1) that] that
    by (simp only: c(2) Un_iff node_pick_ids[OF wf] option.inject) auto
  have edges: "k \<in> listed_edges c \<longleftrightarrow> map_of (rv_edges (sn_revision s)) k \<noteq> Some e"
    if "map_of (rv_edges (sn_revision t)) k = Some e" for k e
    using edge_listed_iff[OF maps(2) that] that
    by (simp only: c(3) Un_iff edge_pick_ids[OF wf] option.inject) auto
  show ?thesis using c(1) nodes edges by blast
qed

section \<open>The decision log is an audit log\<close>

lemma decision_data_iff:
  "validate_node_data k (pn_kind n) (pn_data n) = Inr () \<Longrightarrow>
     pn_kind n = NkDecision \<longleftrightarrow> (\<exists>state. pn_data n = NdDecision state)"
  by (cases "pn_kind n"; cases "pn_data n") (simp_all add: validate_node_data_def)

lemma mem_map_filter: "y \<in> set (List.map_filter f xs) \<longleftrightarrow> (\<exists>x \<in> set xs. f x = Some y)"
  by (induction xs) (auto simp: List.map_filter_simps split: option.splits)

lemma mem_decision_log:
  assumes "bt_ordered (rv_nodes r)"
  shows "d \<in> set (dl_decisions (decision_log_projection r))
    \<longleftrightarrow> (\<exists>k n. map_of (rv_nodes r) k = Some n \<and> decision_entry n = Some d)"
  by (simp add: decision_log_projection_def mem_map_filter bt_values_iff[OF assms] Bex_def) blast

text \<open>The decision log forgets nothing. Every entry in the log of a snapshot has an entry in the log of any
  snapshot built on it, under the same id and first revision; an entry that was already superseded is
  repeated unchanged.\<close>

theorem decision_log_forgets_nothing:
  assumes "plan_reachable digest s" "plan_descends digest s t"
    and "d \<in> set (dl_decisions (decision_log_projection (sn_revision s)))"
  shows "\<exists>d' \<in> set (dl_decisions (decision_log_projection (sn_revision t))).
           ns_id (de_node d') = ns_id (de_node d)
           \<and> de_introduced_revision d' = de_introduced_revision d
           \<and> (\<not> de_current d \<longrightarrow> d' = d)"
proof -
  have wf: "plan_wf (rv_sequence (sn_revision u)) (rv_nodes (sn_revision u), rv_edges (sn_revision u))"
    if "plan_reachable digest u" for u
    using reachable_ok[OF that] by (simp add: snapshot_ok_def Let_def snapshot_graph_def)
  note wfs = wf[OF assms(1)] and wft = wf[OF descends_reachable[OF assms(2,1)]]
  from assms(3) obtain k n where n: "map_of (rv_nodes (sn_revision s)) k = Some n" "decision_entry n = Some d"
    by (auto simp: mem_decision_log[OF plan_wf_rules(3)[OF wfs]])
  have "map_extends node_extends (rv_nodes (sn_revision s)) (rv_nodes (sn_revision t))"
    using descends_extends[OF assms(2)] by (simp add: snapshot_extends_def plan_extends_def snapshot_graph_def)
  with n(1) obtain m where m: "map_of (rv_nodes (sn_revision t)) k = Some m" "node_extends n m"
    unfolding map_extends_def by blast
  have "pn_kind n = NkDecision"
    using decision_data_iff[of k n] plan_wf_node[OF wfs n(1)] n(2)
    by (auto simp: node_wf_def decision_entry_def split: NodeData.splits)
  then have "\<exists>state. pn_data m = NdDecision state"
    using decision_data_iff[of k m] plan_wf_node[OF wft m(1)] m(2)
    by (auto simp: node_wf_def node_extends_def)
  then obtain d' where d': "decision_entry m = Some d'" by (auto simp: decision_entry_def)
  then have "d' \<in> set (dl_decisions (decision_log_projection (sn_revision t)))"
    using m(1) mem_decision_log[OF plan_wf_rules(3)[OF wft]] by blast
  moreover have "ns_id (de_node d') = ns_id (de_node d) \<and> de_introduced_revision d' = de_introduced_revision d
      \<and> (\<not> de_current d \<longrightarrow> d' = d)"
    using n(2) d' m(2)
    by (auto simp: decision_entry_def node_summary_def node_extends_def split: NodeData.splits)
  ultimately show ?thesis by blast
qed

end
