(* ===== verification/PlanExample.thy ===== *)
theory PlanExample
  imports PlanDurable Projections
begin

text \<open>
  A small project on which the properties of plans, comparisons and the project store are applied: a
  requirement that supports a decision, then an edit that renames the requirement and supersedes the
  decision. \<open>demo_json\<close> encodes only the values that occur, which makes its decoders total and faithful;
  \<open>demo_digest\<close> names a revision by its sequence.
\<close>

definition demo_source :: "Provenance list" where
  "demo_source =
     [\<lparr>pv_classification = PvUserStated, pv_source = PsManual ''note'', pv_recorded_at = 0,
       pv_confidence = Some 10000, pv_freshness = None\<rparr>]"

definition demo_decision :: "NodeId \<Rightarrow> string \<Rightarrow> PlanNodeDraft" where
  "demo_decision k title =
     \<lparr>pnd_id = k, pnd_kind = NkDecision, pnd_title = title, pnd_body = [],
      pnd_data = NdDecision \<lparr>dst_status = DsAccepted, dst_selected_option = None, dst_rationale = None,
        dst_authority_basis = None, dst_reversible = True, dst_decided_by = Some DmUser\<rparr>,
      pnd_provenance = demo_source\<rparr>"

definition demo_create :: CreateProject where
  "demo_create =
     (CreateProject_new ''r0'' 7 ''Plan'' RaUser 5)
       \<lparr>cp_initial_changes :=
          [AddNode \<lparr>pnd_id = 1, pnd_kind = NkRequirement, pnd_title = ''fast'', pnd_body = [],
                    pnd_data = NodeData_generic ''open'', pnd_provenance = demo_source\<rparr>,
           AddNode (demo_decision 2 ''index''),
           AddEdge \<lparr>ped_id = 9, ped_from = 1, ped_relation = ErSupports, ped_to = 2,
                    ped_provenance = demo_source\<rparr>]\<rparr>"

definition demo_change :: PlanChangeSet where
  "demo_change =
     PlanChangeSet_new ''r1'' 7 ''0'' ''Revise'' RaUser 6
       [UpdateNode 1 \<lparr>np_title = Some ''faster'', np_body = None, np_data = None\<rparr> demo_source,
        SupersedeNode 2 (demo_decision 3 ''cache'')]"

definition demo_other :: PlanChangeSet where
  "demo_other = PlanChangeSet_new ''r2'' 7 ''0'' ''Late'' RaUser 6 []"

definition demo_bad :: PlanChangeSet where
  "demo_bad = PlanChangeSet_new ''r1'' 7 ''0'' ''Other'' RaUser 6 []"

definition demo_digest :: content_digest where
  "demo_digest c = Inr (nat_digits (unat (rc_sequence c)))"

definition demo_s0 :: ProjectSnapshot where
  "demo_s0 = projr (ProjectSnapshot_create demo_digest demo_create)"

definition demo_s1 :: ProjectSnapshot where
  "demo_s1 = projr (ProjectSnapshot_apply demo_digest demo_s0 demo_change)"

lemma projr_eq: "\<not> isl r \<Longrightarrow> r = Inr (projr r)"
  by (cases r) simp_all

lemma demo_s0_created: "ProjectSnapshot_create demo_digest demo_create = Inr demo_s0"
  unfolding demo_s0_def by (rule projr_eq) code_simp

lemma demo_s1_applied: "ProjectSnapshot_apply demo_digest demo_s0 demo_change = Inr demo_s1"
  unfolding demo_s1_def by (rule projr_eq) code_simp

section \<open>Plans\<close>

lemma demo_s0_reachable: "plan_reachable demo_digest demo_s0"
  using demo_s0_created by (rule plan_reachable.created)

lemma demo_s1_reachable: "plan_reachable demo_digest demo_s1"
  using demo_s0_reachable demo_s1_applied by (rule plan_reachable.applied)

lemma demo_descends: "plan_descends demo_digest demo_s0 demo_s1"
  using plan_descends.same demo_s1_applied by (rule plan_descends.later)

theorem snapshots_are_well_formed_witness: "snapshot_ok demo_digest demo_s1"
  by (rule snapshots_are_well_formed[OF demo_s1_reachable])

theorem history_is_append_only_witness: "snapshot_extends demo_s0 demo_s1"
  by (rule history_is_append_only[OF demo_descends])

lemma demo_old_decision: "\<exists>n. map_of (rv_nodes (sn_revision demo_s1)) 2 = Some n"
proof -
  have "map_of (rv_nodes (sn_revision demo_s1)) 2 \<noteq> None" by code_simp
  then show ?thesis by blast
qed

theorem successors_end_in_a_current_node_witness:
  "\<exists>!m. (2, m) \<in> (replaced_by (rv_nodes (sn_revision demo_s1)))\<^sup>*
     \<and> map_option pn_kind (current_at (rv_nodes (sn_revision demo_s1)) m)
       = Some (pn_kind (the (map_of (rv_nodes (sn_revision demo_s1)) 2)))"
proof -
  obtain n where n: "map_of (rv_nodes (sn_revision demo_s1)) 2 = Some n" using demo_old_decision by blast
  from successors_end_in_a_current_node[OF demo_s1_reachable n] n show ?thesis by simp
qed

definition demo_dangling :: "PlanChange list" where
  "demo_dangling =
     [AddNode \<lparr>pnd_id = 2, pnd_kind = NkDecision, pnd_title = ''pick'', pnd_body = [],
       pnd_data = NdDecision \<lparr>dst_status = DsProposed, dst_selected_option = Some 8, dst_rationale = None,
         dst_authority_basis = None, dst_reversible = True, dst_decided_by = None\<rparr>,
       pnd_provenance = demo_source\<rparr>]"

theorem only_references_remain_to_check_witness:
  "reference_error (PeMissingNodeReference 2 8 ''selected_option'')"
proof -
  let ?g = "projr (apply_changes 0 demo_dangling ([], []))"
  have edits: "apply_changes 0 demo_dangling ([], []) = Inr ?g" by (rule projr_eq) code_simp
  have "validate_graph (fst ?g) (snd ?g) = Inl (PeMissingNodeReference 2 8 ''selected_option'')" by code_simp
  with only_references_remain_to_check[OF plan_wf_empty, of 0 demo_dangling "fst ?g" "snd ?g"] edits
  show ?thesis by simp
qed

theorem comparison_lists_exactly_the_differences_witness:
  "\<exists>c. compare_revisions (sn_revision demo_s0) (sn_revision demo_s1) = Inr c
    \<and> (\<forall>k n. map_of (rv_nodes (sn_revision demo_s1)) k = Some n
         \<longrightarrow> (k \<in> listed_nodes c \<longleftrightarrow> map_of (rv_nodes (sn_revision demo_s0)) k \<noteq> Some n))
    \<and> (\<forall>k e. map_of (rv_edges (sn_revision demo_s1)) k = Some e
         \<longrightarrow> (k \<in> listed_edges c \<longleftrightarrow> map_of (rv_edges (sn_revision demo_s0)) k \<noteq> Some e))"
  by (rule comparison_lists_exactly_the_differences[OF demo_s0_reachable demo_descends])

theorem decision_log_forgets_nothing_witness:
  "\<exists>d' \<in> set (dl_decisions (decision_log_projection (sn_revision demo_s1))). ns_id (de_node d') = 2"
proof -
  let ?d = "hd (dl_decisions (decision_log_projection (sn_revision demo_s0)))"
  have "dl_decisions (decision_log_projection (sn_revision demo_s0)) \<noteq> []" by code_simp
  then have d: "?d \<in> set (dl_decisions (decision_log_projection (sn_revision demo_s0)))" by simp
  have "ns_id (de_node ?d) = 2" by code_simp
  with decision_log_forgets_nothing[OF demo_s0_reachable demo_descends d] show ?thesis by auto
qed

section \<open>The project store\<close>

definition demo_json :: plan_json where
  "demo_json =
     \<lparr>js_create = (\<lambda>x. if x = demo_create then Inr ''c'' else Inl (PsSerialization [])),
      js_change_set = (\<lambda>x. if x = demo_change then Inr ''d'' else if x = demo_other then Inr ''o''
        else if x = demo_bad then Inr ''b'' else Inl (PsSerialization [])),
      js_project = (\<lambda>x. if x = sn_project demo_s0 then Inr ''0'' else if x = sn_project demo_s1 then Inr ''1''
        else Inl (PsSerialization [])),
      js_revision = (\<lambda>x. if x = sn_revision demo_s0 then Inr ''0'' else if x = sn_revision demo_s1 then Inr ''1''
        else Inl (PsSerialization [])),
      js_status = (\<lambda>_. Inr ''s''), js_policy = (\<lambda>_. Inr ''p''), js_author = (\<lambda>_. Inr ''a''),
      js_node = (\<lambda>_. Inr ''n''), js_edge = (\<lambda>_. Inr ''e''),
      js_to_create = (\<lambda>t. if t = ''c'' then Inr demo_create else Inl (PsSerialization t)),
      js_to_change_set = (\<lambda>t. if t = ''d'' then Inr demo_change else if t = ''o'' then Inr demo_other
        else if t = ''b'' then Inr demo_bad else Inl (PsSerialization t)),
      js_to_project = (\<lambda>t. if t = ''0'' then Inr (sn_project demo_s0)
        else if t = ''1'' then Inr (sn_project demo_s1) else Inl (PsSerialization t)),
      js_to_revision = (\<lambda>t. if t = ''0'' then Inr (sn_revision demo_s0)
        else if t = ''1'' then Inr (sn_revision demo_s1) else Inl (PsSerialization t))\<rparr>"

lemma demo_json_faithful: "json_faithful demo_json"
  unfolding json_faithful_def demo_json_def by (auto split: if_split_asm)

definition demo_db1 :: PlanDb where
  "demo_db1 = snd (projr (ProjectStore_create demo_json demo_digest demo_create empty_db))"

definition demo_db2 :: PlanDb where
  "demo_db2 = snd (projr (ProjectStore_apply demo_json demo_digest 7 ''0'' demo_change demo_db1))"

lemma demo_db1_created:
  "\<exists>res. ProjectStore_create demo_json demo_digest demo_create empty_db = Inr (res, demo_db1)"
proof -
  have "\<not> isl (ProjectStore_create demo_json demo_digest demo_create empty_db)" by code_simp
  from projr_eq[OF this] show ?thesis unfolding demo_db1_def by (metis prod.collapse)
qed

lemma demo_db2_applied:
  "ProjectStore_apply demo_json demo_digest 7 ''0'' demo_change demo_db1
     = Inr (\<lparr>arr_snapshot = demo_s1, arr_replayed = False\<rparr>, demo_db2)"
proof -
  let ?r = "ProjectStore_apply demo_json demo_digest 7 ''0'' demo_change demo_db1"
  have "\<not> isl ?r" by code_simp
  then have "?r = Inr (fst (projr ?r), demo_db2)" unfolding demo_db2_def by (simp add: projr_eq[symmetric])
  moreover have "fst (projr ?r) = \<lparr>arr_snapshot = demo_s1, arr_replayed = False\<rparr>" by code_simp
  ultimately show ?thesis by simp
qed

lemma demo_plan_run: "plan_run demo_json demo_digest empty_db demo_db1"
  using demo_db1_created plan_run.run_create[OF plan_run.run_none] by blast

theorem apply_refines_the_log_witness:
  "\<exists>logs q logs'. js_change_set demo_json demo_change = Inr q \<and> db_holds demo_json demo_digest logs' demo_db2
    \<and> log_step demo_json logs 7 ''r1'' q \<lparr>arr_snapshot = demo_s1, arr_replayed = False\<rparr> logs'"
proof -
  obtain logs where l: "db_holds demo_json demo_digest logs demo_db1"
    using run_extends_logs[OF demo_plan_run demo_json_faithful db_holds_empty] by blast
  have "cs_request_id demo_change = ''r1''" by code_simp
  with apply_refines_the_log[OF demo_json_faithful l demo_db2_applied] show ?thesis by auto
qed


theorem acknowledged_revisions_are_durable_witness:
  "get_revision demo_json demo_db2 7 (rv_id (sn_revision demo_s1)) = Inr (Some demo_s1)"
  using acknowledged_revisions_are_durable[OF demo_json_faithful demo_plan_run demo_db2_applied plan_run.run_none]
  by simp



end
