(* ===== verification/Spec2Isabelle.thy ===== *)
theory Spec2Isabelle
  imports Supersede Aging Cycles Priority LadderLaws Progress Router Acceptance Insertion Liveness Classify Redact Rows Commit PlanExample
begin

text \<open>
  \<^bold>\<open>RustyKrab's control layer and project plans: a verification library\<close>

  RustyKrab is an agent gateway in Rust. Its controller is a deterministic loop in code, never a model: it
  schedules a graph of work items joined by typed edges and parent links, decides what may run, carries the
  consequences of every closing item through the graph, climbs a ladder of remedies on each failure and asks
  its owner only what nobody delegated. Those decisions are pure functions in
  \<^verbatim>\<open>src/crates/rustykrab-control\<close> over the data types of \<^verbatim>\<open>src/crates/rustykrab-core\<close>; they are written to the
  SQLite tables of \<^verbatim>\<open>src/crates/rustykrab-store\<close> in one transaction. What the work is for, the plan of a
  project, is a graph of immutable revisions in \<^verbatim>\<open>src/crates/rustykrab-projects\<close>. This library models these and
  proves what they promise. File names below are relative to \<^verbatim>\<open>src/crates/rustykrab-control/src\<close> unless they
  start with \<^verbatim>\<open>core/\<close>, \<^verbatim>\<open>store/\<close> or \<^verbatim>\<open>projects/\<close> (the \<^verbatim>\<open>src\<close> directories of those crates).

  \<^bold>\<open>How the parts interact.\<close>
  A \<^verbatim>\<open>Snapshot\<close> holds the items and edges of the graph in memory. The store loads one, the graph functions
  read it and return \<^verbatim>\<open>Effects\<close> (transitions, re-pointed and dropped edges, revoked leases), and the
  controller writes the effects in one transaction. A closing item or a fired trigger is a controller \<open>step\<close>:
  the cascade and the subtree cancel follow from it, then the roll-up of the parents and the settling of
  readiness. A filing (a plan of drafts) passes \<open>validate\<close> before any of it is stored, and \<open>supersede\<close> retires
  what it replaces. A failure is classified into the error taxonomy and fingerprinted; the ladder reads the
  error, the item's rung history and its budgets, and answers the next move. A question that the ladder or the
  validator raises is routed: answered by standing judgment the owner compiled from words, or put to the owner.
  A controller decision loads the snapshot (\<open>load\<close>), collects writes in a \<open>Batch\<close> that keeps its own snapshot in
  step, and hands the queued operations to the store (\<open>work_apply\<close>). A project's owner or agent edits its plan
  by change sets (\<open>ProjectSnapshot_apply\<close>), which the project store accepts against the current revision only and
  at most once for each request id.

  \<^bold>\<open>The theories, in the order of their imports.\<close>
  \<^item> \<^theory_text>\<open>Prelude\<close>: words of 32 and 64 bits with their saturating operations, string functions of the Rust
    standard library (\<open>split_once\<close>, \<open>trim\<close>, \<open>to_lowercase\<close>, \<open>split_whitespace\<close>, ...), sorting by a key, lists.
  \<^item> \<^theory_text>\<open>Work\<close> (\<^verbatim>\<open>core/work.rs\<close>): kinds, statuses, edges, triggers, budgets, items, evidence, events, error classes,
    rungs, drafts, plans, with the string form of each enum and its parser, under the locale \<open>string_codec\<close>.
  \<^item> \<^theory_text>\<open>Snapshot\<close> (\<^verbatim>\<open>graph/mod.rs\<close>, \<^verbatim>\<open>graph/snapshot.rs\<close>): the snapshot with its indexes, the tree walks, every
    operation on it, \<open>snap_apply\<close> (replaying effects), and its invariant \<open>wf_snap\<close>, which all operations keep.
  \<^item> \<^theory_text>\<open>Ready\<close> (\<^verbatim>\<open>graph/ready.rs\<close>): what one edge says about its item (\<open>verdict\<close>), the gate of an item and its ancestors.
  \<^item> \<^theory_text>\<open>Rollup\<close> (\<^verbatim>\<open>graph/rollup.rs\<close>): the status a parent takes from its subtree, deepest parents first.
  \<^item> \<^theory_text>\<open>Cascade\<close>, \<^theory_text>\<open>CascadeLaws\<close>, \<^theory_text>\<open>CascadeOutcomes\<close> (\<^verbatim>\<open>graph/cascade.rs\<close>): closing cascades, subtree cancels, holds,
    settling, the controller step; the laws every status write obeys, under the locales \<open>cascade_keeps\<close> and
    \<open>settle_keeps\<close>; and what the three kinds of cascade do, exactly.
  \<^item> \<^theory_text>\<open>Supersede\<close> (\<^verbatim>\<open>graph/supersede.rs\<close>), \<^theory_text>\<open>Aging\<close> (\<^verbatim>\<open>graph/aging.rs\<close>), \<^theory_text>\<open>Priority\<close> (\<^verbatim>\<open>graph/priority.rs\<close>):
    replacing items, which closed items may be archived, and inherited urgency with the dispatch list.
  \<^item> \<^theory_text>\<open>DepOrder\<close>, \<^theory_text>\<open>Tarjan\<close>, \<^theory_text>\<open>TarjanLaws\<close>, \<^theory_text>\<open>Cycles\<close> (\<^verbatim>\<open>graph/order.rs\<close>): the dependency relation, the reachability
    bit sets, Tarjan's iterative search with its invariant and the path reported for a cycle.
  \<^item> \<^theory_text>\<open>Gaps\<close>, \<^theory_text>\<open>Fingerprint\<close>, \<^theory_text>\<open>Classify\<close> (\<^verbatim>\<open>errors/*.rs\<close>, \<^verbatim>\<open>core/error.rs\<close>): capability gaps and the fix item, the
    normal form of a message, its fingerprint, recurrence; the classifier, its rule table and learned rules.
  \<^item> \<^theory_text>\<open>Ladder\<close>, \<^theory_text>\<open>LadderLaws\<close> (\<^verbatim>\<open>ladder/*.rs\<close>): the next move of the resolution ladder as a pure state machine, its
    events, and the runs of it (\<open>climb\<close>) with budgets, single filings and termination.
  \<^item> \<^theory_text>\<open>Progress\<close> (\<^verbatim>\<open>progress.rs\<close>): the ledger that calls a run stalled.
  \<^item> \<^theory_text>\<open>Questions\<close>, \<^theory_text>\<open>Judgment\<close>, \<^theory_text>\<open>Router\<close> (\<^verbatim>\<open>core/questions.rs\<close>, \<^verbatim>\<open>core/work_preference.rs\<close>, \<^verbatim>\<open>questions/*.rs\<close>): the
    question data, the grammar that compiles the owner's sentences to checks, the fold of grants, the router.
  \<^item> \<^theory_text>\<open>Filing\<close>, \<^theory_text>\<open>Validate\<close>, \<^theory_text>\<open>ValidateLaws\<close>, \<^theory_text>\<open>ValidateOutcomes\<close>, \<^theory_text>\<open>FilingExample\<close>, \<^theory_text>\<open>Acceptance\<close>, \<^theory_text>\<open>Insertion\<close>
    (\<^verbatim>\<open>graph/validate.rs\<close>): the data of a filing, the validator with all its checks and messages, what a clean run
    of them means (the locale \<open>filing_check\<close>), what acceptance promises, and inserting the accepted rows.
  \<^item> \<^theory_text>\<open>Redact\<close> (\<^verbatim>\<open>investigate/redact.rs\<close>): the four passes that remove secrets from text.
  \<^item> \<^theory_text>\<open>Store\<close>, \<^theory_text>\<open>StoreApply\<close>, \<^theory_text>\<open>StoreLaws\<close>, \<^theory_text>\<open>StoreFacts\<close>, \<^theory_text>\<open>Rows\<close> (\<^verbatim>\<open>store/work_items/*.rs\<close>, \<^verbatim>\<open>store/questions.rs\<close>,
    \<^verbatim>\<open>store/proposals.rs\<close>): the tables of the work graph as lists of rows with their keys, each read and write, the
    transaction, the archive, the invariant \<open>wf_store\<close>, what any sequence of public writes keeps (an abstract
    machine of moves and runs), and reading rows back.
  \<^item> \<^theory_text>\<open>Routing\<close> (\<^verbatim>\<open>routing.rs\<close>, \<^verbatim>\<open>store/workers.rs\<close>): the record of a worker in a class and when it has earned more.
  \<^item> \<^theory_text>\<open>Load\<close>, \<^theory_text>\<open>Batch\<close>, \<^theory_text>\<open>BatchLaws\<close>, \<^theory_text>\<open>Mirror\<close>, \<^theory_text>\<open>Commit\<close> (\<^verbatim>\<open>controller/load.rs\<close>, \<^verbatim>\<open>controller/batch.rs\<close>, the causes of
    \<^verbatim>\<open>controller/notice.rs\<close>): loading, every method of a batch, the relation \<open>mirrors\<close> between tables and snapshot,
    and that the store takes what the decisions \<open>decides\<close> lists have queued.
  \<^item> \<^theory_text>\<open>PlanModel\<close>, \<^theory_text>\<open>PlanRevision\<close> (\<^verbatim>\<open>projects/{ids,provenance,model,change_set,error,revision}.rs\<close>): plan nodes, edges and
    change sets, every check and edit, and the constructors of a snapshot. \<^theory_text>\<open>PlanLaws\<close>, \<^theory_text>\<open>PlanHistory\<close>, \<^theory_text>\<open>PlanChain\<close>,
    \<^theory_text>\<open>PlanLineage\<close>: the invariant \<open>plan_wf\<close>, the history \<open>plan_extends\<close>, the locales \<open>plan_edit\<close> and \<open>plan_lineage\<close>
    interpreted on one edit, reachable snapshots and the chains of successors.
  \<^item> \<^theory_text>\<open>Projections\<close> (\<^verbatim>\<open>projects/projection.rs\<close>): the views of a revision and the comparison of two revisions.
  \<^item> \<^theory_text>\<open>PlanStore\<close>, \<^theory_text>\<open>PlanLog\<close>, \<^theory_text>\<open>PlanSteps\<close>, \<^theory_text>\<open>PlanDurable\<close> (\<^verbatim>\<open>store/projects.rs\<close>): the four tables of the project store
    and its handle, the abstract log of accepted requests, the refinement, and what callers can rely on over any
    run of requests; \<^theory_text>\<open>PlanExample\<close> applies these properties to a small project.
  \<^item> \<^theory_text>\<open>Liveness\<close>: readiness, the cascade and the cycle search together: acyclic open work is never stuck.

  \<^bold>\<open>Conventions.\<close> A Rust struct is a record whose fields have a short prefix (\<open>wi_\<close> for a work item, \<open>e_\<close> for an edge,
  \<open>er_\<close> for an error), an enum a datatype whose constructors have a prefix where they would clash, a map with a
  meaningful order an association list, \<^verbatim>\<open>u32\<close> and \<^verbatim>\<open>u64\<close> words, timestamps and durations integers, \<^verbatim>\<open>Result\<close> a
  sum with the error on the left. A mutable snapshot or ledger is passed and returned. Everything is executable.

  \<^bold>\<open>Bounds and loops.\<close> There is no fuel. Work lists (\<open>run_loop\<close>, \<open>hold_loop\<close>, \<open>donate_loop\<close>, the breadth-first path of
  a cycle, Tarjan's loop) are functions with a termination proof, whose measure counts what each turn uses up: items
  not yet seen or still open, arcs not yet passed. Walks up the parents stop at the number of rows, as the source
  stops at a repeated id. A batch settles at most 64 rounds (\<open>SETTLE_ROUNDS\<close>) and looks for a covering plan B at most
  eight levels down, the source's own bounds. \<open>climb_ends\<close> bounds the runs of the ladder by the sum of its budgets plus one.

  \<^bold>\<open>Parameters.\<close> What is not under \<^verbatim>\<open>src/\<close> is an argument: \<open>sha\<close> (SHA-256 in hexadecimal), the revision digest of a
  priority list, the step hash of the progress ledger, \<open>uuid\<close> (the n-th identifier drawn), the host's catalog of
  tools and credentials (two predicates), \<open>to_json\<close> and \<open>of_json\<close> for rung events, the \<open>digest\<close> of a revision's content and
  the codec \<open>plan_json\<close> of the project store with the hypothesis \<open>json_faithful\<close> that what was encoded decodes. A
  column whose text is parsed by library code appears in a raw row as the result of the parse. Strings are lists of the first 256 characters, with
  lowercasing, whitespace and alphanumeric tests as Rust defines them there.

  \<^bold>\<open>What the lemmas show.\<close> Each theory ends with its properties, named C1 to C40 in the order of importance: the
  invariant of the snapshot, refinement of the effects by the working state, the status machine, who is held,
  cancelled or re-pointed, readiness after a step, no deadlock, correctness of the cycle search, the promises of an
  accepted filing (acyclic, within the caps, writers ordered, side effects held for consent), budgets and termination
  of the ladder, soundness of delegation, what the work store keeps under any sequence of writes, that a batch of
  status decisions commits, and for project plans an append-only history, chains of successors that end, exact
  comparisons, requests that happen once, refused stale parents and one chain of revisions.
  Two of them state defects: \<open>prohibition_lifts_consent\<close> and \<open>superseded_plan_edge_is_lost\<close>; the lemma
  \<open>research_reopens_an_answer\<close> states a divergence from a comment.

  \<^bold>\<open>Not modelled.\<close> The asynchronous handlers of the controller (\<^verbatim>\<open>controller/tick.rs\<close>, \<^verbatim>\<open>filing.rs\<close>, \<^verbatim>\<open>planning.rs\<close> and
  the rest of \<^verbatim>\<open>controller/\<close>), workers, worktrees and processes, the review surface, the other tables of the store with
  its migrations, the gateway, the command line, channels, tools, providers, memory, dreams and the agent runner:
  they are input and output, network, model calls and databases around the decisions above. The theorem on batches
  leaves out filings (\<open>batch_file\<close>), effects put together outside the batch that re-point or drop edges, and
  operations the handlers queue beside the batch's methods. Unicode beyond the first 256 code points is left out,
  as are the message texts the code only logs and the texts of SQLite and serde errors.
\<close>

end
